(* ===== verification/Prelude.thy ===== *)
theory Prelude
  imports Main "HOL-Library.Word" "HOL-Library.List_Lexorder" "HOL-Library.Char_ord"
    "HOL-Library.Product_Lexorder" "HOL-Library.Option_ord" "HOL-Library.Finite_Map"
    "HOL-Library.Sublist"
begin

text \<open>
  Shared material of the development: the machine types of the Rust sources, the
  operations of the Rust standard library that the modelled code calls (string splitting,
  decimal printing and parsing, saturating and checked arithmetic, byte views of strings)
  and the generic lemmas on them that the component theories use.

  Conventions. A Rust \<open>String\<close> or \<open>&str\<close> is a HOL \<^typ>\<open>string\<close> whose characters are the
  UTF-8 bytes; \<open>u8\<close>, \<open>u32\<close> and \<open>u64\<close> are words; a \<open>Result<T, E>\<close> is \<open>'e + 't\<close> with \<open>Inl\<close>
  the error; \<open>usize\<close> values that count elements held in memory are \<^typ>\<open>nat\<close>.
\<close>

named_theorems catalog_simps \<open>defining equations of the WAL catalog's small operations\<close>
named_theorems queue_simps \<open>defining equations of the compaction queues\<close>

type_synonym u8 = "8 word"
type_synonym u32 = "32 word"
type_synonym u64 = "64 word"
type_synonym i64 = int
type_synonym bytes = "8 word list"

section \<open>Results\<close>

text \<open>The question-mark operator of Rust: stop at the first error.\<close>

definition bindR :: "'e + 'a \<Rightarrow> ('a \<Rightarrow> 'e + 'b) \<Rightarrow> 'e + 'b" where
  "bindR r f = (case r of Inl e \<Rightarrow> Inl e | Inr x \<Rightarrow> f x)"

lemma bindR_simps [simp]: "bindR (Inl e) f = Inl e" "bindR (Inr x) f = f x"
  by (simp_all add: bindR_def)

lemma bindR_Inr_iff: "bindR r f = Inr y \<longleftrightarrow> (\<exists>x. r = Inr x \<and> f x = Inr y)"
  by (cases r) simp_all

lemma bindR_cong [fundef_cong]:
  "r = r' \<Longrightarrow> (\<And>x. r' = Inr x \<Longrightarrow> f x = g x) \<Longrightarrow> bindR r f = bindR r' g"
  by (cases r') simp_all

definition is_err :: "'e + 'a \<Rightarrow> bool" where
  "is_err r = (case r of Inl _ \<Rightarrow> True | Inr _ \<Rightarrow> False)"

lemma is_err_simps [simp]: "is_err (Inl e)" "\<not> is_err (Inr x)"
  by (simp_all add: is_err_def)

section \<open>Machine arithmetic\<close>

definition checked_add :: "'a::len word \<Rightarrow> 'a word \<Rightarrow> 'a word option" where
  "checked_add a b = (if unat a + unat b < 2 ^ LENGTH('a) then Some (a + b) else None)"

definition sat_add :: "'a::len word \<Rightarrow> 'a word \<Rightarrow> 'a word" where
  "sat_add a b = (if unat a + unat b < 2 ^ LENGTH('a) then a + b else - 1)"

definition sat_sub :: "'a::len word \<Rightarrow> 'a word \<Rightarrow> 'a word" where
  "sat_sub a b = (if b \<le> a then a - b else 0)"

lemma checked_add_Some:
  "checked_add a b = Some c \<Longrightarrow> unat c = unat a + unat b"
  by (auto simp: checked_add_def unat_word_ariths split: if_splits)

lemma checked_add_None:
  fixes a b :: "'a::len word"
  shows "checked_add a b = None \<longleftrightarrow> 2 ^ LENGTH('a) \<le> unat a + unat b"
  by (auto simp: checked_add_def)

lemma unat_sat_add:
  fixes a b :: "'a::len word"
  shows "unat (sat_add a b) = min (unat a + unat b) (2 ^ LENGTH('a) - 1)"
proof (cases "unat a + unat b < 2 ^ LENGTH('a)")
  case True
  then show ?thesis by (simp add: sat_add_def unat_word_ariths)
next
  case False
  have "unat (- 1 :: 'a word) = 2 ^ LENGTH('a) - 1"
    by (simp add: unsigned_minus_1_eq_mask mask_eq_exp_minus_1)
  with False show ?thesis by (simp add: sat_add_def)
qed

lemma unat_sat_sub:
  "unat (sat_sub a b) = unat a - unat b"
  by (auto simp: sat_sub_def unat_sub word_le_nat_alt)

lemma sat_add_ge:
  fixes a b :: "'a::len word"
  shows "a \<le> sat_add a b"
proof -
  have "unat a < 2 ^ LENGTH('a)" by (rule unsigned_less)
  then have "unat a \<le> 2 ^ LENGTH('a) - 1" by linarith
  then show ?thesis by (simp add: word_le_nat_alt unat_sat_add)
qed

section \<open>Strings\<close>

definition squote :: string where "squote = [CHR 0x27]"

fun strip_prefix :: "'a list \<Rightarrow> 'a list \<Rightarrow> 'a list option" where
  "strip_prefix [] s = Some s"
| "strip_prefix (p # ps) [] = None"
| "strip_prefix (p # ps) (c # s) = (if p = c then strip_prefix ps s else None)"

lemma strip_prefix_append [simp]: "strip_prefix p (p @ s) = Some s"
  by (induction p) auto

lemma strip_prefix_Some_iff: "strip_prefix p s = Some r \<longleftrightarrow> s = p @ r"
  by (induction p s rule: strip_prefix.induct) auto

lemma strip_prefix_None_iff: "strip_prefix p s = None \<longleftrightarrow> \<not> prefix p s"
  by (induction p s rule: strip_prefix.induct) auto

text \<open>\<open>str::split_once\<close> and \<open>str::rsplit_once\<close> on a one-byte separator.\<close>

fun split_once :: "char \<Rightarrow> string \<Rightarrow> (string \<times> string) option" where
  "split_once c [] = None"
| "split_once c (x # xs) =
     (if x = c then Some ([], xs)
      else map_option (\<lambda>(a, b). (x # a, b)) (split_once c xs))"

definition rsplit_once :: "char \<Rightarrow> string \<Rightarrow> (string \<times> string) option" where
  "rsplit_once c s = map_option (\<lambda>(a, b). (rev b, rev a)) (split_once c (rev s))"

lemma split_once_absent: "c \<notin> set s \<Longrightarrow> split_once c s = None"
  by (induction s) auto

lemma split_once_append: "c \<notin> set a \<Longrightarrow> split_once c (a @ c # b) = Some (a, b)"
  by (induction a) auto

lemma rsplit_once_append: "c \<notin> set b \<Longrightarrow> rsplit_once c (a @ c # b) = Some (a, b)"
  using split_once_append[of c "rev b" "rev a"] by (simp add: rsplit_once_def)

lemma split_once_SomeD: "split_once c s = Some (a, b) \<Longrightarrow> s = a @ c # b \<and> c \<notin> set a"
  by (induction s arbitrary: a) (auto split: if_splits)

lemma rsplit_once_SomeD: "rsplit_once c s = Some (a, b) \<Longrightarrow> s = a @ c # b \<and> c \<notin> set b"
  by (auto simp: rsplit_once_def rev_swap dest!: split_once_SomeD)

text \<open>\<open>str::split\<close> on a one-byte separator: always at least one part.\<close>

fun split_on :: "char \<Rightarrow> string \<Rightarrow> string list" where
  "split_on c [] = [[]]"
| "split_on c (x # xs) =
     (if x = c then [] # split_on c xs
      else (case split_on c xs of [] \<Rightarrow> [[x]] | p # ps \<Rightarrow> (x # p) # ps))"

lemma split_on_absent: "c \<notin> set s \<Longrightarrow> split_on c s = [s]"
  by (induction s) auto

lemma split_on_append: "c \<notin> set a \<Longrightarrow> split_on c (a @ c # b) = a # split_on c b"
  by (induction a) auto


text \<open>A separator that occurs in neither left part splits a concatenation in one way.\<close>

lemma sep_append_inj:
  "c \<notin> set a \<Longrightarrow> c \<notin> set a' \<Longrightarrow> a @ c # b = a' @ c # b' \<longleftrightarrow> a = a' \<and> b = b'"
proof (induction a arbitrary: a')
  case Nil
  then show ?case by (cases a') auto
next
  case (Cons x a)
  then show ?case by (cases a') auto
qed

section \<open>Decimal numbers\<close>

text \<open>\<open>Display\<close> of an unsigned integer and \<open>str::parse\<close> into one: an optional leading plus
  sign, at least one digit, only digits, and a value in range.\<close>

definition digit_char :: "nat \<Rightarrow> char" where
  "digit_char d = char_of (48 + d)"

definition is_digit :: "char \<Rightarrow> bool" where
  "is_digit c \<longleftrightarrow> 48 \<le> (of_char c :: nat) \<and> (of_char c :: nat) \<le> 57"

definition digit_val :: "char \<Rightarrow> nat" where
  "digit_val c = of_char c - 48"

fun show_nat :: "nat \<Rightarrow> string" where
  "show_nat n = (if n < 10 then [digit_char n] else show_nat (n div 10) @ [digit_char (n mod 10)])"

declare show_nat.simps [simp del]

definition digits_val :: "string \<Rightarrow> nat" where
  "digits_val s = foldl (\<lambda>n c. 10 * n + digit_val c) 0 s"

definition parse_uint :: "nat \<Rightarrow> string \<Rightarrow> nat option" where
  "parse_uint w s =
     (let ds = (case s of c # r \<Rightarrow> if c = CHR ''+'' then r else s | [] \<Rightarrow> s) in
      if ds \<noteq> [] \<and> list_all is_digit ds \<and> digits_val ds < 2 ^ w then Some (digits_val ds)
      else None)"

definition parse_u32 :: "string \<Rightarrow> u32 option" where
  "parse_u32 s = map_option word_of_nat (parse_uint 32 s)"

lemma of_char_digit_char: "d < 10 \<Longrightarrow> (of_char (digit_char d) :: nat) = 48 + d"
  by (simp add: digit_char_def)

lemma is_digit_digit_char: "d < 10 \<Longrightarrow> is_digit (digit_char d)"
  by (simp add: is_digit_def of_char_digit_char)

lemma digit_val_digit_char: "d < 10 \<Longrightarrow> digit_val (digit_char d) = d"
  by (simp add: digit_val_def of_char_digit_char)

lemma show_nat_digits: "list_all is_digit (show_nat n)"
proof (induction n rule: show_nat.induct)
  case (1 n)
  then show ?case
    by (cases "n < 10") (simp_all add: show_nat.simps[of n] is_digit_digit_char)
qed

lemma show_nat_nonempty: "show_nat n \<noteq> []"
  by (simp add: show_nat.simps[of n])

lemma digits_val_snoc: "digits_val (s @ [c]) = 10 * digits_val s + digit_val c"
  by (simp add: digits_val_def)

lemma digits_val_show_nat: "digits_val (show_nat n) = n"
proof (induction n rule: show_nat.induct)
  case (1 n)
  show ?case
  proof (cases "n < 10")
    case True
    then show ?thesis by (simp add: show_nat.simps[of n] digits_val_def digit_val_digit_char)
  next
    case False
    with 1 show ?thesis
      by (simp add: show_nat.simps[of n] digits_val_snoc digit_val_digit_char)
  qed
qed

lemma not_digit_plus_hash: "\<not> is_digit (CHR ''+'')" "\<not> is_digit (CHR ''#'')"
  by (simp_all add: is_digit_def)

lemma show_nat_no_hash: "CHR ''#'' \<notin> set (show_nat n)"
  using show_nat_digits[of n] not_digit_plus_hash by (auto simp: list_all_iff)

lemma parse_uint_show_nat: "n < 2 ^ w \<Longrightarrow> parse_uint w (show_nat n) = Some n"
proof -
  assume n: "n < 2 ^ w"
  obtain c r where s: "show_nat n = c # r"
    using show_nat_nonempty[of n] by (cases "show_nat n") auto
  then have "c \<noteq> CHR ''+''"
    using show_nat_digits[of n] not_digit_plus_hash by (auto simp: list_all_iff)
  then show ?thesis
    using n s show_nat_digits[of n] digits_val_show_nat[of n] by (simp add: parse_uint_def)
qed

lemma parse_u32_show_nat: "parse_u32 (show_nat (unat (n :: u32))) = Some n"
proof -
  have "unat n < 2 ^ 32" using unsigned_less[of n] by simp
  then show ?thesis by (simp add: parse_u32_def parse_uint_show_nat)
qed

section \<open>Bytes of strings\<close>

definition byte_of_char :: "char \<Rightarrow> u8" where
  "byte_of_char c = word_of_nat (of_char c)"

definition char_of_byte :: "u8 \<Rightarrow> char" where
  "char_of_byte b = char_of (unat b)"

definition as_bytes :: "string \<Rightarrow> bytes" where
  "as_bytes s = map byte_of_char s"

definition string_of_bytes :: "bytes \<Rightarrow> string" where
  "string_of_bytes bs = map char_of_byte bs"

lemma unat_byte_of_char: "unat (byte_of_char c) = of_char c"
  using nat_of_char_less_256[of c] by (simp add: byte_of_char_def unat_of_nat)

lemma char_of_byte_of_char [simp]: "char_of_byte (byte_of_char c) = c"
  by (simp add: char_of_byte_def unat_byte_of_char)

lemma string_of_as_bytes [simp]: "string_of_bytes (as_bytes s) = s"
  by (induction s) (simp_all add: string_of_bytes_def as_bytes_def)

lemma as_bytes_append [simp]: "as_bytes (s @ t) = as_bytes s @ as_bytes t"
  by (simp add: as_bytes_def)

lemma as_bytes_inj: "as_bytes s = as_bytes t \<longleftrightarrow> s = t"
  by (metis string_of_as_bytes)

text \<open>The validity check of \<open>std::str::from_utf8\<close>, lead byte by lead byte.\<close>

definition utf8_cont :: "u8 \<Rightarrow> bool" where
  "utf8_cont b \<longleftrightarrow> 0x80 \<le> b \<and> b \<le> 0xBF"

definition utf8_tail_len :: "u8 \<Rightarrow> nat option" where
  "utf8_tail_len b =
     (if b < 0x80 then Some 0
      else if 0xC2 \<le> b \<and> b \<le> 0xDF then Some 1
      else if 0xE0 \<le> b \<and> b \<le> 0xEF then Some 2
      else if 0xF0 \<le> b \<and> b \<le> 0xF4 then Some 3
      else None)"

definition utf8_second_ok :: "u8 \<Rightarrow> u8 \<Rightarrow> bool" where
  "utf8_second_ok b c1 =
     (if b = 0xE0 then 0xA0 \<le> c1 \<and> c1 \<le> 0xBF
      else if b = 0xED then 0x80 \<le> c1 \<and> c1 \<le> 0x9F
      else if b = 0xF0 then 0x90 \<le> c1 \<and> c1 \<le> 0xBF
      else if b = 0xF4 then 0x80 \<le> c1 \<and> c1 \<le> 0x8F
      else utf8_cont c1)"

definition utf8_tail_ok :: "u8 \<Rightarrow> bytes \<Rightarrow> bool" where
  "utf8_tail_ok b cs = (case cs of [] \<Rightarrow> True | c1 # r \<Rightarrow> utf8_second_ok b c1 \<and> list_all utf8_cont r)"

definition utf8_char :: "bytes \<Rightarrow> bytes option" where
  "utf8_char bs = (case bs of
      [] \<Rightarrow> None
    | b # r \<Rightarrow> (case utf8_tail_len b of
          None \<Rightarrow> None
        | Some n \<Rightarrow> if n \<le> length r \<and> utf8_tail_ok b (take n r) then Some (drop n r) else None))"

lemma utf8_char_shorter: "utf8_char bs = Some r \<Longrightarrow> length r < length bs"
  by (auto simp: utf8_char_def split: list.splits option.splits if_splits)

lemma utf8_char_append: "utf8_char a = Some r \<Longrightarrow> utf8_char (a @ b) = Some (r @ b)"
  by (auto simp: utf8_char_def split: list.splits option.splits if_splits)

function utf8_ok :: "bytes \<Rightarrow> bool" where
  "utf8_ok bs = (if bs = [] then True
     else case utf8_char bs of None \<Rightarrow> False | Some r \<Rightarrow> utf8_ok r)"
  by pat_completeness auto
termination
  by (relation "measure length") (auto dest: utf8_char_shorter)

declare utf8_ok.simps [simp del]

lemma utf8_ok_Nil [simp]: "utf8_ok []"
  by (simp add: utf8_ok.simps)

lemma utf8_ok_ascii_Cons [simp]: "b < 0x80 \<Longrightarrow> utf8_ok (b # bs) = utf8_ok bs"
  by (simp add: utf8_ok.simps[of "b # bs"] utf8_char_def utf8_tail_len_def utf8_tail_ok_def)

definition from_utf8 :: "bytes \<Rightarrow> string option" where
  "from_utf8 bs = (if utf8_ok bs then Some (string_of_bytes bs) else None)"

text \<open>A HOL string that is a Rust string: its bytes are valid UTF-8.\<close>

definition is_str :: "string \<Rightarrow> bool" where
  "is_str s \<longleftrightarrow> utf8_ok (as_bytes s)"

definition ascii :: "string \<Rightarrow> bool" where
  "ascii s \<longleftrightarrow> list_all (\<lambda>c. (of_char c :: nat) < 128) s"

lemma byte_of_char_ascii: "byte_of_char c < 0x80 \<longleftrightarrow> (of_char c :: nat) < 128"
  by (simp add: word_less_nat_alt unat_byte_of_char)

lemma is_str_ascii: "ascii p \<Longrightarrow> is_str p"
  by (induction p) (simp_all add: is_str_def as_bytes_def ascii_def byte_of_char_ascii)

lemma utf8_ok_append: "utf8_ok a \<Longrightarrow> utf8_ok (a @ b) = utf8_ok b"
proof (induction a rule: utf8_ok.induct)
  case (1 a)
  show ?case
  proof (cases "a = []")
    case False
    with 1(2) obtain r where r: "utf8_char a = Some r" "utf8_ok r"
      by (auto simp: utf8_ok.simps[of a] split: option.splits)
    with 1(1)[OF False r(1)] False show ?thesis
      by (simp add: utf8_ok.simps[of "a @ b"] utf8_char_append)
  qed simp
qed

lemma is_str_append: "is_str a \<Longrightarrow> is_str (a @ b) = is_str b"
  by (simp add: is_str_def utf8_ok_append)

lemma from_utf8_as_bytes: "is_str s \<Longrightarrow> from_utf8 (as_bytes s) = Some s"
  by (simp add: from_utf8_def is_str_def)

section \<open>Little-endian integers\<close>

text \<open>\<open>to_le_bytes\<close> and \<open>from_le_bytes\<close> on a given number of bytes.\<close>

fun le_bytes :: "nat \<Rightarrow> nat \<Rightarrow> bytes" where
  "le_bytes 0 n = []"
| "le_bytes (Suc k) n = word_of_nat n # le_bytes k (n div 256)"

fun le_val :: "bytes \<Rightarrow> nat" where
  "le_val [] = 0"
| "le_val (b # bs) = unat b + 256 * le_val bs"

definition u64_le :: "u64 \<Rightarrow> bytes" where "u64_le v = le_bytes 8 (unat v)"
definition u32_le :: "u32 \<Rightarrow> bytes" where "u32_le v = le_bytes 4 (unat v)"
definition u64_of_le :: "bytes \<Rightarrow> u64" where "u64_of_le bs = word_of_nat (le_val bs)"
definition u32_of_le :: "bytes \<Rightarrow> u32" where "u32_of_le bs = word_of_nat (le_val bs)"

lemma length_le_bytes [simp]: "length (le_bytes k n) = k"
  by (induction k arbitrary: n) simp_all

lemma le_val_le_bytes: "le_val (le_bytes k n) = n mod 256 ^ k"
proof (induction k arbitrary: n)
  case (Suc k)
  have "unat (word_of_nat n :: u8) = n mod 256" by (simp add: unat_of_nat)
  with Suc show ?case by (simp add: mod_mult2_eq)
qed simp

lemma length_u64_le [simp]: "length (u64_le v) = 8" and length_u32_le [simp]: "length (u32_le w) = 4"
  by (simp_all add: u64_le_def u32_le_def)

lemma u64_of_le_u64_le [simp]: "u64_of_le (u64_le v) = v"
proof -
  have "unat v < 2 ^ 64" using unsigned_less[of v] by simp
  then show ?thesis by (simp add: u64_of_le_def u64_le_def le_val_le_bytes)
qed

lemma u32_of_le_u32_le [simp]: "u32_of_le (u32_le v) = v"
proof -
  have "unat v < 2 ^ 32" using unsigned_less[of v] by simp
  then show ?thesis by (simp add: u32_of_le_def u32_le_def le_val_le_bytes)
qed

section \<open>Trimming and case\<close>

text \<open>\<open>str::trim\<close> removes the Unicode white space at both ends; the list holds the UTF-8
  encodings of all white space characters. No encoding is a suffix of another character's
  encoding, so stripping byte sequences is stripping characters.\<close>

definition white_space :: "string list" where
  "white_space = map (\<lambda>n. [char_of n]) [9, 10, 11, 12, 13, 32 :: nat]
     @ [[CHR 0xC2, CHR 0x85], [CHR 0xC2, CHR 0xA0], [CHR 0xE1, CHR 0x9A, CHR 0x80]]
     @ map (\<lambda>n. [CHR 0xE2, CHR 0x80, char_of n]) ([128..<139] @ [168, 169, 175 :: nat])
     @ [[CHR 0xE2, CHR 0x81, CHR 0x9F], [CHR 0xE3, CHR 0x80, CHR 0x80]]"

function trim_with :: "string list \<Rightarrow> string \<Rightarrow> string" where
  "trim_with ws s = (case find (\<lambda>w. w \<noteq> [] \<and> prefix w s) ws of
      None \<Rightarrow> s
    | Some w \<Rightarrow> trim_with ws (drop (length w) s))"
  by pat_completeness auto
termination
proof (relation "measure (length \<circ> snd)", goal_cases)
  case (2 ws s w)
  then have "w \<noteq> []" "prefix w s" by (auto simp: find_Some_iff)
  then show ?case using prefix_length_le[of w s] by (cases w; cases s) auto
qed simp

declare trim_with.simps [simp del]

definition trim :: "string \<Rightarrow> string" where
  "trim s = rev (trim_with (map rev white_space) (rev (trim_with white_space s)))"

definition to_ascii_lowercase :: "string \<Rightarrow> string" where
  "to_ascii_lowercase s = map (\<lambda>c. if 65 \<le> (of_char c :: nat) \<and> (of_char c :: nat) \<le> 90
     then char_of (of_char c + 32 :: nat) else c) s"

fun join :: "string \<Rightarrow> string list \<Rightarrow> string" where
  "join sep [] = []"
| "join sep [x] = x"
| "join sep (x # xs) = x @ sep @ join sep xs"

definition not_ws :: "char \<Rightarrow> bool" where
  "not_ws c \<longleftrightarrow> 32 < (of_char c :: nat) \<and> (of_char c :: nat) < 127"

lemma trim_with_visible:
  assumes "\<forall>w\<in>set ws. w \<noteq> [] \<longrightarrow> hd w \<noteq> c"
  shows "trim_with ws (c # s) = c # s"
proof -
  have "find (\<lambda>w. w \<noteq> [] \<and> prefix w (c # s)) ws = None"
    using assms by (auto simp: find_None_iff prefix_Cons)
  then show ?thesis by (simp add: trim_with.simps)
qed

lemma white_space_ends:
  assumes "not_ws c" "w \<in> set white_space"
  shows "hd w \<noteq> c" "hd (rev w) \<noteq> c"
  using assms unfolding white_space_def not_ws_def
  by (auto dest!: arg_cong[where f = "of_char :: char \<Rightarrow> nat"])

lemma trim_visible:
  assumes "s \<noteq> []" "not_ws (hd s)" "not_ws (last s)"
  shows "trim s = s"
proof -
  obtain c r where s: "s = c # r" using assms(1) by (cases s) auto
  have "trim_with white_space s = s"
    unfolding s using assms(2) s white_space_ends(1) by (intro trim_with_visible) auto
  moreover obtain d q where q: "rev s = d # q" using assms(1) by (cases "rev s") auto
  have "d = last s" using q by (metis last_rev list.sel(1) rev_rev_ident)
  then have "trim_with (map rev white_space) (rev s) = rev s"
    unfolding q using assms(3) white_space_ends(2) by (intro trim_with_visible) auto
  ultimately show ?thesis by (simp add: trim_def)
qed

lemma trim_Nil [simp]: "trim [] = []"
proof -
  have "find (\<lambda>w. w \<noteq> [] \<and> prefix w []) ws = None" for ws :: "string list"
    by (auto simp: find_None_iff)
  then have "trim_with ws [] = []" for ws by (simp add: trim_with.simps)
  then show ?thesis by (simp add: trim_def)
qed

section \<open>Ordered maps and minima\<close>

text \<open>The entries of a \<open>BTreeMap\<close> in ascending key order.\<close>

definition btree_entries :: "('k::linorder, 'v) fmap \<Rightarrow> ('k \<times> 'v) list" where
  "btree_entries m = map (\<lambda>k. (k, the (fmlookup m k))) (sorted_list_of_fset (fmdom m))"

lemma btree_entries_sorted: "sorted (map fst (btree_entries m))" "distinct (map fst (btree_entries m))"
  by (simp_all add: btree_entries_def comp_def sorted_list_of_fset.rep_eq)

lemma btree_entries_set: "(k, v) \<in> set (btree_entries m) \<longleftrightarrow> fmlookup m k = Some v"
  by (auto simp: btree_entries_def fmlookup_dom_iff image_iff sorted_list_of_fset.rep_eq)

lemma btree_entries_distinct: "distinct (btree_entries m)"
  using btree_entries_sorted(2)[of m] by (simp add: distinct_map)

text \<open>\<open>Iterator::min\<close>.\<close>

definition iter_min :: "'a::linorder list \<Rightarrow> 'a option" where
  "iter_min xs = (if xs = [] then None else Some (min_list xs))"

lemma iter_min_None [simp]: "iter_min xs = None \<longleftrightarrow> xs = []"
  by (simp add: iter_min_def)

lemma iter_min_SomeD: "iter_min xs = Some x \<Longrightarrow> x \<in> set xs \<and> (\<forall>y\<in>set xs. x \<le> y)"
  by (auto simp: iter_min_def min_list_Min split: if_splits)

end
