(* ===== verification/Lease.thy ===== *)
theory Lease
  imports Prelude
begin

text \<open>
  The crate \<^verbatim>\<open>crates/skippr-lease\<close>: validated path components, pipeline and segment
  identity, on-disk paths, the errors of the durable layer and the decision that fences an
  offset publication. The constructors of the source keep their validation: a
  \<open>SegmentId\<close> or a \<open>PipelineKey\<close> comes from a smart constructor that may fail.
\<close>

section \<open>Path components\<close>

datatype PathError = InvalidComponent string | Overflow string

fun path_error_display :: "PathError \<Rightarrow> string" where
  "path_error_display (InvalidComponent m) = ''invalid path component: '' @ m"
| "path_error_display (Overflow m) = m"

definition reserved_chars :: "char set" where
  "reserved_chars = {CHR ''/'', CHR 0x5C, CHR 0x00, CHR ''#'', CHR '','', CHR ''@''}"

definition validate_path_component :: "string \<Rightarrow> PathError + unit" where
  "validate_path_component value =
     (if value = [] then Inl (InvalidComponent ''path component must not be empty'')
      else if value = ''.'' \<or> value = ''..'' then
        Inl (InvalidComponent (''path component '' @ squote @ value @ squote @ '' is not allowed''))
      else if CHR ''/'' \<in> set value \<or> CHR 0x5C \<in> set value \<or> CHR 0x00 \<in> set value
              \<or> CHR ''#'' \<in> set value \<or> CHR '','' \<in> set value \<or> CHR ''@'' \<in> set value then
        Inl (InvalidComponent (''path component '' @ squote @ value @ squote
               @ '' contains a reserved character''))
      else Inr ())"

abbreviation valid_component :: "string \<Rightarrow> bool" where
  "valid_component s \<equiv> validate_path_component s = Inr ()"

lemma valid_component_iff:
  "valid_component s \<longleftrightarrow> s \<noteq> [] \<and> s \<noteq> ''.'' \<and> s \<noteq> ''..'' \<and> set s \<inter> reserved_chars = {}"
  by (auto simp: validate_path_component_def reserved_chars_def)

lemma valid_component_cases:
  "valid_component s \<or> (\<exists>m. validate_path_component s = Inl (InvalidComponent m))"
  by (simp add: validate_path_component_def)

lemma valid_component_no_reserved:
  assumes "valid_component s"
  shows "CHR ''#'' \<notin> set s" "CHR ''/'' \<notin> set s" "CHR 0x00 \<notin> set s"
  using assms by (auto simp: validate_path_component_def split: if_splits)

text \<open>Percent-encoding of a component, byte by byte; \<open>{byte:02X}\<close> is upper-case hex.\<close>

definition hex_digit_upper :: "nat \<Rightarrow> char" where
  "hex_digit_upper d = (if d < 10 then char_of (48 + d) else char_of (55 + d))"

definition path_safe :: "char \<Rightarrow> bool" where
  "path_safe c \<longleftrightarrow> (let n = (of_char c :: nat) in
     (65 \<le> n \<and> n \<le> 90) \<or> (97 \<le> n \<and> n \<le> 122) \<or> (48 \<le> n \<and> n \<le> 57) \<or>
     c = CHR ''-'' \<or> c = CHR ''_'' \<or> c = CHR ''.'')"

definition percent_byte :: "char \<Rightarrow> string" where
  "percent_byte c = CHR ''%'' # hex_digit_upper (of_char c div 16) # [hex_digit_upper (of_char c mod 16)]"

fun encode_path_component :: "string \<Rightarrow> string" where
  "encode_path_component [] = []"
| "encode_path_component (c # cs) =
     (if path_safe c then c # encode_path_component cs
      else percent_byte c @ encode_path_component cs)"

text \<open>A decoder that exists only to show that the encoding loses nothing.\<close>

definition hex_val :: "char \<Rightarrow> nat" where
  "hex_val c = (let n = of_char c in if n < 65 then n - 48 else n - 55)"

fun decode_path_component :: "string \<Rightarrow> string" where
  "decode_path_component (p # h # l # cs) =
     (if p = CHR ''%'' then char_of (16 * hex_val h + hex_val l) # decode_path_component cs
      else p # decode_path_component (h # l # cs))"
| "decode_path_component cs = cs"

lemma of_char_div_16: "(of_char c :: nat) div 16 < 16"
  by (rule less_mult_imp_div_less) simp

lemma hex_val_hex_digit: "d < 16 \<Longrightarrow> hex_val (hex_digit_upper d) = d"
  by (auto simp: hex_val_def hex_digit_upper_def Let_def)

lemma decode_safe_Cons: "c \<noteq> CHR ''%'' \<Longrightarrow> decode_path_component (c # cs) = c # decode_path_component cs"
  by (cases cs rule: list.exhaust; cases "tl cs") auto

lemma path_safe_not_percent: "path_safe c \<Longrightarrow> c \<noteq> CHR ''%''"
  by (auto simp: path_safe_def Let_def)

lemma decode_encode_path_component [simp]: "decode_path_component (encode_path_component s) = s"
proof (induction s)
  case (Cons c cs)
  show ?case
  proof (cases "path_safe c")
    case True
    then show ?thesis using Cons by (simp add: decode_safe_Cons path_safe_not_percent)
  next
    case False
    have "16 * hex_val (hex_digit_upper (of_char c div 16)) + hex_val (hex_digit_upper (of_char c mod 16))
            = (of_char c :: nat)"
      by (simp add: hex_val_hex_digit of_char_div_16)
    with False Cons show ?thesis by (simp add: percent_byte_def)
  qed
qed simp

lemma encode_path_component_inj: "encode_path_component s = encode_path_component t \<longleftrightarrow> s = t"
  by (metis decode_encode_path_component)

lemma hex_digit_not_slash: "d < 16 \<Longrightarrow> hex_digit_upper d \<noteq> CHR ''/''"
  by (auto simp: hex_digit_upper_def dest!: arg_cong[where f = "of_char :: char \<Rightarrow> nat"])

lemma encode_path_component_no_slash: "CHR ''/'' \<notin> set (encode_path_component s)"
proof (induction s)
  case (Cons c cs)
  have "CHR ''/'' \<notin> set (percent_byte c)"
    using hex_digit_not_slash[OF of_char_div_16[of c]] hex_digit_not_slash[of "of_char c mod 16"]
    by (auto simp: percent_byte_def)
  moreover have "path_safe c \<Longrightarrow> c \<noteq> CHR ''/''" by (auto simp: path_safe_def Let_def)
  ultimately show ?case using Cons by auto
qed simp

lemma encode_path_component_eq_Nil [simp]: "encode_path_component s = [] \<longleftrightarrow> s = []"
  by (cases s) (auto simp: percent_byte_def)

section \<open>Identity\<close>

datatype LeaseEpoch = LeaseEpoch (epoch_get: u64)

definition SINGLE_NODE :: LeaseEpoch where "SINGLE_NODE = LeaseEpoch 0"

definition epoch_next :: "LeaseEpoch \<Rightarrow> PathError + LeaseEpoch" where
  "epoch_next e = (case checked_add (epoch_get e) 1 of
      Some v \<Rightarrow> Inr (LeaseEpoch v)
    | None \<Rightarrow> Inl (Overflow ''lease epoch overflow''))"

text \<open>A node id is a 128-bit UUID; \<open>single_node\<close> is the nil UUID.\<close>

datatype NodeId = NodeId "128 word"

definition single_node :: NodeId where "single_node = NodeId 0"

datatype SegmentId = SegmentId (seg_as_str: string)

definition segment_id_new :: "string \<Rightarrow> PathError + SegmentId" where
  "segment_id_new raw = bindR (validate_path_component raw) (\<lambda>_. Inr (SegmentId raw))"

record PipelineKey =
  tenant :: string
  workspace :: string
  pipeline :: string

definition pipeline_key_new :: "string \<Rightarrow> string \<Rightarrow> string \<Rightarrow> PathError + PipelineKey" where
  "pipeline_key_new t w p =
     bindR (validate_path_component t) (\<lambda>_.
     bindR (validate_path_component w) (\<lambda>_.
     bindR (validate_path_component p) (\<lambda>_.
       Inr \<lparr>tenant = t, workspace = w, pipeline = p\<rparr>)))"

definition dynamo_pk :: "PipelineKey \<Rightarrow> string" where
  "dynamo_pk k = tenant k @ ''#'' @ workspace k @ ''#'' @ pipeline k"

definition pipe_pk :: "PipelineKey \<Rightarrow> string" where
  "pipe_pk k = ''PIPE#'' @ tenant k @ ''#'' @ workspace k @ ''#'' @ pipeline k"

definition parse_pipe_pk :: "string \<Rightarrow> PathError + PipelineKey" where
  "parse_pipe_pk pk = (case strip_prefix ''PIPE#'' pk of
      None \<Rightarrow> Inl (InvalidComponent (''pipeline META PK must start with PIPE#: '' @ pk))
    | Some rest \<Rightarrow>
       (let parts = split_on (CHR ''#'') rest;
            nth_part = (\<lambda>i. if i < length parts then parts ! i else [])
        in if 3 < length parts then
             Inl (InvalidComponent (''pipeline META PK must be PIPE#tenant#workspace#name: '' @ pk))
           else pipeline_key_new (nth_part 0) (nth_part 1) (nth_part 2)))"

definition canonical_bytes :: "PipelineKey \<Rightarrow> bytes" where
  "canonical_bytes k = as_bytes (tenant k) @ [0] @ as_bytes (workspace k) @ [0] @ as_bytes (pipeline k)"

definition key_ok :: "PipelineKey \<Rightarrow> bool" where
  "key_ok k \<longleftrightarrow> valid_component (tenant k) \<and> valid_component (workspace k) \<and> valid_component (pipeline k)"

lemma pipeline_key_new_Inr:
  "pipeline_key_new t w p = Inr k \<longleftrightarrow>
     k = \<lparr>tenant = t, workspace = w, pipeline = p\<rparr> \<and> key_ok k"
  by (auto simp: pipeline_key_new_def key_ok_def bindR_Inr_iff)

lemma segment_id_new_Inr: "segment_id_new s = Inr i \<longleftrightarrow> i = SegmentId s \<and> valid_component s"
  by (auto simp: segment_id_new_def bindR_Inr_iff)

lemma parse_pipe_pk_pipe_pk: "key_ok k \<Longrightarrow> parse_pipe_pk (pipe_pk k) = Inr k"
proof -
  assume k: "key_ok k"
  let ?h = "CHR ''#''"
  have nh: "?h \<notin> set (tenant k)" "?h \<notin> set (workspace k)" "?h \<notin> set (pipeline k)"
    using k by (auto simp: key_ok_def dest: valid_component_no_reserved)
  have "split_on ?h (tenant k @ ?h # workspace k @ ?h # pipeline k)
          = [tenant k, workspace k, pipeline k]"
    using nh by (simp add: split_on_append split_on_absent)
  then show ?thesis
    using k by (simp add: parse_pipe_pk_def pipe_pk_def pipeline_key_new_Inr)
qed

lemma parse_pipe_pk_sound: "parse_pipe_pk pk = Inr k \<Longrightarrow> key_ok k"
  by (auto simp: parse_pipe_pk_def pipeline_key_new_Inr Let_def split: option.splits if_splits)

lemma dynamo_pk_inj:
  "key_ok k \<Longrightarrow> key_ok k' \<Longrightarrow> dynamo_pk k = dynamo_pk k' \<longleftrightarrow> k = k'"
  by (auto simp: dynamo_pk_def key_ok_def sep_append_inj dest!: valid_component_no_reserved(1))

lemma as_bytes_no_zero: "CHR 0x00 \<notin> set s \<Longrightarrow> 0 \<notin> set (as_bytes s)"
proof -
  have "byte_of_char c = 0 \<Longrightarrow> c = CHR 0x00" for c
    using unat_byte_of_char[of c] of_char_eq_iff[where 'a = nat, of c "CHR 0x00"] by simp
  then show "CHR 0x00 \<notin> set s \<Longrightarrow> 0 \<notin> set (as_bytes s)"
    by (auto simp: as_bytes_def)
qed

lemma canonical_bytes_inj:
  assumes "key_ok k" "key_ok k'"
  shows "canonical_bytes k = canonical_bytes k' \<longleftrightarrow> k = k'"
proof -
  have z: "0 \<notin> set (as_bytes (tenant x))" "0 \<notin> set (as_bytes (workspace x))" if "key_ok x" for x
    using that by (auto simp: key_ok_def intro!: as_bytes_no_zero dest: valid_component_no_reserved(3))
  show ?thesis
    using z[OF assms(1)] z[OF assms(2)]
    by (auto simp: canonical_bytes_def sep_append_inj as_bytes_inj)
qed

section \<open>Paths\<close>

text \<open>\<open>Path::join\<close> on Unix: an absolute argument replaces the base, otherwise one slash
  separates the two.\<close>

definition path_join :: "string \<Rightarrow> string \<Rightarrow> string" where
  "path_join a b =
     (if b \<noteq> [] \<and> hd b = CHR ''/'' then b
      else if a = [] then b
      else if last a = CHR ''/'' then a @ b
      else a @ ''/'' @ b)"

record PipelinePaths =
  root :: string
  segs :: string
  completions :: string
  compactions :: string
  durable :: string
  snapshots :: string

definition from_pipeline_root :: "string \<Rightarrow> PipelinePaths" where
  "from_pipeline_root r = \<lparr>
     root = r,
     segs = path_join r ''segment_buffer/segs'',
     completions = path_join r ''segment_buffer/done'',
     compactions = path_join r ''segment_buffer/compactions'',
     durable = path_join r ''segment_buffer/durable'',
     snapshots = path_join r ''segment_buffer/durable/snapshots''\<rparr>"

definition legacy_disk :: "string \<Rightarrow> PipelinePaths" where
  "legacy_disk data_root = from_pipeline_root data_root"

definition pipeline_paths_new :: "string \<Rightarrow> PipelineKey \<Rightarrow> PathError + PipelinePaths" where
  "pipeline_paths_new data_root k =
     bindR (validate_path_component (tenant k)) (\<lambda>_.
     bindR (validate_path_component (workspace k)) (\<lambda>_.
     bindR (validate_path_component (pipeline k)) (\<lambda>_.
       Inr (from_pipeline_root
         (path_join
           (path_join
             (path_join (path_join data_root ''clustered'')
               (encode_path_component (tenant k)))
             (encode_path_component (workspace k)))
           (encode_path_component (pipeline k)))))))"

definition segment_path :: "PipelinePaths \<Rightarrow> SegmentId \<Rightarrow> string" where
  "segment_path p i = path_join (segs p) (seg_as_str i @ ''.seg'')"

definition wal_uri :: "PipelinePaths \<Rightarrow> PipelineKey \<Rightarrow> SegmentId \<Rightarrow> string" where
  "wal_uri p k i = ''wal://'' @ tenant k @ ''/'' @ workspace k @ ''/'' @ pipeline k @ ''/'' @ seg_as_str i"

lemma path_join_encoded:
  assumes "a \<noteq> []" "last a \<noteq> CHR ''/''" "s \<noteq> []"
  shows "path_join a (encode_path_component s) = a @ CHR ''/'' # encode_path_component s"
proof -
  have "encode_path_component s \<noteq> []" using assms(3) by simp
  then have "hd (encode_path_component s) \<noteq> CHR ''/''"
    using encode_path_component_no_slash[of s] by (metis hd_in_set)
  with assms show ?thesis by (simp add: path_join_def)
qed

lemma last_encode_no_slash:
  assumes "s \<noteq> []"
  shows "last (a @ CHR ''/'' # encode_path_component s) \<noteq> CHR ''/''"
proof -
  have "encode_path_component s \<noteq> []" using assms by simp
  then have "last (encode_path_component s) \<in> set (encode_path_component s)" by (rule last_in_set)
  then have "last (encode_path_component s) \<noteq> CHR ''/''"
    using encode_path_component_no_slash[of s] by metis
  then show ?thesis using assms by simp
qed

lemma path_join_clustered:
  "path_join d ''clustered'' \<noteq> []" "last (path_join d ''clustered'') \<noteq> CHR ''/''"
  by (auto simp: path_join_def)

lemma pipeline_paths_new_root:
  assumes "key_ok k"
  shows "\<exists>p. pipeline_paths_new d k = Inr p \<and>
     root p = path_join d ''clustered'' @ CHR ''/'' # encode_path_component (tenant k)
        @ CHR ''/'' # encode_path_component (workspace k)
        @ CHR ''/'' # encode_path_component (pipeline k)"
proof -
  let ?c = "path_join d ''clustered''"
  have ne: "tenant k \<noteq> []" "workspace k \<noteq> []" "pipeline k \<noteq> []"
    using assms by (auto simp: key_ok_def valid_component_iff)
  have 1: "path_join ?c (encode_path_component (tenant k)) = ?c @ CHR ''/'' # encode_path_component (tenant k)"
    by (rule path_join_encoded[OF path_join_clustered ne(1)])
  have 2: "path_join (?c @ CHR ''/'' # encode_path_component (tenant k)) (encode_path_component (workspace k))
     = (?c @ CHR ''/'' # encode_path_component (tenant k)) @ CHR ''/'' # encode_path_component (workspace k)"
    by (rule path_join_encoded[OF _ last_encode_no_slash[OF ne(1)] ne(2)]) simp
  have 3: "path_join ((?c @ CHR ''/'' # encode_path_component (tenant k)) @ CHR ''/'' # encode_path_component (workspace k))
       (encode_path_component (pipeline k))
     = ((?c @ CHR ''/'' # encode_path_component (tenant k)) @ CHR ''/'' # encode_path_component (workspace k))
         @ CHR ''/'' # encode_path_component (pipeline k)"
    by (rule path_join_encoded[OF _ last_encode_no_slash[OF ne(2)] ne(3)]) simp
  show ?thesis
    using assms unfolding pipeline_paths_new_def key_ok_def from_pipeline_root_def 1 2 3 by simp
qed


lemma clustered_root_inj:
  assumes "key_ok k" "key_ok k'"
    and "pipeline_paths_new d k = Inr p" "pipeline_paths_new d k' = Inr p'"
  shows "root p = root p' \<longleftrightarrow> k = k'"
proof -
  note r = pipeline_paths_new_root[OF assms(1), of d] pipeline_paths_new_root[OF assms(2), of d]
  show ?thesis
    using r assms(3,4)
    by (auto simp: sep_append_inj encode_path_component_no_slash encode_path_component_inj)
qed

lemma wal_uri_inj:
  assumes "key_ok k" "key_ok k'" "valid_component (seg_as_str i)" "valid_component (seg_as_str i')"
  shows "wal_uri p k i = wal_uri p' k' i' \<longleftrightarrow> k = k' \<and> i = i'"
proof -
  note ns = valid_component_no_reserved(2)
  have "CHR ''/'' \<notin> set (tenant x) \<and> CHR ''/'' \<notin> set (workspace x) \<and> CHR ''/'' \<notin> set (pipeline x)"
    if "key_ok x" for x using that ns by (auto simp: key_ok_def)
  from this[OF assms(1)] this[OF assms(2)] show ?thesis
    by (auto simp: wal_uri_def sep_append_inj SegmentId.expand)
qed

section \<open>Durable errors\<close>

definition DURABLE_ERROR_DISPLAY_CEILING :: nat where
  "DURABLE_ERROR_DISPLAY_CEILING = 512"

text \<open>Slicing \<open>&s[..n]\<close> panics when \<open>n\<close> is past the end or inside a multi-byte character;
  \<open>None\<close> is the panic. A position is a boundary when the byte there starts a character.\<close>

definition is_char_boundary :: "string \<Rightarrow> nat \<Rightarrow> bool" where
  "is_char_boundary s n \<longleftrightarrow> n = 0 \<or> n = length s \<or> (n < length s \<and> \<not> utf8_cont (byte_of_char (s ! n)))"

definition str_slice_to :: "string \<Rightarrow> nat \<Rightarrow> string option" where
  "str_slice_to s n = (if is_char_boundary s n then Some (take n s) else None)"

definition ellipsis :: string where "ellipsis = [CHR 0xE2, CHR 0x80, CHR 0xA6]"

definition clip_error_detail :: "string \<Rightarrow> string option" where
  "clip_error_detail detail =
     (if length detail \<le> DURABLE_ERROR_DISPLAY_CEILING then Some detail
      else map_option (\<lambda>h. h @ ellipsis @ '' (truncated, '' @ show_nat (length detail) @ '' bytes)'')
             (str_slice_to detail DURABLE_ERROR_DISPLAY_CEILING))"

datatype DurableError =
    Fenced
  | FencedAfterCommit
  | CorruptOffset string
  | Io string
  | ProtocolMismatch string
  | CatalogConflict
  | StaleEpoch
  | DiskFull

text \<open>\<open>Display\<close> of a durable error; \<open>None\<close> is a panic while formatting.\<close>

fun durable_error_display :: "DurableError \<Rightarrow> string option" where
  "durable_error_display Fenced = Some ''fenced''"
| "durable_error_display FencedAfterCommit = Some ''fenced after commit''"
| "durable_error_display (CorruptOffset d) = map_option ((@) ''corrupt offset: '') (clip_error_detail d)"
| "durable_error_display (Io d) = map_option ((@) ''io: '') (clip_error_detail d)"
| "durable_error_display (ProtocolMismatch d) = map_option ((@) ''protocol mismatch: '') (clip_error_detail d)"
| "durable_error_display CatalogConflict = Some ''catalog conflict''"
| "durable_error_display StaleEpoch = Some ''stale epoch''"
| "durable_error_display DiskFull = Some ''disk full''"

record io_error =
  storage_full :: bool
  raw_os_error :: "int option"
  io_message :: string

definition is_enospc :: "io_error \<Rightarrow> bool" where
  "is_enospc err \<longleftrightarrow> storage_full err \<or> raw_os_error err = Some 28 \<or> raw_os_error err = Some 112"

definition durable_from_io :: "io_error \<Rightarrow> DurableError option" where
  "durable_from_io err =
     (if is_enospc err then Some DiskFull else map_option Io (clip_error_detail (io_message err)))"

section \<open>Fenced offset publication\<close>

datatype PublishMode = Fresh | Republish
datatype PublishAction = Commit | AlreadyApplied
datatype OffsetPublishError = Corrupt string | Transient string | FenceRegression

definition decide_wal_publish ::
  "(u64 \<times> u64 \<times> string) option \<Rightarrow> u64 \<Rightarrow> u64 \<Rightarrow> string \<Rightarrow> PublishMode \<Rightarrow> OffsetPublishError + PublishAction"
where
  "decide_wal_publish stored epoch seq payload_sha256 mode = (case stored of
      None \<Rightarrow> Inr Commit
    | Some (old_epoch, old_seq, old_hash) \<Rightarrow>
       (if (old_epoch, old_seq) = (epoch, seq) then
          (if old_hash = payload_sha256 then Inr AlreadyApplied
           else Inl (Corrupt ''same WAL tuple with different hash''))
        else if (old_epoch, old_seq) > (epoch, seq) then
          (case mode of Republish \<Rightarrow> Inr AlreadyApplied | Fresh \<Rightarrow> Inl FenceRegression)
        else Inr Commit))"

text \<open>The order in which a published tuple may be replaced: a strictly newer epoch and
  sequence, or the very same tuple with the same payload hash.\<close>

fun fence_le :: "(u64 \<times> u64 \<times> string) option \<Rightarrow> (u64 \<times> u64 \<times> string) option \<Rightarrow> bool" where
  "fence_le None _ = True"
| "fence_le (Some _) None = False"
| "fence_le (Some (e, s, h)) (Some (e', s', h')) = ((e, s) < (e', s') \<or> (e, s, h) = (e', s', h'))"

lemma fence_le_refl [simp]: "fence_le x x"
  by (cases x rule: option.exhaust) auto

lemma fence_le_trans: "fence_le x y \<Longrightarrow> fence_le y z \<Longrightarrow> fence_le x z"
  by (cases "(x, y)" rule: fence_le.cases; cases z) (auto simp: less_prod_def' split: prod.splits)

lemma decide_commit_newer:
  "decide_wal_publish stored e s h m = Inr Commit \<Longrightarrow> fence_le stored (Some (e, s, h))"
  by (auto simp: decide_wal_publish_def not_less order_less_le
      split: option.splits if_splits PublishMode.splits)

lemma decide_wal_publish_iff:
  "decide_wal_publish stored e s h m = Inr Commit \<longleftrightarrow>
     (case stored of None \<Rightarrow> True | Some (e', s', h') \<Rightarrow> (e', s') < (e, s))"
  "decide_wal_publish (Some (e', s', h')) e s h m = Inr AlreadyApplied \<longleftrightarrow>
     ((e', s') = (e, s) \<and> h' = h) \<or> ((e, s) < (e', s') \<and> m = Republish)"
  by (auto simp: decide_wal_publish_def split: option.splits if_splits PublishMode.splits)

lemma split_on_join:
  "split_on c s = [a, b, d] \<Longrightarrow> s = a @ c # b @ c # d"
proof -
  have ne: "split_on c s \<noteq> []" for s
    by (induction s) (auto split: list.splits)
  have one: "split_on c s = [a] \<Longrightarrow> s = a" for s a
    by (induction s arbitrary: a) (auto simp: ne split: if_splits list.splits)
  have cons: "split_on c s = a # r # rs \<Longrightarrow> \<exists>t. s = a @ c # t \<and> split_on c t = r # rs" for s a r rs
    by (induction s arbitrary: a) (fastforce split: if_splits list.splits)+
  show "split_on c s = [a, b, d] \<Longrightarrow> s = a @ c # b @ c # d"
    using cons one by metis
qed

lemma parse_pipe_pk_Inr: "parse_pipe_pk pk = Inr k \<Longrightarrow> pk = pipe_pk k"
proof -
  assume p: "parse_pipe_pk pk = Inr k"
  then obtain rest where rest: "pk = ''PIPE#'' @ rest"
    by (auto simp: parse_pipe_pk_def strip_prefix_Some_iff split: option.splits)
  let ?ps = "split_on (CHR ''#'') rest"
  let ?n = "\<lambda>i. if i < length ?ps then ?ps ! i else []"
  have le: "length ?ps \<le> 3" and k: "pipeline_key_new (?n 0) (?n 1) (?n 2) = Inr k"
    using p unfolding rest by (auto simp: parse_pipe_pk_def Let_def split: if_splits)
  then have ne: "?n 2 \<noteq> []"
    unfolding pipeline_key_new_Inr key_ok_def valid_component_iff by auto
  then have "length ?ps = 3" using le by (auto split: if_splits)
  then have "?ps = [?ps ! 0, ?ps ! 1, ?ps ! 2]"
    by (cases ?ps; cases "tl ?ps"; cases "tl (tl ?ps)") auto
  from split_on_join[OF this] k \<open>length ?ps = 3\<close> show ?thesis
    unfolding rest pipeline_key_new_Inr by (simp add: pipe_pk_def)
qed

section \<open>Properties\<close>

text \<open>The DynamoDB partition key of a pipeline parses back to the pipeline, and nothing else
  parses: \<open>parse_pipe_pk\<close> accepts exactly the keys that \<open>pipe_pk\<close> prints for three valid
  components.\<close>

theorem pipe_pk_roundtrip: "parse_pipe_pk pk = Inr k \<longleftrightarrow> key_ok k \<and> pk = pipe_pk k"
  using parse_pipe_pk_pipe_pk parse_pipe_pk_sound parse_pipe_pk_Inr by blast

text \<open>Two pipelines with valid keys never share their root directory, their DynamoDB key or
  their canonical bytes, and segment URIs are unique across pipelines and segments.\<close>

theorem pipeline_isolation:
  assumes "key_ok k" "key_ok k'" "k \<noteq> k'"
    and "pipeline_paths_new d k = Inr p" "pipeline_paths_new d k' = Inr p'"
    and "valid_component (seg_as_str i)" "valid_component (seg_as_str i')"
  shows "root p \<noteq> root p' \<and> dynamo_pk k \<noteq> dynamo_pk k' \<and> canonical_bytes k \<noteq> canonical_bytes k'
     \<and> wal_uri p k i \<noteq> wal_uri p' k' i'"
  using clustered_root_inj[OF assms(1,2,4,5)] dynamo_pk_inj[OF assms(1,2)] canonical_bytes_inj[OF assms(1,2)]
    wal_uri_inj[OF assms(1,2,6,7)] assms(3) by simp

theorem pipeline_isolation_witness:
  "\<exists>p p'. pipeline_paths_new ''/data'' \<lparr>tenant = ''a'', workspace = ''b'', pipeline = ''c''\<rparr> = Inr p \<and>
     pipeline_paths_new ''/data'' \<lparr>tenant = ''a'', workspace = ''b'', pipeline = ''d''\<rparr> = Inr p' \<and> root p \<noteq> root p'"
proof -
  let ?k = "\<lparr>tenant = ''a'', workspace = ''b'', pipeline = ''c''\<rparr>"
  let ?k' = "\<lparr>tenant = ''a'', workspace = ''b'', pipeline = ''d''\<rparr>"
  have ok: "key_ok ?k" "key_ok ?k'" by (simp_all add: key_ok_def validate_path_component_def)
  have ne: "?k \<noteq> ?k'" by simp
  have v: "valid_component (seg_as_str (SegmentId ''s''))" by (simp add: validate_path_component_def)
  obtain p p' where p: "pipeline_paths_new ''/data'' ?k = Inr p" "pipeline_paths_new ''/data'' ?k' = Inr p'"
    using pipeline_paths_new_root[OF ok(1)] pipeline_paths_new_root[OF ok(2)] by blast
  from pipeline_isolation[OF ok ne p v v] show ?thesis using p by blast
qed

text \<open>C35. Formatting the detail of a durable error panics exactly when the detail is longer than the
  512-byte ceiling and byte 512 lies inside a multi-byte character; otherwise the text shown
  keeps the ceiling up to the fixed suffix.\<close>

theorem clip_error_detail_panics:
  "(clip_error_detail d = None \<longleftrightarrow> 512 < length d \<and> utf8_cont (byte_of_char (d ! 512)))
   \<and> (length d \<le> 512 \<longrightarrow> clip_error_detail d = Some d)
   \<and> (\<forall>s. clip_error_detail d = Some s \<longrightarrow> 512 < length d \<longrightarrow>
        s = take 512 d @ ellipsis @ '' (truncated, '' @ show_nat (length d) @ '' bytes)'')"
  by (auto simp: clip_error_detail_def DURABLE_ERROR_DISPLAY_CEILING_def str_slice_to_def is_char_boundary_def)

theorem clip_error_detail_panics_witness:
  "clip_error_detail (replicate 511 (CHR ''x'') @ [CHR 0xC3, CHR 0xA9]) = None
   \<and> is_str (replicate 511 (CHR ''x'') @ [CHR 0xC3, CHR 0xA9])"
proof -
  let ?d = "replicate 511 (CHR ''x'') @ [CHR 0xC3, CHR 0xA9]"
  have "?d ! 512 = CHR 0xA9" by (simp add: nth_append)
  moreover have "utf8_cont (byte_of_char (CHR 0xA9))"
    by (simp add: utf8_cont_def word_le_nat_alt unat_byte_of_char)
  ultimately have "clip_error_detail ?d = None"
    using clip_error_detail_panics[of ?d] by simp
  moreover have "is_str (replicate 511 (CHR ''x''))" by (rule is_str_ascii) (simp add: ascii_def list_all_iff)
  moreover have "is_str [CHR 0xC3, CHR 0xA9]"
    by (simp add: is_str_def as_bytes_def byte_of_char_def utf8_ok.simps utf8_char_def utf8_tail_len_def
        utf8_tail_ok_def utf8_second_ok_def utf8_cont_def)
  ultimately show ?thesis by (simp only: is_str_append)
qed

end
