(* ===== verification/Catalog_Key.thy ===== *)
theory Catalog_Key
  imports Lease
begin

text \<open>
  The keys of the WAL catalog (\<^verbatim>\<open>crates/skippr-wal-catalog/src/key.rs\<close>): the key space as a
  datatype, its textual sort keys, the prefixes that enumerate one family of keys, and the
  decoder. The lemmas show that decoding inverts encoding on validated keys, that a decoded
  key is always valid, and that the six prefixes split the encoded keys into families.
\<close>

datatype CompactionId = CompactionId (cmp_as_str: string)
datatype CheckpointKey = CheckpointKey (cpk_as_str: string)
datatype OffsetHintKey = OffsetHintKey (hint_namespace: string) (hint_partition: string)

definition compaction_id_new :: "string \<Rightarrow> PathError + CompactionId" where
  "compaction_id_new raw = bindR (validate_path_component raw) (\<lambda>_. Inr (CompactionId raw))"

definition checkpoint_key_new :: "string \<Rightarrow> PathError + CheckpointKey" where
  "checkpoint_key_new raw = bindR (validate_path_component raw) (\<lambda>_. Inr (CheckpointKey raw))"

definition offset_hint_key_new :: "string \<Rightarrow> string \<Rightarrow> PathError + OffsetHintKey" where
  "offset_hint_key_new ns part =
     bindR (validate_path_component ns) (\<lambda>_.
     bindR (validate_path_component part) (\<lambda>_. Inr (OffsetHintKey ns part)))"

datatype CatalogPrefix =
  PSegment | PIndex | PLegacySlice | PCompaction | PCheckpoint | POffsetHint

definition prefix_ALL :: "CatalogPrefix list" where
  "prefix_ALL = [PSegment, PIndex, PLegacySlice, PCompaction, PCheckpoint, POffsetHint]"

fun prefix_as_str :: "CatalogPrefix \<Rightarrow> string" where
  "prefix_as_str PSegment = ''wal#seg#''"
| "prefix_as_str PIndex = ''wal#idx#''"
| "prefix_as_str PLegacySlice = ''wal#slice#''"
| "prefix_as_str PCompaction = ''wal#cmp#''"
| "prefix_as_str PCheckpoint = ''wal#cp#''"
| "prefix_as_str POffsetHint = ''wal#hint#''"

datatype CatalogKey =
    KSegment SegmentId
  | KIndex SegmentId
  | KLegacySlice SegmentId u32
  | KCompaction CompactionId
  | KCheckpoint CheckpointKey
  | KOffsetHint OffsetHintKey
  | KSeq
  | KFormat

fun key_encode :: "CatalogKey \<Rightarrow> string" where
  "key_encode (KSegment i) = ''wal#seg#'' @ seg_as_str i"
| "key_encode (KIndex i) = ''wal#idx#'' @ seg_as_str i"
| "key_encode (KLegacySlice i n) = ''wal#slice#'' @ seg_as_str i @ ''#'' @ show_nat (unat n)"
| "key_encode (KCompaction i) = ''wal#cmp#'' @ cmp_as_str i"
| "key_encode (KCheckpoint k) = ''wal#cp#'' @ cpk_as_str k"
| "key_encode (KOffsetHint k) = ''wal#hint#'' @ hint_namespace k @ ''#'' @ hint_partition k"
| "key_encode KSeq = ''wal#seq''"
| "key_encode KFormat = ''wal#format''"

definition decode_slice_rest :: "string \<Rightarrow> string \<Rightarrow> PathError + CatalogKey" where
  "decode_slice_rest sk rest = (case rsplit_once (CHR ''#'') rest of
      None \<Rightarrow> Inl (InvalidComponent (''slice SK must be wal#slice#seg#ordinal: '' @ sk))
    | Some (segment, ordinal) \<Rightarrow> (case parse_u32 ordinal of
          None \<Rightarrow> Inl (InvalidComponent (''slice ordinal is not u32: '' @ sk))
        | Some n \<Rightarrow> bindR (segment_id_new segment) (\<lambda>i. Inr (KLegacySlice i n))))"

definition decode_hint_rest :: "string \<Rightarrow> string \<Rightarrow> PathError + CatalogKey" where
  "decode_hint_rest sk rest = (case split_once (CHR ''#'') rest of
      None \<Rightarrow> Inl (InvalidComponent (''offset hint SK must be wal#hint#ns#part: '' @ sk))
    | Some (ns, part) \<Rightarrow> bindR (offset_hint_key_new ns part) (\<lambda>k. Inr (KOffsetHint k)))"

definition key_decode :: "string \<Rightarrow> PathError + CatalogKey" where
  "key_decode sk =
     (if sk = ''wal#seq'' then Inr KSeq
      else if sk = ''wal#format'' then Inr KFormat
      else case strip_prefix ''wal#seg#'' sk of
        Some rest \<Rightarrow> bindR (segment_id_new rest) (\<lambda>i. Inr (KSegment i))
      | None \<Rightarrow> (case strip_prefix ''wal#idx#'' sk of
        Some rest \<Rightarrow> bindR (segment_id_new rest) (\<lambda>i. Inr (KIndex i))
      | None \<Rightarrow> (case strip_prefix ''wal#slice#'' sk of
        Some rest \<Rightarrow> decode_slice_rest sk rest
      | None \<Rightarrow> (case strip_prefix ''wal#cmp#'' sk of
        Some rest \<Rightarrow> bindR (compaction_id_new rest) (\<lambda>i. Inr (KCompaction i))
      | None \<Rightarrow> (case strip_prefix ''wal#cp#'' sk of
        Some rest \<Rightarrow> bindR (checkpoint_key_new rest) (\<lambda>k. Inr (KCheckpoint k))
      | None \<Rightarrow> (case strip_prefix ''wal#hint#'' sk of
        Some rest \<Rightarrow> decode_hint_rest sk rest
      | None \<Rightarrow> Inl (InvalidComponent (''unknown catalog SK: '' @ sk))))))))"

text \<open>Keys whose components passed the smart constructors, as every key built by the code has.\<close>

fun catalog_key_ok :: "CatalogKey \<Rightarrow> bool" where
  "catalog_key_ok (KSegment i) = valid_component (seg_as_str i)"
| "catalog_key_ok (KIndex i) = valid_component (seg_as_str i)"
| "catalog_key_ok (KLegacySlice i n) = valid_component (seg_as_str i)"
| "catalog_key_ok (KCompaction i) = valid_component (cmp_as_str i)"
| "catalog_key_ok (KCheckpoint k) = valid_component (cpk_as_str k)"
| "catalog_key_ok (KOffsetHint k) =
     (valid_component (hint_namespace k) \<and> valid_component (hint_partition k))"
| "catalog_key_ok KSeq = True"
| "catalog_key_ok KFormat = True"

text \<open>The Rust string invariant of every text component of a key.\<close>

fun catalog_key_str :: "CatalogKey \<Rightarrow> bool" where
  "catalog_key_str (KSegment i) = is_str (seg_as_str i)"
| "catalog_key_str (KIndex i) = is_str (seg_as_str i)"
| "catalog_key_str (KLegacySlice i n) = is_str (seg_as_str i)"
| "catalog_key_str (KCompaction i) = is_str (cmp_as_str i)"
| "catalog_key_str (KCheckpoint k) = is_str (cpk_as_str k)"
| "catalog_key_str (KOffsetHint k) = (is_str (hint_namespace k) \<and> is_str (hint_partition k))"
| "catalog_key_str KSeq = True"
| "catalog_key_str KFormat = True"

fun prefix_of_key :: "CatalogKey \<Rightarrow> CatalogPrefix option" where
  "prefix_of_key (KSegment i) = Some PSegment"
| "prefix_of_key (KIndex i) = Some PIndex"
| "prefix_of_key (KLegacySlice i n) = Some PLegacySlice"
| "prefix_of_key (KCompaction i) = Some PCompaction"
| "prefix_of_key (KCheckpoint k) = Some PCheckpoint"
| "prefix_of_key (KOffsetHint k) = Some POffsetHint"
| "prefix_of_key KSeq = None"
| "prefix_of_key KFormat = None"

lemma key_new_Inr:
  "compaction_id_new s = Inr i \<longleftrightarrow> i = CompactionId s \<and> valid_component s"
  "checkpoint_key_new s = Inr k \<longleftrightarrow> k = CheckpointKey s \<and> valid_component s"
  "offset_hint_key_new s t = Inr h \<longleftrightarrow> h = OffsetHintKey s t \<and> valid_component s \<and> valid_component t"
  by (auto simp: compaction_id_new_def checkpoint_key_new_def offset_hint_key_new_def bindR_Inr_iff)

lemma decode_slice_rest_encode:
  assumes "valid_component s"
  shows "decode_slice_rest sk (s @ ''#'' @ show_nat (unat n)) = Inr (KLegacySlice (SegmentId s) n)"
  using assms rsplit_once_append[OF show_nat_no_hash, of s]
  by (simp add: decode_slice_rest_def parse_u32_show_nat segment_id_new_def)

lemma decode_hint_rest_encode:
  assumes "valid_component ns" "valid_component part"
  shows "decode_hint_rest sk (ns @ ''#'' @ part) = Inr (KOffsetHint (OffsetHintKey ns part))"
  using assms split_once_append[OF valid_component_no_reserved(1)[OF assms(1)], of part]
  by (simp add: decode_hint_rest_def offset_hint_key_new_def)

lemma key_decode_encode: "catalog_key_ok k \<Longrightarrow> key_decode (key_encode k) = Inr k"
  by (cases k)
    (simp_all add: key_decode_def segment_id_new_def compaction_id_new_def checkpoint_key_new_def
      decode_slice_rest_encode[unfolded append_Cons append_Nil]
      decode_hint_rest_encode[unfolded append_Cons append_Nil])

lemma key_encode_inj:
  "catalog_key_ok k \<Longrightarrow> catalog_key_ok k' \<Longrightarrow> key_encode k = key_encode k' \<longleftrightarrow> k = k'"
  by (metis key_decode_encode sum.inject(2))

lemma decode_rest_ok:
  "decode_slice_rest sk rest = Inr k \<Longrightarrow> catalog_key_ok k"
  "decode_hint_rest sk rest = Inr k \<Longrightarrow> catalog_key_ok k"
  by (auto simp: decode_slice_rest_def decode_hint_rest_def bindR_Inr_iff segment_id_new_Inr
      key_new_Inr split: option.splits)

lemma key_decode_ok: "key_decode sk = Inr k \<Longrightarrow> catalog_key_ok k"
proof -
  have step: "(case x of Some r \<Rightarrow> f r | None \<Rightarrow> y) = Inr k \<Longrightarrow>
      (\<And>r. f r = Inr k \<Longrightarrow> catalog_key_ok k) \<Longrightarrow> (y = Inr k \<Longrightarrow> catalog_key_ok k) \<Longrightarrow> catalog_key_ok k"
    for x and f :: "string \<Rightarrow> PathError + CatalogKey" and y
    by (cases x) simp_all
  have ite: "(if b then Inr c else y) = Inr k \<Longrightarrow> catalog_key_ok c \<Longrightarrow>
      (y = Inr k \<Longrightarrow> catalog_key_ok k) \<Longrightarrow> catalog_key_ok k" for b c and y :: "PathError + CatalogKey"
    by (cases b) simp_all
  assume "key_decode sk = Inr k"
  then show ?thesis
    unfolding key_decode_def
    by (elim ite step decode_rest_ok)
      (auto simp: bindR_Inr_iff segment_id_new_Inr key_new_Inr)
qed

lemma key_encode_prefix:
  "prefix (prefix_as_str p) (key_encode k) \<longleftrightarrow> prefix_of_key k = Some p"
  by (cases k; cases p) simp_all

lemma key_encode_is_str: "catalog_key_str k \<Longrightarrow> is_str (key_encode k)"
proof -
  have ascii_digits: "ascii (show_nat n)" for n
    using show_nat_digits[of n] by (auto simp: ascii_def list_all_iff is_digit_def)
  have lit: "is_str (p @ s) = is_str s" if "ascii p" for p s
    using that by (simp add: is_str_append is_str_ascii)
  show "catalog_key_str k \<Longrightarrow> is_str (key_encode k)"
    by (cases k)
      (simp_all add: lit[of "''wal#seg#''", simplified] lit[of "''wal#idx#''", simplified]
        lit[of "''wal#slice#''", simplified] lit[of "''wal#cmp#''", simplified]
        lit[of "''wal#cp#''", simplified] lit[of "''wal#hint#''", simplified]
        lit[of "''#''", simplified] is_str_append is_str_ascii[OF ascii_digits]
        is_str_ascii[of "''wal#seq''"] is_str_ascii[of "''wal#format''"] ascii_def)
qed

section \<open>Properties\<close>

text \<open>The decoder inverts the sort key of a catalog key exactly for the keys whose components
  are valid, so distinct valid keys never collide in the store.\<close>

theorem catalog_key_roundtrip: "key_decode (key_encode k) = Inr k \<longleftrightarrow> catalog_key_ok k"
  using key_decode_encode key_decode_ok by blast

text \<open>The six enumeration prefixes split the key space: a sort key starts with the prefix of its
  own family and with no other, and the sequence and format keys start with none of them.\<close>

theorem catalog_prefix_partition:
  "prefix (prefix_as_str p) (key_encode k) \<longleftrightarrow> prefix_of_key k = Some p"
  by (rule key_encode_prefix)

end
