(* ===== verification/Catalog_Row.thy ===== *)
theory Catalog_Row
  imports Catalog_Key
begin

text \<open>
  The rows of the WAL catalog (\<^verbatim>\<open>crates/skippr-wal-catalog/src/row.rs\<close> and
  \<^verbatim>\<open>error.rs\<close>): the row types, the completion bitmap of a segment, the row codec with its
  size ceiling, and the conditional operations a transaction is made of.

  The bytes of a row come from the third-party crates bincode and sha2. They are the
  parameter \<open>codec\<close>: \<open>ser\<close> and \<open>deser\<close> return the crate's error text as \<open>Inl\<close>, \<open>sha256\<close> is
  the digest.
\<close>

unbundle bit_operations_syntax

datatype CatalogError =
    TxnFull
  | RowTooLarge nat
  | Fenced
  | ConditionFailed
  | VersionMustAdvance
  | LegacyRowWrite
  | Conflict
  | Codec string
  | CatalogIo string
  | SeqOpOnNonSeqKey
  | WrongPayloadLayer

definition ROW_MAX_BYTES :: nat where "ROW_MAX_BYTES = 4 * 1024 * 1024"
definition FORMAT_VERSION :: u32 where "FORMAT_VERSION = 3"

section \<open>Sequence numbers and the writer fence\<close>

datatype CatalogSeq = CatalogSeq (seq_get: u64)

definition seq_ZERO :: CatalogSeq where "seq_ZERO = CatalogSeq 0"

definition seq_next :: "CatalogSeq \<Rightarrow> CatalogError + CatalogSeq" where
  "seq_next s = (case checked_add (seq_get s) 1 of
      Some v \<Rightarrow> Inr (CatalogSeq v)
    | None \<Rightarrow> Inl (Codec ''catalog seq overflow''))"

record CatalogFence =
  owner :: NodeId
  epoch :: LeaseEpoch

definition fence_local :: CatalogFence where
  "fence_local = \<lparr>owner = single_node, epoch = SINGLE_NODE\<rparr>"

section \<open>Row types\<close>

record CommittedOffset =
  off_namespace :: string
  off_partition :: string
  off_filesize :: u64
  off_position :: u64
  off_closed :: u64

record CommittedCheckpoint =
  ckp_logical_key :: string
  ckp_envelope :: bytes

datatype PayloadLocation = Disk string | S3 string string

record SliceBitmap =
  bm_slice_count :: u32
  bm_bytes :: bytes

record LegacySliceRow =
  ls_segment_id :: SegmentId
  ls_ordinal :: u32
  ls_namespace :: string
  ls_partition :: string
  ls_start :: u64
  ls_len :: u64
  ls_codec :: u8
  ls_part_meta_start :: u64
  ls_part_meta_len :: u64
  ls_version :: u64

record SliceDirEntry =
  sd_ordinal :: u32
  sd_namespace :: string
  sd_partition :: string
  sd_event_time :: "i64 option"
  sd_start :: u64
  sd_len :: u64
  sd_codec :: u8
  sd_row_count :: "u64 option"
  sd_sink_ref :: string
  sd_schema_fingerprint :: string
  sd_cdc_meta_hash :: "bytes option"
  sd_part_meta_start :: u64
  sd_part_meta_len :: u64

record SegmentIndexRow =
  ix_segment_id :: SegmentId
  ix_version :: u64
  ix_entries :: "SliceDirEntry list"

record SegmentRow =
  sg_segment_id :: SegmentId
  sg_seq :: CatalogSeq
  sg_location :: PayloadLocation
  sg_payload_len :: u64
  sg_payload_sha256 :: bytes
  sg_slice_count :: u32
  sg_done :: SliceBitmap
  sg_offsets :: "CommittedOffset list"
  sg_checkpoints :: "CommittedCheckpoint list"
  sg_epoch :: LeaseEpoch
  sg_version :: u64

datatype CompactionState = Pending | Sent | Acked

record CompactionRow =
  cr_id :: CompactionId
  cr_state :: CompactionState
  cr_body :: bytes
  cr_version :: u64

datatype ControlBody =
    CheckpointBody string bytes
  | OffsetHintBody u64 bool

record ControlRow =
  ct_seq :: CatalogSeq
  ct_epoch :: LeaseEpoch
  ct_body :: ControlBody
  ct_version :: u64

record SeqRow = max_seq :: CatalogSeq

datatype FormatPhase = Imported | Clean

record FormatRow =
  fm_version :: u32
  fm_phase :: FormatPhase
  fm_row_version :: u64

datatype CatalogRow =
    RSegment SegmentRow
  | RIndex SegmentIndexRow
  | RLegacySlice LegacySliceRow
  | RCompaction CompactionRow
  | RControl ControlRow
  | RSeq SeqRow
  | RFormat FormatRow

fun row_version_of :: "CatalogRow \<Rightarrow> u64 option" where
  "row_version_of (RSegment r) = Some (sg_version r)"
| "row_version_of (RIndex r) = Some (ix_version r)"
| "row_version_of (RLegacySlice r) = Some (ls_version r)"
| "row_version_of (RCompaction r) = Some (cr_version r)"
| "row_version_of (RControl r) = Some (ct_version r)"
| "row_version_of (RFormat r) = Some (fm_row_version r)"
| "row_version_of (RSeq r) = None"

section \<open>The completion bitmap of a segment\<close>

definition bm_new :: "u32 \<Rightarrow> SliceBitmap" where
  "bm_new slice_count = \<lparr>bm_slice_count = slice_count,
     bm_bytes = replicate ((unat slice_count + 7) div 8) 0\<rparr>"

text \<open>An index past the byte vector panics in Rust: \<open>None\<close>.\<close>

fun bm_or_bits :: "u32 list \<Rightarrow> SliceBitmap \<Rightarrow> SliceBitmap option" where
  "bm_or_bits [] b = Some b"
| "bm_or_bits (ord # ords) b =
     (if bm_slice_count b \<le> ord then bm_or_bits ords b
      else let i = unat ord in
        if i div 8 < length (bm_bytes b) then
          bm_or_bits ords
            (b\<lparr>bm_bytes := (bm_bytes b)[i div 8 := (bm_bytes b ! (i div 8)) OR push_bit (i mod 8) 1]\<rparr>)
        else None)"

definition bm_bit :: "SliceBitmap \<Rightarrow> nat \<Rightarrow> bool option" where
  "bm_bit b i = (if i div 8 < length (bm_bytes b)
     then Some ((bm_bytes b ! (i div 8)) AND push_bit (i mod 8) 1 \<noteq> 0) else None)"

definition bm_is_done :: "SliceBitmap \<Rightarrow> u32 \<Rightarrow> bool option" where
  "bm_is_done b ordinal =
     (if bm_slice_count b \<le> ordinal then Some False else bm_bit b (unat ordinal))"

fun bm_all_from :: "SliceBitmap \<Rightarrow> nat list \<Rightarrow> bool option" where
  "bm_all_from b [] = Some True"
| "bm_all_from b (i # is) = (case bm_bit b i of
      None \<Rightarrow> None
    | Some False \<Rightarrow> Some False
    | Some True \<Rightarrow> bm_all_from b is)"

definition bm_all_done :: "SliceBitmap \<Rightarrow> bool option" where
  "bm_all_done b =
     (if bm_slice_count b = 0 then Some True
      else bm_all_from b [0..<unat (bm_slice_count b)])"

text \<open>The shape that \<open>SliceBitmap::new\<close> establishes and the completed ordinals it stands for.\<close>

definition bm_ok :: "SliceBitmap \<Rightarrow> bool" where
  "bm_ok b \<longleftrightarrow> length (bm_bytes b) = (unat (bm_slice_count b) + 7) div 8"

definition bm_set :: "SliceBitmap \<Rightarrow> nat set" where
  "bm_set b = {i. i < unat (bm_slice_count b) \<and> i div 8 < length (bm_bytes b)
                  \<and> bit (bm_bytes b ! (i div 8)) (i mod 8)}"

lemma bm_ok_index: "bm_ok b \<Longrightarrow> i < unat (bm_slice_count b) \<Longrightarrow> i div 8 < length (bm_bytes b)"
  by (simp add: bm_ok_def)

lemma bm_bit_eq: "bm_ok b \<Longrightarrow> i < unat (bm_slice_count b) \<Longrightarrow> bm_bit b i = Some (i \<in> bm_set b)"
  by (simp add: bm_bit_def bm_set_def bm_ok_index and_exp_eq_0_iff_not_bit)

lemma bm_new_ok: "bm_ok (bm_new n)" "bm_set (bm_new n) = {}"
  by (auto simp: bm_new_def bm_ok_def bm_set_def)

lemma bm_is_done_eq: "bm_ok b \<Longrightarrow> bm_is_done b n = Some (unat n \<in> bm_set b)"
  by (auto simp: bm_is_done_def bm_bit_eq word_le_nat_alt bm_set_def)

lemma bm_all_from_eq:
  "bm_ok b \<Longrightarrow> \<forall>i\<in>set is. i < unat (bm_slice_count b) \<Longrightarrow> bm_all_from b is = Some (set is \<subseteq> bm_set b)"
  by (induction "is") (auto simp: bm_bit_eq split: option.splits bool.splits)

lemma bm_all_done_eq:
  "bm_ok b \<Longrightarrow> bm_all_done b = Some (bm_set b = {..<unat (bm_slice_count b)})"
proof -
  assume b: "bm_ok b"
  have sub: "bm_set b \<subseteq> {..<unat (bm_slice_count b)}" by (auto simp: bm_set_def)
  show ?thesis
  proof (cases "bm_slice_count b = 0")
    case True
    with sub show ?thesis by (simp add: bm_all_done_def)
  next
    case False
    then show ?thesis
      using sub bm_all_from_eq[OF b, of "[0..<unat (bm_slice_count b)]"]
      by (auto simp: bm_all_done_def lessThan_atLeast0)
  qed
qed

lemma bm_set_upd:
  assumes b: "bm_ok b" and i: "i < unat (bm_slice_count b)"
  shows "bm_set (b\<lparr>bm_bytes := (bm_bytes b)[i div 8 := (bm_bytes b ! (i div 8)) OR push_bit (i mod 8) 1]\<rparr>)
          = insert i (bm_set b)"
proof -
  have il: "i div 8 < length (bm_bytes b)" by (rule bm_ok_index[OF b i])
  have split8: "j div 8 = i div 8 \<and> j mod 8 = i mod 8 \<longleftrightarrow> j = i" for j
    by (metis div_mult_mod_eq)
  have bits: "bit ((bm_bytes b)[i div 8 := (bm_bytes b ! (i div 8)) OR push_bit (i mod 8) 1] ! (j div 8)) (j mod 8)
       \<longleftrightarrow> j = i \<or> bit (bm_bytes b ! (j div 8)) (j mod 8)" if "j div 8 < length (bm_bytes b)" for j
    using that il split8[of j]
    by (cases "j div 8 = i div 8")
      (auto simp: nth_list_update bit_or_iff bit_exp_iff)
  show ?thesis
    using i il bits by (auto simp: bm_set_def)
qed

lemma bm_or_bits_spec:
  "bm_ok b \<Longrightarrow> \<exists>b'. bm_or_bits ords b = Some b' \<and> bm_ok b' \<and> bm_slice_count b' = bm_slice_count b \<and>
     bm_set b' = bm_set b \<union> {i \<in> unat ` set ords. i < unat (bm_slice_count b)}"
proof (induction ords arbitrary: b)
  case (Cons ord ords)
  show ?case
  proof (cases "bm_slice_count b \<le> ord")
    case True
    with Cons.IH[OF Cons.prems] show ?thesis by (auto simp: word_le_nat_alt)
  next
    case False
    let ?i = "unat ord"
    let ?b = "b\<lparr>bm_bytes := (bm_bytes b)[?i div 8 := (bm_bytes b ! (?i div 8)) OR push_bit (?i mod 8) 1]\<rparr>"
    have i: "?i < unat (bm_slice_count b)" using False by (simp add: word_le_nat_alt)
    have ok: "bm_ok ?b" using Cons.prems by (simp add: bm_ok_def)
    from Cons.IH[OF ok] show ?thesis
      using False i bm_ok_index[OF Cons.prems i] bm_set_upd[OF Cons.prems i]
      by (auto simp: Let_def)
  qed
qed simp

section \<open>The row codec\<close>

record codec =
  ser :: "CatalogRow \<Rightarrow> string + bytes"
  deser :: "bytes \<Rightarrow> string + CatalogRow"
  sha256 :: "bytes \<Rightarrow> bytes"

definition row_encode :: "codec \<Rightarrow> CatalogRow \<Rightarrow> CatalogError + bytes" where
  "row_encode c row = (case ser c row of
      Inl e \<Rightarrow> Inl (Codec e)
    | Inr bs \<Rightarrow> if ROW_MAX_BYTES < length bs then Inl (RowTooLarge (length bs)) else Inr bs)"

definition row_decode :: "codec \<Rightarrow> bytes \<Rightarrow> CatalogError + CatalogRow" where
  "row_decode c bs =
     (if ROW_MAX_BYTES < length bs then Inl (RowTooLarge (length bs))
      else case deser c bs of Inl e \<Rightarrow> Inl (Codec e) | Inr r \<Rightarrow> Inr r)"

text \<open>The documented contract of bincode: deserializing what was serialized gives it back.\<close>

definition codec_ok :: "codec \<Rightarrow> bool" where
  "codec_ok c \<longleftrightarrow> (\<forall>row bs. ser c row = Inr bs \<longrightarrow> deser c bs = Inr row)"

lemma row_decode_encode: "codec_ok c \<Longrightarrow> row_encode c row = Inr bs \<Longrightarrow> row_decode c bs = Inr row"
  by (auto simp: codec_ok_def row_encode_def row_decode_def split: sum.splits if_splits)

lemma row_encode_bound: "row_encode c row = Inr bs \<Longrightarrow> length bs \<le> ROW_MAX_BYTES"
  by (auto simp: row_encode_def split: sum.splits if_splits)

section \<open>Conditional operations\<close>

datatype PutCond = NotExists | SameSha | PutVersion u64 | SeqAdvance
datatype DeleteCond = DelExists | DelVersion u64

datatype CatalogOp =
    OpPut CatalogKey CatalogRow PutCond
  | OpDelete CatalogKey DeleteCond

fun encoded_len :: "codec \<Rightarrow> CatalogOp \<Rightarrow> CatalogError + nat" where
  "encoded_len c (OpPut key row cond) = bindR (row_encode c row) (\<lambda>bs. Inr (length bs))"
| "encoded_len c (OpDelete key cond) = Inr 0"

section \<open>Properties\<close>

text \<open>C32. Recording completed slices in the bitmap of a segment never panics, ignores ordinals past
  the slice count, never forgets a completed slice, and the segment reports that it is done
  exactly when every slice has been recorded.\<close>

theorem bitmap_completion:
  assumes "bm_ok b"
  shows "\<exists>b'. bm_or_bits ords b = Some b' \<and> bm_ok b' \<and> bm_slice_count b' = bm_slice_count b
     \<and> (\<forall>n. bm_is_done b' n = Some (n < bm_slice_count b \<and> (unat n \<in> bm_set b \<or> n \<in> set ords)))
     \<and> bm_all_done b' = Some (\<forall>i < unat (bm_slice_count b). i \<in> bm_set b \<or> i \<in> unat ` set ords)"
proof -
  obtain b' where b': "bm_or_bits ords b = Some b'" "bm_ok b'" "bm_slice_count b' = bm_slice_count b"
    and s: "bm_set b' = bm_set b \<union> {i \<in> unat ` set ords. i < unat (bm_slice_count b)}"
    using bm_or_bits_spec[OF assms] by blast
  have sub: "bm_set b \<subseteq> {..<unat (bm_slice_count b)}" by (auto simp: bm_set_def)
  have "bm_is_done b' n = Some (n < bm_slice_count b \<and> (unat n \<in> bm_set b \<or> n \<in> set ords))" for n
    unfolding bm_is_done_eq[OF b'(2)] s using sub by (auto simp: word_less_nat_alt dest: word_unat_eq_iff[THEN iffD2])
  moreover have "bm_all_done b' = Some (\<forall>i < unat (bm_slice_count b). i \<in> bm_set b \<or> i \<in> unat ` set ords)"
    unfolding bm_all_done_eq[OF b'(2)] b'(3) s using sub by auto
  ultimately show ?thesis using b' by blast
qed

theorem bitmap_completion_witness:
  "\<exists>b'. bm_or_bits [2, 0, 9, 1] (bm_new 3) = Some b' \<and> bm_all_done b' = Some True"
proof -
  have all: "\<forall>i < unat (bm_slice_count (bm_new 3)). i \<in> bm_set (bm_new 3) \<or> i \<in> unat ` set [2 :: u32, 0, 9, 1]"
    by (auto simp: bm_new_def numeral_3_eq_3[symmetric])
  obtain b' where "bm_or_bits [2, 0, 9, 1] (bm_new 3) = Some b'"
    and d: "bm_all_done b' = Some (\<forall>i < unat (bm_slice_count (bm_new 3)). i \<in> bm_set (bm_new 3) \<or> i \<in> unat ` set [2 :: u32, 0, 9, 1])"
    using bitmap_completion[OF bm_new_ok(1), of "[2, 0, 9, 1]" 3] by blast
  moreover have "bm_all_done b' = Some True" by (rule d[unfolded eqTrueI[OF all]])
  ultimately show ?thesis by blast
qed

end
