(* ===== verification/Catalog_Txn.thy ===== *)
theory Catalog_Txn
  imports Catalog_Row
begin

text \<open>
  Catalog transactions (\<^verbatim>\<open>crates/skippr-wal-catalog/src/txn.rs\<close> and \<^verbatim>\<open>apply.rs\<close>): a
  bounded list of conditional operations, and the evaluation that checks every condition
  against one read function before anything is written. The lemmas give the exact
  condition under which evaluation succeeds, operation by operation, and what it plans.
\<close>

section \<open>Building a transaction\<close>

definition TXN_MAX_OPS :: nat where "TXN_MAX_OPS = 99"

record CatalogTxn = ops :: "CatalogOp list"

definition txn_new :: CatalogTxn where "txn_new = \<lparr>ops = []\<rparr>"

fun seq_advance_misplaced :: "CatalogOp \<Rightarrow> bool" where
  "seq_advance_misplaced (OpPut key row SeqAdvance) = (key \<noteq> KSeq)"
| "seq_advance_misplaced _ = False"

definition txn_push :: "codec \<Rightarrow> CatalogTxn \<Rightarrow> CatalogOp \<Rightarrow> CatalogError + CatalogTxn" where
  "txn_push c txn op =
     (if TXN_MAX_OPS \<le> length (ops txn) then Inl TxnFull
      else if seq_advance_misplaced op then Inl SeqOpOnNonSeqKey
      else bindR (encoded_len c op) (\<lambda>_. Inr (txn\<lparr>ops := ops txn @ [op]\<rparr>)))"

definition txn_put :: "codec \<Rightarrow> CatalogTxn \<Rightarrow> CatalogKey \<Rightarrow> CatalogRow \<Rightarrow> PutCond \<Rightarrow> CatalogError + CatalogTxn" where
  "txn_put c txn key row cond = txn_push c txn (OpPut key row cond)"

definition txn_delete :: "codec \<Rightarrow> CatalogTxn \<Rightarrow> CatalogKey \<Rightarrow> DeleteCond \<Rightarrow> CatalogError + CatalogTxn" where
  "txn_delete c txn key cond = txn_push c txn (OpDelete key cond)"

fun txn_push_all :: "codec \<Rightarrow> CatalogTxn \<Rightarrow> CatalogOp list \<Rightarrow> CatalogError + CatalogTxn" where
  "txn_push_all c txn [] = Inr txn"
| "txn_push_all c txn (op # os) = bindR (txn_push c txn op) (\<lambda>t. txn_push_all c t os)"

definition op_pushable :: "codec \<Rightarrow> CatalogOp \<Rightarrow> bool" where
  "op_pushable c op \<longleftrightarrow> \<not> seq_advance_misplaced op \<and> \<not> is_err (encoded_len c op)"

lemma txn_push_Inr:
  "txn_push c txn op = Inr t \<longleftrightarrow>
     length (ops txn) < TXN_MAX_OPS \<and> op_pushable c op \<and> t = txn\<lparr>ops := ops txn @ [op]\<rparr>"
  by (cases "encoded_len c op") (auto simp: txn_push_def op_pushable_def)

lemma txn_push_all_Inr:
  "txn_push_all c txn os = Inr t \<longleftrightarrow>
     (os \<noteq> [] \<longrightarrow> length (ops txn) + length os \<le> TXN_MAX_OPS) \<and> (\<forall>op\<in>set os. op_pushable c op)
     \<and> t = txn\<lparr>ops := ops txn @ os\<rparr>"
proof (induction os arbitrary: txn)
  case (Cons op os)
  show ?case
    by (auto simp: bindR_Inr_iff txn_push_Inr Cons.IH)
qed auto

section \<open>Evaluating a transaction\<close>

fun validate_put :: "CatalogOp \<Rightarrow> CatalogError + unit" where
  "validate_put (OpDelete key cond) = Inr ()"
| "validate_put (OpPut key row cond) =
     (case row of
        RLegacySlice _ \<Rightarrow> Inl LegacyRowWrite
      | _ \<Rightarrow> (case cond of
          PutVersion expected \<Rightarrow> (case checked_add expected 1 of
              None \<Rightarrow> Inl VersionMustAdvance
            | Some nxt \<Rightarrow> if row_version_of row = Some nxt then Inr () else Inl VersionMustAdvance)
        | _ \<Rightarrow> Inr ()))"

definition row_version :: "codec \<Rightarrow> bytes \<Rightarrow> CatalogError + u64" where
  "row_version c bs = bindR (row_decode c bs) (\<lambda>row. case row_version_of row of
      Some v \<Rightarrow> Inr v
    | None \<Rightarrow> Inl (Codec ''SeqRow has no version; use SeqAdvance''))"

datatype Applied = APut CatalogKey bytes | ADelete CatalogKey

definition version_matches :: "codec \<Rightarrow> bytes option \<Rightarrow> u64 \<Rightarrow> CatalogError + unit" where
  "version_matches c existing expected = (case existing of
      None \<Rightarrow> Inl ConditionFailed
    | Some bs \<Rightarrow> bindR (row_version c bs) (\<lambda>v. if v \<noteq> expected then Inl ConditionFailed else Inr ()))"

definition check_put_cond ::
  "codec \<Rightarrow> CatalogKey \<Rightarrow> CatalogRow \<Rightarrow> PutCond \<Rightarrow> bytes \<Rightarrow> bytes option \<Rightarrow> CatalogError + unit"
where
  "check_put_cond c key row cond incoming existing = (case cond of
      NotExists \<Rightarrow> if existing \<noteq> None then Inl ConditionFailed else Inr ()
    | SameSha \<Rightarrow> (case existing of
          None \<Rightarrow> Inl ConditionFailed
        | Some bs \<Rightarrow> if sha256 c bs \<noteq> sha256 c incoming then Inl ConditionFailed else Inr ())
    | PutVersion expected \<Rightarrow> version_matches c existing expected
    | SeqAdvance \<Rightarrow>
        (if key \<noteq> KSeq then Inl SeqOpOnNonSeqKey
         else case row of
           RSeq r \<Rightarrow> (case existing of
               None \<Rightarrow> Inr ()
             | Some bs \<Rightarrow> bindR (row_decode c bs) (\<lambda>old. case old of
                   RSeq o' \<Rightarrow> if seq_get (max_seq o') < seq_get (max_seq r) then Inr ()
                              else Inl ConditionFailed
                 | _ \<Rightarrow> Inl ConditionFailed))
         | _ \<Rightarrow> Inl (Codec ''SeqAdvance requires SeqRow'')))"

definition check_delete_cond :: "codec \<Rightarrow> DeleteCond \<Rightarrow> bytes option \<Rightarrow> CatalogError + unit" where
  "check_delete_cond c cond existing = (case cond of
      DelExists \<Rightarrow> if existing = None then Inl ConditionFailed else Inr ()
    | DelVersion expected \<Rightarrow> version_matches c existing expected)"

fun eval_op :: "codec \<Rightarrow> (CatalogKey \<Rightarrow> CatalogError + bytes option) \<Rightarrow> CatalogOp \<Rightarrow> CatalogError + Applied" where
  "eval_op c get (OpPut key row cond) =
     bindR (validate_put (OpPut key row cond)) (\<lambda>_.
     bindR (row_encode c row) (\<lambda>incoming.
     bindR (get key) (\<lambda>existing.
     bindR (check_put_cond c key row cond incoming existing) (\<lambda>_.
       Inr (APut key incoming)))))"
| "eval_op c get (OpDelete key cond) =
     bindR (get key) (\<lambda>existing.
     bindR (check_delete_cond c cond existing) (\<lambda>_. Inr (ADelete key)))"

fun eval_list :: "codec \<Rightarrow> (CatalogKey \<Rightarrow> CatalogError + bytes option) \<Rightarrow> CatalogOp list \<Rightarrow> CatalogError + Applied list" where
  "eval_list c get [] = Inr []"
| "eval_list c get (op # os) =
     bindR (eval_op c get op) (\<lambda>a. bindR (eval_list c get os) (\<lambda>as. Inr (a # as)))"

definition eval_ops :: "codec \<Rightarrow> CatalogTxn \<Rightarrow> (CatalogKey \<Rightarrow> CatalogError + bytes option) \<Rightarrow> CatalogError + Applied list" where
  "eval_ops c txn get = eval_list c get (ops txn)"

lemma eval_list_Inr:
  "eval_list c get os = Inr as \<longleftrightarrow> list_all2 (\<lambda>op a. eval_op c get op = Inr a) os as"
  by (induction os arbitrary: "as") (auto simp: bindR_Inr_iff list_all2_Cons1)

lemma eval_ops_Inr:
  "eval_ops c txn get = Inr as \<longleftrightarrow> list_all2 (\<lambda>op a. eval_op c get op = Inr a) (ops txn) as"
  by (simp add: eval_ops_def eval_list_Inr)

lemma eval_list_total:
  "(\<exists>as. eval_list c get os = Inr as) \<longleftrightarrow> (\<forall>op\<in>set os. \<not> is_err (eval_op c get op))"
proof (induction os)
  case (Cons op os)
  then show ?case by (cases "eval_op c get op") (auto simp: bindR_Inr_iff)
qed simp

text \<open>What a successful operation says about the row that was stored before it.\<close>

lemma version_matches_Inr:
  "version_matches c existing v = Inr u \<longleftrightarrow>
     (\<exists>bs row. existing = Some bs \<and> row_decode c bs = Inr row \<and> row_version_of row = Some v)"
  by (auto simp: version_matches_def row_version_def bindR_Inr_iff split: option.splits)

lemma validate_put_Inr:
  "validate_put (OpPut key row cond) = Inr u \<Longrightarrow> (\<forall>r. row \<noteq> RLegacySlice r) \<and>
     (\<forall>v. cond = PutVersion v \<longrightarrow> (\<exists>v'. row_version_of row = Some v' \<and> unat v' = unat v + 1))"
  by (auto split: CatalogRow.splits PutCond.splits option.splits if_splits dest!: checked_add_Some)

lemma eval_put_Inr:
  "eval_op c get (OpPut key row cond) = Inr a \<longleftrightarrow>
     (\<exists>incoming existing. a = APut key incoming \<and> validate_put (OpPut key row cond) = Inr ()
        \<and> row_encode c row = Inr incoming \<and> get key = Inr existing
        \<and> check_put_cond c key row cond incoming existing = Inr ())"
  by (auto simp: bindR_Inr_iff)

lemma eval_delete_Inr:
  "eval_op c get (OpDelete key cond) = Inr a \<longleftrightarrow>
     (\<exists>existing. a = ADelete key \<and> get key = Inr existing \<and> check_delete_cond c cond existing = Inr ())"
  by (auto simp: bindR_Inr_iff)

lemma check_seq_advance:
  assumes "check_put_cond c key row SeqAdvance incoming existing = Inr u"
  shows "key = KSeq" "\<exists>r. row = RSeq r"
    "existing = Some bs \<Longrightarrow> row_decode c bs = Inr (RSeq old) \<Longrightarrow> row = RSeq new \<Longrightarrow>
       seq_get (max_seq old) < seq_get (max_seq new)"
  using assms by (auto simp: check_put_cond_def bindR_Inr_iff split: if_splits CatalogRow.splits option.splits)

section \<open>Properties\<close>

text \<open>A transaction holds at most 99 operations: pushing a list of operations onto an empty
  transaction succeeds exactly when there are at most 99, none applies \<open>SeqAdvance\<close> to another
  key than the sequence key, and every row put fits the size ceiling; the operations are kept
  in order.\<close>

theorem txn_bounded:
  "txn_push_all c txn_new os = Inr t \<longleftrightarrow>
     length os \<le> 99 \<and> list_all (op_pushable c) os \<and> ops t = os"
proof -
  have "t = txn_new\<lparr>ops := ops txn_new @ os\<rparr> \<longleftrightarrow> ops t = os" by (cases t) (auto simp: txn_new_def)
  then show ?thesis
    unfolding txn_push_all_Inr by (auto simp: TXN_MAX_OPS_def txn_new_def list_all_iff)
qed

end
