(* ===== verification/Kv_Store.thy ===== *)
theory Kv_Store
  imports Catalog_Txn
begin

text \<open>
  The Skippr Store interface (\<^verbatim>\<open>crates/skippr-wal-catalog/src/kv.rs\<close>) and its in-memory
  implementation (\<^verbatim>\<open>memory_kv.rs\<close>). The trait \<open>SkipprStore\<close> is a record of operations,
  because the catalog code receives it as a \<open>dyn\<close> object; its contract is the locale
  \<open>skippr_store\<close>, interpreted here on the memory store. A \<open>BTreeMap\<close> is a finite map read
  in key order.
\<close>

section \<open>Families, operations, ordered reads\<close>

datatype StoreFamily = StoreMeta | Catalog | Offsets | StreamState | Schema | Journal

definition STORE_FORMAT_VERSION :: u32 where "STORE_FORMAT_VERSION = 1"

fun family_prefix :: "StoreFamily \<Rightarrow> bytes" where
  "family_prefix StoreMeta = as_bytes ''store_meta/''"
| "family_prefix Catalog = as_bytes ''catalog/''"
| "family_prefix Offsets = as_bytes ''offsets/''"
| "family_prefix StreamState = as_bytes ''stream_state/''"
| "family_prefix Schema = as_bytes ''schema/''"
| "family_prefix Journal = as_bytes ''journal/''"

definition family_key :: "StoreFamily \<Rightarrow> bytes \<Rightarrow> bytes" where
  "family_key fam rest = family_prefix fam @ rest"

definition family_rest :: "StoreFamily \<Rightarrow> bytes \<Rightarrow> bytes option" where
  "family_rest fam key = strip_prefix (family_prefix fam) key"

datatype KvOp = KvPut bytes bytes | KvDelete bytes

type_synonym kv_rows = "(bytes, bytes) fmap"

fun apply_kv_op :: "KvOp \<Rightarrow> kv_rows \<Rightarrow> kv_rows" where
  "apply_kv_op (KvPut key value) m = fmupd key value m"
| "apply_kv_op (KvDelete key) m = fmdrop key m"

definition apply_kv_ops :: "KvOp list \<Rightarrow> kv_rows \<Rightarrow> kv_rows" where
  "apply_kv_ops kops m = fold apply_kv_op kops m"

fun query_loop :: "bytes \<Rightarrow> bytes option \<Rightarrow> nat \<Rightarrow> (bytes \<times> bytes) list \<Rightarrow> (bytes \<times> bytes) list \<Rightarrow> (bytes \<times> bytes) list" where
  "query_loop pre after limit out [] = out"
| "query_loop pre after limit out ((key, value) # rest) =
     (if \<not> prefix pre key then out
      else if (case after of Some a \<Rightarrow> key \<le> a | None \<Rightarrow> False) then query_loop pre after limit out rest
      else let out' = out @ [(key, value)] in
        if limit \<le> length out' then out' else query_loop pre after limit out' rest)"

definition query_map :: "kv_rows \<Rightarrow> bytes \<Rightarrow> bytes option \<Rightarrow> nat \<Rightarrow> CatalogError + (bytes \<times> bytes) list" where
  "query_map rows pre after limit =
     Inr (query_loop pre after limit [] (filter (\<lambda>(k, v). pre \<le> k) (btree_entries rows)))"

section \<open>The store trait and its contract\<close>

record 's store_ops =
  so_get :: "'s \<Rightarrow> bytes \<Rightarrow> CatalogError + bytes option"
  so_query :: "'s \<Rightarrow> bytes \<Rightarrow> bytes option \<Rightarrow> nat \<Rightarrow> CatalogError + (bytes \<times> bytes) list"
  so_commit :: "'s \<Rightarrow> KvOp list \<Rightarrow> CatalogFence \<Rightarrow> CatalogError + 's"
  so_flush :: "'s \<Rightarrow> CatalogError + unit"

text \<open>The page a prefix query promises: the matching entries after the cursor, in key order,
  cut at the limit. A limit of zero still yields one entry, because the source pushes an
  entry before it compares the length with the limit.\<close>

definition page_of :: "kv_rows \<Rightarrow> bytes \<Rightarrow> bytes option \<Rightarrow> nat \<Rightarrow> (bytes \<times> bytes) list" where
  "page_of rows pre after limit =
     take (max 1 limit)
       (filter (\<lambda>(k, v). prefix pre k \<and> (case after of Some a \<Rightarrow> a < k | None \<Rightarrow> True)) (btree_entries rows))"

locale skippr_store =
  fixes sops :: "'s store_ops"
    and rows_of :: "'s \<Rightarrow> kv_rows"
    and fence_ok :: "'s \<Rightarrow> CatalogFence \<Rightarrow> bool"
  assumes get_law: "so_get sops s key = Inr (fmlookup (rows_of s) key)"
    and query_law: "so_query sops s pre after limit = Inr (page_of (rows_of s) pre after limit)"
    and commit_fenced: "\<not> fence_ok s f \<Longrightarrow> so_commit sops s kops f = Inl Fenced"
    and commit_law: "fence_ok s f \<Longrightarrow> \<exists>s'. so_commit sops s kops f = Inr s' \<and>
           rows_of s' = apply_kv_ops kops (rows_of s) \<and> fence_ok s' = fence_ok s"
    and flush_law: "so_flush sops s = Inr ()"
begin

lemma commit_Inr:
  "so_commit sops s kops f = Inr s' \<Longrightarrow>
     fence_ok s f \<and> rows_of s' = apply_kv_ops kops (rows_of s) \<and> fence_ok s' = fence_ok s"
  using commit_fenced[of s f kops] commit_law[of s f kops] by (cases "fence_ok s f") auto

lemma get_after_commit:
  "so_commit sops s kops f = Inr s' \<Longrightarrow>
     so_get sops s' key = Inr (fmlookup (apply_kv_ops kops (rows_of s)) key)"
  by (simp add: get_law commit_Inr)

end

section \<open>The memory store\<close>

record memory_store =
  mem_rows :: kv_rows
  mem_fence :: "CatalogFence option"
  mem_released :: bool

definition memory_new :: memory_store where
  "memory_new = \<lparr>mem_rows = fmempty, mem_fence = None, mem_released = False\<rparr>"

definition set_writer_fence :: "NodeId \<Rightarrow> LeaseEpoch \<Rightarrow> memory_store \<Rightarrow> memory_store" where
  "set_writer_fence o' e s = s\<lparr>mem_fence := Some \<lparr>owner = o', epoch = e\<rparr>, mem_released := False\<rparr>"

definition revoke_writer_fence :: "memory_store \<Rightarrow> memory_store" where
  "revoke_writer_fence s = s\<lparr>mem_released := True\<rparr>"

definition memory_open :: "CatalogFence \<Rightarrow> memory_store" where
  "memory_open f = set_writer_fence (owner f) (epoch f) memory_new"

definition seed_historical :: "codec \<Rightarrow> CatalogKey \<Rightarrow> CatalogRow \<Rightarrow> memory_store \<Rightarrow> CatalogError + memory_store" where
  "seed_historical c key row s = bindR (row_encode c row) (\<lambda>bs.
     Inr (s\<lparr>mem_rows := fmupd (family_key Catalog (as_bytes (key_encode key))) bs (mem_rows s)\<rparr>))"

definition check_fence :: "memory_store \<Rightarrow> CatalogFence \<Rightarrow> CatalogError + unit" where
  "check_fence s f = (case mem_fence s of
      Some owned \<Rightarrow> if owner owned = owner f \<and> epoch owned = epoch f \<and> \<not> mem_released s
                    then Inr () else Inl Fenced
    | None \<Rightarrow> Inl Fenced)"

definition memory_get :: "memory_store \<Rightarrow> bytes \<Rightarrow> CatalogError + bytes option" where
  "memory_get s key = Inr (fmlookup (mem_rows s) key)"

definition memory_query_prefix :: "memory_store \<Rightarrow> bytes \<Rightarrow> bytes option \<Rightarrow> nat \<Rightarrow> CatalogError + (bytes \<times> bytes) list" where
  "memory_query_prefix s pre after limit = query_map (mem_rows s) pre after limit"

definition memory_commit :: "memory_store \<Rightarrow> KvOp list \<Rightarrow> CatalogFence \<Rightarrow> CatalogError + memory_store" where
  "memory_commit s kops f = bindR (check_fence s f) (\<lambda>_.
     Inr (s\<lparr>mem_rows := fold apply_kv_op kops (mem_rows s)\<rparr>))"

definition memory_flush_durable :: "memory_store \<Rightarrow> CatalogError + unit" where
  "memory_flush_durable s = Inr ()"

definition memory_pin :: "memory_store \<Rightarrow> kv_rows" where
  "memory_pin s = mem_rows s"

definition memory_ops :: "memory_store store_ops" where
  "memory_ops = \<lparr>so_get = memory_get, so_query = memory_query_prefix, so_commit = memory_commit,
     so_flush = memory_flush_durable\<rparr>"

section \<open>Prefix ranges in lexicographic order\<close>

lemma prefix_imp_le: "prefix p (k :: 'a::linorder list) \<Longrightarrow> p \<le> k"
proof (induction p arbitrary: k)
  case (Cons x p)
  then show ?case by (cases k) auto
qed simp

lemma prefix_interval:
  assumes "p \<le> (k :: 'a::linorder list)" "k \<le> k'" "prefix p k'"
  shows "prefix p k"
  using assms
proof (induction p arbitrary: k k')
  case (Cons x p)
  from Cons.prems obtain y ks ks' where "k = y # ks" "k' = x # ks'"
    by (cases k; cases k') auto
  with Cons show ?case by auto
qed simp

lemma query_loop_eq:
  assumes "sorted (map fst es)" "\<forall>(k, v)\<in>set es. pre \<le> k" "limit \<le> length out \<longrightarrow> out = []"
  shows "query_loop pre after limit out es =
     take (max 1 limit) (out @ filter (\<lambda>(k, v). prefix pre k \<and> (case after of Some a \<Rightarrow> a < k | None \<Rightarrow> True)) es)"
  using assms
proof (induction es arbitrary: out)
  case Nil
  then show ?case by auto
next
  case (Cons e es)
  obtain key val where e: "e = (key, val)" by (cases e)
  let ?P = "\<lambda>(k, v). prefix pre k \<and> (case after of Some a \<Rightarrow> a < k | None \<Rightarrow> True)"
  have srt: "sorted (map fst es)" "\<forall>(k, v)\<in>set es. key \<le> k" "\<forall>(k, v)\<in>set es. pre \<le> k" "pre \<le> key"
    using Cons.prems e by auto
  have len: "take (max 1 limit) out = out" using Cons.prems(3) by auto
  show ?case
  proof (cases "prefix pre key")
    case False
    have "\<not> prefix pre k" if "(k, v) \<in> set es" for k v
      using False prefix_interval[OF srt(4), of k] that srt(2) by auto
    then have "filter ?P (e # es) = []" using False e by (auto simp: filter_empty_conv)
    then have "take (max 1 limit) (out @ filter ?P (e # es)) = out" using len by simp
    moreover have "query_loop pre after limit out (e # es) = out" using False e by simp
    ultimately show ?thesis by simp
  next
    case True
    show ?thesis
    proof (cases "case after of Some a \<Rightarrow> key \<le> a | None \<Rightarrow> False")
      case skip: True
      then have "\<not> ?P e" using e by (auto split: option.splits)
      then have "filter ?P (e # es) = filter ?P es" by simp
      moreover have "query_loop pre after limit out (e # es) = query_loop pre after limit out es"
        using skip True e by simp
      ultimately show ?thesis using Cons.IH[OF srt(1,3) Cons.prems(3)] by simp
    next
      case keep: False
      then have P: "?P e" using True e by (auto split: option.splits)
      show ?thesis
      proof (cases "limit \<le> length (out @ [e])")
        case full: True
        then have "take (max 1 limit) (out @ e # filter ?P es) = out @ [e]"
          using Cons.prems(3) by (cases out) (auto simp: take_Cons' max_def split: if_splits)
        then show ?thesis using P keep full True e by (simp add: Let_def)
      next
        case more: False
        then show ?thesis
          using P keep True e Cons.IH[OF srt(1,3), of "out @ [e]"] by (simp add: Let_def)
      qed
    qed
  qed
qed

lemma query_map_eq: "query_map rows pre after limit = Inr (page_of rows pre after limit)"
proof -
  let ?es = "filter (\<lambda>(k, v). pre \<le> k) (btree_entries rows)"
  let ?P = "\<lambda>(k, v). prefix pre k \<and> (case after of Some a \<Rightarrow> a < k | None \<Rightarrow> True)"
  have "sorted (map fst ?es)"
    using btree_entries_sorted(1)[of rows] by (rule sorted_filter)
  then have "query_loop pre after limit [] ?es = take (max 1 limit) ([] @ filter ?P ?es)"
    by (rule query_loop_eq) auto
  also have "filter ?P ?es = filter ?P (btree_entries rows)"
    by (auto simp: filter_filter intro!: filter_cong dest: prefix_imp_le)
  finally show ?thesis by (simp add: query_map_def page_of_def)
qed

definition memory_fence_ok :: "memory_store \<Rightarrow> CatalogFence \<Rightarrow> bool" where
  "memory_fence_ok s f \<longleftrightarrow> check_fence s f = Inr ()"

lemma check_fence_rows [simp]: "check_fence (s\<lparr>mem_rows := r\<rparr>) f = check_fence s f"
  by (simp add: check_fence_def split: option.split)

interpretation mem: skippr_store memory_ops mem_rows memory_fence_ok
proof unfold_locales
  fix s :: memory_store and f kops
  show "\<not> memory_fence_ok s f \<Longrightarrow> so_commit memory_ops s kops f = Inl Fenced"
    by (auto simp: memory_ops_def memory_commit_def memory_fence_ok_def check_fence_def
        split: option.splits if_splits)
  show "memory_fence_ok s f \<Longrightarrow> \<exists>s'. so_commit memory_ops s kops f = Inr s' \<and>
      mem_rows s' = apply_kv_ops kops (mem_rows s) \<and> memory_fence_ok s' = memory_fence_ok s"
    by (auto simp: memory_ops_def memory_commit_def memory_fence_ok_def apply_kv_ops_def fun_eq_iff)
qed (simp_all add: memory_ops_def memory_get_def memory_query_prefix_def memory_flush_durable_def
      query_map_eq)

end
