(* ===== verification/Wal_Catalog.thy ===== *)
theory Wal_Catalog
  imports Kv_Store
begin

text \<open>
  The WAL catalog over any Skippr Store (\<^verbatim>\<open>crates/skippr-wal-catalog/src/memory_kv.rs\<close> from
  \<open>catalog_get\<close> on, and \<^verbatim>\<open>store.rs\<close>): typed reads, conditional commits, paged enumeration,
  prefix deletion and the full reset. Loops that page through the store return \<open>None\<close> when
  they do not end; the lemmas inside \<open>skippr_store\<close> show that they do end on a well-formed
  catalog. A \<open>delete_prefix\<close> that fails half-way keeps the deletions it committed, so it
  returns the store together with its result.

  The text of the standard library's \<open>Utf8Error\<close> is not modelled; it is a fixed string here.
\<close>

section \<open>Operations\<close>

definition stored_key :: "CatalogKey \<Rightarrow> bytes" where
  "stored_key key = family_key Catalog (as_bytes (key_encode key))"

definition catalog_get :: "codec \<Rightarrow> 's store_ops \<Rightarrow> 's \<Rightarrow> CatalogKey \<Rightarrow> CatalogError + CatalogRow option" where
  "catalog_get c so s key = bindR (so_get so s (stored_key key)) (\<lambda>v. case v of
      None \<Rightarrow> Inr None
    | Some bs \<Rightarrow> bindR (row_decode c bs) (\<lambda>row. Inr (Some row)))"

fun decode_entry :: "codec \<Rightarrow> bytes \<times> bytes \<Rightarrow> CatalogError + CatalogKey \<times> CatalogRow" where
  "decode_entry c (key, bs) = (case family_rest Catalog key of
      None \<Rightarrow> Inl (Codec ''catalog key missing family prefix'')
    | Some rest \<Rightarrow> (case from_utf8 rest of
          None \<Rightarrow> Inl (Codec ''invalid utf-8'')
        | Some sk \<Rightarrow> (case key_decode sk of
              Inl e \<Rightarrow> Inl (Codec (path_error_display e))
            | Inr k \<Rightarrow> bindR (row_decode c bs) (\<lambda>row. Inr (k, row)))))"

fun decode_page :: "codec \<Rightarrow> (bytes \<times> bytes) list \<Rightarrow> CatalogError + (CatalogKey \<times> CatalogRow) list" where
  "decode_page c [] = Inr []"
| "decode_page c (e # es) =
     bindR (decode_entry c e) (\<lambda>x. bindR (decode_page c es) (\<lambda>xs. Inr (x # xs)))"

definition catalog_query_prefix ::
  "codec \<Rightarrow> 's store_ops \<Rightarrow> 's \<Rightarrow> CatalogPrefix \<Rightarrow> CatalogKey option \<Rightarrow> nat \<Rightarrow> CatalogError + (CatalogKey \<times> CatalogRow) list"
where
  "catalog_query_prefix c so s p after limit =
     bindR (so_query so s (family_key Catalog (as_bytes (prefix_as_str p))) (map_option stored_key after) limit)
       (decode_page c)"

fun kv_of_applied :: "Applied \<Rightarrow> KvOp" where
  "kv_of_applied (APut key bs) = KvPut (stored_key key) bs"
| "kv_of_applied (ADelete key) = KvDelete (stored_key key)"

definition catalog_commit :: "codec \<Rightarrow> 's store_ops \<Rightarrow> 's \<Rightarrow> CatalogTxn \<Rightarrow> CatalogFence \<Rightarrow> CatalogError + 's" where
  "catalog_commit c so s txn f =
     bindR (eval_ops c txn (\<lambda>key. so_get so s (stored_key key))) (\<lambda>planned.
       so_commit so s (map kv_of_applied planned) f)"

definition commit_durable :: "codec \<Rightarrow> 's store_ops \<Rightarrow> 's \<Rightarrow> CatalogTxn \<Rightarrow> CatalogFence \<Rightarrow> 's \<times> (CatalogError + unit)" where
  "commit_durable c so s txn f = (case catalog_commit c so s txn f of
      Inl e \<Rightarrow> (s, Inl e)
    | Inr s' \<Rightarrow> (s', so_flush so s'))"

partial_function (option) catalog_delete_prefix ::
  "codec \<Rightarrow> 's store_ops \<Rightarrow> CatalogPrefix \<Rightarrow> CatalogFence \<Rightarrow> 's \<Rightarrow> ('s \<times> (CatalogError + unit)) option"
where
  "catalog_delete_prefix c so p f s =
     (case catalog_query_prefix c so s p None TXN_MAX_OPS of
        Inl e \<Rightarrow> Some (s, Inl e)
      | Inr page \<Rightarrow>
          if page = [] then Some (s, Inr ())
          else (case txn_push_all c txn_new (map (\<lambda>(key, _). OpDelete key DelExists) page) of
              Inl e \<Rightarrow> Some (s, Inl e)
            | Inr txn \<Rightarrow> (case catalog_commit c so s txn f of
                  Inl e \<Rightarrow> Some (s, Inl e)
                | Inr s' \<Rightarrow> catalog_delete_prefix c so p f s')))"

definition PAGE :: nat where "PAGE = 100"

partial_function (option) query_all_from ::
  "codec \<Rightarrow> 's store_ops \<Rightarrow> 's \<Rightarrow> CatalogPrefix \<Rightarrow> CatalogKey option \<Rightarrow> (CatalogKey \<times> CatalogRow) list \<Rightarrow> (CatalogError + (CatalogKey \<times> CatalogRow) list) option"
where
  "query_all_from c so s p after out =
     (case catalog_query_prefix c so s p after PAGE of
        Inl e \<Rightarrow> Some (Inl e)
      | Inr page \<Rightarrow>
          if page = [] then Some (Inr out)
          else if length page < PAGE then Some (Inr (out @ page))
          else query_all_from c so s p (Some (fst (last page))) (out @ page))"

definition query_all :: "codec \<Rightarrow> 's store_ops \<Rightarrow> 's \<Rightarrow> CatalogPrefix \<Rightarrow> (CatalogError + (CatalogKey \<times> CatalogRow) list) option" where
  "query_all c so s p = query_all_from c so s p None []"

fun delete_prefixes ::
  "codec \<Rightarrow> 's store_ops \<Rightarrow> CatalogPrefix list \<Rightarrow> CatalogFence \<Rightarrow> 's \<Rightarrow> ('s \<times> (CatalogError + unit)) option"
where
  "delete_prefixes c so [] f s = Some (s, Inr ())"
| "delete_prefixes c so (p # ps) f s = (case catalog_delete_prefix c so p f s of
      None \<Rightarrow> None
    | Some (s', Inl e) \<Rightarrow> Some (s', Inl e)
    | Some (s', Inr _) \<Rightarrow> delete_prefixes c so ps f s')"

fun delete_keys ::
  "codec \<Rightarrow> 's store_ops \<Rightarrow> CatalogKey list \<Rightarrow> CatalogFence \<Rightarrow> 's \<Rightarrow> 's \<times> (CatalogError + unit)"
where
  "delete_keys c so [] f s = (s, so_flush so s)"
| "delete_keys c so (key # keys) f s = (case catalog_get c so s key of
      Inl e \<Rightarrow> (s, Inl e)
    | Inr None \<Rightarrow> delete_keys c so keys f s
    | Inr (Some _) \<Rightarrow> (case txn_delete c txn_new key DelExists of
          Inl e \<Rightarrow> (s, Inl e)
        | Inr txn \<Rightarrow> (case commit_durable c so s txn f of
              (s', Inl e) \<Rightarrow> (s', Inl e)
            | (s', Inr _) \<Rightarrow> delete_keys c so keys f s')))"

definition reset_catalog :: "codec \<Rightarrow> 's store_ops \<Rightarrow> CatalogFence \<Rightarrow> 's \<Rightarrow> ('s \<times> (CatalogError + unit)) option" where
  "reset_catalog c so f s = (case delete_prefixes c so prefix_ALL f s of
      None \<Rightarrow> None
    | Some (s', Inl e) \<Rightarrow> Some (s', Inl e)
    | Some (s', Inr _) \<Rightarrow> Some (delete_keys c so [KSeq, KFormat] f s'))"

section \<open>Well-formed catalogs\<close>

text \<open>Every stored entry of the catalog family sits under the sort key of a validated
  catalog key and holds a row the codec can read.\<close>

definition catalog_wf :: "codec \<Rightarrow> kv_rows \<Rightarrow> bool" where
  "catalog_wf c rows \<longleftrightarrow> (\<forall>kb v. fmlookup rows kb = Some v \<longrightarrow> prefix (family_prefix Catalog) kb \<longrightarrow>
     (\<exists>k row. catalog_key_ok k \<and> catalog_key_str k \<and> kb = stored_key k \<and> row_decode c v = Inr row))"

definition catalog_view :: "codec \<Rightarrow> kv_rows \<Rightarrow> CatalogKey \<Rightarrow> CatalogRow option" where
  "catalog_view c rows k = (case fmlookup rows (stored_key k) of
      None \<Rightarrow> None
    | Some v \<Rightarrow> (case row_decode c v of Inl _ \<Rightarrow> None | Inr row \<Rightarrow> Some row))"

abbreviation prefix_bytes :: "CatalogPrefix \<Rightarrow> bytes" where
  "prefix_bytes p \<equiv> family_key Catalog (as_bytes (prefix_as_str p))"

definition prefix_entries :: "kv_rows \<Rightarrow> CatalogPrefix \<Rightarrow> (bytes \<times> bytes) list" where
  "prefix_entries rows p = filter (\<lambda>(k, v). prefix (prefix_bytes p) k) (btree_entries rows)"

definition decodes_to :: "codec \<Rightarrow> CatalogKey \<times> CatalogRow \<Rightarrow> bytes \<times> bytes \<Rightarrow> bool" where
  "decodes_to c x e \<longleftrightarrow> catalog_key_ok (fst x) \<and> catalog_key_str (fst x)
     \<and> fst e = stored_key (fst x) \<and> row_decode c (snd e) = Inr (snd x)"

lemma as_bytes_prefix: "prefix (as_bytes p) (as_bytes s) \<longleftrightarrow> prefix p s"
proof (induction p arbitrary: s)
  case (Cons x p)
  have "byte_of_char a = byte_of_char b \<longleftrightarrow> a = b" for a b
    by (metis char_of_byte_of_char)
  with Cons show ?case by (cases s) (simp_all add: as_bytes_def)
qed (simp add: as_bytes_def)

lemma stored_key_prefix: "prefix (prefix_bytes p) (stored_key k) \<longleftrightarrow> prefix_of_key k = Some p"
  by (simp add: stored_key_def family_key_def as_bytes_prefix key_encode_prefix)

lemma prefix_bytes_catalog: "prefix (prefix_bytes p) kb \<Longrightarrow> prefix (family_prefix Catalog) kb"
  unfolding family_key_def by (rule append_prefixD)

lemma stored_key_catalog: "prefix (family_prefix Catalog) (stored_key k)"
  by (simp add: stored_key_def family_key_def del: family_prefix.simps)

lemma stored_key_inj:
  "catalog_key_ok k \<Longrightarrow> catalog_key_ok k' \<Longrightarrow> stored_key k = stored_key k' \<longleftrightarrow> k = k'"
  by (simp add: stored_key_def family_key_def as_bytes_inj key_encode_inj)

lemma decode_entry_stored_key:
  "catalog_key_ok k \<Longrightarrow> catalog_key_str k \<Longrightarrow>
     decode_entry c (stored_key k, v) = bindR (row_decode c v) (\<lambda>row. Inr (k, row))"
  by (simp add: stored_key_def family_key_def family_rest_def from_utf8_as_bytes key_encode_is_str
      key_decode_encode del: family_prefix.simps)

lemma decode_page_wf:
  assumes "catalog_wf c rows" "set es \<subseteq> set (prefix_entries rows p)"
  shows "\<exists>xs. decode_page c es = Inr xs \<and> list_all2 (decodes_to c) xs es"
  using assms(2)
proof (induction es)
  case (Cons e es)
  obtain kb v where e: "e = (kb, v)" by (cases e)
  with Cons.prems have "fmlookup rows kb = Some v" "prefix (family_prefix Catalog) kb"
    by (auto simp: prefix_entries_def btree_entries_set dest: prefix_bytes_catalog)
  then obtain k row where k: "catalog_key_ok k" "catalog_key_str k" "kb = stored_key k" "row_decode c v = Inr row"
    using assms(1) unfolding catalog_wf_def by blast
  from Cons obtain xs where xs: "decode_page c es = Inr xs" "list_all2 (decodes_to c) xs es" by auto
  have "decodes_to c (k, row) e" using k e by (simp add: decodes_to_def)
  moreover have "decode_page c (e # es) = Inr ((k, row) # xs)"
    using k xs e by (simp add: decode_entry_stored_key del: decode_entry.simps)
  ultimately show ?case using xs by blast
qed simp

lemma prefix_entries_sorted:
  "sorted (map fst (prefix_entries rows p))" "distinct (map fst (prefix_entries rows p))"
proof -
  show "sorted (map fst (prefix_entries rows p))"
    unfolding prefix_entries_def using btree_entries_sorted(1) by (rule sorted_filter)
  show "distinct (map fst (prefix_entries rows p))"
    unfolding prefix_entries_def using btree_entries_sorted(2) by (rule distinct_map_filter)
qed

lemma page_of_prefix:
  "page_of rows (prefix_bytes p) after n =
     take (max 1 n) (filter (\<lambda>(k, v). case after of Some a \<Rightarrow> a < k | None \<Rightarrow> True) (prefix_entries rows p))"
  unfolding page_of_def prefix_entries_def filter_filter
  by (rule arg_cong[where f = "take (max 1 n)"], rule filter_cong) auto

lemma after_split:
  assumes "sorted (map fst (xs @ ys))" "distinct (map fst (xs @ ys))" "xs \<noteq> []"
  shows "filter (\<lambda>(k, v). fst (last xs) < k) (xs @ ys) = ys"
proof -
  have "k \<le> fst (last xs)" if "(k, v) \<in> set xs" for k v
    using assms(1,3) that
    by (induction xs) (auto simp: sorted_append split: if_splits)
  moreover have "fst (last xs) < k" if "(k, v) \<in> set ys" for k v
  proof -
    have l: "fst (last xs) \<in> set (map fst xs)" using assms(3) by simp
    have k: "k \<in> set (map fst ys)" using that by force
    have "fst (last xs) \<le> k" using assms(1) l k unfolding map_append sorted_append by blast
    moreover have "fst (last xs) \<noteq> k" using assms(2) l k unfolding map_append distinct_append by blast
    ultimately show ?thesis by simp
  qed
  ultimately have "filter (\<lambda>(k, v). fst (last xs) < k) xs = []" "filter (\<lambda>(k, v). fst (last xs) < k) ys = ys"
    by (fastforce simp: filter_empty_conv not_less, fastforce simp: filter_id_conv)
  then show ?thesis by simp
qed

lemma fmlookup_fold_deletes:
  "fmlookup (fold apply_kv_op (map KvDelete ks) m) k = (if k \<in> set ks then None else fmlookup m k)"
  by (induction ks arbitrary: m) auto

lemma apply_kv_deletes: "apply_kv_ops (map KvDelete ks) m = fmdrop_set (set ks) m"
  unfolding apply_kv_ops_def by (rule fmap_ext) (simp add: fmlookup_fold_deletes)

lemma catalog_wf_sub:
  assumes "catalog_wf c rows" "\<And>kb v. fmlookup rows' kb = Some v \<Longrightarrow> fmlookup rows kb = Some v"
  shows "catalog_wf c rows'"
  using assms unfolding catalog_wf_def by blast

lemma prefix_entries_mem:
  "(kb, v) \<in> set (prefix_entries rows p) \<longleftrightarrow> fmlookup rows kb = Some v \<and> prefix (prefix_bytes p) kb"
  by (auto simp: prefix_entries_def btree_entries_set)

lemma prefix_entries_Nil:
  "prefix_entries rows p = [] \<Longrightarrow> fmfilter (\<lambda>kb. \<not> prefix (prefix_bytes p) kb) rows = rows"
proof (rule fmap_ext)
  fix kb
  assume "prefix_entries rows p = []"
  then have "(kb, v) \<notin> set (prefix_entries rows p)" for v by simp
  then show "fmlookup (fmfilter (\<lambda>kb. \<not> prefix (prefix_bytes p) kb) rows) kb = fmlookup rows kb"
    unfolding prefix_entries_mem by (cases "fmlookup rows kb") auto
qed

lemma prefix_entries_set_drop:
  "set (prefix_entries (fmdrop_set K rows) p) = {e \<in> set (prefix_entries rows p). fst e \<notin> K}"
  by (auto simp: prefix_entries_mem split: if_splits)

lemma length_prefix_entries: "length (prefix_entries rows p) = card (set (prefix_entries rows p))"
  using prefix_entries_sorted(2)[of rows p] by (simp add: distinct_card distinct_map)

lemma prefix_entries_drop_less:
  assumes "es \<noteq> []" "set es \<subseteq> set (prefix_entries rows p)"
  shows "length (prefix_entries (fmdrop_set (fst ` set es) rows) p) < length (prefix_entries rows p)"
proof -
  obtain e where e: "e \<in> set es" using assms(1) by (cases es) auto
  have "set (prefix_entries (fmdrop_set (fst ` set es) rows) p) \<subset> set (prefix_entries rows p)"
    using e assms(2) unfolding prefix_entries_set_drop by auto
  then show ?thesis unfolding length_prefix_entries by (intro psubset_card_mono) auto
qed

lemma fmfilter_drop_prefix:
  assumes "set es \<subseteq> set (prefix_entries rows p)"
  shows "fmfilter (\<lambda>kb. \<not> prefix (prefix_bytes p) kb) (fmdrop_set (fst ` set es) rows)
       = fmfilter (\<lambda>kb. \<not> prefix (prefix_bytes p) kb) rows"
  using assms by (intro fmap_ext) (auto simp: prefix_entries_mem subset_iff)

section \<open>The effect of a transaction on the typed view\<close>

fun op_key :: "CatalogOp \<Rightarrow> CatalogKey" where
  "op_key (OpPut key row cond) = key"
| "op_key (OpDelete key cond) = key"

fun op_effect :: "CatalogOp \<Rightarrow> CatalogRow option" where
  "op_effect (OpPut key row cond) = Some row"
| "op_effect (OpDelete key cond) = None"

fun last_op :: "CatalogKey \<Rightarrow> CatalogOp list \<Rightarrow> CatalogOp option" where
  "last_op k [] = None"
| "last_op k (op # os) = (case last_op k os of
      Some x \<Rightarrow> Some x
    | None \<Rightarrow> if op_key op = k then Some op else None)"

fun seq_op_ok :: "CatalogOp \<Rightarrow> bool" where
  "seq_op_ok (OpPut KSeq row cond) = (cond = SeqAdvance)"
| "seq_op_ok (OpDelete KSeq cond) = False"
| "seq_op_ok _ = True"

definition seq_disciplined :: "CatalogTxn \<Rightarrow> bool" where
  "seq_disciplined txn \<longleftrightarrow> list_all seq_op_ok (ops txn)"

definition view_after :: "(CatalogKey \<Rightarrow> CatalogRow option) \<Rightarrow> CatalogOp list \<Rightarrow> CatalogKey \<Rightarrow> CatalogRow option" where
  "view_after m os k = (case last_op k os of None \<Rightarrow> m k | Some op \<Rightarrow> op_effect op)"

definition txn_keys_ok :: "CatalogTxn \<Rightarrow> bool" where
  "txn_keys_ok txn \<longleftrightarrow> list_all (\<lambda>op. catalog_key_ok (op_key op) \<and> catalog_key_str (op_key op)) (ops txn)"

lemma last_op_mem: "last_op k os = Some op \<Longrightarrow> op \<in> set os \<and> op_key op = k"
  by (induction os) (auto split: option.splits if_splits)

lemma last_op_None: "last_op k os = None \<longleftrightarrow> (\<forall>op\<in>set os. op_key op \<noteq> k)"
  by (induction os) (auto split: option.splits if_splits)

lemma catalog_view_Some:
  "catalog_view c m k = Some row \<longleftrightarrow> (\<exists>v. fmlookup m (stored_key k) = Some v \<and> row_decode c v = Inr row)"
  by (auto simp: catalog_view_def split: option.splits sum.splits)

lemma catalog_view_apply:
  assumes "eval_op c get op = Inr a" "codec_ok c" "catalog_key_ok (op_key op)" "catalog_key_ok k"
  shows "catalog_view c (apply_kv_op (kv_of_applied a) m) k = (if op_key op = k then op_effect op else catalog_view c m k)"
proof (cases op)
  case (OpPut key row cond)
  then obtain bs where "a = APut key bs" "row_encode c row = Inr bs"
    using assms(1) unfolding OpPut eval_put_Inr by blast
  with OpPut assms row_decode_encode[OF assms(2)] stored_key_inj[of key k] show ?thesis
    by (auto simp: catalog_view_def)
next
  case (OpDelete key cond)
  then have "a = ADelete key" using assms(1) unfolding OpDelete eval_delete_Inr by blast
  with OpDelete assms stored_key_inj[of key k] show ?thesis by (auto simp: catalog_view_def)
qed

lemma catalog_view_apply_all:
  assumes "list_all2 (\<lambda>op a. eval_op c get op = Inr a) os as" "codec_ok c" "catalog_key_ok k"
    "\<forall>op\<in>set os. catalog_key_ok (op_key op)"
  shows "catalog_view c (apply_kv_ops (map kv_of_applied as) m) k = view_after (catalog_view c m) os k"
  using assms(1,4)
proof (induction os "as" arbitrary: m rule: list_all2_induct)
  case (Cons op os a "as")
  let ?m = "apply_kv_op (kv_of_applied a) m"
  have "catalog_view c ?m k = (if op_key op = k then op_effect op else catalog_view c m k)"
    using Cons assms(2,3) by (intro catalog_view_apply) auto
  moreover have "catalog_view c (apply_kv_ops (map kv_of_applied as) ?m) k
      = (case last_op k os of None \<Rightarrow> catalog_view c ?m k | Some op \<Rightarrow> op_effect op)"
    using Cons by (simp add: view_after_def)
  ultimately show ?case by (auto simp: apply_kv_ops_def view_after_def split: option.splits)
qed (simp add: apply_kv_ops_def view_after_def)

lemma catalog_wf_apply_all:
  assumes "list_all2 (\<lambda>op a. eval_op c get op = Inr a) os as" "codec_ok c" "catalog_wf c m"
    "\<forall>op\<in>set os. catalog_key_ok (op_key op) \<and> catalog_key_str (op_key op)"
  shows "catalog_wf c (apply_kv_ops (map kv_of_applied as) m)"
  using assms(1,3,4)
proof (induction os "as" arbitrary: m rule: list_all2_induct)
  case (Cons op os a "as")
  have "catalog_wf c (apply_kv_op (kv_of_applied a) m)"
  proof (cases op)
    case (OpPut key row cond)
    then obtain bs where "a = APut key bs" "row_encode c row = Inr bs"
      using Cons.hyps(1) unfolding OpPut eval_put_Inr by blast
    with OpPut Cons.prems row_decode_encode[OF assms(2)] show ?thesis
      by (auto simp: catalog_wf_def)
  next
    case (OpDelete key cond)
    then have "a = ADelete key" using Cons.hyps(1) unfolding OpDelete eval_delete_Inr by blast
    with Cons.prems(1) show ?thesis by (auto simp: catalog_wf_def split: if_splits)
  qed
  with Cons show ?case by (auto simp: apply_kv_ops_def)
qed (simp add: apply_kv_ops_def)

text \<open>A family of the catalog or one of the two singletons: every validated key.\<close>

lemma prefix_of_key_None: "prefix_of_key k = None \<longleftrightarrow> k = KSeq \<or> k = KFormat"
  by (cases k) auto

lemma prefix_ALL_complete: "p \<in> set prefix_ALL"
  by (cases p) (auto simp: prefix_ALL_def)

lemma reset_rows:
  assumes "catalog_wf c m"
  shows "fmdrop_set (stored_key ` {KSeq, KFormat}) (fmfilter (\<lambda>kb. \<forall>p\<in>set prefix_ALL. \<not> prefix (prefix_bytes p) kb) m)
       = fmfilter (\<lambda>kb. \<not> prefix (family_prefix Catalog) kb) m"
proof (rule fmap_ext)
  fix kb
  show "fmlookup (fmdrop_set (stored_key ` {KSeq, KFormat}) (fmfilter (\<lambda>kb. \<forall>p\<in>set prefix_ALL. \<not> prefix (prefix_bytes p) kb) m)) kb
      = fmlookup (fmfilter (\<lambda>kb. \<not> prefix (family_prefix Catalog) kb) m) kb"
  proof (cases "fmlookup m kb")
    case (Some v)
    show ?thesis
    proof (cases "prefix (family_prefix Catalog) kb")
      case True
      then obtain k where k: "kb = stored_key k" "catalog_key_ok k"
        using assms Some unfolding catalog_wf_def by blast
      have "k \<in> {KSeq, KFormat} \<or> (\<exists>p. prefix (prefix_bytes p) kb)"
        using prefix_of_key_None[of k] unfolding k(1) stored_key_prefix by auto
      then show ?thesis using True prefix_ALL_complete k(1) by (auto simp del: family_prefix.simps)
    next
      case False
      then have "\<not> prefix (prefix_bytes p) kb" for p using prefix_bytes_catalog by blast
      moreover have "kb \<notin> stored_key ` {KSeq, KFormat}" using False stored_key_catalog by blast
      ultimately show ?thesis using False by (simp del: family_prefix.simps)
    qed
  qed simp
qed

section \<open>The catalog over a lawful store\<close>

context skippr_store
begin

lemma catalog_query_wf:
  assumes "catalog_wf c (rows_of s)"
  shows "\<exists>xs. catalog_query_prefix c sops s p after n = Inr xs \<and>
     list_all2 (decodes_to c) xs (page_of (rows_of s) (prefix_bytes p) (map_option stored_key after) n)"
proof -
  have "set (page_of (rows_of s) (prefix_bytes p) (map_option stored_key after) n) \<subseteq> set (prefix_entries (rows_of s) p)"
    unfolding page_of_prefix by (rule subset_trans[OF set_take_subset]) auto
  from decode_page_wf[OF assms this] show ?thesis
    by (simp add: catalog_query_prefix_def query_law)
qed

lemma query_all_from_spec:
  assumes wf: "catalog_wf c (rows_of s)"
    and split: "prefix_entries (rows_of s) p = done @ rest"
    and cur: "map_option stored_key after = (if done = [] then None else Some (fst (last done)))"
  shows "\<exists>xs. query_all_from c sops s p after out = Some (Inr (out @ xs)) \<and> list_all2 (decodes_to c) xs rest"
  using split cur
proof (induction "length rest" arbitrary: "done" rest after out rule: less_induct)
  case less
  have page: "page_of (rows_of s) (prefix_bytes p) (map_option stored_key after) PAGE = take PAGE rest"
  proof -
    have "filter (\<lambda>(k, v). case map_option stored_key after of Some a \<Rightarrow> a < k | None \<Rightarrow> True) (done @ rest) = rest"
    proof (cases "done = []")
      case False
      then have "map_option stored_key after = Some (fst (last done))" using less.prems by simp
      moreover have "filter (\<lambda>(k, v). fst (last done) < k) (done @ rest) = rest"
        using prefix_entries_sorted[of "rows_of s" p] less.prems(1) False by (intro after_split) simp_all
      ultimately show ?thesis by (simp only: option.case)
    qed (use less.prems in simp)
    then show ?thesis by (simp add: page_of_prefix less.prems(1) PAGE_def)
  qed
  obtain xs where q: "catalog_query_prefix c sops s p after PAGE = Inr xs"
    and xs: "list_all2 (decodes_to c) xs (take PAGE rest)"
    using catalog_query_wf[OF wf, of p after PAGE] page by auto
  have len: "length xs = min PAGE (length rest)" using list_all2_lengthD[OF xs] by simp
  show ?case
  proof (cases "length xs < PAGE")
    case True
    then have "take PAGE rest = rest" using len by simp
    then show ?thesis using True q xs by (auto simp: query_all_from.simps[of c sops s p after out])
  next
    case False
    then have ne: "xs \<noteq> []" "take PAGE rest \<noteq> []" "length (drop PAGE rest) < length rest"
      using len by (auto simp: PAGE_def)
    have lastx: "stored_key (fst (last xs)) = fst (last (take PAGE rest))"
    proof -
      have l: "length xs = PAGE" "length (take PAGE rest) = PAGE" "PAGE - 1 < length xs"
        using False len by (auto simp: PAGE_def)
      have "decodes_to c (xs ! (PAGE - 1)) (take PAGE rest ! (PAGE - 1))"
        using list_all2_nthD[OF xs l(3)] .
      then show ?thesis using ne l(1,2) by (simp add: last_conv_nth decodes_to_def)
    qed
    from less.hyps[OF ne(3), of "done @ take PAGE rest" "Some (fst (last xs))" "out @ xs"]
    obtain ys where "query_all_from c sops s p (Some (fst (last xs))) (out @ xs) = Some (Inr ((out @ xs) @ ys))"
      and ys: "list_all2 (decodes_to c) ys (drop PAGE rest)"
      using less.prems(1) ne lastx by auto
    moreover have "list_all2 (decodes_to c) (xs @ ys) rest"
      using list_all2_appendI[OF xs ys] by simp
    ultimately show ?thesis
      using q False ne by (auto simp: query_all_from.simps[of c sops s p after out])
  qed
qed

lemma query_all_spec:
  assumes "catalog_wf c (rows_of s)"
  shows "\<exists>xs. query_all c sops s p = Some (Inr xs) \<and> list_all2 (decodes_to c) xs (prefix_entries (rows_of s) p)"
  using query_all_from_spec[OF assms, of p "[]" "prefix_entries (rows_of s) p" None "[]"]
  by (simp add: query_all_def)

lemma delete_page_commit:
  assumes wf: "catalog_wf c (rows_of s)" and f: "fence_ok s f"
    and xs: "list_all2 (decodes_to c) xs es" and es: "set es \<subseteq> set (prefix_entries (rows_of s) p)"
    and len: "length xs \<le> TXN_MAX_OPS"
  shows "\<exists>txn s'. txn_push_all c txn_new (map (\<lambda>(key, _). OpDelete key DelExists) xs) = Inr txn \<and>
     catalog_commit c sops s txn f = Inr s' \<and> fence_ok s' = fence_ok s \<and>
     rows_of s' = fmdrop_set (fst ` set es) (rows_of s)"
proof -
  let ?os = "map (\<lambda>(key, _). OpDelete key DelExists) xs"
  let ?txn = "\<lparr>ops = ?os\<rparr>"
  have push: "txn_push_all c txn_new ?os = Inr ?txn"
    using len by (auto simp: txn_push_all_Inr txn_new_def op_pushable_def)
  have keys: "map stored_key (map fst xs) = map fst es"
    using xs by (induction rule: list_all2_induct) (auto simp: decodes_to_def)
  have present: "\<forall>k\<in>set (map fst xs). \<exists>v. fmlookup (rows_of s) (stored_key k) = Some v"
  proof
    fix k assume "k \<in> set (map fst xs)"
    then have "stored_key k \<in> set (map fst es)" unfolding keys[symmetric] by auto
    then show "\<exists>v. fmlookup (rows_of s) (stored_key k) = Some v"
      using es by (auto simp: prefix_entries_def btree_entries_set)
  qed
  have "eval_ops c ?txn (\<lambda>key. so_get sops s (stored_key key)) = Inr (map ADelete (map fst xs))"
    unfolding eval_ops_def using present
    by (induction xs) (auto simp: get_law check_delete_cond_def split: prod.splits)
  then have "catalog_commit c sops s ?txn f = so_commit sops s (map KvDelete (map fst es)) f"
    using keys[symmetric] by (simp add: catalog_commit_def comp_def flip: keys)
  moreover obtain s' where "so_commit sops s (map KvDelete (map fst es)) f = Inr s'"
    "rows_of s' = fmdrop_set (set (map fst es)) (rows_of s)" "fence_ok s' = fence_ok s"
    using commit_law[OF f, of "map KvDelete (map fst es)"] unfolding apply_kv_deletes by blast
  ultimately show ?thesis using push by auto
qed

lemma catalog_delete_prefix_spec:
  assumes "catalog_wf c (rows_of s)" "fence_ok s f"
  shows "\<exists>s'. catalog_delete_prefix c sops p f s = Some (s', Inr ()) \<and> fence_ok s' = fence_ok s \<and>
     rows_of s' = fmfilter (\<lambda>kb. \<not> prefix (prefix_bytes p) kb) (rows_of s)"
  using assms
proof (induction "length (prefix_entries (rows_of s) p)" arbitrary: s rule: less_induct)
  case less
  let ?N = "\<lambda>kb. \<not> prefix (prefix_bytes p) kb"
  let ?es = "take TXN_MAX_OPS (prefix_entries (rows_of s) p)"
  have page: "page_of (rows_of s) (prefix_bytes p) (map_option stored_key None) TXN_MAX_OPS = ?es"
    by (simp add: page_of_prefix TXN_MAX_OPS_def)
  obtain xs where q: "catalog_query_prefix c sops s p None TXN_MAX_OPS = Inr xs"
    and xs: "list_all2 (decodes_to c) xs ?es"
    using catalog_query_wf[OF less.prems(1), of p None TXN_MAX_OPS] page by auto
  show ?case
  proof (cases "xs = []")
    case True
    then have "prefix_entries (rows_of s) p = []" using xs by (simp add: TXN_MAX_OPS_def)
    then have "fmfilter ?N (rows_of s) = rows_of s" by (rule prefix_entries_Nil)
    then show ?thesis using q True by (auto simp: catalog_delete_prefix.simps[of c sops p f s])
  next
    case False
    have "length xs \<le> TXN_MAX_OPS" using list_all2_lengthD[OF xs] by simp
    from delete_page_commit[OF less.prems xs set_take_subset this]
    obtain txn s' where t: "txn_push_all c txn_new (map (\<lambda>(key, _). OpDelete key DelExists) xs) = Inr txn"
      "catalog_commit c sops s txn f = Inr s'" "fence_ok s' = fence_ok s"
      "rows_of s' = fmdrop_set (fst ` set ?es) (rows_of s)" by blast
    have "?es \<noteq> []" using False xs by (metis list_all2_Nil2)
    then have shrink: "length (prefix_entries (rows_of s') p) < length (prefix_entries (rows_of s) p)"
      unfolding t(4) by (rule prefix_entries_drop_less) (rule set_take_subset)
    have wf': "catalog_wf c (rows_of s')"
      unfolding t(4) by (rule catalog_wf_sub[OF less.prems(1)]) (auto split: if_splits)
    have keep: "fmfilter ?N (rows_of s') = fmfilter ?N (rows_of s)"
      unfolding t(4) by (rule fmfilter_drop_prefix) (rule set_take_subset)
    from less.hyps[OF shrink wf'] less.prems(2) t(3) keep
    show ?thesis using q False t by (auto simp: catalog_delete_prefix.simps[of c sops p f s])
  qed
qed

lemma delete_prefixes_spec:
  assumes "catalog_wf c (rows_of s)" "fence_ok s f"
  shows "\<exists>s'. delete_prefixes c sops ps f s = Some (s', Inr ()) \<and> fence_ok s' = fence_ok s \<and>
     rows_of s' = fmfilter (\<lambda>kb. \<forall>p\<in>set ps. \<not> prefix (prefix_bytes p) kb) (rows_of s)"
  using assms
proof (induction ps arbitrary: s)
  case (Cons p ps)
  obtain s1 where s1: "catalog_delete_prefix c sops p f s = Some (s1, Inr ())" "fence_ok s1 = fence_ok s"
    "rows_of s1 = fmfilter (\<lambda>kb. \<not> prefix (prefix_bytes p) kb) (rows_of s)"
    using catalog_delete_prefix_spec[OF Cons.prems] by blast
  have "catalog_wf c (rows_of s1)"
    unfolding s1(3) by (rule catalog_wf_sub[OF Cons.prems(1)]) (auto split: if_splits)
  from Cons.IH[OF this] Cons.prems(2) s1(2) obtain s2 where
    "delete_prefixes c sops ps f s1 = Some (s2, Inr ())" "fence_ok s2 = fence_ok s"
    "rows_of s2 = fmfilter (\<lambda>kb. \<forall>p\<in>set ps. \<not> prefix (prefix_bytes p) kb) (rows_of s1)" by auto
  then show ?case using s1 by (auto intro!: fmap_ext)
qed (simp add: fmap_ext)

lemma delete_keys_spec:
  assumes "catalog_wf c (rows_of s)" "fence_ok s f"
  shows "\<exists>s'. delete_keys c sops keys f s = (s', Inr ()) \<and>
     rows_of s' = fmdrop_set (stored_key ` set keys) (rows_of s)"
  using assms
proof (induction keys arbitrary: s)
  case (Cons key keys)
  show ?case
  proof (cases "fmlookup (rows_of s) (stored_key key)")
    case None
    then have "fmdrop_set (stored_key ` set (key # keys)) (rows_of s) = fmdrop_set (stored_key ` set keys) (rows_of s)"
      by (auto intro!: fmap_ext)
    then show ?thesis using None Cons.IH[OF Cons.prems] by (auto simp: catalog_get_def get_law)
  next
    case (Some v)
    obtain row where row: "row_decode c v = Inr row"
      using Cons.prems(1) Some stored_key_catalog unfolding catalog_wf_def by blast
    let ?txn = "\<lparr>ops = [OpDelete key DelExists]\<rparr>"
    have txn: "txn_delete c txn_new key DelExists = Inr ?txn"
      by (simp add: txn_delete_def txn_push_def txn_new_def TXN_MAX_OPS_def)
    have "catalog_commit c sops s ?txn f = so_commit sops s [KvDelete (stored_key key)] f"
      using Some by (simp add: catalog_commit_def eval_ops_def get_law check_delete_cond_def)
    with commit_law[OF Cons.prems(2), of "[KvDelete (stored_key key)]"]
    obtain s' where s': "catalog_commit c sops s ?txn f = Inr s'" "fence_ok s' = fence_ok s"
      "rows_of s' = fmdrop (stored_key key) (rows_of s)" by (auto simp: apply_kv_ops_def)
    have "catalog_wf c (rows_of s')"
      unfolding s'(3) by (rule catalog_wf_sub[OF Cons.prems(1)]) (auto split: if_splits)
    from Cons.IH[OF this] Cons.prems(2) s'(2) obtain s2 where
      "delete_keys c sops keys f s' = (s2, Inr ())"
      "rows_of s2 = fmdrop_set (stored_key ` set keys) (rows_of s')" by auto
    then show ?thesis using Some row txn s'
      by (auto simp: catalog_get_def get_law commit_durable_def flush_law intro!: fmap_ext)
  qed
qed (simp add: flush_law)

lemma reset_catalog_spec:
  assumes "catalog_wf c (rows_of s)" "fence_ok s f"
  shows "\<exists>s'. reset_catalog c sops f s = Some (s', Inr ()) \<and>
     rows_of s' = fmfilter (\<lambda>kb. \<not> prefix (family_prefix Catalog) kb) (rows_of s)"
proof -
  from delete_prefixes_spec[OF assms, of prefix_ALL] obtain s1 where
    s1: "delete_prefixes c sops prefix_ALL f s = Some (s1, Inr ())" "fence_ok s1 = fence_ok s"
    "rows_of s1 = fmfilter (\<lambda>kb. \<forall>p\<in>set prefix_ALL. \<not> prefix (prefix_bytes p) kb) (rows_of s)" by blast
  have wf1: "catalog_wf c (rows_of s1)"
    unfolding s1(3) by (rule catalog_wf_sub[OF assms(1)]) (auto split: if_splits)
  from delete_keys_spec[OF wf1, of f "[KSeq, KFormat]"] assms(2) s1(2) obtain s2 where
    "delete_keys c sops [KSeq, KFormat] f s1 = (s2, Inr ())"
    "rows_of s2 = fmdrop_set (stored_key ` {KSeq, KFormat}) (rows_of s1)" by auto
  with s1 reset_rows[OF assms(1)] show ?thesis
    by (auto simp: reset_catalog_def simp del: family_prefix.simps)
qed

lemma catalog_commit_planned:
  "catalog_commit c sops s txn f = Inr s' \<Longrightarrow>
     \<exists>as. list_all2 (\<lambda>op a. eval_op c (\<lambda>key. Inr (fmlookup (rows_of s) (stored_key key))) op = Inr a) (ops txn) as
        \<and> rows_of s' = apply_kv_ops (map kv_of_applied as) (rows_of s) \<and> fence_ok s f \<and> fence_ok s' = fence_ok s"
  unfolding catalog_commit_def get_law bindR_Inr_iff eval_ops_Inr using commit_Inr by blast

lemma catalog_commit_iff:
  "(\<exists>s'. catalog_commit c sops s txn f = Inr s') \<longleftrightarrow> fence_ok s f \<and>
     (\<forall>op\<in>set (ops txn). \<not> is_err (eval_op c (\<lambda>key. Inr (fmlookup (rows_of s) (stored_key key))) op))"
proof -
  let ?g = "\<lambda>key. Inr (fmlookup (rows_of s) (stored_key key))"
  have "(\<exists>as. eval_ops c txn ?g = Inr as) \<longleftrightarrow> (\<forall>op\<in>set (ops txn). \<not> is_err (eval_op c ?g op))"
    unfolding eval_ops_def by (rule eval_list_total)
  then show ?thesis
    unfolding catalog_commit_def get_law bindR_Inr_iff using commit_Inr commit_law by blast
qed

lemma catalog_commit_view:
  assumes "catalog_commit c sops s txn f = Inr s'" "codec_ok c" "txn_keys_ok txn" "catalog_key_ok k"
  shows "catalog_view c (rows_of s') k = view_after (catalog_view c (rows_of s)) (ops txn) k"
proof -
  from catalog_commit_planned[OF assms(1)] obtain "as" where
    "list_all2 (\<lambda>op a. eval_op c (\<lambda>key. Inr (fmlookup (rows_of s) (stored_key key))) op = Inr a) (ops txn) as"
    and r: "rows_of s' = apply_kv_ops (map kv_of_applied as) (rows_of s)" by blast
  from catalog_view_apply_all[OF this(1) assms(2,4)] assms(3) show ?thesis
    unfolding r txn_keys_ok_def list_all_iff by blast
qed

lemma catalog_commit_wf:
  assumes "catalog_commit c sops s txn f = Inr s'" "codec_ok c" "txn_keys_ok txn" "catalog_wf c (rows_of s)"
  shows "catalog_wf c (rows_of s')"
proof -
  from catalog_commit_planned[OF assms(1)] obtain "as" where
    "list_all2 (\<lambda>op a. eval_op c (\<lambda>key. Inr (fmlookup (rows_of s) (stored_key key))) op = Inr a) (ops txn) as"
    and r: "rows_of s' = apply_kv_ops (map kv_of_applied as) (rows_of s)" by blast
  from catalog_wf_apply_all[OF this(1) assms(2,4)] assms(3) show ?thesis
    unfolding r txn_keys_ok_def list_all_iff by blast
qed

lemma catalog_commit_op:
  assumes "catalog_commit c sops s txn f = Inr s'" "op \<in> set (ops txn)"
  shows "\<exists>a. eval_op c (\<lambda>key. Inr (fmlookup (rows_of s) (stored_key key))) op = Inr a"
proof -
  have "\<not> is_err (eval_op c (\<lambda>key. Inr (fmlookup (rows_of s) (stored_key key))) op)"
    using catalog_commit_iff assms by blast
  then show ?thesis
    by (cases "eval_op c (\<lambda>key. Inr (fmlookup (rows_of s) (stored_key key))) op") simp_all
qed

lemma commit_version_pre:
  assumes "catalog_commit c sops s txn f = Inr s'" "OpPut key row (PutVersion v) \<in> set (ops txn)"
  shows "\<exists>old. catalog_view c (rows_of s) key = Some old \<and> row_version_of old = Some v"
    and "\<exists>v'. row_version_of row = Some v' \<and> unat v' = unat v + 1"
proof -
  obtain a where a: "eval_op c (\<lambda>key. Inr (fmlookup (rows_of s) (stored_key key))) (OpPut key row (PutVersion v)) = Inr a"
    using catalog_commit_op[OF assms] by blast
  then show "\<exists>old. catalog_view c (rows_of s) key = Some old \<and> row_version_of old = Some v"
    unfolding eval_put_Inr catalog_view_Some by (auto simp: check_put_cond_def version_matches_Inr)
  show "\<exists>v'. row_version_of row = Some v' \<and> unat v' = unat v + 1"
    using a validate_put_Inr unfolding eval_put_Inr by blast
qed

lemma fenced_commit: "\<not> fence_ok s f \<Longrightarrow> \<exists>e. catalog_commit c sops s txn f = Inl e"
  using catalog_commit_iff[of c s txn f] by (cases "catalog_commit c sops s txn f") auto

lemma fenced_commit_durable: "\<not> fence_ok s f \<Longrightarrow> \<exists>e. commit_durable c sops s txn f = (s, Inl e)"
  using fenced_commit[of s f c txn] by (auto simp: commit_durable_def)

lemma fenced_delete_prefix: "\<not> fence_ok s f \<Longrightarrow> \<exists>r. catalog_delete_prefix c sops p f s = Some (s, r)"
proof -
  assume f: "\<not> fence_ok s f"
  show ?thesis
  proof (cases "catalog_query_prefix c sops s p None TXN_MAX_OPS")
    case (Inr page)
    obtain E where "\<And>txn. catalog_commit c sops s txn f = Inl (E txn)"
      using fenced_commit[OF f, of c] by metis
    then show ?thesis using Inr
      by (simp add: catalog_delete_prefix.simps[of c sops p f s] split: sum.split)
  qed (simp add: catalog_delete_prefix.simps[of c sops p f s])
qed

lemma fenced_delete_prefixes: "\<not> fence_ok s f \<Longrightarrow> \<exists>r. delete_prefixes c sops ps f s = Some (s, r)"
proof (induction ps)
  case (Cons p ps)
  obtain r where r: "catalog_delete_prefix c sops p f s = Some (s, r)"
    using fenced_delete_prefix[OF Cons.prems] by blast
  then show ?case using Cons by (cases r) auto
qed simp

lemma fenced_delete_keys: "\<not> fence_ok s f \<Longrightarrow> \<exists>r. delete_keys c sops keys f s = (s, r)"
proof (induction keys)
  case (Cons k keys)
  then obtain r where r: "delete_keys c sops keys f s = (s, r)" by blast
  obtain E where "\<And>txn. commit_durable c sops s txn f = (s, Inl (E txn))"
    using fenced_commit_durable[OF Cons.prems, of c] by metis
  then show ?case using r by (simp split: sum.split option.split)
qed (simp add: flush_law)

lemma fenced_reset: "\<not> fence_ok s f \<Longrightarrow> \<exists>r. reset_catalog c sops f s = Some (s, r)"
proof -
  assume f: "\<not> fence_ok s f"
  obtain r where r: "delete_prefixes c sops prefix_ALL f s = Some (s, r)"
    using fenced_delete_prefixes[OF f] by blast
  then show ?thesis using fenced_delete_keys[OF f, of c "[KSeq, KFormat]"]
    by (cases r) (auto simp: reset_catalog_def simp del: delete_keys.simps)
qed

lemma commit_cas_loser:
  assumes "catalog_commit c sops s txn f = Inr s'" "codec_ok c" "txn_keys_ok txn"
    "last_op key (ops txn) = Some (OpPut key row (PutVersion v))"
    "OpPut key row2 (PutVersion v) \<in> set (ops txn2)"
  shows "is_err (catalog_commit c sops s' txn2 f2)"
proof (cases "catalog_commit c sops s' txn2 f2")
  case (Inr s2)
  have mem: "OpPut key row (PutVersion v) \<in> set (ops txn)" and ok: "catalog_key_ok key"
    using last_op_mem[OF assms(4)] assms(3) by (auto simp: txn_keys_ok_def list_all_iff)
  have "catalog_view c (rows_of s') key = Some row"
    using catalog_commit_view[OF assms(1-3) ok] assms(4) by (simp add: view_after_def)
  moreover obtain old where "catalog_view c (rows_of s') key = Some old" "row_version_of old = Some v"
    using commit_version_pre(1)[OF Inr assms(5)] by blast
  moreover obtain v' where "row_version_of row = Some v'" "unat v' = unat v + 1"
    using commit_version_pre(2)[OF assms(1) mem] by blast
  ultimately show ?thesis by auto
qed simp

lemma commit_seq_advance:
  assumes "catalog_commit c sops s txn f = Inr s'" "codec_ok c" "txn_keys_ok txn" "seq_disciplined txn"
    "catalog_view c (rows_of s) KSeq = Some (RSeq old)"
  shows "\<exists>new. catalog_view c (rows_of s') KSeq = Some (RSeq new) \<and> seq_get (max_seq old) \<le> seq_get (max_seq new)
     \<and> (last_op KSeq (ops txn) \<noteq> None \<longrightarrow> seq_get (max_seq old) < seq_get (max_seq new))"
proof (cases "last_op KSeq (ops txn)")
  case None
  then show ?thesis
    using catalog_commit_view[OF assms(1-3), of KSeq] assms(5) by (simp add: view_after_def)
next
  case (Some op)
  then have op: "op \<in> set (ops txn)" "op_key op = KSeq" using last_op_mem by blast+
  then obtain row where row: "op = OpPut KSeq row SeqAdvance"
    using assms(4) unfolding seq_disciplined_def list_all_iff by (cases op rule: seq_op_ok.cases) auto
  obtain bs where bs: "fmlookup (rows_of s) (stored_key KSeq) = Some bs" "row_decode c bs = Inr (RSeq old)"
    using assms(5) unfolding catalog_view_Some by blast
  obtain inc where "check_put_cond c KSeq row SeqAdvance inc (Some bs) = Inr ()"
    using catalog_commit_op[OF assms(1) op(1)] bs(1) unfolding row eval_put_Inr by auto
  from check_seq_advance(2,3)[OF this] bs(2) obtain new where
    "row = RSeq new" "seq_get (max_seq old) < seq_get (max_seq new)" by blast
  then show ?thesis using catalog_commit_view[OF assms(1-3), of KSeq] Some row
    by (simp add: view_after_def)
qed

end

section \<open>Histories of the memory catalog\<close>

text \<open>The steps that the writers of one catalog take: conditional commits under any fence, a
  change of writer, and the release of the writer.\<close>

inductive writer_step :: "codec \<Rightarrow> memory_store \<Rightarrow> memory_store \<Rightarrow> bool" for c where
  commit_step: "catalog_commit c memory_ops s txn f = Inr s' \<Longrightarrow> txn_keys_ok txn \<Longrightarrow> seq_disciplined txn \<Longrightarrow>
     writer_step c s s'"
| takeover_step: "writer_step c s (set_writer_fence o' e s)"
| revoke_step: "writer_step c s (revoke_writer_fence s)"

lemma fence_change_rows [simp]:
  "mem_rows (set_writer_fence o' e s) = mem_rows s" "mem_rows (revoke_writer_fence s) = mem_rows s"
  by (simp_all add: set_writer_fence_def revoke_writer_fence_def)

lemma writer_step_wf:
  "writer_step c s s' \<Longrightarrow> codec_ok c \<Longrightarrow> catalog_wf c (mem_rows s) \<Longrightarrow> catalog_wf c (mem_rows s')"
  by (induction rule: writer_step.induct) (auto intro: mem.catalog_commit_wf)

lemma writer_step_seq:
  "writer_step c s s' \<Longrightarrow> codec_ok c \<Longrightarrow> catalog_view c (mem_rows s) KSeq = Some (RSeq old) \<Longrightarrow>
     \<exists>new. catalog_view c (mem_rows s') KSeq = Some (RSeq new) \<and> seq_get (max_seq old) \<le> seq_get (max_seq new)"
  by (induction rule: writer_step.induct) (auto dest: mem.commit_seq_advance)

lemma decodes_to_mem:
  assumes "catalog_wf c m" "list_all2 (decodes_to c) xs (prefix_entries m p)"
  shows "(k, row) \<in> set xs \<longleftrightarrow> catalog_key_ok k \<and> prefix_of_key k = Some p \<and> catalog_view c m k = Some row"
proof
  assume "(k, row) \<in> set xs"
  then obtain e where e: "e \<in> set (prefix_entries m p)" "decodes_to c (k, row) e"
    using assms(2) by (metis in_set_conv_nth list_all2_conv_all_nth)
  obtain kb v where "e = (kb, v)" by (cases e)
  then show "catalog_key_ok k \<and> prefix_of_key k = Some p \<and> catalog_view c m k = Some row"
    using e by (auto simp: prefix_entries_mem decodes_to_def catalog_view_Some stored_key_prefix)
next
  assume k: "catalog_key_ok k \<and> prefix_of_key k = Some p \<and> catalog_view c m k = Some row"
  then obtain v where v: "fmlookup m (stored_key k) = Some v" "row_decode c v = Inr row"
    by (auto simp: catalog_view_Some)
  then have "(stored_key k, v) \<in> set (prefix_entries m p)"
    using k by (simp add: prefix_entries_mem stored_key_prefix)
  then obtain x where x: "x \<in> set xs" "decodes_to c x (stored_key k, v)"
    using assms(2) by (metis in_set_conv_nth list_all2_conv_all_nth)
  then have "x = (k, row)"
    using k v(2) stored_key_inj[of "fst x" k] by (cases x) (auto simp: decodes_to_def)
  then show "(k, row) \<in> set xs" using x by simp
qed

lemma decodes_to_keys:
  "list_all2 (decodes_to c) xs es \<Longrightarrow> map (\<lambda>x. stored_key (fst x)) xs = map fst es"
  by (induction rule: list_all2_induct) (auto simp: decodes_to_def)

section \<open>A codec for the two singleton rows\<close>

text \<open>A concrete instance of the codec parameter, laid out as bincode lays these rows out
  (a 32-bit variant tag, then the fields in little-endian order). It refuses the other rows.\<close>

fun sample_ser :: "CatalogRow \<Rightarrow> string + bytes" where
  "sample_ser (RSeq r) = Inr (u32_le 5 @ u64_le (seq_get (max_seq r)))"
| "sample_ser (RFormat r) = Inr (u32_le 6 @ u32_le (fm_version r)
     @ u32_le (case fm_phase r of Imported \<Rightarrow> 0 | Clean \<Rightarrow> 1) @ u64_le (fm_row_version r))"
| "sample_ser _ = Inl ''unsupported''"

definition sample_deser :: "bytes \<Rightarrow> string + CatalogRow" where
  "sample_deser bs =
     (if length bs = 12 \<and> u32_of_le (take 4 bs) = 5 then
        Inr (RSeq \<lparr>max_seq = CatalogSeq (u64_of_le (drop 4 bs))\<rparr>)
      else if length bs = 20 \<and> u32_of_le (take 4 bs) = 6 then
        Inr (RFormat \<lparr>fm_version = u32_of_le (take 4 (drop 4 bs)),
          fm_phase = (if u32_of_le (take 4 (drop 8 bs)) = 0 then Imported else Clean),
          fm_row_version = u64_of_le (drop 12 bs)\<rparr>)
      else Inl ''unsupported'')"

definition sample_codec :: codec where
  "sample_codec = \<lparr>ser = sample_ser, deser = sample_deser, sha256 = (\<lambda>bs. bs)\<rparr>"

lemma sample_codec_ok: "codec_ok sample_codec"
proof -
  have "sample_ser row = Inr bs \<Longrightarrow> sample_deser bs = Inr row" for row bs
    by (cases row rule: sample_ser.cases) (auto simp: sample_deser_def split: FormatPhase.splits)
  then show ?thesis by (simp add: codec_ok_def sample_codec_def)
qed

section \<open>Properties\<close>

text \<open>C30. Paging through a prefix of a well-formed catalog ends and returns exactly the rows stored
  under the validated keys of that prefix, each once and in the order of the stored keys,
  however many pages of 100 it takes.\<close>

theorem query_all_enumerates:
  assumes "catalog_wf c (mem_rows s)"
  shows "\<exists>xs. query_all c memory_ops s p = Some (Inr xs)
     \<and> (\<forall>k row. (k, row) \<in> set xs \<longleftrightarrow>
          catalog_key_ok k \<and> prefix_of_key k = Some p \<and> catalog_view c (mem_rows s) k = Some row)
     \<and> sorted (map (\<lambda>x. stored_key (fst x)) xs) \<and> distinct (map fst xs)"
proof -
  obtain xs where q: "query_all c memory_ops s p = Some (Inr xs)"
    and xs: "list_all2 (decodes_to c) xs (prefix_entries (mem_rows s) p)"
    using mem.query_all_spec[OF assms, of p] by blast
  have "distinct (map (\<lambda>x. stored_key (fst x)) xs)" "sorted (map (\<lambda>x. stored_key (fst x)) xs)"
    unfolding decodes_to_keys[OF xs] by (rule prefix_entries_sorted)+
  moreover from this(1) have "distinct (map fst xs)"
    by (metis (mono_tags, lifting) comp_apply distinct_map map_eq_conv map_map)
  ultimately show ?thesis using q decodes_to_mem[OF assms xs] by blast
qed

theorem query_all_enumerates_witness:
  "\<exists>xs. query_all sample_codec memory_ops memory_new PSegment = Some (Inr xs)
     \<and> (\<forall>k row. (k, row) \<in> set xs \<longleftrightarrow> catalog_key_ok k \<and> prefix_of_key k = Some PSegment
          \<and> catalog_view sample_codec (mem_rows memory_new) k = Some row)
     \<and> sorted (map (\<lambda>x. stored_key (fst x)) xs) \<and> distinct (map fst xs)"
  by (rule query_all_enumerates) (simp add: memory_new_def catalog_wf_def)

text \<open>Resetting a well-formed catalog under the current writer fence ends without an error and
  removes every entry of the catalog family, the two singleton rows included, and nothing else.\<close>

theorem reset_catalog_clears:
  assumes "catalog_wf c (mem_rows s)" "memory_fence_ok s f"
  shows "\<exists>s'. reset_catalog c memory_ops f s = Some (s', Inr ()) \<and>
     mem_rows s' = fmfilter (\<lambda>kb. \<not> prefix (family_prefix Catalog) kb) (mem_rows s)"
  by (rule mem.reset_catalog_spec[OF assms])

theorem reset_catalog_clears_witness:
  "memory_fence_ok (memory_open fence_local) fence_local \<and>
   (\<exists>s'. reset_catalog sample_codec memory_ops fence_local (memory_open fence_local) = Some (s', Inr ()) \<and>
     mem_rows s' = fmfilter (\<lambda>kb. \<not> prefix (family_prefix Catalog) kb) (mem_rows (memory_open fence_local)))"
proof -
  have ok: "memory_fence_ok (memory_open fence_local) fence_local"
    by (simp add: memory_fence_ok_def check_fence_def memory_open_def set_writer_fence_def)
  have wf: "catalog_wf sample_codec (mem_rows (memory_open fence_local))"
    by (simp add: memory_open_def memory_new_def catalog_wf_def)
  show ?thesis using ok reset_catalog_clears[OF wf ok] by blast
qed

text \<open>A commit is all or nothing: it succeeds exactly when the writer holds the fence and every
  operation's condition holds in the state before the commit.\<close>

theorem commit_all_or_nothing:
  "(\<exists>s'. catalog_commit c memory_ops s txn f = Inr s') \<longleftrightarrow> memory_fence_ok s f \<and>
     (\<forall>op \<in> set (ops txn). \<not> is_err (eval_op c (\<lambda>key. Inr (fmlookup (mem_rows s) (stored_key key))) op))"
  by (rule mem.catalog_commit_iff)

theorem commit_all_or_nothing_witness:
  "\<not> (\<exists>s'. catalog_commit sample_codec memory_ops (memory_open fence_local)
        \<lparr>ops = [OpPut KFormat (RFormat \<lparr>fm_version = 3, fm_phase = Clean, fm_row_version = 0\<rparr>) NotExists,
                OpDelete KSeq DelExists]\<rparr> fence_local = Inr s')"
  unfolding commit_all_or_nothing
  by (simp add: memory_open_def memory_new_def check_delete_cond_def)

text \<open>C3. After a successful commit a read of any validated key returns what the last operation of
  the transaction on that key wrote, or its old row when the transaction does not touch it,
  and the catalog is still well-formed.\<close>

theorem commit_then_read:
  assumes "catalog_commit c memory_ops s txn f = Inr s'" "codec_ok c" "txn_keys_ok txn"
    "catalog_wf c (mem_rows s)" "catalog_key_ok k"
  shows "catalog_get c memory_ops s' k = Inr (view_after (catalog_view c (mem_rows s)) (ops txn) k)
     \<and> catalog_wf c (mem_rows s')"
proof -
  have wf: "catalog_wf c (mem_rows s')" by (rule mem.catalog_commit_wf[OF assms(1-4)])
  have "catalog_get c memory_ops s' k = Inr (catalog_view c (mem_rows s') k)"
  proof (cases "fmlookup (mem_rows s') (stored_key k)")
    case (Some v)
    then obtain row where "row_decode c v = Inr row"
      using wf stored_key_catalog unfolding catalog_wf_def by blast
    then show ?thesis using Some by (simp add: catalog_get_def mem.get_law catalog_view_def)
  qed (simp add: catalog_get_def mem.get_law catalog_view_def)
  then show ?thesis using wf mem.catalog_commit_view[OF assms(1-3,5)] by simp
qed

lemma sample_commit:
  assumes "fmlookup (mem_rows s) (stored_key KSeq) = None" "memory_fence_ok s fence_local"
  shows "\<exists>s'. catalog_commit sample_codec memory_ops s \<lparr>ops = [OpPut KSeq (RSeq \<lparr>max_seq = CatalogSeq 7\<rparr>) NotExists]\<rparr> fence_local = Inr s'"
  unfolding mem.catalog_commit_iff
  using assms by (simp add: row_encode_def sample_codec_def check_put_cond_def ROW_MAX_BYTES_def)

lemma memory_open_props:
  "memory_fence_ok (memory_open f) f" "mem_rows (memory_open f) = fmempty" "catalog_wf c fmempty"
  by (simp_all add: memory_fence_ok_def check_fence_def memory_open_def set_writer_fence_def memory_new_def catalog_wf_def)

theorem commit_then_read_witness:
  "\<exists>s'. catalog_get sample_codec memory_ops s' KSeq = Inr (Some (RSeq \<lparr>max_seq = CatalogSeq 7\<rparr>))"
proof -
  let ?t = "\<lparr>ops = [OpPut KSeq (RSeq \<lparr>max_seq = CatalogSeq 7\<rparr>) NotExists]\<rparr>"
  obtain s' where s': "catalog_commit sample_codec memory_ops (memory_open fence_local) ?t fence_local = Inr s'"
    using sample_commit[of "memory_open fence_local"] memory_open_props by auto
  have ok: "txn_keys_ok ?t" by (simp add: txn_keys_ok_def)
  have wf: "catalog_wf sample_codec (mem_rows (memory_open fence_local))"
    by (simp add: memory_open_props)
  from commit_then_read[OF s' sample_codec_ok ok wf, of KSeq] show ?thesis
    by (auto simp: view_after_def)
qed


abbreviation sample_format :: "u64 \<Rightarrow> CatalogRow" where
  "sample_format v \<equiv> RFormat \<lparr>fm_version = 3, fm_phase = Clean, fm_row_version = v\<rparr>"

lemma sample_format_store:
  "\<exists>s bs. row_encode sample_codec (sample_format v) = Inr bs \<and> row_decode sample_codec bs = Inr (sample_format v)
     \<and> seed_historical sample_codec KFormat (sample_format v) (memory_open fence_local) = Inr s
     \<and> memory_fence_ok s fence_local \<and> mem_rows s = fmupd (stored_key KFormat) bs fmempty"
proof -
  let ?bs = "u32_le 6 @ u32_le 3 @ u32_le 1 @ u64_le v"
  have "row_encode sample_codec (sample_format v) = Inr ?bs"
    by (simp add: row_encode_def sample_codec_def ROW_MAX_BYTES_def)
  with row_decode_encode[OF sample_codec_ok this] show ?thesis
    by (simp add: seed_historical_def memory_fence_ok_def check_fence_def memory_open_def
        set_writer_fence_def memory_new_def stored_key_def)
qed


text \<open>C29. Over any history of commits, changes of writer and releases, in which the sequence row is
  only written through \<open>SeqAdvance\<close>, the catalog stays well-formed and the stored maximum
  sequence number never decreases.\<close>

theorem seq_never_decreases:
  assumes "(writer_step c)\<^sup>*\<^sup>* s s'" "codec_ok c" "catalog_wf c (mem_rows s)"
    "catalog_view c (mem_rows s) KSeq = Some (RSeq old)"
  shows "catalog_wf c (mem_rows s') \<and>
     (\<exists>new. catalog_view c (mem_rows s') KSeq = Some (RSeq new) \<and> seq_get (max_seq old) \<le> seq_get (max_seq new))"
  using assms(1)
proof (induction rule: rtranclp_induct)
  case (step t u)
  then obtain mid where mid: "catalog_view c (mem_rows t) KSeq = Some (RSeq mid)"
    "seq_get (max_seq old) \<le> seq_get (max_seq mid)" by blast
  from writer_step_seq[OF step(2) assms(2) mid(1)] mid(2) show ?case
    using writer_step_wf[OF step(2) assms(2)] step(3) by fastforce
qed (use assms in auto)

theorem seq_never_decreases_witness:
  "\<exists>s. catalog_view sample_codec (mem_rows s) KSeq = Some (RSeq \<lparr>max_seq = CatalogSeq 7\<rparr>) \<and>
     (\<exists>new. catalog_view sample_codec (mem_rows (set_writer_fence single_node (LeaseEpoch 9) s)) KSeq = Some (RSeq new)
        \<and> 7 \<le> seq_get (max_seq new))"
proof -
  let ?t = "\<lparr>ops = [OpPut KSeq (RSeq \<lparr>max_seq = CatalogSeq 7\<rparr>) NotExists]\<rparr>"
  obtain s where s: "catalog_commit sample_codec memory_ops (memory_open fence_local) ?t fence_local = Inr s"
    using sample_commit[of "memory_open fence_local"] memory_open_props by auto
  have ok: "txn_keys_ok ?t" by (simp add: txn_keys_ok_def)
  have v: "catalog_view sample_codec (mem_rows s) KSeq = Some (RSeq \<lparr>max_seq = CatalogSeq 7\<rparr>)"
    using mem.catalog_commit_view[OF s sample_codec_ok ok, of KSeq] by (simp add: view_after_def)
  have wf: "catalog_wf sample_codec (mem_rows s)"
    using mem.catalog_commit_wf[OF s sample_codec_ok ok] by (simp add: memory_open_props)
  have "(writer_step sample_codec)\<^sup>*\<^sup>* s (set_writer_fence single_node (LeaseEpoch 9) s)"
    by (intro r_into_rtranclp takeover_step)
  from seq_never_decreases[OF this sample_codec_ok wf v] show ?thesis using v by auto
qed

text \<open>C2. A deposed writer cannot change the catalog: once another fence has been installed, every
  commit under an old fence is refused, and a durable commit, a prefix deletion and a full
  reset end and leave the store as it was.\<close>

theorem deposed_writer_is_inert:
  assumes "f \<noteq> \<lparr>owner = o', epoch = e\<rparr>" "s' = set_writer_fence o' e s"
  shows "is_err (catalog_commit c memory_ops s' txn f)
     \<and> fst (commit_durable c memory_ops s' txn f) = s'
     \<and> (\<exists>r. catalog_delete_prefix c memory_ops p f s' = Some (s', r))
     \<and> (\<exists>r. reset_catalog c memory_ops f s' = Some (s', r))"
proof -
  have nf: "\<not> memory_fence_ok s' f"
    using assms by (auto simp: memory_fence_ok_def check_fence_def set_writer_fence_def)
  obtain e1 e2 where "catalog_commit c memory_ops s' txn f = Inl e1"
    "commit_durable c memory_ops s' txn f = (s', Inl e2)"
    using mem.fenced_commit[OF nf] mem.fenced_commit_durable[OF nf] by metis
  then show ?thesis using mem.fenced_delete_prefix[OF nf] mem.fenced_reset[OF nf] by simp
qed

theorem deposed_writer_is_inert_witness:
  "is_err (catalog_commit sample_codec memory_ops (set_writer_fence single_node (LeaseEpoch 1) (memory_open fence_local))
     txn_new fence_local)"
  using deposed_writer_is_inert[of fence_local single_node "LeaseEpoch 1" _ "memory_open fence_local" sample_codec txn_new PSegment]
  by (simp add: fence_local_def SINGLE_NODE_def)

end
