(* ===== verification/Offset_Store.thy ===== *)
theory Offset_Store
  imports Wal_Catalog
begin

text \<open>
  Published offsets and checkpoints (\<^verbatim>\<open>src/src/helpers/offset_store.rs\<close>): the fenced
  publication of a WAL commit's offsets on a Skippr Store, the fence record beside each
  payload, the reset of published ingest state and the field update of an offset value.

  The environment of the code is a record: the store operations, the writer fence, the
  read-through to a leftover sled database (third-party, hence a function parameter) and the
  hexadecimal SHA-256 digest (third-party).
\<close>

section \<open>Operations\<close>

fun catalog_error_display :: "CatalogError \<Rightarrow> string" where
  "catalog_error_display TxnFull = ''catalog transaction is full''"
| "catalog_error_display (RowTooLarge n) = ''catalog row exceeds size ceiling ('' @ show_nat n @ '' bytes)''"
| "catalog_error_display CatalogError.Fenced = ''catalog commit fenced''"
| "catalog_error_display ConditionFailed = ''catalog condition failed''"
| "catalog_error_display VersionMustAdvance = ''catalog put version must be expected plus one''"
| "catalog_error_display LegacyRowWrite = ''legacy catalog slice rows are read-only''"
| "catalog_error_display Conflict = ''catalog transaction conflict''"
| "catalog_error_display (Codec m) = ''catalog codec: '' @ m"
| "catalog_error_display (CatalogIo m) = ''catalog io: '' @ m"
| "catalog_error_display SeqOpOnNonSeqKey = ''SeqAdvance is only valid on CatalogKey::Seq''"
| "catalog_error_display WrongPayloadLayer = ''payload location does not match the configured layer''"

definition map_errR :: "('e \<Rightarrow> 'd) \<Rightarrow> 'e + 'a \<Rightarrow> 'd + 'a" where
  "map_errR f r = (case r of Inl e \<Rightarrow> Inl (f e) | Inr x \<Rightarrow> Inr x)"

lemma map_errR_simps [simp]: "map_errR f (Inl e) = Inl (f e)" "map_errR f (Inr x) = Inr x"
  by (simp_all add: map_errR_def)

record 's StoreOffsetStore =
  os_store :: "'s store_ops"
  os_fence :: CatalogFence
  os_sled_fallback :: "(StoreFamily \<Rightarrow> bytes \<Rightarrow> CatalogError + bytes option) option"
  os_sha_hex :: "bytes \<Rightarrow> string"

definition offset_key :: "string \<Rightarrow> string \<Rightarrow> string" where
  "offset_key ns part = ns @ ''-'' @ part"

definition checkpoint_key :: "string \<Rightarrow> string" where
  "checkpoint_key key = ''cdc_checkpoint:'' @ key"

definition fence_key :: "string \<Rightarrow> string" where
  "fence_key sk = ''fence#'' @ sk"

definition encode_fence :: "u64 \<Rightarrow> u64 \<Rightarrow> string \<Rightarrow> bytes" where
  "encode_fence e q h = u64_le e @ u64_le q @ as_bytes h"

definition decode_fence :: "bytes \<Rightarrow> (u64 \<times> u64 \<times> string) option" where
  "decode_fence bs =
     (if length bs < 16 then None
      else map_option (\<lambda>h. (u64_of_le (take 8 bs), u64_of_le (take 8 (drop 8 bs)), h))
             (from_utf8 (drop 16 bs)))"

definition family_get :: "'s StoreOffsetStore \<Rightarrow> 's \<Rightarrow> StoreFamily \<Rightarrow> bytes \<Rightarrow> string + bytes option" where
  "family_get env s family rest =
     bindR (map_errR catalog_error_display (so_get (os_store env) s (family_key family rest))) (\<lambda>v. case v of
        Some bs \<Rightarrow> Inr (Some bs)
      | None \<Rightarrow> (case os_sled_fallback env of
            None \<Rightarrow> Inr None
          | Some lookup \<Rightarrow> map_errR catalog_error_display (lookup family rest)))"

definition get_bytes :: "'s StoreOffsetStore \<Rightarrow> 's \<Rightarrow> string \<Rightarrow> string + bytes option" where
  "get_bytes env s sk = family_get env s Offsets (as_bytes sk)"

definition get_offset :: "'s StoreOffsetStore \<Rightarrow> 's \<Rightarrow> string \<Rightarrow> string \<Rightarrow> string + bytes option" where
  "get_offset env s ns part = get_bytes env s (offset_key ns part)"

definition get_checkpoint :: "'s StoreOffsetStore \<Rightarrow> 's \<Rightarrow> string \<Rightarrow> string + bytes option" where
  "get_checkpoint env s key = get_bytes env s (checkpoint_key key)"

definition os_flush :: "'s StoreOffsetStore \<Rightarrow> 's \<Rightarrow> string + unit" where
  "os_flush env s = map_errR catalog_error_display (so_flush (os_store env) s)"

definition publish_wal_commit ::
  "'s StoreOffsetStore \<Rightarrow> 's \<Rightarrow> string \<Rightarrow> bytes \<Rightarrow> u64 \<Rightarrow> u64 \<Rightarrow> string \<Rightarrow> PublishMode \<Rightarrow> 's \<times> (OffsetPublishError + unit)"
where
  "publish_wal_commit env s sk bs e q h mode =
     (case family_get env s Offsets (as_bytes (fence_key sk)) of
        Inl err \<Rightarrow> (s, Inl (Transient err))
      | Inr v \<Rightarrow>
         (case decide_wal_publish (Option.bind v decode_fence) e q h mode of
            Inl err \<Rightarrow> (s, Inl err)
          | Inr AlreadyApplied \<Rightarrow> (s, Inr ())
          | Inr Commit \<Rightarrow>
             (case so_commit (os_store env) s
                 [KvPut (family_key Offsets (as_bytes sk)) bs,
                  KvPut (family_key Offsets (as_bytes (fence_key sk))) (encode_fence e q h)] (os_fence env) of
                Inl err \<Rightarrow> (s, Inl (Transient (catalog_error_display err)))
              | Inr s' \<Rightarrow> (s', Inr ()))))"

definition offset_bytes :: "CommittedOffset \<Rightarrow> bytes" where
  "offset_bytes o' = u64_le (off_filesize o') @ u64_le (off_position o') @ u64_le (off_closed o')"

fun publish_offsets ::
  "'s StoreOffsetStore \<Rightarrow> CommittedOffset list \<Rightarrow> u64 \<Rightarrow> u64 \<Rightarrow> PublishMode \<Rightarrow> 's \<Rightarrow> 's \<times> (OffsetPublishError + unit)"
where
  "publish_offsets env [] e q mode s = (s, Inr ())"
| "publish_offsets env (off # offs) e q mode s =
     (let sk = offset_key (off_namespace off) (off_partition off); bs = offset_bytes off in
      case publish_wal_commit env s sk bs e q (os_sha_hex env bs) mode of
        (s', Inl err) \<Rightarrow> (s', Inl err)
      | (s', Inr _) \<Rightarrow> publish_offsets env offs e q mode s')"

fun publish_checkpoints ::
  "'s StoreOffsetStore \<Rightarrow> CommittedCheckpoint list \<Rightarrow> u64 \<Rightarrow> u64 \<Rightarrow> PublishMode \<Rightarrow> 's \<Rightarrow> 's \<times> (OffsetPublishError + unit)"
where
  "publish_checkpoints env [] e q mode s = (s, Inr ())"
| "publish_checkpoints env (cp # cps) e q mode s =
     (let sk = checkpoint_key (ckp_logical_key cp); bs = ckp_envelope cp in
      case publish_wal_commit env s sk bs e q (os_sha_hex env bs) mode of
        (s', Inl err) \<Rightarrow> (s', Inl err)
      | (s', Inr _) \<Rightarrow> publish_checkpoints env cps e q mode s')"

definition publish_committed ::
  "'s StoreOffsetStore \<Rightarrow> 's \<Rightarrow> CommittedOffset list \<Rightarrow> CommittedCheckpoint list \<Rightarrow> u64 \<Rightarrow> u64 \<Rightarrow> PublishMode \<Rightarrow> 's \<times> (OffsetPublishError + unit)"
where
  "publish_committed env s offs cps e q mode =
     (case publish_offsets env offs e q mode s of
        (s', Inl err) \<Rightarrow> (s', Inl err)
      | (s', Inr _) \<Rightarrow> publish_checkpoints env cps e q mode s')"

definition USIZE_MAX :: nat where "USIZE_MAX = 2 ^ 64 - 1"

definition reset_published_ingest :: "'s StoreOffsetStore \<Rightarrow> 's \<Rightarrow> 's \<times> (string + unit)" where
  "reset_published_ingest env s =
     (case so_query (os_store env) s (family_prefix Offsets) None USIZE_MAX of
        Inl err \<Rightarrow> (s, Inl (catalog_error_display err))
      | Inr page \<Rightarrow>
          (let kops = map (\<lambda>(key, _). KvDelete key) page in
           if kops = [] then (s, os_flush env s)
           else (case so_commit (os_store env) s kops (os_fence env) of
               Inl err \<Rightarrow> (s, Inl (catalog_error_display err))
             | Inr s' \<Rightarrow> (s', os_flush env s'))))"

datatype OffsetTypes = Filesize | Position | Closed

text \<open>The 24-byte layout of an offset value; any other length does not fit.\<close>

record OffsetValue =
  ov_filesize :: u64
  ov_line :: u64
  ov_closed :: u64

definition offset_value_bytes :: "OffsetValue \<Rightarrow> bytes" where
  "offset_value_bytes v = u64_le (ov_filesize v) @ u64_le (ov_line v) @ u64_le (ov_closed v)"

definition read_offset_value :: "bytes \<Rightarrow> OffsetValue option" where
  "read_offset_value bs = (if length bs = 24
     then Some \<lparr>ov_filesize = u64_of_le (take 8 bs), ov_line = u64_of_le (take 8 (drop 8 bs)),
                ov_closed = u64_of_le (drop 16 bs)\<rparr>
     else None)"

definition apply_offset_field :: "bytes option \<Rightarrow> OffsetTypes \<Rightarrow> u64 \<Rightarrow> bool \<Rightarrow> string + bytes" where
  "apply_offset_field existing offset_type offset position_max =
     (let backing = (case existing of Some bs \<Rightarrow> bs
          | None \<Rightarrow> offset_value_bytes \<lparr>ov_filesize = 0, ov_line = 0, ov_closed = 0\<rparr>) in
      case read_offset_value backing of
        None \<Rightarrow> Inl ''offset bytes do not fit schema''
      | Some v \<Rightarrow> Inr (offset_value_bytes (case offset_type of
            Filesize \<Rightarrow> v\<lparr>ov_filesize := offset\<rparr>
          | Position \<Rightarrow> v\<lparr>ov_line := (if position_max then max (ov_line v) offset else offset)\<rparr>
          | Closed \<Rightarrow> v\<lparr>ov_closed := offset\<rparr>)))"

section \<open>The fence record\<close>

lemma decode_encode_fence: "is_str h \<Longrightarrow> decode_fence (encode_fence e q h) = Some (e, q, h)"
  by (simp add: decode_fence_def encode_fence_def from_utf8_as_bytes)

definition stored_fence :: "'s StoreOffsetStore \<Rightarrow> 's \<Rightarrow> string \<Rightarrow> (u64 \<times> u64 \<times> string) option" where
  "stored_fence env s sk = (case family_get env s Offsets (as_bytes (fence_key sk)) of
      Inl _ \<Rightarrow> None
    | Inr v \<Rightarrow> Option.bind v decode_fence)"

lemma fence_key_neq: "fence_key sk \<noteq> sk"
  by (simp add: fence_key_def)

lemma offsets_key_inj: "family_key Offsets (as_bytes a) = family_key Offsets (as_bytes b) \<longleftrightarrow> a = b"
  by (simp add: family_key_def as_bytes_inj)

text \<open>A publication that has been applied: its fence is stored, or a newer one is and the
  publication is a repeat.\<close>

definition publish_settled :: "'s StoreOffsetStore \<Rightarrow> 's \<Rightarrow> string \<Rightarrow> u64 \<Rightarrow> u64 \<Rightarrow> string \<Rightarrow> PublishMode \<Rightarrow> bool" where
  "publish_settled env s sk e q h mode \<longleftrightarrow> \<not> is_err (family_get env s Offsets (as_bytes (fence_key sk))) \<and>
     (\<exists>e' q' h'. stored_fence env s sk = Some (e', q', h') \<and>
        ((e', q', h') = (e, q, h) \<or> ((e, q) < (e', q') \<and> mode = Republish)))"

lemma publish_settled_replay:
  assumes "publish_settled env s sk e q h mode"
  shows "publish_wal_commit env s sk bs e q h mode = (s, Inr ())"
proof -
  obtain v e' q' h' where v: "family_get env s Offsets (as_bytes (fence_key sk)) = Inr v"
    "Option.bind v decode_fence = Some (e', q', h')" "(e', q', h') = (e, q, h) \<or> ((e, q) < (e', q') \<and> mode = Republish)"
    using assms unfolding publish_settled_def stored_fence_def is_err_def
    by (cases "family_get env s Offsets (as_bytes (fence_key sk))") auto
  have "decide_wal_publish (Some (e', q', h')) e q h mode = Inr AlreadyApplied"
    using v(3) unfolding decide_wal_publish_iff by auto
  with v show ?thesis by (simp add: publish_wal_commit_def)
qed

context skippr_store
begin

lemma family_get_eq:
  assumes "os_store env = sops"
  shows "family_get env s fam rest = (case fmlookup (rows_of s) (family_key fam rest) of
     Some bs \<Rightarrow> Inr (Some bs)
   | None \<Rightarrow> (case os_sled_fallback env of None \<Rightarrow> Inr None | Some lk \<Rightarrow> map_errR catalog_error_display (lk fam rest)))"
  by (simp add: family_get_def assms get_law)

lemma family_get_cong:
  assumes "os_store env = sops" "fmlookup (rows_of s') (family_key fam rest) = fmlookup (rows_of s) (family_key fam rest)"
  shows "family_get env s' fam rest = family_get env s fam rest"
  using assms by (simp add: family_get_eq)

text \<open>The three outcomes of a publication.\<close>

lemma publish_cases:
  assumes "os_store env = sops" "publish_wal_commit env s sk bs e q h mode = (s', r)"
  obtains (err) err where "r = Inl err" "s' = s"
  | (applied) "r = Inr ()" "s' = s" "publish_settled env s sk e q h mode"
  | (commit) "r = Inr ()" "fence_le (stored_fence env s sk) (Some (e, q, h))"
      "rows_of s' = fmupd (family_key Offsets (as_bytes (fence_key sk))) (encode_fence e q h)
         (fmupd (family_key Offsets (as_bytes sk)) bs (rows_of s))"
      "fence_ok s' = fence_ok s"
proof (cases "family_get env s Offsets (as_bytes (fence_key sk))")
  case (Inr v)
  let ?st = "Option.bind v decode_fence"
  let ?kops = "[KvPut (family_key Offsets (as_bytes sk)) bs,
      KvPut (family_key Offsets (as_bytes (fence_key sk))) (encode_fence e q h)]"
  have st: "stored_fence env s sk = ?st" using Inr by (simp add: stored_fence_def)
  show thesis
  proof (cases "decide_wal_publish ?st e q h mode")
    case (Inl x)
    then show thesis using err assms(2) Inr by (auto simp: publish_wal_commit_def)
  next
    case d: (Inr act)
    show thesis
    proof (cases act)
      case AlreadyApplied
      then obtain e' q' h' where s3: "?st = Some (e', q', h')"
        using d by (cases ?st) (auto simp: decide_wal_publish_def)
      then have "(e', q', h') = (e, q, h) \<or> ((e, q) < (e', q') \<and> mode = Republish)"
        using d AlreadyApplied unfolding s3 by (auto simp: decide_wal_publish_iff(2))
      then have "publish_settled env s sk e q h mode"
        using st s3 Inr by (auto simp: publish_settled_def)
      then show thesis using applied assms(2) Inr d AlreadyApplied by (auto simp: publish_wal_commit_def)
    next
      case Commit
      have le: "fence_le (stored_fence env s sk) (Some (e, q, h))"
        unfolding st using d Commit by (intro decide_commit_newer) simp
      show thesis
      proof (cases "so_commit sops s ?kops (os_fence env)")
        case (Inl x)
        then show thesis using err assms Inr d Commit by (auto simp: publish_wal_commit_def)
      next
        case (Inr t)
        then have "r = Inr ()" "s' = t"
          using assms \<open>family_get env s Offsets (as_bytes (fence_key sk)) = Inr v\<close> d Commit
          by (auto simp: publish_wal_commit_def)
        moreover have "rows_of t = apply_kv_ops ?kops (rows_of s)" "fence_ok t = fence_ok s"
          using commit_Inr[OF Inr] by simp_all
        ultimately show thesis using commit le by (simp add: apply_kv_ops_def)
      qed
    qed
  qed
qed (use err assms(2) in \<open>auto simp: publish_wal_commit_def\<close>)

lemma stored_fence_commit:
  assumes "os_store env = sops" "is_str h"
    "rows_of s' = fmupd (family_key Offsets (as_bytes (fence_key sk))) (encode_fence e q h) m"
  shows "stored_fence env s' sk = Some (e, q, h)" "\<not> is_err (family_get env s' Offsets (as_bytes (fence_key sk)))"
  using assms by (simp_all add: stored_fence_def family_get_eq decode_encode_fence)

lemma family_get_other:
  assumes "os_store env = sops" "sk \<noteq> sk'" "sk' \<noteq> fence_key sk"
    "rows_of s' = fmupd (family_key Offsets (as_bytes (fence_key sk'))) x (fmupd (family_key Offsets (as_bytes sk')) bs (rows_of s))"
  shows "family_get env s' Offsets (as_bytes (fence_key sk)) = family_get env s Offsets (as_bytes (fence_key sk))"
proof -
  have "fence_key sk \<noteq> fence_key sk'" using assms(2) by (simp add: fence_key_def)
  with assms(3) have "fmlookup (rows_of s') (family_key Offsets (as_bytes (fence_key sk)))
      = fmlookup (rows_of s) (family_key Offsets (as_bytes (fence_key sk)))"
    unfolding assms(4) by (simp add: offsets_key_inj)
  then show ?thesis by (rule family_get_cong[OF assms(1)])
qed

lemma publish_fence_mono:
  assumes "os_store env = sops" "publish_wal_commit env s sk' bs e q h mode = (s', r)" "is_str h" "sk' \<noteq> fence_key sk"
  shows "fence_le (stored_fence env s sk) (stored_fence env s' sk)"
  using assms(1,2)
proof (cases rule: publish_cases)
  case commit
  show ?thesis
  proof (cases "sk = sk'")
    case True
    then show ?thesis using commit(2) stored_fence_commit(1)[OF assms(1,3) commit(3)] by simp
  next
    case False
    from family_get_other[OF assms(1) False assms(4) commit(3)] show ?thesis
      by (simp add: stored_fence_def)
  qed
qed simp_all

lemma publish_settles:
  assumes "os_store env = sops" "publish_wal_commit env s sk bs e q h mode = (s', Inr ())" "is_str h"
  shows "publish_settled env s' sk e q h mode"
  using assms(1,2)
proof (cases rule: publish_cases)
  case commit
  then show ?thesis using stored_fence_commit[OF assms(1,3) commit(3)] by (simp add: publish_settled_def)
qed simp_all

text \<open>Publishing more of the same commit keeps a settled publication settled.\<close>

lemma publish_keeps_settled:
  assumes "os_store env = sops" "publish_wal_commit env s sk' bs e q h' mode = (s', r)" "is_str h'"
    "sk' \<noteq> fence_key sk" "publish_settled env s sk e q h mode"
  shows "publish_settled env s' sk e q h mode"
  using assms(1,2)
proof (cases rule: publish_cases)
  case commit
  show ?thesis
  proof (cases "sk = sk'")
    case True
    obtain e1 q1 h1 where f: "stored_fence env s sk = Some (e1, q1, h1)" "(e, q) \<le> (e1, q1)"
      using assms(5) unfolding publish_settled_def by (metis order.refl less_imp_le prod.inject)
    then have "(e1, q1, h1) = (e, q, h')" using commit(2) True by auto
    then have "stored_fence env s' sk = stored_fence env s sk"
      using stored_fence_commit(1)[OF assms(1,3) commit(3)] True f by simp
    then show ?thesis using assms(5) stored_fence_commit(2)[OF assms(1,3) commit(3)] True
      by (simp add: publish_settled_def)
  next
    case False
    from family_get_other[OF assms(1) False assms(4) commit(3)] show ?thesis
      using assms(5) by (simp add: publish_settled_def stored_fence_def)
  qed
qed (use assms(5) in simp_all)

end

section \<open>Publishing all of a commit\<close>

text \<open>Both loops of \<open>publish_committed\<close> as one list of sort keys and payloads.\<close>

fun publish_items ::
  "'s StoreOffsetStore \<Rightarrow> (string \<times> bytes) list \<Rightarrow> u64 \<Rightarrow> u64 \<Rightarrow> PublishMode \<Rightarrow> 's \<Rightarrow> 's \<times> (OffsetPublishError + unit)"
where
  "publish_items env [] e q mode s = (s, Inr ())"
| "publish_items env ((sk, bs) # its) e q mode s =
     (case publish_wal_commit env s sk bs e q (os_sha_hex env bs) mode of
        (s', Inl err) \<Rightarrow> (s', Inl err)
      | (s', Inr _) \<Rightarrow> publish_items env its e q mode s')"

definition commit_items :: "CommittedOffset list \<Rightarrow> CommittedCheckpoint list \<Rightarrow> (string \<times> bytes) list" where
  "commit_items offs cps =
     map (\<lambda>off. (offset_key (off_namespace off) (off_partition off), offset_bytes off)) offs
     @ map (\<lambda>cp. (checkpoint_key (ckp_logical_key cp), ckp_envelope cp)) cps"

definition no_fence_sks :: "(string \<times> bytes) list \<Rightarrow> bool" where
  "no_fence_sks its \<longleftrightarrow> list_all (\<lambda>(sk, _). \<not> prefix ''fence#'' sk) its"

lemma publish_items_append:
  "publish_items env (xs @ ys) e q mode s = (case publish_items env xs e q mode s of
     (s', Inl err) \<Rightarrow> (s', Inl err) | (s', Inr _) \<Rightarrow> publish_items env ys e q mode s')"
  by (induction xs arbitrary: s) (auto split: prod.splits sum.splits)

lemma publish_offsets_items:
  "publish_offsets env offs e q mode s
     = publish_items env (map (\<lambda>off. (offset_key (off_namespace off) (off_partition off), offset_bytes off)) offs) e q mode s"
  by (induction offs arbitrary: s) (simp_all add: Let_def cong: prod.case_cong sum.case_cong)

lemma publish_checkpoints_items:
  "publish_checkpoints env cps e q mode s
     = publish_items env (map (\<lambda>cp. (checkpoint_key (ckp_logical_key cp), ckp_envelope cp)) cps) e q mode s"
  by (induction cps arbitrary: s) (simp_all add: Let_def cong: prod.case_cong sum.case_cong)

lemma publish_committed_items:
  "publish_committed env s offs cps e q mode = publish_items env (commit_items offs cps) e q mode s"
  by (simp add: publish_committed_def publish_offsets_items publish_checkpoints_items commit_items_def
      publish_items_append split: prod.split sum.split)

lemma publish_items_replay:
  "\<forall>(sk, bs)\<in>set its. publish_settled env s sk e q (os_sha_hex env bs) mode \<Longrightarrow>
     publish_items env its e q mode s = (s, Inr ())"
  by (induction its) (auto simp: publish_settled_replay)

lemma not_fence_prefix: "\<not> prefix ''fence#'' sk' \<Longrightarrow> sk' \<noteq> fence_key sk"
  by (auto simp: fence_key_def)

context skippr_store
begin

lemma publish_items_mono:
  assumes env: "os_store env = sops" "\<And>bs. is_str (os_sha_hex env bs)"
    and "no_fence_sks its" "publish_items env its e q mode s = (s', r)"
  shows "fence_le (stored_fence env s sk) (stored_fence env s' sk)"
  using assms(3,4)
proof (induction its arbitrary: s)
  case (Cons it its)
  obtain sk' bs where it: "it = (sk', bs)" by (cases it)
  obtain s1 r1 where p: "publish_wal_commit env s sk' bs e q (os_sha_hex env bs) mode = (s1, r1)"
    by (cases "publish_wal_commit env s sk' bs e q (os_sha_hex env bs) mode")
  have nf: "sk' \<noteq> fence_key sk" "no_fence_sks its"
    using Cons.prems(1) it by (auto simp: no_fence_sks_def dest: not_fence_prefix)
  have le: "fence_le (stored_fence env s sk) (stored_fence env s1 sk)"
    by (rule publish_fence_mono[OF env(1) p env(2) nf(1)])
  show ?case
  proof (cases r1)
    case (Inl x)
    then show ?thesis using Cons.prems(2) p it le by simp
  next
    case (Inr x)
    then have "publish_items env its e q mode s1 = (s', r)" using Cons.prems(2) p it by simp
    from Cons.IH[OF nf(2) this] show ?thesis by (rule fence_le_trans[OF le])
  qed
qed simp

lemma publish_items_settled:
  assumes env: "os_store env = sops" "\<And>bs. is_str (os_sha_hex env bs)"
    and "no_fence_sks its" "publish_items env its e q mode s = (s', r)"
    and "publish_settled env s sk e q h mode"
  shows "publish_settled env s' sk e q h mode"
  using assms(3-5)
proof (induction its arbitrary: s)
  case (Cons it its)
  obtain sk' bs where it: "it = (sk', bs)" by (cases it)
  obtain s1 r1 where p: "publish_wal_commit env s sk' bs e q (os_sha_hex env bs) mode = (s1, r1)"
    by (cases "publish_wal_commit env s sk' bs e q (os_sha_hex env bs) mode")
  have nf: "sk' \<noteq> fence_key sk" "no_fence_sks its"
    using Cons.prems(1) it by (auto simp: no_fence_sks_def dest: not_fence_prefix)
  have s1: "publish_settled env s1 sk e q h mode"
    by (rule publish_keeps_settled[OF env(1) p env(2) nf(1) Cons.prems(3)])
  show ?case
  proof (cases r1)
    case (Inl x)
    then show ?thesis using Cons.prems(2) p it s1 by simp
  next
    case (Inr x)
    then have "publish_items env its e q mode s1 = (s', r)" using Cons.prems(2) p it by simp
    from Cons.IH[OF nf(2) this s1] show ?thesis .
  qed
qed simp

lemma publish_items_all_settled:
  assumes env: "os_store env = sops" "\<And>bs. is_str (os_sha_hex env bs)"
    and "no_fence_sks its" "publish_items env its e q mode s = (s', Inr ())"
  shows "\<forall>(sk, bs)\<in>set its. publish_settled env s' sk e q (os_sha_hex env bs) mode"
  using assms(3,4)
proof (induction its arbitrary: s)
  case (Cons it its)
  obtain sk bs where it: "it = (sk, bs)" by (cases it)
  obtain s1 where p: "publish_wal_commit env s sk bs e q (os_sha_hex env bs) mode = (s1, Inr ())"
    and rest: "publish_items env its e q mode s1 = (s', Inr ())"
    using Cons.prems(2) it by (auto split: prod.splits sum.splits)
  have nf: "no_fence_sks its" using Cons.prems(1) by (simp add: no_fence_sks_def)
  have "publish_settled env s' sk e q (os_sha_hex env bs) mode"
    by (rule publish_items_settled[OF env nf rest publish_settles[OF env(1) p env(2)]])
  then show ?case using Cons.IH[OF nf rest] it by auto
qed simp

lemma reset_published_spec:
  assumes "os_store env = sops" "fence_ok s (os_fence env)"
    "length (btree_entries (rows_of s)) \<le> USIZE_MAX"
  shows "\<exists>s'. reset_published_ingest env s = (s', Inr ()) \<and>
     rows_of s' = fmfilter (\<lambda>kb. \<not> prefix (family_prefix Offsets) kb) (rows_of s)"
proof -
  let ?es = "filter (\<lambda>(k, v). prefix (family_prefix Offsets) k) (btree_entries (rows_of s))"
  have "length ?es \<le> USIZE_MAX" using length_filter_le[of _ "btree_entries (rows_of s)"] assms(3) by (rule order_trans)
  then have page: "page_of (rows_of s) (family_prefix Offsets) None USIZE_MAX = ?es"
    by (simp add: page_of_def max_def USIZE_MAX_def split: if_splits del: family_prefix.simps)
  have rows: "fmdrop_set (set (map fst ?es)) (rows_of s) = fmfilter (\<lambda>kb. \<not> prefix (family_prefix Offsets) kb) (rows_of s)"
  proof (rule fmap_ext)
    fix kb
    have "kb \<in> set (map fst ?es) \<longleftrightarrow> prefix (family_prefix Offsets) kb \<and> fmlookup (rows_of s) kb \<noteq> None"
      by (force simp: btree_entries_set image_iff simp del: family_prefix.simps)
    then show "fmlookup (fmdrop_set (set (map fst ?es)) (rows_of s)) kb
        = fmlookup (fmfilter (\<lambda>kb. \<not> prefix (family_prefix Offsets) kb) (rows_of s)) kb"
      by (simp del: family_prefix.simps set_map)
  qed
  have kops: "map (\<lambda>(key, _). KvDelete key) ?es = map KvDelete (map fst ?es)" by auto
  show ?thesis
  proof (cases "?es = []")
    case True
    then show ?thesis using rows unfolding reset_published_ingest_def assms(1) query_law page
      by (simp add: os_flush_def assms(1) flush_law del: family_prefix.simps)
  next
    case False
    obtain s' where "so_commit sops s (map KvDelete (map fst ?es)) (os_fence env) = Inr s'"
      "rows_of s' = fmdrop_set (set (map fst ?es)) (rows_of s)"
      using commit_law[OF assms(2), of "map KvDelete (map fst ?es)"] unfolding apply_kv_deletes by blast
    then show ?thesis using False rows
      unfolding reset_published_ingest_def assms(1) query_law page
      by (simp add: kops os_flush_def assms(1) flush_law del: family_prefix.simps map_map)
  qed
qed

end

section \<open>Properties\<close>


abbreviation sample_env :: "memory_store StoreOffsetStore" where
  "sample_env \<equiv> \<lparr>os_store = memory_ops, os_fence = fence_local, os_sled_fallback = None,
     os_sha_hex = (\<lambda>bs. show_nat (le_val bs))\<rparr>"

lemma sample_sha_str: "is_str (os_sha_hex sample_env bs)"
proof -
  have "ascii (show_nat (le_val bs))"
    using show_nat_digits[of "le_val bs"] by (auto simp: ascii_def list_all_iff is_digit_def)
  then show ?thesis by (simp add: is_str_ascii)
qed

abbreviation sample_offset :: CommittedOffset where
  "sample_offset \<equiv> \<lparr>off_namespace = ''ns'', off_partition = ''p'', off_filesize = 10, off_position = 4, off_closed = 0\<rparr>"

lemma sample_no_fence: "no_fence_sks (commit_items [sample_offset] [])"
  by (simp add: no_fence_sks_def commit_items_def offset_key_def)


text \<open>Recovery may publish a commit again: after a successful publication of a commit's offsets
  and checkpoints, publishing the same commit a second time succeeds and changes nothing.\<close>

theorem publish_committed_idempotent:
  assumes "os_store env = memory_ops" "\<And>bs. is_str (os_sha_hex env bs)"
    "no_fence_sks (commit_items offs cps)" "publish_committed env s offs cps e q mode = (s', Inr ())"
  shows "publish_committed env s' offs cps e q mode = (s', Inr ())"
  using mem.publish_items_all_settled[OF assms(1,2,3)] assms(4)
  unfolding publish_committed_items by (intro publish_items_replay) blast

lemma sample_publish:
  "\<exists>s'. publish_committed sample_env (memory_open fence_local) [sample_offset] [] 1 7 Fresh = (s', Inr ())"
proof -
  have "mem_rows (memory_open fence_local) = fmempty" "check_fence (memory_open fence_local) fence_local = Inr ()"
    using memory_open_props(1)[of fence_local] by (simp_all add: memory_open_props memory_fence_ok_def)
  then show ?thesis
    by (simp add: publish_committed_def publish_wal_commit_def family_get_def memory_ops_def memory_get_def
        memory_commit_def decide_wal_publish_def Let_def)
qed

theorem publish_committed_idempotent_witness:
  "\<exists>s'. publish_committed sample_env (memory_open fence_local) [sample_offset] [] 1 7 Fresh = (s', Inr ())
     \<and> publish_committed sample_env s' [sample_offset] [] 1 7 Fresh = (s', Inr ())"
proof -
  obtain s' where s': "publish_committed sample_env (memory_open fence_local) [sample_offset] [] 1 7 Fresh = (s', Inr ())"
    using sample_publish by blast
  have "publish_committed sample_env s' [sample_offset] [] 1 7 Fresh = (s', Inr ())"
    by (rule publish_committed_idempotent[OF _ sample_sha_str sample_no_fence s']) simp
  then show ?thesis using s' by blast
qed

text \<open>Payload and fence of a publication are written together: a publication that fails leaves
  the store as it was, and one that succeeds either finds its fence (or, when republishing, a
  newer one) already stored and changes nothing, or leaves exactly its payload under the sort
  key and its tuple as the fence.\<close>

theorem publish_payload_with_fence:
  assumes "os_store env = memory_ops" "is_str h" "publish_wal_commit env s sk bs e q h mode = (s', r)"
  shows "(is_err r \<and> s' = s) \<or> (r = Inr () \<and> s' = s \<and> publish_settled env s sk e q h mode)
     \<or> (r = Inr () \<and> get_bytes env s' sk = Inr (Some bs) \<and> stored_fence env s' sk = Some (e, q, h))"
  using assms(1,3)
proof (cases rule: mem.publish_cases)
  case commit
  then have "get_bytes env s' sk = Inr (Some bs)"
    using fence_key_neq[of sk] by (simp add: get_bytes_def mem.family_get_eq[OF assms(1)] offsets_key_inj)
  then show ?thesis using commit mem.stored_fence_commit(1)[OF assms(1,2) commit(3)] by simp
qed simp_all

theorem publish_payload_with_fence_witness:
  "\<exists>s' r. publish_wal_commit sample_env (memory_open fence_local) ''ns-p'' [1] 1 7 ''ab'' Fresh = (s', r) \<and>
     ((is_err r \<and> s' = memory_open fence_local)
      \<or> (r = Inr () \<and> s' = memory_open fence_local \<and> publish_settled sample_env (memory_open fence_local) ''ns-p'' 1 7 ''ab'' Fresh)
      \<or> (r = Inr () \<and> get_bytes sample_env s' ''ns-p'' = Inr (Some [1]) \<and> stored_fence sample_env s' ''ns-p'' = Some (1, 7, ''ab'')))"
proof -
  have "is_str ''ab''" by (rule is_str_ascii) (simp add: ascii_def)
  from publish_payload_with_fence[OF _ this surjective_pairing, of sample_env] show ?thesis
    by (metis StoreOffsetStore.select_convs(1) surjective_pairing)
qed

text \<open>Resetting published ingest state removes every entry of the offsets family and nothing else.\<close>

theorem reset_published_ingest_clears:
  assumes "os_store env = memory_ops" "memory_fence_ok s (os_fence env)"
    "length (btree_entries (mem_rows s)) \<le> USIZE_MAX"
  shows "\<exists>s'. reset_published_ingest env s = (s', Inr ()) \<and>
     mem_rows s' = fmfilter (\<lambda>kb. \<not> prefix (family_prefix Offsets) kb) (mem_rows s)"
  by (rule mem.reset_published_spec[OF assms])

theorem reset_published_ingest_clears_witness:
  "\<exists>s'. reset_published_ingest sample_env (memory_open fence_local) = (s', Inr ()) \<and>
     mem_rows s' = fmfilter (\<lambda>kb. \<not> prefix (family_prefix Offsets) kb) (mem_rows (memory_open fence_local))"
  by (rule reset_published_ingest_clears)
    (simp_all add: memory_open_props btree_entries_def sorted_list_of_fset.rep_eq)

text \<open>C37. Distinct partitions can share one sort key, because namespace and partition are joined by a
  plain hyphen; publishing both in one commit with different positions is then refused as
  corrupt.\<close>

theorem offset_key_collision:
  assumes "os_store env = memory_ops" "is_str h" "h \<noteq> h'"
    "publish_wal_commit env s (offset_key ''a-b'' ''c'') bs e q h Fresh = (s', Inr ())"
  shows "offset_key ''a-b'' ''c'' = offset_key ''a'' ''b-c''
     \<and> snd (publish_wal_commit env s' (offset_key ''a'' ''b-c'') bs' e q h' Fresh)
         = Inl (Corrupt ''same WAL tuple with different hash'')"
proof -
  have eq: "offset_key ''a'' ''b-c'' = offset_key ''a-b'' ''c''" by (simp add: offset_key_def)
  have "publish_settled env s' (offset_key ''a-b'' ''c'') e q h Fresh"
    by (rule mem.publish_settles[OF assms(1,4,2)])
  then obtain v where "family_get env s' Offsets (as_bytes (fence_key (offset_key ''a-b'' ''c''))) = Inr v"
    "Option.bind v decode_fence = Some (e, q, h)"
    by (cases "family_get env s' Offsets (as_bytes (fence_key (offset_key ''a-b'' ''c'')))")
      (auto simp: publish_settled_def stored_fence_def)
  then show ?thesis unfolding eq using assms(3) by (simp add: publish_wal_commit_def decide_wal_publish_def)
qed

theorem offset_key_collision_witness:
  "\<exists>s'. snd (publish_wal_commit sample_env s' (offset_key ''a'' ''b-c'') [2] 1 7 ''cd'' Fresh)
     = Inl (Corrupt ''same WAL tuple with different hash'')"
proof -
  have "mem_rows (memory_open fence_local) = fmempty" "check_fence (memory_open fence_local) fence_local = Inr ()"
    using memory_open_props(1)[of fence_local] by (simp_all add: memory_open_props memory_fence_ok_def)
  then have "\<exists>s'. publish_wal_commit sample_env (memory_open fence_local) (offset_key ''a-b'' ''c'') [1] 1 7 ''ab'' Fresh = (s', Inr ())"
    by (simp add: publish_wal_commit_def family_get_def memory_ops_def memory_get_def
        memory_commit_def decide_wal_publish_def)
  then obtain s' where s': "publish_wal_commit sample_env (memory_open fence_local) (offset_key ''a-b'' ''c'') [1] 1 7 ''ab'' Fresh = (s', Inr ())" ..
  have "is_str ''ab''" by (rule is_str_ascii) (simp add: ascii_def)
  from offset_key_collision[OF _ this _ s', of "''cd''" "[2]"] show ?thesis by auto
qed

text \<open>Updating one field of an offset value keeps the other two and the 24-byte layout; with
  \<open>position_max\<close> the position never goes back. Bytes of another length are refused.\<close>

theorem apply_offset_field_spec:
  "(\<forall>v. read_offset_value bs = Some v \<longrightarrow> (\<exists>bs' v'. apply_offset_field (Some bs) ty n pm = Inr bs' \<and> read_offset_value bs' = Some v'
      \<and> ov_filesize v' = (if ty = Filesize then n else ov_filesize v)
      \<and> ov_line v' = (if ty = Position then (if pm then max (ov_line v) n else n) else ov_line v)
      \<and> ov_closed v' = (if ty = Closed then n else ov_closed v)))
   \<and> (length bs \<noteq> 24 \<longrightarrow> apply_offset_field (Some bs) ty n pm = Inl ''offset bytes do not fit schema'')"
proof -
  have rt: "read_offset_value (offset_value_bytes v) = Some v" for v
    by (simp add: read_offset_value_def offset_value_bytes_def)
  have "length bs \<noteq> 24 \<Longrightarrow> read_offset_value bs = None" by (simp add: read_offset_value_def)
  then show ?thesis by (cases ty) (auto simp: apply_offset_field_def Let_def rt)
qed

theorem apply_offset_field_spec_witness:
  "\<exists>bs'. apply_offset_field (Some (offset_value_bytes \<lparr>ov_filesize = 1, ov_line = 9, ov_closed = 0\<rparr>)) Position 4 True = Inr bs'"
proof -
  have "read_offset_value (offset_value_bytes \<lparr>ov_filesize = 1, ov_line = 9, ov_closed = 0\<rparr>)
      = Some \<lparr>ov_filesize = 1, ov_line = 9, ov_closed = 0\<rparr>"
    by (simp add: read_offset_value_def offset_value_bytes_def)
  then show ?thesis using apply_offset_field_spec by blast
qed

end
