(* ===== verification/Formats.thy ===== *)
theory Formats
  imports Prelude
begin

text \<open>
  Pipeline types and encodings: \<^verbatim>\<open>src/src/pipeline_type.rs\<close>,
  \<^verbatim>\<open>src/src/serdes/input_format.rs\<close> and \<^verbatim>\<open>src/src/serdes/output_format.rs\<close>. The
  resolution of a sink's output format decides whether a pipeline may start, so the lemmas
  give the exact set of formats it can return. Log output (the one-time deprecation warning)
  and the JSON Lines encoder are not modelled.
\<close>

section \<open>Pipeline types\<close>

datatype PipelineType = Ingest | Copy | Cdc

definition COPY_WAL_FINGERPRINT :: string where "COPY_WAL_FINGERPRINT = ''copy''"

definition pipeline_type_ALL :: "PipelineType list" where
  "pipeline_type_ALL = [Ingest, Copy, Cdc]"

fun pipeline_type_as_str :: "PipelineType \<Rightarrow> string" where
  "pipeline_type_as_str Ingest = ''ingest''"
| "pipeline_type_as_str Copy = ''copy''"
| "pipeline_type_as_str Cdc = ''cdc''"

definition deadletter_format_mode :: PipelineType where "deadletter_format_mode = Ingest"

definition pipeline_type_parse :: "string \<Rightarrow> PipelineType option" where
  "pipeline_type_parse raw = (let s = to_ascii_lowercase (trim raw) in
     if s = ''ingest'' then Some Ingest
     else if s = ''copy'' then Some Copy
     else if s = ''cdc'' then Some Cdc
     else None)"

definition pipeline_type_try_from :: "string \<Rightarrow> string + PipelineType" where
  "pipeline_type_try_from raw = (case pipeline_type_parse raw of
      Some t \<Rightarrow> Inr t
    | None \<Rightarrow> Inl (''unknown pipeline type '' @ squote @ raw @ squote
        @ ''; expected one of ['' @ [CHR 0x22] @ ''ingest'' @ [CHR 0x22] @ '', '' @ [CHR 0x22] @ ''copy''
        @ [CHR 0x22] @ '', '' @ [CHR 0x22] @ ''cdc'' @ [CHR 0x22] @ '']''))"

text \<open>The wire form: text on a human-readable serializer, otherwise the 32-bit discriminant.\<close>

datatype wire_value = WireStr string | WireU32 u32

fun pipeline_type_tag :: "PipelineType \<Rightarrow> u32" where
  "pipeline_type_tag Ingest = 0"
| "pipeline_type_tag Copy = 1"
| "pipeline_type_tag Cdc = 2"

definition wire_serialize :: "bool \<Rightarrow> PipelineType \<Rightarrow> wire_value" where
  "wire_serialize human_readable value =
     (if human_readable then WireStr (pipeline_type_as_str value)
      else WireU32 (pipeline_type_tag value))"

fun wire_deserialize :: "wire_value \<Rightarrow> string + PipelineType" where
  "wire_deserialize (WireStr raw) = pipeline_type_try_from raw"
| "wire_deserialize (WireU32 n) =
     (if n = 0 then Inr Ingest else if n = 1 then Inr Copy else if n = 2 then Inr Cdc
      else Inl (''invalid value: integer `'' @ show_nat (unat n)
             @ ''`, expected pipeline type tag 0=ingest, 1=copy, 2=cdc''))"

definition resolve_pipeline_type :: "PipelineType option \<Rightarrow> bool \<Rightarrow> string + PipelineType" where
  "resolve_pipeline_type declared has_cdc_block = (case (declared, has_cdc_block) of
      (None, False) \<Rightarrow> Inr Ingest
    | (None, True) \<Rightarrow> Inr Cdc
    | (Some Ingest, True) \<Rightarrow> Inl ''type: ingest cannot include a cdc: block; set type: cdc or remove cdc:''
    | (Some Copy, True) \<Rightarrow> Inl ''type: copy cannot include a cdc: block''
    | (Some kind, _) \<Rightarrow> Inr kind)"

section \<open>Input formats\<close>

datatype InputFormat = InArrowIpc | InParquet | InAvro | InCsv | InXml | InJson

definition input_format_from :: "string \<Rightarrow> InputFormat" where
  "input_format_from value = (let s = to_ascii_lowercase (trim value) in
     if s = ''arrow'' \<or> s = ''arrow_ipc'' \<or> s = ''arrow-ipc'' \<or> s = ''ipc'' then InArrowIpc
     else if s = ''parquet'' then InParquet
     else if s = ''avro'' then InAvro
     else if s = ''csv'' then InCsv
     else if s = ''xml'' then InXml
     else InJson)"

definition input_format_from_option :: "string option \<Rightarrow> InputFormat" where
  "input_format_from_option value = (case value of Some v \<Rightarrow> input_format_from v | None \<Rightarrow> InJson)"

definition default_for_source_plugin :: "string \<Rightarrow> InputFormat" where
  "default_for_source_plugin plugin_name = (if plugin_name = ''Otlp'' then InArrowIpc else InJson)"

definition requires_whole_payload :: "InputFormat \<Rightarrow> bool" where
  "requires_whole_payload f \<longleftrightarrow> f \<in> {InArrowIpc, InParquet, InAvro, InCsv, InXml}"

definition is_text :: "InputFormat \<Rightarrow> bool" where
  "is_text f \<longleftrightarrow> f \<in> {InJson, InCsv, InXml}"

definition is_schema_arrow :: "InputFormat \<Rightarrow> bool" where
  "is_schema_arrow f \<longleftrightarrow> f \<in> {InArrowIpc, InParquet, InAvro}"

fun input_format_as_str :: "InputFormat \<Rightarrow> string" where
  "input_format_as_str InArrowIpc = ''arrow_ipc''"
| "input_format_as_str InParquet = ''parquet''"
| "input_format_as_str InAvro = ''avro''"
| "input_format_as_str InCsv = ''csv''"
| "input_format_as_str InXml = ''xml''"
| "input_format_as_str InJson = ''json''"

section \<open>Output formats\<close>

datatype OutputFormat = Native | Parquet | Jsonl | Csv | Xml
datatype ObjectBody = Grouped | Identity

definition is_native :: "OutputFormat \<Rightarrow> bool" where "is_native f \<longleftrightarrow> f = Native"

definition is_native_set :: "OutputFormat list \<Rightarrow> bool" where
  "is_native_set supported \<longleftrightarrow> supported \<noteq> [] \<and> list_all is_native supported"

fun extension :: "OutputFormat \<Rightarrow> string" where
  "extension Parquet = ''parquet''"
| "extension Jsonl = ''jsonl''"
| "extension Csv = ''csv''"
| "extension Xml = ''xml''"
| "extension Native = []"

fun content_type :: "OutputFormat \<Rightarrow> string" where
  "content_type Parquet = ''application/vnd.apache.parquet''"
| "content_type Jsonl = ''application/x-ndjson''"
| "content_type Csv = ''text/csv''"
| "content_type Xml = ''application/xml''"
| "content_type Native = ''application/octet-stream''"

definition is_gzip_body :: "OutputFormat \<Rightarrow> ObjectBody \<Rightarrow> bool" where
  "is_gzip_body f body \<longleftrightarrow> body = Identity \<and> f = Jsonl"

definition object_extension :: "OutputFormat \<Rightarrow> ObjectBody \<Rightarrow> string" where
  "object_extension f body = (if is_gzip_body f body then ''jsonl.gz'' else extension f)"

definition object_content_type :: "OutputFormat \<Rightarrow> ObjectBody \<Rightarrow> string" where
  "object_content_type f body = (if is_gzip_body f body then ''application/gzip'' else content_type f)"

fun output_format_as_str :: "OutputFormat \<Rightarrow> string" where
  "output_format_as_str Native = ''native''"
| "output_format_as_str Parquet = ''parquet''"
| "output_format_as_str Jsonl = ''jsonl''"
| "output_format_as_str Csv = ''csv''"
| "output_format_as_str Xml = ''xml''"

fun legal_for :: "OutputFormat \<Rightarrow> PipelineType \<Rightarrow> bool" where
  "legal_for f Copy = (f \<in> {Jsonl, Csv, Xml})"
| "legal_for f Ingest = (f \<in> {Parquet, Jsonl})"
| "legal_for f Cdc = (f \<in> {Parquet, Jsonl})"

definition supports_copy_identity :: "OutputFormat list \<Rightarrow> bool" where
  "supports_copy_identity supported \<longleftrightarrow> Csv \<in> set supported \<and> Xml \<in> set supported"

fun default_for_copy_source :: "InputFormat \<Rightarrow> OutputFormat" where
  "default_for_copy_source InJson = Jsonl"
| "default_for_copy_source InArrowIpc = Jsonl"
| "default_for_copy_source InParquet = Jsonl"
| "default_for_copy_source InAvro = Jsonl"
| "default_for_copy_source InCsv = Csv"
| "default_for_copy_source InXml = Xml"

definition parse_output_format :: "string \<Rightarrow> string + OutputFormat" where
  "parse_output_format value = (let s = to_ascii_lowercase (trim value) in
     if s = ''parquet'' then Inr Parquet
     else if s = ''jsonl'' \<or> s = ''json'' then Inr Jsonl
     else if s = ''csv'' then Inr Csv
     else if s = ''xml'' then Inr Xml
     else if s = ''native'' \<or> s = ''n/a'' \<or> s = ''na'' \<or> s = ''null'' then
       Inl (squote @ value @ squote @ '' is not a file format. Use parquet, jsonl, csv, or xml for file sinks, or omit format on table sinks (Postgres, Snowflake, Iceberg lakes).'')
     else Inl (''unknown output format '' @ squote @ s @ squote @ ''. File sinks accept parquet, jsonl, csv, or xml.''))"

definition table_sink_rejects_format :: "string \<Rightarrow> string \<Rightarrow> string" where
  "table_sink_rejects_format plugin_name configured =
     ''data sink '' @ squote @ plugin_name @ squote
     @ '' writes rows into tables, not Parquet or JSON Lines files, so `format` does not apply. Remove `format: ''
     @ configured @ ''` from the sink config.''"

definition trimmed_setting :: "string option \<Rightarrow> string option" where
  "trimmed_setting configured = (case configured of
      None \<Rightarrow> None
    | Some v \<Rightarrow> if trim v = [] then None else Some (trim v))"

definition supported_names :: "OutputFormat list \<Rightarrow> string" where
  "supported_names supported = join '', '' (map output_format_as_str supported)"

definition choose_format ::
  "string \<Rightarrow> OutputFormat list \<Rightarrow> OutputFormat option \<Rightarrow> string option \<Rightarrow> PipelineType \<Rightarrow> InputFormat option \<Rightarrow> string + OutputFormat"
where
  "choose_format plugin_name supported default_format setting pipeline source = (case setting of
      None \<Rightarrow>
        (if pipeline = Copy then
           (case source of
              None \<Rightarrow> Inl (''type: copy requires an explicit sink format on '' @ squote @ plugin_name @ squote
                        @ '' when the source format is unknown'')
            | Some src \<Rightarrow>
                (let family = default_for_copy_source src in
                 if family \<in> set supported then Inr family
                 else Inl (''type: copy default format '' @ squote @ output_format_as_str family @ squote
                   @ '' is not supported by '' @ squote @ plugin_name @ squote @ ''. Set format: to one of ''
                   @ supported_names supported)))
         else (case default_format of
              Some f \<Rightarrow> Inr f
            | None \<Rightarrow> Inl (''data sink '' @ squote @ plugin_name @ squote @ '' declares formats but has no default_format'')))
    | Some raw \<Rightarrow> parse_output_format raw)"

definition resolve_output_format ::
  "string \<Rightarrow> OutputFormat list \<Rightarrow> OutputFormat option \<Rightarrow> string option \<Rightarrow> PipelineType \<Rightarrow> InputFormat option
     \<Rightarrow> string + OutputFormat option"
where
  "resolve_output_format plugin_name supported default_format configured pipeline source =
     (if is_native_set supported then
        (if pipeline = Copy then Inl (''type: copy cannot write to table sink '' @ squote @ plugin_name @ squote)
         else (case trimmed_setting configured of
            Some c \<Rightarrow> Inl (table_sink_rejects_format plugin_name c)
          | None \<Rightarrow> Inr None))
      else if list_ex is_native supported then
        Inl (''data sink '' @ squote @ plugin_name @ squote @ '' listed both table encoding (writes rows, no files) and file encodings. Use only Native for table sinks, or only file encodings for file sinks.'')
      else if supported = [] then
        Inl (''data sink '' @ squote @ plugin_name @ squote @ '' declares no supported_formats'')
      else if pipeline = Copy \<and> \<not> supports_copy_identity supported then
        Inl (''type: copy cannot write to '' @ squote @ plugin_name @ squote @ ''; use S3, GCS, AzureBlob, File, or SFTP'')
      else bindR (choose_format plugin_name supported default_format (trimmed_setting configured) pipeline source)
        (\<lambda>resolved.
          if \<not> legal_for resolved pipeline then
            Inl (''pipeline type '' @ pipeline_type_as_str pipeline @ '' does not allow format '' @ squote
              @ output_format_as_str resolved @ squote @ '' on '' @ squote @ plugin_name @ squote)
          else if is_native resolved \<or> resolved \<notin> set supported then
            Inl (''data sink '' @ squote @ plugin_name @ squote @ '' does not support format '' @ squote
              @ output_format_as_str resolved @ squote @ ''. Supported: '' @ supported_names supported)
          else Inr (Some resolved)))"

section \<open>Lemmas\<close>

lemma lowercase_as_str: "to_ascii_lowercase (pipeline_type_as_str t) = pipeline_type_as_str t"
  by (cases t) (simp_all add: to_ascii_lowercase_def)

lemma trim_as_str: "trim (pipeline_type_as_str t) = pipeline_type_as_str t"
  by (intro trim_visible; cases t; simp add: not_ws_def)

lemma pipeline_type_parse_as_str: "pipeline_type_parse (pipeline_type_as_str t) = Some t"
  unfolding pipeline_type_parse_def trim_as_str lowercase_as_str by (cases t) simp_all

lemma parse_output_format_not_native: "parse_output_format v = Inr f \<Longrightarrow> f \<noteq> Native"
  by (auto simp: parse_output_format_def Let_def split: if_splits)

lemma resolve_file_Inr:
  assumes "resolve_output_format pl fs d c p src = Inr (Some f)"
  shows "\<not> is_native_set fs" "fs \<noteq> []" "Native \<notin> set fs" "legal_for f p" "f \<in> set fs" "f \<noteq> Native"
    "p = Copy \<longrightarrow> Csv \<in> set fs \<and> Xml \<in> set fs"
    "choose_format pl fs d (trimmed_setting c) p src = Inr f"
  using assms unfolding resolve_output_format_def
  by (auto simp: bindR_Inr_iff list_ex_iff is_native_def supports_copy_identity_def
      split: if_splits option.splits)

lemma resolve_table_Inr:
  "resolve_output_format pl fs d c p src = Inr None \<longleftrightarrow> is_native_set fs \<and> p \<noteq> Copy \<and> trimmed_setting c = None"
  unfolding resolve_output_format_def
  by (auto simp: bindR_Inr_iff split: if_splits option.splits)

section \<open>Properties\<close>

text \<open>A resolved output format is always one the sink declares, legal for the pipeline type and a
  file format, and it is the configured one when the setting is not blank; a sink that gets no
  format is a table sink of a pipeline that is not a copy and whose setting is blank.\<close>

theorem resolved_format_is_sound:
  "(\<forall>f. resolve_output_format pl fs d c p src = Inr (Some f) \<longrightarrow>
      f \<in> set fs \<and> legal_for f p \<and> f \<noteq> Native \<and> Native \<notin> set fs
      \<and> (\<forall>raw. trimmed_setting c = Some raw \<longrightarrow> parse_output_format raw = Inr f)
      \<and> (trimmed_setting c = None \<longrightarrow> p \<noteq> Copy \<longrightarrow> d = Some f)
      \<and> (trimmed_setting c = None \<longrightarrow> p = Copy \<longrightarrow> (\<exists>s. src = Some s \<and> f = default_for_copy_source s)))
   \<and> (resolve_output_format pl fs d c p src = Inr None \<longleftrightarrow>
      is_native_set fs \<and> p \<noteq> Copy \<and> trimmed_setting c = None)"
proof (intro conjI allI impI)
  fix f assume r: "resolve_output_format pl fs d c p src = Inr (Some f)"
  note s = resolve_file_Inr[OF r]
  show "f \<in> set fs" "legal_for f p" "f \<noteq> Native" "Native \<notin> set fs" using s by simp_all
  show "parse_output_format raw = Inr f" if "trimmed_setting c = Some raw" for raw
    using s(8) that by (simp add: choose_format_def)
  show "d = Some f" if "trimmed_setting c = None" "p \<noteq> Copy"
    using s(8) that by (simp add: choose_format_def split: option.splits)
  show "\<exists>x. src = Some x \<and> f = default_for_copy_source x" if "trimmed_setting c = None" "p = Copy"
    using s(8) that by (auto simp: choose_format_def Let_def split: option.splits if_splits)
qed (rule resolve_table_Inr)

theorem resolved_format_is_sound_witness:
  "resolve_output_format ''S3'' [Parquet, Jsonl, Csv, Xml] (Some Parquet) None Copy (Some InCsv) = Inr (Some Csv)
   \<and> Csv \<in> set [Parquet, Jsonl, Csv, Xml] \<and> legal_for Csv Copy"
proof -
  have "resolve_output_format ''S3'' [Parquet, Jsonl, Csv, Xml] (Some Parquet) None Copy (Some InCsv) = Inr (Some Csv)"
    by (simp add: resolve_output_format_def is_native_set_def is_native_def supports_copy_identity_def
        trimmed_setting_def choose_format_def)
  with resolved_format_is_sound[of "''S3''" "[Parquet, Jsonl, Csv, Xml]" "Some Parquet" None Copy "Some InCsv"]
  show ?thesis by blast
qed

text \<open>A pipeline type survives both wire forms, and the binary form rejects every other tag.\<close>

theorem pipeline_type_wire_roundtrip:
  "wire_deserialize (wire_serialize hr t) = Inr t
   \<and> (is_err (wire_deserialize (WireU32 n)) \<longleftrightarrow> n \<notin> pipeline_type_tag ` set pipeline_type_ALL)"
proof
  show "wire_deserialize (wire_serialize hr t) = Inr t"
    by (cases hr; cases t)
      (simp_all add: wire_serialize_def pipeline_type_try_from_def
        pipeline_type_parse_as_str[of Ingest, simplified] pipeline_type_parse_as_str[of Copy, simplified]
        pipeline_type_parse_as_str[of Cdc, simplified])
  show "is_err (wire_deserialize (WireU32 n)) \<longleftrightarrow> n \<notin> pipeline_type_tag ` set pipeline_type_ALL"
    by (auto simp: pipeline_type_ALL_def)
qed

text \<open>Resolving the pipeline type keeps a declaration unless it is ingest or copy beside a CDC
  block, which is refused, and without a declaration it is CDC exactly when there is a block.\<close>

theorem resolve_pipeline_type_spec:
  "resolve_pipeline_type declared has_cdc = Inr t \<longleftrightarrow>
     (declared = Some t \<and> (t = Cdc \<or> has_cdc = False)) \<or> (declared = None \<and> t = (if has_cdc then Cdc else Ingest))"
  by (cases declared; cases has_cdc; cases "the declared") (auto simp: resolve_pipeline_type_def)

end
