(* ===== verification/Sink_Semantics.thy ===== *)
theory Sink_Semantics
  imports Prelude
begin

text \<open>
  How a sink may be retried and grouped (the enumerations at the head of
  \<^verbatim>\<open>src/src/buffer/compaction_transaction.rs\<close>), and the \<open>const\<close> predicates on them.
\<close>

datatype SinkRetrySemantics =
    TransactionalIdempotent | DeterministicOverwrite | FinalStateIdempotent | AtLeastOnce | NonRetryable

fun retry_equals :: "SinkRetrySemantics \<Rightarrow> SinkRetrySemantics \<Rightarrow> bool" where
  "retry_equals TransactionalIdempotent TransactionalIdempotent = True"
| "retry_equals DeterministicOverwrite DeterministicOverwrite = True"
| "retry_equals FinalStateIdempotent FinalStateIdempotent = True"
| "retry_equals AtLeastOnce AtLeastOnce = True"
| "retry_equals NonRetryable NonRetryable = True"
| "retry_equals _ _ = False"

fun requires_idempotent_replay :: "SinkRetrySemantics \<Rightarrow> bool" where
  "requires_idempotent_replay TransactionalIdempotent = True"
| "requires_idempotent_replay DeterministicOverwrite = True"
| "requires_idempotent_replay FinalStateIdempotent = True"
| "requires_idempotent_replay AtLeastOnce = False"
| "requires_idempotent_replay NonRetryable = False"

fun grouped_writes_are_exact_once :: "SinkRetrySemantics \<Rightarrow> bool" where
  "grouped_writes_are_exact_once TransactionalIdempotent = True"
| "grouped_writes_are_exact_once FinalStateIdempotent = True"
| "grouped_writes_are_exact_once DeterministicOverwrite = False"
| "grouped_writes_are_exact_once AtLeastOnce = False"
| "grouped_writes_are_exact_once NonRetryable = False"

datatype SinkGroupingSupport = NoGrouping | AppendOnlyBatches | CdcEncodedBatches | FinalStateBatches

fun grouping_is_none :: "SinkGroupingSupport \<Rightarrow> bool" where
  "grouping_is_none NoGrouping = True"
| "grouping_is_none AppendOnlyBatches = False"
| "grouping_is_none CdcEncodedBatches = False"
| "grouping_is_none FinalStateBatches = False"

fun grouping_equals :: "SinkGroupingSupport \<Rightarrow> SinkGroupingSupport \<Rightarrow> bool" where
  "grouping_equals NoGrouping NoGrouping = True"
| "grouping_equals AppendOnlyBatches AppendOnlyBatches = True"
| "grouping_equals CdcEncodedBatches CdcEncodedBatches = True"
| "grouping_equals FinalStateBatches FinalStateBatches = True"
| "grouping_equals _ _ = False"

datatype SinkWriteSemantics = ExactOnce | IdempotentAtLeastOnce | WriteAtLeastOnce

lemma retry_equals_eq [simp]: "retry_equals a b \<longleftrightarrow> a = b"
  by (cases a; cases b) simp_all

lemma grouping_equals_eq [simp]: "grouping_equals a b \<longleftrightarrow> a = b"
  by (cases a; cases b) simp_all

lemma exact_once_is_idempotent: "grouped_writes_are_exact_once r \<Longrightarrow> requires_idempotent_replay r"
  by (cases r) simp_all

end
