(* ===== verification/Cdc_Contracts.thy ===== *)
theory Cdc_Contracts
  imports Lease Formats Sink_Semantics
begin

text \<open>
  Change-data-capture contracts (\<^verbatim>\<open>src/src/plugins/cdc.rs\<close>): the resolution of business keys,
  the per-pipeline contract map, checkpoint envelopes, the WAL part metadata and its
  validation, the capability descriptors and the derivation of the effective guarantee. The
  capability tables of the built-in connectors are in \<open>Cdc_Connectors\<close>.

  The global contract map is explicit state; \<open>None\<close> stands for a poisoned lock. Serialization
  by bincode is a parameter.
\<close>

section \<open>Capability descriptors\<close>

datatype SourceOrderModel = GlobalTotalOrder | StableKeyScopedOrder | UnsupportedForFinalState

datatype SourceGuaranteeTier =
    SnapshotThenLogExactOnce | LogStreamExactOnce | EventIdentityEligible | IncrementalOnly
  | UserSuppliedIdentityOnly | SourceUnsupported

datatype SourceCheckpointStyle = LogNative | CursorBased | ObjectIdentity | MessageIdentity | NoCheckpoint
datatype SourceBootstrapStyle = AnchoredSnapshot | FullScan | StreamOnly | NoBootstrap
datatype EventIdSemantics = LogPosition | MessageId | ObjectPath | UserSupplied | NoEventId

record SourceCapability =
  src_name :: string
  src_guarantee_tier :: SourceGuaranteeTier
  checkpoint_style :: SourceCheckpointStyle
  bootstrap_style :: SourceBootstrapStyle
  order_model :: SourceOrderModel
  supports_deletes :: bool
  event_id_semantics :: EventIdSemantics

datatype SinkGuaranteeTier = ExactOnceCdcEligible | CdcEncodedOnly | AppendOnly | SinkUnsupported

record SinkCapability =
  snk_name :: string
  max_sessions_per_child :: nat
  snk_guarantee_tier :: SinkGuaranteeTier
  can_manage_skippr_columns :: bool
  can_maintain_tombstone_tables :: bool
  can_compare_order_tokens :: bool
  supports_transactions :: bool
  retry_semantics :: SinkRetrySemantics
  grouping_support :: SinkGroupingSupport
  supported_formats :: "OutputFormat list"
  default_format :: "OutputFormat option"

definition sink_resolve_format ::
  "SinkCapability \<Rightarrow> string option \<Rightarrow> PipelineType \<Rightarrow> InputFormat option \<Rightarrow> string + OutputFormat option"
where
  "sink_resolve_format sink configured pipeline_type source =
     resolve_output_format (snk_name sink) (supported_formats sink) (default_format sink) configured pipeline_type source"

section \<open>Namespace contracts\<close>

datatype EffectiveGuarantee = ExactOnceFinalState | CdcEncoded
datatype OrderTokenSemantics = TotalOrder | KeyScopedOrder | SourceDefined
datatype NullKeyPolicy = Reject | AllowEncodedOnly

record NamespaceContract =
  nc_namespace :: string
  business_key_columns :: "string list"
  effective_guarantee :: EffectiveGuarantee
  order_token_semantics :: OrderTokenSemantics
  null_key_policy :: NullKeyPolicy
  requires_skippr_system_columns :: bool

record CdcContracts =
  cdc_default :: "NamespaceContract option"
  cdc_namespaces :: "(string, NamespaceContract) fmap"

definition for_namespace :: "CdcContracts \<Rightarrow> string \<Rightarrow> NamespaceContract option" where
  "for_namespace c ns = (case fmlookup (cdc_namespaces c) ns of
      Some k \<Rightarrow> Some k
    | None \<Rightarrow> map_option (\<lambda>k. k\<lparr>nc_namespace := ns\<rparr>) (cdc_default c))"

definition contracts_is_empty :: "CdcContracts \<Rightarrow> bool" where
  "contracts_is_empty c \<longleftrightarrow> cdc_default c = None \<and> cdc_namespaces c = fmempty"

definition keys_contract :: "string \<Rightarrow> string list \<Rightarrow> NamespaceContract" where
  "keys_contract ns keys = \<lparr>
     nc_namespace = ns,
     business_key_columns = keys,
     effective_guarantee = CdcEncoded,
     order_token_semantics = SourceDefined,
     null_key_policy = Reject,
     requires_skippr_system_columns = True\<rparr>"

definition resolved_keys :: "string list \<Rightarrow> (string, string list) fmap \<Rightarrow> string \<Rightarrow> string list \<Rightarrow> string list" where
  "resolved_keys default_keys source_key_columns ns yaml_keys =
     (if yaml_keys = [] then
        (case fmlookup source_key_columns ns of Some ks \<Rightarrow> ks | None \<Rightarrow> default_keys)
      else yaml_keys)"

definition resolve_business_keys ::
  "string list \<Rightarrow> (string, string list) fmap \<Rightarrow> (string, string list) fmap \<Rightarrow> CdcContracts"
where
  "resolve_business_keys default_keys named source_key_columns = \<lparr>
     cdc_default = (if default_keys = [] then None else Some (keys_contract [] default_keys)),
     cdc_namespaces =
       fmmap_keys (\<lambda>ns ks. keys_contract ns (resolved_keys default_keys source_key_columns ns ks))
         (fmfilter (\<lambda>ns. resolved_keys default_keys source_key_columns ns (the (fmlookup named ns)) \<noteq> []) named)\<rparr>"

section \<open>The contract map of the process\<close>

datatype CdcMapError = Poisoned | EmptyContracts

fun cdc_map_error_display :: "CdcMapError \<Rightarrow> string" where
  "cdc_map_error_display Poisoned = ''CDC contract map lock poisoned''"
| "cdc_map_error_display EmptyContracts = ''CDC pipeline has no business keys after resolve_contracts''"

type_synonym cdc_map = "(PipelineKey, CdcContracts) fmap option"

definition install_pipeline_cdc_contracts :: "PipelineKey \<Rightarrow> CdcContracts \<Rightarrow> cdc_map \<Rightarrow> CdcMapError + cdc_map" where
  "install_pipeline_cdc_contracts key c m = (case m of
      None \<Rightarrow> Inl Poisoned
    | Some g \<Rightarrow> Inr (Some (fmupd key c g)))"

definition remove_pipeline_cdc_contracts :: "PipelineKey \<Rightarrow> cdc_map \<Rightarrow> CdcMapError + cdc_map" where
  "remove_pipeline_cdc_contracts key m = (case m of
      None \<Rightarrow> Inl Poisoned
    | Some g \<Rightarrow> Inr (Some (fmdrop key g)))"

definition pipeline_cdc_contracts :: "PipelineKey \<Rightarrow> cdc_map \<Rightarrow> CdcMapError + CdcContracts option" where
  "pipeline_cdc_contracts key m = (case m of
      None \<Rightarrow> Inl Poisoned
    | Some g \<Rightarrow> Inr (fmlookup g key))"

definition stamp_guarantees :: "CdcContracts \<Rightarrow> CdcContracts \<Rightarrow> CdcContracts" where
  "stamp_guarantees existing nxt = \<lparr>
     cdc_default = (case (cdc_default existing, cdc_default nxt) of
         (Some prev, Some cur) \<Rightarrow> Some (cur\<lparr>effective_guarantee := effective_guarantee prev\<rparr>)
       | (_, d) \<Rightarrow> d),
     cdc_namespaces = fmmap_keys (\<lambda>ns c. case fmlookup (cdc_namespaces existing) ns of
         Some prev \<Rightarrow> c\<lparr>effective_guarantee := effective_guarantee prev\<rparr>
       | None \<Rightarrow> c) (cdc_namespaces nxt)\<rparr>"

definition reinstall_resolved_contracts :: "PipelineKey \<Rightarrow> CdcContracts \<Rightarrow> cdc_map \<Rightarrow> CdcMapError + cdc_map" where
  "reinstall_resolved_contracts key resolved m =
     (if contracts_is_empty resolved then Inl EmptyContracts
      else bindR (pipeline_cdc_contracts key m) (\<lambda>prev.
        install_pipeline_cdc_contracts key
          (case prev of Some existing \<Rightarrow> stamp_guarantees existing resolved | None \<Rightarrow> resolved) m))"

section \<open>Checkpoints\<close>

datatype CheckpointAuthority = WalOwnership | AdvisoryHint
datatype CheckpointKind = SourceResume | BootstrapProgress | BootstrapAnchor | AdvisoryProgress

record CheckpointEnvelope =
  authority :: CheckpointAuthority
  cp_kind :: CheckpointKind
  payload_version :: u32
  payload_bytes :: bytes

record PostgresCheckpoint =
  pg_lsn :: u64
  slot_name :: string

record MysqlCheckpoint =
  binlog_file :: string
  binlog_position :: u64

record MongodbCheckpoint = resume_token :: bytes

record DynamodbCheckpoint =
  table_name :: string
  stream_arn :: string
  shard_id :: string
  sequence_number :: string

record KafkaCheckpoint =
  kafka_topic :: string
  kafka_partition :: int
  kafka_offset :: int

text \<open>The payload's serializer and deserializer are arguments (bincode).\<close>

definition from_payload ::
  "('p \<Rightarrow> string + bytes) \<Rightarrow> CheckpointAuthority \<Rightarrow> CheckpointKind \<Rightarrow> u32 \<Rightarrow> 'p \<Rightarrow> string + CheckpointEnvelope"
where
  "from_payload ser_p auth kind version payload = bindR (ser_p payload) (\<lambda>bs.
     Inr \<lparr>authority = auth, cp_kind = kind, payload_version = version, payload_bytes = bs\<rparr>)"

definition wal_owned_source_resume :: "('p \<Rightarrow> string + bytes) \<Rightarrow> u32 \<Rightarrow> 'p \<Rightarrow> string + CheckpointEnvelope" where
  "wal_owned_source_resume ser_p version payload = from_payload ser_p WalOwnership SourceResume version payload"

definition bootstrap_anchor :: "('p \<Rightarrow> string + bytes) \<Rightarrow> u32 \<Rightarrow> 'p \<Rightarrow> string + CheckpointEnvelope" where
  "bootstrap_anchor ser_p version payload = from_payload ser_p AdvisoryHint BootstrapAnchor version payload"

definition advisory_hint :: "('p \<Rightarrow> string + bytes) \<Rightarrow> CheckpointKind \<Rightarrow> u32 \<Rightarrow> 'p \<Rightarrow> string + CheckpointEnvelope" where
  "advisory_hint ser_p kind version payload = from_payload ser_p AdvisoryHint kind version payload"

definition into_payload :: "(bytes \<Rightarrow> string + 'p) \<Rightarrow> CheckpointEnvelope \<Rightarrow> string + 'p" where
  "into_payload deser_p e = deser_p (payload_bytes e)"

section \<open>Row metadata of a WAL part\<close>

datatype MutationKind = Snapshot | Insert | Update | Delete

definition from_debezium_op :: "string \<Rightarrow> MutationKind" where
  "from_debezium_op op =
     (if op = ''c'' then Insert
      else if op = ''u'' then Update
      else if op = ''d'' then Delete
      else if op = ''r'' then Snapshot
      else Insert)"

record WalRowMeta =
  mutation :: MutationKind
  event_id :: bytes
  order_token :: bytes

datatype WalPartKind = PartAppend | PartCdc

record WalPartMeta =
  pm_kind :: WalPartKind
  row_count :: u64
  pm_rows :: "WalRowMeta list"

datatype WalPartMetaError = EmptyCdcRows | RowCountMismatch u64 u64 | CdcRowsOnAppend

fun wal_part_meta_error_display :: "WalPartMetaError \<Rightarrow> string" where
  "wal_part_meta_error_display EmptyCdcRows = ''CDC WAL partition requires at least one row''"
| "wal_part_meta_error_display (RowCountMismatch expected actual) =
     ''CDC WAL metadata row count mismatch: expected '' @ show_nat (unat expected) @ '', got '' @ show_nat (unat actual)"
| "wal_part_meta_error_display CdcRowsOnAppend = ''append WAL partition must not carry CDC rows''"

definition part_meta_cdc :: "WalRowMeta list \<Rightarrow> u64 \<Rightarrow> WalPartMetaError + WalPartMeta" where
  "part_meta_cdc rows arrow_row_count =
     (if rows = [] then Inl EmptyCdcRows
      else let actual = word_of_nat (length rows) in
        if actual \<noteq> arrow_row_count then Inl (RowCountMismatch arrow_row_count actual)
        else Inr \<lparr>pm_kind = PartCdc, row_count = arrow_row_count, pm_rows = rows\<rparr>)"

definition part_meta_append :: "u64 \<Rightarrow> WalPartMeta" where
  "part_meta_append n = \<lparr>pm_kind = PartAppend, row_count = n, pm_rows = []\<rparr>"

definition part_meta_validate :: "WalPartMeta \<Rightarrow> WalPartMetaError + unit" where
  "part_meta_validate m = (case pm_kind m of
      PartAppend \<Rightarrow> if pm_rows m = [] then Inr () else Inl CdcRowsOnAppend
    | PartCdc \<Rightarrow>
        if pm_rows m = [] then Inl EmptyCdcRows
        else let actual = word_of_nat (length (pm_rows m)) in
          if row_count m \<noteq> actual then Inl (RowCountMismatch (row_count m) actual) else Inr ())"

definition validate_arrow_row_count :: "WalPartMeta \<Rightarrow> u64 \<Rightarrow> WalPartMetaError + unit" where
  "validate_arrow_row_count m arrow_row_count = bindR (part_meta_validate m) (\<lambda>_.
     if row_count m \<noteq> arrow_row_count then Inl (RowCountMismatch (row_count m) arrow_row_count) else Inr ())"

record SyncContext =
  sync_part_meta :: WalPartMeta
  sync_contract :: "NamespaceContract option"

section \<open>Deriving the guarantee\<close>

datatype CompatibilityResult = Compatible EffectiveGuarantee | Incompatible "string list"

fun show_source_tier :: "SourceGuaranteeTier \<Rightarrow> string" where
  "show_source_tier SnapshotThenLogExactOnce = ''SnapshotThenLogExactOnce''"
| "show_source_tier LogStreamExactOnce = ''LogStreamExactOnce''"
| "show_source_tier EventIdentityEligible = ''EventIdentityEligible''"
| "show_source_tier IncrementalOnly = ''IncrementalOnly''"
| "show_source_tier UserSuppliedIdentityOnly = ''UserSuppliedIdentityOnly''"
| "show_source_tier SourceUnsupported = ''Unsupported''"

fun show_sink_tier :: "SinkGuaranteeTier \<Rightarrow> string" where
  "show_sink_tier ExactOnceCdcEligible = ''ExactOnceCdcEligible''"
| "show_sink_tier CdcEncodedOnly = ''CdcEncodedOnly''"
| "show_sink_tier AppendOnly = ''AppendOnly''"
| "show_sink_tier SinkUnsupported = ''Unsupported''"

definition derive_and_validate :: "SourceCapability \<Rightarrow> SinkCapability \<Rightarrow> string \<Rightarrow> string list \<Rightarrow> CompatibilityResult" where
  "derive_and_validate source sink ns keys =
    (let source_can_cdc = src_guarantee_tier source \<in> {SnapshotThenLogExactOnce, LogStreamExactOnce, EventIdentityEligible};
         sink_can_cdc = snk_guarantee_tier sink \<in> {ExactOnceCdcEligible, CdcEncodedOnly};
         source_exact_once = src_guarantee_tier source \<in> {SnapshotThenLogExactOnce, LogStreamExactOnce};
         source_order_ok = order_model source \<noteq> UnsupportedForFinalState;
         sink_exact_once = snk_guarantee_tier sink = ExactOnceCdcEligible \<and> can_manage_skippr_columns sink
           \<and> can_maintain_tombstone_tables sink \<and> can_compare_order_tokens sink
     in if \<not> source_can_cdc then
          Incompatible [''source '' @ squote @ src_name source @ squote @ '' (tier ''
            @ show_source_tier (src_guarantee_tier source) @ '') cannot produce CDC metadata'']
        else if \<not> sink_can_cdc then
          Incompatible [''sink '' @ squote @ snk_name sink @ squote @ '' (tier ''
            @ show_sink_tier (snk_guarantee_tier sink) @ '') cannot accept CDC payloads'']
        else if source_exact_once \<and> source_order_ok \<and> sink_exact_once then
          (if keys = [] then
             Incompatible [''namespace '' @ squote @ ns @ squote
               @ '' requires business_key_columns for ExactOnceFinalState (source '' @ squote @ src_name source
               @ squote @ '' + sink '' @ squote @ snk_name sink @ squote @ '' are both exact-once capable)'']
           else Compatible ExactOnceFinalState)
        else Compatible CdcEncoded)"

datatype SinkApplyAction =
    UpsertIfNewer "(string \<times> string) list" bytes
  | DeleteIfNewer "(string \<times> string) list" bytes

fun resolve_apply_action :: "MutationKind \<Rightarrow> (string \<times> string) list \<Rightarrow> bytes \<Rightarrow> SinkApplyAction" where
  "resolve_apply_action Delete key token = DeleteIfNewer key token"
| "resolve_apply_action Snapshot key token = UpsertIfNewer key token"
| "resolve_apply_action Insert key token = UpsertIfNewer key token"
| "resolve_apply_action Update key token = UpsertIfNewer key token"

section \<open>Lemmas\<close>

definition source_final_state :: "SourceCapability \<Rightarrow> bool" where
  "source_final_state s \<longleftrightarrow> src_guarantee_tier s \<in> {SnapshotThenLogExactOnce, LogStreamExactOnce}
     \<and> order_model s \<noteq> UnsupportedForFinalState"

definition sink_final_state :: "SinkCapability \<Rightarrow> bool" where
  "sink_final_state s \<longleftrightarrow> snk_guarantee_tier s = ExactOnceCdcEligible \<and> can_manage_skippr_columns s
     \<and> can_maintain_tombstone_tables s \<and> can_compare_order_tokens s"

definition source_cdc :: "SourceCapability \<Rightarrow> bool" where
  "source_cdc s \<longleftrightarrow> src_guarantee_tier s \<in> {SnapshotThenLogExactOnce, LogStreamExactOnce, EventIdentityEligible}"

definition sink_cdc :: "SinkCapability \<Rightarrow> bool" where
  "sink_cdc s \<longleftrightarrow> snk_guarantee_tier s \<in> {ExactOnceCdcEligible, CdcEncodedOnly}"

lemma derive_exact_once_iff:
  "derive_and_validate s k ns keys = Compatible ExactOnceFinalState \<longleftrightarrow>
     source_final_state s \<and> sink_final_state k \<and> keys \<noteq> []"
  by (auto simp: derive_and_validate_def Let_def source_final_state_def sink_final_state_def)

lemma derive_encoded_iff:
  "derive_and_validate s k ns keys = Compatible CdcEncoded \<longleftrightarrow>
     source_cdc s \<and> sink_cdc k \<and> \<not> (source_final_state s \<and> sink_final_state k)"
  by (auto simp: derive_and_validate_def Let_def source_final_state_def sink_final_state_def source_cdc_def sink_cdc_def)

lemma resolve_keys_lookup:
  "fmlookup (cdc_namespaces (resolve_business_keys d named src)) ns =
     (case fmlookup named ns of
        None \<Rightarrow> None
      | Some yk \<Rightarrow> (let ks = resolved_keys d src ns yk in if ks = [] then None else Some (keys_contract ns ks)))"
  by (auto simp: resolve_business_keys_def Let_def split: option.splits)

lemma resolve_keys_default:
  "cdc_default (resolve_business_keys d named src) = (if d = [] then None else Some (keys_contract [] d))"
  by (simp add: resolve_business_keys_def)

lemma stamp_lookup:
  "fmlookup (cdc_namespaces (stamp_guarantees ex nx)) ns =
     map_option (\<lambda>c. case fmlookup (cdc_namespaces ex) ns of
         Some prev \<Rightarrow> c\<lparr>effective_guarantee := effective_guarantee prev\<rparr> | None \<Rightarrow> c)
       (fmlookup (cdc_namespaces nx) ns)"
  by (simp add: stamp_guarantees_def)

section \<open>Properties\<close>

text \<open>Business keys resolve in one order: keys from the configuration, else the source's key
  columns, else the default keys; a namespace contract never has an empty key list.\<close>

theorem resolve_business_keys_spec:
  "for_namespace (resolve_business_keys d named src) ns =
     (let ks = (case fmlookup named ns of Some yk \<Rightarrow> resolved_keys d src ns yk | None \<Rightarrow> []) in
      if ks \<noteq> [] then Some (keys_contract ns ks)
      else if d \<noteq> [] then Some (keys_contract ns d) else None)"
  by (auto simp: for_namespace_def resolve_keys_lookup resolve_keys_default Let_def keys_contract_def split: option.split)

text \<open>Re-resolving keys at run time keeps the guarantee of every namespace that already had a
  contract and takes over the new business keys, and an empty result is refused without
  touching the installed contracts.\<close>

theorem reinstall_keeps_guarantees:
  assumes "fmlookup g key = Some ex"
  shows "(contracts_is_empty nx \<and> reinstall_resolved_contracts key nx (Some g) = Inl EmptyContracts)
     \<or> (\<exists>st. reinstall_resolved_contracts key nx (Some g) = Inr (Some (fmupd key st g))
        \<and> (\<forall>ns c. fmlookup (cdc_namespaces nx) ns = Some c \<longrightarrow>
             (\<exists>c'. fmlookup (cdc_namespaces st) ns = Some c' \<and> business_key_columns c' = business_key_columns c
              \<and> effective_guarantee c' = (case fmlookup (cdc_namespaces ex) ns of
                   Some p \<Rightarrow> effective_guarantee p | None \<Rightarrow> effective_guarantee c))))"
proof (cases "contracts_is_empty nx")
  case False
  let ?st = "stamp_guarantees ex nx"
  have "\<exists>c'. fmlookup (cdc_namespaces ?st) ns = Some c' \<and> business_key_columns c' = business_key_columns c
      \<and> effective_guarantee c' = (case fmlookup (cdc_namespaces ex) ns of
           Some p \<Rightarrow> effective_guarantee p | None \<Rightarrow> effective_guarantee c)"
    if "fmlookup (cdc_namespaces nx) ns = Some c" for ns c
    using that by (simp add: stamp_lookup split: option.split)
  moreover have "reinstall_resolved_contracts key nx (Some g) = Inr (Some (fmupd key ?st g))"
    using False assms
    by (simp add: reinstall_resolved_contracts_def pipeline_cdc_contracts_def install_pipeline_cdc_contracts_def)
  ultimately show ?thesis by blast
qed (simp add: reinstall_resolved_contracts_def)

theorem reinstall_keeps_guarantees_witness:
  "\<exists>key g ex. fmlookup g key = Some ex \<and>
     reinstall_resolved_contracts key (resolve_business_keys [] fmempty fmempty) (Some g) = Inl EmptyContracts"
proof -
  let ?key = "\<lparr>tenant = ''a'', workspace = ''b'', pipeline = ''c''\<rparr>"
  let ?ex = "resolve_business_keys [''id''] fmempty fmempty"
  let ?g = "fmupd ?key ?ex fmempty"
  have l: "fmlookup ?g ?key = Some ?ex" by simp
  have e: "contracts_is_empty (resolve_business_keys [] fmempty fmempty)"
    by (auto simp: contracts_is_empty_def resolve_business_keys_def intro!: fmap_ext)
  from reinstall_keeps_guarantees[OF l, of "resolve_business_keys [] fmempty fmempty"] e
  show ?thesis by (metis l reinstall_resolved_contracts_def)
qed


end
