(* ===== verification/Source_Contract.thy ===== *)
theory Source_Contract
  imports Cdc_Contracts
begin

text \<open>
  Per-namespace source contracts (\<^verbatim>\<open>src/src/plugins/source_contract.rs\<close>): field paths, write
  policies, validation of one contract and of a published set, the check against a sink's
  declared support, and the policy a sink write resolves to. The persisted contracts of the
  pipeline (the global metadata) are an argument. Resolving a plugin manifest is an argument
  too: the sink's capability, or the error text of the lookup. Storing the contracts, which
  renames namespaces through the field-name sanitizer, is not modelled.
\<close>

section \<open>Types\<close>

datatype FieldPath = FieldPath (path_segments: "string list")

definition field_path_single :: "string \<Rightarrow> FieldPath" where
  "field_path_single column = FieldPath [column]"

definition dotted :: "FieldPath \<Rightarrow> string" where
  "dotted p = join ''.'' (path_segments p)"

datatype WritePolicy = Append | MergeByKey | ReplaceTable | ReplacePartition
datatype SourceSemantics = EventStream | EntityState | MutableReport

record SourceNamespaceContract =
  sc_namespace :: string
  primary_key :: "FieldPath list"
  sc_cursor :: "FieldPath option"
  partition_key :: "FieldPath list"
  write_policy :: WritePolicy
  refresh_window :: "u32 option"
  sc_description :: string
  sc_semantics :: "SourceSemantics option"

datatype SourceContractError =
    EmptyNamespace
  | EmptyFieldPath
  | EmptyFieldPathSegment
  | MergeByKeyRequiresPrimaryKey
  | ReplacePartitionRequiresPartitionKey
  | DuplicateNamespace string
  | SinkPolicyUnsupported string
  | CdcContractsError string

fun source_contract_error_display :: "SourceContractError \<Rightarrow> string" where
  "source_contract_error_display EmptyNamespace = ''namespace must not be empty''"
| "source_contract_error_display EmptyFieldPath = ''field path must not be empty''"
| "source_contract_error_display EmptyFieldPathSegment = ''field path segment must not be empty''"
| "source_contract_error_display MergeByKeyRequiresPrimaryKey = ''MergeByKey requires a non-empty primary_key''"
| "source_contract_error_display ReplacePartitionRequiresPartitionKey = ''ReplacePartition requires a non-empty partition_key''"
| "source_contract_error_display (DuplicateNamespace ns) = ''duplicate namespace contract: '' @ ns"
| "source_contract_error_display (SinkPolicyUnsupported m) = m"
| "source_contract_error_display (CdcContractsError m) = m"

fun show_write_policy :: "WritePolicy \<Rightarrow> string" where
  "show_write_policy Append = ''Append''"
| "show_write_policy MergeByKey = ''MergeByKey''"
| "show_write_policy ReplaceTable = ''ReplaceTable''"
| "show_write_policy ReplacePartition = ''ReplacePartition''"

section \<open>Validation\<close>

fun validate_segments :: "string list \<Rightarrow> SourceContractError + unit" where
  "validate_segments [] = Inr ()"
| "validate_segments (s # ss) = (if trim s = [] then Inl EmptyFieldPathSegment else validate_segments ss)"

definition field_path_validate :: "FieldPath \<Rightarrow> SourceContractError + unit" where
  "field_path_validate p = (if path_segments p = [] then Inl EmptyFieldPath else validate_segments (path_segments p))"

fun validate_paths :: "FieldPath list \<Rightarrow> SourceContractError + unit" where
  "validate_paths [] = Inr ()"
| "validate_paths (p # ps) = bindR (field_path_validate p) (\<lambda>_. validate_paths ps)"

definition contract_validate :: "SourceNamespaceContract \<Rightarrow> SourceContractError + unit" where
  "contract_validate c =
     (if trim (sc_namespace c) = [] then Inl EmptyNamespace
      else bindR (validate_paths (primary_key c @ partition_key c
               @ (case sc_cursor c of Some p \<Rightarrow> [p] | None \<Rightarrow> []))) (\<lambda>_.
        case write_policy c of
          MergeByKey \<Rightarrow> if primary_key c = [] then Inl MergeByKeyRequiresPrimaryKey else Inr ()
        | ReplacePartition \<Rightarrow> if partition_key c = [] then Inl ReplacePartitionRequiresPartitionKey else Inr ()
        | _ \<Rightarrow> Inr ()))"

fun validate_contracts_seen :: "string set \<Rightarrow> SourceNamespaceContract list \<Rightarrow> SourceContractError + unit" where
  "validate_contracts_seen seen [] = Inr ()"
| "validate_contracts_seen seen (c # cs) = bindR (contract_validate c) (\<lambda>_.
     if sc_namespace c \<in> seen then Inl (DuplicateNamespace (sc_namespace c))
     else validate_contracts_seen (insert (sc_namespace c) seen) cs)"

definition validate_namespace_contracts :: "SourceNamespaceContract list \<Rightarrow> SourceContractError + unit" where
  "validate_namespace_contracts cs = validate_contracts_seen {} cs"

definition business_key_column_names :: "SourceNamespaceContract \<Rightarrow> string list" where
  "business_key_column_names c = map dotted (primary_key c)"

definition to_cdc_namespace_contract ::
  "SourceNamespaceContract \<Rightarrow> EffectiveGuarantee \<Rightarrow> OrderTokenSemantics \<Rightarrow> NullKeyPolicy \<Rightarrow> bool \<Rightarrow> NamespaceContract"
where
  "to_cdc_namespace_contract c g order_sem null_policy sys = \<lparr>
     nc_namespace = sc_namespace c,
     business_key_columns = business_key_column_names c,
     effective_guarantee = g,
     order_token_semantics = order_sem,
     null_key_policy = null_policy,
     requires_skippr_system_columns = sys\<rparr>"

definition cdc_source_key_columns ::
  "(string, SourceNamespaceContract) fmap \<Rightarrow> (string, string list) fmap"
where
  "cdc_source_key_columns m = fmmap business_key_column_names m"

section \<open>Sinks\<close>

record SinkWritePolicySupport =
  supports_merge_by_key :: bool
  supports_replace_partition :: bool
  supports_replace_table :: bool

record WritePolicyUnsupportedError =
  wpe_namespace :: string
  wpe_policy :: WritePolicy
  wpe_sink_name :: string

definition write_policy_error_display :: "WritePolicyUnsupportedError \<Rightarrow> string" where
  "write_policy_error_display e = ''sink '' @ squote @ wpe_sink_name e @ squote @ '' does not support write policy ''
     @ show_write_policy (wpe_policy e) @ '' for namespace '' @ squote @ wpe_namespace e @ squote"

definition validate_write_policy_for_sink ::
  "SourceNamespaceContract \<Rightarrow> string \<Rightarrow> SinkWritePolicySupport \<Rightarrow> WritePolicyUnsupportedError + unit"
where
  "validate_write_policy_for_sink c sink_name support =
     (let unsupported = (case write_policy c of
          Append \<Rightarrow> False
        | MergeByKey \<Rightarrow> \<not> supports_merge_by_key support
        | ReplacePartition \<Rightarrow> \<not> supports_replace_partition support
        | ReplaceTable \<Rightarrow> \<not> supports_replace_table support)
      in if unsupported then
           Inl \<lparr>wpe_namespace = sc_namespace c, wpe_policy = write_policy c, wpe_sink_name = sink_name\<rparr>
         else Inr ())"

fun validate_policies ::
  "string \<Rightarrow> SinkWritePolicySupport \<Rightarrow> SourceNamespaceContract list \<Rightarrow> SourceContractError + unit"
where
  "validate_policies sink_name support [] = Inr ()"
| "validate_policies sink_name support (c # cs) = (case validate_write_policy_for_sink c sink_name support of
      Inl e \<Rightarrow> Inl (SinkPolicyUnsupported (write_policy_error_display e))
    | Inr _ \<Rightarrow> validate_policies sink_name support cs)"

text \<open>The manifest lookup yields the error text, or the sink's declared capability if it has one.\<close>

definition validate_active_sink_supports_contracts ::
  "string \<Rightarrow> string + (string \<times> SinkWritePolicySupport) option \<Rightarrow> SourceNamespaceContract list \<Rightarrow> SourceContractError + unit"
where
  "validate_active_sink_supports_contracts output_plugin_name manifest cs =
     (if cs = [] then Inr ()
      else bindR (validate_namespace_contracts cs) (\<lambda>_. case manifest of
          Inl err \<Rightarrow> Inl (SinkPolicyUnsupported
            (''failed to resolve output sink manifest for write-policy validation: '' @ err))
        | Inr None \<Rightarrow> Inl (SinkPolicyUnsupported (''output sink '' @ squote @ output_plugin_name @ squote
            @ '' does not declare sink_capability metadata required for write-policy validation''))
        | Inr (Some (sink_name, support)) \<Rightarrow> validate_policies sink_name support cs))"

section \<open>The policy of a write\<close>

definition source_contract_for_namespace ::
  "(string, SourceNamespaceContract) fmap \<Rightarrow> string \<Rightarrow> SourceNamespaceContract option"
where
  "source_contract_for_namespace metadata ns = fmlookup metadata ns"

definition resolved_write_policy_for_namespace ::
  "(string, SourceNamespaceContract) fmap \<Rightarrow> string \<Rightarrow> SourceNamespaceContract option \<Rightarrow> WritePolicy \<times> SourceNamespaceContract option"
where
  "resolved_write_policy_for_namespace metadata ns ctx = (case ctx of
      Some c \<Rightarrow> (write_policy c, Some c)
    | None \<Rightarrow> (case source_contract_for_namespace metadata ns of
          Some c \<Rightarrow> (write_policy c, Some c)
        | None \<Rightarrow> (Append, None)))"

definition ensure_source_contract_for_policy ::
  "(string, SourceNamespaceContract) fmap \<Rightarrow> string \<Rightarrow> WritePolicy \<Rightarrow> SourceNamespaceContract option \<Rightarrow> string + unit"
where
  "ensure_source_contract_for_policy metadata ns policy contract =
     (if policy = Append then Inr ()
      else if contract \<noteq> None then Inr ()
      else if source_contract_for_namespace metadata ns \<noteq> None then Inr ()
      else Inl (''namespace '' @ squote @ ns @ squote
        @ '' requires a source namespace contract for write policy '' @ show_write_policy policy))"

section \<open>Lemmas\<close>

definition path_ok :: "FieldPath \<Rightarrow> bool" where
  "path_ok p \<longleftrightarrow> path_segments p \<noteq> [] \<and> (\<forall>s\<in>set (path_segments p). trim s \<noteq> [])"

definition contract_ok :: "SourceNamespaceContract \<Rightarrow> bool" where
  "contract_ok c \<longleftrightarrow> trim (sc_namespace c) \<noteq> []
     \<and> (\<forall>p\<in>set (primary_key c) \<union> set (partition_key c) \<union> set_option (sc_cursor c). path_ok p)
     \<and> (write_policy c = MergeByKey \<longrightarrow> primary_key c \<noteq> [])
     \<and> (write_policy c = ReplacePartition \<longrightarrow> partition_key c \<noteq> [])"

lemma validate_segments_Inr: "validate_segments ss = Inr () \<longleftrightarrow> (\<forall>s\<in>set ss. trim s \<noteq> [])"
  by (induction ss) auto

lemma field_path_validate_Inr: "field_path_validate p = Inr () \<longleftrightarrow> path_ok p"
  by (simp add: field_path_validate_def path_ok_def validate_segments_Inr)

lemma validate_paths_Inr: "validate_paths ps = Inr () \<longleftrightarrow> (\<forall>p\<in>set ps. path_ok p)"
  by (induction ps) (simp_all add: bindR_Inr_iff field_path_validate_Inr)

lemma contract_validate_Inr: "contract_validate c = Inr () \<longleftrightarrow> contract_ok c"
proof -
  have "set (primary_key c @ partition_key c @ (case sc_cursor c of Some p \<Rightarrow> [p] | None \<Rightarrow> []))
      = set (primary_key c) \<union> set (partition_key c) \<union> set_option (sc_cursor c)"
    by (auto split: option.splits)
  then show ?thesis
    by (cases "write_policy c") (auto simp: contract_validate_def contract_ok_def bindR_Inr_iff validate_paths_Inr)
qed

lemma validate_contracts_seen_Inr:
  "validate_contracts_seen seen cs = Inr () \<longleftrightarrow>
     (\<forall>c\<in>set cs. contract_ok c) \<and> distinct (map sc_namespace cs) \<and> seen \<inter> sc_namespace ` set cs = {}"
proof (induction cs arbitrary: seen)
  case (Cons c cs)
  show ?case by (auto simp: bindR_Inr_iff contract_validate_Inr Cons.IH)
qed simp

lemma validate_policies_Inr:
  "validate_policies n spt cs = Inr () \<longleftrightarrow> (\<forall>c\<in>set cs. validate_write_policy_for_sink c n spt = Inr ())"
  by (induction cs) (auto split: sum.splits)

lemma validate_write_policy_Inr:
  "validate_write_policy_for_sink c n spt = Inr () \<longleftrightarrow>
     (case write_policy c of Append \<Rightarrow> True | MergeByKey \<Rightarrow> supports_merge_by_key spt
      | ReplacePartition \<Rightarrow> supports_replace_partition spt | ReplaceTable \<Rightarrow> supports_replace_table spt)"
  by (cases "write_policy c") (simp_all add: validate_write_policy_for_sink_def)

section \<open>Properties\<close>

text \<open>A published contract set passes validation exactly when namespaces are unique and every
  contract has a namespace that is not blank, non-empty field paths without blank segments, a
  primary key if it merges by key and a partition key if it replaces partitions.\<close>

theorem contract_set_valid_iff:
  "validate_namespace_contracts cs = Inr () \<longleftrightarrow> list_all contract_ok cs \<and> distinct (map sc_namespace cs)"
  by (simp add: validate_namespace_contracts_def validate_contracts_seen_Inr list_all_iff)

text \<open>A contract set that is accepted for the active sink can be written by it: whatever policy a
  write of one of its namespaces resolves to from the persisted set is supported by the sink,
  and a policy other than append always finds its contract.\<close>

theorem accepted_contracts_are_writable:
  assumes "validate_active_sink_supports_contracts plugin (Inr (Some (n, support))) cs = Inr ()"
    "metadata = fmap_of_list (map (\<lambda>c. (sc_namespace c, c)) cs)"
    "resolved_write_policy_for_namespace metadata ns None = (policy, contract)"
  shows "(case policy of Append \<Rightarrow> True | MergeByKey \<Rightarrow> supports_merge_by_key support
      | ReplacePartition \<Rightarrow> supports_replace_partition support | ReplaceTable \<Rightarrow> supports_replace_table support)
     \<and> ensure_source_contract_for_policy metadata ns policy contract = Inr ()"
proof (cases "source_contract_for_namespace metadata ns")
  case None
  then have "policy = Append" using assms(3) by (simp add: resolved_write_policy_for_namespace_def)
  then show ?thesis by (simp add: ensure_source_contract_for_policy_def)
next
  case (Some c)
  then have c: "policy = write_policy c" "contract = Some c"
    using assms(3) by (simp_all add: resolved_write_policy_for_namespace_def)
  have "c \<in> set cs"
    using Some assms(2) by (auto simp: source_contract_for_namespace_def fmlookup_of_list dest!: map_of_SomeD)
  then have "cs \<noteq> []" by auto
  then have "validate_policies n support cs = Inr ()"
    using assms(1) by (auto simp: validate_active_sink_supports_contracts_def bindR_Inr_iff)
  then show ?thesis
    using \<open>c \<in> set cs\<close> c
    by (simp add: validate_policies_Inr validate_write_policy_Inr ensure_source_contract_for_policy_def)
qed

abbreviation sample_contract :: SourceNamespaceContract where
  "sample_contract \<equiv> \<lparr>sc_namespace = ''orders'', primary_key = [FieldPath [''id'']], sc_cursor = None,
     partition_key = [], write_policy = MergeByKey, refresh_window = None, sc_description = [], sc_semantics = None\<rparr>"

theorem accepted_contracts_are_writable_witness:
  "ensure_source_contract_for_policy (fmap_of_list [(''orders'', sample_contract)]) ''orders'' MergeByKey (Some sample_contract) = Inr ()
   \<and> validate_active_sink_supports_contracts ''Postgres''
      (Inr (Some (''Postgres'', \<lparr>supports_merge_by_key = True, supports_replace_partition = False, supports_replace_table = False\<rparr>)))
      [sample_contract] = Inr ()"
proof -
  let ?sup = "\<lparr>supports_merge_by_key = True, supports_replace_partition = False, supports_replace_table = False\<rparr>"
  have t: "trim ''orders'' = ''orders''" "trim ''id'' = ''id''"
    by (intro trim_visible; simp add: not_ws_def)+
  have v: "validate_active_sink_supports_contracts ''Postgres'' (Inr (Some (''Postgres'', ?sup))) [sample_contract] = Inr ()"
    by (simp add: validate_active_sink_supports_contracts_def validate_namespace_contracts_def contract_validate_def
        field_path_validate_def validate_write_policy_for_sink_def t)
  have r: "resolved_write_policy_for_namespace (fmap_of_list (map (\<lambda>c. (sc_namespace c, c)) [sample_contract])) ''orders'' None
      = (MergeByKey, Some sample_contract)"
    by (simp add: resolved_write_policy_for_namespace_def source_contract_for_namespace_def fmlookup_of_list)
  from accepted_contracts_are_writable[OF v refl r] v show ?thesis by simp
qed

end
