(* ===== verification/Compaction_Txn.thy ===== *)
theory Compaction_Txn
  imports Source_Contract "HOL-Library.Multiset"
begin

text \<open>
  Compaction transactions and the identity of WAL parts:
  \<^verbatim>\<open>src/src/buffer/compaction_transaction.rs\<close>, \<^verbatim>\<open>src/src/sink_apply_identity.rs\<close>, and the
  partition key and index entry of \<^verbatim>\<open>src/src/buffer/segment_file.rs\<close>. The clock and the
  hexadecimal SHA-256 digest are arguments. The trait \<open>WalRefIdentity\<close> is the record of what
  its methods return; each implementation is a function into it.
\<close>

section \<open>Parts of a segment\<close>

record PartitionKey =
  pk_sink_ref :: string
  pk_namespace :: string
  pk_partition :: string
  pk_time :: "i64 option"
  pk_schema_fingerprint :: string

datatype SegmentPartMetaSummary = SummaryAppend | SummaryCdc u64 bytes

fun summary_is_cdc :: "SegmentPartMetaSummary \<Rightarrow> bool" where
  "summary_is_cdc SummaryAppend = False"
| "summary_is_cdc (SummaryCdc n h) = True"

fun summary_row_count :: "SegmentPartMetaSummary \<Rightarrow> u64 option" where
  "summary_row_count SummaryAppend = None"
| "summary_row_count (SummaryCdc n h) = Some n"

fun summary_canonical_hash :: "SegmentPartMetaSummary \<Rightarrow> bytes option" where
  "summary_canonical_hash SummaryAppend = None"
| "summary_canonical_hash (SummaryCdc n h) = Some h"

record SegmentPartitionIndexEntry =
  ie_key :: PartitionKey
  ie_bytes :: u64
  ie_updated_at_secs :: u64
  ie_slice_ordinal :: u32
  ie_part_meta_start :: u64
  ie_part_meta_len :: u64
  ie_part_meta_summary :: SegmentPartMetaSummary
  ie_codec :: u8
  ie_start :: u64
  ie_len :: u64

datatype SegmentSourceDescriptor = DiskSource string | S3Source string string | WalSource string

fun stable_id :: "SegmentSourceDescriptor \<Rightarrow> string" where
  "stable_id (DiskSource path) = path"
| "stable_id (S3Source bucket key) = ''s3://'' @ bucket @ ''/'' @ key"
| "stable_id (WalSource uri) = uri"

record WalPartRef =
  wr_segment_id :: string
  wr_source :: SegmentSourceDescriptor
  wr_start :: u64
  wr_len :: u64
  wr_key :: PartitionKey
  wr_cdc_meta_hash :: "bytes option"
  wr_ordinal :: "u32 option"

record RuntimeWalPartRef =
  rr_segment_id :: string
  rr_source :: string
  rr_start :: u64
  rr_len :: u64
  rr_sink_ref :: string
  rr_namespace :: string
  rr_partition :: string
  rr_time :: "i64 option"
  rr_schema_fingerprint :: string
  rr_cdc_meta_hash :: "bytes option"

definition to_runtime_ref :: "WalPartRef \<Rightarrow> RuntimeWalPartRef" where
  "to_runtime_ref w = \<lparr>
     rr_segment_id = wr_segment_id w,
     rr_source = stable_id (wr_source w),
     rr_start = wr_start w,
     rr_len = wr_len w,
     rr_sink_ref = pk_sink_ref (wr_key w),
     rr_namespace = pk_namespace (wr_key w),
     rr_partition = pk_partition (wr_key w),
     rr_time = pk_time (wr_key w),
     rr_schema_fingerprint = pk_schema_fingerprint (wr_key w),
     rr_cdc_meta_hash = wr_cdc_meta_hash w\<rparr>"

section \<open>Identity of a part\<close>

record WalRefIdentity =
  id_segment_id :: string
  id_source :: string
  id_start :: u64
  id_len :: u64
  id_sink_ref :: string
  id_namespace :: string
  id_partition :: string
  id_time :: "i64 option"
  id_schema_fingerprint :: string
  id_cdc_meta_hash :: "bytes option"

definition identity_of_runtime :: "RuntimeWalPartRef \<Rightarrow> WalRefIdentity" where
  "identity_of_runtime r = \<lparr>
     id_segment_id = rr_segment_id r, id_source = rr_source r, id_start = rr_start r, id_len = rr_len r,
     id_sink_ref = rr_sink_ref r, id_namespace = rr_namespace r, id_partition = rr_partition r,
     id_time = rr_time r, id_schema_fingerprint = rr_schema_fingerprint r,
     id_cdc_meta_hash = rr_cdc_meta_hash r\<rparr>"

definition identity_of_wal :: "WalPartRef \<Rightarrow> WalRefIdentity" where
  "identity_of_wal w = \<lparr>
     id_segment_id = wr_segment_id w, id_source = stable_id (wr_source w), id_start = wr_start w,
     id_len = wr_len w, id_sink_ref = pk_sink_ref (wr_key w), id_namespace = pk_namespace (wr_key w),
     id_partition = pk_partition (wr_key w), id_time = pk_time (wr_key w),
     id_schema_fingerprint = pk_schema_fingerprint (wr_key w),
     id_cdc_meta_hash = wr_cdc_meta_hash w\<rparr>"

definition i64_le :: "i64 \<Rightarrow> bytes" where
  "i64_le t = le_bytes 8 (nat (t mod 2 ^ 64))"

definition wal_ref_identity_bytes :: "WalRefIdentity \<Rightarrow> bytes" where
  "wal_ref_identity_bytes r =
     as_bytes (id_segment_id r) @ [0] @ as_bytes (id_source r) @ [0]
     @ u64_le (id_start r) @ u64_le (id_len r)
     @ as_bytes (id_sink_ref r) @ [0] @ as_bytes (id_namespace r) @ [0] @ as_bytes (id_partition r) @ [0]
     @ i64_le (case id_time r of Some t \<Rightarrow> t | None \<Rightarrow> 0)
     @ as_bytes (id_schema_fingerprint r)
     @ (case id_cdc_meta_hash r of Some h \<Rightarrow> h | None \<Rightarrow> [])"

definition canonical_sorted_wal_ref_identity_bytes :: "WalRefIdentity list \<Rightarrow> bytes list" where
  "canonical_sorted_wal_ref_identity_bytes rs = sort (map wal_ref_identity_bytes rs)"

definition hash_identities :: "WalRefIdentity list \<Rightarrow> bytes" where
  "hash_identities rs = concat (map (\<lambda>i. i @ [0xFF]) (canonical_sorted_wal_ref_identity_bytes rs))"

definition canonical_wal_refs_fingerprint :: "(bytes \<Rightarrow> string) \<Rightarrow> WalRefIdentity list \<Rightarrow> string" where
  "canonical_wal_refs_fingerprint sha_hex rs = sha_hex (as_bytes ''grouped-wal-refs-v2'' @ hash_identities rs)"

record CanonicalWalPartRef =
  cw_segment_id :: string
  cw_source :: string
  cw_start :: u64
  cw_len :: u64
  cw_sink_ref :: string
  cw_namespace :: string
  cw_partition :: string
  cw_time :: "i64 option"
  cw_schema_fingerprint :: string
  cw_cdc_meta_hash :: "bytes option"

definition canonical_from_runtime :: "RuntimeWalPartRef \<Rightarrow> CanonicalWalPartRef" where
  "canonical_from_runtime r = \<lparr>
     cw_segment_id = rr_segment_id r, cw_source = rr_source r, cw_start = rr_start r, cw_len = rr_len r,
     cw_sink_ref = rr_sink_ref r, cw_namespace = rr_namespace r, cw_partition = rr_partition r,
     cw_time = rr_time r, cw_schema_fingerprint = rr_schema_fingerprint r,
     cw_cdc_meta_hash = rr_cdc_meta_hash r\<rparr>"

definition identity_of_canonical :: "CanonicalWalPartRef \<Rightarrow> WalRefIdentity" where
  "identity_of_canonical c = \<lparr>
     id_segment_id = cw_segment_id c, id_source = cw_source c, id_start = cw_start c, id_len = cw_len c,
     id_sink_ref = cw_sink_ref c, id_namespace = cw_namespace c, id_partition = cw_partition c,
     id_time = cw_time c, id_schema_fingerprint = cw_schema_fingerprint c,
     id_cdc_meta_hash = cw_cdc_meta_hash c\<rparr>"

section \<open>The apply envelope\<close>

definition SINK_APPLY_ENVELOPE_V2 :: u32 where "SINK_APPLY_ENVELOPE_V2 = 2"

datatype SinkApplyGroupKind = GroupAppend | GroupCdc

record SinkApplyGroupingIdentity =
  gi_sink_ref :: string
  gi_namespace :: string
  gi_partition :: string
  gi_time :: "i64 option"
  gi_kind :: SinkApplyGroupKind

definition grouping_from_wal_refs :: "RuntimeWalPartRef list \<Rightarrow> bool \<Rightarrow> SinkApplyGroupingIdentity" where
  "grouping_from_wal_refs rs is_cdc = (let kind = (if is_cdc then GroupCdc else GroupAppend) in case rs of
      [] \<Rightarrow> \<lparr>gi_sink_ref = [], gi_namespace = [], gi_partition = [], gi_time = None, gi_kind = kind\<rparr>
    | r # _ \<Rightarrow> \<lparr>gi_sink_ref = rr_sink_ref r, gi_namespace = rr_namespace r, gi_partition = rr_partition r,
         gi_time = rr_time r, gi_kind = kind\<rparr>)"

record SinkApplyEnvelopeV2 =
  env_version :: u32
  env_compaction_id :: string
  env_idempotency_key :: string
  env_wal_refs :: "CanonicalWalPartRef list"
  env_wal_refs_fingerprint :: string
  env_grouping :: SinkApplyGroupingIdentity
  env_write_policy :: WritePolicy
  env_write_semantics :: SinkWriteSemantics
  env_schema_fingerprint :: "string option"
  env_schema_version :: "u64 option"
  env_source_contract :: "SourceNamespaceContract option"

definition envelope_new ::
  "(bytes \<Rightarrow> string) \<Rightarrow> string \<Rightarrow> string \<Rightarrow> RuntimeWalPartRef list \<Rightarrow> bool \<Rightarrow> WritePolicy \<Rightarrow> SinkWriteSemantics
     \<Rightarrow> string option \<Rightarrow> u64 option \<Rightarrow> SourceNamespaceContract option \<Rightarrow> SinkApplyEnvelopeV2"
where
  "envelope_new sha_hex cid ikey rs is_cdc policy semantics fp ver contract = \<lparr>
     env_version = SINK_APPLY_ENVELOPE_V2,
     env_compaction_id = cid,
     env_idempotency_key = ikey,
     env_wal_refs = sort_key (\<lambda>c. wal_ref_identity_bytes (identity_of_canonical c)) (map canonical_from_runtime rs),
     env_wal_refs_fingerprint = canonical_wal_refs_fingerprint sha_hex (map identity_of_runtime rs),
     env_grouping = grouping_from_wal_refs rs is_cdc,
     env_write_policy = policy,
     env_write_semantics = semantics,
     env_schema_fingerprint = fp,
     env_schema_version = ver,
     env_source_contract = contract\<rparr>"

definition has_cdc_metadata :: "SinkApplyEnvelopeV2 \<Rightarrow> bool" where
  "has_cdc_metadata e \<longleftrightarrow> list_ex (\<lambda>r. cw_cdc_meta_hash r \<noteq> None) (env_wal_refs e)"

section \<open>Compaction transactions\<close>

datatype CompactionTransactionState = TxnPending | TxnSent | TxnAcked

record CompactionTransaction =
  ct_id :: string
  ct_sink_ref :: string
  ct_namespace :: string
  ct_schema_fingerprint :: string
  ct_write_policy :: WritePolicy
  ct_semantics :: SinkWriteSemantics
  ct_refs :: "WalPartRef list"
  ct_target_filename :: string
  ct_created_at_secs :: u64
  ct_updated_at_secs :: u64
  ct_attempts :: u32
  ct_state :: CompactionTransactionState

definition deterministic_compaction_id ::
  "(bytes \<Rightarrow> string) \<Rightarrow> string \<Rightarrow> string \<Rightarrow> string \<Rightarrow> WritePolicy \<Rightarrow> WalPartRef list \<Rightarrow> string"
where
  "deterministic_compaction_id sha_hex sink_ref ns fp policy refs =
     sha_hex (as_bytes ''grouped-wal-compaction-v1'' @ as_bytes sink_ref @ [0] @ as_bytes ns @ [0]
       @ as_bytes fp @ [0] @ as_bytes (show_write_policy policy) @ hash_identities (map identity_of_wal refs))"

definition compaction_transaction_new ::
  "(bytes \<Rightarrow> string) \<Rightarrow> u64 \<Rightarrow> string \<Rightarrow> string \<Rightarrow> string \<Rightarrow> WritePolicy \<Rightarrow> SinkWriteSemantics \<Rightarrow> WalPartRef list \<Rightarrow> string \<Rightarrow> CompactionTransaction"
where
  "compaction_transaction_new sha_hex now sink_ref ns fp policy semantics refs target = \<lparr>
     ct_id = deterministic_compaction_id sha_hex sink_ref ns fp policy refs,
     ct_sink_ref = sink_ref,
     ct_namespace = ns,
     ct_schema_fingerprint = fp,
     ct_write_policy = policy,
     ct_semantics = semantics,
     ct_refs = refs,
     ct_target_filename = target,
     ct_created_at_secs = now,
     ct_updated_at_secs = now,
     ct_attempts = 0,
     ct_state = TxnPending\<rparr>"

definition with_state :: "u64 \<Rightarrow> CompactionTransactionState \<Rightarrow> CompactionTransaction \<Rightarrow> CompactionTransaction" where
  "with_state now st t = t\<lparr>ct_state := st, ct_updated_at_secs := now\<rparr>"

definition mark_sent :: "u64 \<Rightarrow> CompactionTransaction \<Rightarrow> CompactionTransaction" where
  "mark_sent now t = t\<lparr>ct_state := TxnSent, ct_attempts := sat_add (ct_attempts t) 1, ct_updated_at_secs := now\<rparr>"

definition mark_acked :: "u64 \<Rightarrow> CompactionTransaction \<Rightarrow> CompactionTransaction" where
  "mark_acked now t = t\<lparr>ct_state := TxnAcked, ct_updated_at_secs := now\<rparr>"

section \<open>Lemmas\<close>

lemma identity_canonical [simp]: "identity_of_canonical (canonical_from_runtime r) = identity_of_runtime r"
  by (simp add: identity_of_canonical_def canonical_from_runtime_def identity_of_runtime_def)

lemma identity_runtime_wal [simp]: "identity_of_runtime (to_runtime_ref w) = identity_of_wal w"
  by (simp add: identity_of_runtime_def to_runtime_ref_def identity_of_wal_def)

lemma hash_identities_mset: "mset rs = mset rs' \<Longrightarrow> hash_identities rs = hash_identities rs'"
proof -
  assume "mset rs = mset rs'"
  then have "mset (map wal_ref_identity_bytes rs) = mset (map wal_ref_identity_bytes rs')" by simp
  then have "sort (map wal_ref_identity_bytes rs) = sort (map wal_ref_identity_bytes rs')"
    by (metis mset_sort properties_for_sort sorted_sort)
  then show ?thesis by (simp add: hash_identities_def canonical_sorted_wal_ref_identity_bytes_def)
qed

text \<open>The text fields that precede a zero byte contain none.\<close>

definition identity_clean :: "WalRefIdentity \<Rightarrow> bool" where
  "identity_clean r \<longleftrightarrow> CHR 0x00 \<notin> set (id_segment_id r) \<and> CHR 0x00 \<notin> set (id_source r)
     \<and> CHR 0x00 \<notin> set (id_sink_ref r) \<and> CHR 0x00 \<notin> set (id_namespace r) \<and> CHR 0x00 \<notin> set (id_partition r)
     \<and> (case id_time r of Some t \<Rightarrow> - (2 ^ 63) \<le> t \<and> t < 2 ^ 63 | None \<Rightarrow> True)"

lemma u64_le_append_inj: "u64_le a @ x = u64_le b @ y \<longleftrightarrow> a = b \<and> x = y"
proof
  assume "u64_le a @ x = u64_le b @ y"
  then have "u64_le a = u64_le b \<and> x = y" by (simp add: append_eq_append_conv)
  then show "a = b \<and> x = y" by (metis u64_of_le_u64_le)
qed simp

lemma i64_le_append_inj:
  assumes "- (2 ^ 63) \<le> a" "a < 2 ^ 63" "- (2 ^ 63) \<le> b" "b < 2 ^ 63"
  shows "i64_le a @ x = i64_le b @ y \<longleftrightarrow> a = b \<and> x = y"
proof
  assume "i64_le a @ x = i64_le b @ y"
  then have e: "i64_le a = i64_le b" and "x = y" by (simp_all add: i64_le_def append_eq_append_conv)
  have "nat (c mod 2 ^ 64) < 256 ^ 8" for c :: int by (simp add: nat_less_iff)
  then have "le_val (i64_le c) = nat (c mod 2 ^ 64)" for c
    by (simp add: i64_le_def le_val_le_bytes)
  with e have "nat (a mod 2 ^ 64) = nat (b mod 2 ^ 64)" by metis
  then have "a mod 2 ^ 64 = b mod 2 ^ 64" by (simp add: eq_nat_nat_iff)
  then have d: "2 ^ 64 dvd a - b" by (simp add: mod_eq_dvd_iff)
  have "a = b"
  proof (rule ccontr)
    assume "a \<noteq> b"
    then have "\<bar>2 ^ 64\<bar> \<le> \<bar>a - b\<bar>" by (intro dvd_imp_le_int[OF _ d]) simp
    then show False using assms by simp
  qed
  then show "a = b \<and> x = y" using \<open>x = y\<close> by simp
qed simp

lemma identity_bytes_inj:
  assumes "identity_clean r" "identity_clean r'" "wal_ref_identity_bytes r = wal_ref_identity_bytes r'"
  shows "id_segment_id r = id_segment_id r'" "id_source r = id_source r'" "id_start r = id_start r'"
    "id_len r = id_len r'" "id_sink_ref r = id_sink_ref r'" "id_namespace r = id_namespace r'"
    "id_partition r = id_partition r'"
    "(case id_time r of Some t \<Rightarrow> t | None \<Rightarrow> 0) = (case id_time r' of Some t \<Rightarrow> t | None \<Rightarrow> 0)"
proof -
  define tm where "tm = (\<lambda>r :: WalRefIdentity. case id_time r of Some t \<Rightarrow> t | None \<Rightarrow> 0)"
  have z: "0 \<notin> set (as_bytes (id_segment_id x))" "0 \<notin> set (as_bytes (id_source x))"
    "0 \<notin> set (as_bytes (id_sink_ref x))" "0 \<notin> set (as_bytes (id_namespace x))"
    "0 \<notin> set (as_bytes (id_partition x))" if "identity_clean x" for x
    using that by (auto simp: identity_clean_def intro!: as_bytes_no_zero)
  have b: "- (2 ^ 63) \<le> tm x" "tm x < 2 ^ 63" if "identity_clean x" for x
    using that by (auto simp: identity_clean_def tm_def split: option.splits)
  note zr = z[OF assms(1)] z[OF assms(2)]
  note tb = b[OF assms(1)] b[OF assms(2)]
  have "as_bytes (id_segment_id r) @ 0 # as_bytes (id_source r) @ 0 # u64_le (id_start r) @ u64_le (id_len r)
     @ as_bytes (id_sink_ref r) @ 0 # as_bytes (id_namespace r) @ 0 # as_bytes (id_partition r) @ 0 #
       i64_le (tm r) @ as_bytes (id_schema_fingerprint r) @ (case id_cdc_meta_hash r of Some h \<Rightarrow> h | None \<Rightarrow> [])
   = as_bytes (id_segment_id r') @ 0 # as_bytes (id_source r') @ 0 # u64_le (id_start r') @ u64_le (id_len r')
     @ as_bytes (id_sink_ref r') @ 0 # as_bytes (id_namespace r') @ 0 # as_bytes (id_partition r') @ 0 #
       i64_le (tm r') @ as_bytes (id_schema_fingerprint r') @ (case id_cdc_meta_hash r' of Some h \<Rightarrow> h | None \<Rightarrow> [])"
    using assms(3) by (simp add: wal_ref_identity_bytes_def tm_def)
  then have all: "id_segment_id r = id_segment_id r' \<and> id_source r = id_source r' \<and> id_start r = id_start r'
    \<and> id_len r = id_len r' \<and> id_sink_ref r = id_sink_ref r' \<and> id_namespace r = id_namespace r'
    \<and> id_partition r = id_partition r' \<and> tm r = tm r'"
    using zr tb by (simp add: sep_append_inj u64_le_append_inj i64_le_append_inj as_bytes_inj)
  then show "id_segment_id r = id_segment_id r'" "id_source r = id_source r'" "id_start r = id_start r'"
    "id_len r = id_len r'" "id_sink_ref r = id_sink_ref r'" "id_namespace r = id_namespace r'"
    "id_partition r = id_partition r'" by simp_all
  show "(case id_time r of Some t \<Rightarrow> t | None \<Rightarrow> 0) = (case id_time r' of Some t \<Rightarrow> t | None \<Rightarrow> 0)"
    using all by (simp add: tm_def)
qed

section \<open>Properties\<close>

text \<open>The id of a compaction depends on its set of WAL parts and not on their order, so a replay
  that collects the same parts in another order reproduces the id; the same holds for the
  fingerprint of the apply envelope, which also keeps exactly the parts it was given, sorted
  by identity.\<close>

theorem compaction_identity_order_free:
  assumes "mset refs = mset refs'"
  shows "deterministic_compaction_id sha sink ns fp pol refs = deterministic_compaction_id sha sink ns fp pol refs'
     \<and> (let e = envelope_new sha cid ik (map to_runtime_ref refs) cdc pol sem f v c;
            e' = envelope_new sha cid ik (map to_runtime_ref refs') cdc pol sem f v c
        in env_wal_refs_fingerprint e = env_wal_refs_fingerprint e'
           \<and> mset (env_wal_refs e) = mset (map (\<lambda>w. canonical_from_runtime (to_runtime_ref w)) refs)
           \<and> sorted (map (\<lambda>x. wal_ref_identity_bytes (identity_of_canonical x)) (env_wal_refs e)))"
proof -
  have "mset (map identity_of_wal refs) = mset (map identity_of_wal refs')" using assms by simp
  from hash_identities_mset[OF this]
  show ?thesis
    by (simp add: deterministic_compaction_id_def envelope_new_def canonical_wal_refs_fingerprint_def
        comp_def Let_def)
qed

abbreviation sample_wal_ref :: "string \<Rightarrow> u64 \<Rightarrow> WalPartRef" where
  "sample_wal_ref seg start \<equiv> \<lparr>wr_segment_id = seg, wr_source = WalSource seg, wr_start = start, wr_len = 8,
     wr_key = \<lparr>pk_sink_ref = ''s'', pk_namespace = ''n'', pk_partition = ''p'', pk_time = None, pk_schema_fingerprint = ''f''\<rparr>,
     wr_cdc_meta_hash = None, wr_ordinal = None\<rparr>"

theorem compaction_identity_order_free_witness:
  "deterministic_compaction_id string_of_bytes ''s'' ''n'' ''f'' Append [sample_wal_ref ''a'' 0, sample_wal_ref ''b'' 8]
   = deterministic_compaction_id string_of_bytes ''s'' ''n'' ''f'' Append [sample_wal_ref ''b'' 8, sample_wal_ref ''a'' 0]"
  by (rule compaction_identity_order_free[THEN conjunct1]) (simp add: add_mset_commute)

text \<open>The identity bytes determine the part: two parts with equal identity bytes, whose text fields
  hold no zero byte, agree on segment, source, byte range, sink, namespace, partition and
  time, except that a missing time and time zero are not told apart.\<close>

theorem identity_bytes_determine_part:
  assumes "identity_clean r" "identity_clean r'" "wal_ref_identity_bytes r = wal_ref_identity_bytes r'"
  shows "(id_segment_id r, id_source r, id_start r, id_len r) = (id_segment_id r', id_source r', id_start r', id_len r')
     \<and> (id_sink_ref r, id_namespace r, id_partition r) = (id_sink_ref r', id_namespace r', id_partition r')
     \<and> (id_time r = id_time r' \<or> {id_time r, id_time r'} = {None, Some 0})"
  using identity_bytes_inj[OF assms] by (auto split: option.splits)

theorem identity_bytes_determine_part_witness:
  "let r = identity_of_wal (sample_wal_ref ''a'' 0); r' = r\<lparr>id_time := Some 0\<rparr> in
     wal_ref_identity_bytes r = wal_ref_identity_bytes r' \<and> r \<noteq> r' \<and>
     (id_time r = id_time r' \<or> {id_time r, id_time r'} = {None, Some 0})"
proof -
  let ?r = "identity_of_wal (sample_wal_ref ''a'' 0)"
  have c: "identity_clean ?r" "identity_clean (?r\<lparr>id_time := Some 0\<rparr>)"
    by (simp_all add: identity_clean_def identity_of_wal_def)
  have e: "wal_ref_identity_bytes ?r = wal_ref_identity_bytes (?r\<lparr>id_time := Some 0\<rparr>)"
    by (simp add: wal_ref_identity_bytes_def identity_of_wal_def)
  have "?r \<noteq> ?r\<lparr>id_time := Some 0\<rparr>" by (simp add: identity_of_wal_def)
  then show ?thesis
    using identity_bytes_determine_part[OF c e, THEN conjunct2, THEN conjunct2] e unfolding Let_def by blast
qed

end
