(* ===== verification/Segment_File.thy ===== *)
theory Segment_File
  imports Compaction_Txn "HOL-Library.Option_ord"
begin

text \<open>
  Segment files (\<^verbatim>\<open>src/src/buffer/segment_file.rs\<close>): the SEGF layout as the encoder writes it and
  as the readers parse it. Conventions: a \<open>Read + Seek\<close> value is the bytes of the file with a
  position; a \<open>HashMap\<close> argument is the list of its entries in iteration order; a
  \<open>SystemTime\<close> is its distance from the Unix epoch in nanoseconds. bincode, SHA-256 and the
  Arrow IPC writer are arguments, collected in \<open>seg_env\<close>; a failing codec returns its message.
\<close>

section \<open>Types\<close>

datatype io_error = UnexpectedEof | InvalidData string | OtherError string

datatype OffsetKey = OffsetKey (ok_namespace: string) (ok_partition: string)

type_synonym SystemTime = int

record CopyPart =
  cpt_chunks :: "bytes list"
  cpt_rows :: u64
  cpt_estimated_bytes :: u64

datatype 'b WalPayload = ArrowPayload "'b list" | CopyPayload CopyPart

record SegmentFileMetadata =
  sm_created_at_secs :: u64
  sm_total_bytes :: u64
  sm_num_partitions :: u32
  sm_offsets :: "OffsetKey \<rightharpoonup> u64"
  sm_index :: "SegmentPartitionIndexEntry list"
  sm_body_sha256 :: bytes

record EncodedSnapshot =
  en_bytes :: bytes
  en_meta :: SegmentFileMetadata
  en_total_rows :: u64
  en_sha256 :: bytes

record 'b seg_env =
  bin_offsets :: "(OffsetKey \<times> u64) list \<Rightarrow> string + bytes"
  unbin_offsets :: "bytes \<Rightarrow> string + (OffsetKey \<rightharpoonup> u64)"
  bin_key :: "PartitionKey \<Rightarrow> string + bytes"
  unbin_key :: "bytes \<Rightarrow> string + PartitionKey"
  bin_meta :: "WalPartMeta \<Rightarrow> string + bytes"
  unbin_meta :: "bytes \<Rightarrow> string + WalPartMeta"
  sha256 :: "bytes \<Rightarrow> bytes"
  arrow_ipc :: "'b list \<Rightarrow> string + bytes"
  num_rows :: "'b \<Rightarrow> u64"
  array_memory_size :: "'b \<Rightarrow> u64"

section \<open>Constants\<close>

definition PART_CODEC_ARROW :: u8 where "PART_CODEC_ARROW = 0"
definition PART_CODEC_COPY :: u8 where "PART_CODEC_COPY = 1"
definition PART_CODEC_COPY_CHUNKED :: u8 where "PART_CODEC_COPY_CHUNKED = 2"
definition SEGF_VERSION_V3 :: u32 where "SEGF_VERSION_V3 = 3"
definition SEGF_VERSION :: u32 where "SEGF_VERSION = 4"
definition MAGIC :: bytes where "MAGIC = as_bytes ''SEGF''"
definition PART_TAG :: bytes where "PART_TAG = as_bytes ''PART''"
definition FOOT_TAG :: bytes where "FOOT_TAG = as_bytes ''FOOT''"
definition FOOTER_LEN :: nat where "FOOTER_LEN = 4 + 4 + 32"

definition is_copy_codec :: "u8 \<Rightarrow> bool" where
  "is_copy_codec codec \<longleftrightarrow> codec \<in> {PART_CODEC_COPY, PART_CODEC_COPY_CHUNKED}"

definition accepted_segf_version :: "u32 \<Rightarrow> bool" where
  "accepted_segf_version v \<longleftrightarrow> v = SEGF_VERSION_V3 \<or> v = SEGF_VERSION"

section \<open>Payloads\<close>

definition copy_default :: CopyPart where
  "copy_default = \<lparr>cpt_chunks = [], cpt_rows = 0, cpt_estimated_bytes = 0\<rparr>"

definition copy_extend :: "CopyPart \<Rightarrow> CopyPart \<Rightarrow> CopyPart" where
  "copy_extend p other = \<lparr>cpt_chunks = cpt_chunks p @ cpt_chunks other, cpt_rows = sat_add (cpt_rows p) (cpt_rows other),
     cpt_estimated_bytes = sat_add (cpt_estimated_bytes p) (cpt_estimated_bytes other)\<rparr>"

fun payload_is_empty :: "'b WalPayload \<Rightarrow> bool" where
  "payload_is_empty (ArrowPayload bs) = (bs = [])"
| "payload_is_empty (CopyPayload p) = (cpt_rows p = 0)"

fun payload_estimated_bytes :: "'b seg_env \<Rightarrow> 'b WalPayload \<Rightarrow> u64" where
  "payload_estimated_bytes env (ArrowPayload bs) = sum_list (map (array_memory_size env) bs)"
| "payload_estimated_bytes env (CopyPayload p) = cpt_estimated_bytes p"

fun payload_row_count :: "'b seg_env \<Rightarrow> 'b WalPayload \<Rightarrow> u64" where
  "payload_row_count env (ArrowPayload bs) = sum_list (map (num_rows env) bs)"
| "payload_row_count env (CopyPayload p) = cpt_rows p"

fun payload_codec :: "'b WalPayload \<Rightarrow> u8" where
  "payload_codec (ArrowPayload bs) = PART_CODEC_ARROW"
| "payload_codec (CopyPayload p) = PART_CODEC_COPY_CHUNKED"

fun payload_extend :: "'b WalPayload \<Rightarrow> 'b WalPayload \<Rightarrow> string + 'b WalPayload" where
  "payload_extend (ArrowPayload dst) (ArrowPayload src) = Inr (ArrowPayload (dst @ src))"
| "payload_extend (CopyPayload dst) (CopyPayload src) = Inr (CopyPayload (copy_extend dst src))"
| "payload_extend dst src = Inl ''WAL partition mixed Arrow and copy payloads''"

section \<open>Reading\<close>

definition read_exact :: "nat \<Rightarrow> bytes \<Rightarrow> nat \<Rightarrow> io_error + bytes \<times> nat" where
  "read_exact n file pos = (if pos + n \<le> length file then Inr (take n (drop pos file), pos + n) else Inl UnexpectedEof)"

definition read_u64 :: "bytes \<Rightarrow> nat \<Rightarrow> io_error + u64 \<times> nat" where
  "read_u64 file pos = bindR (read_exact 8 file pos) (\<lambda>(buf, pos). Inr (u64_of_le buf, pos))"

definition read_u32 :: "bytes \<Rightarrow> nat \<Rightarrow> io_error + u32 \<times> nat" where
  "read_u32 file pos = bindR (read_exact 4 file pos) (\<lambda>(buf, pos). Inr (u32_of_le buf, pos))"

definition claimed_len_capped_by_remaining :: "u64 \<Rightarrow> nat \<Rightarrow> nat \<Rightarrow> string \<Rightarrow> io_error + nat" where
  "claimed_len_capped_by_remaining claimed pos file_len what = (let remaining = file_len - pos in
     if remaining < unat claimed then
       Inl (InvalidData (what @ '' length '' @ show_nat (unat claimed) @ '' exceeds remaining '' @ show_nat remaining))
     else Inr (unat claimed))"

definition read_len_capped_by_remaining :: "string \<Rightarrow> bytes \<Rightarrow> nat \<Rightarrow> io_error + nat \<times> nat" where
  "read_len_capped_by_remaining what file pos = bindR (read_u64 file pos) (\<lambda>(claimed, pos).
     bindR (claimed_len_capped_by_remaining claimed pos (length file) what) (\<lambda>len. Inr (len, pos)))"

definition read_blob_capped_by_remaining :: "string \<Rightarrow> bytes \<Rightarrow> nat \<Rightarrow> io_error + bytes \<times> nat" where
  "read_blob_capped_by_remaining what file pos = bindR (read_len_capped_by_remaining what file pos) (\<lambda>(len, pos).
     read_exact len file pos)"

definition skip_claimed_len :: "string \<Rightarrow> bytes \<Rightarrow> nat \<Rightarrow> io_error + nat" where
  "skip_claimed_len what file pos = bindR (read_len_capped_by_remaining what file pos) (\<lambda>(len, pos).
     if 2 ^ 64 \<le> pos + len then Inl (InvalidData (what @ '' range overflow'')) else Inr (pos + len))"

definition skip_payload :: "u64 \<Rightarrow> bytes \<Rightarrow> nat \<Rightarrow> io_error + nat" where
  "skip_payload data_len file pos = (let endp = pos + unat data_len in
     if 2 ^ 64 \<le> endp then Inl (InvalidData ''WAL PART payload range overflow'')
     else if length file < endp then
       Inl (InvalidData (''Compactor: partition length beyond segment end start='' @ show_nat pos @ '' len=''
         @ show_nat (unat data_len) @ '' file_len='' @ show_nat (length file)))
     else Inr endp)"

definition read_part_codec_and_len :: "u32 \<Rightarrow> bytes \<Rightarrow> nat \<Rightarrow> io_error + (u8 \<times> u64) \<times> nat" where
  "read_part_codec_and_len version file pos =
     bindR (if SEGF_VERSION \<le> version then bindR (read_exact 1 file pos) (\<lambda>(buf, pos). Inr (hd buf, pos))
            else Inr (PART_CODEC_ARROW, pos)) (\<lambda>(codec, pos).
       if codec \<noteq> PART_CODEC_ARROW \<and> \<not> is_copy_codec codec then
         Inl (InvalidData (''unknown WAL PART codec '' @ show_nat (unat codec)))
       else bindR (read_u64 file pos) (\<lambda>(len, pos). Inr ((codec, len), pos)))"

definition parse_part_meta_blob :: "'b seg_env \<Rightarrow> bytes \<Rightarrow> io_error + WalPartMeta \<times> SegmentPartMetaSummary" where
  "parse_part_meta_blob env blob = (case unbin_meta env blob of
      Inl e \<Rightarrow> Inl (InvalidData (''invalid WAL PART metadata: '' @ e))
    | Inr m \<Rightarrow> (case part_meta_validate m of
        Inl e \<Rightarrow> Inl (InvalidData (''invalid WAL PART metadata: '' @ wal_part_meta_error_display e))
      | Inr _ \<Rightarrow> (case pm_kind m of
          PartAppend \<Rightarrow> Inr (m, SummaryAppend)
        | PartCdc \<Rightarrow> (case bin_meta env m of
            Inl e \<Rightarrow> Inl (InvalidData (''serialize WAL PART metadata: '' @ e))
          | Inr canonical \<Rightarrow> Inr (m, SummaryCdc (row_count m) (sha256 env canonical))))))"

definition summarize_part_meta_blob :: "'b seg_env \<Rightarrow> bytes \<Rightarrow> io_error + SegmentPartMetaSummary" where
  "summarize_part_meta_blob env blob = (if blob = [] then Inr SummaryAppend
     else bindR (parse_part_meta_blob env blob) (\<lambda>(_, summary). Inr summary))"

definition verify_body_checksum :: "'b seg_env \<Rightarrow> bytes \<Rightarrow> io_error + bytes" where
  "verify_body_checksum env file = (if length file < FOOTER_LEN then Inl (InvalidData ''segment too short for FOOT'')
     else let prefix_len = length file - FOOTER_LEN; footer = drop prefix_len file in
       if take 4 footer \<noteq> FOOT_TAG then Inl (InvalidData ''missing FOOT'')
       else let claimed = take 32 (drop 8 footer) in
         if sha256 env (take prefix_len file) \<noteq> claimed then Inl (InvalidData ''FOOT sha256 does not match body'')
         else Inr claimed)"

text \<open>The body of the loop of the metadata reader, from the byte after a PART tag: the entry it
  pushes, the length it adds up, and the position behind the payload.\<close>

definition read_part_entry ::
  "'b seg_env \<Rightarrow> u32 \<Rightarrow> nat \<Rightarrow> bytes \<Rightarrow> nat \<Rightarrow> io_error + SegmentPartitionIndexEntry \<times> nat"
where
  "read_part_entry env version ordinal file pos =
     bindR (read_blob_capped_by_remaining ''WAL partition key'' file pos) (\<lambda>(key_blob, pos).
     bindR (case unbin_key env key_blob of Inl e \<Rightarrow> Inl (InvalidData (''invalid WAL partition key: '' @ e)) | Inr k \<Rightarrow> Inr k) (\<lambda>key.
     bindR (read_u64 file pos) (\<lambda>(part_bytes, pos).
     bindR (read_u64 file pos) (\<lambda>(upd_secs, pos).
     bindR (read_u64 file pos) (\<lambda>(meta_len, part_meta_start).
     let remaining = length file - part_meta_start in
     if remaining < unat meta_len then
       Inl (InvalidData (''WAL PART metadata length '' @ show_nat (unat meta_len) @ '' exceeds remaining '' @ show_nat remaining))
     else
     bindR (if meta_len = 0 then Inr (SummaryAppend, part_meta_start)
            else bindR (read_exact (unat meta_len) file part_meta_start) (\<lambda>(meta_blob, pos).
              bindR (summarize_part_meta_blob env meta_blob) (\<lambda>summary. Inr (summary, pos)))) (\<lambda>(summary, pos).
     if 0 < meta_len \<and> 2 ^ 64 \<le> part_meta_start + unat meta_len then Inl (InvalidData ''WAL PART metadata range overflow'')
     else if 0 < meta_len \<and> pos \<noteq> part_meta_start + unat meta_len then Inl (InvalidData ''WAL PART metadata length mismatch'')
     else
     bindR (read_part_codec_and_len version file pos) (\<lambda>((codec, data_len), start).
     bindR (skip_payload data_len file start) (\<lambda>endp.
     if 2 ^ 32 \<le> ordinal then Inl (InvalidData ''WAL segment contains too many partitions'')
     else Inr (\<lparr>ie_key = key, ie_bytes = part_bytes, ie_updated_at_secs = upd_secs, ie_slice_ordinal = word_of_nat ordinal,
                ie_part_meta_start = word_of_nat part_meta_start, ie_part_meta_len = meta_len, ie_part_meta_summary = summary,
                ie_codec = codec, ie_start = word_of_nat start, ie_len = data_len\<rparr>, endp)))))))))"

lemma read_exact_InrD:
  assumes "read_exact n file pos = Inr (bs, pos')"
  shows "pos' = pos + n" "pos' \<le> length file" "bs = take n (drop pos file)" "length bs = n"
  using assms by (auto simp: read_exact_def split: if_splits)

lemma read_u64_InrD: "read_u64 file pos = Inr (v, pos') \<Longrightarrow> pos' = pos + 8 \<and> pos' \<le> length file"
  by (auto simp: read_u64_def bindR_Inr_iff dest: read_exact_InrD)

lemma read_u32_InrD: "read_u32 file pos = Inr (v, pos') \<Longrightarrow> pos' = pos + 4 \<and> pos' \<le> length file"
  by (auto simp: read_u32_def bindR_Inr_iff dest: read_exact_InrD)

lemma read_len_InrD:
  "read_len_capped_by_remaining what file pos = Inr (len, pos') \<Longrightarrow> pos' = pos + 8 \<and> pos' + len \<le> length file"
  by (fastforce simp: read_len_capped_by_remaining_def claimed_len_capped_by_remaining_def bindR_Inr_iff Let_def
      dest: read_u64_InrD split: if_splits)

lemma read_blob_InrD:
  "read_blob_capped_by_remaining what file pos = Inr (blob, pos') \<Longrightarrow> pos' = pos + 8 + length blob \<and> pos' \<le> length file"
  unfolding read_blob_capped_by_remaining_def bindR_Inr_iff by (auto simp: read_exact_def dest!: read_len_InrD split: if_splits)

lemma skip_payload_InrD:
  "skip_payload n file pos = Inr endp \<Longrightarrow> endp = pos + unat n \<and> endp \<le> length file \<and> endp < 2 ^ 64"
  by (auto simp: skip_payload_def Let_def split: if_splits)

lemma read_codec_InrD:
  "read_part_codec_and_len version file pos = Inr ((codec, len), pos') \<Longrightarrow>
     pos + 8 \<le> pos' \<and> pos' \<le> length file \<and> (codec = PART_CODEC_ARROW \<or> is_copy_codec codec)"
  by (fastforce simp: read_part_codec_and_len_def bindR_Inr_iff dest: read_exact_InrD read_u64_InrD split: if_splits)

lemma read_part_entry_InrD:
  assumes "read_part_entry env version ordinal file pos = Inr (e, pos')"
  shows "\<exists>ms st. pos + 32 \<le> ms \<and> ms + unat (ie_part_meta_len e) \<le> st \<and> pos' = st + unat (ie_len e) \<and> pos' \<le> length file \<and> pos' < 2 ^ 64
    \<and> ie_part_meta_start e = word_of_nat ms \<and> ie_start e = word_of_nat st \<and> ordinal < 2 ^ 32 \<and> ie_slice_ordinal e = word_of_nat ordinal
    \<and> (ie_codec e = PART_CODEC_ARROW \<or> is_copy_codec (ie_codec e))"
proof -
  from assms obtain key_blob p1 part_bytes p2 upd p3 meta_len ms summary p4 codec len st where
    r: "read_blob_capped_by_remaining ''WAL partition key'' file pos = Inr (key_blob, p1)" "read_u64 file p1 = Inr (part_bytes, p2)"
      "read_u64 file p2 = Inr (upd, p3)" "read_u64 file p3 = Inr (meta_len, ms)"
    and m: "(if meta_len = 0 then Inr (SummaryAppend, ms)
            else bindR (read_exact (unat meta_len) file ms) (\<lambda>(meta_blob, pos).
              bindR (summarize_part_meta_blob env meta_blob) (\<lambda>summary. Inr (summary, pos)))) = Inr (summary, p4)"
    and c: "read_part_codec_and_len version file p4 = Inr ((codec, len), st)" "skip_payload len file st = Inr pos'" "ordinal < 2 ^ 32"
    and e: "ie_part_meta_start e = word_of_nat ms" "ie_part_meta_len e = meta_len" "ie_codec e = codec" "ie_start e = word_of_nat st"
      "ie_len e = len" "ie_slice_ordinal e = word_of_nat ordinal"
    unfolding read_part_entry_def by (auto simp: bindR_Inr_iff Let_def not_le split: if_splits)
  have "p4 = ms + unat meta_len" using m by (auto simp: bindR_Inr_iff dest: read_exact_InrD(1) split: if_splits)
  moreover have "pos + 32 \<le> ms" using read_blob_InrD[OF r(1)] read_u64_InrD[OF r(2)] read_u64_InrD[OF r(3)] read_u64_InrD[OF r(4)] by simp
  moreover have "ms + unat meta_len \<le> st" "codec = PART_CODEC_ARROW \<or> is_copy_codec codec"
    using read_codec_InrD[OF c(1)] calculation by auto
  ultimately show ?thesis using e c(3) skip_payload_InrD[OF c(2)] by (intro exI[of _ ms] exI[of _ st]) simp
qed

function read_part_entries ::
  "'b seg_env \<Rightarrow> u32 \<Rightarrow> SegmentPartitionIndexEntry list \<Rightarrow> u64 \<Rightarrow> bytes \<Rightarrow> nat \<Rightarrow> io_error + (SegmentPartitionIndexEntry list \<times> u64) \<times> nat"
where
  "read_part_entries env version index total_bytes file pos =
     (case read_exact 4 file pos of
        Inl UnexpectedEof \<Rightarrow> Inl (InvalidData ''WAL segment missing FOOT'')
      | Inl e \<Rightarrow> Inl e
      | Inr (tag, pos) \<Rightarrow>
         (if tag = FOOT_TAG then Inr ((index, total_bytes), pos)
          else if tag \<noteq> PART_TAG then Inl (InvalidData ''WAL segment expected PART or FOOT'')
          else case read_part_entry env version (length index) file pos of
            Inl e \<Rightarrow> Inl e
          | Inr (entry, pos) \<Rightarrow>
              read_part_entries env version (index @ [entry]) (sat_add total_bytes (ie_len entry)) file pos))"
  by pat_completeness auto
termination
proof (relation "measure (\<lambda>(env, version, index, total_bytes, file, pos). length file - pos)", goal_cases)
  case (2 env version index total_bytes f pos x tag pos1 y e pos2)
  have "pos1 = pos + 4" "pos1 \<le> length f" using read_exact_InrD(1,2) 2 by blast+
  moreover have "pos1 \<le> pos2" "pos2 \<le> length f" using read_part_entry_InrD 2 by force+
  ultimately show ?case by auto
qed simp

declare read_part_entries.simps [simp del]

definition read_metadata_from_bytes :: "'b seg_env \<Rightarrow> bytes \<Rightarrow> io_error + SegmentFileMetadata" where
  "read_metadata_from_bytes env file =
     bindR (read_exact 4 file 0) (\<lambda>(magic, pos).
     if magic \<noteq> MAGIC then Inl (InvalidData ''Compactor: bad segment magic'')
     else bindR (read_u32 file pos) (\<lambda>(version, pos).
     if \<not> accepted_segf_version version then Inl (InvalidData (''Compactor: read refused version='' @ show_nat (unat version)))
     else bindR (read_u64 file pos) (\<lambda>(created_at_secs, pos).
     bindR (read_blob_capped_by_remaining ''WAL offsets blob'' file pos) (\<lambda>(offsets_blob, pos).
     bindR (case unbin_offsets env offsets_blob of Inl e \<Rightarrow> Inl (InvalidData (''invalid WAL offsets metadata: '' @ e)) | Inr o' \<Rightarrow> Inr o') (\<lambda>offsets.
     bindR (read_part_entries env version [] 0 file pos) (\<lambda>((index, total_bytes), pos).
     bindR (read_u32 file pos) (\<lambda>(footer_parts, pos).
     bindR (read_exact 32 file pos) (\<lambda>(body_sha256, pos).
     if pos \<noteq> length file then Inl (InvalidData ''WAL segment has trailing bytes after FOOT'')
     else if 2 ^ 32 \<le> length index then Inl (InvalidData ''WAL segment contains too many partitions'')
     else let num_partitions = word_of_nat (length index) in
       if footer_parts \<noteq> num_partitions then
         Inl (InvalidData (''FOOT parts_count '' @ show_nat (unat footer_parts) @ '' does not match index '' @ show_nat (unat num_partitions)))
       else Inr \<lparr>sm_created_at_secs = created_at_secs, sm_total_bytes = total_bytes, sm_num_partitions = num_partitions,
                  sm_offsets = offsets, sm_index = index, sm_body_sha256 = body_sha256\<rparr>))))))))"

text \<open>\<open>admit_payload_path\<close> on the bytes of the file.\<close>

definition admit_payload :: "'b seg_env \<Rightarrow> bytes \<Rightarrow> bytes \<Rightarrow> io_error + SegmentFileMetadata" where
  "admit_payload env expected_sha body = bindR (verify_body_checksum env body) (\<lambda>claimed.
     if claimed \<noteq> expected_sha then Inl (InvalidData ''payload sha256 does not match catalog row'')
     else bindR (read_metadata_from_bytes env body) (\<lambda>m.
       if claimed \<noteq> sm_body_sha256 m then Inl (InvalidData ''FOOT digest disagrees with metadata scan'') else Inr m))"

definition read_part_meta_from_reader :: "'b seg_env \<Rightarrow> bytes \<Rightarrow> SegmentPartitionIndexEntry \<Rightarrow> io_error + WalPartMeta option" where
  "read_part_meta_from_reader env file e = (if ie_part_meta_len e = 0 then
       (if ie_part_meta_summary e \<noteq> SummaryAppend then Inl (InvalidData ''CDC WAL PART metadata summary has an empty sidecar'')
        else Inr None)
     else bindR (read_exact (unat (ie_part_meta_len e)) file (unat (ie_part_meta_start e))) (\<lambda>(blob, _).
       bindR (parse_part_meta_blob env blob) (\<lambda>(m, summary).
         if summary \<noteq> ie_part_meta_summary e then
           Inl (InvalidData (''WAL PART metadata summary mismatch at slice ordinal '' @ show_nat (unat (ie_slice_ordinal e))))
         else Inr (Some m))))"

definition read_part_meta_from_bytes :: "'b seg_env \<Rightarrow> bytes \<Rightarrow> SegmentPartitionIndexEntry \<Rightarrow> io_error + WalPartMeta option" where
  "read_part_meta_from_bytes env file e = (case checked_add (ie_part_meta_start e) (ie_part_meta_len e) of
      None \<Rightarrow> Inl (InvalidData ''WAL PART metadata range overflow'')
    | Some endp \<Rightarrow>
       if length file < unat endp then
         Inl (InvalidData (''WAL PART metadata range beyond segment end start='' @ show_nat (unat (ie_part_meta_start e))
           @ '' len='' @ show_nat (unat (ie_part_meta_len e)) @ '' file_len='' @ show_nat (length file)))
       else read_part_meta_from_reader env file e)"

text \<open>The full scan for metadata sidecars, which skips what it does not need.\<close>

definition scan_part ::
  "'b seg_env \<Rightarrow> u32 \<Rightarrow> (PartitionKey \<rightharpoonup> bytes) \<Rightarrow> bytes \<Rightarrow> nat \<Rightarrow> io_error + (PartitionKey \<rightharpoonup> bytes) \<times> nat"
where
  "scan_part env version result file pos =
     bindR (read_blob_capped_by_remaining ''WAL partition key'' file pos) (\<lambda>(key_blob, pos).
     bindR (case unbin_key env key_blob of
         Inl e \<Rightarrow> Inl (InvalidData (''invalid WAL partition key in part-meta scan: '' @ e)) | Inr k \<Rightarrow> Inr k) (\<lambda>key.
     bindR (read_u64 file (pos + 16)) (\<lambda>(meta_len, pos).
     let remaining = length file - pos in
     if remaining < unat meta_len then
       Inl (InvalidData (''WAL PART metadata length '' @ show_nat (unat meta_len) @ '' exceeds remaining '' @ show_nat remaining))
     else
     bindR (if 0 < meta_len then bindR (read_exact (unat meta_len) file pos) (\<lambda>(meta_blob, pos). Inr (result(key \<mapsto> meta_blob), pos))
            else Inr (result, pos)) (\<lambda>(result, pos).
     bindR (read_part_codec_and_len version file pos) (\<lambda>((codec, data_len), pos).
     bindR (skip_payload data_len file pos) (\<lambda>pos. Inr (result, pos)))))))"

lemma scan_part_InrD:
  assumes "scan_part env version result file pos = Inr (result', pos')"
  shows "pos \<le> pos'" "pos' \<le> length file"
proof -
  from assms obtain kb p1 ml p2 key where
    r: "read_blob_capped_by_remaining ''WAL partition key'' file pos = Inr (kb, p1)" "read_u64 file (p1 + 16) = Inr (ml, p2)"
    and rest: "bindR (if 0 < ml then bindR (read_exact (unat ml) file p2) (\<lambda>(meta_blob, pos). Inr (result(key \<mapsto> meta_blob), pos))
            else Inr (result, p2)) (\<lambda>(result, pos).
      bindR (read_part_codec_and_len version file pos) (\<lambda>((codec, data_len), pos).
      bindR (skip_payload data_len file pos) (\<lambda>pos. Inr (result, pos)))) = Inr (result', pos')"
    unfolding scan_part_def by (auto simp: bindR_Inr_iff[of "read_blob_capped_by_remaining what f p" for what f p]
        bindR_Inr_iff[of "read_u64 f p" for f p] bindR_Inr_iff[of "case r of Inl e \<Rightarrow> Inl (g e) | Inr k \<Rightarrow> Inr k" for r g] Let_def split: if_splits)
  then obtain p3 codec len p4 where "p2 \<le> p3" "read_part_codec_and_len version file p3 = Inr ((codec, len), p4)" "skip_payload len file p4 = Inr pos'"
    by (auto simp: bindR_Inr_iff split: if_splits) (metis read_exact_InrD(1) le_add1)
  then show "pos \<le> pos'" "pos' \<le> length file"
    using read_blob_InrD[OF r(1)] read_u64_InrD[OF r(2)] read_codec_InrD[of version "file" p3 codec len p4] skip_payload_InrD[of len "file" p4 pos'] by auto
qed

function scan_parts :: "'b seg_env \<Rightarrow> u32 \<Rightarrow> (PartitionKey \<rightharpoonup> bytes) \<Rightarrow> bytes \<Rightarrow> nat \<Rightarrow> io_error + (PartitionKey \<rightharpoonup> bytes)" where
  "scan_parts env version result file pos =
     (case read_exact 4 file pos of
        Inl UnexpectedEof \<Rightarrow> Inr result
      | Inl e \<Rightarrow> Inl e
      | Inr (tag, pos) \<Rightarrow>
         (if tag \<noteq> PART_TAG then Inr result
          else case scan_part env version result file pos of
            Inl e \<Rightarrow> Inl e
          | Inr (result, pos) \<Rightarrow> scan_parts env version result file pos))"
  by pat_completeness auto
termination
proof (relation "measure (\<lambda>(env, version, result, file, pos). length file - pos)", goal_cases)
  case (2 env version result f pos x tag pos1 y r pos2)
  have "pos1 = pos + 4" "pos1 \<le> length f" using read_exact_InrD(1,2) 2 by blast+
  moreover have "pos1 \<le> pos2" "pos2 \<le> length f" using scan_part_InrD 2 by blast+
  ultimately show ?case by auto
qed simp

declare scan_parts.simps [simp del]

definition read_part_meta_blobs :: "'b seg_env \<Rightarrow> bytes \<Rightarrow> io_error + (PartitionKey \<rightharpoonup> bytes)" where
  "read_part_meta_blobs env file =
     bindR (read_exact 4 file 0) (\<lambda>(magic, pos).
     if magic \<noteq> MAGIC then Inr Map.empty
     else bindR (read_u32 file pos) (\<lambda>(version, pos).
     if \<not> accepted_segf_version version then Inl (InvalidData (''read_part_meta_blobs: refused version='' @ show_nat (unat version)))
     else bindR (skip_claimed_len ''WAL offsets blob'' file (pos + 8)) (scan_parts env version Map.empty file)))"

section \<open>Writing\<close>

definition epoch_secs :: "SystemTime \<Rightarrow> u64" where
  "epoch_secs t = (if t < 0 then 0 else word_of_int (t div 1000000000))"

definition overwrite_at :: "nat \<Rightarrow> bytes \<Rightarrow> bytes \<Rightarrow> bytes" where
  "overwrite_at pos bs file = take pos file @ bs @ drop (pos + length bs) file"

definition partition_tuple :: "PartitionKey \<Rightarrow> string \<times> string \<times> string \<times> int option \<times> string" where
  "partition_tuple k = (pk_sink_ref k, pk_namespace k, pk_partition k, pk_time k, pk_schema_fingerprint k)"

definition offset_tuple :: "OffsetKey \<Rightarrow> string \<times> string" where
  "offset_tuple k = (ok_namespace k, ok_partition k)"

fun payload_data :: "'b seg_env \<Rightarrow> u64 \<Rightarrow> 'b WalPayload \<Rightarrow> io_error + bytes \<times> u64" where
  "payload_data env total_rows (ArrowPayload bs) = (case arrow_ipc env bs of
      Inl e \<Rightarrow> Inl (OtherError (''arrow: '' @ e))
    | Inr data \<Rightarrow> Inr (data, total_rows + sum_list (map (num_rows env) bs)))"
| "payload_data env total_rows (CopyPayload p) = Inr (concat (cpt_chunks p), sat_add total_rows (cpt_rows p))"

record encoder =
  ec_file :: bytes
  ec_total_rows :: u64
  ec_total_bytes :: u64
  ec_parts_count :: u32
  ec_index :: "SegmentPartitionIndexEntry list"

definition encode_part ::
  "'b seg_env \<Rightarrow> (PartitionKey \<times> u64 \<times> SystemTime) list \<Rightarrow> (PartitionKey \<times> bytes) list \<Rightarrow> SystemTime
    \<Rightarrow> PartitionKey \<times> 'b WalPayload \<Rightarrow> encoder \<Rightarrow> io_error + encoder"
where
  "encode_part env partitions_meta blobs created_at = (\<lambda>(key, payload) ec.
     if payload_is_empty payload then Inr ec
     else let parts_count = sat_add (ec_parts_count ec) 1 in
     bindR (case bin_key env key of Inl e \<Rightarrow> Inl (InvalidData (''encode WAL key: '' @ e)) | Inr b \<Rightarrow> Inr b) (\<lambda>key_blob.
     let (p_bytes, p_updated) = (case map_of partitions_meta key of Some m \<Rightarrow> m | None \<Rightarrow> (0, created_at));
         updated_secs = epoch_secs p_updated;
         meta_blob = (case map_of blobs key of Some b \<Rightarrow> b | None \<Rightarrow> []);
         file = ec_file ec @ PART_TAG @ u64_le (word_of_nat (length key_blob)) @ key_blob @ u64_le p_bytes @ u64_le updated_secs
     in bindR (summarize_part_meta_blob env meta_blob) (\<lambda>summary.
     let meta_len = word_of_nat (length meta_blob);
         file = file @ u64_le meta_len;
         part_meta_start = length file;
         file = (if 0 < meta_len then file @ meta_blob else file);
         codec = payload_codec payload;
         file = file @ [codec];
         data_len_pos = length file;
         file = file @ u64_le 0;
         start = length file
     in bindR (payload_data env (ec_total_rows ec) payload) (\<lambda>(data, total_rows).
     let file = file @ data;
         len = word_of_nat (length file - start)
     in Inr \<lparr>ec_file = overwrite_at data_len_pos (u64_le len) file, ec_total_rows = total_rows,
          ec_total_bytes = sat_add (ec_total_bytes ec) len, ec_parts_count = parts_count,
          ec_index = ec_index ec @ [\<lparr>ie_key = key, ie_bytes = p_bytes, ie_updated_at_secs = updated_secs,
             ie_slice_ordinal = parts_count - 1, ie_part_meta_start = word_of_nat part_meta_start, ie_part_meta_len = meta_len,
             ie_part_meta_summary = summary, ie_codec = codec, ie_start = word_of_nat start, ie_len = len\<rparr>]\<rparr>))))"

fun encode_parts ::
  "'b seg_env \<Rightarrow> (PartitionKey \<times> u64 \<times> SystemTime) list \<Rightarrow> (PartitionKey \<times> bytes) list \<Rightarrow> SystemTime
    \<Rightarrow> (PartitionKey \<times> 'b WalPayload) list \<Rightarrow> encoder \<Rightarrow> io_error + encoder"
where
  "encode_parts env pm blobs created_at [] ec = Inr ec"
| "encode_parts env pm blobs created_at (p # ps) ec =
     bindR (encode_part env pm blobs created_at p ec) (encode_parts env pm blobs created_at ps)"

definition encode_snapshot ::
  "'b seg_env \<Rightarrow> (OffsetKey \<times> u64) list \<Rightarrow> (PartitionKey \<times> 'b WalPayload) list \<Rightarrow> (PartitionKey \<times> u64 \<times> SystemTime) list
    \<Rightarrow> (PartitionKey \<times> bytes) list \<Rightarrow> SystemTime \<Rightarrow> io_error + EncodedSnapshot"
where
  "encode_snapshot env offsets batches partitions_meta blobs created_at =
     (let created_at_secs = epoch_secs created_at in
      bindR (case bin_offsets env (sort_key (offset_tuple \<circ> fst) offsets) of
          Inl e \<Rightarrow> Inl (InvalidData (''encode WAL offsets: '' @ e)) | Inr b \<Rightarrow> Inr b) (\<lambda>offsets_blob.
      let file = MAGIC @ u32_le SEGF_VERSION @ u64_le created_at_secs @ u64_le (word_of_nat (length offsets_blob)) @ offsets_blob
      in bindR (encode_parts env partitions_meta blobs created_at (sort_key (partition_tuple \<circ> fst) batches)
           \<lparr>ec_file = file, ec_total_rows = 0, ec_total_bytes = 0, ec_parts_count = 0, ec_index = []\<rparr>) (\<lambda>ec.
         let sha = sha256 env (ec_file ec) in
         Inr \<lparr>en_bytes = ec_file ec @ FOOT_TAG @ u32_le (ec_parts_count ec) @ sha,
              en_meta = \<lparr>sm_created_at_secs = created_at_secs, sm_total_bytes = ec_total_bytes ec,
                 sm_num_partitions = ec_parts_count ec, sm_offsets = map_of offsets, sm_index = ec_index ec, sm_body_sha256 = sha\<rparr>,
              en_total_rows = ec_total_rows ec, en_sha256 = sha\<rparr>)))"

section \<open>What the encoder writes\<close>

definition part_layout :: "bytes \<Rightarrow> u64 \<Rightarrow> u64 \<Rightarrow> bytes \<Rightarrow> u8 \<Rightarrow> bytes \<Rightarrow> bytes" where
  "part_layout key_blob p_bytes upd meta_blob codec data = PART_TAG @ u64_le (word_of_nat (length key_blob)) @ key_blob @ u64_le p_bytes
     @ u64_le upd @ u64_le (word_of_nat (length meta_blob)) @ meta_blob @ [codec] @ u64_le (word_of_nat (length data)) @ data"

lemma length_tags [simp]: "length PART_TAG = 4" "length FOOT_TAG = 4" "length MAGIC = 4" "PART_TAG \<noteq> FOOT_TAG"
  by (simp_all add: PART_TAG_def FOOT_TAG_def MAGIC_def as_bytes_def byte_of_char_def)

lemma length_part_layout: "length (part_layout kb pb upd mb codec data) = 4 + 8 + length kb + 8 + 8 + 8 + length mb + 1 + 8 + length data"
  by (simp add: part_layout_def)

lemma word_of_nat_pos: "length bs < 2 ^ 64 \<Longrightarrow> 0 < (word_of_nat (length bs) :: u64) \<longleftrightarrow> bs \<noteq> []"
  by (simp add: word_less_nat_alt unat_of_nat)

lemma unat_u64: "n < 2 ^ 64 \<Longrightarrow> unat (word_of_nat n :: u64) = n"
  by (simp add: unat_of_nat)

lemma overwrite_length: "overwrite_at (length a) (u64_le v) (a @ u64_le w @ b) = a @ u64_le v @ b"
  by (simp add: overwrite_at_def)

definition payload_image :: "'b seg_env \<Rightarrow> 'b WalPayload \<Rightarrow> bytes" where
  "payload_image env p = (case payload_data env 0 p of Inl _ \<Rightarrow> [] | Inr (data, _) \<Rightarrow> data)"

lemma payload_data_bytes: "payload_data env n p = Inr (data, rows) \<Longrightarrow> data = payload_image env p"
  by (cases p) (auto simp: payload_image_def split: sum.splits)

definition meta_blob_of :: "(PartitionKey \<times> bytes) list \<Rightarrow> PartitionKey \<Rightarrow> bytes" where
  "meta_blob_of blobs key = (case map_of blobs key of Some b \<Rightarrow> b | None \<Rightarrow> [])"

text \<open>The index entry of a part written at \<open>base\<close>.\<close>

definition part_entry ::
  "nat \<Rightarrow> u32 \<Rightarrow> PartitionKey \<Rightarrow> bytes \<Rightarrow> u64 \<Rightarrow> u64 \<Rightarrow> bytes \<Rightarrow> SegmentPartMetaSummary \<Rightarrow> u8 \<Rightarrow> bytes \<Rightarrow> SegmentPartitionIndexEntry"
where
  "part_entry base ord key kb pb upd mb summary codec data = \<lparr>ie_key = key, ie_bytes = pb, ie_updated_at_secs = upd, ie_slice_ordinal = ord,
     ie_part_meta_start = word_of_nat (base + 36 + length kb), ie_part_meta_len = word_of_nat (length mb), ie_part_meta_summary = summary,
     ie_codec = codec, ie_start = word_of_nat (base + 45 + length kb + length mb), ie_len = word_of_nat (length data)\<rparr>"

lemma encode_part_layout:
  assumes enc: "encode_part env pm blobs created (key, payload) ec = Inr ec'" and ne: "\<not> payload_is_empty payload"
    and small: "length (meta_blob_of blobs key) < 2 ^ 64"
  shows "\<exists>kb pb upd summary. ec_file ec' = ec_file ec @ part_layout kb pb upd (meta_blob_of blobs key) (payload_codec payload) (payload_image env payload)
    \<and> bin_key env key = Inr kb \<and> summarize_part_meta_blob env (meta_blob_of blobs key) = Inr summary
    \<and> ec_index ec' = ec_index ec @ [part_entry (length (ec_file ec)) (ec_parts_count ec' - 1) key kb pb upd (meta_blob_of blobs key) summary
         (payload_codec payload) (payload_image env payload)]
    \<and> ec_parts_count ec' = sat_add (ec_parts_count ec) 1
    \<and> ec_total_bytes ec' = sat_add (ec_total_bytes ec) (word_of_nat (length (payload_image env payload)))"
proof -
  obtain pb upd where pu: "(case map_of pm key of Some m \<Rightarrow> m | None \<Rightarrow> (0, created)) = (pb, upd)" by force
  let ?mb = "meta_blob_of blobs key" and ?d = "payload_image env payload"
  obtain kb where kb: "bin_key env key = Inr kb" using enc ne by (cases "bin_key env key") (auto simp: encode_part_def Let_def)
  obtain summary where sm: "summarize_part_meta_blob env ?mb = Inr summary"
    using enc ne kb pu by (cases "summarize_part_meta_blob env ?mb") (auto simp: encode_part_def Let_def meta_blob_of_def)
  obtain rows where pd: "payload_data env (ec_total_rows ec) payload = Inr (?d, rows)"
  proof (cases "payload_data env (ec_total_rows ec) payload")
    case (Inl x)
    then show ?thesis using enc ne kb pu sm by (auto simp: encode_part_def Let_def meta_blob_of_def)
  next
    case (Inr x)
    then show ?thesis using that payload_data_bytes by (cases x) blast
  qed
  have "(if 0 < (word_of_nat (length ?mb) :: u64) then f @ ?mb else f) = f @ ?mb" for f
    using word_of_nat_pos[OF small] by auto
  note ec' = enc[unfolded encode_part_def prod.case, simplified ne if_False Let_def kb sum.case bindR_simps pu prod.case meta_blob_of_def[symmetric] sm pd this sum.inject]
  show ?thesis
    by (rule exI[of _ kb], rule exI[of _ pb], rule exI[of _ "epoch_secs upd"], rule exI[of _ summary])
      (simp add: kb sm ec'[symmetric] overwrite_at_def part_layout_def part_entry_def add.assoc add.left_commute)
qed

section \<open>Reading what was written\<close>

lemma read_exact_at: "n = length bs \<Longrightarrow> pos = length pre \<Longrightarrow> read_exact n (pre @ bs @ post) pos = Inr (bs, pos + n)"
  by (simp add: read_exact_def)

lemma read_u64_at: "pos = length pre \<Longrightarrow> read_u64 (pre @ u64_le v @ post) pos = Inr (v, pos + 8)"
  by (simp add: read_u64_def read_exact_at)

lemma read_u32_at: "pos = length pre \<Longrightarrow> read_u32 (pre @ u32_le v @ post) pos = Inr (v, pos + 4)"
  by (simp add: read_u32_def read_exact_at)

lemma read_blob_at:
  assumes "pos = length pre" "length blob < 2 ^ 64"
  shows "read_blob_capped_by_remaining what (pre @ u64_le (word_of_nat (length blob)) @ blob @ post) pos = Inr (blob, pos + 8 + length blob)"
proof -
  have "unat (word_of_nat (length blob) :: u64) = length blob" using assms(2) by (simp add: unat_of_nat)
  then show ?thesis
    using assms(1) read_u64_at[OF assms(1), of "word_of_nat (length blob)" "blob @ post"]
      read_exact_at[of "length blob" blob "pos + 8" "pre @ u64_le (word_of_nat (length blob))" post]
    by (simp add: read_blob_capped_by_remaining_def read_len_capped_by_remaining_def claimed_len_capped_by_remaining_def Let_def)
qed

lemma read_codec_at:
  assumes "pos = length pre" "codec = PART_CODEC_ARROW \<or> is_copy_codec codec"
  shows "read_part_codec_and_len SEGF_VERSION (pre @ [codec] @ u64_le v @ post) pos = Inr ((codec, v), pos + 9)"
  using assms read_exact_at[of 1 "[codec]" pos pre "u64_le v @ post"] read_u64_at[of "pos + 1" "pre @ [codec]" v post]
  by (auto simp: read_part_codec_and_len_def)

lemma payload_codec_ok: "payload_codec p = PART_CODEC_ARROW \<or> is_copy_codec (payload_codec p)"
  by (cases p) (simp_all add: is_copy_codec_def)

lemma read_part_entry_at:
  fixes pre post kb mb data :: bytes and pb upd :: u64 and codec :: u8
  defines "f \<equiv> pre @ part_layout kb pb upd mb codec data @ post"
  assumes small: "length f < 2 ^ 64" and key: "unbin_key env kb = Inr key" and sm: "summarize_part_meta_blob env mb = Inr summary"
    and codec: "codec = PART_CODEC_ARROW \<or> is_copy_codec codec" and ord: "ordinal < 2 ^ 32"
  shows "read_part_entry env SEGF_VERSION ordinal f (length pre + 4)
     = Inr (part_entry (length pre) (word_of_nat ordinal) key kb pb upd mb summary codec data, length pre + length (part_layout kb pb upd mb codec data))"
proof -
  let ?l = "\<lambda>bs. word_of_nat (length bs) :: u64"
  let ?p0 = "pre @ PART_TAG" let ?p1 = "?p0 @ u64_le (?l kb) @ kb" let ?p2 = "?p1 @ u64_le pb" let ?p3 = "?p2 @ u64_le upd"
  let ?p4 = "?p3 @ u64_le (?l mb)" let ?p5 = "?p4 @ mb"
  define n1 n2 n3 n4 n5 where n: "n1 = length ?p1" "n2 = length ?p2" "n3 = length ?p3" "n4 = length ?p4" "n5 = length ?p5"
  have len: "length kb < 2 ^ 64" "length mb < 2 ^ 64" "length data < 2 ^ 64" and un: "unat (?l mb) = length mb" "unat (?l data) = length data"
    using small by (simp_all add: f_def part_layout_def unat_of_nat)
  have k: "read_blob_capped_by_remaining ''WAL partition key'' f (length pre + 4) = Inr (kb, n1)"
    using read_blob_at[of "length pre + 4" ?p0 kb] len(1) by (simp add: n f_def part_layout_def)
  have b: "read_u64 f n1 = Inr (pb, n2)" "read_u64 f n2 = Inr (upd, n3)" "read_u64 f n3 = Inr (?l mb, n4)"
    using read_u64_at[OF refl, of ?p1 pb] read_u64_at[OF refl, of ?p2 upd] read_u64_at[OF refl, of ?p3 "?l mb"]
    by (simp_all add: n f_def part_layout_def)
  have m: "(if ?l mb = 0 then Inr (SummaryAppend, n4)
            else bindR (read_exact (unat (?l mb)) f n4) (\<lambda>(meta_blob, pos).
              bindR (summarize_part_meta_blob env meta_blob) (\<lambda>summary. Inr (summary, pos)))) = Inr (summary, n5)"
  proof (cases "mb = []")
    case True
    then show ?thesis using sm by (simp add: n summarize_part_meta_blob_def)
  next
    case False
    then have "?l mb \<noteq> 0" using word_of_nat_pos[OF len(2)] by auto
    moreover have "read_exact (unat (?l mb)) f n4 = Inr (mb, n5)"
      unfolding un using read_exact_at[OF refl refl, of mb ?p4] by (simp add: n f_def part_layout_def)
    ultimately show ?thesis using sm by simp
  qed
  have c: "read_part_codec_and_len SEGF_VERSION f n5 = Inr ((codec, ?l data), n5 + 9)"
    using read_codec_at[OF refl codec, of ?p5 "?l data"] by (simp add: n f_def part_layout_def)
  have s: "skip_payload (?l data) f (n5 + 9) = Inr (length pre + length (part_layout kb pb upd mb codec data))"
    using small un by (simp add: skip_payload_def n f_def part_layout_def Let_def)
  have rem: "length f - n4 < unat (?l mb) \<longleftrightarrow> False" "2 ^ 64 \<le> n4 + unat (?l mb) \<longleftrightarrow> False" "n5 \<noteq> n4 + unat (?l mb) \<longleftrightarrow> False"
    using small unfolding un by (simp_all add: n f_def part_layout_def)
  have pos: "word_of_nat n4 = (word_of_nat (length pre + 36 + length kb) :: u64)"
    "word_of_nat (n5 + 9) = (word_of_nat (length pre + 45 + length kb + length mb) :: u64)" by (simp_all add: n)
  have ord': "2 ^ 32 \<le> ordinal \<longleftrightarrow> False" using ord by simp
  show ?thesis unfolding read_part_entry_def
    by (simp only: k key b m c s rem pos ord' part_entry_def bindR_simps prod.case sum.case Let_def if_False simp_thms)
qed

text \<open>What the code relies on: bincode reads back what it wrote, and a digest has 32 bytes.\<close>

definition seg_env_ok :: "'b seg_env \<Rightarrow> bool" where
  "seg_env_ok env \<longleftrightarrow> (\<forall>es b. distinct (map fst es) \<longrightarrow> bin_offsets env es = Inr b \<longrightarrow> unbin_offsets env b = Inr (map_of es))
     \<and> (\<forall>k b. bin_key env k = Inr b \<longrightarrow> unbin_key env b = Inr k) \<and> (\<forall>b. length (sha256 env b) = 32)"

text \<open>An entry of the index that points at the payload and the metadata of a partition.\<close>

definition entry_stores :: "'b seg_env \<Rightarrow> (PartitionKey \<times> bytes) list \<Rightarrow> bytes \<Rightarrow> PartitionKey \<times> 'b WalPayload \<Rightarrow> SegmentPartitionIndexEntry \<Rightarrow> bool" where
  "entry_stores env blobs file = (\<lambda>(key, payload) e. ie_key e = key \<and> ie_codec e = payload_codec payload
     \<and> unat (ie_start e) + unat (ie_len e) \<le> length file
     \<and> take (unat (ie_len e)) (drop (unat (ie_start e)) file) = payload_image env payload
     \<and> unat (ie_part_meta_start e) + unat (ie_part_meta_len e) \<le> length file
     \<and> unat (ie_part_meta_len e) = length (meta_blob_of blobs key)
     \<and> take (unat (ie_part_meta_len e)) (drop (unat (ie_part_meta_start e)) file) = meta_blob_of blobs key
     \<and> summarize_part_meta_blob env (meta_blob_of blobs key) = Inr (ie_part_meta_summary e))"

lemma entry_stores_append: "entry_stores env blobs f p e \<Longrightarrow> entry_stores env blobs (f @ post) p e"
  by (cases p) (auto simp: entry_stores_def)

lemma part_entry_stores:
  assumes "length (pre @ part_layout kb pb upd (meta_blob_of blobs key) (payload_codec payload) (payload_image env payload)) < 2 ^ 64"
    "summarize_part_meta_blob env (meta_blob_of blobs key) = Inr summary"
  shows "entry_stores env blobs (pre @ part_layout kb pb upd (meta_blob_of blobs key) (payload_codec payload) (payload_image env payload)) (key, payload)
    (part_entry (length pre) ord key kb pb upd (meta_blob_of blobs key) summary (payload_codec payload) (payload_image env payload))"
proof -
  let ?mb = "meta_blob_of blobs key" and ?d = "payload_image env payload"
  let ?f = "pre @ part_layout kb pb upd ?mb (payload_codec payload) ?d" and ?ms = "length pre + 36 + length kb"
  let ?st = "?ms + 9 + length ?mb"
  have "?ms < 2 ^ 64" "?st < 2 ^ 64" "length ?mb < 2 ^ 64" "length ?d < 2 ^ 64" using assms(1) by (simp_all add: part_layout_def)
  note un = this[THEN unat_u64]
  have "take (length ?d) (drop ?st ?f) = ?d" "take (length ?mb) (drop ?ms ?f) = ?mb" "?st + length ?d \<le> length ?f" "?ms + length ?mb \<le> length ?f"
    by (simp_all add: part_layout_def)
  moreover have st: "length pre + 45 + length kb + length ?mb = ?st" by simp
  ultimately show ?thesis
    using assms(2) unfolding entry_stores_def part_entry_def prod.case st by (simp only: un SegmentPartitionIndexEntry.simps simp_thms)
qed

lemma encode_parts_spec:
  assumes "seg_env_ok env" "\<And>k. length (meta_blob_of blobs k) < 2 ^ 64" "encode_parts env pm blobs created ps ec = Inr ec'"
    "length (ec_file ec' @ post) < 2 ^ 64" "unat (ec_parts_count ec) = length (ec_index ec)" "length (ec_index ec) + length ps < 2 ^ 32"
  shows "\<exists>es extra. ec_file ec' = ec_file ec @ extra \<and> ec_index ec' = ec_index ec @ es \<and> unat (ec_parts_count ec') = length (ec_index ec')
    \<and> length (ec_index ec') \<le> length (ec_index ec) + length ps
    \<and> list_all2 (entry_stores env blobs (ec_file ec')) (filter (\<lambda>(k, p). \<not> payload_is_empty p) ps) es
    \<and> read_part_entries env SEGF_VERSION (ec_index ec) (ec_total_bytes ec) (ec_file ec' @ post) (length (ec_file ec))
      = read_part_entries env SEGF_VERSION (ec_index ec') (ec_total_bytes ec') (ec_file ec' @ post) (length (ec_file ec'))"
  using assms(3-6)
proof (induction ps arbitrary: ec)
  case (Cons x ps)
  obtain key payload where x: "x = (key, payload)" by force
  from Cons.prems(1) obtain ec1 where e1: "encode_part env pm blobs created x ec = Inr ec1" and r: "encode_parts env pm blobs created ps ec1 = Inr ec'"
    by (auto simp: bindR_Inr_iff)
  show ?case
  proof (cases "payload_is_empty payload")
    case True
    then have "ec1 = ec" using e1 x by (simp add: encode_part_def)
    then show ?thesis using Cons.IH[OF r] Cons.prems(2-4) True x by fastforce
  next
    case False
    let ?mb = "meta_blob_of blobs key" and ?d = "payload_image env payload" and ?c = "payload_codec payload"
    obtain kb pb upd summary where l: "ec_file ec1 = ec_file ec @ part_layout kb pb upd ?mb ?c ?d" "bin_key env key = Inr kb"
      and sm: "summarize_part_meta_blob env ?mb = Inr summary"
      and i: "ec_index ec1 = ec_index ec @ [part_entry (length (ec_file ec)) (ec_parts_count ec1 - 1) key kb pb upd ?mb summary ?c ?d]"
      and c: "ec_parts_count ec1 = sat_add (ec_parts_count ec) 1" and t: "ec_total_bytes ec1 = sat_add (ec_total_bytes ec) (word_of_nat (length ?d))"
      using encode_part_layout[OF e1[unfolded x] False assms(2)] by blast
    have cnt: "unat (ec_parts_count ec1) = Suc (length (ec_index ec))"
      using Cons.prems(3,4) by (simp add: c unat_sat_add)
    from arg_cong[OF cnt, of "\<lambda>n. word_of_nat n :: u32"] have ord: "ec_parts_count ec1 - 1 = word_of_nat (length (ec_index ec))" by simp
    have cnt1: "unat (ec_parts_count ec1) = length (ec_index ec1)" "length (ec_index ec1) + length ps < 2 ^ 32"
      using cnt i Cons.prems(4) by simp_all
    from Cons.IH[OF r Cons.prems(2) cnt1] obtain es extra where ih: "ec_file ec' = ec_file ec1 @ extra" "ec_index ec' = ec_index ec1 @ es"
      "unat (ec_parts_count ec') = length (ec_index ec')" "length (ec_index ec') \<le> length (ec_index ec1) + length ps"
      "list_all2 (entry_stores env blobs (ec_file ec')) (filter (\<lambda>(k, p). \<not> payload_is_empty p) ps) es"
      "read_part_entries env SEGF_VERSION (ec_index ec1) (ec_total_bytes ec1) (ec_file ec' @ post) (length (ec_file ec1))
        = read_part_entries env SEGF_VERSION (ec_index ec') (ec_total_bytes ec') (ec_file ec' @ post) (length (ec_file ec'))"
      by blast
    let ?f = "ec_file ec' @ post" and ?lay = "part_layout kb pb upd ?mb ?c ?d"
    have f: "?f = ec_file ec @ ?lay @ extra @ post" by (simp add: ih(1) l(1))
    have key: "unbin_key env kb = Inr key" using assms(1) l(2) by (auto simp: seg_env_ok_def)
    have ent: "read_part_entry env SEGF_VERSION (length (ec_index ec)) ?f (length (ec_file ec) + 4)
      = Inr (part_entry (length (ec_file ec)) (word_of_nat (length (ec_index ec))) key kb pb upd ?mb summary ?c ?d, length (ec_file ec1))"
      unfolding f l(1) length_append using Cons.prems(2,4) f
      by (intro read_part_entry_at key sm payload_codec_ok) simp_all
    have tag: "read_exact 4 ?f (length (ec_file ec)) = Inr (PART_TAG, length (ec_file ec) + 4)"
      unfolding f by (subst read_exact_at[of 4 PART_TAG _ "ec_file ec", symmetric]) (simp_all add: part_layout_def)
    have "read_part_entries env SEGF_VERSION (ec_index ec) (ec_total_bytes ec) ?f (length (ec_file ec))
      = read_part_entries env SEGF_VERSION (ec_index ec1) (ec_total_bytes ec1) ?f (length (ec_file ec1))"
      by (subst read_part_entries.simps) (simp add: tag ent i ord t part_entry_def)
    then have rd: "read_part_entries env SEGF_VERSION (ec_index ec) (ec_total_bytes ec) ?f (length (ec_file ec))
        = read_part_entries env SEGF_VERSION (ec_index ec') (ec_total_bytes ec') ?f (length (ec_file ec'))" using ih(6) by simp
    let ?e = "part_entry (length (ec_file ec)) (ec_parts_count ec1 - 1) key kb pb upd ?mb summary ?c ?d"
    have "entry_stores env blobs (ec_file ec1) (key, payload) ?e"
      unfolding l(1) using Cons.prems(2) ih(1) l(1) by (intro part_entry_stores sm) simp
    then have "entry_stores env blobs (ec_file ec') (key, payload) ?e" unfolding ih(1) by (rule entry_stores_append)
    then have "list_all2 (entry_stores env blobs (ec_file ec')) (filter (\<lambda>(k, p). \<not> payload_is_empty p) (x # ps)) (?e # es)"
      using ih(5) False x by simp
    moreover have "ec_index ec' = ec_index ec @ ?e # es" "ec_file ec' = ec_file ec @ ?lay @ extra" using ih(1,2) i l(1) by simp_all
    moreover have "length (ec_index ec') \<le> length (ec_index ec) + length (x # ps)" using ih(4) i by simp
    ultimately show ?thesis using rd ih(3) by (intro exI[of _ "?e # es"] exI[of _ "?lay @ extra"]) blast
  qed
qed simp

lemma verify_body_at: "length (sha256 env body) = 32 \<Longrightarrow>
    verify_body_checksum env (body @ FOOT_TAG @ u32_le n @ sha256 env body) = Inr (sha256 env body)"
  by (simp add: verify_body_checksum_def FOOTER_LEN_def Let_def)

lemma map_of_sort_key:
  assumes "distinct (map fst xs)"
  shows "map_of (sort_key f xs) = map_of xs" "distinct (map fst (sort_key f xs))"
proof -
  show d: "distinct (map fst (sort_key f xs))"
    by (metis assms distinct_map distinct_sort mset_sort set_sort distinct_count_atmost_1 mset_map)
  show "map_of (sort_key f xs) = map_of xs" by (rule map_of_inject_set[THEN iffD2]) (use assms d in simp_all)
qed

text \<open>The encoder's output as a whole.\<close>

lemma encode_snapshot_spec:
  assumes ok: "seg_env_ok env" and off: "distinct (map fst offsets)" and small: "\<And>k. length (meta_blob_of blobs k) < 2 ^ 64"
    and enc: "encode_snapshot env offsets batches pm blobs created = Inr enc"
    and len: "length (en_bytes enc) < 2 ^ 64" "length batches < 2 ^ 32"
  shows "read_metadata_from_bytes env (en_bytes enc) = Inr (en_meta enc)
    \<and> verify_body_checksum env (en_bytes enc) = Inr (en_sha256 enc) \<and> en_sha256 enc = sm_body_sha256 (en_meta enc)
    \<and> list_all2 (entry_stores env blobs (en_bytes enc))
        (filter (\<lambda>(k, p). \<not> payload_is_empty p) (sort_key (partition_tuple \<circ> fst) batches)) (sm_index (en_meta enc))"
proof -
  let ?offs = "sort_key (offset_tuple \<circ> fst) offsets" and ?ps = "sort_key (partition_tuple \<circ> fst) batches"
  from enc obtain ob where ob: "bin_offsets env ?offs = Inr ob"
    by (cases "bin_offsets env ?offs") (auto simp: encode_snapshot_def Let_def)
  let ?hd = "MAGIC @ u32_le SEGF_VERSION @ u64_le (epoch_secs created) @ u64_le (word_of_nat (length ob)) @ ob"
  let ?ec = "\<lparr>ec_file = ?hd, ec_total_rows = 0, ec_total_bytes = 0, ec_parts_count = 0, ec_index = []\<rparr>"
  from enc ob obtain ec where ec: "encode_parts env pm blobs created ?ps ?ec = Inr ec"
    by (cases "encode_parts env pm blobs created ?ps ?ec") (auto simp: encode_snapshot_def Let_def)
  let ?sha = "sha256 env (ec_file ec)" and ?post = "FOOT_TAG @ u32_le (ec_parts_count ec) @ sha256 env (ec_file ec)"
  have e: "en_bytes enc = ec_file ec @ ?post" "en_sha256 enc = ?sha"
    "en_meta enc = \<lparr>sm_created_at_secs = epoch_secs created, sm_total_bytes = ec_total_bytes ec, sm_num_partitions = ec_parts_count ec,
        sm_offsets = map_of offsets, sm_index = ec_index ec, sm_body_sha256 = ?sha\<rparr>"
    using enc ob ec by (auto simp: encode_snapshot_def Let_def)
  have sha: "length ?sha = 32" using ok by (simp add: seg_env_ok_def)
  obtain es extra where sp: "ec_file ec = ?hd @ extra" "ec_index ec = es" "unat (ec_parts_count ec) = length es" "length es \<le> length batches"
    "list_all2 (entry_stores env blobs (ec_file ec)) (filter (\<lambda>(k, p). \<not> payload_is_empty p) ?ps) es"
    "read_part_entries env SEGF_VERSION [] 0 (ec_file ec @ ?post) (length ?hd)
      = read_part_entries env SEGF_VERSION es (ec_total_bytes ec) (ec_file ec @ ?post) (length (ec_file ec))"
    using encode_parts_spec[OF ok small ec, of ?post] len e(1) by auto
  let ?f = "ec_file ec @ ?post"
  have f: "?f = ?hd @ extra @ ?post" by (simp add: sp(1))
  have "read_part_entries env SEGF_VERSION es (ec_total_bytes ec) ?f (length (ec_file ec)) = Inr ((es, ec_total_bytes ec), length (ec_file ec) + 4)"
    by (subst read_part_entries.simps) (simp add: read_exact_at)
  then have parts: "read_part_entries env SEGF_VERSION [] 0 ?f (length ?hd) = Inr ((es, ec_total_bytes ec), length (ec_file ec) + 4)" using sp(6) by simp
  have "length ob < 2 ^ 64" using len(1) e(1) sp(1) by simp
  note blob = read_blob_at[OF refl this, of "''WAL offsets blob''" "MAGIC @ u32_le SEGF_VERSION @ u64_le (epoch_secs created)" "extra @ ?post"]
  have r: "read_exact 4 ?f 0 = Inr (MAGIC, 4)" "read_u32 ?f 4 = Inr (SEGF_VERSION, 8)" "read_u64 ?f 8 = Inr (epoch_secs created, 16)"
    "read_blob_capped_by_remaining ''WAL offsets blob'' ?f 16 = Inr (ob, length ?hd)"
    using read_exact_at[of 4 MAGIC 0 "[]"] read_u32_at[of 4 MAGIC] read_u64_at[of 8 "MAGIC @ u32_le SEGF_VERSION"] blob
    unfolding f by simp_all
  have un: "unbin_offsets env ob = Inr (map_of offsets)"
    using ok ob map_of_sort_key[OF off, of "offset_tuple \<circ> fst"] by (auto simp: seg_env_ok_def)
  have foot: "read_u32 ?f (length (ec_file ec) + 4) = Inr (ec_parts_count ec, length (ec_file ec) + 8)"
    "read_exact 32 ?f (length (ec_file ec) + 8) = Inr (?sha, length ?f)"
    using read_u32_at[of "length (ec_file ec) + 4" "ec_file ec @ FOOT_TAG" "ec_parts_count ec"] sha
      read_exact_at[of 32 ?sha "length (ec_file ec) + 8" "ec_file ec @ FOOT_TAG @ u32_le (ec_parts_count ec)" "[]"]
    by simp_all
  have cnt: "word_of_nat (length es) = ec_parts_count ec" using sp(3) by (metis of_nat_unat unsigned_ucast_eq ucast_id)
  have small_es: "\<not> 2 ^ 32 \<le> length es" using sp(4) len(2) by simp
  have "accepted_segf_version SEGF_VERSION" by (simp add: accepted_segf_version_def)
  then have "read_metadata_from_bytes env ?f = Inr (en_meta enc)"
    unfolding read_metadata_from_bytes_def r(1) bindR_simps prod.case
    using r(2-4) un parts foot cnt small_es by (simp add: e(3) sp(2))
  moreover have "list_all2 (entry_stores env blobs ?f) (filter (\<lambda>(k, p). \<not> payload_is_empty p) ?ps) es"
    using sp(5) by (rule list_all2_mono) (rule entry_stores_append)
  ultimately show ?thesis using verify_body_at[OF sha, of "ec_parts_count ec"] e sp(2) by simp
qed

lemma stored_meta:
  assumes "entry_stores env blobs f (key, payload) e" "length f < 2 ^ 64"
  shows "read_part_meta_from_bytes env f e = (if meta_blob_of blobs key = [] then Inr None
    else bindR (parse_part_meta_blob env (meta_blob_of blobs key)) (\<lambda>(m, _). Inr (Some m)))"
proof -
  let ?mb = "meta_blob_of blobs key" and ?s = "ie_part_meta_start e" and ?l = "ie_part_meta_len e"
  have e: "unat ?s + unat ?l \<le> length f" "unat ?l = length ?mb" "take (unat ?l) (drop (unat ?s) f) = ?mb"
    "summarize_part_meta_blob env ?mb = Inr (ie_part_meta_summary e)" using assms(1) by (auto simp: entry_stores_def)
  have "checked_add ?s ?l = Some (?s + ?l)" "unat (?s + ?l) = unat ?s + unat ?l"
    using e(1) assms(2) by (auto simp: checked_add_def unat_word_ariths)
  then have r: "read_part_meta_from_bytes env f e = read_part_meta_from_reader env f e"
    using e(1) by (simp add: read_part_meta_from_bytes_def)
  have z: "?l = 0 \<longleftrightarrow> ?mb = []" using e(2) by (metis length_0_conv unat_eq_0)
  show ?thesis
  proof (cases "?mb = []")
    case True
    then show ?thesis using e(4) z r by (simp add: read_part_meta_from_reader_def summarize_part_meta_blob_def)
  next
    case False
    have "read_exact (unat ?l) f (unat ?s) = Inr (?mb, unat ?s + unat ?l)" using e(1,3) by (simp add: read_exact_def)
    then show ?thesis using False z e(4) r
      by (auto simp: read_part_meta_from_reader_def summarize_part_meta_blob_def bindR_Inr_iff)
  qed
qed

section \<open>The scan agrees with the index\<close>

definition index_blobs :: "bytes \<Rightarrow> SegmentPartitionIndexEntry list \<Rightarrow> (PartitionKey \<rightharpoonup> bytes) \<Rightarrow> PartitionKey \<rightharpoonup> bytes" where
  "index_blobs file es result = fold (\<lambda>e result. if 0 < ie_part_meta_len e
     then result(ie_key e \<mapsto> take (unat (ie_part_meta_len e)) (drop (unat (ie_part_meta_start e)) file)) else result) es result"

lemma scan_part_entry:
  assumes "read_part_entry env version ordinal f pos = Inr (e, pos')" "length f < 2 ^ 64"
  shows "scan_part env version result f pos = Inr (index_blobs f [e] result, pos')"
proof -
  from assms(1) obtain kb p1 part_bytes p2 upd p3 ml ms summary p4 codec len st where
    r: "read_blob_capped_by_remaining ''WAL partition key'' f pos = Inr (kb, p1)" "unbin_key env kb = Inr (ie_key e)" "read_u64 f p1 = Inr (part_bytes, p2)"
      "read_u64 f p2 = Inr (upd, p3)" "read_u64 f p3 = Inr (ml, ms)" "\<not> length f - ms < unat ml"
    and m: "(if ml = 0 then Inr (SummaryAppend, ms) else bindR (read_exact (unat ml) f ms) (\<lambda>(meta_blob, pos).
              bindR (summarize_part_meta_blob env meta_blob) (\<lambda>summary. Inr (summary, pos)))) = Inr (summary, p4)"
    and c: "read_part_codec_and_len version f p4 = Inr ((codec, len), st)" "skip_payload len f st = Inr pos'"
    and e: "ie_part_meta_start e = word_of_nat ms" "ie_part_meta_len e = ml"
    unfolding read_part_entry_def by (auto simp: bindR_Inr_iff Let_def split: if_splits sum.splits)
  have p: "p3 = p1 + 16" "ms \<le> length f" using read_u64_InrD[OF r(3)] read_u64_InrD[OF r(4)] read_u64_InrD[OF r(5)] by auto
  have "unat (word_of_nat ms :: u64) = ms" using p(2) assms(2) by (intro unat_u64) simp
  then have "(if 0 < ml then bindR (read_exact (unat ml) f ms) (\<lambda>(meta_blob, pos). Inr (result(ie_key e \<mapsto> meta_blob), pos))
            else Inr (result, ms)) = Inr (index_blobs f [e] result, p4)"
    using m by (auto simp: index_blobs_def e word_gt_0 bindR_Inr_iff dest: read_exact_InrD split: if_splits)
  then show ?thesis using r p c unfolding scan_part_def by (simp only: bindR_simps prod.case sum.case Let_def if_False)
qed

lemma scan_parts_entries:
  assumes "length f < 2 ^ 64" "read_part_entries env version idx tot f pos = Inr ((idx', tot'), pos')"
  shows "\<exists>es. idx' = idx @ es \<and> scan_parts env version result f pos = Inr (index_blobs f es result)"
  using assms
proof (induction env version idx tot f pos arbitrary: result rule: read_part_entries.induct)
  case (1 env version idx tot f pos)
  note u = "1.prems"(2)[unfolded read_part_entries.simps[of env version idx tot f pos]]
  from u obtain tag p1 where t: "read_exact 4 f pos = Inr (tag, p1)" by (auto split: sum.splits io_error.splits)
  note v = scan_parts.simps[of env version result f pos]
  show ?case
  proof (cases "tag = FOOT_TAG")
    case True
    then show ?thesis using u t v length_tags(4)[symmetric] by (auto simp: index_blobs_def)
  next
    case False
    then have tag: "tag = PART_TAG" using u t by (auto split: if_splits)
    then obtain e p2 where e: "read_part_entry env version (length idx) f p1 = Inr (e, p2)" using u t by (auto split: sum.splits)
    have rd: "read_part_entries env version (idx @ [e]) (sat_add tot (ie_len e)) f p2 = Inr ((idx', tot'), pos')" using u t tag e by simp
    from "1.IH"[OF t refl False _ e refl "1.prems"(1) rd, of "index_blobs f [e] result"] tag
    obtain es where "idx' = (idx @ [e]) @ es" "scan_parts env version (index_blobs f [e] result) f p2 = Inr (index_blobs f es (index_blobs f [e] result))" by auto
    then show ?thesis using v t tag scan_part_entry[OF e "1.prems"(1), of result]
      by (intro exI[of _ "e # es"]) (simp add: index_blobs_def)
  qed
qed

section \<open>Reading arbitrary bytes\<close>

text \<open>Index entries of an accepted file, from a position on: every range lies inside the file and
  behind the ranges before it.\<close>

definition ranges_from :: "nat \<Rightarrow> nat \<Rightarrow> SegmentPartitionIndexEntry list \<Rightarrow> bool" where
  "ranges_from pos n es \<longleftrightarrow> (\<forall>e\<in>set es. pos \<le> unat (ie_part_meta_start e)
       \<and> unat (ie_part_meta_start e) + unat (ie_part_meta_len e) \<le> unat (ie_start e) \<and> unat (ie_start e) + unat (ie_len e) \<le> n
       \<and> (ie_codec e = PART_CODEC_ARROW \<or> is_copy_codec (ie_codec e)))
     \<and> sorted_wrt (\<lambda>a b. unat (ie_start a) + unat (ie_len a) \<le> unat (ie_part_meta_start b)) es"

lemma read_part_entries_ranges:
  assumes "length f < 2 ^ 64" "read_part_entries env version idx tot f pos = Inr ((idx', tot'), pos')"
  shows "\<exists>es. idx' = idx @ es \<and> ranges_from pos (length f) es \<and> (\<forall>k<length es. ie_slice_ordinal (es ! k) = word_of_nat (length idx + k))"
  using assms
proof (induction env version idx tot f pos rule: read_part_entries.induct)
  case (1 env version idx tot f pos)
  note u = "1.prems"(2)[unfolded read_part_entries.simps[of env version idx tot f pos]]
  from u obtain tag p1 where t: "read_exact 4 f pos = Inr (tag, p1)" by (auto split: sum.splits io_error.splits)
  show ?case
  proof (cases "tag = FOOT_TAG")
    case True
    then show ?thesis using u t by (auto simp: ranges_from_def)
  next
    case False
    then have tag: "tag = PART_TAG" using u t by (auto split: if_splits)
    then obtain e p2 where e: "read_part_entry env version (length idx) f p1 = Inr (e, p2)"
      using u t by (auto split: sum.splits)
    have rd: "read_part_entries env version (idx @ [e]) (sat_add tot (ie_len e)) f p2 = Inr ((idx', tot'), pos')" using u t tag e by simp
    from "1.IH"[OF t refl False _ e refl "1.prems"(1) rd] tag obtain es where es: "idx' = (idx @ [e]) @ es" "ranges_from p2 (length f) es"
      "\<forall>k<length es. ie_slice_ordinal (es ! k) = word_of_nat (length (idx @ [e]) + k)" by auto
    obtain ms st where r: "p1 + 32 \<le> ms" "ms + unat (ie_part_meta_len e) \<le> st" "p2 = st + unat (ie_len e)" "p2 \<le> length f"
      "ie_part_meta_start e = word_of_nat ms" "ie_start e = word_of_nat st" "ie_slice_ordinal e = word_of_nat (length idx)"
      "ie_codec e = PART_CODEC_ARROW \<or> is_copy_codec (ie_codec e)" using read_part_entry_InrD[OF e] by blast
    have un: "unat (ie_part_meta_start e) = ms" "unat (ie_start e) = st"
      unfolding r(5,6) using r(2-4) "1.prems"(1) by (intro unat_u64; simp)+
    have "p1 = pos + 4" using read_exact_InrD(1)[OF t] .
    then have "ranges_from pos (length f) (e # es)" using es(2) r(1-4,8) un by (fastforce simp: ranges_from_def)
    moreover have "\<forall>k<length (e # es). ie_slice_ordinal ((e # es) ! k) = word_of_nat (length idx + k)"
      using es(3) r(7) by (auto simp: nth_Cons split: nat.split)
    ultimately show ?thesis using es(1) by (intro exI[of _ "e # es"]) simp
  qed
qed

section \<open>A concrete segment\<close>

definition sample_key :: PartitionKey where
  "sample_key = \<lparr>pk_sink_ref = ''s'', pk_namespace = ''n'', pk_partition = ''p'', pk_time = None, pk_schema_fingerprint = ''f''\<rparr>"

definition sample_env :: "unit seg_env" where
  "sample_env = \<lparr>bin_offsets = (\<lambda>es. if es = [] then Inr [] else Inl ''unsupported''), unbin_offsets = (\<lambda>_. Inr Map.empty),
     bin_key = (\<lambda>k. if k = sample_key then Inr [1] else Inl ''unsupported''), unbin_key = (\<lambda>_. Inr sample_key),
     bin_meta = (\<lambda>_. Inl ''unsupported''), unbin_meta = (\<lambda>_. Inl ''unsupported''), sha256 = (\<lambda>_. replicate 32 0),
     arrow_ipc = (\<lambda>bs. Inr [7, 8, 9]), num_rows = (\<lambda>_. 1), array_memory_size = (\<lambda>_. 1)\<rparr>"

lemma sample_env_ok: "seg_env_ok sample_env"
  by (auto simp: seg_env_ok_def sample_env_def split: if_splits)

lemma sample_encodes:
  "\<exists>enc. encode_snapshot sample_env [] [(sample_key, ArrowPayload [()])] [] [] 0 = Inr enc \<and> length (en_bytes enc) < 2 ^ 64
     \<and> length (sm_index (en_meta enc)) = 1"
  by (simp add: encode_snapshot_def encode_part_def sample_env_def Let_def summarize_part_meta_blob_def overwrite_at_def)

section \<open>Properties\<close>

text \<open>C25. What the encoder writes the reader reads back: the metadata scan of the encoded bytes returns
  exactly the metadata the encoder reported, the checksum verifies, and the segment is admitted
  under the digest that goes into the catalog.\<close>

theorem segment_roundtrip:
  assumes "seg_env_ok env" "distinct (map fst offsets)" "\<And>k. length (meta_blob_of blobs k) < 2 ^ 64"
    "encode_snapshot env offsets batches partitions_meta blobs created_at = Inr enc"
    "length (en_bytes enc) < 2 ^ 64" "length batches < 2 ^ 32"
  shows "read_metadata_from_bytes env (en_bytes enc) = Inr (en_meta enc)
    \<and> admit_payload env (en_sha256 enc) (en_bytes enc) = Inr (en_meta enc)
    \<and> sm_offsets (en_meta enc) = map_of offsets"
proof -
  have "sm_offsets (en_meta enc) = map_of offsets" using assms(4) by (auto simp: encode_snapshot_def Let_def bindR_Inr_iff)
  then show ?thesis using encode_snapshot_spec[OF assms] by (simp add: admit_payload_def)
qed

theorem segment_roundtrip_witness:
  "\<exists>enc. encode_snapshot sample_env [] [(sample_key, ArrowPayload [()])] [] [] 0 = Inr enc
     \<and> read_metadata_from_bytes sample_env (en_bytes enc) = Inr (en_meta enc)"
proof -
  obtain enc where e: "encode_snapshot sample_env [] [(sample_key, ArrowPayload [()])] [] [] 0 = Inr enc" "length (en_bytes enc) < 2 ^ 64"
    using sample_encodes by blast
  then show ?thesis using segment_roundtrip[OF sample_env_ok _ _ e] by (auto simp: meta_blob_of_def)
qed

text \<open>The index of an encoded segment lists the partitions with rows in key order, whatever the
  iteration order of the hash map they came from; the byte range of each entry holds exactly the
  payload of its partition, and its metadata range reads back the metadata of that partition.\<close>

theorem segment_index_locates:
  assumes "seg_env_ok env" "distinct (map fst offsets)" "\<And>k. length (meta_blob_of blobs k) < 2 ^ 64"
    "encode_snapshot env offsets batches partitions_meta blobs created_at = Inr enc"
    "length (en_bytes enc) < 2 ^ 64" "length batches < 2 ^ 32"
  shows "list_all2 (\<lambda>(key, payload) e. ie_key e = key \<and> ie_codec e = payload_codec payload
      \<and> take (unat (ie_len e)) (drop (unat (ie_start e)) (en_bytes enc)) = payload_image env payload
      \<and> read_part_meta_from_bytes env (en_bytes enc) e = (if meta_blob_of blobs key = [] then Inr None
           else bindR (parse_part_meta_blob env (meta_blob_of blobs key)) (\<lambda>(m, _). Inr (Some m))))
    (sort_key (partition_tuple \<circ> fst) (filter (\<lambda>(k, p). \<not> payload_is_empty p) batches)) (sm_index (en_meta enc))"
proof -
  have "list_all2 (entry_stores env blobs (en_bytes enc))
      (sort_key (partition_tuple \<circ> fst) (filter (\<lambda>(k, p). \<not> payload_is_empty p) batches)) (sm_index (en_meta enc))"
    using encode_snapshot_spec[OF assms] by (simp add: filter_sort)
  then show ?thesis
  proof (rule list_all2_mono)
    fix x e assume "entry_stores env blobs (en_bytes enc) x e"
    then show "(\<lambda>(key, payload) e. ie_key e = key \<and> ie_codec e = payload_codec payload
      \<and> take (unat (ie_len e)) (drop (unat (ie_start e)) (en_bytes enc)) = payload_image env payload
      \<and> read_part_meta_from_bytes env (en_bytes enc) e = (if meta_blob_of blobs key = [] then Inr None
           else bindR (parse_part_meta_blob env (meta_blob_of blobs key)) (\<lambda>(m, _). Inr (Some m)))) x e"
      using stored_meta[OF _ assms(5), of env blobs _ _ e] by (cases x) (auto simp: entry_stores_def)
  qed
qed

theorem segment_index_locates_witness:
  "\<exists>enc. encode_snapshot sample_env [] [(sample_key, ArrowPayload [()])] [] [] 0 = Inr enc
     \<and> (\<exists>e. sm_index (en_meta enc) = [e] \<and> take (unat (ie_len e)) (drop (unat (ie_start e)) (en_bytes enc)) = [7, 8, 9])"
proof -
  obtain enc where e: "encode_snapshot sample_env [] [(sample_key, ArrowPayload [()])] [] [] 0 = Inr enc" "length (en_bytes enc) < 2 ^ 64"
    using sample_encodes by blast
  have "payload_image sample_env (ArrowPayload [()]) = [7, 8, 9]" by (simp add: payload_image_def sample_env_def)
  then show ?thesis using e(1) segment_index_locates[OF sample_env_ok _ _ e] by (auto simp: meta_blob_of_def list_all2_Cons1)
qed

text \<open>C27. Whatever bytes the metadata reader accepts, the index it returns is safe to use: ordinals
  count up from zero, the number of partitions is the number of entries, codecs are known, and
  the ranges of metadata and payload lie inside the file, one behind the other, without
  overlap.\<close>

theorem segment_reader_bounds:
  assumes "length f < 2 ^ 64" "read_metadata_from_bytes env f = Inr m"
  shows "length (sm_index m) < 2 ^ 32 \<and> unat (sm_num_partitions m) = length (sm_index m)
    \<and> (\<forall>k<length (sm_index m). unat (ie_slice_ordinal (sm_index m ! k)) = k)
    \<and> (\<forall>e\<in>set (sm_index m). unat (ie_part_meta_start e) + unat (ie_part_meta_len e) \<le> unat (ie_start e)
         \<and> unat (ie_start e) + unat (ie_len e) \<le> length f \<and> ie_codec e \<in> {PART_CODEC_ARROW, PART_CODEC_COPY, PART_CODEC_COPY_CHUNKED})
    \<and> sorted_wrt (\<lambda>a b. unat (ie_start a) + unat (ie_len a) \<le> unat (ie_part_meta_start b)) (sm_index m)"
proof -
  from assms(2) obtain version total_bytes pos pos' where
    r: "read_part_entries env version [] 0 f pos = Inr ((sm_index m, total_bytes), pos')" and small: "length (sm_index m) < 2 ^ 32"
    and n: "sm_num_partitions m = word_of_nat (length (sm_index m))"
    by (auto simp: read_metadata_from_bytes_def bindR_Inr_iff Let_def not_le split: if_splits)
  have "\<forall>k<length (sm_index m). ie_slice_ordinal (sm_index m ! k) = word_of_nat k" "ranges_from pos (length f) (sm_index m)"
    using read_part_entries_ranges[OF assms(1) r] by auto
  moreover have "unat (word_of_nat k :: u32) = k" if "k < 2 ^ 32" for k using that by (simp add: unat_of_nat)
  ultimately show ?thesis using small n by (auto simp: ranges_from_def is_copy_codec_def)
qed

theorem segment_reader_bounds_witness:
  "\<exists>enc. encode_snapshot sample_env [] [(sample_key, ArrowPayload [()])] [] [] 0 = Inr enc
     \<and> (\<exists>m. read_metadata_from_bytes sample_env (en_bytes enc) = Inr m \<and> unat (sm_num_partitions m) = 1)"
proof -
  obtain enc where e: "encode_snapshot sample_env [] [(sample_key, ArrowPayload [()])] [] [] 0 = Inr enc" "length (en_bytes enc) < 2 ^ 64"
    "length (sm_index (en_meta enc)) = 1" using sample_encodes by blast
  then have r: "read_metadata_from_bytes sample_env (en_bytes enc) = Inr (en_meta enc)"
    using encode_snapshot_spec[OF sample_env_ok _ _ e(1,2)] by (auto simp: meta_blob_of_def)
  show ?thesis using e(1,3) r segment_reader_bounds[OF e(2) r] by auto
qed

text \<open>C34. On every file the metadata reader accepts, the full scan for metadata sidecars agrees with the
  index: it succeeds and returns, for each partition whose entry has a sidecar, exactly the bytes
  of the entry's metadata range.\<close>

theorem scan_equals_index:
  assumes "length f < 2 ^ 64" "read_metadata_from_bytes env f = Inr m"
  shows "read_part_meta_blobs env f = Inr (index_blobs f (sm_index m) Map.empty)"
proof -
  from assms(2) obtain version pos1 pos2 total_bytes pos3 where
    r: "read_exact 4 f 0 = Inr (MAGIC, pos1)" "read_u32 f pos1 = Inr (version, pos2)" "accepted_segf_version version"
    and off: "\<exists>c ob p. read_u64 f pos2 = Inr (c, p) \<and> read_blob_capped_by_remaining ''WAL offsets blob'' f p = Inr (ob, pos3)"
    and parts: "\<exists>p. read_part_entries env version [] 0 f pos3 = Inr ((sm_index m, total_bytes), p)"
    by (auto simp: read_metadata_from_bytes_def bindR_Inr_iff Let_def split: if_splits)
  from off obtain ob where "read_blob_capped_by_remaining ''WAL offsets blob'' f (pos2 + 8) = Inr (ob, pos3)" by (auto dest: read_u64_InrD)
  then obtain len p where l: "read_len_capped_by_remaining ''WAL offsets blob'' f (pos2 + 8) = Inr (len, p)" "pos3 = p + len" "pos3 \<le> length f"
    by (auto simp: read_blob_capped_by_remaining_def bindR_Inr_iff read_exact_def split: if_splits)
  then have "skip_claimed_len ''WAL offsets blob'' f (pos2 + 8) = Inr pos3" using assms(1) by (simp add: skip_claimed_len_def)
  then show ?thesis using r parts scan_parts_entries[OF assms(1), of env version "[]" 0 pos3] by (auto simp: read_part_meta_blobs_def)
qed

theorem scan_equals_index_witness:
  "\<exists>enc. encode_snapshot sample_env [] [(sample_key, ArrowPayload [()])] [] [] 0 = Inr enc
     \<and> read_part_meta_blobs sample_env (en_bytes enc) = Inr (index_blobs (en_bytes enc) (sm_index (en_meta enc)) Map.empty)"
proof -
  obtain enc where e: "encode_snapshot sample_env [] [(sample_key, ArrowPayload [()])] [] [] 0 = Inr enc" "length (en_bytes enc) < 2 ^ 64"
    using sample_encodes by blast
  then have r: "read_metadata_from_bytes sample_env (en_bytes enc) = Inr (en_meta enc)"
    using encode_snapshot_spec[OF sample_env_ok _ _ e(1,2)] by (auto simp: meta_blob_of_def)
  show ?thesis using e(1) scan_equals_index[OF e(2) r] by blast
qed

end
