(* ===== verification/Wal_Handle.thy ===== *)
theory Wal_Handle
  imports Offset_Store Wal_Catalog Segment_File
begin

text \<open>
  The catalog-backed handle of a pipeline's WAL (\<^verbatim>\<open>src/src/buffer/wal_handle.rs\<close>): how a segment is
  committed and its offsets published, how control rows and compaction rows are written, how
  finished slices are recorded and finished segments reclaimed, and how all of it is redone after
  a restart. An operation maps the state of the handle to the new state and a result; \<open>None\<close>
  stands for a panic (a malformed bitmap) or for a loop that did not end. Catalog and offsets live
  in one store. Fields of the environment: the codecs, what other writers do to the store between
  a read and the conditional commit that follows it or between two publications (\<open>we_others\<close>), the
  position up to which the processor has consumed, object storage, the errors of the file system,
  and the order in which a hash map is iterated. Failpoints, logging and metrics are left out.
\<close>

section \<open>State, environment and control flow\<close>

record 's handle =
  hd_store :: 's
  hd_max_committed :: CatalogSeq
  hd_max_published :: CatalogSeq
  hd_done :: "(string, SliceBitmap) fmap"
  hd_files :: "(string, bytes) fmap"
  hd_reclaimed :: "(PayloadLocation \<times> string) list"

text \<open>\<open>hd_done\<close> are the bitmaps kept in memory, \<open>hd_files\<close> the payload files on disk, and \<open>hd_reclaimed\<close> the
  payloads dropped by reclaims, in order, with their segments.\<close>

record ('s, 'b) wal_env =
  we_codec :: codec
  we_store :: "'s store_ops"
  we_fence :: CatalogFence
  we_offsets :: "'s StoreOffsetStore"
  we_paths :: PipelinePaths
  we_seg :: "'b seg_env"
  we_min_unconsumed_seq :: u64
  we_open_error :: "string \<Rightarrow> string"
  we_get_object :: "string \<Rightarrow> string \<Rightarrow> string + bytes"
  we_write_error :: "string \<Rightarrow> Lease.io_error option"
  we_remove_ok :: "string \<Rightarrow> bool"
  we_decode_txn :: "bytes \<Rightarrow> string + CompactionTransaction"
  we_encode_checkpoint :: "CheckpointEnvelope \<Rightarrow> string + bytes"
  we_hash_order :: "(string \<times> u32 list) list \<Rightarrow> (string \<times> u32 list) list"
  we_others :: "nat \<Rightarrow> 's \<Rightarrow> 's"

type_synonym ('s, 'a) handle_op = "'s handle \<Rightarrow> 's handle \<times> (DurableError + 'a) option"

definition ret :: "'a \<Rightarrow> ('s, 'a) handle_op" where "ret x h = (h, Some (Inr x))"
definition fail :: "DurableError \<Rightarrow> ('s, 'a) handle_op" where "fail e h = (h, Some (Inl e))"
definition stuck :: "('s, 'a) handle_op" where "stuck h = (h, None)"

definition andthen :: "('s, 'a) handle_op \<Rightarrow> ('a \<Rightarrow> ('s, 'b) handle_op) \<Rightarrow> ('s, 'b) handle_op" where
  "andthen m k h = (case m h of
      (h', Some (Inr x)) \<Rightarrow> k x h'
    | (h', Some (Inl e)) \<Rightarrow> (h', Some (Inl e))
    | (h', None) \<Rightarrow> (h', None))"

definition lift :: "DurableError + 'a \<Rightarrow> ('s, 'a) handle_op" where "lift r h = (h, Some r)"
definition update :: "('s handle \<Rightarrow> 's handle) \<Rightarrow> ('s, unit) handle_op" where "update f h = (f h, Some (Inr ()))"
definition orpanic :: "'a option \<Rightarrow> ('s, 'a) handle_op" where
  "orpanic x = (case x of Some v \<Rightarrow> ret v | None \<Rightarrow> stuck)"

text \<open>Errors of the catalog and of identifiers as \<open>DurableError::Io\<close>.\<close>

definition io_catalog :: "CatalogError + 'a \<Rightarrow> DurableError + 'a" where
  "io_catalog = map_errR (\<lambda>e. Io (catalog_error_display e))"

definition io_path :: "PathError + 'a \<Rightarrow> DurableError + 'a" where
  "io_path = map_errR (\<lambda>e. Io (path_error_display e))"

fun catalog_durable_err :: "CatalogError \<Rightarrow> DurableError" where
  "catalog_durable_err ConditionFailed = CatalogConflict"
| "catalog_durable_err Conflict = CatalogConflict"
| "catalog_durable_err CatalogError.Fenced = DurableError.Fenced"
| "catalog_durable_err err = Io (catalog_error_display err)"

definition next_catalog_version :: "u64 \<Rightarrow> DurableError + u64" where
  "next_catalog_version expected = (case checked_add expected 1 of
      Some v \<Rightarrow> Inr v
    | None \<Rightarrow> Inl (ProtocolMismatch ''catalog row version overflow''))"

definition h_get :: "('s, 'b) wal_env \<Rightarrow> CatalogKey \<Rightarrow> ('s, CatalogRow option) handle_op" where
  "h_get env key h = (h, Some (io_catalog (catalog_get (we_codec env) (we_store env) (hd_store h) key)))"

definition h_query :: "('s, 'b) wal_env \<Rightarrow> CatalogPrefix \<Rightarrow> ('s, (CatalogKey \<times> CatalogRow) list) handle_op" where
  "h_query env p h = (h, map_option io_catalog (query_all (we_codec env) (we_store env) (hd_store h) p))"

definition flushing_commit :: "('s, 'b) wal_env \<Rightarrow> CatalogTxn \<Rightarrow> ('s, unit) handle_op" where
  "flushing_commit env txn h = (case commit_durable (we_codec env) (we_store env) (hd_store h) txn (we_fence env) of
      (s', r) \<Rightarrow> (h\<lparr>hd_store := s'\<rparr>, Some (map_errR catalog_durable_err r)))"

definition put_row :: "('s, 'b) wal_env \<Rightarrow> CatalogTxn \<Rightarrow> CatalogKey \<Rightarrow> CatalogRow \<Rightarrow> PutCond \<Rightarrow> ('s, CatalogTxn) handle_op" where
  "put_row env txn key row cond = lift (io_catalog (txn_put (we_codec env) txn key row cond))"

definition delete_row :: "('s, 'b) wal_env \<Rightarrow> CatalogTxn \<Rightarrow> CatalogKey \<Rightarrow> DeleteCond \<Rightarrow> ('s, CatalogTxn) handle_op" where
  "delete_row env txn key cond = lift (io_catalog (txn_delete (we_codec env) txn key cond))"

section \<open>Reading\<close>

definition catalog_seq_seen :: "('s, 'b) wal_env \<Rightarrow> ('s, u64) handle_op" where
  "catalog_seq_seen env = andthen (h_get env KSeq) (\<lambda>r. case r of
      Some (RSeq row) \<Rightarrow> ret (seq_get (max_seq row))
    | Some _ \<Rightarrow> fail (ProtocolMismatch ''wal#seq is not a SeqRow'')
    | None \<Rightarrow> ret 0)"

definition hydrate_seq :: "('s, 'b) wal_env \<Rightarrow> ('s, CatalogSeq) handle_op" where
  "hydrate_seq env = andthen (h_get env KSeq) (\<lambda>r. case r of
      Some (RSeq row) \<Rightarrow> ret (max_seq row)
    | _ \<Rightarrow> ret seq_ZERO)"

fun segment_of_row :: "CatalogRow \<Rightarrow> SegmentRow option" where
  "segment_of_row (RSegment seg) = Some seg"
| "segment_of_row _ = None"

definition live_segment_rows :: "('s, 'b) wal_env \<Rightarrow> ('s, SegmentRow list) handle_op" where
  "live_segment_rows env = andthen (h_query env PSegment) (\<lambda>rows. ret (List.map_filter (segment_of_row \<circ> snd) rows))"

definition catalog_segment_ids :: "('s, 'b) wal_env \<Rightarrow> ('s, string list) handle_op" where
  "catalog_segment_ids env = andthen (live_segment_rows env) (\<lambda>rows. ret (map (seg_as_str \<circ> sg_segment_id) rows))"

definition live_disk_payload_paths :: "('s, 'b) wal_env \<Rightarrow> ('s, string list) handle_op" where
  "live_disk_payload_paths env = andthen (h_query env PSegment) (\<lambda>rows.
     ret (List.map_filter (\<lambda>(_, row). case row of RSegment seg \<Rightarrow> (case sg_location seg of Disk path \<Rightarrow> Some path | _ \<Rightarrow> None) | _ \<Rightarrow> None) rows))"

definition segment_row :: "('s, 'b) wal_env \<Rightarrow> SegmentId \<Rightarrow> ('s, SegmentRow option) handle_op" where
  "segment_row env i = andthen (h_get env (KSegment i)) (\<lambda>r. case r of
      Some (RSegment row) \<Rightarrow> ret (Some row)
    | Some _ \<Rightarrow> fail (ProtocolMismatch ''wal#seg is not a SegmentRow'')
    | None \<Rightarrow> ret None)"

definition memory_done :: "string \<Rightarrow> u32 \<Rightarrow> 's handle \<Rightarrow> bool option" where
  "memory_done segment_id ordinal h = (case fmlookup (hd_done h) segment_id of
      None \<Rightarrow> Some False
    | Some bits \<Rightarrow> bm_is_done bits ordinal)"

definition slice_is_done :: "('s, 'b) wal_env \<Rightarrow> string \<Rightarrow> u32 \<Rightarrow> ('s, bool) handle_op" where
  "slice_is_done env segment_id ordinal h = andthen (orpanic (memory_done segment_id ordinal h)) (\<lambda>mem.
     if mem then ret True
     else andthen (lift (io_path (segment_id_new segment_id))) (\<lambda>i.
       andthen (segment_row env i) (\<lambda>r. case r of
          Some row \<Rightarrow> orpanic (bm_is_done (sg_done row) ordinal)
        | None \<Rightarrow> ret True))) h"

definition hydrate_in_memory_done :: "('s, 'b) wal_env \<Rightarrow> ('s, unit) handle_op" where
  "hydrate_in_memory_done env = andthen (live_segment_rows env) (\<lambda>rows.
     update (\<lambda>h. h\<lparr>hd_done := fold (\<lambda>row m. fmupd (seg_as_str (sg_segment_id row)) (sg_done row) m) rows fmempty\<rparr>))"

definition mark_acked_ordinals_in_memory :: "string \<Rightarrow> u32 list \<Rightarrow> u32 \<Rightarrow> ('s, unit) handle_op" where
  "mark_acked_ordinals_in_memory segment_id ordinals slice_count h =
     (let bits = (case fmlookup (hd_done h) segment_id of Some b \<Rightarrow> b | None \<Rightarrow> bm_new slice_count) in
      andthen (orpanic (bm_or_bits ordinals bits)) (\<lambda>b. update (\<lambda>h. h\<lparr>hd_done := fmupd segment_id b (hd_done h)\<rparr>)) h)"

definition forget_in_memory_segment :: "string \<Rightarrow> ('s, unit) handle_op" where
  "forget_in_memory_segment segment_id = update (\<lambda>h. h\<lparr>hd_done := fmdrop segment_id (hd_done h)\<rparr>)"

fun txn_state_of :: "CompactionState \<Rightarrow> CompactionTransactionState" where
  "txn_state_of Pending = TxnPending"
| "txn_state_of Sent = TxnSent"
| "txn_state_of Acked = TxnAcked"

fun decode_txns :: "('s, 'b) wal_env \<Rightarrow> CatalogRow list \<Rightarrow> DurableError + CompactionTransaction list" where
  "decode_txns env [] = Inr []"
| "decode_txns env (row # rows) = (case row of
      RCompaction r \<Rightarrow> bindR (map_errR Io (we_decode_txn env (cr_body r))) (\<lambda>txn.
        bindR (decode_txns env rows) (\<lambda>txns. Inr (txn\<lparr>ct_state := txn_state_of (cr_state r)\<rparr> # txns)))
    | _ \<Rightarrow> decode_txns env rows)"

definition compaction_transactions :: "('s, 'b) wal_env \<Rightarrow> ('s, CompactionTransaction list) handle_op" where
  "compaction_transactions env = andthen (h_query env PCompaction) (\<lambda>rows. lift (decode_txns env (map snd rows)))"

section \<open>The slice index\<close>

definition slice_dir_entry :: "SegmentPartitionIndexEntry \<Rightarrow> SliceDirEntry" where
  "slice_dir_entry e = \<lparr>sd_ordinal = ie_slice_ordinal e, sd_namespace = pk_namespace (ie_key e), sd_partition = pk_partition (ie_key e),
     sd_event_time = pk_time (ie_key e), sd_start = ie_start e, sd_len = ie_len e, sd_codec = ie_codec e,
     sd_row_count = summary_row_count (ie_part_meta_summary e), sd_sink_ref = pk_sink_ref (ie_key e),
     sd_schema_fingerprint = pk_schema_fingerprint (ie_key e), sd_cdc_meta_hash = summary_canonical_hash (ie_part_meta_summary e),
     sd_part_meta_start = ie_part_meta_start e, sd_part_meta_len = ie_part_meta_len e\<rparr>"

definition slice_dir_entries :: "SegmentFileMetadata \<Rightarrow> SliceDirEntry list" where
  "slice_dir_entries m = map slice_dir_entry (sm_index m)"

definition put_slice_index :: "('s, 'b) wal_env \<Rightarrow> CatalogTxn \<Rightarrow> SegmentId \<Rightarrow> SegmentFileMetadata \<Rightarrow> ('s, CatalogTxn) handle_op" where
  "put_slice_index env txn i m = (let entries = slice_dir_entries m in
     if entries = [] then ret txn
     else put_row env txn (KIndex i) (RIndex \<lparr>ix_segment_id = i, ix_version = 0, ix_entries = entries\<rparr>) NotExists)"

definition index_entry_of_dir :: "SliceDirEntry \<Rightarrow> SegmentPartitionIndexEntry" where
  "index_entry_of_dir d = \<lparr>
     ie_key = \<lparr>pk_sink_ref = sd_sink_ref d, pk_namespace = sd_namespace d, pk_partition = sd_partition d, pk_time = sd_event_time d,
       pk_schema_fingerprint = sd_schema_fingerprint d\<rparr>,
     ie_bytes = sd_len d, ie_updated_at_secs = 0, ie_slice_ordinal = sd_ordinal d, ie_part_meta_start = sd_part_meta_start d,
     ie_part_meta_len = sd_part_meta_len d,
     ie_part_meta_summary = (case sd_cdc_meta_hash d of
         Some hash \<Rightarrow> SummaryCdc (case sd_row_count d of Some n \<Rightarrow> n | None \<Rightarrow> 0) hash
       | None \<Rightarrow> SummaryAppend),
     ie_codec = sd_codec d, ie_start = sd_start d, ie_len = sd_len d\<rparr>"

definition meta_from_index_row :: "SegmentRow \<Rightarrow> SegmentIndexRow \<Rightarrow> SegmentFileMetadata" where
  "meta_from_index_row row index = \<lparr>sm_created_at_secs = 0, sm_total_bytes = sg_payload_len row,
     sm_num_partitions = of_nat (length (ix_entries index)), sm_offsets = Map.empty,
     sm_index = map index_entry_of_dir (ix_entries index), sm_body_sha256 = sg_payload_sha256 row\<rparr>"

fun io_display :: "Segment_File.io_error \<Rightarrow> string" where
  "io_display UnexpectedEof = ''failed to fill whole buffer''"
| "io_display (InvalidData msg) = msg"
| "io_display (OtherError msg) = msg"

text \<open>The bytes a location holds: a payload file of the handle or an object.\<close>

definition read_location :: "('s, 'b) wal_env \<Rightarrow> PayloadLocation \<Rightarrow> ('s, bytes) handle_op" where
  "read_location env loc h = lift (case loc of
      Disk path \<Rightarrow> (case fmlookup (hd_files h) path of Some bs \<Rightarrow> Inr bs | None \<Rightarrow> Inl (Io (we_open_error env path)))
    | S3 bucket key \<Rightarrow> map_errR Io (we_get_object env bucket key)) h"

definition read_index_location :: "('s, 'b) wal_env \<Rightarrow> PayloadLocation \<Rightarrow> ('s, SegmentFileMetadata) handle_op" where
  "read_index_location env loc = andthen (read_location env loc) (\<lambda>bs.
     lift (map_errR (Io \<circ> io_display) (read_metadata_from_bytes (we_seg env) bs)))"

definition admit_location :: "('s, 'b) wal_env \<Rightarrow> PayloadLocation \<Rightarrow> bytes \<Rightarrow> ('s, SegmentFileMetadata) handle_op" where
  "admit_location env loc expected_sha = (case loc of
      Disk path \<Rightarrow> andthen (read_location env loc) (\<lambda>bs.
        lift (map_errR (Io \<circ> io_display) (admit_payload (we_seg env) expected_sha bs)))
    | S3 bucket key \<Rightarrow> andthen (read_location env loc) (\<lambda>bs.
        andthen (lift (map_errR (Io \<circ> io_display) (verify_body_checksum (we_seg env) bs))) (\<lambda>claimed.
          if claimed \<noteq> expected_sha then fail (ProtocolMismatch ''payload sha256 does not match catalog row'')
          else andthen (lift (map_errR (Io \<circ> io_display) (read_metadata_from_bytes (we_seg env) bs))) (\<lambda>m.
            if sm_body_sha256 m \<noteq> expected_sha then fail (ProtocolMismatch ''FOOT digest disagrees with metadata scan'') else ret m))))"

definition payload_unreadable :: "('s, 'b) wal_env \<Rightarrow> string \<Rightarrow> 's handle \<Rightarrow> bool" where
  "payload_unreadable env segment_id h = (case segment_id_new segment_id of
      Inl _ \<Rightarrow> True
    | Inr i \<Rightarrow> (case catalog_get (we_codec env) (we_store env) (hd_store h) (KSegment i) of
          Inr (Some (RSegment seg)) \<Rightarrow> (case admit_location env (sg_location seg) (sg_payload_sha256 seg) h of
              (_, Some (Inr _)) \<Rightarrow> False
            | _ \<Rightarrow> True)
        | _ \<Rightarrow> True))"

definition persist_missing_index :: "('s, 'b) wal_env \<Rightarrow> SegmentId \<Rightarrow> SegmentFileMetadata \<Rightarrow> ('s, unit) handle_op" where
  "persist_missing_index env i m = andthen (h_get env (KIndex i)) (\<lambda>r.
     if r \<noteq> None then ret ()
     else andthen (put_slice_index env txn_new i m) (\<lambda>txn.
       if ops txn = [] then ret ()
       else (\<lambda>h. case flushing_commit env txn h of
           (h', Some (Inl CatalogConflict)) \<Rightarrow>
              andthen (h_get env (KIndex i)) (\<lambda>r. if r \<noteq> None then ret () else fail CatalogConflict) h'
         | res \<Rightarrow> res)))"

definition load_or_build_index_meta :: "('s, 'b) wal_env \<Rightarrow> SegmentRow \<Rightarrow> ('s, SegmentFileMetadata) handle_op" where
  "load_or_build_index_meta env row = (let i = sg_segment_id row in
     andthen (h_get env (KIndex i)) (\<lambda>r. case r of
        Some (RIndex index) \<Rightarrow> ret (meta_from_index_row row index)
      | _ \<Rightarrow> andthen (read_index_location env (sg_location row)) (\<lambda>m.
          andthen (persist_missing_index env i m) (\<lambda>_. ret m))))"

definition dir_matches :: "WalPartRef \<Rightarrow> SliceDirEntry \<Rightarrow> bool" where
  "dir_matches w d \<longleftrightarrow> sd_start d = wr_start w \<and> sd_len d = wr_len w \<and> sd_namespace d = pk_namespace (wr_key w)
     \<and> sd_partition d = pk_partition (wr_key w)"

definition index_matches :: "WalPartRef \<Rightarrow> SegmentPartitionIndexEntry \<Rightarrow> bool" where
  "index_matches w e \<longleftrightarrow> ie_start e = wr_start w \<and> ie_len e = wr_len w \<and> pk_namespace (ie_key e) = pk_namespace (wr_key w)
     \<and> pk_partition (ie_key e) = pk_partition (wr_key w)"

definition resolve_from_payload :: "('s, 'b) wal_env \<Rightarrow> SegmentId \<Rightarrow> WalPartRef \<Rightarrow> ('s, u32 option) handle_op" where
  "resolve_from_payload env i w = andthen (h_get env (KSegment i)) (\<lambda>r. case r of
      Some (RSegment seg) \<Rightarrow> (case sg_location seg of
          S3 _ _ \<Rightarrow> ret None
        | Disk path \<Rightarrow> andthen (read_index_location env (Disk path)) (\<lambda>m.
            andthen (persist_missing_index env i m) (\<lambda>_. ret (map_option ie_slice_ordinal (List.find (index_matches w) (sm_index m))))))
    | _ \<Rightarrow> ret None)"

definition resolve_ordinal :: "('s, 'b) wal_env \<Rightarrow> WalPartRef \<Rightarrow> ('s, u32 option) handle_op" where
  "resolve_ordinal env w = (case wr_ordinal w of
      Some ordinal \<Rightarrow> ret (Some ordinal)
    | None \<Rightarrow> andthen (lift (io_path (segment_id_new (wr_segment_id w)))) (\<lambda>i.
        andthen (h_get env (KIndex i)) (\<lambda>r. case r of
           Some (RIndex index) \<Rightarrow> (case List.find (dir_matches w) (ix_entries index) of
               Some d \<Rightarrow> ret (Some (sd_ordinal d))
             | None \<Rightarrow> resolve_from_payload env i w)
         | _ \<Rightarrow> resolve_from_payload env i w)))"

fun all_refs_done :: "('s, 'b) wal_env \<Rightarrow> WalPartRef list \<Rightarrow> ('s, bool) handle_op" where
  "all_refs_done env [] = ret True"
| "all_refs_done env (w # ws) = andthen (resolve_ordinal env w) (\<lambda>r. case r of
      None \<Rightarrow> ret False
    | Some ordinal \<Rightarrow> andthen (slice_is_done env (wr_segment_id w) ordinal) (\<lambda>d. if d then all_refs_done env ws else ret False))"

definition all_refs_already_done :: "('s, 'b) wal_env \<Rightarrow> CompactionTransaction \<Rightarrow> ('s, bool) handle_op" where
  "all_refs_already_done env txn = all_refs_done env (ct_refs txn)"

section \<open>Committing segments and control rows\<close>

definition UNPUBLISHED_COMMIT_CEILING :: u64 where "UNPUBLISHED_COMMIT_CEILING = 32"
definition REDO_ACKED_BATCH :: nat where "REDO_ACKED_BATCH = 32"
definition RECLAIM_OCC_ATTEMPTS :: nat where "RECLAIM_OCC_ATTEMPTS = 8"

definition handle_new :: "'s \<Rightarrow> (string, bytes) fmap \<Rightarrow> 's handle" where
  "handle_new s fs = \<lparr>hd_store = s, hd_max_committed = seq_ZERO, hd_max_published = seq_ZERO, hd_done = fmempty, hd_files = fs,
     hd_reclaimed = []\<rparr>"

definition check_ceiling :: "('s, unit) handle_op" where
  "check_ceiling h =
     (if UNPUBLISHED_COMMIT_CEILING \<le> sat_sub (seq_get (hd_max_committed h)) (seq_get (hd_max_published h))
      then fail (Io ''unpublished WAL catalog commit ceiling reached'') else ret ()) h"

definition next_seq :: "('s, 'b) wal_env \<Rightarrow> ('s, CatalogSeq) handle_op" where
  "next_seq env = andthen (h_get env KSeq) (\<lambda>r. andthen (case r of
       Some (RSeq row) \<Rightarrow> ret (max_seq row)
     | Some _ \<Rightarrow> fail (ProtocolMismatch ''wal#seq is not a SeqRow'')
     | None \<Rightarrow> ret seq_ZERO) (\<lambda>q. lift (io_catalog (seq_next q))))"

definition commit_with_seq :: "('s, 'b) wal_env \<Rightarrow> CatalogTxn \<Rightarrow> CatalogSeq \<Rightarrow> ('s, CatalogSeq) handle_op" where
  "commit_with_seq env txn q = andthen (put_row env txn KSeq (RSeq \<lparr>max_seq = q\<rparr>) SeqAdvance) (\<lambda>txn.
     andthen (flushing_commit env txn) (\<lambda>_.
     andthen (update (\<lambda>h. h\<lparr>hd_max_committed := q\<rparr>)) (\<lambda>_. ret q)))"

definition new_segment_row ::
  "('s, 'b) wal_env \<Rightarrow> SegmentId \<Rightarrow> EncodedSnapshot \<Rightarrow> PayloadLocation \<Rightarrow> u32 \<Rightarrow> CommittedOffset list \<Rightarrow> CommittedCheckpoint list
    \<Rightarrow> CatalogSeq \<Rightarrow> SegmentRow"
where
  "new_segment_row env i enc loc slice_count offs cps q =
     \<lparr>sg_segment_id = i, sg_seq = q, sg_location = loc, sg_payload_len = sm_total_bytes (en_meta enc), sg_payload_sha256 = en_sha256 enc,
      sg_slice_count = slice_count, sg_done = bm_new slice_count, sg_offsets = offs, sg_checkpoints = cps,
      sg_epoch = epoch (we_fence env), sg_version = 0\<rparr>"

definition commit_new_segment ::
  "('s, 'b) wal_env \<Rightarrow> SegmentId \<Rightarrow> EncodedSnapshot \<Rightarrow> PayloadLocation \<Rightarrow> u32 \<Rightarrow> CommittedOffset list \<Rightarrow> CommittedCheckpoint list
    \<Rightarrow> ('s, CatalogSeq) handle_op"
where
  "commit_new_segment env i enc loc slice_count offs cps = andthen check_ceiling (\<lambda>_. andthen (next_seq env) (\<lambda>q.
     andthen (put_row env txn_new (KSegment i) (RSegment (new_segment_row env i enc loc slice_count offs cps q)) NotExists) (\<lambda>txn.
     andthen (put_slice_index env txn i (en_meta enc)) (\<lambda>txn. commit_with_seq env txn q))))"

text \<open>The loop of \<open>publish_seq\<close>: only \<open>Transient\<close> errors are retried, without a limit. \<open>k\<close> counts the
  retries, and \<open>we_others env k\<close> is what others do to the store during the delay.\<close>

partial_function (option) publish_seq_from ::
  "('s, 'b) wal_env \<Rightarrow> CatalogSeq \<Rightarrow> CommittedOffset list \<Rightarrow> CommittedCheckpoint list \<Rightarrow> nat \<Rightarrow> 's handle \<Rightarrow> ('s handle \<times> (DurableError + unit)) option"
where
  "publish_seq_from env q offs cps k h =
     (case publish_committed (we_offsets env) (hd_store h) offs cps (epoch_get (epoch (we_fence env))) (seq_get q) Fresh of
        (s', Inr _) \<Rightarrow> (case os_flush (we_offsets env) s' of
            Inl e \<Rightarrow> Some (h\<lparr>hd_store := s'\<rparr>, Inl (Io e))
          | Inr _ \<Rightarrow> Some (h\<lparr>hd_store := s', hd_max_published := q\<rparr>, Inr ()))
      | (s', Inl err) \<Rightarrow> (case err of
            Corrupt e \<Rightarrow> Some (h\<lparr>hd_store := s'\<rparr>, Inl (CorruptOffset e))
          | FenceRegression \<Rightarrow> Some (h\<lparr>hd_store := s'\<rparr>, Inl FencedAfterCommit)
          | Transient e \<Rightarrow> publish_seq_from env q offs cps (Suc k) (h\<lparr>hd_store := we_others env k s'\<rparr>)))"

definition publish_seq :: "('s, 'b) wal_env \<Rightarrow> CatalogSeq \<Rightarrow> CommittedOffset list \<Rightarrow> CommittedCheckpoint list \<Rightarrow> ('s, unit) handle_op" where
  "publish_seq env q offs cps h = (case publish_seq_from env q offs cps 0 h of
      Some (h', r) \<Rightarrow> (h', Some r)
    | None \<Rightarrow> (h, None))"

definition stored_filesize :: "bytes option \<Rightarrow> u64" where
  "stored_filesize existing = (case existing of Some bs \<Rightarrow> if length bs = 24 then u64_of_le (take 8 bs) else 0 | None \<Rightarrow> 0)"

fun collect_offsets :: "('s, 'b) wal_env \<Rightarrow> (OffsetKey \<times> u64) list \<Rightarrow> ('s, CommittedOffset list) handle_op" where
  "collect_offsets env [] = ret []"
| "collect_offsets env ((key, position) # rest) = andthen
     (\<lambda>h. lift (map_errR Io (get_offset (we_offsets env) (hd_store h) (ok_namespace key) (ok_partition key))) h) (\<lambda>existing.
     andthen (collect_offsets env rest) (\<lambda>out. ret (
       \<lparr>off_namespace = ok_namespace key, off_partition = ok_partition key, off_filesize = stored_filesize existing,
        off_position = position, off_closed = 1\<rparr> # out)))"

definition committed_offsets_from :: "('s, 'b) wal_env \<Rightarrow> (OffsetKey \<times> u64) list \<Rightarrow> ('s, CommittedOffset list) handle_op" where
  "committed_offsets_from env offsets = andthen (collect_offsets env offsets) (\<lambda>out.
     ret (sort_key (\<lambda>off. (off_namespace off, off_partition off)) out))"

fun collect_checkpoints :: "('s, 'b) wal_env \<Rightarrow> (string \<times> CheckpointEnvelope) list \<Rightarrow> DurableError + CommittedCheckpoint list" where
  "collect_checkpoints env [] = Inr []"
| "collect_checkpoints env ((key, envelope) # rest) = bindR (map_errR Io (we_encode_checkpoint env envelope)) (\<lambda>bs.
     bindR (collect_checkpoints env rest) (\<lambda>out. Inr (\<lparr>ckp_logical_key = key, ckp_envelope = bs\<rparr> # out)))"

definition checkpoints_from :: "('s, 'b) wal_env \<Rightarrow> (string \<times> CheckpointEnvelope) list \<Rightarrow> DurableError + CommittedCheckpoint list" where
  "checkpoints_from env updates = bindR (collect_checkpoints env updates) (\<lambda>out. Inr (sort_key ckp_logical_key out))"

record SegmentWriteResult =
  wt_meta :: SegmentFileMetadata
  wt_total_rows :: u64
  wt_sha256 :: bytes
  wt_location :: PayloadLocation
  wt_offsets_published :: bool

definition write_result :: "EncodedSnapshot \<Rightarrow> PayloadLocation \<Rightarrow> SegmentWriteResult" where
  "write_result enc loc = \<lparr>wt_meta = en_meta enc, wt_total_rows = en_total_rows enc, wt_sha256 = en_sha256 enc, wt_location = loc,
     wt_offsets_published = True\<rparr>"

definition write_payload :: "('s, 'b) wal_env \<Rightarrow> string \<Rightarrow> bytes \<Rightarrow> ('s, unit) handle_op" where
  "write_payload env path bs = (case we_write_error env path of
      Some err \<Rightarrow> andthen (orpanic (durable_from_io err)) fail
    | None \<Rightarrow> update (\<lambda>h. h\<lparr>hd_files := fmupd path bs (hd_files h)\<rparr>))"

text \<open>\<open>DurableError::from\<close> on an error of the encoder, which has no operating system code.\<close>

definition durable_of_encode :: "Segment_File.io_error \<Rightarrow> DurableError option" where
  "durable_of_encode e = durable_from_io \<lparr>storage_full = False, raw_os_error = None, io_message = io_display e\<rparr>"

definition encode_op :: "Segment_File.io_error + 'a \<Rightarrow> ('s, 'a) handle_op" where
  "encode_op r = (case r of Inr x \<Rightarrow> ret x | Inl e \<Rightarrow> andthen (orpanic (durable_of_encode e)) fail)"

definition num_slices :: "EncodedSnapshot \<Rightarrow> u32" where
  "num_slices enc = max (sm_num_partitions (en_meta enc)) 1"

definition persist_segment ::
  "('s, 'b) wal_env \<Rightarrow> string \<Rightarrow> (OffsetKey \<times> u64) list \<Rightarrow> (PartitionKey \<times> 'b WalPayload) list \<Rightarrow> (PartitionKey \<times> u64 \<times> SystemTime) list
    \<Rightarrow> (PartitionKey \<times> bytes) list \<Rightarrow> (string \<times> CheckpointEnvelope) list \<Rightarrow> SystemTime \<Rightarrow> ('s, SegmentWriteResult) handle_op"
where
  "persist_segment env snapshot_id offsets batches partitions_meta blobs updates created_at =
     andthen (lift (io_path (segment_id_new snapshot_id))) (\<lambda>i.
     andthen (encode_op (encode_snapshot (we_seg env) offsets batches partitions_meta blobs created_at)) (\<lambda>enc.
     andthen (committed_offsets_from env offsets) (\<lambda>offs.
     andthen (lift (checkpoints_from env updates)) (\<lambda>cps.
     andthen (segment_row env i) (\<lambda>existing. case existing of
        Some row \<Rightarrow>
          if sg_payload_sha256 row \<noteq> en_sha256 enc then fail (ProtocolMismatch ''segment_id reuse with different payload sha'')
          else andthen (publish_seq env (sg_seq row) offs cps) (\<lambda>_. ret (write_result enc (sg_location row)))
      | None \<Rightarrow>
          (let path = path_join (segs (we_paths env)) (snapshot_id @ ''.seg'') in
           andthen (write_payload env path (en_bytes enc)) (\<lambda>_.
           andthen (commit_new_segment env i enc (Disk path) (num_slices enc) offs cps) (\<lambda>q.
           andthen (publish_seq env q offs cps) (\<lambda>_. ret (write_result enc (Disk path))))))))))) "

definition persist_s3_segment ::
  "('s, 'b) wal_env \<Rightarrow> string \<Rightarrow> EncodedSnapshot \<Rightarrow> string \<Rightarrow> string \<Rightarrow> (OffsetKey \<times> u64) list \<Rightarrow> (string \<times> CheckpointEnvelope) list
    \<Rightarrow> ('s, SegmentWriteResult) handle_op"
where
  "persist_s3_segment env snapshot_id enc bucket object_key offsets updates =
     andthen (lift (io_path (segment_id_new snapshot_id))) (\<lambda>i.
     andthen (committed_offsets_from env offsets) (\<lambda>offs.
     andthen (lift (checkpoints_from env updates)) (\<lambda>cps.
     andthen (h_get env (KSegment i)) (\<lambda>existing.
     andthen (case existing of
        Some (RSegment row) \<Rightarrow>
          if sg_payload_sha256 row \<noteq> en_sha256 enc then fail (ProtocolMismatch ''segment_id reuse with different payload sha'') else ret (sg_seq row)
      | _ \<Rightarrow> commit_new_segment env i enc (S3 bucket object_key) (num_slices enc) offs cps) (\<lambda>q.
     andthen (publish_seq env q offs cps) (\<lambda>_. ret (write_result enc (S3 bucket object_key))))))))"

definition commit_control_row :: "('s, 'b) wal_env \<Rightarrow> CatalogKey \<Rightarrow> ControlBody \<Rightarrow> u64 option \<Rightarrow> ('s, CatalogSeq) handle_op" where
  "commit_control_row env key body existing_version = andthen check_ceiling (\<lambda>_. andthen (next_seq env) (\<lambda>q.
     andthen (case existing_version of Some v \<Rightarrow> lift (next_catalog_version v) | None \<Rightarrow> ret 0) (\<lambda>version.
     andthen (put_row env txn_new key (RControl \<lparr>ct_seq = q, ct_epoch = epoch (we_fence env), ct_body = body, ct_version = version\<rparr>)
        (case existing_version of Some v \<Rightarrow> PutVersion v | None \<Rightarrow> NotExists)) (\<lambda>txn. commit_with_seq env txn q))))"

definition persist_control ::
  "('s, 'b) wal_env \<Rightarrow> CatalogKey \<Rightarrow> ControlBody \<Rightarrow> CommittedOffset list \<Rightarrow> CommittedCheckpoint list \<Rightarrow> ('s, unit) handle_op"
where
  "persist_control env key body offs cps = andthen (h_get env key) (\<lambda>existing.
     andthen (case existing of
        Some (RControl row) \<Rightarrow> if ct_body row = body then ret (ct_seq row) else commit_control_row env key body (Some (ct_version row))
      | _ \<Rightarrow> commit_control_row env key body None) (\<lambda>q. publish_seq env q offs cps))"

definition persist_checkpoint :: "('s, 'b) wal_env \<Rightarrow> string \<Rightarrow> CheckpointEnvelope \<Rightarrow> ('s, unit) handle_op" where
  "persist_checkpoint env logical_key envelope = andthen (lift (map_errR Io (we_encode_checkpoint env envelope))) (\<lambda>bs.
     andthen (lift (io_path (checkpoint_key_new logical_key))) (\<lambda>k.
       persist_control env (KCheckpoint k) (CheckpointBody logical_key bs) [] [\<lparr>ckp_logical_key = logical_key, ckp_envelope = bs\<rparr>]))"

definition persist_offset_hint :: "('s, 'b) wal_env \<Rightarrow> string \<Rightarrow> string \<Rightarrow> u64 \<Rightarrow> bool \<Rightarrow> ('s, unit) handle_op" where
  "persist_offset_hint env ns part position closed = andthen (lift (io_path (offset_hint_key_new ns part))) (\<lambda>k.
     andthen (\<lambda>h. lift (map_errR Io (get_offset (we_offsets env) (hd_store h) ns part)) h) (\<lambda>existing.
       persist_control env (KOffsetHint k) (OffsetHintBody position closed)
         [\<lparr>off_namespace = ns, off_partition = part, off_filesize = stored_filesize existing, off_position = position,
           off_closed = (if closed then 1 else 0)\<rparr>] []))"

section \<open>Conditional updates and reclaim\<close>

definition replace_payload_location :: "('s, 'b) wal_env \<Rightarrow> string \<Rightarrow> PayloadLocation \<Rightarrow> u64 \<Rightarrow> bytes \<Rightarrow> ('s, unit) handle_op" where
  "replace_payload_location env segment_id loc payload_len sha = andthen (lift (io_path (segment_id_new segment_id))) (\<lambda>i.
     andthen (h_get env (KSegment i)) (\<lambda>r. case r of
        Some (RSegment row) \<Rightarrow> andthen (lift (next_catalog_version (sg_version row))) (\<lambda>v.
          andthen (put_row env txn_new (KSegment i)
            (RSegment (row\<lparr>sg_location := loc, sg_payload_len := payload_len, sg_payload_sha256 := sha, sg_version := v\<rparr>))
            (PutVersion (sg_version row))) (flushing_commit env))
      | _ \<Rightarrow> fail (Io (''missing SegmentRow for payload replace '' @ segment_id))))"

definition put_compaction :: "('s, 'b) wal_env \<Rightarrow> string \<Rightarrow> CompactionState \<Rightarrow> bytes \<Rightarrow> ('s, unit) handle_op" where
  "put_compaction env txn_id state body = andthen (lift (io_path (compaction_id_new txn_id))) (\<lambda>i.
     andthen (h_get env (KCompaction i)) (\<lambda>existing.
     andthen (case existing of
        Some (RCompaction row) \<Rightarrow> andthen (lift (next_catalog_version (cr_version row))) (\<lambda>v. ret (PutVersion (cr_version row), v))
      | _ \<Rightarrow> ret (NotExists, 0)) (\<lambda>(cond, version).
     andthen (put_row env txn_new (KCompaction i) (RCompaction \<lparr>cr_id = i, cr_state = state, cr_body = body, cr_version = version\<rparr>) cond)
       (flushing_commit env))))"

definition delete_compaction :: "('s, 'b) wal_env \<Rightarrow> string \<Rightarrow> ('s, unit) handle_op" where
  "delete_compaction env txn_id = andthen (lift (io_path (compaction_id_new txn_id))) (\<lambda>i.
     andthen (delete_row env txn_new (KCompaction i) DelExists) (flushing_commit env))"

definition allows_reclaim :: "('s, 'b) wal_env \<Rightarrow> u64 \<Rightarrow> bool" where
  "allows_reclaim env segment_seq \<longleftrightarrow> segment_seq < we_min_unconsumed_seq env"

definition delete_payload :: "('s, 'b) wal_env \<Rightarrow> PayloadLocation \<Rightarrow> ('s, unit) handle_op" where
  "delete_payload env loc = (case loc of
      Disk path \<Rightarrow> update (\<lambda>h. if we_remove_ok env path then h\<lparr>hd_files := fmdrop path (hd_files h)\<rparr> else h)
    | S3 bucket key \<Rightarrow> ret ())"

definition after_reclaim :: "('s, 'b) wal_env \<Rightarrow> PayloadLocation \<Rightarrow> string \<Rightarrow> ('s, unit) handle_op" where
  "after_reclaim env loc segment_id = andthen (delete_payload env loc) (\<lambda>_. andthen (forget_in_memory_segment segment_id) (\<lambda>_.
     update (\<lambda>h. h\<lparr>hd_reclaimed := hd_reclaimed h @ [(loc, segment_id)]\<rparr>)))"

definition interfere :: "('s, 'b) wal_env \<Rightarrow> nat \<Rightarrow> ('s, unit) handle_op" where
  "interfere env k = update (\<lambda>h. h\<lparr>hd_store := we_others env k (hd_store h)\<rparr>)"

text \<open>The delete of a segment's rows: the segment under its version, and the index when there is one.\<close>

definition delete_segment_ops :: "('s, 'b) wal_env \<Rightarrow> CatalogTxn \<Rightarrow> SegmentId \<Rightarrow> u64 \<Rightarrow> ('s, CatalogTxn) handle_op" where
  "delete_segment_ops env txn i version = andthen (delete_row env txn (KSegment i) (DelVersion version)) (\<lambda>txn.
     andthen (h_get env (KIndex i)) (\<lambda>ix. if ix \<noteq> None then delete_row env txn (KIndex i) DelExists else ret txn))"

definition update_segment_ops :: "('s, 'b) wal_env \<Rightarrow> CatalogTxn \<Rightarrow> SegmentId \<Rightarrow> SegmentRow \<Rightarrow> SliceBitmap \<Rightarrow> u64 \<Rightarrow> ('s, CatalogTxn) handle_op" where
  "update_segment_ops env txn i row bits v =
     put_row env txn (KSegment i) (RSegment (row\<lparr>sg_done := bits, sg_version := v\<rparr>)) (PutVersion (sg_version row))"

text \<open>What follows an attempt to commit: success continues, a conflict retries, any other error returns.\<close>

definition on_commit :: "('s, unit) handle_op \<Rightarrow> ('s, 'a) handle_op \<Rightarrow> ('s, 'a) handle_op \<Rightarrow> ('s, 'a) handle_op" where
  "on_commit commit success retry h = (case commit h of
      (h', Some (Inr _)) \<Rightarrow> success h'
    | (h', Some (Inl e)) \<Rightarrow> if e = CatalogConflict then retry h' else fail e h'
    | (h', None) \<Rightarrow> (h', None))"

fun complete_attempts :: "('s, 'b) wal_env \<Rightarrow> SegmentId \<Rightarrow> string \<Rightarrow> u32 list \<Rightarrow> nat \<Rightarrow> ('s, bool) handle_op" where
  "complete_attempts env i segment_id ordinals 0 = fail CatalogConflict"
| "complete_attempts env i segment_id ordinals (Suc k) = andthen (segment_row env i) (\<lambda>r. case r of
      None \<Rightarrow> ret True
    | Some row \<Rightarrow>
        andthen (orpanic (bm_or_bits ordinals (sg_done row))) (\<lambda>bits.
        andthen (orpanic (bm_all_done bits)) (\<lambda>all_done.
        andthen (lift (next_catalog_version (sg_version row))) (\<lambda>v.
        (let can_reclaim = all_done \<and> allows_reclaim env (seq_get (sg_seq row)) in
         andthen (if can_reclaim then delete_segment_ops env txn_new i (sg_version row)
                  else update_segment_ops env txn_new i row bits v) (\<lambda>txn.
         andthen (interfere env k) (\<lambda>_.
         on_commit (flushing_commit env txn)
           (andthen (mark_acked_ordinals_in_memory segment_id ordinals (sg_slice_count row)) (\<lambda>_.
              if can_reclaim then andthen (after_reclaim env (sg_location row) segment_id) (\<lambda>_. ret True) else ret False))
           (complete_attempts env i segment_id ordinals k))))))))"

definition complete_slices_and_reclaim :: "('s, 'b) wal_env \<Rightarrow> string \<Rightarrow> u32 list \<Rightarrow> ('s, bool) handle_op" where
  "complete_slices_and_reclaim env segment_id ordinals = andthen (lift (io_path (segment_id_new segment_id))) (\<lambda>i.
     complete_attempts env i segment_id ordinals RECLAIM_OCC_ATTEMPTS)"

fun reclaim_rows :: "('s, 'b) wal_env \<Rightarrow> u64 \<Rightarrow> SegmentRow list \<Rightarrow> u64 \<Rightarrow> ('s, u64) handle_op" where
  "reclaim_rows env bound [] n = ret n"
| "reclaim_rows env bound (row # rows) n = andthen (orpanic (bm_all_done (sg_done row))) (\<lambda>all_done.
     if \<not> all_done \<or> bound \<le> seq_get (sg_seq row) then reclaim_rows env bound rows n
     else andthen (complete_slices_and_reclaim env (seg_as_str (sg_segment_id row)) []) (\<lambda>gone.
       reclaim_rows env bound rows (if gone then n + 1 else n)))"

definition reclaim_fully_done_before :: "('s, 'b) wal_env \<Rightarrow> u64 \<Rightarrow> ('s, u64) handle_op" where
  "reclaim_fully_done_before env bound = andthen (live_segment_rows env) (\<lambda>rows. reclaim_rows env bound rows 0)"

section \<open>Redoing acknowledged compactions\<close>

fun acked_ids :: "('s, 'b) wal_env \<Rightarrow> CompactionTransaction list \<Rightarrow> ('s, string list) handle_op" where
  "acked_ids env [] = ret []"
| "acked_ids env (txn # txns) = (\<lambda>h. case all_refs_already_done env txn h of
      (h', None) \<Rightarrow> (h', None)
    | (h', Some r) \<Rightarrow> (let bits_done = (case r of Inr d \<Rightarrow> d | Inl _ \<Rightarrow> False) in
        andthen (acked_ids env txns) (\<lambda>out. ret (if ct_state txn \<noteq> TxnAcked \<and> \<not> bits_done then out else ct_id txn # out)) h'))"

definition apply_acked_in_memory :: "('s, 'b) wal_env \<Rightarrow> ('s, string list) handle_op" where
  "apply_acked_in_memory env = andthen (hydrate_in_memory_done env) (\<lambda>_. andthen (compaction_transactions env) (acked_ids env))"

fun group_push :: "string \<Rightarrow> u32 \<Rightarrow> (string \<times> u32 list) list \<Rightarrow> (string \<times> u32 list) list" where
  "group_push sid n [] = [(sid, [n])]"
| "group_push sid n ((s, ns) # g) = (if s = sid then (s, ns @ [n]) # g else (s, ns) # group_push sid n g)"

fun group_refs :: "('s, 'b) wal_env \<Rightarrow> WalPartRef list \<Rightarrow> (string \<times> u32 list) list \<Rightarrow> ('s, (string \<times> u32 list) list) handle_op" where
  "group_refs env [] g = ret g"
| "group_refs env (w # ws) g = andthen (resolve_ordinal env w) (\<lambda>r. case r of
      None \<Rightarrow> group_refs env ws g
    | Some n \<Rightarrow> group_refs env ws (group_push (wr_segment_id w) n g))"

record redo_plan =
  rp_txn :: CatalogTxn
  rp_reclaim :: "(string \<times> PayloadLocation) list"
  rp_memory :: "(string \<times> u32 list \<times> u32) list"

definition plan_segment :: "('s, 'b) wal_env \<Rightarrow> string \<Rightarrow> u32 list \<Rightarrow> redo_plan \<Rightarrow> ('s, redo_plan) handle_op" where
  "plan_segment env segment_id ordinals p = andthen (lift (io_path (segment_id_new segment_id))) (\<lambda>i.
     andthen (h_get env (KSegment i)) (\<lambda>r. case r of
        Some (RSegment row) \<Rightarrow>
          andthen (orpanic (bm_or_bits ordinals (sg_done row))) (\<lambda>bits.
          andthen (orpanic (bm_all_done bits)) (\<lambda>all_done.
          andthen (lift (next_catalog_version (sg_version row))) (\<lambda>v.
          andthen (if all_done then delete_segment_ops env (rp_txn p) i (sg_version row)
                   else update_segment_ops env (rp_txn p) i row bits v) (\<lambda>txn.
          ret \<lparr>rp_txn = txn, rp_reclaim = (if all_done then rp_reclaim p @ [(segment_id, sg_location row)] else rp_reclaim p),
               rp_memory = rp_memory p @ [(segment_id, ordinals, sg_slice_count row)]\<rparr>))))
      | _ \<Rightarrow> ret p))"

fun plan_segments :: "('s, 'b) wal_env \<Rightarrow> (string \<times> u32 list) list \<Rightarrow> redo_plan \<Rightarrow> ('s, redo_plan) handle_op" where
  "plan_segments env [] p = ret p"
| "plan_segments env ((sid, ns) # g) p = andthen (plan_segment env sid ns p) (plan_segments env g)"

fun plan_compactions :: "('s, 'b) wal_env \<Rightarrow> CompactionTransaction list \<Rightarrow> CatalogTxn \<Rightarrow> ('s, CatalogTxn) handle_op" where
  "plan_compactions env [] txn = ret txn"
| "plan_compactions env (t # ts) txn = andthen (lift (io_path (compaction_id_new (ct_id t)))) (\<lambda>i.
     andthen (h_get env (KCompaction i)) (\<lambda>r.
     andthen (if r \<noteq> None then delete_row env txn (KCompaction i) DelExists else ret txn) (plan_compactions env ts)))"

fun mark_all :: "(string \<times> u32 list \<times> u32) list \<Rightarrow> ('s, unit) handle_op" where
  "mark_all [] = ret ()"
| "mark_all ((sid, ns, n) # ms) = andthen (mark_acked_ordinals_in_memory sid ns n) (\<lambda>_. mark_all ms)"

fun reclaim_all :: "('s, 'b) wal_env \<Rightarrow> (string \<times> PayloadLocation) list \<Rightarrow> ('s, unit) handle_op" where
  "reclaim_all env [] = ret ()"
| "reclaim_all env ((sid, loc) # rs) = andthen (after_reclaim env loc sid) (\<lambda>_. reclaim_all env rs)"

fun flush_attempts :: "('s, 'b) wal_env \<Rightarrow> CompactionTransaction list \<Rightarrow> (string \<times> u32 list) list \<Rightarrow> nat \<Rightarrow> ('s, u64) handle_op" where
  "flush_attempts env batch grouped 0 = fail CatalogConflict"
| "flush_attempts env batch grouped (Suc k) =
     andthen (plan_segments env grouped \<lparr>rp_txn = txn_new, rp_reclaim = [], rp_memory = []\<rparr>) (\<lambda>p.
     andthen (plan_compactions env batch (rp_txn p)) (\<lambda>txn.
       if ops txn = [] then ret (of_nat (length batch))
       else andthen (interfere env k) (\<lambda>_.
         on_commit (flushing_commit env txn)
           (andthen (mark_all (rp_memory p)) (\<lambda>_. andthen (reclaim_all env (rp_reclaim p)) (\<lambda>_. ret (of_nat (length batch)))))
           (flush_attempts env batch grouped k))))"

definition flush_acked_batch :: "('s, 'b) wal_env \<Rightarrow> CompactionTransaction list \<Rightarrow> ('s, u64) handle_op" where
  "flush_acked_batch env batch = andthen (group_refs env (concat (map ct_refs batch)) []) (\<lambda>grouped.
     flush_attempts env batch (we_hash_order env grouped) RECLAIM_OCC_ATTEMPTS)"

text \<open>A batch that fails for another reason than a conflict is deferred: logged and left in the catalog.\<close>

definition flush_or_defer :: "('s, 'b) wal_env \<Rightarrow> CompactionTransaction list \<Rightarrow> ('s, unit) handle_op" where
  "flush_or_defer env batch h = (case flush_acked_batch env batch h of
      (h', Some (Inl e)) \<Rightarrow> if e = CatalogConflict then fail CatalogConflict h' else ret () h'
    | (h', Some (Inr _)) \<Rightarrow> ret () h'
    | (h', None) \<Rightarrow> (h', None))"

fun redo_batches :: "('s, 'b) wal_env \<Rightarrow> string list \<Rightarrow> CompactionTransaction list \<Rightarrow> CompactionTransaction list \<Rightarrow> ('s, unit) handle_op" where
  "redo_batches env wanted batch [] = (if batch = [] then ret () else flush_or_defer env batch)"
| "redo_batches env wanted batch (txn # txns) =
     (if ct_id txn \<notin> set wanted then redo_batches env wanted batch txns
      else if length (batch @ [txn]) < REDO_ACKED_BATCH then redo_batches env wanted (batch @ [txn]) txns
      else andthen (flush_or_defer env (batch @ [txn])) (\<lambda>_. redo_batches env wanted [] txns))"

definition redo_acked_durable_batches :: "('s, 'b) wal_env \<Rightarrow> string list \<Rightarrow> ('s, unit) handle_op" where
  "redo_acked_durable_batches env wanted = andthen (compaction_transactions env) (redo_batches env wanted [])"

definition redo_acked_compactions :: "('s, 'b) wal_env \<Rightarrow> ('s, unit) handle_op" where
  "redo_acked_compactions env = andthen (apply_acked_in_memory env) (\<lambda>acked.
     if acked = [] then ret () else redo_acked_durable_batches env acked)"

section \<open>Republication and the format row\<close>

fun offset_publish_error_display :: "OffsetPublishError \<Rightarrow> string" where
  "offset_publish_error_display (Corrupt e) = ''corrupt offset payload: '' @ e"
| "offset_publish_error_display (Transient e) = ''transient offset publish error: '' @ e"
| "offset_publish_error_display FenceRegression = ''offset fence regression''"

definition republish :: "('s, 'b) wal_env \<Rightarrow> CatalogSeq \<Rightarrow> CommittedOffset list \<Rightarrow> CommittedCheckpoint list \<Rightarrow> ('s, unit) handle_op" where
  "republish env q offs cps h = (case publish_committed (we_offsets env) (hd_store h) offs cps (epoch_get (epoch (we_fence env))) (seq_get q) Republish of
      (s', r) \<Rightarrow> (h\<lparr>hd_store := s'\<rparr>, Some (map_errR (Io \<circ> offset_publish_error_display) r)))"

fun republish_segments :: "('s, 'b) wal_env \<Rightarrow> SegmentRow list \<Rightarrow> ('s, unit) handle_op" where
  "republish_segments env [] = ret ()"
| "republish_segments env (row # rows) = andthen (republish env (sg_seq row) (sg_offsets row) (sg_checkpoints row)) (\<lambda>_. republish_segments env rows)"

fun control_of_row :: "CatalogKey \<times> CatalogRow \<Rightarrow> (CatalogKey \<times> ControlRow) option" where
  "control_of_row (key, RControl c) = Some (key, c)"
| "control_of_row _ = None"

definition republish_control :: "('s, 'b) wal_env \<Rightarrow> CatalogKey \<Rightarrow> ControlRow \<Rightarrow> ('s, unit) handle_op" where
  "republish_control env key row = (case ct_body row of
      CheckpointBody logical_key envelope \<Rightarrow>
        republish env (ct_seq row) [] [\<lparr>ckp_logical_key = logical_key, ckp_envelope = envelope\<rparr>]
    | OffsetHintBody position closed \<Rightarrow> (case key of
          KOffsetHint hint \<Rightarrow> republish env (ct_seq row)
            [\<lparr>off_namespace = hint_namespace hint, off_partition = hint_partition hint, off_filesize = 0, off_position = position,
              off_closed = (if closed then 1 else 0)\<rparr>] []
        | _ \<Rightarrow> ret ()))"

fun republish_controls :: "('s, 'b) wal_env \<Rightarrow> (CatalogKey \<times> ControlRow) list \<Rightarrow> ('s, unit) handle_op" where
  "republish_controls env [] = ret ()"
| "republish_controls env ((key, row) # rest) = andthen (republish_control env key row) (\<lambda>_. republish_controls env rest)"

definition republish_all :: "('s, 'b) wal_env \<Rightarrow> ('s, unit) handle_op" where
  "republish_all env = andthen (live_segment_rows env) (\<lambda>rows.
     andthen (republish_segments env (sort_key (seq_get \<circ> sg_seq) rows)) (\<lambda>_.
     andthen (h_query env PCheckpoint) (\<lambda>cps.
     andthen (h_query env POffsetHint) (\<lambda>hints.
     andthen (republish_controls env (sort_key (seq_get \<circ> ct_seq \<circ> snd) (List.map_filter control_of_row (cps @ hints)))) (\<lambda>_.
       (\<lambda>h. lift (map_errR Io (os_flush (we_offsets env) (hd_store h))) h))))))"

definition ensure_format_clean :: "('s, 'b) wal_env \<Rightarrow> ('s, unit) handle_op" where
  "ensure_format_clean env = andthen (h_get env KFormat) (\<lambda>r. case r of
      Some (RFormat row) \<Rightarrow> ret ()
    | Some _ \<Rightarrow> fail (ProtocolMismatch ''wal#format is not a FormatRow'')
    | None \<Rightarrow> andthen (put_row env txn_new KFormat (RFormat \<lparr>fm_version = FORMAT_VERSION, fm_phase = Clean, fm_row_version = 0\<rparr>) NotExists)
        (flushing_commit env))"

end
