(* ===== verification/Wal_Durability.thy ===== *)
theory Wal_Durability
  imports Wal_Handle
begin

text \<open>
  What the handle of \<open>Wal_Handle\<close> guarantees over a lawful store: how its operations run, what a
  persisted segment leaves in the catalog, in the offsets and on disk, what repeating it does, and
  when a segment is reclaimed.
\<close>

section \<open>Running operations\<close>

lemma run_simps [simp]:
  "ret x h = (h, Some (Inr x))" "fail e h = (h, Some (Inl e))" "stuck h = (h, None)"
  "lift r h = (h, Some r)" "update f h = (f h, Some (Inr ()))"
  "orpanic (Some x) = ret x" "orpanic None = stuck"
  by (simp_all add: ret_def fail_def stuck_def lift_def update_def orpanic_def)

lemma andthen_run [simp]:
  "m h = (h', Some (Inr x)) \<Longrightarrow> andthen m k h = k x h'"
  "m h = (h', Some (Inl e)) \<Longrightarrow> andthen m k h = (h', Some (Inl e))"
  "m h = (h', None) \<Longrightarrow> andthen m k h = (h', None)"
  by (simp_all add: andthen_def)

lemma andthen_Inr:
  "andthen m k h = (h', Some (Inr y)) \<longleftrightarrow> (\<exists>h1 x. m h = (h1, Some (Inr x)) \<and> k x h1 = (h', Some (Inr y)))"
  by (auto simp: andthen_def split: prod.splits option.splits sum.splits)

lemma orpanic_Inr: "orpanic x h = (h', Some (Inr y)) \<longleftrightarrow> x = Some y \<and> h' = h"
  by (cases x) auto

lemma io_simps [simp]:
  "io_catalog (Inr x) = Inr x" "io_path (Inr x) = Inr x"
  "io_catalog (Inl e) = Inl (Io (catalog_error_display e))" "io_path (Inl p) = Inl (Io (path_error_display p))"
  by (simp_all add: io_catalog_def io_path_def)

lemma io_catalog_Inr: "io_catalog r = Inr x \<longleftrightarrow> r = Inr x"
  by (cases r) auto

lemma io_path_Inr: "io_path r = Inr x \<longleftrightarrow> r = Inr x"
  by (cases r) auto

lemma put_row_ok:
  assumes "length (ops txn) < TXN_MAX_OPS" "\<not> is_err (row_encode (we_codec env) row)" "cond = SeqAdvance \<longrightarrow> key = KSeq"
  shows "put_row env txn key row cond h = (h, Some (Inr (txn\<lparr>ops := ops txn @ [OpPut key row cond]\<rparr>)))"
proof -
  have "op_pushable (we_codec env) (OpPut key row cond)"
    using assms(2,3) by (cases cond; cases "row_encode (we_codec env) row") (auto simp: op_pushable_def)
  then have "txn_push (we_codec env) txn (OpPut key row cond) = Inr (txn\<lparr>ops := ops txn @ [OpPut key row cond]\<rparr>)"
    using assms(1) by (simp add: txn_push_Inr)
  then show ?thesis by (simp add: put_row_def txn_put_def)
qed

lemma delete_row_ok:
  assumes "length (ops txn) < TXN_MAX_OPS"
  shows "delete_row env txn key cond h = (h, Some (Inr (txn\<lparr>ops := ops txn @ [OpDelete key cond]\<rparr>)))"
proof -
  have "txn_push (we_codec env) txn (OpDelete key cond) = Inr (txn\<lparr>ops := ops txn @ [OpDelete key cond]\<rparr>)"
    using assms by (simp add: txn_push_Inr op_pushable_def)
  then show ?thesis by (simp add: delete_row_def txn_delete_def)
qed

lemma put_row_Inr:
  "put_row env txn key row cond h = (h', Some (Inr txn')) \<longleftrightarrow> h' = h \<and> length (ops txn) < TXN_MAX_OPS
     \<and> op_pushable (we_codec env) (OpPut key row cond) \<and> txn' = txn\<lparr>ops := ops txn @ [OpPut key row cond]\<rparr>"
  by (auto simp: put_row_def txn_put_def io_catalog_Inr txn_push_Inr)

lemma delete_row_Inr:
  "delete_row env txn key cond h = (h', Some (Inr txn')) \<longleftrightarrow> h' = h \<and> length (ops txn) < TXN_MAX_OPS
     \<and> op_pushable (we_codec env) (OpDelete key cond) \<and> txn' = txn\<lparr>ops := ops txn @ [OpDelete key cond]\<rparr>"
  by (auto simp: delete_row_def txn_delete_def io_catalog_Inr txn_push_Inr)

section \<open>Families of the shared store\<close>

lemma stored_key_not_offsets: "stored_key k \<noteq> family_key Offsets rest"
  by (simp add: stored_key_def family_key_def as_bytes_def byte_of_char_def)

definition wal_env_ok :: "'s store_ops \<Rightarrow> ('s, 'b) wal_env \<Rightarrow> bool" where
  "wal_env_ok sops env \<longleftrightarrow> we_store env = sops \<and> os_store (we_offsets env) = sops \<and> os_fence (we_offsets env) = we_fence env
     \<and> os_sled_fallback (we_offsets env) = None \<and> codec_ok (we_codec env) \<and> (\<forall>bs. is_str (os_sha_hex (we_offsets env) bs))"

definition fence_before :: "'s StoreOffsetStore \<Rightarrow> 's \<Rightarrow> u64 \<Rightarrow> u64 \<Rightarrow> string \<Rightarrow> bool" where
  "fence_before oe s e q sk \<longleftrightarrow> (\<forall>e' q' h'. stored_fence oe s sk = Some (e', q', h') \<longrightarrow> (e', q') < (e, q))"

abbreviation fence_epoch :: "('s, 'b) wal_env \<Rightarrow> u64" where
  "fence_epoch env \<equiv> epoch_get (epoch (we_fence env))"

abbreviation same_offsets :: "kv_rows \<Rightarrow> kv_rows \<Rightarrow> bool" where
  "same_offsets m m' \<equiv> (\<forall>rest. fmlookup m' (family_key Offsets rest) = fmlookup m (family_key Offsets rest))"

context skippr_store
begin

lemma catalog_get_view: "catalog_get c sops s k = Inr r \<Longrightarrow> catalog_view c (rows_of s) k = r"
  by (auto simp: catalog_get_def get_law catalog_view_def bindR_Inr_iff split: option.splits sum.splits)

lemma catalog_get_wf: "catalog_wf c (rows_of s) \<Longrightarrow> catalog_get c sops s k = Inr (catalog_view c (rows_of s) k)"
  using stored_key_catalog[of k] unfolding catalog_wf_def catalog_get_def get_law catalog_view_def
  by (fastforce split: option.splits)

lemma h_get_ok:
  "we_store env = sops \<Longrightarrow> catalog_wf (we_codec env) (rows_of (hd_store h)) \<Longrightarrow>
     h_get env k h = (h, Some (Inr (catalog_view (we_codec env) (rows_of (hd_store h)) k)))"
  by (simp add: h_get_def catalog_get_wf)

lemma h_get_Inr:
  "we_store env = sops \<Longrightarrow> h_get env k h = (h', Some (Inr r)) \<Longrightarrow>
     h' = h \<and> r = catalog_view (we_codec env) (rows_of (hd_store h)) k"
  using catalog_get_view[of "we_codec env" "hd_store h" k r] by (auto simp: h_get_def io_catalog_Inr)

lemma flushing_commit_run:
  assumes "we_store env = sops"
  shows "flushing_commit env txn h = (case catalog_commit (we_codec env) sops (hd_store h) txn (we_fence env) of
     Inr s' \<Rightarrow> (h\<lparr>hd_store := s'\<rparr>, Some (Inr ())) | Inl e \<Rightarrow> (h, Some (Inl (catalog_durable_err e))))"
  using assms by (simp add: flushing_commit_def commit_durable_def flush_law split: sum.split)

lemma flushing_commit_Inr:
  "we_store env = sops \<Longrightarrow> flushing_commit env txn h = (h', Some (Inr u)) \<longleftrightarrow>
     (\<exists>s'. catalog_commit (we_codec env) sops (hd_store h) txn (we_fence env) = Inr s' \<and> h' = h\<lparr>hd_store := s'\<rparr>)"
  by (auto simp: flushing_commit_run split: sum.splits)

lemma catalog_commit_offsets:
  assumes "catalog_commit c sops s txn f = Inr s'"
  shows "same_offsets (rows_of s) (rows_of s')"
proof -
  from catalog_commit_planned[OF assms] obtain "as" where r: "rows_of s' = apply_kv_ops (map kv_of_applied as) (rows_of s)" by blast
  have "fmlookup (apply_kv_ops (map kv_of_applied as) m) (family_key Offsets rest) = fmlookup m (family_key Offsets rest)" for m rest
  proof (induction "as" arbitrary: m)
    case (Cons a "as")
    have "fmlookup (apply_kv_op (kv_of_applied a) m) (family_key Offsets rest) = fmlookup m (family_key Offsets rest)"
      using stored_key_not_offsets[of _ rest] stored_key_not_offsets[of _ rest, symmetric] by (cases a) auto
    then show ?case using Cons[of "apply_kv_op (kv_of_applied a) m"] by (simp add: apply_kv_ops_def)
  qed (simp add: apply_kv_ops_def)
  then show ?thesis by (simp add: r)
qed

lemma catalog_commit_fence: "catalog_commit c sops s txn f = Inr s' \<Longrightarrow> fence_ok s f \<and> fence_ok s' = fence_ok s"
  using catalog_commit_planned by blast

lemma get_offset_cong:
  "os_store env = sops \<Longrightarrow> same_offsets (rows_of s) (rows_of s') \<Longrightarrow> family_get env s' Offsets rest = family_get env s Offsets rest"
  by (rule family_get_cong) auto

lemma publish_items_untouched:
  assumes "os_store env = sops" "publish_items env its e q mode s = (s', r)"
    "\<forall>(sk, bs)\<in>set its. kb \<noteq> family_key Offsets (as_bytes sk) \<and> kb \<noteq> family_key Offsets (as_bytes (fence_key sk))"
  shows "fmlookup (rows_of s') kb = fmlookup (rows_of s) kb \<and> fence_ok s' = fence_ok s"
  using assms(2,3)
proof (induction its arbitrary: s)
  case (Cons it its)
  obtain sk bs where it: "it = (sk, bs)" by (cases it)
  obtain s1 r1 where p: "publish_wal_commit env s sk bs e q (os_sha_hex env bs) mode = (s1, r1)" by fastforce
  have "fmlookup (rows_of s1) kb = fmlookup (rows_of s) kb \<and> fence_ok s1 = fence_ok s"
    using assms(1) p Cons.prems(2) it by (cases rule: publish_cases) auto
  then show ?case using Cons p it by (auto split: sum.splits)
qed simp

lemma publish_items_other:
  assumes "os_store env = sops" "publish_items env its e q mode s = (s', r)" "\<forall>rest. kb \<noteq> family_key Offsets rest"
  shows "fmlookup (rows_of s') kb = fmlookup (rows_of s) kb \<and> fence_ok s' = fence_ok s"
  using assms by (intro publish_items_untouched) auto

lemma publish_items_view:
  assumes "os_store env = sops" "publish_items env its e q mode s = (s', r)"
  shows "catalog_view c (rows_of s') = catalog_view c (rows_of s)" "catalog_wf c (rows_of s) \<Longrightarrow> catalog_wf c (rows_of s')"
proof -
  have look: "fmlookup (rows_of s') kb = fmlookup (rows_of s) kb" if "\<forall>rest. kb \<noteq> family_key Offsets rest" for kb
    using publish_items_other[OF assms that] by simp
  show "catalog_view c (rows_of s') = catalog_view c (rows_of s)"
    by (rule ext) (simp add: catalog_view_def look stored_key_not_offsets)
  have "\<not> prefix (family_prefix Catalog) (family_key Offsets rest)" for rest
    by (auto simp: family_key_def as_bytes_def byte_of_char_def)
  then have "fmlookup (rows_of s') kb = fmlookup (rows_of s) kb" if "prefix (family_prefix Catalog) kb" for kb
    using that by (intro look) metis
  then show "catalog_wf c (rows_of s')" if "catalog_wf c (rows_of s)"
    using that unfolding catalog_wf_def by metis
qed

text \<open>With a valid fence a publication is never transient, and it is applied when no stored fence is newer.\<close>

lemma publish_wal_commit_run:
  assumes "os_store oe = sops" "os_sled_fallback oe = None" "fence_ok s (os_fence oe)"
  shows "\<exists>s1. so_commit sops s [KvPut (family_key Offsets (as_bytes sk)) bs,
        KvPut (family_key Offsets (as_bytes (fence_key sk))) (encode_fence e q h)] (os_fence oe) = Inr s1 \<and>
     publish_wal_commit oe s sk bs e q h mode = (case decide_wal_publish (stored_fence oe s sk) e q h mode of
        Inl err \<Rightarrow> (s, Inl err) | Inr AlreadyApplied \<Rightarrow> (s, Inr ()) | Inr Commit \<Rightarrow> (s1, Inr ()))"
proof -
  have fg: "family_get oe s Offsets (as_bytes (fence_key sk)) = Inr (fmlookup (rows_of s) (family_key Offsets (as_bytes (fence_key sk))))"
    using assms(1,2) by (simp add: family_get_eq split: option.split)
  obtain s1 where "so_commit sops s [KvPut (family_key Offsets (as_bytes sk)) bs,
        KvPut (family_key Offsets (as_bytes (fence_key sk))) (encode_fence e q h)] (os_fence oe) = Inr s1"
    using commit_law[OF assms(3)] by blast
  then show ?thesis using fg assms(1)
    by (auto simp: publish_wal_commit_def stored_fence_def split: sum.split PublishAction.split)
qed

lemma publish_items_not_transient:
  assumes "os_store oe = sops" "os_sled_fallback oe = None" "fence_ok s (os_fence oe)" "publish_items oe its e q mode s = (s', Inl err)"
  shows "err \<noteq> Transient m"
  using assms(3,4)
proof (induction its arbitrary: s)
  case (Cons it its)
  obtain sk bs where it: "it = (sk, bs)" by (cases it)
  obtain s1 r1 where p: "publish_wal_commit oe s sk bs e q (os_sha_hex oe bs) mode = (s1, r1)" by fastforce
  show ?case
  proof (cases r1)
    case (Inl e1)
    have "e1 \<noteq> Transient m"
      using publish_wal_commit_run[OF assms(1,2) Cons.prems(1), of sk bs e q "os_sha_hex oe bs" mode] p Inl
      by (auto simp: decide_wal_publish_def split: option.splits if_splits PublishMode.splits)
    then show ?thesis using Cons.prems(2) p it Inl by simp
  next
    case (Inr u)
    have "fence_ok s1 (os_fence oe)"
      using publish_items_other[of oe "[(sk, bs)]" e q mode s s1 "Inr ()" "[]"] assms(1) p Inr Cons.prems(1)
      by (simp add: family_key_def as_bytes_def)
    then show ?thesis using Cons p it Inr by simp
  qed
qed simp

lemma publish_items_fresh:
  assumes oe: "os_store oe = sops" "os_sled_fallback oe = None"
    and "fence_ok s (os_fence oe)" "distinct (map fst its)" "no_fence_sks its" "\<forall>(sk, bs)\<in>set its. fence_before oe s e q sk"
  shows "\<exists>s'. publish_items oe its e q mode s = (s', Inr ())
     \<and> (\<forall>(sk, bs)\<in>set its. fmlookup (rows_of s') (family_key Offsets (as_bytes sk)) = Some bs)"
  using assms(3-6)
proof (induction its arbitrary: s)
  case (Cons it its)
  obtain sk bs where it: "it = (sk, bs)" by (cases it)
  let ?h = "os_sha_hex oe bs"
  have "decide_wal_publish (stored_fence oe s sk) e q ?h mode = Inr Commit"
    using Cons.prems(4) it by (auto simp: decide_wal_publish_def fence_before_def split: option.split)
  with publish_wal_commit_run[OF oe Cons.prems(1), of sk bs e q ?h mode]
  obtain s1 where p: "publish_wal_commit oe s sk bs e q ?h mode = (s1, Inr ())"
    and c: "so_commit sops s [KvPut (family_key Offsets (as_bytes sk)) bs,
        KvPut (family_key Offsets (as_bytes (fence_key sk))) (encode_fence e q ?h)] (os_fence oe) = Inr s1" by auto
  have r1: "rows_of s1 = fmupd (family_key Offsets (as_bytes (fence_key sk))) (encode_fence e q ?h) (fmupd (family_key Offsets (as_bytes sk)) bs (rows_of s))"
    and f1: "fence_ok s1 (os_fence oe)" using commit_Inr[OF c] Cons.prems(1) by (simp_all add: apply_kv_ops_def)
  have ne: "sk' \<noteq> sk" if "(sk', bs') \<in> set its" for sk' bs' using that Cons.prems(2) it by (auto simp: image_iff)
  have nf: "sk \<noteq> fence_key sk'" for sk' using Cons.prems(3) it not_fence_prefix by (auto simp: no_fence_sks_def)
  have "fence_before oe s1 e q sk'" if "(sk', bs') \<in> set its" for sk' bs'
  proof -
    have "stored_fence oe s1 sk' = stored_fence oe s sk'"
      using family_get_other[OF oe(1) ne[OF that] nf r1] by (simp add: stored_fence_def)
    then show ?thesis using Cons.prems(4) that it by (auto simp: fence_before_def)
  qed
  then obtain s' where s': "publish_items oe its e q mode s1 = (s', Inr ())"
    "\<forall>(sk, bs)\<in>set its. fmlookup (rows_of s') (family_key Offsets (as_bytes sk)) = Some bs"
    using Cons.IH[OF f1] Cons.prems(2,3) by (auto simp: no_fence_sks_def)
  have "fmlookup (rows_of s') (family_key Offsets (as_bytes sk)) = fmlookup (rows_of s1) (family_key Offsets (as_bytes sk))"
    using ne nf by (intro conjunct1[OF publish_items_untouched[OF oe(1) s'(1)]]) (auto simp: offsets_key_inj)
  then have "fmlookup (rows_of s') (family_key Offsets (as_bytes sk)) = Some bs"
    using r1 fence_key_neq[of sk] by (simp add: offsets_key_inj)
  then show ?case using p it s' by auto
qed simp

end

section \<open>Publishing a sequence number\<close>

context skippr_store
begin

lemma publish_seq_run:
  assumes env: "wal_env_ok sops env" and f: "fence_ok (hd_store h) (we_fence env)"
  obtains s' r where "publish_items (we_offsets env) (commit_items offs cps) (fence_epoch env) (seq_get q) Fresh (hd_store h) = (s', r)"
    "publish_seq env q offs cps h = (case r of
        Inr _ \<Rightarrow> (h\<lparr>hd_store := s', hd_max_published := q\<rparr>, Some (Inr ()))
      | Inl (Corrupt e) \<Rightarrow> (h\<lparr>hd_store := s'\<rparr>, Some (Inl (CorruptOffset e)))
      | Inl _ \<Rightarrow> (h\<lparr>hd_store := s'\<rparr>, Some (Inl FencedAfterCommit)))"
    "\<And>e. r \<noteq> Inl (Transient e)"
proof -
  let ?oe = "we_offsets env"
  have oe: "os_store ?oe = sops" "os_sled_fallback ?oe = None" "fence_ok (hd_store h) (os_fence ?oe)"
    using env f by (auto simp: wal_env_ok_def)
  obtain s' r where p: "publish_items ?oe (commit_items offs cps) (fence_epoch env) (seq_get q) Fresh (hd_store h) = (s', r)" by fastforce
  have nt: "r \<noteq> Inl (Transient e)" for e
    using publish_items_not_transient[OF oe, of "commit_items offs cps"] p by blast
  have fl: "os_flush ?oe s' = Inr ()" using oe(1) by (simp add: os_flush_def flush_law)
  have "publish_seq_from env q offs cps 0 h = Some (case r of
        Inr _ \<Rightarrow> (h\<lparr>hd_store := s', hd_max_published := q\<rparr>, Inr ())
      | Inl (Corrupt e) \<Rightarrow> (h\<lparr>hd_store := s'\<rparr>, Inl (CorruptOffset e))
      | Inl _ \<Rightarrow> (h\<lparr>hd_store := s'\<rparr>, Inl FencedAfterCommit))"
    using p nt fl by (subst publish_seq_from.simps) (auto simp: publish_committed_items split: sum.split OffsetPublishError.split)
  then show thesis
    using that[OF p] nt by (auto simp: publish_seq_def split: sum.splits OffsetPublishError.splits)
qed

lemma publish_seq_fresh:
  assumes env: "wal_env_ok sops env" and f: "fence_ok (hd_store h) (we_fence env)"
    and its: "distinct (map fst (commit_items offs cps))" "no_fence_sks (commit_items offs cps)"
      "\<forall>(sk, bs)\<in>set (commit_items offs cps). fence_before (we_offsets env) (hd_store h) (fence_epoch env) (seq_get q) sk"
  shows "\<exists>s'. publish_seq env q offs cps h = (h\<lparr>hd_store := s', hd_max_published := q\<rparr>, Some (Inr ()))
     \<and> catalog_view c (rows_of s') = catalog_view c (rows_of (hd_store h)) \<and> (catalog_wf c (rows_of (hd_store h)) \<longrightarrow> catalog_wf c (rows_of s'))
     \<and> fence_ok s' = fence_ok (hd_store h)
     \<and> (\<forall>(sk, bs)\<in>set (commit_items offs cps). publish_settled (we_offsets env) s' sk (fence_epoch env) (seq_get q) (os_sha_hex (we_offsets env) bs) Fresh
          \<and> get_bytes (we_offsets env) s' sk = Inr (Some bs))"
proof -
  let ?oe = "we_offsets env"
  have oe: "os_store ?oe = sops" "os_sled_fallback ?oe = None" "fence_ok (hd_store h) (os_fence ?oe)" "\<And>bs. is_str (os_sha_hex ?oe bs)"
    using env f by (auto simp: wal_env_ok_def)
  obtain s' where p: "publish_items ?oe (commit_items offs cps) (fence_epoch env) (seq_get q) Fresh (hd_store h) = (s', Inr ())"
    and look: "\<forall>(sk, bs)\<in>set (commit_items offs cps). fmlookup (rows_of s') (family_key Offsets (as_bytes sk)) = Some bs"
    using publish_items_fresh[OF oe(1-3) its] by blast
  then have "publish_seq env q offs cps h = (h\<lparr>hd_store := s', hd_max_published := q\<rparr>, Some (Inr ()))"
    by (rule_tac publish_seq_run[OF env f, of offs cps q]) simp
  moreover have "fence_ok s' = fence_ok (hd_store h)"
    using publish_items_other[OF oe(1) p, of "[]"] by (simp add: family_key_def as_bytes_def)
  moreover have "\<forall>(sk, bs)\<in>set (commit_items offs cps). get_bytes ?oe s' sk = Inr (Some bs)"
    using look by (auto simp: get_bytes_def family_get_eq[OF oe(1)])
  ultimately show ?thesis
    using publish_items_view[OF oe(1) p] publish_items_all_settled[OF oe(1,4) its(2) p] by fast
qed

end

section \<open>Conditions of single operations\<close>

abbreviation op_runs :: "codec \<Rightarrow> kv_rows \<Rightarrow> CatalogOp \<Rightarrow> bool" where
  "op_runs c m op \<equiv> \<not> is_err (eval_op c (\<lambda>key. Inr (fmlookup m (stored_key key))) op)"

lemma is_err_iff: "\<not> is_err r \<longleftrightarrow> (\<exists>x. r = Inr x)"
  by (cases r) auto

lemma view_None: "catalog_wf c m \<Longrightarrow> catalog_view c m k = None \<Longrightarrow> fmlookup m (stored_key k) = None"
  using stored_key_catalog[of k] unfolding catalog_wf_def catalog_view_def by (fastforce split: option.splits)

lemma put_new_runs:
  assumes "catalog_wf c m" "catalog_view c m key = None" "\<not> is_err (row_encode c row)" "\<And>r. row \<noteq> RLegacySlice r"
  shows "op_runs c m (OpPut key row NotExists)"
proof -
  obtain bs where "row_encode c row = Inr bs" using assms(3) by (auto simp: is_err_iff)
  then show ?thesis using view_None[OF assms(1,2)] assms(4) by (cases row) (auto simp: check_put_cond_def)
qed

lemma put_seq_runs:
  assumes "catalog_wf c m" "case catalog_view c m KSeq of None \<Rightarrow> True | Some (RSeq old) \<Rightarrow> seq_get (max_seq old) < seq_get q | _ \<Rightarrow> False"
    "\<not> is_err (row_encode c (RSeq \<lparr>max_seq = q\<rparr>))"
  shows "op_runs c m (OpPut KSeq (RSeq \<lparr>max_seq = q\<rparr>) SeqAdvance)"
proof -
  obtain bs where bs: "row_encode c (RSeq \<lparr>max_seq = q\<rparr>) = Inr bs" using assms(3) by (auto simp: is_err_iff)
  show ?thesis
  proof (cases "catalog_view c m KSeq")
    case None
    from view_None[OF assms(1) this] bs show ?thesis by (simp add: check_put_cond_def)
  next
    case (Some old)
    then obtain v where "fmlookup m (stored_key KSeq) = Some v" "row_decode c v = Inr old" unfolding catalog_view_Some by blast
    then show ?thesis using assms(2) Some bs by (cases old) (auto simp: check_put_cond_def)
  qed
qed

lemma put_version_runs:
  assumes "catalog_view c m key = Some old" "row_version_of old = Some v" "checked_add v 1 = Some v'" "row_version_of row = Some v'"
    "\<not> is_err (row_encode c row)" "\<And>r. row \<noteq> RLegacySlice r"
  shows "op_runs c m (OpPut key row (PutVersion v))"
proof -
  obtain bs where "row_encode c row = Inr bs" using assms(5) by (auto simp: is_err_iff)
  moreover obtain b0 where "fmlookup m (stored_key key) = Some b0" "row_decode c b0 = Inr old"
    using assms(1) unfolding catalog_view_Some by blast
  ultimately show ?thesis using assms(2-4,6)
    by (cases row) (auto simp: check_put_cond_def version_matches_def row_version_def)
qed

lemma delete_runs:
  "catalog_view c m key = Some old \<Longrightarrow> op_runs c m (OpDelete key DelExists)"
  "catalog_view c m key = Some old \<Longrightarrow> row_version_of old = Some v \<Longrightarrow> op_runs c m (OpDelete key (DelVersion v))"
  unfolding catalog_view_Some by (auto simp: check_delete_cond_def version_matches_def row_version_def)

text \<open>What a committed operation says about the store before it.\<close>

lemma put_version_ran:
  assumes "op_runs c m (OpPut key row (PutVersion v))"
  shows "\<exists>old. catalog_view c m key = Some old \<and> row_version_of old = Some v"
proof -
  obtain a where "eval_op c (\<lambda>key. Inr (fmlookup m (stored_key key))) (OpPut key row (PutVersion v)) = Inr a"
    using assms unfolding is_err_iff by blast
  then show ?thesis unfolding eval_put_Inr catalog_view_Some by (auto simp: check_put_cond_def version_matches_Inr)
qed

lemma delete_version_ran:
  assumes "op_runs c m (OpDelete key (DelVersion v))"
  shows "\<exists>old. catalog_view c m key = Some old \<and> row_version_of old = Some v"
proof -
  obtain a where "eval_op c (\<lambda>key. Inr (fmlookup m (stored_key key))) (OpDelete key (DelVersion v)) = Inr a"
    using assms unfolding is_err_iff by blast
  then show ?thesis unfolding eval_delete_Inr catalog_view_Some by (auto simp: check_delete_cond_def version_matches_Inr)
qed

context skippr_store
begin

lemma flushing_commit_ok:
  assumes "wal_env_ok sops env" "fence_ok (hd_store h) (we_fence env)" "\<forall>op\<in>set (ops txn). op_runs (we_codec env) (rows_of (hd_store h)) op"
    "txn_keys_ok txn" "catalog_wf (we_codec env) (rows_of (hd_store h))"
  shows "\<exists>s'. flushing_commit env txn h = (h\<lparr>hd_store := s'\<rparr>, Some (Inr ()))
     \<and> (\<forall>k. catalog_key_ok k \<longrightarrow> catalog_view (we_codec env) (rows_of s') k = view_after (catalog_view (we_codec env) (rows_of (hd_store h))) (ops txn) k)
     \<and> catalog_wf (we_codec env) (rows_of s') \<and> fence_ok s' = fence_ok (hd_store h) \<and> same_offsets (rows_of (hd_store h)) (rows_of s')"
proof -
  have env: "we_store env = sops" "codec_ok (we_codec env)" using assms(1) by (auto simp: wal_env_ok_def)
  obtain s' where c: "catalog_commit (we_codec env) sops (hd_store h) txn (we_fence env) = Inr s'"
    using catalog_commit_iff assms(2,3) by blast
  show ?thesis
    using flushing_commit_run[OF env(1), of txn h] c catalog_commit_view[OF c env(2) assms(4)] catalog_commit_wf[OF c env(2) assms(4,5)]
      catalog_commit_fence[OF c] catalog_commit_offsets[OF c] by auto
qed

end

section \<open>Committing a new segment\<close>

definition seq_follows :: "CatalogRow option \<Rightarrow> CatalogSeq \<Rightarrow> bool" where
  "seq_follows r q \<longleftrightarrow> (case r of
      None \<Rightarrow> seq_next seq_ZERO = Inr q
    | Some (RSeq old) \<Rightarrow> seq_next (max_seq old) = Inr q
    | _ \<Rightarrow> False)"

lemma seq_next_less: "seq_next p = Inr q \<Longrightarrow> seq_get p < seq_get q"
  by (auto simp: seq_next_def word_less_nat_alt split: option.splits dest!: checked_add_Some)

definition index_row :: "SegmentId \<Rightarrow> SegmentFileMetadata \<Rightarrow> CatalogRow" where
  "index_row i m = RIndex \<lparr>ix_segment_id = i, ix_version = 0, ix_entries = slice_dir_entries m\<rparr>"

text \<open>The catalog after the commit of a segment: its row, its slice index, and the new sequence number.\<close>

definition segment_committed ::
  "(CatalogKey \<Rightarrow> CatalogRow option) \<Rightarrow> SegmentId \<Rightarrow> SegmentRow \<Rightarrow> SegmentFileMetadata \<Rightarrow> CatalogKey \<Rightarrow> CatalogRow option"
where
  "segment_committed m i row meta k =
     (if k = KSegment i then Some (RSegment row)
      else if k = KIndex i \<and> slice_dir_entries meta \<noteq> [] then Some (index_row i meta)
      else if k = KSeq then Some (RSeq \<lparr>max_seq = sg_seq row\<rparr>)
      else m k)"

definition below_ceiling :: "'s handle \<Rightarrow> bool" where
  "below_ceiling h \<longleftrightarrow> sat_sub (seq_get (hd_max_committed h)) (seq_get (hd_max_published h)) < 32"

definition rows_fit :: "codec \<Rightarrow> CatalogRow list \<Rightarrow> bool" where
  "rows_fit c rows \<longleftrightarrow> list_all (\<lambda>r. \<not> is_err (row_encode c r)) rows"

context skippr_store
begin

lemma next_seq_run:
  assumes "we_store env = sops" "catalog_wf (we_codec env) (rows_of (hd_store h))" "seq_follows (catalog_view (we_codec env) (rows_of (hd_store h)) KSeq) q"
  shows "next_seq env h = (h, Some (Inr q))"
  using assms h_get_ok[OF assms(1,2), of KSeq]
  by (auto simp: next_seq_def seq_follows_def split: option.splits CatalogRow.splits)

lemma commit_new_segment_ok:
  assumes env: "wal_env_ok sops env" and f: "fence_ok (hd_store h) (we_fence env)"
    and wf: "catalog_wf (we_codec env) (rows_of (hd_store h))" and i: "valid_component (seg_as_str i)" "is_str (seg_as_str i)"
    and ceil: "below_ceiling h"
    and new: "catalog_view (we_codec env) (rows_of (hd_store h)) (KSegment i) = None" "catalog_view (we_codec env) (rows_of (hd_store h)) (KIndex i) = None"
    and q: "seq_follows (catalog_view (we_codec env) (rows_of (hd_store h)) KSeq) q"
    and row: "row = new_segment_row env i enc loc n offs cps q"
    and fit: "rows_fit (we_codec env) [RSegment row, index_row i (en_meta enc), RSeq \<lparr>max_seq = q\<rparr>]"
  shows "\<exists>s'. commit_new_segment env i enc loc n offs cps h = (h\<lparr>hd_store := s', hd_max_committed := q\<rparr>, Some (Inr q))
     \<and> (\<forall>k. catalog_key_ok k \<longrightarrow> catalog_view (we_codec env) (rows_of s') k
          = segment_committed (catalog_view (we_codec env) (rows_of (hd_store h))) i row (en_meta enc) k)
     \<and> catalog_wf (we_codec env) (rows_of s') \<and> fence_ok s' = fence_ok (hd_store h) \<and> same_offsets (rows_of (hd_store h)) (rows_of s')"
proof -
  let ?c = "we_codec env" and ?m = "rows_of (hd_store h)"
  let ?seg = "OpPut (KSegment i) (RSegment row) NotExists" and ?ix = "OpPut (KIndex i) (index_row i (en_meta enc)) NotExists"
    and ?sq = "OpPut KSeq (RSeq \<lparr>max_seq = q\<rparr>) SeqAdvance"
  let ?txn = "\<lparr>ops = ?seg # (if slice_dir_entries (en_meta enc) = [] then [?sq] else [?ix, ?sq])\<rparr>"
  have st: "we_store env = sops" using env by (simp add: wal_env_ok_def)
  have c: "check_ceiling h = (h, Some (Inr ()))"
    using ceil by (auto simp: check_ceiling_def below_ceiling_def UNPUBLISHED_COMMIT_CEILING_def)
  have p1: "put_row env txn_new (KSegment i) (RSegment row) NotExists h = (h, Some (Inr \<lparr>ops = [?seg]\<rparr>))"
    using fit by (subst put_row_ok) (auto simp: rows_fit_def txn_new_def TXN_MAX_OPS_def)
  have p2: "put_slice_index env \<lparr>ops = [?seg]\<rparr> i (en_meta enc) h
      = (h, Some (Inr \<lparr>ops = ?seg # (if slice_dir_entries (en_meta enc) = [] then [] else [?ix])\<rparr>))"
    using fit by (auto simp: put_slice_index_def Let_def rows_fit_def TXN_MAX_OPS_def put_row_ok index_row_def[symmetric])
  have p3: "put_row env \<lparr>ops = ?seg # (if slice_dir_entries (en_meta enc) = [] then [] else [?ix])\<rparr> KSeq (RSeq \<lparr>max_seq = q\<rparr>) SeqAdvance h
      = (h, Some (Inr ?txn))"
    using fit by (subst put_row_ok) (auto simp: rows_fit_def TXN_MAX_OPS_def)
  have "case catalog_view ?c ?m KSeq of None \<Rightarrow> True | Some (RSeq old) \<Rightarrow> seq_get (max_seq old) < seq_get q | _ \<Rightarrow> False"
    using q by (auto simp: seq_follows_def seq_next_less split: option.splits CatalogRow.splits)
  then have runs: "\<forall>op\<in>set (ops ?txn). op_runs ?c ?m op"
    using put_new_runs[OF wf new(1), of "RSegment row"] put_new_runs[OF wf new(2), of "index_row i (en_meta enc)"]
      put_seq_runs[OF wf, of q] fit by (auto simp: rows_fit_def index_row_def simp del: eval_op.simps)
  have keys: "txn_keys_ok ?txn" using i by (simp add: txn_keys_ok_def)
  obtain s' where s': "flushing_commit env ?txn h = (h\<lparr>hd_store := s'\<rparr>, Some (Inr ()))"
    "\<forall>k. catalog_key_ok k \<longrightarrow> catalog_view ?c (rows_of s') k = view_after (catalog_view ?c ?m) (ops ?txn) k"
    "catalog_wf ?c (rows_of s')" "fence_ok s' = fence_ok (hd_store h)" "same_offsets ?m (rows_of s')"
    using flushing_commit_ok[OF env f runs keys wf] by blast
  have "view_after (catalog_view ?c ?m) (ops ?txn) k = segment_committed (catalog_view ?c ?m) i row (en_meta enc) k" for k
    by (auto simp: view_after_def segment_committed_def row new_segment_row_def)
  moreover have "commit_new_segment env i enc loc n offs cps h = (h\<lparr>hd_store := s', hd_max_committed := q\<rparr>, Some (Inr q))"
    using c next_seq_run[OF st wf q] p1 p2 p3 s'(1) by (simp add: commit_new_segment_def row[symmetric] commit_with_seq_def)
  ultimately show ?thesis using s'(2-5) by auto
qed

end

section \<open>Persisting a segment\<close>

text \<open>The offsets of a commit: positions from the snapshot, file sizes as published before.\<close>

definition offsets_to_commit :: "kv_rows \<Rightarrow> (OffsetKey \<times> u64) list \<Rightarrow> CommittedOffset list" where
  "offsets_to_commit m offsets = sort_key (\<lambda>off. (off_namespace off, off_partition off)) (map (\<lambda>(key, position).
     \<lparr>off_namespace = ok_namespace key, off_partition = ok_partition key,
      off_filesize = stored_filesize (fmlookup m (family_key Offsets (as_bytes (offset_key (ok_namespace key) (ok_partition key))))),
      off_position = position, off_closed = 1\<rparr>) offsets)"

text \<open>What the publication of a commit needs: distinct sort keys, none in the reserved form, and no
  stored fence at or after the commit.\<close>

definition publishable :: "('s, 'b) wal_env \<Rightarrow> 's \<Rightarrow> CommittedOffset list \<Rightarrow> CommittedCheckpoint list \<Rightarrow> CatalogSeq \<Rightarrow> bool" where
  "publishable env s offs cps q \<longleftrightarrow> distinct (map fst (commit_items offs cps)) \<and> no_fence_sks (commit_items offs cps)
     \<and> (\<forall>(sk, bs)\<in>set (commit_items offs cps). fence_before (we_offsets env) s (fence_epoch env) (seq_get q) sk)"

definition published :: "('s, 'b) wal_env \<Rightarrow> 's \<Rightarrow> CommittedOffset list \<Rightarrow> CommittedCheckpoint list \<Rightarrow> CatalogSeq \<Rightarrow> bool" where
  "published env s offs cps q \<longleftrightarrow> (\<forall>(sk, bs)\<in>set (commit_items offs cps).
     publish_settled (we_offsets env) s sk (fence_epoch env) (seq_get q) (os_sha_hex (we_offsets env) bs) Fresh
     \<and> get_bytes (we_offsets env) s sk = Inr (Some bs))"

abbreviation payload_path :: "('s, 'b) wal_env \<Rightarrow> string \<Rightarrow> string" where
  "payload_path env sid \<equiv> path_join (segs (we_paths env)) (sid @ ''.seg'')"

text \<open>What a first persist needs: a valid identifier, room under the ceiling of unpublished commits, a
  writable payload file, no rows of that segment, a next sequence number, and rows that can be
  encoded within the row limit.\<close>

definition persist_ready :: "('s, 'b) wal_env \<Rightarrow> kv_rows \<Rightarrow> 's handle \<Rightarrow> string \<Rightarrow> EncodedSnapshot \<Rightarrow> SegmentRow \<Rightarrow> bool" where
  "persist_ready env m h sid enc row \<longleftrightarrow> valid_component sid \<and> is_str sid \<and> below_ceiling h
     \<and> we_write_error env (payload_path env sid) = None
     \<and> catalog_view (we_codec env) m (KSegment (SegmentId sid)) = None \<and> catalog_view (we_codec env) m (KIndex (SegmentId sid)) = None
     \<and> seq_follows (catalog_view (we_codec env) m KSeq) (sg_seq row)
     \<and> rows_fit (we_codec env) [RSegment row, index_row (SegmentId sid) (en_meta enc), RSeq \<lparr>max_seq = sg_seq row\<rparr>]"

context skippr_store
begin

lemma committed_offsets_run:
  assumes "wal_env_ok sops env"
  shows "committed_offsets_from env offsets h = (h, Some (Inr (offsets_to_commit (rows_of (hd_store h)) offsets)))"
proof -
  have oe: "os_store (we_offsets env) = sops" "os_sled_fallback (we_offsets env) = None" using assms by (auto simp: wal_env_ok_def)
  have g: "get_offset (we_offsets env) (hd_store h) ns part = Inr (fmlookup (rows_of (hd_store h)) (family_key Offsets (as_bytes (offset_key ns part))))" for ns part
    using oe by (simp add: get_offset_def get_bytes_def family_get_eq split: option.split)
  have "collect_offsets env offsets h = (h, Some (Inr (map (\<lambda>(key, position).
     \<lparr>off_namespace = ok_namespace key, off_partition = ok_partition key,
      off_filesize = stored_filesize (fmlookup (rows_of (hd_store h)) (family_key Offsets (as_bytes (offset_key (ok_namespace key) (ok_partition key))))),
      off_position = position, off_closed = 1\<rparr>) offsets)))"
    using g by (induction offsets rule: collect_offsets.induct[of _ env]) simp_all
  then show ?thesis by (simp add: committed_offsets_from_def offsets_to_commit_def)
qed

lemma fence_before_cong:
  assumes "wal_env_ok sops env" "same_offsets (rows_of s) (rows_of s')"
  shows "fence_before (we_offsets env) s' e q sk = fence_before (we_offsets env) s e q sk"
  using get_offset_cong[of "we_offsets env" s s'] assms by (simp add: fence_before_def stored_fence_def wal_env_ok_def)

lemma persist_new_run:
  assumes env: "wal_env_ok sops env" and f: "fence_ok (hd_store h) (we_fence env)"
    and wf: "catalog_wf (we_codec env) (rows_of (hd_store h))"
    and enc: "encode_snapshot (we_seg env) offsets batches partitions_meta blobs created_at = Inr enc"
    and offs: "offs = offsets_to_commit (rows_of (hd_store h)) offsets" and cps: "checkpoints_from env updates = Inr cps"
    and row: "row = new_segment_row env (SegmentId sid) enc (Disk (payload_path env sid)) (num_slices enc) offs cps q"
    and ready: "persist_ready env (rows_of (hd_store h)) h sid enc row" and pub: "publishable env (hd_store h) offs cps q"
  shows "\<exists>s'. persist_segment env sid offsets batches partitions_meta blobs updates created_at h
       = (h\<lparr>hd_store := s', hd_files := fmupd (payload_path env sid) (en_bytes enc) (hd_files h), hd_max_committed := q, hd_max_published := q\<rparr>,
          Some (Inr (write_result enc (Disk (payload_path env sid)))))
     \<and> (\<forall>k. catalog_key_ok k \<longrightarrow> catalog_view (we_codec env) (rows_of s') k
          = segment_committed (catalog_view (we_codec env) (rows_of (hd_store h))) (SegmentId sid) row (en_meta enc) k)
     \<and> catalog_wf (we_codec env) (rows_of s') \<and> fence_ok s' = fence_ok (hd_store h) \<and> published env s' offs cps q"
proof -
  let ?p = "payload_path env sid" and ?c = "we_codec env"
  have sid: "valid_component sid" "is_str sid" and ceil: "below_ceiling h" and w: "we_write_error env ?p = None"
    and new: "catalog_view ?c (rows_of (hd_store h)) (KSegment (SegmentId sid)) = None" "catalog_view ?c (rows_of (hd_store h)) (KIndex (SegmentId sid)) = None"
    and q: "seq_follows (catalog_view ?c (rows_of (hd_store h)) KSeq) q"
    and fit: "rows_fit ?c [RSegment row, index_row (SegmentId sid) (en_meta enc), RSeq \<lparr>max_seq = q\<rparr>]"
    using ready row by (simp_all add: persist_ready_def new_segment_row_def)
  let ?h1 = "h\<lparr>hd_files := fmupd ?p (en_bytes enc) (hd_files h)\<rparr>"
  have st: "we_store env = sops" using env by (simp add: wal_env_ok_def)
  obtain s1 where s1: "commit_new_segment env (SegmentId sid) enc (Disk ?p) (num_slices enc) offs cps ?h1 = (?h1\<lparr>hd_store := s1, hd_max_committed := q\<rparr>, Some (Inr q))"
    "\<forall>k. catalog_key_ok k \<longrightarrow> catalog_view ?c (rows_of s1) k = segment_committed (catalog_view ?c (rows_of (hd_store h))) (SegmentId sid) row (en_meta enc) k"
    "catalog_wf ?c (rows_of s1)" "fence_ok s1 = fence_ok (hd_store h)" "same_offsets (rows_of (hd_store h)) (rows_of s1)"
    using commit_new_segment_ok[OF env, of ?h1 "SegmentId sid" q row enc "Disk ?p" "num_slices enc" offs cps] f wf sid ceil new q row fit
    by (auto simp: below_ceiling_def)
  let ?h2 = "?h1\<lparr>hd_store := s1, hd_max_committed := q\<rparr>"
  have fb: "\<forall>(sk, bs)\<in>set (commit_items offs cps). fence_before (we_offsets env) (hd_store ?h2) (fence_epoch env) (seq_get q) sk"
    using pub fence_before_cong[OF env s1(5)] by (simp add: publishable_def)
  obtain s' where s': "publish_seq env q offs cps ?h2 = (?h2\<lparr>hd_store := s', hd_max_published := q\<rparr>, Some (Inr ()))"
    "catalog_view ?c (rows_of s') = catalog_view ?c (rows_of s1)" "catalog_wf ?c (rows_of s')" "fence_ok s' = fence_ok s1" "published env s' offs cps q"
    using publish_seq_fresh[OF env, of ?h2 offs cps q ?c] f fb pub s1(3,4) by (auto simp: publishable_def published_def)
  have "persist_segment env sid offsets batches partitions_meta blobs updates created_at h
      = (?h2\<lparr>hd_store := s', hd_max_published := q\<rparr>, Some (Inr (write_result enc (Disk ?p))))"
    using sid enc cps new(1) w s1(1) s'(1) committed_offsets_run[OF env, of offsets h] h_get_ok[OF st wf, of "KSegment (SegmentId sid)"]
    by (simp add: persist_segment_def segment_id_new_def encode_op_def offs segment_row_def Let_def write_payload_def)
  then show ?thesis using s1(2,4) s'(2-5) by (intro exI[of _ s']) simp
qed

lemma persist_again_run:
  assumes env: "wal_env_ok sops env" and f: "fence_ok (hd_store h) (we_fence env)"
    and wf: "catalog_wf (we_codec env) (rows_of (hd_store h))" and sid: "valid_component sid"
    and enc: "encode_snapshot (we_seg env) offsets batches partitions_meta blobs created_at = Inr enc"
    and cps: "checkpoints_from env updates = Inr cps"
    and row: "catalog_view (we_codec env) (rows_of (hd_store h)) (KSegment (SegmentId sid)) = Some (RSegment row)"
  shows "persist_segment env sid offsets batches partitions_meta blobs updates created_at h =
     (if sg_payload_sha256 row \<noteq> en_sha256 enc then (h, Some (Inl (ProtocolMismatch ''segment_id reuse with different payload sha'')))
      else andthen (publish_seq env (sg_seq row) (offsets_to_commit (rows_of (hd_store h)) offsets) cps)
             (\<lambda>_. ret (write_result enc (sg_location row))) h)"
  using sid enc cps row committed_offsets_run[OF env, of offsets h] h_get_ok[of env h "KSegment (SegmentId sid)"] env wf
  by (simp add: persist_segment_def segment_id_new_def encode_op_def segment_row_def wal_env_ok_def)

lemma publish_seq_again:
  assumes env: "wal_env_ok sops env" and f: "fence_ok (hd_store h) (we_fence env)" and p: "published env (hd_store h) offs cps q"
  shows "publish_seq env q offs cps h = (h\<lparr>hd_max_published := q\<rparr>, Some (Inr ()))"
proof -
  have "publish_items (we_offsets env) (commit_items offs cps) (fence_epoch env) (seq_get q) Fresh (hd_store h) = (hd_store h, Inr ())"
    using p by (intro publish_items_replay) (auto simp: published_def)
  then show ?thesis by (rule_tac publish_seq_run[OF env f, of offs cps q]) simp
qed

lemma offsets_stable:
  assumes env: "wal_env_ok sops env" and offs: "offs = offsets_to_commit (rows_of s) offsets" and p: "published env s' offs cps q"
  shows "offsets_to_commit (rows_of s') offsets = offs"
proof -
  have "stored_filesize (fmlookup (rows_of s') (family_key Offsets (as_bytes (offset_key (ok_namespace key) (ok_partition key)))))
      = stored_filesize (fmlookup (rows_of s) (family_key Offsets (as_bytes (offset_key (ok_namespace key) (ok_partition key)))))"
    if "(key, position) \<in> set offsets" for key position
  proof -
    let ?kb = "family_key Offsets (as_bytes (offset_key (ok_namespace key) (ok_partition key)))"
    let ?off = "\<lparr>off_namespace = ok_namespace key, off_partition = ok_partition key, off_filesize = stored_filesize (fmlookup (rows_of s) ?kb),
      off_position = position, off_closed = 1\<rparr>"
    have "?off \<in> set offs" using that by (force simp: offs offsets_to_commit_def)
    then have "(offset_key (ok_namespace key) (ok_partition key), offset_bytes ?off) \<in> set (commit_items offs cps)"
      by (force simp: commit_items_def)
    then have "get_bytes (we_offsets env) s' (offset_key (ok_namespace key) (ok_partition key)) = Inr (Some (offset_bytes ?off))"
      using p by (auto simp: published_def)
    then have "fmlookup (rows_of s') ?kb = Some (offset_bytes ?off)"
      using env by (auto simp: get_bytes_def family_get_eq wal_env_ok_def split: option.splits)
    then show ?thesis by (simp add: stored_filesize_def offset_bytes_def)
  qed
  then show ?thesis unfolding offs offsets_to_commit_def by (intro arg_cong[where f = "sort_key _"] map_cong) auto
qed

end

section \<open>Reading a persisted segment\<close>

text \<open>An index entry without the two fields the catalog does not keep.\<close>

definition index_core :: "SegmentPartitionIndexEntry \<Rightarrow> SegmentPartitionIndexEntry" where
  "index_core e = e\<lparr>ie_bytes := 0, ie_updated_at_secs := 0\<rparr>"

lemma index_entry_roundtrip: "index_core (index_entry_of_dir (slice_dir_entry e)) = index_core e"
  by (cases "ie_part_meta_summary e") (simp_all add: index_core_def index_entry_of_dir_def slice_dir_entry_def)

lemma index_roundtrip:
  "ix_entries index = slice_dir_entries m \<Longrightarrow> map index_core (sm_index (meta_from_index_row row index)) = map index_core (sm_index m)"
  by (simp add: meta_from_index_row_def slice_dir_entries_def index_entry_roundtrip)

lemma table_find: "List.find P xs = Some x \<Longrightarrow> x \<in> set xs \<and> P x"
  by (auto simp: find_Some_iff)

context skippr_store
begin

lemma committed_segment_reads:
  assumes env: "wal_env_ok sops env" and wf: "catalog_wf (we_codec env) (rows_of (hd_store h))" and sid: "valid_component sid"
    and v: "\<forall>k. catalog_key_ok k \<longrightarrow> catalog_view (we_codec env) (rows_of (hd_store h)) k = segment_committed m0 (SegmentId sid) row meta k"
    and ix: "m0 (KIndex (SegmentId sid)) = None"
    and row: "sg_segment_id row = SegmentId sid" "sg_location row = Disk path" "sg_payload_len row = sm_total_bytes meta"
    and fl: "fmlookup (hd_files h) path = Some bs" "read_metadata_from_bytes (we_seg env) bs = Inr meta"
      "admit_payload (we_seg env) (sg_payload_sha256 row) bs = Inr meta"
  shows "\<not> payload_unreadable env sid h
     \<and> (\<exists>meta'. load_or_build_index_meta env row h = (h, Some (Inr meta')) \<and> map index_core (sm_index meta') = map index_core (sm_index meta)
          \<and> sm_total_bytes meta' = sm_total_bytes meta)"
proof
  have st: "we_store env = sops" using env by (simp add: wal_env_ok_def)
  have seg: "catalog_view (we_codec env) (rows_of (hd_store h)) (KSegment (SegmentId sid)) = Some (RSegment row)"
    using v sid by (simp add: segment_committed_def)
  have rd: "read_location env (Disk path) h = (h, Some (Inr bs))" by (simp add: read_location_def fl(1))
  show "\<not> payload_unreadable env sid h"
    using sid seg catalog_get_wf[OF wf, of "KSegment (SegmentId sid)"] st row fl rd
    by (simp add: payload_unreadable_def segment_id_new_def admit_location_def)
  have kix: "catalog_view (we_codec env) (rows_of (hd_store h)) (KIndex (SegmentId sid))
      = (if slice_dir_entries meta \<noteq> [] then Some (index_row (SegmentId sid) meta) else None)"
    using v sid ix by (simp add: segment_committed_def)
  note g = h_get_ok[OF st wf, of "KIndex (SegmentId sid)", unfolded kix]
  show "\<exists>meta'. load_or_build_index_meta env row h = (h, Some (Inr meta')) \<and> map index_core (sm_index meta') = map index_core (sm_index meta)
          \<and> sm_total_bytes meta' = sm_total_bytes meta"
  proof (cases "slice_dir_entries meta = []")
    case True
    have "put_slice_index env txn_new (SegmentId sid) meta h = (h, Some (Inr txn_new))" using True by (simp add: put_slice_index_def)
    then have "persist_missing_index env (SegmentId sid) meta h = (h, Some (Inr ()))"
      using g True by (simp add: persist_missing_index_def txn_new_def)
    then have "load_or_build_index_meta env row h = (h, Some (Inr meta))"
      using g True row rd fl by (simp add: load_or_build_index_meta_def Let_def read_index_location_def)
    then show ?thesis by simp
  next
    case False
    let ?ix = "\<lparr>ix_segment_id = SegmentId sid, ix_version = 0, ix_entries = slice_dir_entries meta\<rparr>"
    have "load_or_build_index_meta env row h = (h, Some (Inr (meta_from_index_row row ?ix)))"
      using g False row by (simp add: load_or_build_index_meta_def Let_def index_row_def)
    moreover have "sm_total_bytes (meta_from_index_row row ?ix) = sm_total_bytes meta" by (simp add: meta_from_index_row_def row)
    ultimately show ?thesis using index_roundtrip[of ?ix meta row] by simp
  qed
qed

lemma deposed_commit_inert:
  assumes "we_store env = sops" "\<not> fence_ok (hd_store h) (we_fence env)"
  shows "\<exists>e. flushing_commit env txn h = (h, Some (Inl e))"
  using fenced_commit[OF assms(2), of "we_codec env" txn] by (auto simp: flushing_commit_run[OF assms(1)])

end

section \<open>A concrete handle\<close>

text \<open>A codec for a fixed list of rows, and an environment over the memory store with one checkpoint format.\<close>

definition table_codec :: "CatalogRow list \<Rightarrow> codec" where
  "table_codec rows = \<lparr>
     ser = (\<lambda>row. case List.find (\<lambda>i. rows ! i = row) [0..<length rows] of Some i \<Rightarrow> Inr [word_of_nat i] | None \<Rightarrow> Inl ''unsupported''),
     deser = (\<lambda>bs. case bs of [b] \<Rightarrow> if unat b < length rows then Inr (rows ! unat b) else Inl ''unsupported'' | _ \<Rightarrow> Inl ''unsupported''),
     sha256 = (\<lambda>bs. bs)\<rparr>"

lemma table_codec_ok: "length rows \<le> 256 \<Longrightarrow> codec_ok (table_codec rows)"
  by (auto simp: codec_ok_def table_codec_def unat_of_nat split: option.splits dest!: table_find)

lemma table_encodes: "row \<in> set rows \<Longrightarrow> \<not> is_err (row_encode (table_codec rows) row)"
proof -
  assume "row \<in> set rows"
  then obtain i where "i < length rows" "rows ! i = row" by (auto simp: in_set_conv_nth)
  then have "List.find (\<lambda>i. rows ! i = row) [0..<length rows] \<noteq> None" by (auto simp: find_None_iff)
  then show ?thesis by (auto simp: row_encode_def table_codec_def ROW_MAX_BYTES_def)
qed

definition sample_wal :: "codec \<Rightarrow> (memory_store, unit) wal_env" where
  "sample_wal c = \<lparr>we_codec = c, we_store = memory_ops, we_fence = fence_local, we_offsets = Offset_Store.sample_env,
     we_paths = legacy_disk ''/data'', we_seg = Segment_File.sample_env, we_min_unconsumed_seq = 0, we_open_error = (\<lambda>p. ''missing''),
     we_get_object = (\<lambda>_ _. Inl ''missing''), we_write_error = (\<lambda>_. None), we_remove_ok = (\<lambda>_. True), we_decode_txn = (\<lambda>_. Inl ''none''),
     we_encode_checkpoint = (\<lambda>e. Inr (payload_bytes e)), we_hash_order = (\<lambda>g. g), we_others = (\<lambda>_ s. s)\<rparr>"

lemma sample_wal_ok: "codec_ok c \<Longrightarrow> wal_env_ok memory_ops (sample_wal c)"
  using sample_sha_str by (simp add: wal_env_ok_def sample_wal_def)

section \<open>Properties\<close>

text \<open>C9. The first persist of a segment with a valid fence succeeds and is complete: the payload file
  holds the encoded bytes, the catalog gains exactly the segment's row with the next sequence
  number, its slice index and the new sequence number, every offset and checkpoint of the snapshot
  is published under that sequence number, and the committed and published positions of the
  handle meet.\<close>

theorem persist_new_segment:
  assumes "wal_env_ok memory_ops env" "memory_fence_ok (hd_store h) (we_fence env)" "catalog_wf (we_codec env) (mem_rows (hd_store h))"
    "encode_snapshot (we_seg env) offsets batches partitions_meta blobs created_at = Inr enc"
    "offs = offsets_to_commit (mem_rows (hd_store h)) offsets" "checkpoints_from env updates = Inr cps"
    "row = new_segment_row env (SegmentId sid) enc (Disk (payload_path env sid)) (num_slices enc) offs cps q"
    "persist_ready env (mem_rows (hd_store h)) h sid enc row" "publishable env (hd_store h) offs cps q"
  shows "\<exists>h'. persist_segment env sid offsets batches partitions_meta blobs updates created_at h
       = (h', Some (Inr (write_result enc (Disk (payload_path env sid)))))
     \<and> hd_files h' = fmupd (payload_path env sid) (en_bytes enc) (hd_files h)
     \<and> (\<forall>k. catalog_key_ok k \<longrightarrow> catalog_view (we_codec env) (mem_rows (hd_store h')) k
          = segment_committed (catalog_view (we_codec env) (mem_rows (hd_store h))) (SegmentId sid) row (en_meta enc) k)
     \<and> published env (hd_store h') offs cps q
     \<and> hd_max_committed h' = q \<and> hd_max_published h' = q"
  using mem.persist_new_run[OF assms] by auto

abbreviation sample_batches :: "(PartitionKey \<times> unit WalPayload) list" where
  "sample_batches \<equiv> [(sample_key, ArrowPayload [()])]"

abbreviation sample_updates :: "(string \<times> CheckpointEnvelope) list" where
  "sample_updates \<equiv> [(''src'', \<lparr>authority = WalOwnership, cp_kind = SourceResume, payload_version = 1, payload_bytes = [5]\<rparr>)]"

abbreviation sample_cps :: "CommittedCheckpoint list" where
  "sample_cps \<equiv> [\<lparr>ckp_logical_key = ''src'', ckp_envelope = [5]\<rparr>]"

definition sample_rows :: "EncodedSnapshot \<Rightarrow> CatalogRow list" where
  "sample_rows enc = [RSegment (new_segment_row (sample_wal sample_codec) (SegmentId ''seg-1'') enc (Disk (payload_path (sample_wal sample_codec) ''seg-1''))
       (num_slices enc) [] sample_cps (CatalogSeq 1)), index_row (SegmentId ''seg-1'') (en_meta enc), RSeq \<lparr>max_seq = CatalogSeq 1\<rparr>]"

abbreviation fresh_handle :: "memory_store handle" where
  "fresh_handle \<equiv> handle_new (memory_open fence_local) fmempty"

lemma sample_persist_ready:
  fixes enc :: EncodedSnapshot
  defines "env \<equiv> sample_wal (table_codec (sample_rows enc))"
  defines "row \<equiv> new_segment_row env (SegmentId ''seg-1'') enc (Disk (payload_path env ''seg-1'')) (num_slices enc) [] sample_cps (CatalogSeq 1)"
  shows "wal_env_ok memory_ops env" "memory_fence_ok (hd_store fresh_handle) (we_fence env)"
    "catalog_wf (we_codec env) (mem_rows (hd_store fresh_handle))"
    "offsets_to_commit (mem_rows (hd_store fresh_handle)) [] = []" "checkpoints_from env sample_updates = Inr sample_cps"
    "persist_ready env (mem_rows (hd_store fresh_handle)) fresh_handle ''seg-1'' enc row"
    "publishable env (hd_store fresh_handle) [] sample_cps (CatalogSeq 1)"
proof -
  have h: "hd_store fresh_handle = memory_open fence_local" by (simp add: handle_new_def)
  have "codec_ok (table_codec (sample_rows enc))" by (rule table_codec_ok) (simp add: sample_rows_def)
  then show "wal_env_ok memory_ops env" unfolding env_def by (rule sample_wal_ok)
  show "memory_fence_ok (hd_store fresh_handle) (we_fence env)" by (simp add: h env_def sample_wal_def memory_open_props)
  show "catalog_wf (we_codec env) (mem_rows (hd_store fresh_handle))" by (simp add: h memory_open_props)
  show "offsets_to_commit (mem_rows (hd_store fresh_handle)) [] = []" by (simp add: offsets_to_commit_def)
  show "checkpoints_from env sample_updates = Inr sample_cps" by (simp add: checkpoints_from_def env_def sample_wal_def)
  have "row = new_segment_row (sample_wal sample_codec) (SegmentId ''seg-1'') enc (Disk (payload_path (sample_wal sample_codec) ''seg-1''))
       (num_slices enc) [] sample_cps (CatalogSeq 1)" by (simp add: row_def env_def new_segment_row_def sample_wal_def)
  then have "rows_fit (we_codec env) [RSegment row, index_row (SegmentId ''seg-1'') (en_meta enc), RSeq \<lparr>max_seq = CatalogSeq 1\<rparr>]"
    using table_encodes[of _ "sample_rows enc"] by (simp add: rows_fit_def env_def sample_wal_def sample_rows_def)
  then show "persist_ready env (mem_rows (hd_store fresh_handle)) fresh_handle ''seg-1'' enc row"
    by (simp add: persist_ready_def h memory_open_props below_ceiling_def handle_new_def sat_sub_def seq_follows_def
        catalog_view_def env_def sample_wal_def row_def new_segment_row_def seq_next_def seq_ZERO_def checked_add_def
        valid_component_iff reserved_chars_def is_str_ascii ascii_def)
  show "publishable env (hd_store fresh_handle) [] sample_cps (CatalogSeq 1)"
    by (simp add: publishable_def commit_items_def no_fence_sks_def checkpoint_key_def fence_before_def stored_fence_def h
        env_def sample_wal_def mem.family_get_eq memory_open_props)
qed

theorem persist_new_segment_witness:
  "\<exists>(env :: (memory_store, unit) wal_env) enc h'. persist_segment env ''seg-1'' [] sample_batches [] [] sample_updates 0 fresh_handle
       = (h', Some (Inr (write_result enc (Disk (payload_path env ''seg-1'')))))
     \<and> hd_files h' = fmupd (payload_path env ''seg-1'') (en_bytes enc) (hd_files fresh_handle)
     \<and> catalog_view (we_codec env) (mem_rows (hd_store h')) KSeq = Some (RSeq \<lparr>max_seq = CatalogSeq 1\<rparr>)
     \<and> published env (hd_store h') [] sample_cps (CatalogSeq 1)"
proof -
  obtain enc where e: "encode_snapshot Segment_File.sample_env [] sample_batches [] [] 0 = Inr enc" using sample_encodes by blast
  let ?env = "sample_wal (table_codec (sample_rows enc))"
  have e': "encode_snapshot (we_seg ?env) [] sample_batches [] [] 0 = Inr enc" using e by (simp add: sample_wal_def)
  note r = sample_persist_ready(1-3,5-7)[of enc]
  show ?thesis
    using persist_new_segment[OF r(1-3) e' sample_persist_ready(4)[symmetric] r(4) refl r(5,6)]
    by (intro exI[of _ ?env] exI[of _ enc]) (auto simp: segment_committed_def new_segment_row_def)
qed

text \<open>C18. Persisting is idempotent, so a caller that lost the answer may repeat it: after a successful
  first persist, the same call succeeds again with the same answer and leaves store, files and
  positions as they are. A call that reuses the identifier for other bytes is refused and changes
  nothing.\<close>

theorem persist_again:
  assumes "wal_env_ok memory_ops env" "memory_fence_ok (hd_store h) (we_fence env)" "catalog_wf (we_codec env) (mem_rows (hd_store h))"
    "encode_snapshot (we_seg env) offsets batches partitions_meta blobs created_at = Inr enc"
    "offs = offsets_to_commit (mem_rows (hd_store h)) offsets" "checkpoints_from env updates = Inr cps"
    "row = new_segment_row env (SegmentId sid) enc (Disk (payload_path env sid)) (num_slices enc) offs cps q"
    "persist_ready env (mem_rows (hd_store h)) h sid enc row" "publishable env (hd_store h) offs cps q"
    "persist_segment env sid offsets batches partitions_meta blobs updates created_at h = (h', r)"
  shows "persist_segment env sid offsets batches partitions_meta blobs updates created_at h' = (h', r)
    \<and> (\<forall>offsets2 batches2 partitions_meta2 blobs2 created_at2 enc2.
         encode_snapshot (we_seg env) offsets2 batches2 partitions_meta2 blobs2 created_at2 = Inr enc2 \<and> en_sha256 enc2 \<noteq> en_sha256 enc \<longrightarrow>
         persist_segment env sid offsets2 batches2 partitions_meta2 blobs2 updates created_at2 h'
           = (h', Some (Inl (ProtocolMismatch ''segment_id reuse with different payload sha''))))"
proof -
  obtain s' where s': "h' = h\<lparr>hd_store := s', hd_files := fmupd (payload_path env sid) (en_bytes enc) (hd_files h), hd_max_committed := q, hd_max_published := q\<rparr>"
    "r = Some (Inr (write_result enc (Disk (payload_path env sid))))"
    "\<forall>k. catalog_key_ok k \<longrightarrow> catalog_view (we_codec env) (mem_rows s') k = segment_committed (catalog_view (we_codec env) (mem_rows (hd_store h))) (SegmentId sid) row (en_meta enc) k"
    "catalog_wf (we_codec env) (mem_rows s')" "memory_fence_ok s' = memory_fence_ok (hd_store h)" "published env s' offs cps q"
    using mem.persist_new_run[OF assms(1-9)] assms(10) by auto
  have sid: "valid_component sid" using assms(8) by (simp add: persist_ready_def)
  have row: "catalog_view (we_codec env) (mem_rows (hd_store h')) (KSegment (SegmentId sid)) = Some (RSegment row)"
    using s' sid by (simp add: segment_committed_def)
  have f: "memory_fence_ok (hd_store h') (we_fence env)" and wf: "catalog_wf (we_codec env) (mem_rows (hd_store h'))" using s' assms(2) by simp_all
  have pub: "publish_seq env q offs cps h' = (h', Some (Inr ()))"
    using mem.publish_seq_again[OF assms(1) f, of offs cps q] s' by simp
  have offs: "offsets_to_commit (mem_rows (hd_store h')) offsets = offs" using mem.offsets_stable[OF assms(1,5)] s' by simp
  have rowf: "sg_payload_sha256 row = en_sha256 enc" "sg_seq row = q" "sg_location row = Disk (payload_path env sid)"
    by (simp_all add: assms(7) new_segment_row_def)
  show ?thesis
    using mem.persist_again_run[OF assms(1) f wf sid assms(4,6) row] mem.persist_again_run[OF assms(1) f wf sid _ assms(6) row] rowf offs pub s'(2)
    by simp
qed

theorem persist_again_witness:
  "\<exists>(env :: (memory_store, unit) wal_env) h' r. persist_segment env ''seg-1'' [] sample_batches [] [] sample_updates 0 fresh_handle = (h', Some (Inr r))
     \<and> persist_segment env ''seg-1'' [] sample_batches [] [] sample_updates 0 h' = (h', Some (Inr r))"
proof -
  obtain enc where e: "encode_snapshot Segment_File.sample_env [] sample_batches [] [] 0 = Inr enc" using sample_encodes by blast
  let ?env = "sample_wal (table_codec (sample_rows enc))"
  have e': "encode_snapshot (we_seg ?env) [] sample_batches [] [] 0 = Inr enc" using e by (simp add: sample_wal_def)
  note r = sample_persist_ready(1-3,5-7)[of enc]
  obtain h' where h': "persist_segment ?env ''seg-1'' [] sample_batches [] [] sample_updates 0 fresh_handle
      = (h', Some (Inr (write_result enc (Disk (payload_path ?env ''seg-1'')))))"
    using mem.persist_new_run[OF r(1-3) e' sample_persist_ready(4)[symmetric] r(4) refl r(5,6)] by auto
  then show ?thesis
    using persist_again[OF r(1-3) e' sample_persist_ready(4)[symmetric] r(4) refl r(5,6) h']
    by (intro exI[of _ ?env] exI[of _ h']) auto
qed

text \<open>C19. A persisted segment can be read back: with the codecs of the segment format, its payload is
  admitted under the digest in its row, and the index that planning uses, whether taken from the
  catalog or rebuilt from the file, has the entries the encoder wrote with the same keys, ordinals,
  ranges, codecs and metadata summaries.\<close>

theorem persisted_segment_reads_back:
  assumes "wal_env_ok memory_ops env" "memory_fence_ok (hd_store h) (we_fence env)" "catalog_wf (we_codec env) (mem_rows (hd_store h))"
    "encode_snapshot (we_seg env) offsets batches partitions_meta blobs created_at = Inr enc"
    "offs = offsets_to_commit (mem_rows (hd_store h)) offsets" "checkpoints_from env updates = Inr cps"
    "row = new_segment_row env (SegmentId sid) enc (Disk (payload_path env sid)) (num_slices enc) offs cps q"
    "persist_ready env (mem_rows (hd_store h)) h sid enc row" "publishable env (hd_store h) offs cps q"
    "persist_segment env sid offsets batches partitions_meta blobs updates created_at h = (h', r)"
    "seg_env_ok (we_seg env)" "distinct (map fst offsets)" "\<And>k. length (meta_blob_of blobs k) < 2 ^ 64"
    "length (en_bytes enc) < 2 ^ 64" "length batches < 2 ^ 32"
  shows "\<not> payload_unreadable env sid h'
    \<and> (\<exists>meta. load_or_build_index_meta env row h' = (h', Some (Inr meta)) \<and> map index_core (sm_index meta) = map index_core (sm_index (en_meta enc))
         \<and> sm_total_bytes meta = sm_total_bytes (en_meta enc))"
proof -
  obtain s' where s': "h' = h\<lparr>hd_store := s', hd_files := fmupd (payload_path env sid) (en_bytes enc) (hd_files h), hd_max_committed := q, hd_max_published := q\<rparr>"
    "\<forall>k. catalog_key_ok k \<longrightarrow> catalog_view (we_codec env) (mem_rows s') k = segment_committed (catalog_view (we_codec env) (mem_rows (hd_store h))) (SegmentId sid) row (en_meta enc) k"
    "catalog_wf (we_codec env) (mem_rows s')"
    using mem.persist_new_run[OF assms(1-9)] assms(10) by auto
  have adm: "read_metadata_from_bytes (we_seg env) (en_bytes enc) = Inr (en_meta enc)"
    "admit_payload (we_seg env) (en_sha256 enc) (en_bytes enc) = Inr (en_meta enc)"
    using encode_snapshot_spec[OF assms(11-13,4,14,15)] by (simp_all add: admit_payload_def)
  have ready: "valid_component sid" "catalog_view (we_codec env) (mem_rows (hd_store h)) (KIndex (SegmentId sid)) = None"
    using assms(8) by (simp_all add: persist_ready_def)
  show ?thesis
    by (rule mem.committed_segment_reads[OF assms(1) _ ready(1), where path = "payload_path env sid" and bs = "en_bytes enc"
        and ?m0.0 = "catalog_view (we_codec env) (mem_rows (hd_store h))"])
      (use s' adm ready(2) in \<open>simp_all add: assms(7) new_segment_row_def\<close>)
qed

theorem persisted_segment_reads_back_witness:
  "\<exists>(env :: (memory_store, unit) wal_env) h' r. persist_segment env ''seg-1'' [] sample_batches [] [] sample_updates 0 fresh_handle = (h', Some (Inr r))
     \<and> \<not> payload_unreadable env ''seg-1'' h'"
proof -
  obtain enc where e: "encode_snapshot Segment_File.sample_env [] sample_batches [] [] 0 = Inr enc" "length (en_bytes enc) < 2 ^ 64"
    using sample_encodes by blast
  let ?env = "sample_wal (table_codec (sample_rows enc))"
  have e': "encode_snapshot (we_seg ?env) [] sample_batches [] [] 0 = Inr enc" "seg_env_ok (we_seg ?env)"
    using e sample_env_ok by (simp_all add: sample_wal_def)
  note r = sample_persist_ready(1-3,5-7)[of enc]
  obtain h' where h': "persist_segment ?env ''seg-1'' [] sample_batches [] [] sample_updates 0 fresh_handle
      = (h', Some (Inr (write_result enc (Disk (payload_path ?env ''seg-1'')))))"
    using mem.persist_new_run[OF r(1-3) e'(1) sample_persist_ready(4)[symmetric] r(4) refl r(5,6)] by auto
  then show ?thesis
    using persisted_segment_reads_back[OF r(1-3) e'(1) sample_persist_ready(4)[symmetric] r(4) refl r(5,6) h' e'(2) _ _ e(2)]
    by (intro exI[of _ ?env] exI[of _ h']) (auto simp: meta_blob_of_def)
qed

end
