(* ===== verification/Wal_Reclaim.thy ===== *)
theory Wal_Reclaim
  imports Wal_Durability
begin

text \<open>
  Recording finished slices and reclaiming finished segments (\<^verbatim>\<open>src/src/buffer/wal_handle.rs\<close>), with other
  writers active between the read of a segment's row and the conditional commit that follows; and
  when the loop of \<open>publish_seq\<close> ends.
\<close>

section \<open>The publication loop\<close>

primrec attempt_store :: "('s, 'b) wal_env \<Rightarrow> CatalogSeq \<Rightarrow> CommittedOffset list \<Rightarrow> CommittedCheckpoint list \<Rightarrow> 's \<Rightarrow> nat \<Rightarrow> 's" where
  "attempt_store env q offs cps s 0 = s"
| "attempt_store env q offs cps s (Suc k) = we_others env k
     (fst (publish_committed (we_offsets env) (attempt_store env q offs cps s k) offs cps (fence_epoch env) (seq_get q) Fresh))"

lemma publish_seq_from_returns:
  assumes "\<forall>e. snd (publish_committed (we_offsets env) (attempt_store env q offs cps s (j + n)) offs cps (fence_epoch env) (seq_get q) Fresh) \<noteq> Inl (Transient e)"
  shows "publish_seq_from env q offs cps j (h\<lparr>hd_store := attempt_store env q offs cps s j\<rparr>) \<noteq> None"
  using assms
proof (induction n arbitrary: j)
  case 0
  obtain s' r where "publish_committed (we_offsets env) (attempt_store env q offs cps s j) offs cps (fence_epoch env) (seq_get q) Fresh = (s', r)" by fastforce
  then show ?case using 0 by (subst publish_seq_from.simps) (auto split: sum.splits OffsetPublishError.splits)
next
  case (Suc n)
  obtain s' r where p: "publish_committed (we_offsets env) (attempt_store env q offs cps s j) offs cps (fence_epoch env) (seq_get q) Fresh = (s', r)" by fastforce
  have "publish_seq_from env q offs cps (Suc j) (h\<lparr>hd_store := attempt_store env q offs cps s (Suc j)\<rparr>) \<noteq> None"
    using Suc.IH[of "Suc j"] Suc.prems by simp
  then show ?case using p by (subst publish_seq_from.simps) (auto split: sum.splits OffsetPublishError.splits)
qed

lemma publish_seq_returns_at:
  assumes "\<forall>e. snd (publish_committed (we_offsets env) (attempt_store env q offs cps (hd_store h) k) offs cps (fence_epoch env) (seq_get q) Fresh) \<noteq> Inl (Transient e)"
  shows "\<exists>h' r. publish_seq env q offs cps h = (h', Some r)"
  using publish_seq_from_returns[of env q offs cps "hd_store h" 0 k h] assms by (auto simp: publish_seq_def)

text \<open>A publication whose first sort key carries a newer fence is refused at once.\<close>

definition superseded :: "('s, 'b) wal_env \<Rightarrow> 's \<Rightarrow> CommittedOffset list \<Rightarrow> CommittedCheckpoint list \<Rightarrow> CatalogSeq \<Rightarrow> bool" where
  "superseded env s offs cps q \<longleftrightarrow> (case commit_items offs cps of
      [] \<Rightarrow> True
    | (sk, bs) # its \<Rightarrow> (case stored_fence (we_offsets env) s sk of
          Some (e', q', h') \<Rightarrow> (fence_epoch env, seq_get q) < (e', q')
        | None \<Rightarrow> False))"

lemma superseded_not_transient:
  assumes "superseded env s offs cps q"
  shows "snd (publish_committed (we_offsets env) s offs cps (fence_epoch env) (seq_get q) Fresh) \<noteq> Inl (Transient e)"
proof (cases "commit_items offs cps")
  case (Cons it its)
  then obtain sk bs e' q' h' where it: "it = (sk, bs)" "stored_fence (we_offsets env) s sk = Some (e', q', h')" "(fence_epoch env, seq_get q) < (e', q')"
    using assms by (cases it) (auto simp: superseded_def split: option.splits)
  then obtain v where v: "family_get (we_offsets env) s Offsets (as_bytes (fence_key sk)) = Inr v" "Option.bind v decode_fence = Some (e', q', h')"
    by (auto simp: stored_fence_def split: sum.splits)
  have "decide_wal_publish (Some (e', q', h')) (fence_epoch env) (seq_get q) (os_sha_hex (we_offsets env) bs) Fresh = Inl FenceRegression"
    using it(3) by (auto simp: decide_wal_publish_def)
  then show ?thesis using Cons it(1) v by (simp add: publish_committed_items publish_wal_commit_def)
qed (simp add: publish_committed_items)

context skippr_store
begin

lemma valid_fence_not_transient:
  assumes "wal_env_ok sops env" "fence_ok s (we_fence env)"
  shows "snd (publish_committed (we_offsets env) s offs cps (fence_epoch env) (seq_get q) Fresh) \<noteq> Inl (Transient e)"
proof -
  obtain s' r where p: "publish_items (we_offsets env) (commit_items offs cps) (fence_epoch env) (seq_get q) Fresh s = (s', r)" by fastforce
  then show ?thesis using publish_items_not_transient[of "we_offsets env" s "commit_items offs cps"] assms
    by (cases r) (auto simp: wal_env_ok_def publish_committed_items)
qed

end

section \<open>Attempts to record finished slices\<close>

lemma andthen_pure: "m h = (h, Some r) \<Longrightarrow> andthen m k h = (case r of Inl e \<Rightarrow> (h, Some (Inl e)) | Inr x \<Rightarrow> k x h)"
  by (cases r) simp_all

lemma put_row_pure: "\<exists>r. put_row env txn key row cond h = (h, Some r)"
  by (simp add: put_row_def)

lemma delete_row_pure: "\<exists>r. delete_row env txn key cond h = (h, Some r)"
  by (simp add: delete_row_def)

lemma h_get_pure: "\<exists>r. h_get env k h = (h, Some r)"
  by (simp add: h_get_def)

lemma segment_row_pure: "\<exists>r. segment_row env i h = (h, Some r)"
proof -
  obtain r where "h_get env (KSegment i) h = (h, Some r)" using h_get_pure by metis
  then show ?thesis by (auto simp: segment_row_def andthen_pure split: sum.split option.split CatalogRow.split)
qed

lemma delete_segment_ops_pure: "\<exists>r. delete_segment_ops env txn i v h = (h, Some r)"
proof -
  obtain r where r: "delete_row env txn (KSegment i) (DelVersion v) h = (h, Some r)" using delete_row_pure by metis
  obtain x where x: "h_get env (KIndex i) h = (h, Some x)" using h_get_pure by metis
  obtain D where "\<And>txn. delete_row env txn (KIndex i) DelExists h = (h, Some (D txn))" using delete_row_pure[of env _ "KIndex i" DelExists h] by metis
  then show ?thesis using r x by (auto simp: delete_segment_ops_def andthen_pure split: sum.split)
qed

lemma delete_segment_ops_Inr:
  "delete_segment_ops env txn i v h = (h', Some (Inr txn')) \<Longrightarrow>
     h' = h \<and> OpDelete (KSegment i) (DelVersion v) \<in> set (ops txn')
     \<and> (ops txn' = ops txn @ [OpDelete (KSegment i) (DelVersion v)]
        \<or> ops txn' = ops txn @ [OpDelete (KSegment i) (DelVersion v), OpDelete (KIndex i) DelExists])"
  by (auto simp: delete_segment_ops_def andthen_Inr delete_row_Inr h_get_def split: if_splits)

text \<open>Other writers may change or delete the row, but a row they leave at its version is the row that was read.\<close>

definition others_versioned :: "('s \<Rightarrow> kv_rows) \<Rightarrow> ('s, 'b) wal_env \<Rightarrow> SegmentId \<Rightarrow> bool" where
  "others_versioned rows env i \<longleftrightarrow> (\<forall>k s row row'.
     catalog_view (we_codec env) (rows s) (KSegment i) = Some (RSegment row) \<and>
     catalog_view (we_codec env) (rows (we_others env k s)) (KSegment i) = Some row' \<and> row_version_of row' = Some (sg_version row) \<longrightarrow>
     row' = RSegment row)"

text \<open>The outcomes of recording finished slices. \<open>s\<close> is the store right before the commit, with what other
  writers have done by then, and \<open>row\<close> the segment's row in it.\<close>

datatype 's outcome = AlreadyGone | Reclaimed 's SegmentRow SliceBitmap | Recorded 's SegmentRow SliceBitmap | Failed

definition committed_from :: "('s \<Rightarrow> kv_rows) \<Rightarrow> ('s, 'b) wal_env \<Rightarrow> SegmentId \<Rightarrow> 's \<Rightarrow> SegmentRow \<Rightarrow> 's handle \<Rightarrow> bool" where
  "committed_from rows env i s row h' \<longleftrightarrow> catalog_view (we_codec env) (rows s) (KSegment i) = Some (RSegment row)
     \<and> (\<exists>txn. catalog_commit (we_codec env) (we_store env) s txn (we_fence env) = Inr (hd_store h'))"

definition outcome_ok ::
  "('s \<Rightarrow> kv_rows) \<Rightarrow> ('s, 'b) wal_env \<Rightarrow> SegmentId \<Rightarrow> string \<Rightarrow> u32 list \<Rightarrow> 's handle \<Rightarrow> 's handle \<Rightarrow> (DurableError + bool) option \<Rightarrow> 's outcome \<Rightarrow> bool"
where
  "outcome_ok rows env i sid ords h h' r out = (let after = catalog_view (we_codec env) (rows (hd_store h')) (KSegment i) in case out of
      AlreadyGone \<Rightarrow> r = Some (Inr True) \<and> after = None \<and> hd_reclaimed h' = hd_reclaimed h \<and> hd_files h' = hd_files h
    | Reclaimed s row bits \<Rightarrow> r = Some (Inr True) \<and> committed_from rows env i s row h' \<and> after = None
        \<and> bm_or_bits ords (sg_done row) = Some bits \<and> bm_all_done bits = Some True \<and> allows_reclaim env (seq_get (sg_seq row))
        \<and> hd_reclaimed h' = hd_reclaimed h @ [(sg_location row, sid)] \<and> fmlookup (hd_done h') sid = None
    | Recorded s row bits \<Rightarrow> r = Some (Inr False) \<and> committed_from rows env i s row h' \<and> bm_or_bits ords (sg_done row) = Some bits
        \<and> (\<exists>v. checked_add (sg_version row) 1 = Some v \<and> after = Some (RSegment (row\<lparr>sg_done := bits, sg_version := v\<rparr>)))
        \<and> \<not> (bm_all_done bits = Some True \<and> allows_reclaim env (seq_get (sg_seq row)))
        \<and> hd_reclaimed h' = hd_reclaimed h \<and> hd_files h' = hd_files h
    | Failed \<Rightarrow> (\<forall>b. r \<noteq> Some (Inr b)) \<and> hd_reclaimed h' = hd_reclaimed h \<and> hd_files h' = hd_files h)"

lemma mark_memory_run:
  "(\<exists>d. mark_acked_ordinals_in_memory sid ords n h = (h\<lparr>hd_done := d\<rparr>, Some (Inr ()))) \<or> mark_acked_ordinals_in_memory sid ords n h = (h, None)"
  by (cases "bm_or_bits ords (case fmlookup (hd_done h) sid of Some b \<Rightarrow> b | None \<Rightarrow> bm_new n)")
    (auto simp: mark_acked_ordinals_in_memory_def Let_def)

lemma after_reclaim_run:
  "\<exists>h'. after_reclaim env loc sid h = (h', Some (Inr ())) \<and> hd_store h' = hd_store h \<and> hd_reclaimed h' = hd_reclaimed h @ [(loc, sid)]
     \<and> fmlookup (hd_done h') sid = None"
  by (cases loc) (simp_all add: after_reclaim_def delete_payload_def forget_in_memory_segment_def)

context skippr_store
begin

lemma segment_row_view:
  assumes "we_store env = sops" "segment_row env i h = (h', Some (Inr r))"
  shows "catalog_view (we_codec env) (rows_of (hd_store h)) (KSegment i) = map_option RSegment r"
proof -
  obtain x h1 where g: "h_get env (KSegment i) h = (h1, Some (Inr x))" and k: "(case x of Some (RSegment row) \<Rightarrow> ret (Some row)
      | Some _ \<Rightarrow> fail (ProtocolMismatch ''wal#seg is not a SegmentRow'') | None \<Rightarrow> ret None) h1 = (h', Some (Inr r))"
    using assms(2) unfolding segment_row_def andthen_Inr by blast
  have "x = map_option RSegment r" using k by (auto split: option.splits CatalogRow.splits)
  then show ?thesis using h_get_Inr[OF assms(1) g] by simp
qed

text \<open>The row that a successful conditional commit replaced or deleted is the row that was read.\<close>

lemma versioned_commit_row:
  assumes ov: "others_versioned rows_of env i" and v: "catalog_view (we_codec env) (rows_of s) (KSegment i) = Some (RSegment row)"
    and c: "catalog_commit (we_codec env) sops (we_others env k s) txn f = Inr s'"
    and op: "OpDelete (KSegment i) (DelVersion (sg_version row)) \<in> set (ops txn) \<or> OpPut (KSegment i) x (PutVersion (sg_version row)) \<in> set (ops txn)"
  shows "catalog_view (we_codec env) (rows_of (we_others env k s)) (KSegment i) = Some (RSegment row)"
proof -
  have "\<forall>op\<in>set (ops txn). op_runs (we_codec env) (rows_of (we_others env k s)) op" using catalog_commit_iff c by blast
  then obtain old where "catalog_view (we_codec env) (rows_of (we_others env k s)) (KSegment i) = Some old" "row_version_of old = Some (sg_version row)"
    using op put_version_ran delete_version_ran by metis
  then show ?thesis using ov v unfolding others_versioned_def by metis
qed

lemma on_commit_cases:
  assumes "we_store env = sops" "on_commit (flushing_commit env txn) success retry h = (h', r)"
  obtains (committed) s' where "catalog_commit (we_codec env) sops (hd_store h) txn (we_fence env) = Inr s'" "success (h\<lparr>hd_store := s'\<rparr>) = (h', r)"
  | (retry) "retry h = (h', r)"
  | (err) e where "h' = h" "r = Some (Inl e)"
  using assms(2) by (cases "catalog_commit (we_codec env) sops (hd_store h) txn (we_fence env)")
    (auto simp: on_commit_def flushing_commit_run[OF assms(1)] split: if_splits)

lemma recorded_view:
  assumes c: "catalog_commit (we_codec env) sops s txn f = Inr s'" and ok: "codec_ok (we_codec env)" and i: "valid_component (seg_as_str i)" "is_str (seg_as_str i)"
  shows "ops txn = [OpPut (KSegment i) x cond] \<Longrightarrow> catalog_view (we_codec env) (rows_of s') (KSegment i) = Some x"
    and "ops txn = [OpDelete (KSegment i) cond'] \<or> ops txn = [OpDelete (KSegment i) cond', OpDelete (KIndex i) DelExists] \<Longrightarrow>
      catalog_view (we_codec env) (rows_of s') (KSegment i) = None"
proof -
  note v = catalog_commit_view[OF c ok, of "KSegment i"]
  show "catalog_view (we_codec env) (rows_of s') (KSegment i) = Some x" if "ops txn = [OpPut (KSegment i) x cond]"
    using v i that by (simp add: txn_keys_ok_def view_after_def)
  show "catalog_view (we_codec env) (rows_of s') (KSegment i) = None"
    if "ops txn = [OpDelete (KSegment i) cond'] \<or> ops txn = [OpDelete (KSegment i) cond', OpDelete (KIndex i) DelExists]"
    using v i that by (auto simp: txn_keys_ok_def view_after_def)
qed

text \<open>One attempt, after the row has been read and the transaction built.\<close>

lemma complete_commit_outcome:
  assumes env: "wal_env_ok sops env" and ov: "others_versioned rows_of env i" and i: "valid_component (seg_as_str i)" "is_str (seg_as_str i)"
    and v: "catalog_view (we_codec env) (rows_of (hd_store h)) (KSegment i) = Some (RSegment row)"
    and bits: "bm_or_bits ords (sg_done row) = Some bits" "bm_all_done bits = Some alldone" "checked_add (sg_version row) 1 = Some v'"
    and can: "can = (alldone \<and> allows_reclaim env (seq_get (sg_seq row)))"
    and txn: "(if can then delete_segment_ops env txn_new i (sg_version row) else update_segment_ops env txn_new i row bits v') h = (h, Some (Inr txn))"
    and h1: "h1 = h\<lparr>hd_store := we_others env k (hd_store h)\<rparr>"
    and c: "catalog_commit (we_codec env) sops (hd_store h1) txn (we_fence env) = Inr s'"
    and run: "andthen (mark_acked_ordinals_in_memory sid ords (sg_slice_count row)) (\<lambda>_.
       if can then andthen (after_reclaim env (sg_location row) sid) (\<lambda>_. ret True) else ret False) (h1\<lparr>hd_store := s'\<rparr>) = (h', r)"
  shows "\<exists>out. outcome_ok rows_of env i sid ords h h' r out"
proof -
  have ok: "codec_ok (we_codec env)" using env by (simp add: wal_env_ok_def)
  have ops: "if can then ops txn = [OpDelete (KSegment i) (DelVersion (sg_version row))]
        \<or> ops txn = [OpDelete (KSegment i) (DelVersion (sg_version row)), OpDelete (KIndex i) DelExists]
      else ops txn = [OpPut (KSegment i) (RSegment (row\<lparr>sg_done := bits, sg_version := v'\<rparr>)) (PutVersion (sg_version row))]"
    using txn by (auto simp: update_segment_ops_def put_row_Inr txn_new_def split: if_splits dest: delete_segment_ops_Inr)
  note rv = recorded_view[OF c ok i]
  have from1: "catalog_view (we_codec env) (rows_of (hd_store h1)) (KSegment i) = Some (RSegment row)"
    "\<exists>txn. catalog_commit (we_codec env) (we_store env) (hd_store h1) txn (we_fence env) = Inr s'"
    using versioned_commit_row[OF ov v, of k txn "we_fence env" s'] c ops h1 env by (auto simp: wal_env_ok_def split: if_splits)
  show ?thesis
    using mark_memory_run[of sid ords "sg_slice_count row" "h1\<lparr>hd_store := s'\<rparr>"]
  proof
    assume "\<exists>d. mark_acked_ordinals_in_memory sid ords (sg_slice_count row) (h1\<lparr>hd_store := s'\<rparr>) = (h1\<lparr>hd_store := s'\<rparr>\<lparr>hd_done := d\<rparr>, Some (Inr ()))"
    then obtain d where d: "mark_acked_ordinals_in_memory sid ords (sg_slice_count row) (h1\<lparr>hd_store := s'\<rparr>) = (h1\<lparr>hd_store := s', hd_done := d\<rparr>, Some (Inr ()))" by auto
    show ?thesis
    proof (cases can)
      case True
      obtain h2 where h2: "after_reclaim env (sg_location row) sid (h1\<lparr>hd_store := s', hd_done := d\<rparr>) = (h2, Some (Inr ()))" "hd_store h2 = s'"
        "hd_reclaimed h2 = hd_reclaimed h1 @ [(sg_location row, sid)]" "fmlookup (hd_done h2) sid = None"
        using after_reclaim_run[of env "sg_location row" sid "h1\<lparr>hd_store := s', hd_done := d\<rparr>"] by auto
      have "h' = h2" "r = Some (Inr True)" using run d h2(1) True by simp_all
      then have "outcome_ok rows_of env i sid ords h h' r (Reclaimed (hd_store h1) row bits)"
        using h2 rv(2) ops True bits can h1 from1 by (simp add: outcome_ok_def committed_from_def)
      then show ?thesis ..
    next
      case False
      have "h' = h1\<lparr>hd_store := s', hd_done := d\<rparr>" "r = Some (Inr False)" using run d False by simp_all
      then have "outcome_ok rows_of env i sid ords h h' r (Recorded (hd_store h1) row bits)"
        using rv(1) ops False bits can h1 from1 by (simp add: outcome_ok_def committed_from_def)
      then show ?thesis ..
    qed
  next
    assume "mark_acked_ordinals_in_memory sid ords (sg_slice_count row) (h1\<lparr>hd_store := s'\<rparr>) = (h1\<lparr>hd_store := s'\<rparr>, None)"
    then have "h' = h1\<lparr>hd_store := s'\<rparr>" "r = None" using run by simp_all
    then have "outcome_ok rows_of env i sid ords h h' r Failed" using h1 by (simp add: outcome_ok_def)
    then show ?thesis ..
  qed
qed

lemma outcome_later:
  assumes "\<exists>out. outcome_ok rows_of env i sid ords h1 h' r out" "hd_reclaimed h1 = hd_reclaimed h" "hd_files h1 = hd_files h"
  shows "\<exists>out. outcome_ok rows_of env i sid ords h h' r out"
proof -
  obtain out where "outcome_ok rows_of env i sid ords h1 h' r out" using assms(1) by blast
  then have "outcome_ok rows_of env i sid ords h h' r out" using assms(2,3) by (cases out) (simp_all add: outcome_ok_def)
  then show ?thesis by blast
qed

lemma outcome_failed: "(\<And>b. r \<noteq> Some (Inr b)) \<Longrightarrow> \<exists>out. outcome_ok rows_of env i sid ords h h r out"
  by (intro exI[of _ Failed]) (simp add: outcome_ok_def)

lemma outcome_step:
  assumes "andthen m k h = (h', r)" "m h = (h, res)"
    "\<And>x. res = Some (Inr x) \<Longrightarrow> k x h = (h', r) \<Longrightarrow> \<exists>out. outcome_ok rows_of env i sid ords h h' r out"
  shows "\<exists>out. outcome_ok rows_of env i sid ords h h' r out"
proof (cases res)
  case None
  then show ?thesis using assms(1,2) outcome_failed[of r] by auto
next
  case (Some y)
  then show ?thesis using assms outcome_failed[of r] by (cases y) auto
qed

lemma orpanic_pure: "orpanic x h = (h, map_option Inr x)"
  by (cases x) simp_all

text \<open>The attempt that has read \<open>row\<close>; a conflict goes on with \<open>retry\<close>.\<close>

lemma complete_row_outcome:
  assumes env: "wal_env_ok sops env" and ov: "others_versioned rows_of env i" and i: "valid_component (seg_as_str i)" "is_str (seg_as_str i)"
    and view: "catalog_view (we_codec env) (rows_of (hd_store h)) (KSegment i) = Some (RSegment row)"
    and bits: "bm_or_bits ords (sg_done row) = Some bits" "bm_all_done bits = Some alldone" "checked_add (sg_version row) 1 = Some v'"
    and can: "can = (alldone \<and> allows_reclaim env (seq_get (sg_seq row)))"
    and run: "andthen (if can then delete_segment_ops env txn_new i (sg_version row) else update_segment_ops env txn_new i row bits v') (\<lambda>txn.
         andthen (interfere env k) (\<lambda>_.
         on_commit (flushing_commit env txn)
           (andthen (mark_acked_ordinals_in_memory sid ords (sg_slice_count row)) (\<lambda>_.
              if can then andthen (after_reclaim env (sg_location row) sid) (\<lambda>_. ret True) else ret False))
           retry)) h = (h', r)"
    and retry: "\<And>h1. retry h1 = (h', r) \<Longrightarrow> \<exists>out. outcome_ok rows_of env i sid ords h1 h' r out"
  shows "\<exists>out. outcome_ok rows_of env i sid ords h h' r out"
proof -
  let ?mk = "if can then delete_segment_ops env txn_new i (sg_version row) else update_segment_ops env txn_new i row bits v'"
  let ?h1 = "h\<lparr>hd_store := we_others env k (hd_store h)\<rparr>"
  have st: "we_store env = sops" using env by (simp add: wal_env_ok_def)
  have "\<exists>rt. ?mk h = (h, Some rt)" by (simp add: update_segment_ops_def delete_segment_ops_pure put_row_pure)
  then obtain rt where rt: "?mk h = (h, Some rt)" by blast
  from run rt show ?thesis
  proof (rule outcome_step)
    fix txn assume txn: "Some rt = Some (Inr txn)"
    assume "andthen (interfere env k) (\<lambda>_. on_commit (flushing_commit env txn)
         (andthen (mark_acked_ordinals_in_memory sid ords (sg_slice_count row)) (\<lambda>_.
            if can then andthen (after_reclaim env (sg_location row) sid) (\<lambda>_. ret True) else ret False)) retry) h = (h', r)"
    then have "on_commit (flushing_commit env txn)
         (andthen (mark_acked_ordinals_in_memory sid ords (sg_slice_count row)) (\<lambda>_.
            if can then andthen (after_reclaim env (sg_location row) sid) (\<lambda>_. ret True) else ret False)) retry ?h1 = (h', r)"
      by (simp add: interfere_def)
    with st show ?thesis
    proof (cases rule: on_commit_cases)
      case (committed s')
      from complete_commit_outcome[OF env ov i view bits can _ refl committed] rt txn show ?thesis by simp
    next
      case retry
      from assms(11)[OF this] show ?thesis by (rule outcome_later) simp_all
    next
      case (err e)
      then show ?thesis using outcome_later[OF outcome_failed[of r env i sid ords ?h1], of h] by simp
    qed
  qed
qed

lemma complete_attempts_outcome:
  assumes env: "wal_env_ok sops env" and ov: "others_versioned rows_of env i" and i: "valid_component (seg_as_str i)" "is_str (seg_as_str i)"
  shows "complete_attempts env i sid ords k h = (h', r) \<Longrightarrow> \<exists>out. outcome_ok rows_of env i sid ords h h' r out"
proof (induction k arbitrary: h)
  case 0
  then show ?case using outcome_failed[of r env i sid ords h] by auto
next
  case (Suc k)
  have st: "we_store env = sops" using env by (simp add: wal_env_ok_def)
  obtain r0 where sr: "segment_row env i h = (h, Some r0)" using segment_row_pure by metis
  from Suc.prems[unfolded complete_attempts.simps(2)] sr show ?case
  proof (rule outcome_step, goal_cases)
    case (1 x)
    note view = segment_row_view[OF st sr[unfolded 1(1)]]
    show ?case
    proof (cases x)
      case None
      then have "outcome_ok rows_of env i sid ords h h' r AlreadyGone" using 1(2) view by (auto simp: outcome_ok_def)
      then show ?thesis ..
    next
      case (Some row)
      from 1(2)[unfolded Some option.case] orpanic_pure show ?thesis
      proof (rule outcome_step, goal_cases)
        case (1 bits)
        from 1(2) orpanic_pure show ?case
        proof (rule outcome_step, goal_cases)
          case (1 alldone)
          then show ?case
            using complete_row_outcome[OF env ov i, of h row ords bits alldone _ _ k sid "complete_attempts env i sid ords k" h' r]
              view Some \<open>map_option Inr (bm_or_bits ords (sg_done row)) = Some (Inr bits)\<close> Suc.IH outcome_failed[of r env i sid ords h]
            by (cases "checked_add (sg_version row) 1") (auto simp: next_catalog_version_def Let_def)
        qed
      qed
    qed
  qed
qed

end

section \<open>The redo of one acknowledged compaction\<close>

context skippr_store
begin

lemma flush_one_run:
  assumes env: "wal_env_ok sops env" and f: "fence_ok (hd_store h) (we_fence env)" and wf: "catalog_wf (we_codec env) (rows_of (hd_store h))"
    and quiet: "we_others env = (\<lambda>_ s. s)" "we_hash_order env = (\<lambda>g. g)"
    and ids: "valid_component sid" "is_str sid" "valid_component (ct_id txn)" "is_str (ct_id txn)"
    and refs: "ct_refs txn = [w]" "wr_segment_id w = sid" "wr_ordinal w = Some n"
    and seg: "catalog_view (we_codec env) (rows_of (hd_store h)) (KSegment (SegmentId sid)) = Some (RSegment row)"
      "bm_or_bits [n] (sg_done row) = Some bits" "bm_all_done bits = Some True" "checked_add (sg_version row) 1 = Some v"
    and ix: "catalog_view (we_codec env) (rows_of (hd_store h)) (KIndex (SegmentId sid)) = None"
    and cmp: "catalog_view (we_codec env) (rows_of (hd_store h)) (KCompaction (CompactionId (ct_id txn))) = Some crow"
    and mem: "fmlookup (hd_done h) sid = None"
  shows "\<exists>h'. flush_acked_batch env [txn] h = (h', Some (Inr 1)) \<and> hd_reclaimed h' = hd_reclaimed h @ [(sg_location row, sid)]
     \<and> catalog_view (we_codec env) (rows_of (hd_store h')) (KSegment (SegmentId sid)) = None
     \<and> catalog_view (we_codec env) (rows_of (hd_store h')) (KCompaction (CompactionId (ct_id txn))) = None"
proof -
  let ?del = "OpDelete (KSegment (SegmentId sid)) (DelVersion (sg_version row))" and ?dc = "OpDelete (KCompaction (CompactionId (ct_id txn))) DelExists"
  have st: "we_store env = sops" using env by (simp add: wal_env_ok_def)
  note g = h_get_ok[OF st wf]
  have d1: "delete_segment_ops env txn_new (SegmentId sid) (sg_version row) h = (h, Some (Inr \<lparr>ops = [?del]\<rparr>))"
    using g[of "KIndex (SegmentId sid)"] ix by (simp add: delete_segment_ops_def delete_row_ok txn_new_def TXN_MAX_OPS_def)
  have ps: "plan_segments env [(sid, [n])] \<lparr>rp_txn = txn_new, rp_reclaim = [], rp_memory = []\<rparr> h
      = (h, Some (Inr \<lparr>rp_txn = \<lparr>ops = [?del]\<rparr>, rp_reclaim = [(sid, sg_location row)], rp_memory = [(sid, [n], sg_slice_count row)]\<rparr>))"
    using g[of "KSegment (SegmentId sid)"] seg ids(1) d1 by (simp add: plan_segment_def segment_id_new_def next_catalog_version_def del: bm_or_bits.simps)
  have pc: "plan_compactions env [txn] \<lparr>ops = [?del]\<rparr> h = (h, Some (Inr \<lparr>ops = [?del, ?dc]\<rparr>))"
    using g[of "KCompaction (CompactionId (ct_id txn))"] cmp ids(3) by (simp add: compaction_id_new_def delete_row_ok TXN_MAX_OPS_def)
  have runs: "\<forall>op\<in>set (ops \<lparr>ops = [?del, ?dc]\<rparr>). op_runs (we_codec env) (rows_of (hd_store h)) op"
    using delete_runs(2)[OF seg(1)] delete_runs(1)[OF cmp] by (simp del: eval_op.simps)
  have keys: "txn_keys_ok \<lparr>ops = [?del, ?dc]\<rparr>" using ids by (simp add: txn_keys_ok_def)
  obtain s' where s': "flushing_commit env \<lparr>ops = [?del, ?dc]\<rparr> h = (h\<lparr>hd_store := s'\<rparr>, Some (Inr ()))"
    "\<forall>k. catalog_key_ok k \<longrightarrow> catalog_view (we_codec env) (rows_of s') k = view_after (catalog_view (we_codec env) (rows_of (hd_store h))) [?del, ?dc] k"
    using flushing_commit_ok[OF env f runs keys wf] by auto
  obtain b where b: "bm_or_bits [n] (bm_new (sg_slice_count row)) = Some b" using bm_or_bits_spec[OF bm_new_ok(1)] by blast
  then have mk: "mark_acked_ordinals_in_memory sid [n] (sg_slice_count row) (h\<lparr>hd_store := s'\<rparr>)
      = (h\<lparr>hd_store := s', hd_done := fmupd sid b (hd_done h)\<rparr>, Some (Inr ()))"
    using mem by (simp add: mark_acked_ordinals_in_memory_def Let_def del: bm_or_bits.simps)
  obtain h' where h': "after_reclaim env (sg_location row) sid (h\<lparr>hd_store := s', hd_done := fmupd sid b (hd_done h)\<rparr>) = (h', Some (Inr ()))"
    "hd_store h' = s'" "hd_reclaimed h' = hd_reclaimed h @ [(sg_location row, sid)]"
    using after_reclaim_run[of env "sg_location row" sid "h\<lparr>hd_store := s', hd_done := fmupd sid b (hd_done h)\<rparr>"] by auto
  have on: "on_commit (flushing_commit env \<lparr>ops = [?del, ?dc]\<rparr>)
      (andthen (mark_all [(sid, [n], sg_slice_count row)]) (\<lambda>_. andthen (reclaim_all env [(sid, sg_location row)]) (\<lambda>_. ret 1))) retry h = (h', Some (Inr (1 :: u64)))" for retry
    using s'(1) mk h'(1) by (simp add: on_commit_def)
  have "flush_attempts env [txn] [(sid, [n])] 8 h = (h', Some (Inr 1))"
    using ps pc on quiet by (simp add: numeral_eq_Suc interfere_def del: plan_segments.simps plan_compactions.simps)
  moreover have "group_refs env (concat (map ct_refs [txn])) [] h = (h, Some (Inr [(sid, [n])]))"
    using refs by (simp add: resolve_ordinal_def)
  ultimately have "flush_acked_batch env [txn] h = (h', Some (Inr 1))"
    using quiet by (simp add: flush_acked_batch_def RECLAIM_OCC_ATTEMPTS_def)
  then show ?thesis using h' s'(2) ids by (auto simp: view_after_def)
qed

end

section \<open>Properties\<close>



text \<open>C20. The publication of a committed sequence number returns: the loop, which retries transient errors
  without limit, ends as soon as, at some attempt, the writer's fence is valid, or the first sort
  key of the commit carries a newer fence, as it does once a new owner has republished the commit.\<close>

theorem publish_seq_returns:
  assumes "wal_env_ok memory_ops env"
    "memory_fence_ok (attempt_store env q offs cps (hd_store h) k) (we_fence env)
       \<or> superseded env (attempt_store env q offs cps (hd_store h) k) offs cps q"
  shows "\<exists>h' r. publish_seq env q offs cps h = (h', Some r)"
  using assms by (intro publish_seq_returns_at[of env q offs cps h k]) (auto dest: mem.valid_fence_not_transient superseded_not_transient)

theorem publish_seq_returns_witness:
  "\<exists>h' r. publish_seq (sample_wal sample_codec) (CatalogSeq 1) [] sample_cps fresh_handle = (h', Some r)"
  by (rule publish_seq_returns[OF sample_wal_ok[OF sample_codec_ok], of _ _ _ _ 0])
    (simp add: handle_new_def sample_wal_def memory_open_props)

text \<open>C40. The redo of acknowledged compactions does not consult the processor: a segment whose last slice
  an acknowledged compaction finishes is deleted with its payload even when the processor has not
  passed its sequence number.\<close>

theorem redo_reclaims_unconsumed:
  assumes "wal_env_ok memory_ops env" "memory_fence_ok (hd_store h) (we_fence env)" "catalog_wf (we_codec env) (mem_rows (hd_store h))"
    "we_others env = (\<lambda>_ s. s)" "we_hash_order env = (\<lambda>g. g)"
    "valid_component sid" "is_str sid" "valid_component (ct_id txn)" "is_str (ct_id txn)"
    "ct_refs txn = [w]" "wr_segment_id w = sid" "wr_ordinal w = Some n"
    "catalog_view (we_codec env) (mem_rows (hd_store h)) (KSegment (SegmentId sid)) = Some (RSegment row)"
    "bm_or_bits [n] (sg_done row) = Some bits" "bm_all_done bits = Some True" "checked_add (sg_version row) 1 = Some v"
    "catalog_view (we_codec env) (mem_rows (hd_store h)) (KIndex (SegmentId sid)) = None"
    "catalog_view (we_codec env) (mem_rows (hd_store h)) (KCompaction (CompactionId (ct_id txn))) = Some crow"
    "fmlookup (hd_done h) sid = None" "\<not> allows_reclaim env (seq_get (sg_seq row))"
  shows "\<exists>h'. flush_acked_batch env [txn] h = (h', Some (Inr 1)) \<and> hd_reclaimed h' = hd_reclaimed h @ [(sg_location row, sid)]
     \<and> catalog_view (we_codec env) (mem_rows (hd_store h')) (KSegment (SegmentId sid)) = None
     \<and> catalog_view (we_codec env) (mem_rows (hd_store h')) (KCompaction (CompactionId (ct_id txn))) = None"
  by (rule mem.flush_one_run[OF assms(1-19)])

definition unconsumed_row :: SegmentRow where
  "unconsumed_row = \<lparr>sg_segment_id = SegmentId ''seg-1'', sg_seq = CatalogSeq 5, sg_location = Disk ''/data/seg-1.seg'', sg_payload_len = 10,
     sg_payload_sha256 = [], sg_slice_count = 1, sg_done = bm_new 1, sg_offsets = [], sg_checkpoints = [], sg_epoch = SINGLE_NODE, sg_version = 0\<rparr>"

definition acked_row :: CatalogRow where
  "acked_row = RCompaction \<lparr>cr_id = CompactionId ''c-1'', cr_state = Acked, cr_body = [], cr_version = 0\<rparr>"

lemma unconsumed_store:
  "\<exists>s. memory_fence_ok s fence_local \<and> catalog_wf (table_codec [RSegment unconsumed_row, acked_row]) (mem_rows s)
     \<and> catalog_view (table_codec [RSegment unconsumed_row, acked_row]) (mem_rows s) (KSegment (SegmentId ''seg-1'')) = Some (RSegment unconsumed_row)
     \<and> catalog_view (table_codec [RSegment unconsumed_row, acked_row]) (mem_rows s) (KIndex (SegmentId ''seg-1'')) = None
     \<and> catalog_view (table_codec [RSegment unconsumed_row, acked_row]) (mem_rows s) (KCompaction (CompactionId ''c-1'')) = Some acked_row"
proof -
  let ?c = "table_codec [RSegment unconsumed_row, acked_row]"
  let ?txn = "\<lparr>ops = [OpPut (KSegment (SegmentId ''seg-1'')) (RSegment unconsumed_row) NotExists, OpPut (KCompaction (CompactionId ''c-1'')) acked_row NotExists]\<rparr>"
  have env: "wal_env_ok memory_ops (sample_wal ?c)" by (rule sample_wal_ok[OF table_codec_ok]) simp
  have wf: "catalog_wf ?c (mem_rows (hd_store fresh_handle))" by (simp add: handle_new_def memory_open_props)
  have runs: "op_runs ?c (mem_rows (hd_store fresh_handle)) (OpPut (KSegment (SegmentId ''seg-1'')) (RSegment unconsumed_row) NotExists)"
    "op_runs ?c (mem_rows (hd_store fresh_handle)) (OpPut (KCompaction (CompactionId ''c-1'')) acked_row NotExists)"
    using table_encodes by (intro put_new_runs[OF wf]; simp add: catalog_view_def handle_new_def memory_open_props acked_row_def)+
  have keys: "txn_keys_ok ?txn"
    by (simp add: txn_keys_ok_def valid_component_iff reserved_chars_def is_str_ascii ascii_def)
  obtain s' where "\<forall>k. catalog_key_ok k \<longrightarrow> catalog_view ?c (mem_rows s') k = view_after (catalog_view ?c (mem_rows (hd_store fresh_handle))) (ops ?txn) k"
    "catalog_wf ?c (mem_rows s')" "memory_fence_ok s' = memory_fence_ok (hd_store fresh_handle)"
    using mem.flushing_commit_ok[OF env, of fresh_handle ?txn] runs keys wf
    by (auto simp: sample_wal_def handle_new_def memory_open_props simp del: eval_op.simps)
  then show ?thesis
    by (intro exI[of _ s']) (simp add: view_after_def catalog_view_def handle_new_def memory_open_props valid_component_iff reserved_chars_def)
qed

theorem redo_reclaims_unconsumed_witness:
  "\<exists>(env :: (memory_store, unit) wal_env) h h' txn row. \<not> allows_reclaim env (seq_get (sg_seq row))
     \<and> catalog_view (we_codec env) (mem_rows (hd_store h)) (KSegment (SegmentId ''seg-1'')) = Some (RSegment row)
     \<and> flush_acked_batch env [txn] h = (h', Some (Inr 1))
     \<and> catalog_view (we_codec env) (mem_rows (hd_store h')) (KSegment (SegmentId ''seg-1'')) = None"
proof -
  let ?c = "table_codec [RSegment unconsumed_row, acked_row]"
  obtain s where s: "memory_fence_ok s fence_local" "catalog_wf ?c (mem_rows s)"
    "catalog_view ?c (mem_rows s) (KSegment (SegmentId ''seg-1'')) = Some (RSegment unconsumed_row)"
    "catalog_view ?c (mem_rows s) (KIndex (SegmentId ''seg-1'')) = None"
    "catalog_view ?c (mem_rows s) (KCompaction (CompactionId ''c-1'')) = Some acked_row" using unconsumed_store by blast
  let ?h = "handle_new s fmempty :: memory_store handle" and ?env = "sample_wal ?c"
  let ?w = "\<lparr>wr_segment_id = ''seg-1'', wr_source = DiskSource ''/data/seg-1.seg'', wr_start = 0, wr_len = 10, wr_key = sample_key,
    wr_cdc_meta_hash = None, wr_ordinal = Some 0\<rparr>"
  obtain txn :: CompactionTransaction where txn: "ct_id txn = ''c-1''" "ct_refs txn = [?w]"
    by (metis CompactionTransaction.select_convs)
  have env: "wal_env_ok memory_ops ?env" by (rule sample_wal_ok[OF table_codec_ok]) simp
  have e: "we_codec ?env = ?c" "we_fence ?env = fence_local" "we_others ?env = (\<lambda>_ s. s)" "we_hash_order ?env = (\<lambda>g. g)" "we_min_unconsumed_seq ?env = 0"
    by (simp_all add: sample_wal_def)
  have h: "hd_store ?h = s" "fmlookup (hd_done ?h) ''seg-1'' = None" by (simp_all add: handle_new_def)
  obtain bits where bits: "bm_or_bits [0] (bm_new 1) = Some bits" "bm_all_done bits = Some True"
    by (simp add: bm_new_def Let_def bm_all_done_def bm_bit_def)
  have ids: "valid_component ''seg-1''" "is_str ''seg-1''" "valid_component ''c-1''" "is_str ''c-1''"
    by (simp_all add: valid_component_iff reserved_chars_def is_str_ascii ascii_def)
  have hold: "\<not> allows_reclaim ?env (seq_get (sg_seq unconsumed_row))" by (simp add: allows_reclaim_def e)
  have row: "sg_done unconsumed_row = bm_new 1" "sg_version unconsumed_row = 0" by (simp_all add: unconsumed_row_def)
  have "checked_add (0::u64) 1 = Some 1" by (simp add: checked_add_def)
  then obtain h' where "flush_acked_batch ?env [txn] ?h = (h', Some (Inr 1))"
    "catalog_view ?c (mem_rows (hd_store h')) (KSegment (SegmentId ''seg-1'')) = None"
    using redo_reclaims_unconsumed[OF env, of ?h "''seg-1''" txn ?w 0 unconsumed_row bits 1 acked_row] s ids txn e h bits hold row
    by (auto simp del: bm_or_bits.simps)
  then show ?thesis using s(3) e(1) h(1) hold
    by (intro exI[of _ ?env] exI[of _ ?h] exI[of _ h'] exI[of _ txn] exI[of _ unconsumed_row]) simp
qed

end
