(* ===== verification/Wal_Control.thy ===== *)
theory Wal_Control
  imports Wal_Reclaim
begin

text \<open>
  Control rows (\<^verbatim>\<open>src/src/buffer/wal_handle.rs\<close>): what persisting an offset hint or a checkpoint commits and
  publishes, and what the republication at start-up makes of a hint.
\<close>

section \<open>Committing a control row\<close>

definition control_row :: "('s, 'b) wal_env \<Rightarrow> ControlBody \<Rightarrow> CatalogSeq \<Rightarrow> u64 \<Rightarrow> ControlRow" where
  "control_row env body q v = \<lparr>ct_seq = q, ct_epoch = epoch (we_fence env), ct_body = body, ct_version = v\<rparr>"

text \<open>The version a control row gets over the row that is there: the first version, or the next one.\<close>

definition control_follows :: "CatalogRow option \<Rightarrow> u64 \<Rightarrow> bool" where
  "control_follows existing v \<longleftrightarrow> (case existing of
      None \<Rightarrow> v = 0
    | Some (RControl old) \<Rightarrow> checked_add (ct_version old) 1 = Some v
    | _ \<Rightarrow> False)"

definition control_key :: "CatalogKey \<Rightarrow> bool" where
  "control_key key \<longleftrightarrow> catalog_key_ok key \<and> catalog_key_str key \<and> key \<noteq> KSeq"

context skippr_store
begin

lemma persist_control_ok:
  assumes env: "wal_env_ok sops env" and f: "fence_ok (hd_store h) (we_fence env)" and wf: "catalog_wf (we_codec env) (rows_of (hd_store h))"
    and key: "control_key key" and ceil: "below_ceiling h"
    and old: "control_follows (catalog_view (we_codec env) (rows_of (hd_store h)) key) v"
      "\<And>c. catalog_view (we_codec env) (rows_of (hd_store h)) key = Some (RControl c) \<Longrightarrow> ct_body c \<noteq> body"
    and q: "seq_follows (catalog_view (we_codec env) (rows_of (hd_store h)) KSeq) q"
    and fit: "rows_fit (we_codec env) [RControl (control_row env body q v), RSeq \<lparr>max_seq = q\<rparr>]"
    and pub: "publishable env (hd_store h) offs cps q"
  shows "\<exists>s'. persist_control env key body offs cps h = (h\<lparr>hd_store := s', hd_max_committed := q, hd_max_published := q\<rparr>, Some (Inr ()))
     \<and> (\<forall>k. catalog_key_ok k \<longrightarrow> catalog_view (we_codec env) (rows_of s') k = (if k = key then Some (RControl (control_row env body q v))
          else if k = KSeq then Some (RSeq \<lparr>max_seq = q\<rparr>) else catalog_view (we_codec env) (rows_of (hd_store h)) k))
     \<and> catalog_wf (we_codec env) (rows_of s') \<and> fence_ok s' = fence_ok (hd_store h) \<and> published env s' offs cps q"
proof -
  let ?c = "we_codec env" and ?m = "rows_of (hd_store h)"
  define cond where "cond = (case catalog_view ?c ?m key of Some (RControl c) \<Rightarrow> PutVersion (ct_version c) | _ \<Rightarrow> NotExists)"
  let ?put = "OpPut key (RControl (control_row env body q v)) cond" and ?sq = "OpPut KSeq (RSeq \<lparr>max_seq = q\<rparr>) SeqAdvance"
  let ?txn = "\<lparr>ops = [?put, ?sq]\<rparr>"
  have st: "we_store env = sops" using env by (simp add: wal_env_ok_def)
  have c: "check_ceiling h = (h, Some (Inr ()))"
    using ceil by (auto simp: check_ceiling_def below_ceiling_def UNPUBLISHED_COMMIT_CEILING_def)
  have ns: "cond \<noteq> SeqAdvance" by (auto simp: cond_def split: option.splits CatalogRow.splits)
  have p1: "put_row env txn_new key (RControl (control_row env body q v)) cond h = (h, Some (Inr \<lparr>ops = [?put]\<rparr>))"
    using fit ns by (subst put_row_ok) (auto simp: rows_fit_def txn_new_def TXN_MAX_OPS_def)
  have p2: "put_row env \<lparr>ops = [?put]\<rparr> KSeq (RSeq \<lparr>max_seq = q\<rparr>) SeqAdvance h = (h, Some (Inr ?txn))"
    using fit by (subst put_row_ok) (auto simp: rows_fit_def TXN_MAX_OPS_def)
  have r1: "op_runs ?c ?m ?put"
  proof (cases "catalog_view ?c ?m key")
    case None
    then show ?thesis using fit None unfolding cond_def None option.case by (intro put_new_runs[OF wf None]) (auto simp: rows_fit_def)
  next
    case (Some x)
    then obtain old where x: "x = RControl old" "checked_add (ct_version old) 1 = Some v" using old(1) by (auto simp: control_follows_def split: CatalogRow.splits)
    have "cond = PutVersion (ct_version old)" using Some x by (simp add: cond_def)
    then show ?thesis using fit put_version_runs[OF Some[unfolded x(1)], of "ct_version old" v "RControl (control_row env body q v)"] x(2)
      by (simp add: rows_fit_def control_row_def del: eval_op.simps)
  qed
  have "case catalog_view ?c ?m KSeq of None \<Rightarrow> True | Some (RSeq old) \<Rightarrow> seq_get (max_seq old) < seq_get q | _ \<Rightarrow> False"
    using q by (auto simp: seq_follows_def seq_next_less split: option.splits CatalogRow.splits)
  then have r2: "op_runs ?c ?m ?sq" using put_seq_runs[OF wf, of q] fit by (simp add: rows_fit_def del: eval_op.simps)
  have runs: "\<forall>op\<in>set (ops ?txn). op_runs ?c ?m op" using r1 r2 by (simp del: eval_op.simps)
  have keys: "txn_keys_ok ?txn" using key by (simp add: txn_keys_ok_def control_key_def)
  obtain s1 where s1: "flushing_commit env ?txn h = (h\<lparr>hd_store := s1\<rparr>, Some (Inr ()))"
    "\<forall>k. catalog_key_ok k \<longrightarrow> catalog_view ?c (rows_of s1) k = view_after (catalog_view ?c ?m) (ops ?txn) k"
    "catalog_wf ?c (rows_of s1)" "fence_ok s1 = fence_ok (hd_store h)" "same_offsets ?m (rows_of s1)"
    using flushing_commit_ok[OF env f runs keys wf] by blast
  let ?h1 = "h\<lparr>hd_store := s1, hd_max_committed := q\<rparr>"
  have cw: "commit_with_seq env \<lparr>ops = [?put]\<rparr> q h = (?h1, Some (Inr q))" using p2 s1(1) by (simp add: commit_with_seq_def)
  have cc: "(case catalog_view ?c ?m key of Some (RControl row) \<Rightarrow> if ct_body row = body then ret (ct_seq row) else commit_control_row env key body (Some (ct_version row))
      | _ \<Rightarrow> commit_control_row env key body None) h = (?h1, Some (Inr q))"
    using old c next_seq_run[OF st wf q] p1 cw
    by (auto simp: control_follows_def commit_control_row_def next_catalog_version_def control_row_def cond_def split: option.splits CatalogRow.splits)
  have fb: "\<forall>(sk, bs)\<in>set (commit_items offs cps). fence_before (we_offsets env) (hd_store ?h1) (fence_epoch env) (seq_get q) sk"
    using pub fence_before_cong[OF env s1(5)] by (simp add: publishable_def)
  obtain s' where s': "publish_seq env q offs cps ?h1 = (?h1\<lparr>hd_store := s', hd_max_published := q\<rparr>, Some (Inr ()))"
    "catalog_view ?c (rows_of s') = catalog_view ?c (rows_of s1)" "catalog_wf ?c (rows_of s')" "fence_ok s' = fence_ok s1" "published env s' offs cps q"
    using publish_seq_fresh[OF env, of ?h1 offs cps q ?c] f fb pub s1(3,4) by (auto simp: publishable_def published_def)
  have "persist_control env key body offs cps h = (h\<lparr>hd_store := s', hd_max_committed := q, hd_max_published := q\<rparr>, Some (Inr ()))"
    using cc s'(1) h_get_ok[OF st wf, of key] by (simp add: persist_control_def)
  moreover have "view_after (catalog_view ?c ?m) (ops ?txn) k = (if k = key then Some (RControl (control_row env body q v))
      else if k = KSeq then Some (RSeq \<lparr>max_seq = q\<rparr>) else catalog_view ?c ?m k)" for k
    using key by (auto simp: view_after_def control_key_def)
  ultimately show ?thesis using s1(2,4) s'(2-5) by (intro exI[of _ s']) simp
qed

end

section \<open>Properties\<close>

definition hint_offset :: "string \<Rightarrow> string \<Rightarrow> u64 \<Rightarrow> u64 \<Rightarrow> bool \<Rightarrow> CommittedOffset" where
  "hint_offset ns part filesize position closed = \<lparr>off_namespace = ns, off_partition = part, off_filesize = filesize, off_position = position,
     off_closed = (if closed then 1 else 0)\<rparr>"

abbreviation published_filesize :: "kv_rows \<Rightarrow> string \<Rightarrow> string \<Rightarrow> u64" where
  "published_filesize m ns part \<equiv> stored_filesize (fmlookup m (family_key Offsets (as_bytes (offset_key ns part))))"

text \<open>C39. An offset hint over a partition with a published file size cannot be republished by the same
  epoch: persisting the hint succeeds and publishes the position with that file size, but the
  republication at start-up builds the payload with file size 0, and the store refuses it as
  corrupt because the epoch and sequence carry another hash.\<close>

theorem hint_republish_conflicts:
  assumes "wal_env_ok memory_ops env" "memory_fence_ok (hd_store h) (we_fence env)" "catalog_wf (we_codec env) (mem_rows (hd_store h))"
    "valid_component ns" "valid_component part" "is_str ns" "is_str part" "below_ceiling h"
    "catalog_view (we_codec env) (mem_rows (hd_store h)) (KOffsetHint (OffsetHintKey ns part)) = None"
    "seq_follows (catalog_view (we_codec env) (mem_rows (hd_store h)) KSeq) q"
    "rows_fit (we_codec env) [RControl (control_row env (OffsetHintBody position closed) q 0), RSeq \<lparr>max_seq = q\<rparr>]"
    "off = hint_offset ns part (published_filesize (mem_rows (hd_store h)) ns part) position closed" "publishable env (hd_store h) [off] [] q"
    "os_sha_hex (we_offsets env) (offset_bytes off) \<noteq> os_sha_hex (we_offsets env) (offset_bytes (off\<lparr>off_filesize := 0\<rparr>))"
  shows "\<exists>h' row. persist_offset_hint env ns part position closed h = (h', Some (Inr ()))
     \<and> get_offset (we_offsets env) (hd_store h') ns part = Inr (Some (offset_bytes off))
     \<and> catalog_view (we_codec env) (mem_rows (hd_store h')) (KOffsetHint (OffsetHintKey ns part)) = Some (RControl row)
     \<and> republish_control env (KOffsetHint (OffsetHintKey ns part)) row h'
        = (h', Some (Inl (Io ''corrupt offset payload: same WAL tuple with different hash'')))"
proof -
  let ?key = "KOffsetHint (OffsetHintKey ns part)" and ?row = "control_row env (OffsetHintBody position closed) q 0" and ?oe = "we_offsets env"
  let ?sk = "offset_key ns part"
  have key: "control_key ?key" using assms(4-7) by (simp add: control_key_def)
  have oe: "os_store ?oe = memory_ops" "os_sled_fallback ?oe = None" using assms(1) by (auto simp: wal_env_ok_def)
  obtain s' where s': "persist_control env ?key (OffsetHintBody position closed) [off] [] h
      = (h\<lparr>hd_store := s', hd_max_committed := q, hd_max_published := q\<rparr>, Some (Inr ()))"
    "catalog_view (we_codec env) (mem_rows s') ?key = Some (RControl ?row)" "published env s' [off] [] q"
    using mem.persist_control_ok[OF assms(1-3) key assms(8) _ _ assms(10,11,13)] assms(9) key
    by (auto simp: control_follows_def control_key_def)
  let ?h' = "h\<lparr>hd_store := s', hd_max_committed := q, hd_max_published := q\<rparr>"
  have g: "get_offset ?oe (hd_store h) ns part = Inr (fmlookup (mem_rows (hd_store h)) (family_key Offsets (as_bytes ?sk)))"
    using oe by (simp add: get_offset_def get_bytes_def mem.family_get_eq split: option.split)
  have run: "persist_offset_hint env ns part position closed h = (?h', Some (Inr ()))"
    using s'(1) g assms(4,5) by (simp add: persist_offset_hint_def offset_hint_key_new_def assms(12) hint_offset_def)
  have off: "off_namespace off = ns" "off_partition off = part" by (simp_all add: assms(12) hint_offset_def)
  have pub: "get_bytes ?oe s' ?sk = Inr (Some (offset_bytes off))"
    "publish_settled ?oe s' ?sk (fence_epoch env) (seq_get q) (os_sha_hex ?oe (offset_bytes off)) Fresh"
    using s'(3) by (simp_all add: published_def commit_items_def off)
  then obtain v where v: "family_get ?oe s' Offsets (as_bytes (fence_key ?sk)) = Inr v"
    "Option.bind v decode_fence = Some (fence_epoch env, seq_get q, os_sha_hex ?oe (offset_bytes off))"
    by (auto simp: publish_settled_def stored_fence_def split: sum.splits)
  have zero: "hint_offset ns part 0 position closed = off\<lparr>off_filesize := 0\<rparr>" by (simp add: assms(12) hint_offset_def)
  have "publish_committed ?oe s' [hint_offset ns part 0 position closed] [] (fence_epoch env) (seq_get q) Republish
      = (s', Inl (Corrupt ''same WAL tuple with different hash''))"
    using v assms(14) off unfolding zero by (simp add: publish_committed_def publish_wal_commit_def decide_wal_publish_def Let_def)
  then have "republish_control env ?key ?row ?h' = (?h', Some (Inl (Io ''corrupt offset payload: same WAL tuple with different hash'')))"
    by (simp add: republish_control_def control_row_def republish_def hint_offset_def)
  then show ?thesis using run s'(2) pub(1) by (intro exI[of _ ?h'] exI[of _ ?row]) (simp add: get_offset_def)
qed

definition hint_rows :: "CatalogRow list" where
  "hint_rows = [RControl (control_row (sample_wal sample_codec) (OffsetHintBody 7 True) (CatalogSeq 1) 0), RSeq \<lparr>max_seq = CatalogSeq 1\<rparr>]"

definition hinted_store :: memory_store where
  "hinted_store = (memory_open fence_local)\<lparr>mem_rows := fmupd (family_key Offsets (as_bytes ''ns-p'')) (u64_le 10 @ u64_le 4 @ u64_le 1) fmempty\<rparr>"

lemma hinted_store_view: "catalog_view c (mem_rows hinted_store) k = None" "catalog_wf c (mem_rows hinted_store)"
proof -
  have "\<not> prefix (family_prefix Catalog) (family_key Offsets rest)" for rest
    by (auto simp: family_key_def as_bytes_def byte_of_char_def)
  then show "catalog_wf c (mem_rows hinted_store)" by (auto simp: catalog_wf_def hinted_store_def split: if_splits simp del: family_prefix.simps)
  show "catalog_view c (mem_rows hinted_store) k = None"
    using stored_key_not_offsets[of k, symmetric] by (simp add: catalog_view_def hinted_store_def)
qed

lemma hinted_filesize: "published_filesize (mem_rows hinted_store) ''ns'' ''p'' = 10"
  by (simp add: hinted_store_def offset_key_def stored_filesize_def)

theorem hint_republish_conflicts_witness:
  "\<exists>(env :: (memory_store, unit) wal_env) h h' row. persist_offset_hint env ''ns'' ''p'' 7 True h = (h', Some (Inr ()))
     \<and> republish_control env (KOffsetHint (OffsetHintKey ''ns'' ''p'')) row h'
        = (h', Some (Inl (Io ''corrupt offset payload: same WAL tuple with different hash'')))"
proof -
  let ?env = "sample_wal (table_codec hint_rows)" and ?h = "handle_new hinted_store fmempty :: memory_store handle"
  let ?off = "hint_offset ''ns'' ''p'' 10 7 True"
  have env: "wal_env_ok memory_ops ?env" by (rule sample_wal_ok[OF table_codec_ok]) (simp add: hint_rows_def)
  have h: "hd_store ?h = hinted_store" "below_ceiling ?h" by (simp_all add: handle_new_def below_ceiling_def sat_sub_def)
  have f: "memory_fence_ok (hd_store ?h) (we_fence ?env)"
    using memory_open_props(1)[of fence_local] by (simp add: handle_new_def hinted_store_def sample_wal_def memory_fence_ok_def)
  have ids: "valid_component ''ns''" "valid_component ''p''" "is_str ''ns''" "is_str ''p''"
    by (simp_all add: valid_component_iff reserved_chars_def is_str_ascii ascii_def)
  have q: "seq_follows None (CatalogSeq 1)" by (simp add: seq_follows_def seq_next_def seq_ZERO_def checked_add_def)
  have fit: "rows_fit (we_codec ?env) [RControl (control_row ?env (OffsetHintBody 7 True) (CatalogSeq 1) 0), RSeq \<lparr>max_seq = CatalogSeq 1\<rparr>]"
    using table_encodes[of _ hint_rows] by (simp add: rows_fit_def sample_wal_def hint_rows_def control_row_def)
  have pub: "publishable ?env hinted_store [?off] [] (CatalogSeq 1)"
    by (simp add: publishable_def commit_items_def no_fence_sks_def hint_offset_def offset_key_def fence_before_def stored_fence_def
        sample_wal_def mem.family_get_eq hinted_store_def offsets_key_inj fence_key_def)
  have sha: "os_sha_hex (we_offsets ?env) (offset_bytes ?off) \<noteq> os_sha_hex (we_offsets ?env) (offset_bytes (?off\<lparr>off_filesize := 0\<rparr>))"
  proof -
    have b: "u64_le v = word_of_nat (unat v) # le_bytes 7 (unat v div 256)" for v
      using le_bytes.simps(2)[of 7 "unat v"] by (simp add: u64_le_def)
    have "10 + 256 * x \<noteq> 256 * y" for x y :: nat by presburger
    then have "le_val (u64_le 10 @ r) \<noteq> le_val (u64_le 0 @ r)" for r by (simp add: b)
    then have "show_nat (le_val (u64_le 10 @ r)) \<noteq> show_nat (le_val (u64_le 0 @ r))" for r using digits_val_show_nat by metis
    then show ?thesis by (simp add: sample_wal_def offset_bytes_def hint_offset_def)
  qed
  obtain h' row where "persist_offset_hint ?env ''ns'' ''p'' 7 True ?h = (h', Some (Inr ()))"
    "republish_control ?env (KOffsetHint (OffsetHintKey ''ns'' ''p'')) row h'
        = (h', Some (Inl (Io ''corrupt offset payload: same WAL tuple with different hash'')))"
    using hint_republish_conflicts[OF env f, of "''ns''" "''p''" "CatalogSeq 1" 7 True ?off] h ids q fit pub sha hinted_store_view hinted_filesize
    by auto
  then show ?thesis by blast
qed

end
