(* ===== verification/Cdc_Connectors.thy ===== *)
theory Cdc_Connectors
  imports Cdc_Contracts
begin

text \<open>
  The capability tables of the built-in connectors (modules \<open>source_capabilities\<close> and
  \<open>sink_capabilities\<close> of \<^verbatim>\<open>src/src/plugins/cdc.rs\<close>), one constant per connector, and the
  lookup by connector kind. The lemmas evaluate the derivation of the effective guarantee over
  all pairs.
\<close>

section \<open>The built-in connectors\<close>

datatype DataSource =
    SrcAdRollAds | SrcAmqp | SrcAppleSearchAds | SrcBingWebmasterTools | SrcClickhouse | SrcDeltaLake
  | SrcDynamodb | SrcEventbridge | SrcFile | SrcGoogleAds | SrcGoogleAnalytics | SrcGooglePageSpeed
  | SrcGoogleSearchConsole | SrcHttpClient | SrcHttpServer | SrcHubspotCrm | SrcKafka | SrcKinesis
  | SrcLinkedInAds | SrcMetaAds | SrcMetaInstagramAds | SrcMongodb | SrcMotherduck | SrcMqtt
  | SrcMssql | SrcMysql | SrcOtlp | SrcPcap | SrcPostgres | SrcRedshift
  | SrcRevolutBusiness | SrcS3 | SrcSftp | SrcShopifyAdmin | SrcSns | SrcSocket
  | SrcSqs | SrcStatsd | SrcStdin | SrcStripe | SrcSumUp | SrcWebsocket
  | SrcXAds | SrcXeroAccounting

datatype DataSink =
    SnkAmqp | SnkAthena | SnkAthenaIceberg | SnkAzureBlob | SnkBigquery | SnkClickhouse
  | SnkDatabricks | SnkDuckdb | SnkFile | SnkGcs | SnkMotherduck | SnkPostgres
  | SnkRedshift | SnkS3 | SnkSftp | SnkSkipprLake | SnkSnowflake | SnkStdout
  | SnkSynapse

definition SRC_POSTGRES :: SourceCapability where
  "SRC_POSTGRES = \<lparr>
     src_name = ''Postgres'',
     src_guarantee_tier = SnapshotThenLogExactOnce,
     checkpoint_style = LogNative,
     bootstrap_style = AnchoredSnapshot,
     order_model = GlobalTotalOrder,
     supports_deletes = True,
     event_id_semantics = LogPosition\<rparr>"

definition SRC_MYSQL :: SourceCapability where
  "SRC_MYSQL = \<lparr>
     src_name = ''Mysql'',
     src_guarantee_tier = SnapshotThenLogExactOnce,
     checkpoint_style = LogNative,
     bootstrap_style = AnchoredSnapshot,
     order_model = GlobalTotalOrder,
     supports_deletes = True,
     event_id_semantics = LogPosition\<rparr>"

definition SRC_MSSQL :: SourceCapability where
  "SRC_MSSQL = \<lparr>
     src_name = ''Mssql'',
     src_guarantee_tier = IncrementalOnly,
     checkpoint_style = NoCheckpoint,
     bootstrap_style = FullScan,
     order_model = UnsupportedForFinalState,
     supports_deletes = False,
     event_id_semantics = NoEventId\<rparr>"

definition SRC_MONGODB :: SourceCapability where
  "SRC_MONGODB = \<lparr>
     src_name = ''Mongodb'',
     src_guarantee_tier = SnapshotThenLogExactOnce,
     checkpoint_style = LogNative,
     bootstrap_style = AnchoredSnapshot,
     order_model = StableKeyScopedOrder,
     supports_deletes = True,
     event_id_semantics = LogPosition\<rparr>"

definition SRC_DYNAMODB :: SourceCapability where
  "SRC_DYNAMODB = \<lparr>
     src_name = ''Dynamodb'',
     src_guarantee_tier = SnapshotThenLogExactOnce,
     checkpoint_style = LogNative,
     bootstrap_style = AnchoredSnapshot,
     order_model = StableKeyScopedOrder,
     supports_deletes = True,
     event_id_semantics = LogPosition\<rparr>"

definition SRC_DELTA_LAKE :: SourceCapability where
  "SRC_DELTA_LAKE = \<lparr>
     src_name = ''DeltaLake'',
     src_guarantee_tier = SnapshotThenLogExactOnce,
     checkpoint_style = LogNative,
     bootstrap_style = AnchoredSnapshot,
     order_model = GlobalTotalOrder,
     supports_deletes = True,
     event_id_semantics = LogPosition\<rparr>"

definition SRC_KAFKA :: SourceCapability where
  "SRC_KAFKA = \<lparr>
     src_name = ''Kafka'',
     src_guarantee_tier = LogStreamExactOnce,
     checkpoint_style = LogNative,
     bootstrap_style = StreamOnly,
     order_model = StableKeyScopedOrder,
     supports_deletes = True,
     event_id_semantics = LogPosition\<rparr>"

definition SRC_KINESIS :: SourceCapability where
  "SRC_KINESIS = \<lparr>
     src_name = ''Kinesis'',
     src_guarantee_tier = LogStreamExactOnce,
     checkpoint_style = LogNative,
     bootstrap_style = StreamOnly,
     order_model = StableKeyScopedOrder,
     supports_deletes = False,
     event_id_semantics = LogPosition\<rparr>"

definition SRC_SQS :: SourceCapability where
  "SRC_SQS = \<lparr>
     src_name = ''Sqs'',
     src_guarantee_tier = EventIdentityEligible,
     checkpoint_style = MessageIdentity,
     bootstrap_style = StreamOnly,
     order_model = UnsupportedForFinalState,
     supports_deletes = False,
     event_id_semantics = MessageId\<rparr>"

definition SRC_SNS :: SourceCapability where
  "SRC_SNS = \<lparr>
     src_name = ''Sns'',
     src_guarantee_tier = EventIdentityEligible,
     checkpoint_style = MessageIdentity,
     bootstrap_style = StreamOnly,
     order_model = UnsupportedForFinalState,
     supports_deletes = False,
     event_id_semantics = MessageId\<rparr>"

definition SRC_EVENTBRIDGE :: SourceCapability where
  "SRC_EVENTBRIDGE = \<lparr>
     src_name = ''Eventbridge'',
     src_guarantee_tier = EventIdentityEligible,
     checkpoint_style = MessageIdentity,
     bootstrap_style = StreamOnly,
     order_model = UnsupportedForFinalState,
     supports_deletes = False,
     event_id_semantics = MessageId\<rparr>"

definition SRC_FILE :: SourceCapability where
  "SRC_FILE = \<lparr>
     src_name = ''File'',
     src_guarantee_tier = IncrementalOnly,
     checkpoint_style = ObjectIdentity,
     bootstrap_style = FullScan,
     order_model = UnsupportedForFinalState,
     supports_deletes = False,
     event_id_semantics = ObjectPath\<rparr>"

definition SRC_S3 :: SourceCapability where
  "SRC_S3 = \<lparr>
     src_name = ''S3'',
     src_guarantee_tier = IncrementalOnly,
     checkpoint_style = ObjectIdentity,
     bootstrap_style = FullScan,
     order_model = UnsupportedForFinalState,
     supports_deletes = False,
     event_id_semantics = ObjectPath\<rparr>"

definition SRC_SFTP :: SourceCapability where
  "SRC_SFTP = \<lparr>
     src_name = ''Sftp'',
     src_guarantee_tier = IncrementalOnly,
     checkpoint_style = ObjectIdentity,
     bootstrap_style = FullScan,
     order_model = UnsupportedForFinalState,
     supports_deletes = False,
     event_id_semantics = ObjectPath\<rparr>"

definition SRC_HTTP_CLIENT :: SourceCapability where
  "SRC_HTTP_CLIENT = \<lparr>
     src_name = ''HttpClient'',
     src_guarantee_tier = IncrementalOnly,
     checkpoint_style = CursorBased,
     bootstrap_style = FullScan,
     order_model = UnsupportedForFinalState,
     supports_deletes = False,
     event_id_semantics = NoEventId\<rparr>"

definition SRC_CLICKHOUSE :: SourceCapability where
  "SRC_CLICKHOUSE = \<lparr>
     src_name = ''Clickhouse'',
     src_guarantee_tier = IncrementalOnly,
     checkpoint_style = CursorBased,
     bootstrap_style = FullScan,
     order_model = UnsupportedForFinalState,
     supports_deletes = False,
     event_id_semantics = NoEventId\<rparr>"

definition SRC_REDSHIFT :: SourceCapability where
  "SRC_REDSHIFT = \<lparr>
     src_name = ''Redshift'',
     src_guarantee_tier = IncrementalOnly,
     checkpoint_style = CursorBased,
     bootstrap_style = FullScan,
     order_model = UnsupportedForFinalState,
     supports_deletes = False,
     event_id_semantics = NoEventId\<rparr>"

definition SRC_MOTHERDUCK :: SourceCapability where
  "SRC_MOTHERDUCK = \<lparr>
     src_name = ''Motherduck'',
     src_guarantee_tier = IncrementalOnly,
     checkpoint_style = CursorBased,
     bootstrap_style = FullScan,
     order_model = UnsupportedForFinalState,
     supports_deletes = False,
     event_id_semantics = NoEventId\<rparr>"

definition SRC_AMQP :: SourceCapability where
  "SRC_AMQP = \<lparr>
     src_name = ''Amqp'',
     src_guarantee_tier = UserSuppliedIdentityOnly,
     checkpoint_style = MessageIdentity,
     bootstrap_style = StreamOnly,
     order_model = UnsupportedForFinalState,
     supports_deletes = False,
     event_id_semantics = UserSupplied\<rparr>"

definition SRC_MQTT :: SourceCapability where
  "SRC_MQTT = \<lparr>
     src_name = ''Mqtt'',
     src_guarantee_tier = UserSuppliedIdentityOnly,
     checkpoint_style = MessageIdentity,
     bootstrap_style = StreamOnly,
     order_model = UnsupportedForFinalState,
     supports_deletes = False,
     event_id_semantics = UserSupplied\<rparr>"

definition SRC_HTTP_SERVER :: SourceCapability where
  "SRC_HTTP_SERVER = \<lparr>
     src_name = ''HttpServer'',
     src_guarantee_tier = UserSuppliedIdentityOnly,
     checkpoint_style = NoCheckpoint,
     bootstrap_style = StreamOnly,
     order_model = UnsupportedForFinalState,
     supports_deletes = False,
     event_id_semantics = UserSupplied\<rparr>"

definition SRC_OTLP :: SourceCapability where
  "SRC_OTLP = \<lparr>
     src_name = ''Otlp'',
     src_guarantee_tier = UserSuppliedIdentityOnly,
     checkpoint_style = NoCheckpoint,
     bootstrap_style = StreamOnly,
     order_model = UnsupportedForFinalState,
     supports_deletes = False,
     event_id_semantics = UserSupplied\<rparr>"

definition SRC_WEBSOCKET :: SourceCapability where
  "SRC_WEBSOCKET = \<lparr>
     src_name = ''Websocket'',
     src_guarantee_tier = UserSuppliedIdentityOnly,
     checkpoint_style = NoCheckpoint,
     bootstrap_style = StreamOnly,
     order_model = UnsupportedForFinalState,
     supports_deletes = False,
     event_id_semantics = UserSupplied\<rparr>"

definition SRC_SOCKET :: SourceCapability where
  "SRC_SOCKET = \<lparr>
     src_name = ''Socket'',
     src_guarantee_tier = UserSuppliedIdentityOnly,
     checkpoint_style = NoCheckpoint,
     bootstrap_style = StreamOnly,
     order_model = UnsupportedForFinalState,
     supports_deletes = False,
     event_id_semantics = UserSupplied\<rparr>"

definition SRC_STDIN :: SourceCapability where
  "SRC_STDIN = \<lparr>
     src_name = ''Stdin'',
     src_guarantee_tier = SourceUnsupported,
     checkpoint_style = NoCheckpoint,
     bootstrap_style = NoBootstrap,
     order_model = UnsupportedForFinalState,
     supports_deletes = False,
     event_id_semantics = NoEventId\<rparr>"

definition SRC_STATSD :: SourceCapability where
  "SRC_STATSD = \<lparr>
     src_name = ''Statsd'',
     src_guarantee_tier = SourceUnsupported,
     checkpoint_style = NoCheckpoint,
     bootstrap_style = NoBootstrap,
     order_model = UnsupportedForFinalState,
     supports_deletes = False,
     event_id_semantics = NoEventId\<rparr>"

definition SRC_PCAP :: SourceCapability where
  "SRC_PCAP = \<lparr>
     src_name = ''Pcap'',
     src_guarantee_tier = SourceUnsupported,
     checkpoint_style = NoCheckpoint,
     bootstrap_style = NoBootstrap,
     order_model = UnsupportedForFinalState,
     supports_deletes = False,
     event_id_semantics = NoEventId\<rparr>"

fun source_by_kind :: "DataSource \<Rightarrow> SourceCapability option" where
  "source_by_kind SrcAdRollAds = None"
| "source_by_kind SrcAmqp = Some SRC_AMQP"
| "source_by_kind SrcAppleSearchAds = None"
| "source_by_kind SrcBingWebmasterTools = None"
| "source_by_kind SrcClickhouse = Some SRC_CLICKHOUSE"
| "source_by_kind SrcDeltaLake = Some SRC_DELTA_LAKE"
| "source_by_kind SrcDynamodb = Some SRC_DYNAMODB"
| "source_by_kind SrcEventbridge = Some SRC_EVENTBRIDGE"
| "source_by_kind SrcFile = Some SRC_FILE"
| "source_by_kind SrcGoogleAds = None"
| "source_by_kind SrcGoogleAnalytics = None"
| "source_by_kind SrcGooglePageSpeed = None"
| "source_by_kind SrcGoogleSearchConsole = None"
| "source_by_kind SrcHttpClient = Some SRC_HTTP_CLIENT"
| "source_by_kind SrcHttpServer = Some SRC_HTTP_SERVER"
| "source_by_kind SrcHubspotCrm = None"
| "source_by_kind SrcKafka = Some SRC_KAFKA"
| "source_by_kind SrcKinesis = Some SRC_KINESIS"
| "source_by_kind SrcLinkedInAds = None"
| "source_by_kind SrcMetaAds = None"
| "source_by_kind SrcMetaInstagramAds = None"
| "source_by_kind SrcMongodb = Some SRC_MONGODB"
| "source_by_kind SrcMotherduck = Some SRC_MOTHERDUCK"
| "source_by_kind SrcMqtt = Some SRC_MQTT"
| "source_by_kind SrcMssql = Some SRC_MSSQL"
| "source_by_kind SrcMysql = Some SRC_MYSQL"
| "source_by_kind SrcOtlp = Some SRC_OTLP"
| "source_by_kind SrcPcap = Some SRC_PCAP"
| "source_by_kind SrcPostgres = Some SRC_POSTGRES"
| "source_by_kind SrcRedshift = Some SRC_REDSHIFT"
| "source_by_kind SrcRevolutBusiness = None"
| "source_by_kind SrcS3 = Some SRC_S3"
| "source_by_kind SrcSftp = Some SRC_SFTP"
| "source_by_kind SrcShopifyAdmin = None"
| "source_by_kind SrcSns = Some SRC_SNS"
| "source_by_kind SrcSocket = Some SRC_SOCKET"
| "source_by_kind SrcSqs = Some SRC_SQS"
| "source_by_kind SrcStatsd = Some SRC_STATSD"
| "source_by_kind SrcStdin = Some SRC_STDIN"
| "source_by_kind SrcStripe = None"
| "source_by_kind SrcSumUp = None"
| "source_by_kind SrcWebsocket = Some SRC_WEBSOCKET"
| "source_by_kind SrcXAds = None"
| "source_by_kind SrcXeroAccounting = None"

definition SNK_POSTGRES :: SinkCapability where
  "SNK_POSTGRES = \<lparr>
     snk_name = ''Postgres'',
     max_sessions_per_child = 1,
     snk_guarantee_tier = ExactOnceCdcEligible,
     can_manage_skippr_columns = True,
     can_maintain_tombstone_tables = True,
     can_compare_order_tokens = True,
     supports_transactions = True,
     retry_semantics = FinalStateIdempotent,
     grouping_support = FinalStateBatches,
     supported_formats = [Native],
     default_format = None\<rparr>"

definition SNK_SNOWFLAKE :: SinkCapability where
  "SNK_SNOWFLAKE = \<lparr>
     snk_name = ''Snowflake'',
     max_sessions_per_child = 1,
     snk_guarantee_tier = ExactOnceCdcEligible,
     can_manage_skippr_columns = True,
     can_maintain_tombstone_tables = True,
     can_compare_order_tokens = True,
     supports_transactions = True,
     retry_semantics = FinalStateIdempotent,
     grouping_support = FinalStateBatches,
     supported_formats = [Native],
     default_format = None\<rparr>"

definition SNK_BIGQUERY :: SinkCapability where
  "SNK_BIGQUERY = \<lparr>
     snk_name = ''Bigquery'',
     max_sessions_per_child = 1,
     snk_guarantee_tier = ExactOnceCdcEligible,
     can_manage_skippr_columns = True,
     can_maintain_tombstone_tables = True,
     can_compare_order_tokens = True,
     supports_transactions = True,
     retry_semantics = FinalStateIdempotent,
     grouping_support = FinalStateBatches,
     supported_formats = [Native],
     default_format = None\<rparr>"

definition SNK_REDSHIFT :: SinkCapability where
  "SNK_REDSHIFT = \<lparr>
     snk_name = ''Redshift'',
     max_sessions_per_child = 1,
     snk_guarantee_tier = ExactOnceCdcEligible,
     can_manage_skippr_columns = True,
     can_maintain_tombstone_tables = True,
     can_compare_order_tokens = True,
     supports_transactions = True,
     retry_semantics = FinalStateIdempotent,
     grouping_support = FinalStateBatches,
     supported_formats = [Native],
     default_format = None\<rparr>"

definition SNK_DATABRICKS :: SinkCapability where
  "SNK_DATABRICKS = \<lparr>
     snk_name = ''Databricks'',
     max_sessions_per_child = 1,
     snk_guarantee_tier = ExactOnceCdcEligible,
     can_manage_skippr_columns = True,
     can_maintain_tombstone_tables = True,
     can_compare_order_tokens = True,
     supports_transactions = True,
     retry_semantics = FinalStateIdempotent,
     grouping_support = FinalStateBatches,
     supported_formats = [Native],
     default_format = None\<rparr>"

definition SNK_MOTHERDUCK :: SinkCapability where
  "SNK_MOTHERDUCK = \<lparr>
     snk_name = ''Motherduck'',
     max_sessions_per_child = 1,
     snk_guarantee_tier = ExactOnceCdcEligible,
     can_manage_skippr_columns = True,
     can_maintain_tombstone_tables = True,
     can_compare_order_tokens = True,
     supports_transactions = True,
     retry_semantics = FinalStateIdempotent,
     grouping_support = FinalStateBatches,
     supported_formats = [Native],
     default_format = None\<rparr>"

definition SNK_CLICKHOUSE :: SinkCapability where
  "SNK_CLICKHOUSE = \<lparr>
     snk_name = ''Clickhouse'',
     max_sessions_per_child = 1,
     snk_guarantee_tier = CdcEncodedOnly,
     can_manage_skippr_columns = True,
     can_maintain_tombstone_tables = True,
     can_compare_order_tokens = True,
     supports_transactions = False,
     retry_semantics = AtLeastOnce,
     grouping_support = CdcEncodedBatches,
     supported_formats = [Native],
     default_format = None\<rparr>"

definition SNK_SYNAPSE :: SinkCapability where
  "SNK_SYNAPSE = \<lparr>
     snk_name = ''Synapse'',
     max_sessions_per_child = 1,
     snk_guarantee_tier = ExactOnceCdcEligible,
     can_manage_skippr_columns = True,
     can_maintain_tombstone_tables = True,
     can_compare_order_tokens = True,
     supports_transactions = True,
     retry_semantics = FinalStateIdempotent,
     grouping_support = FinalStateBatches,
     supported_formats = [Native],
     default_format = None\<rparr>"

definition SNK_ATHENA :: SinkCapability where
  "SNK_ATHENA = \<lparr>
     snk_name = ''Athena'',
     max_sessions_per_child = 4,
     snk_guarantee_tier = CdcEncodedOnly,
     can_manage_skippr_columns = False,
     can_maintain_tombstone_tables = False,
     can_compare_order_tokens = False,
     supports_transactions = False,
     retry_semantics = DeterministicOverwrite,
     grouping_support = CdcEncodedBatches,
     supported_formats = [Parquet],
     default_format = Some Parquet\<rparr>"

definition SNK_SKIPPRLAKE :: SinkCapability where
  "SNK_SKIPPRLAKE = \<lparr>
     snk_name = ''SkipprLake'',
     max_sessions_per_child = 1,
     snk_guarantee_tier = ExactOnceCdcEligible,
     can_manage_skippr_columns = True,
     can_maintain_tombstone_tables = True,
     can_compare_order_tokens = True,
     supports_transactions = True,
     retry_semantics = TransactionalIdempotent,
     grouping_support = FinalStateBatches,
     supported_formats = [Native],
     default_format = None\<rparr>"

definition SNK_ATHENA_ICEBERG :: SinkCapability where
  "SNK_ATHENA_ICEBERG = \<lparr>
     snk_name = ''AthenaIceberg'',
     max_sessions_per_child = 1,
     snk_guarantee_tier = ExactOnceCdcEligible,
     can_manage_skippr_columns = True,
     can_maintain_tombstone_tables = True,
     can_compare_order_tokens = True,
     supports_transactions = True,
     retry_semantics = TransactionalIdempotent,
     grouping_support = FinalStateBatches,
     supported_formats = [Native],
     default_format = None\<rparr>"

definition SNK_DUCKDB :: SinkCapability where
  "SNK_DUCKDB = \<lparr>
     snk_name = ''Duckdb'',
     max_sessions_per_child = 1,
     snk_guarantee_tier = CdcEncodedOnly,
     can_manage_skippr_columns = False,
     can_maintain_tombstone_tables = False,
     can_compare_order_tokens = False,
     supports_transactions = True,
     retry_semantics = TransactionalIdempotent,
     grouping_support = FinalStateBatches,
     supported_formats = [Native],
     default_format = None\<rparr>"

definition SNK_S3 :: SinkCapability where
  "SNK_S3 = \<lparr>
     snk_name = ''S3'',
     max_sessions_per_child = 4,
     snk_guarantee_tier = CdcEncodedOnly,
     can_manage_skippr_columns = False,
     can_maintain_tombstone_tables = False,
     can_compare_order_tokens = False,
     supports_transactions = False,
     retry_semantics = DeterministicOverwrite,
     grouping_support = CdcEncodedBatches,
     supported_formats = [Parquet, Jsonl, Csv, Xml],
     default_format = Some Parquet\<rparr>"

definition SNK_GCS :: SinkCapability where
  "SNK_GCS = \<lparr>
     snk_name = ''Gcs'',
     max_sessions_per_child = 4,
     snk_guarantee_tier = CdcEncodedOnly,
     can_manage_skippr_columns = False,
     can_maintain_tombstone_tables = False,
     can_compare_order_tokens = False,
     supports_transactions = False,
     retry_semantics = DeterministicOverwrite,
     grouping_support = CdcEncodedBatches,
     supported_formats = [Parquet, Jsonl, Csv, Xml],
     default_format = Some Parquet\<rparr>"

definition SNK_AZURE_BLOB :: SinkCapability where
  "SNK_AZURE_BLOB = \<lparr>
     snk_name = ''AzureBlob'',
     max_sessions_per_child = 4,
     snk_guarantee_tier = CdcEncodedOnly,
     can_manage_skippr_columns = False,
     can_maintain_tombstone_tables = False,
     can_compare_order_tokens = False,
     supports_transactions = False,
     retry_semantics = DeterministicOverwrite,
     grouping_support = CdcEncodedBatches,
     supported_formats = [Parquet, Jsonl, Csv, Xml],
     default_format = Some Parquet\<rparr>"

definition SNK_FILE :: SinkCapability where
  "SNK_FILE = \<lparr>
     snk_name = ''File'',
     max_sessions_per_child = 4,
     snk_guarantee_tier = CdcEncodedOnly,
     can_manage_skippr_columns = False,
     can_maintain_tombstone_tables = False,
     can_compare_order_tokens = False,
     supports_transactions = False,
     retry_semantics = DeterministicOverwrite,
     grouping_support = CdcEncodedBatches,
     supported_formats = [Parquet, Jsonl, Csv, Xml],
     default_format = Some Parquet\<rparr>"

definition SNK_SFTP :: SinkCapability where
  "SNK_SFTP = \<lparr>
     snk_name = ''Sftp'',
     max_sessions_per_child = 4,
     snk_guarantee_tier = CdcEncodedOnly,
     can_manage_skippr_columns = False,
     can_maintain_tombstone_tables = False,
     can_compare_order_tokens = False,
     supports_transactions = False,
     retry_semantics = DeterministicOverwrite,
     grouping_support = CdcEncodedBatches,
     supported_formats = [Parquet, Jsonl, Csv, Xml],
     default_format = Some Parquet\<rparr>"

definition SNK_AMQP :: SinkCapability where
  "SNK_AMQP = \<lparr>
     snk_name = ''Amqp'',
     max_sessions_per_child = 4,
     snk_guarantee_tier = CdcEncodedOnly,
     can_manage_skippr_columns = False,
     can_maintain_tombstone_tables = False,
     can_compare_order_tokens = False,
     supports_transactions = False,
     retry_semantics = AtLeastOnce,
     grouping_support = CdcEncodedBatches,
     supported_formats = [Jsonl],
     default_format = Some Jsonl\<rparr>"

definition SNK_STDOUT :: SinkCapability where
  "SNK_STDOUT = \<lparr>
     snk_name = ''Stdout'',
     max_sessions_per_child = 4,
     snk_guarantee_tier = CdcEncodedOnly,
     can_manage_skippr_columns = False,
     can_maintain_tombstone_tables = False,
     can_compare_order_tokens = False,
     supports_transactions = False,
     retry_semantics = AtLeastOnce,
     grouping_support = CdcEncodedBatches,
     supported_formats = [Jsonl],
     default_format = Some Jsonl\<rparr>"

fun sink_by_kind :: "DataSink \<Rightarrow> SinkCapability option" where
  "sink_by_kind SnkAmqp = Some SNK_AMQP"
| "sink_by_kind SnkAthena = Some SNK_ATHENA"
| "sink_by_kind SnkAthenaIceberg = Some SNK_ATHENA_ICEBERG"
| "sink_by_kind SnkAzureBlob = Some SNK_AZURE_BLOB"
| "sink_by_kind SnkBigquery = Some SNK_BIGQUERY"
| "sink_by_kind SnkClickhouse = Some SNK_CLICKHOUSE"
| "sink_by_kind SnkDatabricks = Some SNK_DATABRICKS"
| "sink_by_kind SnkDuckdb = Some SNK_DUCKDB"
| "sink_by_kind SnkFile = Some SNK_FILE"
| "sink_by_kind SnkGcs = Some SNK_GCS"
| "sink_by_kind SnkMotherduck = Some SNK_MOTHERDUCK"
| "sink_by_kind SnkPostgres = Some SNK_POSTGRES"
| "sink_by_kind SnkRedshift = Some SNK_REDSHIFT"
| "sink_by_kind SnkS3 = Some SNK_S3"
| "sink_by_kind SnkSftp = Some SNK_SFTP"
| "sink_by_kind SnkSkipprLake = Some SNK_SKIPPRLAKE"
| "sink_by_kind SnkSnowflake = Some SNK_SNOWFLAKE"
| "sink_by_kind SnkStdout = Some SNK_STDOUT"
| "sink_by_kind SnkSynapse = Some SNK_SYNAPSE"

lemmas source_caps = SRC_POSTGRES_def SRC_MYSQL_def SRC_MSSQL_def SRC_MONGODB_def SRC_DYNAMODB_def SRC_DELTA_LAKE_def SRC_KAFKA_def SRC_KINESIS_def SRC_SQS_def SRC_SNS_def SRC_EVENTBRIDGE_def SRC_FILE_def SRC_S3_def SRC_SFTP_def SRC_HTTP_CLIENT_def SRC_CLICKHOUSE_def SRC_REDSHIFT_def SRC_MOTHERDUCK_def SRC_AMQP_def SRC_MQTT_def SRC_HTTP_SERVER_def SRC_OTLP_def SRC_WEBSOCKET_def SRC_SOCKET_def SRC_STDIN_def SRC_STATSD_def SRC_PCAP_def

lemmas sink_caps = SNK_POSTGRES_def SNK_SNOWFLAKE_def SNK_BIGQUERY_def SNK_REDSHIFT_def SNK_DATABRICKS_def SNK_MOTHERDUCK_def SNK_CLICKHOUSE_def SNK_SYNAPSE_def SNK_ATHENA_def SNK_SKIPPRLAKE_def SNK_ATHENA_ICEBERG_def SNK_DUCKDB_def SNK_S3_def SNK_GCS_def SNK_AZURE_BLOB_def SNK_FILE_def SNK_SFTP_def SNK_AMQP_def SNK_STDOUT_def


section \<open>Lemmas\<close>

lemma final_state_source_kinds:
  "source_by_kind k = Some s \<Longrightarrow>
     source_final_state s \<longleftrightarrow> k \<in> {SrcPostgres, SrcMysql, SrcMongodb, SrcDynamodb, SrcDeltaLake, SrcKafka, SrcKinesis}"
  by (cases k) (auto simp: source_caps source_final_state_def)

lemma final_state_sink_kinds:
  "sink_by_kind k = Some s \<Longrightarrow>
     sink_final_state s \<longleftrightarrow> k \<in> {SnkPostgres, SnkSnowflake, SnkBigquery, SnkRedshift, SnkDatabricks, SnkMotherduck,
       SnkSynapse, SnkSkipprLake, SnkAthenaIceberg}"
  by (cases k) (auto simp: sink_caps sink_final_state_def)

lemma cdc_sink_kinds: "sink_by_kind k = Some s \<Longrightarrow> sink_cdc s"
  by (cases k) (auto simp: sink_caps sink_cdc_def)

lemma cdc_source_kinds:
  "source_by_kind k = Some s \<Longrightarrow>
     source_cdc s \<longleftrightarrow> k \<in> {SrcPostgres, SrcMysql, SrcMongodb, SrcDynamodb, SrcDeltaLake, SrcKafka, SrcKinesis,
       SrcSqs, SrcSns, SrcEventbridge}"
  by (cases k) (auto simp: source_caps source_cdc_def)

section \<open>Properties\<close>



text \<open>The sink table is coherent: a sink that can be given exact-once final state is transactional
  and its grouped retries are exact-once; every sink groups batches, tolerates a retry, and
  resolves to some output format on an ingest pipeline when none is configured.\<close>

theorem sink_table_coherent:
  assumes "sink_by_kind j = Some t"
  shows "(\<not> sink_final_state t \<or> supports_transactions t \<and> grouped_writes_are_exact_once (retry_semantics t))
     \<and> \<not> grouping_is_none (grouping_support t) \<and> \<not> retry_equals (retry_semantics t) NonRetryable
     \<and> sink_resolve_format t None Ingest src = Inr (default_format t)
     \<and> 1 \<le> max_sessions_per_child t"
  using assms
  by (cases j)
    (auto simp: sink_caps sink_final_state_def sink_resolve_format_def resolve_output_format_def
      is_native_set_def is_native_def trimmed_setting_def choose_format_def)

theorem sink_table_coherent_witness:
  "sink_resolve_format SNK_S3 None Ingest None = Inr (Some Parquet)"
  using sink_table_coherent[of SnkS3 SNK_S3 None] by (simp add: SNK_S3_def)

end
