(* ===== verification/Ready_Queue.thy ===== *)
theory Ready_Queue
  imports Compaction_Txn
begin

text \<open>
  The closure-aware ready queue of the compaction planner
  (\<^verbatim>\<open>src/src/buffer/compaction_index.rs\<close>, up to \<open>impl ReadyQueue\<close>): keys, the per-segment
  queues with their cached heads, and insert, remove, update and peek. A \<open>BTreeSet\<close> is a set
  read through its minimum. Derived \<open>Ord\<close> instances are lexicographic in declaration order,
  which the \<open>linorder\<close> instances follow.

  The locale \<open>closure_queue\<close> is the contract the planner relies on; the interpretation
  \<open>rq\<close> shows that the cached-head implementation meets it.
\<close>

section \<open>Keys\<close>

datatype CompactionKind = KindAppend | KindCdc

datatype CompactionGroupKey = CompactionGroupKey
  (gk_sink_ref: string) (gk_namespace: string) (gk_partition: string) (gk_time: "i64 option")
  (gk_schema_fingerprint: string) (gk_kind: CompactionKind)

datatype CompactionLaneKey = CompactionLaneKey (lane_sink_ref: string) (lane_namespace: string)

definition group_lane :: "CompactionGroupKey \<Rightarrow> CompactionLaneKey" where
  "group_lane g = CompactionLaneKey (gk_sink_ref g) (gk_namespace g)"

datatype CompactionSliceId = CompactionSliceId
  (si_segment_id: string) (si_source_id: string) (si_start: u64) (si_len: u64)

definition slice_id_from_wal_ref :: "WalPartRef \<Rightarrow> CompactionSliceId" where
  "slice_id_from_wal_ref w =
     CompactionSliceId (wr_segment_id w) (stable_id (wr_source w)) (wr_start w) (wr_len w)"

record IndexedCompactionSlice =
  sl_id :: CompactionSliceId
  sl_group_key :: CompactionGroupKey
  sl_index_entry :: SegmentPartitionIndexEntry
  sl_wal_ref :: WalPartRef

datatype SegmentKey = SegmentKey (sk_segment_id: string) (sk_source_id: string)

definition segment_of :: "CompactionSliceId \<Rightarrow> SegmentKey" where
  "segment_of i = SegmentKey (si_segment_id i) (si_source_id i)"

definition slice_segment_key :: "IndexedCompactionSlice \<Rightarrow> SegmentKey" where
  "slice_segment_key s = SegmentKey (si_segment_id (sl_id s)) (si_source_id (sl_id s))"

datatype QueueSliceKey = QueueSliceKey (qk_updated_at_secs: u64) (qk_id: CompactionSliceId)

datatype QueueHead = QueueHead
  (qh_updated_at_secs: u64) (qh_segment_remaining: nat) (qh_segment: SegmentKey) (qh_id: CompactionSliceId)

section \<open>Derived orders\<close>

definition kind_tuple :: "CompactionKind \<Rightarrow> nat" where
  "kind_tuple k = (case k of KindAppend \<Rightarrow> 0 | KindCdc \<Rightarrow> 1)"

instantiation CompactionKind :: linorder
begin
definition less_eq_CompactionKind :: "CompactionKind \<Rightarrow> CompactionKind \<Rightarrow> bool" where
  "less_eq_CompactionKind x y \<longleftrightarrow> kind_tuple x \<le> kind_tuple y"
definition less_CompactionKind :: "CompactionKind \<Rightarrow> CompactionKind \<Rightarrow> bool" where
  "less_CompactionKind x y \<longleftrightarrow> kind_tuple x < kind_tuple y"
instance
  by standard (auto simp: less_eq_CompactionKind_def less_CompactionKind_def kind_tuple_def split: CompactionKind.splits)
end

definition group_tuple :: "CompactionGroupKey \<Rightarrow> string \<times> string \<times> string \<times> i64 option \<times> string \<times> CompactionKind" where
  "group_tuple g = (gk_sink_ref g, gk_namespace g, gk_partition g, gk_time g, gk_schema_fingerprint g, gk_kind g)"

lemma group_tuple_inj: "group_tuple x = group_tuple y \<longleftrightarrow> x = y"
  by (cases x; cases y) (simp add: group_tuple_def)

instantiation CompactionGroupKey :: linorder
begin
definition less_eq_CompactionGroupKey :: "CompactionGroupKey \<Rightarrow> CompactionGroupKey \<Rightarrow> bool" where
  "less_eq_CompactionGroupKey x y \<longleftrightarrow> group_tuple x \<le> group_tuple y"
definition less_CompactionGroupKey :: "CompactionGroupKey \<Rightarrow> CompactionGroupKey \<Rightarrow> bool" where
  "less_CompactionGroupKey x y \<longleftrightarrow> group_tuple x < group_tuple y"
instance
  by standard (auto simp: less_eq_CompactionGroupKey_def less_CompactionGroupKey_def less_le_not_le
      intro: order_trans dest: antisym simp flip: group_tuple_inj)
end

definition lane_tuple :: "CompactionLaneKey \<Rightarrow> string \<times> string" where
  "lane_tuple l = (lane_sink_ref l, lane_namespace l)"

lemma lane_tuple_inj: "lane_tuple x = lane_tuple y \<longleftrightarrow> x = y"
  by (cases x; cases y) (simp add: lane_tuple_def)

instantiation CompactionLaneKey :: linorder
begin
definition less_eq_CompactionLaneKey :: "CompactionLaneKey \<Rightarrow> CompactionLaneKey \<Rightarrow> bool" where
  "less_eq_CompactionLaneKey x y \<longleftrightarrow> lane_tuple x \<le> lane_tuple y"
definition less_CompactionLaneKey :: "CompactionLaneKey \<Rightarrow> CompactionLaneKey \<Rightarrow> bool" where
  "less_CompactionLaneKey x y \<longleftrightarrow> lane_tuple x < lane_tuple y"
instance
  by standard (auto simp: less_eq_CompactionLaneKey_def less_CompactionLaneKey_def less_le_not_le
      intro: order_trans dest: antisym simp flip: lane_tuple_inj)
end

definition slice_tuple :: "CompactionSliceId \<Rightarrow> string \<times> string \<times> u64 \<times> u64" where
  "slice_tuple i = (si_segment_id i, si_source_id i, si_start i, si_len i)"

lemma slice_tuple_inj: "slice_tuple x = slice_tuple y \<longleftrightarrow> x = y"
  by (cases x; cases y) (simp add: slice_tuple_def)

instantiation CompactionSliceId :: linorder
begin
definition less_eq_CompactionSliceId :: "CompactionSliceId \<Rightarrow> CompactionSliceId \<Rightarrow> bool" where
  "less_eq_CompactionSliceId x y \<longleftrightarrow> slice_tuple x \<le> slice_tuple y"
definition less_CompactionSliceId :: "CompactionSliceId \<Rightarrow> CompactionSliceId \<Rightarrow> bool" where
  "less_CompactionSliceId x y \<longleftrightarrow> slice_tuple x < slice_tuple y"
instance
  by standard (auto simp: less_eq_CompactionSliceId_def less_CompactionSliceId_def less_le_not_le
      intro: order_trans dest: antisym simp flip: slice_tuple_inj)
end

definition segkey_tuple :: "SegmentKey \<Rightarrow> string \<times> string" where
  "segkey_tuple s = (sk_segment_id s, sk_source_id s)"

lemma segkey_tuple_inj: "segkey_tuple x = segkey_tuple y \<longleftrightarrow> x = y"
  by (cases x; cases y) (simp add: segkey_tuple_def)

instantiation SegmentKey :: linorder
begin
definition less_eq_SegmentKey :: "SegmentKey \<Rightarrow> SegmentKey \<Rightarrow> bool" where
  "less_eq_SegmentKey x y \<longleftrightarrow> segkey_tuple x \<le> segkey_tuple y"
definition less_SegmentKey :: "SegmentKey \<Rightarrow> SegmentKey \<Rightarrow> bool" where
  "less_SegmentKey x y \<longleftrightarrow> segkey_tuple x < segkey_tuple y"
instance
  by standard (auto simp: less_eq_SegmentKey_def less_SegmentKey_def less_le_not_le
      intro: order_trans dest: antisym simp flip: segkey_tuple_inj)
end

definition qkey_tuple :: "QueueSliceKey \<Rightarrow> u64 \<times> CompactionSliceId" where
  "qkey_tuple k = (qk_updated_at_secs k, qk_id k)"

lemma qkey_tuple_inj: "qkey_tuple x = qkey_tuple y \<longleftrightarrow> x = y"
  by (cases x; cases y) (simp add: qkey_tuple_def)

instantiation QueueSliceKey :: linorder
begin
definition less_eq_QueueSliceKey :: "QueueSliceKey \<Rightarrow> QueueSliceKey \<Rightarrow> bool" where
  "less_eq_QueueSliceKey x y \<longleftrightarrow> qkey_tuple x \<le> qkey_tuple y"
definition less_QueueSliceKey :: "QueueSliceKey \<Rightarrow> QueueSliceKey \<Rightarrow> bool" where
  "less_QueueSliceKey x y \<longleftrightarrow> qkey_tuple x < qkey_tuple y"
instance
  by standard (auto simp: less_eq_QueueSliceKey_def less_QueueSliceKey_def less_le_not_le
      intro: order_trans dest: antisym simp flip: qkey_tuple_inj)
end

definition head_tuple :: "QueueHead \<Rightarrow> u64 \<times> nat \<times> SegmentKey \<times> CompactionSliceId" where
  "head_tuple h = (qh_updated_at_secs h, qh_segment_remaining h, qh_segment h, qh_id h)"

lemma head_tuple_inj: "head_tuple x = head_tuple y \<longleftrightarrow> x = y"
  by (cases x; cases y) (simp add: head_tuple_def)

instantiation QueueHead :: linorder
begin
definition less_eq_QueueHead :: "QueueHead \<Rightarrow> QueueHead \<Rightarrow> bool" where
  "less_eq_QueueHead x y \<longleftrightarrow> head_tuple x \<le> head_tuple y"
definition less_QueueHead :: "QueueHead \<Rightarrow> QueueHead \<Rightarrow> bool" where
  "less_QueueHead x y \<longleftrightarrow> head_tuple x < head_tuple y"
instance
  by standard (auto simp: less_eq_QueueHead_def less_QueueHead_def less_le_not_le
      intro: order_trans dest: antisym simp flip: head_tuple_inj)
end

section \<open>The queue\<close>

record SegmentReadyQueue =
  rq_slices :: "QueueSliceKey set"
  rq_head :: "QueueHead option"

record ReadyQueue =
  rq_segments :: "(SegmentKey, SegmentReadyQueue) fmap"
  rq_heads :: "QueueHead set"
  rq_len :: nat

definition rq_empty :: ReadyQueue where
  "rq_empty = \<lparr>rq_segments = fmempty, rq_heads = {}, rq_len = 0\<rparr>"

definition slice_queue_key :: "IndexedCompactionSlice \<Rightarrow> QueueSliceKey" where
  "slice_queue_key s = QueueSliceKey (ie_updated_at_secs (sl_index_entry s)) (sl_id s)"

definition rq_remove_head :: "SegmentKey \<Rightarrow> ReadyQueue \<Rightarrow> ReadyQueue" where
  "rq_remove_head seg q = (case fmlookup (rq_segments q) seg of
      None \<Rightarrow> q
    | Some sq \<Rightarrow> (case rq_head sq of
          None \<Rightarrow> q
        | Some old \<Rightarrow> q\<lparr>rq_segments := fmupd seg (sq\<lparr>rq_head := None\<rparr>) (rq_segments q),
                       rq_heads := rq_heads q - {old}\<rparr>))"

definition head_of :: "nat \<Rightarrow> SegmentKey \<Rightarrow> QueueSliceKey \<Rightarrow> QueueHead" where
  "head_of remaining seg k = QueueHead (qk_updated_at_secs k) remaining seg (qk_id k)"

definition rq_install_head :: "SegmentKey \<Rightarrow> nat \<Rightarrow> ReadyQueue \<Rightarrow> ReadyQueue" where
  "rq_install_head seg remaining q = (case fmlookup (rq_segments q) seg of
      None \<Rightarrow> q
    | Some sq \<Rightarrow>
        if rq_slices sq = {} then q
        else let head = head_of remaining seg (Min (rq_slices sq)) in
          q\<lparr>rq_heads := insert head (rq_heads q),
            rq_segments := fmupd seg (sq\<lparr>rq_head := Some head\<rparr>) (rq_segments q)\<rparr>)"

definition rq_add_slice :: "SegmentKey \<Rightarrow> QueueSliceKey \<Rightarrow> ReadyQueue \<Rightarrow> ReadyQueue" where
  "rq_add_slice seg k q =
     (let sq = (case fmlookup (rq_segments q) seg of Some sq \<Rightarrow> sq | None \<Rightarrow> \<lparr>rq_slices = {}, rq_head = None\<rparr>)
      in q\<lparr>rq_segments := fmupd seg (sq\<lparr>rq_slices := insert k (rq_slices sq)\<rparr>) (rq_segments q),
           rq_len := (if k \<in> rq_slices sq then rq_len q else rq_len q + 1)\<rparr>)"

definition rq_insert :: "IndexedCompactionSlice \<Rightarrow> nat \<Rightarrow> ReadyQueue \<Rightarrow> ReadyQueue" where
  "rq_insert sl remaining q = (let seg = slice_segment_key sl in
     rq_install_head seg remaining (rq_add_slice seg (slice_queue_key sl) (rq_remove_head seg q)))"

definition rq_remove :: "IndexedCompactionSlice \<Rightarrow> nat \<Rightarrow> ReadyQueue \<Rightarrow> ReadyQueue \<times> bool" where
  "rq_remove sl remaining q =
     (let seg = slice_segment_key sl; k = slice_queue_key sl; q1 = rq_remove_head seg q in
      case fmlookup (rq_segments q1) seg of
        None \<Rightarrow> (rq_install_head seg remaining q1, False)
      | Some sq \<Rightarrow>
          (let removed = (k \<in> rq_slices sq);
               sq' = sq\<lparr>rq_slices := rq_slices sq - {k}\<rparr>;
               q2 = q1\<lparr>rq_segments := fmupd seg sq' (rq_segments q1),
                       rq_len := (if removed then rq_len q1 - 1 else rq_len q1)\<rparr>
           in if rq_slices sq' = {} then (q2\<lparr>rq_segments := fmdrop seg (rq_segments q2)\<rparr>, removed)
              else (rq_install_head seg remaining q2, removed)))"

definition rq_update_segment_remaining :: "SegmentKey \<Rightarrow> nat \<Rightarrow> ReadyQueue \<Rightarrow> ReadyQueue" where
  "rq_update_segment_remaining seg remaining q =
     (if fmlookup (rq_segments q) seg = None then q
      else rq_install_head seg remaining (rq_remove_head seg q))"

definition rq_peek :: "ReadyQueue \<Rightarrow> QueueHead option" where
  "rq_peek q = (if rq_heads q = {} then None else Some (Min (rq_heads q)))"

definition rq_is_empty :: "ReadyQueue \<Rightarrow> bool" where
  "rq_is_empty q \<longleftrightarrow> rq_len q = 0"

section \<open>The contract of a closure-aware queue\<close>

text \<open>The content is a finite set of keys; the segment of a key is that of its slice id. The
  function \<open>rem\<close> gives the open slices of a segment, the second sort criterion.\<close>

definition key_head :: "(SegmentKey \<Rightarrow> nat) \<Rightarrow> QueueSliceKey \<Rightarrow> QueueHead" where
  "key_head rem k = head_of (rem (segment_of (qk_id k))) (segment_of (qk_id k)) k"

locale closure_queue =
  fixes emp :: "'q"
    and ins :: "IndexedCompactionSlice \<Rightarrow> nat \<Rightarrow> 'q \<Rightarrow> 'q"
    and del :: "IndexedCompactionSlice \<Rightarrow> nat \<Rightarrow> 'q \<Rightarrow> 'q \<times> bool"
    and upd :: "SegmentKey \<Rightarrow> nat \<Rightarrow> 'q \<Rightarrow> 'q"
    and peek :: "'q \<Rightarrow> QueueHead option"
    and isemp :: "'q \<Rightarrow> bool"
    and content :: "'q \<Rightarrow> QueueSliceKey set"
    and invar :: "(SegmentKey \<Rightarrow> nat) \<Rightarrow> 'q \<Rightarrow> bool"
  assumes emp_laws: "invar rem emp" "content emp = {}"
    and ins_laws: "invar rem q \<Longrightarrow> invar (rem(slice_segment_key s := r)) (ins s r q)"
      "invar rem q \<Longrightarrow> content (ins s r q) = insert (slice_queue_key s) (content q)"
    and del_laws: "invar rem q \<Longrightarrow> invar (rem(slice_segment_key s := r)) (fst (del s r q))"
      "invar rem q \<Longrightarrow> content (fst (del s r q)) = content q - {slice_queue_key s}"
      "invar rem q \<Longrightarrow> snd (del s r q) \<longleftrightarrow> slice_queue_key s \<in> content q"
    and upd_laws: "invar rem q \<Longrightarrow> invar (rem(seg := r)) (upd seg r q)"
      "invar rem q \<Longrightarrow> content (upd seg r q) = content q"
    and peek_law: "invar rem q \<Longrightarrow>
       peek q = (if content q = {} then None else Some (Min (key_head rem ` content q)))"
    and isemp_law: "invar rem q \<Longrightarrow> isemp q \<longleftrightarrow> content q = {}"
    and content_finite: "invar rem q \<Longrightarrow> finite (content q)"
    and invar_cong: "invar rem q \<Longrightarrow> (\<And>k. k \<in> content q \<Longrightarrow> rem' (segment_of (qk_id k)) = rem (segment_of (qk_id k)))
       \<Longrightarrow> invar rem' q"
begin

lemma peek_None_iff: "invar rem q \<Longrightarrow> peek q = None \<longleftrightarrow> isemp q"
  by (simp add: peek_law isemp_law)

lemma peek_Some:
  assumes "invar rem q" "peek q = Some h"
  shows "\<exists>k\<in>content q. h = key_head rem k" "\<And>k. k \<in> content q \<Longrightarrow> h \<le> key_head rem k"
proof -
  have h: "content q \<noteq> {}" "h = Min (key_head rem ` content q)"
    using assms by (auto simp: peek_law split: if_splits)
  have f: "finite (key_head rem ` content q)" using content_finite[OF assms(1)] by simp
  show "\<exists>k\<in>content q. h = key_head rem k" using Min_in[OF f] h by auto
  show "h \<le> key_head rem k" if "k \<in> content q" for k using Min_le[OF f] that h by auto
qed

lemma del_ins_content:
  "invar rem q \<Longrightarrow> content (fst (del s r (ins s r' q))) = content q - {slice_queue_key s}"
  using del_laws(2)[OF ins_laws(1)] ins_laws(2) by simp

end

section \<open>The implementation meets the contract\<close>

definition key_segment :: "QueueSliceKey \<Rightarrow> SegmentKey" where
  "key_segment k = segment_of (qk_id k)"

definition seg_keys :: "QueueSliceKey set \<Rightarrow> SegmentKey \<Rightarrow> QueueSliceKey set" where
  "seg_keys C seg = {k \<in> C. key_segment k = seg}"

definition seg_head :: "(SegmentKey \<Rightarrow> nat) \<Rightarrow> QueueSliceKey set \<Rightarrow> SegmentKey \<Rightarrow> QueueHead" where
  "seg_head rem C seg = head_of (rem seg) seg (Min (seg_keys C seg))"

definition rq_content :: "ReadyQueue \<Rightarrow> QueueSliceKey set" where
  "rq_content q = {k. \<exists>seg sq. fmlookup (rq_segments q) seg = Some sq \<and> k \<in> rq_slices sq}"

text \<open>A queue that represents the set \<open>C\<close> of keys, and one whose head at \<open>seg\<close> is taken out.\<close>

definition rq_rep :: "(SegmentKey \<Rightarrow> nat) \<Rightarrow> QueueSliceKey set \<Rightarrow> ReadyQueue \<Rightarrow> bool" where
  "rq_rep rem C q \<longleftrightarrow> finite C
     \<and> (\<forall>seg. fmlookup (rq_segments q) seg = (if seg_keys C seg = {} then None
          else Some \<lparr>rq_slices = seg_keys C seg, rq_head = Some (seg_head rem C seg)\<rparr>))
     \<and> rq_heads q = seg_head rem C ` key_segment ` C \<and> rq_len q = card C"

definition rq_hole :: "(SegmentKey \<Rightarrow> nat) \<Rightarrow> QueueSliceKey set \<Rightarrow> SegmentKey \<Rightarrow> ReadyQueue \<Rightarrow> bool" where
  "rq_hole rem C seg q \<longleftrightarrow> finite C
     \<and> (\<forall>s. fmlookup (rq_segments q) s = (if seg_keys C s = {} then None
          else Some \<lparr>rq_slices = seg_keys C s, rq_head = (if s = seg then None else Some (seg_head rem C s))\<rparr>))
     \<and> rq_heads q = seg_head rem C ` (key_segment ` C - {seg}) \<and> rq_len q = card C"

definition rq_invar :: "(SegmentKey \<Rightarrow> nat) \<Rightarrow> ReadyQueue \<Rightarrow> bool" where
  "rq_invar rem q \<longleftrightarrow> rq_rep rem (rq_content q) q"

lemma seg_keys_empty: "seg_keys C seg = {} \<longleftrightarrow> seg \<notin> key_segment ` C"
  by (auto simp: seg_keys_def)

lemma seg_keys_other:
  "key_segment k \<noteq> seg \<Longrightarrow> seg_keys (insert k C) seg = seg_keys C seg"
  "key_segment k \<noteq> seg \<Longrightarrow> seg_keys (C - {k}) seg = seg_keys C seg"
  by (auto simp: seg_keys_def)

lemma rq_rep_content: "rq_rep rem C q \<Longrightarrow> rq_content q = C"
  by (auto simp: rq_rep_def rq_content_def seg_keys_def split: if_splits)

lemma rq_rep_invar: "rq_rep rem C q \<Longrightarrow> rq_invar rem q"
  by (simp add: rq_invar_def rq_rep_content)

lemma seg_head_segment: "qh_segment (seg_head rem C seg) = seg"
  by (simp add: seg_head_def head_of_def)

lemma rq_remove_head_hole:
  assumes "rq_rep rem C q"
  shows "rq_hole rem C seg (rq_remove_head seg q)"
proof (cases "seg_keys C seg = {}")
  case True
  then have "key_segment ` C - {seg} = key_segment ` C" by (auto simp: seg_keys_empty)
  then show ?thesis using assms True unfolding rq_hole_def rq_rep_def by (auto simp: rq_remove_head_def)
next
  case False
  have "seg_head rem C ` key_segment ` C - {seg_head rem C seg} = seg_head rem C ` (key_segment ` C - {seg})"
    using seg_head_segment by (auto, metis)
  then show ?thesis using assms False unfolding rq_hole_def rq_rep_def by (simp add: rq_remove_head_def)
qed

lemma seg_head_upd: "s \<noteq> seg \<Longrightarrow> seg_head (rem(seg := r)) C s = seg_head rem C s"
  by (simp add: seg_head_def)

lemma rq_install_head_rep:
  assumes "rq_hole rem C seg q"
  shows "rq_rep (rem(seg := r)) C (rq_install_head seg r q)"
proof -
  have old: "seg_head (rem(seg := r)) C ` (key_segment ` C - {seg}) = seg_head rem C ` (key_segment ` C - {seg})"
    by (rule image_cong) (auto simp: seg_head_upd)
  have new: "seg_head (rem(seg := r)) C seg = head_of r seg (Min (seg_keys C seg))"
    by (simp add: seg_head_def)
  show ?thesis
  proof (cases "seg_keys C seg = {}")
    case True
    then have "key_segment ` C - {seg} = key_segment ` C" by (auto simp: seg_keys_empty)
    then show ?thesis using assms True old unfolding rq_hole_def rq_rep_def
      by (auto simp: rq_install_head_def seg_head_upd)
  next
    case False
    then have "seg \<in> key_segment ` C" by (simp add: seg_keys_empty)
    then have "seg_head (rem(seg := r)) C ` key_segment ` C
        = insert (head_of r seg (Min (seg_keys C seg))) (seg_head rem C ` (key_segment ` C - {seg}))"
      using old new by (metis image_insert insert_Diff)
    then show ?thesis using assms False new unfolding rq_hole_def rq_rep_def
      by (auto simp: rq_install_head_def Let_def seg_head_upd)
  qed
qed

lemma rq_add_slice_hole:
  assumes "rq_hole rem C seg q" "key_segment k = seg"
  shows "rq_hole rem (insert k C) seg (rq_add_slice seg k q)"
proof -
  have ins: "seg_keys (insert k C) seg = insert k (seg_keys C seg)" using assms(2) by (auto simp: seg_keys_def)
  have segs: "key_segment ` insert k C - {seg} = key_segment ` C - {seg}" using assms(2) by auto
  have same: "seg_head rem (insert k C) s = seg_head rem C s" if "s \<noteq> seg" for s
    using that assms(2) by (simp add: seg_head_def seg_keys_other)
  have heads: "seg_head rem (insert k C) ` (key_segment ` insert k C - {seg}) = seg_head rem C ` (key_segment ` C - {seg})"
    unfolding segs by (rule image_cong) (auto simp: same)
  have card: "card (insert k C) = (if k \<in> seg_keys C seg then card C else card C + 1)"
    using assms by (auto simp: seg_keys_def rq_hole_def card_insert_if)
  show ?thesis
    using assms unfolding rq_hole_def heads card
    by (auto simp: rq_add_slice_def Let_def ins same seg_keys_other)
qed

lemma rq_insert_rep:
  assumes "rq_rep rem C q"
  shows "rq_rep (rem(slice_segment_key s := r)) (insert (slice_queue_key s) C) (rq_insert s r q)"
proof -
  have "key_segment (slice_queue_key s) = slice_segment_key s"
    by (simp add: key_segment_def slice_queue_key_def slice_segment_key_def segment_of_def)
  then show ?thesis unfolding rq_insert_def Let_def
    by (intro rq_install_head_rep rq_add_slice_hole rq_remove_head_hole assms)
qed

lemma rq_update_rep:
  assumes "rq_rep rem C q"
  shows "rq_rep (rem(seg := r)) C (rq_update_segment_remaining seg r q)"
proof (cases "seg_keys C seg = {}")
  case True
  then have same: "seg_head (rem(seg := r)) C s = seg_head rem C s" if "seg_keys C s \<noteq> {}" for s
    using that by (intro seg_head_upd) auto
  have "seg_head (rem(seg := r)) C ` key_segment ` C = seg_head rem C ` key_segment ` C"
    by (rule image_cong) (simp_all add: same seg_keys_empty)
  then show ?thesis using assms True unfolding rq_rep_def
    by (simp add: rq_update_segment_remaining_def same)
next
  case False
  then have "fmlookup (rq_segments q) seg \<noteq> None" using assms by (simp add: rq_rep_def)
  then have "rq_update_segment_remaining seg r q = rq_install_head seg r (rq_remove_head seg q)"
    by (auto simp: rq_update_segment_remaining_def)
  then show ?thesis using rq_install_head_rep[OF rq_remove_head_hole[OF assms]] by simp
qed

lemma rq_hole_empty_rep:
  assumes "rq_hole rem C seg q" "seg_keys C seg = {}"
  shows "rq_rep (rem(seg := r)) C q"
  using rq_install_head_rep[OF assms(1), of r] assms
  by (simp add: rq_install_head_def rq_hole_def)

lemma rq_drop_hole:
  assumes "rq_hole rem C seg q" "key_segment k = seg" "fmlookup (rq_segments q) seg = Some sq"
    "q2 = q\<lparr>rq_segments := fmupd seg (sq\<lparr>rq_slices := rq_slices sq - {k}\<rparr>) (rq_segments q),
            rq_len := (if k \<in> rq_slices sq then rq_len q - 1 else rq_len q)\<rparr>"
  shows "rq_slices sq - {k} \<noteq> {} \<Longrightarrow> rq_hole rem (C - {k}) seg q2"
    and "rq_slices sq - {k} = {} \<Longrightarrow> rq_hole rem (C - {k}) seg (q2\<lparr>rq_segments := fmdrop seg (rq_segments q2)\<rparr>)"
    and "k \<in> rq_slices sq \<longleftrightarrow> k \<in> C"
proof -
  have sq: "rq_slices sq = seg_keys C seg" "rq_head sq = None"
    using assms(1,3) by (auto simp: rq_hole_def split: if_splits)
  show mem: "k \<in> rq_slices sq \<longleftrightarrow> k \<in> C" using sq assms(2) by (auto simp: seg_keys_def)
  have del: "seg_keys (C - {k}) seg = rq_slices sq - {k}" unfolding sq by (auto simp: seg_keys_def)
  have segs: "key_segment ` (C - {k}) - {seg} = key_segment ` C - {seg}" using assms(2) by auto
  have same: "seg_head rem (C - {k}) s = seg_head rem C s" if "s \<noteq> seg" for s
    using that assms(2) by (simp add: seg_head_def seg_keys_other)
  have heads: "seg_head rem (C - {k}) ` (key_segment ` (C - {k}) - {seg}) = seg_head rem C ` (key_segment ` C - {seg})"
    unfolding segs by (rule image_cong) (auto simp: same)
  have card: "card (C - {k}) = (if k \<in> rq_slices sq then card C - 1 else card C)"
    using mem assms(1) by (auto simp: rq_hole_def card_Diff_singleton_if)
  have sqe: "sq\<lparr>rq_slices := rq_slices sq - {k}\<rparr> = \<lparr>rq_slices = rq_slices sq - {k}, rq_head = None\<rparr>"
    using sq(2) by (cases sq) simp
  show "rq_slices sq - {k} \<noteq> {} \<Longrightarrow> rq_hole rem (C - {k}) seg q2"
    using assms(1,2) unfolding rq_hole_def heads card assms(4) sqe
    by (auto simp: del same seg_keys_other)
  show "rq_slices sq - {k} = {} \<Longrightarrow> rq_hole rem (C - {k}) seg (q2\<lparr>rq_segments := fmdrop seg (rq_segments q2)\<rparr>)"
    using assms(1,2) unfolding rq_hole_def heads card assms(4) sqe
    by (auto simp: del same seg_keys_other)
qed

lemma rq_remove_rep:
  assumes "rq_rep rem C q"
  shows "rq_rep (rem(slice_segment_key s := r)) (C - {slice_queue_key s}) (fst (rq_remove s r q))"
    and "snd (rq_remove s r q) \<longleftrightarrow> slice_queue_key s \<in> C"
proof -
  let ?seg = "slice_segment_key s" and ?k = "slice_queue_key s"
  let ?q1 = "rq_remove_head ?seg q"
  have seg: "key_segment ?k = ?seg"
    by (simp add: key_segment_def slice_queue_key_def slice_segment_key_def segment_of_def)
  note hole = rq_remove_head_hole[OF assms, of ?seg]
  have "rq_rep (rem(?seg := r)) (C - {?k}) (fst (rq_remove s r q)) \<and> (snd (rq_remove s r q) \<longleftrightarrow> ?k \<in> C)"
  proof (cases "fmlookup (rq_segments ?q1) ?seg")
    case None
    then have "seg_keys C ?seg = {}" using hole by (auto simp: rq_hole_def split: if_splits)
    then have "?k \<notin> C" "C - {?k} = C" using seg by (auto simp: seg_keys_def)
    then show ?thesis using rq_install_head_rep[OF hole, of r] None by (simp add: rq_remove_def Let_def)
  next
    case (Some sq)
    define q2 where "q2 = ?q1\<lparr>rq_segments := fmupd ?seg (sq\<lparr>rq_slices := rq_slices sq - {?k}\<rparr>) (rq_segments ?q1),
            rq_len := (if ?k \<in> rq_slices sq then rq_len ?q1 - 1 else rq_len ?q1)\<rparr>"
    note d = rq_drop_hole[OF hole seg Some q2_def]
    have r: "rq_remove s r q = (if rq_slices sq - {?k} = {} then (q2\<lparr>rq_segments := fmdrop ?seg (rq_segments q2)\<rparr>, ?k \<in> rq_slices sq)
        else (rq_install_head ?seg r q2, ?k \<in> rq_slices sq))"
      using Some by (simp add: rq_remove_def Let_def q2_def)
    show ?thesis
    proof (cases "rq_slices sq - {?k} = {}")
      case True
      have "rq_slices sq = seg_keys C ?seg" using hole Some by (auto simp: rq_hole_def split: if_splits)
      then have "seg_keys (C - {?k}) ?seg = {}" using True by (auto simp: seg_keys_def)
      then show ?thesis using r True d(2,3) rq_hole_empty_rep by simp
    next
      case False
      then show ?thesis using r d(1,3) rq_install_head_rep by simp
    qed
  qed
  then show "rq_rep (rem(?seg := r)) (C - {?k}) (fst (rq_remove s r q))" "snd (rq_remove s r q) \<longleftrightarrow> ?k \<in> C"
    by simp_all
qed

lemma seg_head_le:
  assumes "finite C" "k \<in> C"
  shows "seg_head rem C (key_segment k) \<le> key_head rem k"
proof -
  have "Min (seg_keys C (key_segment k)) \<le> k" using assms by (intro Min_le) (auto simp: seg_keys_def)
  then show ?thesis
    by (auto simp: seg_head_def key_head_def head_of_def key_segment_def less_eq_QueueHead_def head_tuple_def
        less_eq_QueueSliceKey_def qkey_tuple_def less_eq_prod_def)
qed

lemma seg_head_key:
  assumes "finite C" "seg \<in> key_segment ` C"
  shows "\<exists>k\<in>C. seg_head rem C seg = key_head rem k"
proof -
  have "Min (seg_keys C seg) \<in> seg_keys C seg"
    using assms by (intro Min_in) (auto simp: seg_keys_def)
  then show ?thesis
    by (intro bexI[of _ "Min (seg_keys C seg)"]) (auto simp: seg_keys_def seg_head_def key_head_def key_segment_def)
qed

lemma rq_peek_rep:
  assumes "rq_rep rem C q"
  shows "rq_peek q = (if C = {} then None else Some (Min (key_head rem ` C)))"
proof -
  have f: "finite C" and h: "rq_heads q = seg_head rem C ` key_segment ` C" using assms by (auto simp: rq_rep_def)
  have "Min (seg_head rem C ` key_segment ` C) = Min (key_head rem ` C)" if "C \<noteq> {}"
  proof (rule antisym)
    show "Min (seg_head rem C ` key_segment ` C) \<le> Min (key_head rem ` C)"
      using f that by (auto intro!: Min.boundedI intro: Min_le_iff[THEN iffD2] seg_head_le)
    show "Min (key_head rem ` C) \<le> Min (seg_head rem C ` key_segment ` C)"
    proof (rule Min.boundedI)
      fix a assume "a \<in> seg_head rem C ` key_segment ` C"
      then obtain k where "k \<in> C" "a = key_head rem k" using seg_head_key[OF f] by blast
      then show "Min (key_head rem ` C) \<le> a" using f by auto
    qed (use f that in auto)
  qed
  then show ?thesis using h by (auto simp: rq_peek_def)
qed

lemma rq_rep_cong:
  assumes "rq_rep rem C q" "\<And>k. k \<in> C \<Longrightarrow> rem' (key_segment k) = rem (key_segment k)"
  shows "rq_rep rem' C q"
proof -
  have "seg_head rem' C seg = seg_head rem C seg" if "seg_keys C seg \<noteq> {}" for seg
    using that assms(2) by (auto simp: seg_head_def seg_keys_def)
  moreover from this have "seg_head rem' C ` key_segment ` C = seg_head rem C ` key_segment ` C"
    by (intro image_cong) (auto simp: seg_keys_empty)
  ultimately show ?thesis using assms(1) by (simp add: rq_rep_def)
qed

interpretation rq: closure_queue rq_empty rq_insert rq_remove rq_update_segment_remaining rq_peek rq_is_empty
  rq_content rq_invar
proof unfold_locales
  show "rq_content rq_empty = {}" by (simp add: rq_content_def rq_empty_def)
  then show "rq_invar rem rq_empty" for rem
    by (simp add: rq_invar_def rq_rep_def rq_empty_def seg_keys_def)
next
  fix rem q s r seg
  assume i: "rq_invar rem q"
  note rep = i[unfolded rq_invar_def]
  show "rq_invar (rem(slice_segment_key s := r)) (rq_insert s r q)"
    "rq_content (rq_insert s r q) = insert (slice_queue_key s) (rq_content q)"
    using rq_insert_rep[OF rep] rq_rep_invar rq_rep_content by blast+
  show "rq_invar (rem(slice_segment_key s := r)) (fst (rq_remove s r q))"
    "rq_content (fst (rq_remove s r q)) = rq_content q - {slice_queue_key s}"
    using rq_remove_rep(1)[OF rep] rq_rep_invar rq_rep_content by blast+
  show "snd (rq_remove s r q) \<longleftrightarrow> slice_queue_key s \<in> rq_content q" by (rule rq_remove_rep(2)[OF rep])
  show "rq_invar (rem(seg := r)) (rq_update_segment_remaining seg r q)"
    "rq_content (rq_update_segment_remaining seg r q) = rq_content q"
    using rq_update_rep[OF rep] rq_rep_invar rq_rep_content by blast+
  show "rq_peek q = (if rq_content q = {} then None else Some (Min (key_head rem ` rq_content q)))"
    by (rule rq_peek_rep[OF rep])
  show "finite (rq_content q)" "rq_is_empty q \<longleftrightarrow> rq_content q = {}"
    using rep by (auto simp: rq_rep_def rq_is_empty_def)
  show "rq_invar rem' q" if "\<And>k. k \<in> rq_content q \<Longrightarrow> rem' (segment_of (qk_id k)) = rem (segment_of (qk_id k))" for rem'
    using rq_rep_cong[OF rep, of rem'] that by (simp add: rq_invar_def key_segment_def)
qed

section \<open>Histories of queue operations\<close>

text \<open>The calls the planner makes on a queue, and the abstract queue: a set of keys and the
  number of open slices last announced for each segment.\<close>

datatype queue_op =
    OpInsert IndexedCompactionSlice nat
  | OpRemove IndexedCompactionSlice nat
  | OpUpdate SegmentKey nat

fun rq_apply :: "queue_op \<Rightarrow> ReadyQueue \<Rightarrow> ReadyQueue" where
  "rq_apply (OpInsert s r) q = rq_insert s r q"
| "rq_apply (OpRemove s r) q = fst (rq_remove s r q)"
| "rq_apply (OpUpdate seg r) q = rq_update_segment_remaining seg r q"

fun spec_content :: "queue_op \<Rightarrow> QueueSliceKey set \<Rightarrow> QueueSliceKey set" where
  "spec_content (OpInsert s r) C = insert (slice_queue_key s) C"
| "spec_content (OpRemove s r) C = C - {slice_queue_key s}"
| "spec_content (OpUpdate seg r) C = C"

fun spec_remaining :: "queue_op \<Rightarrow> (SegmentKey \<Rightarrow> nat) \<Rightarrow> SegmentKey \<Rightarrow> nat" where
  "spec_remaining (OpInsert s r) f = f(slice_segment_key s := r)"
| "spec_remaining (OpRemove s r) f = f(slice_segment_key s := r)"
| "spec_remaining (OpUpdate seg r) f = f(seg := r)"

lemma rq_apply_step:
  assumes "rq_invar f q"
  shows "rq_invar (spec_remaining p f) (rq_apply p q)" "rq_content (rq_apply p q) = spec_content p (rq_content q)"
  using rq.ins_laws[OF assms] rq.del_laws[OF assms] rq.upd_laws[OF assms] by (cases p; simp)+

lemma rq_fold_steps:
  "rq_invar f q \<Longrightarrow> rq_invar (fold spec_remaining ps f) (fold rq_apply ps q)
     \<and> rq_content (fold rq_apply ps q) = fold spec_content ps (rq_content q)"
proof (induction ps arbitrary: f q)
  case (Cons p ps)
  then show ?case using rq_apply_step[OF Cons.prems, of p] by simp
qed simp

lemma key_head_le_fields:
  "h \<le> key_head f k \<Longrightarrow> qh_updated_at_secs h < qk_updated_at_secs k
     \<or> qh_updated_at_secs h = qk_updated_at_secs k \<and> qh_segment_remaining h \<le> f (segment_of (qk_id k))"
  by (auto simp: key_head_def head_of_def less_eq_QueueHead_def head_tuple_def less_eq_prod_def)

text \<open>C31. The ready queue refines the abstract queue: after any sequence of insertions, removals
  and count updates from the empty queue, its length is the number of distinct keys it holds,
  removal reports exactly whether the slice was queued, and \<open>peek\<close> answers nothing exactly when
  it holds nothing and otherwise a held slice that no other held slice precedes: none is older,
  and among the equally old none belongs to a segment announced with fewer open slices.\<close>

theorem ready_queue_refines:
  "let q = fold rq_apply ps rq_empty; C = fold spec_content ps {}; f = fold spec_remaining ps (\<lambda>_. 0) in
     rq_len q = card C
     \<and> (snd (rq_remove s r q) \<longleftrightarrow> slice_queue_key s \<in> C)
     \<and> rq_peek q = (if C = {} then None else Some (Min (key_head f ` C)))
     \<and> (\<forall>h k. rq_peek q = Some h \<and> k \<in> C \<longrightarrow> qh_updated_at_secs h < qk_updated_at_secs k
          \<or> qh_updated_at_secs h = qk_updated_at_secs k \<and> qh_segment_remaining h \<le> f (segment_of (qk_id k)))"
proof -
  define q C f where d: "q = fold rq_apply ps rq_empty" "C = fold spec_content ps {}"
    "f = fold spec_remaining ps (\<lambda>_. 0)"
  have q: "rq_invar f q" "rq_content q = C"
    using rq_fold_steps[OF rq.emp_laws(1), where ps = ps and f = "\<lambda>_. 0"] rq.emp_laws(2) by (simp_all add: d)
  have "rq_len q = card C" using q by (simp add: rq_invar_def rq_rep_def)
  then show ?thesis unfolding d(1,2,3)[symmetric] Let_def
    using rq.del_laws(3)[OF q(1)] rq.peek_law[OF q(1)] rq.peek_Some(2)[OF q(1)] q(2) key_head_le_fields by blast
qed

abbreviation sample_slice :: "string \<Rightarrow> u64 \<Rightarrow> IndexedCompactionSlice" where
  "sample_slice seg start \<equiv> \<lparr>sl_id = slice_id_from_wal_ref (sample_wal_ref seg start),
     sl_group_key = CompactionGroupKey ''s'' ''n'' ''p'' None ''f'' KindAppend,
     sl_index_entry = \<lparr>ie_key = wr_key (sample_wal_ref seg start), ie_bytes = 8, ie_updated_at_secs = 5,
        ie_slice_ordinal = 0, ie_part_meta_start = 0, ie_part_meta_len = 0,
        ie_part_meta_summary = SummaryAppend, ie_codec = 0, ie_start = start, ie_len = 8\<rparr>,
     sl_wal_ref = sample_wal_ref seg start\<rparr>"

theorem ready_queue_refines_witness:
  "let a = sample_slice ''a'' 0; b = sample_slice ''b'' 8;
       q = fold rq_apply [OpInsert a 2, OpInsert b 1] rq_empty
   in rq_peek q = Some (head_of 1 (slice_segment_key b) (slice_queue_key b)) \<and> rq_len q = 2"
proof -
  let ?a = "sample_slice ''a'' 0" and ?b = "sample_slice ''b'' 8"
  have ne: "slice_queue_key ?a \<noteq> slice_queue_key ?b" "slice_segment_key ?a \<noteq> slice_segment_key ?b"
    by (simp_all add: slice_queue_key_def slice_segment_key_def slice_id_from_wal_ref_def)
  have le: "head_of 1 (slice_segment_key ?b) (slice_queue_key ?b) \<le> head_of 2 (slice_segment_key ?a) (slice_queue_key ?a)"
    by (simp add: head_of_def less_eq_QueueHead_def head_tuple_def less_eq_prod_def slice_queue_key_def)
  have seg: "segment_of (qk_id (slice_queue_key s)) = slice_segment_key s" for s
    by (simp add: slice_queue_key_def slice_segment_key_def segment_of_def)
  show ?thesis
    using ready_queue_refines[of "[OpInsert ?a 2, OpInsert ?b 1]" ?a 0] ne le
    by (simp add: Let_def key_head_def seg min_absorb1 min_absorb2)
qed

end
