(* ===== verification/Manifest_Index.thy ===== *)
theory Manifest_Index
  imports Ready_Queue
begin

text \<open>
  The manifest index of the compaction planner (\<^verbatim>\<open>src/src/buffer/compaction_index.rs\<close>, \<open>impl
  ManifestIndex\<close> and the functions beside it): the compaction transactions that are not yet
  acknowledged, the slices they fence, and the fair reservation of transactions to send. The
  \<open>HashMap\<close> of active counts is the list of its entries in any order; the result only adds
  them up.
\<close>

section \<open>State\<close>

record ManifestRecord =
  mr_txn :: CompactionTransaction
  mr_reserved :: bool

record ManifestIndex =
  mi_records :: "(string, ManifestRecord) fmap"
  mi_fences :: "(CompactionSliceId, string set) fmap"
  mi_lane_last_served :: "(CompactionLaneKey, u64) fmap"
  mi_service_ticket :: u64

record ReservedManifest =
  rm_txn :: CompactionTransaction
  rm_retried_stale :: bool
  rm_stale_age_secs :: u64

definition manifest_default :: ManifestIndex where
  "manifest_default = \<lparr>mi_records = fmempty, mi_fences = fmempty, mi_lane_last_served = fmempty,
     mi_service_ticket = 0\<rparr>"

definition mi_clear :: "ManifestIndex \<Rightarrow> ManifestIndex" where
  "mi_clear m = manifest_default"

definition is_fenced :: "CompactionSliceId \<Rightarrow> ManifestIndex \<Rightarrow> bool" where
  "is_fenced i m \<longleftrightarrow> fmlookup (mi_fences m) i \<noteq> None"

section \<open>Fences\<close>

definition add_fence :: "string \<Rightarrow> WalPartRef \<Rightarrow> ManifestIndex \<Rightarrow> ManifestIndex" where
  "add_fence tid w m = (let key = slice_id_from_wal_ref w;
       ids = (case fmlookup (mi_fences m) key of Some ids \<Rightarrow> ids | None \<Rightarrow> {})
     in m\<lparr>mi_fences := fmupd key (insert tid ids) (mi_fences m)\<rparr>)"

definition add_fences :: "string \<Rightarrow> WalPartRef list \<Rightarrow> ManifestIndex \<Rightarrow> ManifestIndex" where
  "add_fences tid refs m = fold (add_fence tid) refs m"

definition remove_fence :: "string \<Rightarrow> WalPartRef \<Rightarrow> ManifestIndex \<Rightarrow> ManifestIndex" where
  "remove_fence tid w m = (let key = slice_id_from_wal_ref w in
     case fmlookup (mi_fences m) key of
       None \<Rightarrow> m
     | Some ids \<Rightarrow>
         if ids - {tid} = {} then m\<lparr>mi_fences := fmdrop key (mi_fences m)\<rparr>
         else m\<lparr>mi_fences := fmupd key (ids - {tid}) (mi_fences m)\<rparr>)"

definition remove_fences :: "string \<Rightarrow> WalPartRef list \<Rightarrow> ManifestIndex \<Rightarrow> ManifestIndex" where
  "remove_fences tid refs m = fold (remove_fence tid) refs m"

section \<open>Upsert, remove, release\<close>

definition mi_upsert :: "CompactionTransaction \<Rightarrow> bool \<Rightarrow> ManifestIndex \<Rightarrow> ManifestIndex" where
  "mi_upsert txn reserve_if_new m = (let tid = ct_id txn;
       old = fmlookup (mi_records m) tid;
       reserved = (case old of Some r \<Rightarrow> mr_reserved r | None \<Rightarrow> reserve_if_new);
       m1 = (case old of
               None \<Rightarrow> m
             | Some r \<Rightarrow> remove_fences tid (ct_refs (mr_txn r)) (m\<lparr>mi_records := fmdrop tid (mi_records m)\<rparr>))
     in if ct_state txn = TxnAcked then m1
        else let m2 = add_fences tid (ct_refs txn) m1 in
          m2\<lparr>mi_records := fmupd tid \<lparr>mr_txn = txn, mr_reserved = reserved\<rparr> (mi_records m2)\<rparr>)"

definition mi_install :: "CompactionTransaction list \<Rightarrow> ManifestIndex \<Rightarrow> ManifestIndex" where
  "mi_install txns m = fold (\<lambda>txn. mi_upsert txn False) txns (mi_clear m)"

definition mi_remove :: "string \<Rightarrow> ManifestIndex \<Rightarrow> ManifestIndex \<times> CompactionSliceId list" where
  "mi_remove tid m = (case fmlookup (mi_records m) tid of
      None \<Rightarrow> (m, [])
    | Some r \<Rightarrow> (remove_fences tid (ct_refs (mr_txn r)) (m\<lparr>mi_records := fmdrop tid (mi_records m)\<rparr>),
                 map slice_id_from_wal_ref (ct_refs (mr_txn r))))"

definition mi_release :: "string \<Rightarrow> ManifestIndex \<Rightarrow> ManifestIndex" where
  "mi_release tid m = (case fmlookup (mi_records m) tid of
      None \<Rightarrow> m
    | Some r \<Rightarrow> m\<lparr>mi_records := fmupd tid (r\<lparr>mr_reserved := False\<rparr>) (mi_records m)\<rparr>)"

section \<open>Reservation\<close>

type_synonym active_counts = "(CompactionLaneKey \<times> nat) list"

definition active_counts_by_sink :: "active_counts \<Rightarrow> string \<Rightarrow> nat" where
  "active_counts_by_sink active sink = sum_list (map snd (filter (\<lambda>(lane, n). lane_sink_ref lane = sink) active))"

definition manifest_is_ready :: "CompactionTransaction \<Rightarrow> u64 \<Rightarrow> u64 \<Rightarrow> bool" where
  "manifest_is_ready txn now stale_secs = (case ct_state txn of
      TxnPending \<Rightarrow> True
    | TxnAcked \<Rightarrow> False
    | TxnSent \<Rightarrow> stale_secs \<le> sat_sub now (ct_updated_at_secs txn))"

definition txn_lane :: "CompactionTransaction \<Rightarrow> CompactionLaneKey" where
  "txn_lane txn = CompactionLaneKey (ct_sink_ref txn) (ct_namespace txn)"

definition manifest_eligible ::
  "u64 \<Rightarrow> u64 \<Rightarrow> nat \<Rightarrow> CompactionLaneKey set \<Rightarrow> (string \<Rightarrow> nat) \<Rightarrow> ManifestRecord \<Rightarrow> bool"
where
  "manifest_eligible now stale_secs per_sink blocked scheduled r \<longleftrightarrow>
     \<not> mr_reserved r \<and> manifest_is_ready (mr_txn r) now stale_secs
     \<and> txn_lane (mr_txn r) \<notin> blocked \<and> scheduled (ct_sink_ref (mr_txn r)) < per_sink"

definition manifest_rank ::
  "ManifestIndex \<Rightarrow> string \<times> ManifestRecord \<Rightarrow> u64 \<times> u64 \<times> u64 \<times> CompactionLaneKey \<times> string"
where
  "manifest_rank m = (\<lambda>(tid, r). let lane = txn_lane (mr_txn r) in
     ((case fmlookup (mi_lane_last_served m) lane of Some t \<Rightarrow> t | None \<Rightarrow> 0),
      ct_created_at_secs (mr_txn r), ct_updated_at_secs (mr_txn r), lane, tid))"

definition manifest_candidate ::
  "u64 \<Rightarrow> u64 \<Rightarrow> nat \<Rightarrow> CompactionLaneKey set \<Rightarrow> (string \<Rightarrow> nat) \<Rightarrow> ManifestIndex
    \<Rightarrow> (u64 \<times> u64 \<times> u64 \<times> CompactionLaneKey \<times> string) option"
where
  "manifest_candidate now stale_secs per_sink blocked scheduled m = iter_min (map (manifest_rank m)
     (filter (\<lambda>(tid, r). manifest_eligible now stale_secs per_sink blocked scheduled r) (btree_entries (mi_records m))))"

text \<open>What the loop body does with the chosen transaction. The second lookup of the source finds
  the record the candidate was computed from.\<close>

definition reserve_manifest :: "u64 \<Rightarrow> CompactionLaneKey \<Rightarrow> string \<Rightarrow> ManifestRecord \<Rightarrow> ManifestIndex \<Rightarrow> ManifestIndex \<times> ReservedManifest" where
  "reserve_manifest now lane tid r m = (let
       retried = (ct_state (mr_txn r) = TxnSent);
       age = (if retried then sat_sub now (ct_updated_at_secs (mr_txn r)) else 0);
       txn = (if retried then (mr_txn r)\<lparr>ct_state := TxnPending, ct_updated_at_secs := now\<rparr> else mr_txn r);
       ticket = sat_add (mi_service_ticket m) 1
     in (m\<lparr>mi_records := fmupd tid \<lparr>mr_txn = txn, mr_reserved = True\<rparr> (mi_records m),
           mi_service_ticket := ticket,
           mi_lane_last_served := fmupd lane ticket (mi_lane_last_served m)\<rparr>,
         \<lparr>rm_txn = txn, rm_retried_stale = retried, rm_stale_age_secs = age\<rparr>))"

function reserve_loop ::
  "nat \<Rightarrow> nat \<Rightarrow> u64 \<Rightarrow> u64 \<Rightarrow> CompactionLaneKey set \<Rightarrow> (string \<Rightarrow> nat) \<Rightarrow> ReservedManifest list
    \<Rightarrow> ManifestIndex \<Rightarrow> ManifestIndex \<times> ReservedManifest list"
where
  "reserve_loop limit per_sink now stale_secs blocked scheduled out m =
     (if limit \<le> length out then (m, out)
      else case manifest_candidate now stale_secs per_sink blocked scheduled m of
        None \<Rightarrow> (m, out)
      | Some (_, _, _, lane, tid) \<Rightarrow>
          (case fmlookup (mi_records m) tid of
             None \<Rightarrow> (m, out)
           | Some r \<Rightarrow>
              (let (m', res) = reserve_manifest now lane tid r m; sink = ct_sink_ref (mr_txn r)
               in reserve_loop limit per_sink now stale_secs blocked (scheduled(sink := scheduled sink + 1)) (out @ [res]) m')))"
  by pat_completeness auto
termination by (relation "measure (\<lambda>(limit, _, _, _, _, _, out, _). limit - length out)") auto

declare reserve_loop.simps [simp del]

definition reserve_ready ::
  "nat \<Rightarrow> nat \<Rightarrow> u64 \<Rightarrow> u64 \<Rightarrow> active_counts \<Rightarrow> CompactionLaneKey set \<Rightarrow> ManifestIndex \<Rightarrow> ManifestIndex \<times> ReservedManifest list"
where
  "reserve_ready limit per_sink now stale_secs active blocked m =
     reserve_loop limit per_sink now stale_secs blocked (active_counts_by_sink active) [] m"

definition ready_ref_count :: "u64 \<Rightarrow> u64 \<Rightarrow> ManifestIndex \<Rightarrow> nat" where
  "ready_ref_count now stale_secs m = sum_list (map (\<lambda>(tid, r). length (ct_refs (mr_txn r)))
     (filter (\<lambda>(tid, r). \<not> mr_reserved r \<and> manifest_is_ready (mr_txn r) now stale_secs) (btree_entries (mi_records m))))"

section \<open>Fences are the parts of live transactions\<close>

definition ref_ids :: "CompactionTransaction \<Rightarrow> CompactionSliceId set" where
  "ref_ids txn = slice_id_from_wal_ref ` set (ct_refs txn)"

definition fence_set :: "ManifestIndex \<Rightarrow> CompactionSliceId \<Rightarrow> string set" where
  "fence_set m i = (case fmlookup (mi_fences m) i of Some ids \<Rightarrow> ids | None \<Rightarrow> {})"

definition fences_ne :: "ManifestIndex \<Rightarrow> bool" where
  "fences_ne m \<longleftrightarrow> (\<forall>i. fmlookup (mi_fences m) i \<noteq> Some {})"

definition holders :: "ManifestIndex \<Rightarrow> CompactionSliceId \<Rightarrow> string set" where
  "holders m i = {tid. \<exists>r. fmlookup (mi_records m) tid = Some r \<and> i \<in> ref_ids (mr_txn r)}"

definition minv :: "ManifestIndex \<Rightarrow> bool" where
  "minv m \<longleftrightarrow> (\<forall>tid r. fmlookup (mi_records m) tid = Some r \<longrightarrow> ct_id (mr_txn r) = tid \<and> ct_state (mr_txn r) \<noteq> TxnAcked)
     \<and> fences_ne m \<and> (\<forall>i. fence_set m i = holders m i)"

lemma fences_of_records [simp]:
  "fence_set (m\<lparr>mi_records := x\<rparr>) = fence_set m" "fences_ne (m\<lparr>mi_records := x\<rparr>) = fences_ne m"
  by (simp_all add: fence_set_def fences_ne_def fun_eq_iff)

lemma is_fenced_iff: "fences_ne m \<Longrightarrow> is_fenced i m \<longleftrightarrow> fence_set m i \<noteq> {}"
  by (auto simp: is_fenced_def fence_set_def fences_ne_def split: option.splits)

lemma minv_is_fenced: "minv m \<Longrightarrow> is_fenced i m \<longleftrightarrow> holders m i \<noteq> {}"
  by (simp add: minv_def is_fenced_iff)

lemma add_fence_effect:
  "fences_ne m \<Longrightarrow> fences_ne (add_fence t w m)"
  "fence_set (add_fence t w m) i = (if i = slice_id_from_wal_ref w then insert t (fence_set m i) else fence_set m i)"
  "mi_records (add_fence t w m) = mi_records m"
  by (auto simp: add_fence_def Let_def fences_ne_def fence_set_def)

lemma add_fences_effect:
  "fences_ne m \<Longrightarrow> fences_ne (add_fences t refs m)"
  "fence_set (add_fences t refs m) i = (if i \<in> slice_id_from_wal_ref ` set refs then insert t (fence_set m i) else fence_set m i)"
  "mi_records (add_fences t refs m) = mi_records m"
  unfolding add_fences_def by (induction refs arbitrary: m) (auto simp: add_fence_effect)

lemma remove_fence_effect:
  "fences_ne m \<Longrightarrow> fences_ne (remove_fence t w m)"
  "fence_set (remove_fence t w m) i = (if i = slice_id_from_wal_ref w then fence_set m i - {t} else fence_set m i)"
  "mi_records (remove_fence t w m) = mi_records m"
  by (auto simp: remove_fence_def Let_def fences_ne_def fence_set_def split: option.splits)

lemma remove_fences_effect:
  "fences_ne m \<Longrightarrow> fences_ne (remove_fences t refs m)"
  "fence_set (remove_fences t refs m) i = (if i \<in> slice_id_from_wal_ref ` set refs then fence_set m i - {t} else fence_set m i)"
  "mi_records (remove_fences t refs m) = mi_records m"
  unfolding remove_fences_def by (induction refs arbitrary: m) (auto simp: remove_fence_effect)

lemma minv_default [simp]: "minv manifest_default"
  by (simp add: minv_def manifest_default_def fences_ne_def fence_set_def holders_def)

lemma drop_record_minv:
  assumes "minv m" "fmlookup (mi_records m) tid = Some r"
  defines "m' \<equiv> remove_fences tid (ct_refs (mr_txn r)) (m\<lparr>mi_records := fmdrop tid (mi_records m)\<rparr>)"
  shows "minv m'" "mi_records m' = fmdrop tid (mi_records m)"
proof -
  have r: "mi_records m' = fmdrop tid (mi_records m)" by (simp add: m'_def remove_fences_effect)
  have ne: "fences_ne m'" using assms(1) by (simp add: m'_def minv_def remove_fences_effect)
  have "fence_set m' i = holders m' i" for i
  proof -
    have "fence_set m' i = (if i \<in> ref_ids (mr_txn r) then holders m i - {tid} else holders m i)"
      using assms(1) by (simp add: m'_def remove_fences_effect ref_ids_def minv_def)
    then show ?thesis using assms(2) r by (auto simp: holders_def)
  qed
  then show "minv m'" using assms(1) ne r by (auto simp: minv_def)
  show "mi_records m' = fmdrop tid (mi_records m)" by (rule r)
qed

lemma add_record_minv:
  fixes b :: bool
  assumes "minv m" "fmlookup (mi_records m) (ct_id txn) = None" "ct_state txn \<noteq> TxnAcked"
  defines "m' \<equiv> (let m2 = add_fences (ct_id txn) (ct_refs txn) m in
     m2\<lparr>mi_records := fmupd (ct_id txn) \<lparr>mr_txn = txn, mr_reserved = b\<rparr> (mi_records m2)\<rparr>)"
  shows "minv m'" "mi_records m' = fmupd (ct_id txn) \<lparr>mr_txn = txn, mr_reserved = b\<rparr> (mi_records m)"
proof -
  have f: "mi_fences m' = mi_fences (add_fences (ct_id txn) (ct_refs txn) m)"
    and r: "mi_records m' = fmupd (ct_id txn) \<lparr>mr_txn = txn, mr_reserved = b\<rparr> (mi_records m)"
    by (simp_all add: m'_def Let_def add_fences_effect)
  have fs: "fence_set m' i = fence_set (add_fences (ct_id txn) (ct_refs txn) m) i" for i
    using f by (simp add: fence_set_def)
  have ne: "fences_ne m'" using f add_fences_effect(1)[of m] assms(1) by (simp add: fences_ne_def minv_def)
  have "fence_set m' i = holders m' i" for i
    using assms(1,2) r by (auto simp: fs add_fences_effect minv_def holders_def ref_ids_def)
  then show "minv m'" using assms(1,3) ne r by (auto simp: minv_def)
  show "mi_records m' = fmupd (ct_id txn) \<lparr>mr_txn = txn, mr_reserved = b\<rparr> (mi_records m)" by (rule r)
qed

text \<open>The records after an upsert.\<close>

lemma mi_upsert_minv:
  assumes "minv m"
  shows "minv (mi_upsert txn b m)"
    "mi_records (mi_upsert txn b m) = (if ct_state txn = TxnAcked then fmdrop (ct_id txn) (mi_records m)
       else fmupd (ct_id txn) \<lparr>mr_txn = txn, mr_reserved = (case fmlookup (mi_records m) (ct_id txn) of
          Some r \<Rightarrow> mr_reserved r | None \<Rightarrow> b)\<rparr> (mi_records m))"
proof -
  define m1 where "m1 = (case fmlookup (mi_records m) (ct_id txn) of None \<Rightarrow> m
     | Some r \<Rightarrow> remove_fences (ct_id txn) (ct_refs (mr_txn r)) (m\<lparr>mi_records := fmdrop (ct_id txn) (mi_records m)\<rparr>))"
  have drop: "fmdrop (ct_id txn) (mi_records m) = mi_records m" if "fmlookup (mi_records m) (ct_id txn) = None"
    using that by (intro fmap_ext) auto
  have m1: "minv m1" "mi_records m1 = fmdrop (ct_id txn) (mi_records m)"
    using assms drop drop_record_minv[OF assms, of "ct_id txn"] by (auto simp: m1_def split: option.splits)
  have upd: "fmupd k v (fmdrop k f) = fmupd k v f" for k v and f :: "(string, ManifestRecord) fmap"
    by (intro fmap_ext) auto
  have e: "mi_upsert txn b m = (if ct_state txn = TxnAcked then m1 else
     let m2 = add_fences (ct_id txn) (ct_refs txn) m1 in
       m2\<lparr>mi_records := fmupd (ct_id txn) \<lparr>mr_txn = txn, mr_reserved = (case fmlookup (mi_records m) (ct_id txn) of
          Some r \<Rightarrow> mr_reserved r | None \<Rightarrow> b)\<rparr> (mi_records m2)\<rparr>)"
    by (simp add: mi_upsert_def m1_def Let_def)
  note a = add_record_minv[OF m1(1), where txn = txn]
  show "minv (mi_upsert txn b m)" unfolding e using m1 a(1) by simp
  show "mi_records (mi_upsert txn b m) = (if ct_state txn = TxnAcked then fmdrop (ct_id txn) (mi_records m)
       else fmupd (ct_id txn) \<lparr>mr_txn = txn, mr_reserved = (case fmlookup (mi_records m) (ct_id txn) of
          Some r \<Rightarrow> mr_reserved r | None \<Rightarrow> b)\<rparr> (mi_records m))"
    unfolding e using m1 a(2) by (simp add: upd)
qed

lemma mi_install_minv: "minv (mi_install txns m)"
  unfolding mi_install_def mi_clear_def
  by (rule fold_invariant[where Q = "\<lambda>_. True"]) (auto simp: mi_upsert_minv)

lemma mi_remove_minv: "minv m \<Longrightarrow> minv (fst (mi_remove tid m))"
  by (auto simp: mi_remove_def drop_record_minv split: option.split)

text \<open>An update of a record that keeps its parts, id and liveness keeps the invariant.\<close>

lemma record_update_minv:
  assumes "minv m" "fmlookup (mi_records m) tid = Some r" "ct_id (mr_txn r') = tid"
    "ct_state (mr_txn r') \<noteq> TxnAcked" "ct_refs (mr_txn r') = ct_refs (mr_txn r)"
    "mi_records m' = fmupd tid r' (mi_records m)" "mi_fences m' = mi_fences m"
  shows "minv m'"
proof -
  have h: "holders m' i = holders m i" for i using assms(2,5,6) by (auto simp: holders_def ref_ids_def)
  have f: "fence_set m' = fence_set m" "fences_ne m' = fences_ne m"
    using assms(7) by (simp_all add: fence_set_def fences_ne_def fun_eq_iff)
  show ?thesis using assms(1,3,4) unfolding minv_def h f assms(6) by simp
qed

lemma mi_release_minv: "minv m \<Longrightarrow> minv (mi_release tid m)"
proof (cases "fmlookup (mi_records m) tid")
  case (Some r)
  assume "minv m"
  moreover from this Some have "ct_id (mr_txn r) = tid" "ct_state (mr_txn r) \<noteq> TxnAcked" by (auto simp: minv_def)
  ultimately show ?thesis using Some
    by - (rule record_update_minv[of m tid r "r\<lparr>mr_reserved := False\<rparr>"], auto simp: mi_release_def)
qed (simp add: mi_release_def)

section \<open>Reservation is fair, bounded and work-conserving\<close>

lemma candidate_SomeD:
  assumes "manifest_candidate now stale per_sink blocked scheduled m = Some (a, b, c, lane, tid)"
  shows "\<exists>r. fmlookup (mi_records m) tid = Some r \<and> manifest_eligible now stale per_sink blocked scheduled r
     \<and> lane = txn_lane (mr_txn r)"
proof -
  from iter_min_SomeD[OF assms[unfolded manifest_candidate_def]]
  have "(a, b, c, lane, tid) \<in> manifest_rank m ` set (filter (\<lambda>(tid, r). manifest_eligible now stale per_sink blocked scheduled r) (btree_entries (mi_records m)))"
    by simp
  then show ?thesis by (auto simp: manifest_rank_def Let_def btree_entries_set)
qed

lemma candidate_None:
  "manifest_candidate now stale per_sink blocked scheduled m = None \<longleftrightarrow>
     (\<forall>tid r. fmlookup (mi_records m) tid = Some r \<longrightarrow> \<not> manifest_eligible now stale per_sink blocked scheduled r)"
  by (auto simp: manifest_candidate_def filter_empty_conv btree_entries_set)

definition res_id :: "ReservedManifest \<Rightarrow> string" where
  "res_id x = ct_id (rm_txn x)"

definition sink_count :: "ReservedManifest list \<Rightarrow> string \<Rightarrow> nat" where
  "sink_count out sink = length (filter (\<lambda>x. ct_sink_ref (rm_txn x) = sink) out)"

text \<open>A reservation that follows from the index before the call: the transaction was live, free,
  ready and in an open lane; what is returned is pending, with the same parts.\<close>

definition reserved_from :: "u64 \<Rightarrow> u64 \<Rightarrow> CompactionLaneKey set \<Rightarrow> ManifestIndex \<Rightarrow> ReservedManifest \<Rightarrow> bool" where
  "reserved_from now stale blocked m0 x \<longleftrightarrow> (\<exists>r. fmlookup (mi_records m0) (res_id x) = Some r \<and> \<not> mr_reserved r
     \<and> manifest_is_ready (mr_txn r) now stale \<and> txn_lane (mr_txn r) \<notin> blocked
     \<and> rm_retried_stale x = (ct_state (mr_txn r) = TxnSent)
     \<and> rm_txn x = (if rm_retried_stale x then (mr_txn r)\<lparr>ct_state := TxnPending, ct_updated_at_secs := now\<rparr> else mr_txn r))"

definition rsv_inv ::
  "u64 \<Rightarrow> u64 \<Rightarrow> nat \<Rightarrow> CompactionLaneKey set \<Rightarrow> (string \<Rightarrow> nat) \<Rightarrow> ManifestIndex \<Rightarrow> (string \<Rightarrow> nat) \<Rightarrow> ReservedManifest list \<Rightarrow> ManifestIndex \<Rightarrow> bool"
where
  "rsv_inv now stale per_sink blocked active m0 scheduled out m \<longleftrightarrow> minv m
     \<and> (\<forall>s. scheduled s = active s + sink_count out s \<and> scheduled s \<le> max per_sink (active s))
     \<and> distinct (map res_id out) \<and> (\<forall>x\<in>set out. reserved_from now stale blocked m0 x)
     \<and> (\<forall>x\<in>set out. fmlookup (mi_records m) (res_id x) = Some \<lparr>mr_txn = rm_txn x, mr_reserved = True\<rparr>)
     \<and> (\<forall>tid. tid \<notin> res_id ` set out \<longrightarrow> fmlookup (mi_records m) tid = fmlookup (mi_records m0) tid)"

lemma rsv_inv_start: "minv m \<Longrightarrow> rsv_inv now stale per_sink blocked active m active [] m"
  by (simp add: rsv_inv_def sink_count_def)

lemma rsv_inv_step:
  assumes inv: "rsv_inv now stale per_sink blocked active m0 scheduled out m"
    and r: "fmlookup (mi_records m) tid = Some r" "manifest_eligible now stale per_sink blocked scheduled r"
    and res: "reserve_manifest now lane tid r m = (m', x)"
  shows "rsv_inv now stale per_sink blocked active m0
     (scheduled(ct_sink_ref (mr_txn r) := scheduled (ct_sink_ref (mr_txn r)) + 1)) (out @ [x]) m'"
proof -
  have id: "ct_id (mr_txn r) = tid" "ct_state (mr_txn r) \<noteq> TxnAcked" using inv r(1) by (auto simp: rsv_inv_def minv_def)
  have free: "\<not> mr_reserved r" using r(2) by (simp add: manifest_eligible_def)
  then have new: "tid \<notin> res_id ` set out" using inv r(1) by (auto simp: rsv_inv_def)
  then have old: "fmlookup (mi_records m0) tid = Some r" using inv r(1) by (simp add: rsv_inv_def)
  have m': "mi_records m' = fmupd tid \<lparr>mr_txn = rm_txn x, mr_reserved = True\<rparr> (mi_records m)" "mi_fences m' = mi_fences m"
    and x: "rm_txn x = (if rm_retried_stale x then (mr_txn r)\<lparr>ct_state := TxnPending, ct_updated_at_secs := now\<rparr> else mr_txn r)"
      "rm_retried_stale x = (ct_state (mr_txn r) = TxnSent)"
    using res by (auto simp: reserve_manifest_def Let_def)
  have xid: "res_id x = tid" "ct_sink_ref (rm_txn x) = ct_sink_ref (mr_txn r)" using x id by (auto simp: res_id_def)
  have "minv m'"
    by (rule record_update_minv[OF _ r(1) _ _ _ m']) (use inv x id in \<open>auto simp: rsv_inv_def\<close>)
  moreover have from0: "reserved_from now stale blocked m0 x"
    using old r(2) x xid unfolding reserved_from_def manifest_eligible_def by auto
  moreover have "let sched = scheduled(ct_sink_ref (mr_txn r) := scheduled (ct_sink_ref (mr_txn r)) + 1)
      in sched s = active s + sink_count (out @ [x]) s \<and> sched s \<le> max per_sink (active s)" for s
  proof -
    have "scheduled s = active s + sink_count out s" "scheduled s \<le> max per_sink (active s)"
      using inv unfolding rsv_inv_def by blast+
    then show ?thesis using r(2) xid(2)
      by (cases "s = ct_sink_ref (mr_txn r)") (auto simp: sink_count_def manifest_eligible_def Let_def)
  qed
  moreover have "distinct (map res_id (out @ [x])) \<and> (\<forall>y\<in>set (out @ [x]). reserved_from now stale blocked m0 y)
     \<and> (\<forall>y\<in>set (out @ [x]). fmlookup (mi_records m') (res_id y) = Some \<lparr>mr_txn = rm_txn y, mr_reserved = True\<rparr>)
     \<and> (\<forall>tid. tid \<notin> res_id ` set (out @ [x]) \<longrightarrow> fmlookup (mi_records m') tid = fmlookup (mi_records m0) tid)"
    using inv new xid m'(1) from0 unfolding rsv_inv_def by auto
  ultimately show ?thesis unfolding rsv_inv_def Let_def by blast
qed

lemma reserve_loop_inv:
  assumes "rsv_inv now stale per_sink blocked active m0 scheduled out m" "length out \<le> limit"
    "reserve_loop limit per_sink now stale blocked scheduled out m = (m', out')"
  shows "\<exists>scheduled'. rsv_inv now stale per_sink blocked active m0 scheduled' out' m' \<and> length out' \<le> limit
     \<and> (length out' = limit \<or> manifest_candidate now stale per_sink blocked scheduled' m' = None)"
  using assms
proof (induction limit per_sink now stale blocked scheduled out m rule: reserve_loop.induct)
  case (1 limit per_sink now stale blocked scheduled out m)
  show ?case
  proof (cases "limit \<le> length out \<or> manifest_candidate now stale per_sink blocked scheduled m = None")
    case True
    then have "reserve_loop limit per_sink now stale blocked scheduled out m = (m, out)"
      by (auto simp: reserve_loop.simps[of limit per_sink now stale blocked scheduled out])
    then show ?thesis using True 1(2,3,4) by (intro exI[of _ scheduled]) auto
  next
    case False
    then obtain a b c lane tid where cand: "manifest_candidate now stale per_sink blocked scheduled m = Some (a, b, c, lane, tid)"
      by (cases "manifest_candidate now stale per_sink blocked scheduled m") auto
    from candidate_SomeD[OF this] obtain r
      where r: "fmlookup (mi_records m) tid = Some r" "manifest_eligible now stale per_sink blocked scheduled r" by blast
    obtain m1 x where res: "reserve_manifest now lane tid r m = (m1, x)" by force
    define sched where "sched = scheduled(ct_sink_ref (mr_txn r) := scheduled (ct_sink_ref (mr_txn r)) + 1)"
    have "reserve_loop limit per_sink now stale blocked scheduled out m = reserve_loop limit per_sink now stale blocked sched (out @ [x]) m1"
      using False cand r res by (simp add: reserve_loop.simps[of limit per_sink now stale blocked scheduled out] Let_def sched_def)
    then have loop: "reserve_loop limit per_sink now stale blocked sched (out @ [x]) m1 = (m', out')" using 1(4) by simp
    have "rsv_inv now stale per_sink blocked active m0 sched (out @ [x]) m1"
      unfolding sched_def by (rule rsv_inv_step[OF 1(2) r res])
    from 1(1)[OF _ cand refl refl refl refl r(1) res[symmetric] refl refl, folded sched_def, OF _ this _ loop] False
    show ?thesis by simp
  qed
qed

lemma reserve_ready_inv:
  assumes "minv m" "reserve_ready limit per_sink now stale active blocked m = (m', out)"
  shows "\<exists>scheduled. rsv_inv now stale per_sink blocked (active_counts_by_sink active) m scheduled out m'
     \<and> length out \<le> limit \<and> (length out = limit \<or> manifest_candidate now stale per_sink blocked scheduled m' = None)"
  using reserve_loop_inv[OF rsv_inv_start[OF assms(1)] _ assms(2)[unfolded reserve_ready_def]] by simp

lemma reserve_ready_minv: "minv m \<Longrightarrow> minv (fst (reserve_ready limit per_sink now stale active blocked m))"
  using reserve_ready_inv[of m limit per_sink now stale active blocked]
  by (cases "reserve_ready limit per_sink now stale active blocked m") (auto simp: rsv_inv_def)

section \<open>Histories\<close>

datatype manifest_op =
    MInstall "CompactionTransaction list"
  | MUpsert CompactionTransaction bool
  | MRemove string
  | MRelease string
  | MReserve nat nat u64 u64 active_counts "CompactionLaneKey set"

fun manifest_apply :: "manifest_op \<Rightarrow> ManifestIndex \<Rightarrow> ManifestIndex" where
  "manifest_apply (MInstall txns) m = mi_install txns m"
| "manifest_apply (MUpsert txn b) m = mi_upsert txn b m"
| "manifest_apply (MRemove tid) m = fst (mi_remove tid m)"
| "manifest_apply (MRelease tid) m = mi_release tid m"
| "manifest_apply (MReserve limit per_sink now stale active blocked) m =
     fst (reserve_ready limit per_sink now stale active blocked m)"

lemma manifest_history_minv: "minv m \<Longrightarrow> minv (fold manifest_apply ps m)"
proof (induction ps arbitrary: m)
  case (Cons p ps)
  then have "minv (manifest_apply p m)"
    by (cases p) (simp_all add: mi_install_minv mi_upsert_minv mi_remove_minv mi_release_minv reserve_ready_minv)
  then show ?case using Cons.IH by simp
qed simp

section \<open>Properties\<close>

text \<open>After any history of installs, upserts, removals, releases and reservations, a slice is
  fenced exactly when some live transaction refers to it, live transactions are stored under
  their own id, and none of them is acknowledged.\<close>

theorem manifest_fences_exact:
  "let m = fold manifest_apply ps manifest_default in
     (is_fenced i m \<longleftrightarrow> (\<exists>tid r. fmlookup (mi_records m) tid = Some r \<and> i \<in> ref_ids (mr_txn r)))
     \<and> (\<forall>tid r. fmlookup (mi_records m) tid = Some r \<longrightarrow> ct_id (mr_txn r) = tid \<and> ct_state (mr_txn r) \<noteq> TxnAcked)"
proof -
  have inv: "minv (fold manifest_apply ps manifest_default)" by (rule manifest_history_minv) simp
  then show ?thesis using minv_is_fenced[OF inv, of i] by (auto simp: Let_def minv_def holders_def)
qed

abbreviation sample_txn :: "string \<Rightarrow> string \<Rightarrow> CompactionTransaction" where
  "sample_txn tid seg \<equiv> \<lparr>ct_id = tid, ct_sink_ref = ''s'', ct_namespace = ''n'', ct_schema_fingerprint = ''f'',
     ct_write_policy = Append, ct_semantics = ExactOnce, ct_refs = [sample_wal_ref seg 0], ct_target_filename = ''t'',
     ct_created_at_secs = 1, ct_updated_at_secs = 2, ct_attempts = 0, ct_state = TxnPending\<rparr>"

theorem manifest_fences_exact_witness:
  "let m = fold manifest_apply [MUpsert (sample_txn ''x'' ''a'') False, MUpsert (sample_txn ''y'' ''a'') False, MRemove ''x''] manifest_default
   in is_fenced (slice_id_from_wal_ref (sample_wal_ref ''a'' 0)) m"
proof -
  let ?ps = "[MUpsert (sample_txn ''x'' ''a'') False, MUpsert (sample_txn ''y'' ''a'') False, MRemove ''x'']"
  let ?m = "fold manifest_apply ?ps manifest_default"
  have "fmlookup (mi_records ?m) ''y'' = Some \<lparr>mr_txn = sample_txn ''y'' ''a'', mr_reserved = False\<rparr>"
    by (simp add: mi_upsert_minv(2) mi_upsert_minv(1) mi_remove_def remove_fences_effect manifest_default_def[THEN arg_cong[where f = mi_records]])
  then show ?thesis
    using manifest_fences_exact[of ?ps "slice_id_from_wal_ref (sample_wal_ref ''a'' 0)"]
    unfolding Let_def by (force simp: ref_ids_def)
qed

text \<open>A reservation returns at most the asked number of distinct transactions; each was live, free,
  ready (pending, or sent and stale) and in an open lane, is returned as pending and is stored
  reserved; no sink gets more than its limit beyond what was active already; every other
  transaction is untouched; and the call only returns fewer than asked when no transaction is
  eligible any more.\<close>

theorem reserve_ready_spec:
  assumes "minv m" "reserve_ready limit per_sink now stale active blocked m = (m', out)"
  shows "length out \<le> limit \<and> distinct (map res_id out)
     \<and> (\<forall>x\<in>set out. reserved_from now stale blocked m x \<and> ct_state (rm_txn x) = TxnPending
          \<and> fmlookup (mi_records m') (res_id x) = Some \<lparr>mr_txn = rm_txn x, mr_reserved = True\<rparr>)
     \<and> (\<forall>s. active_counts_by_sink active s + sink_count out s \<le> max per_sink (active_counts_by_sink active s))
     \<and> (\<forall>tid. tid \<notin> res_id ` set out \<longrightarrow> fmlookup (mi_records m') tid = fmlookup (mi_records m) tid)
     \<and> (length out = limit \<or> (\<forall>tid r. fmlookup (mi_records m') tid = Some r \<longrightarrow>
          \<not> manifest_eligible now stale per_sink blocked (\<lambda>s. active_counts_by_sink active s + sink_count out s) r))"
proof -
  from reserve_ready_inv[OF assms] obtain sched where
    inv: "rsv_inv now stale per_sink blocked (active_counts_by_sink active) m sched out m'"
    and len: "length out \<le> limit" and fin: "length out = limit \<or> manifest_candidate now stale per_sink blocked sched m' = None"
    by blast
  note i = inv[unfolded rsv_inv_def]
  have s: "sched = (\<lambda>s. active_counts_by_sink active s + sink_count out s)" using i by blast
  have "ct_state (rm_txn x) = TxnPending" if "x \<in> set out" for x
  proof -
    from i that have "reserved_from now stale blocked m x" by blast
    then show ?thesis unfolding reserved_from_def
    proof (elim exE conjE)
      fix r assume "manifest_is_ready (mr_txn r) now stale" "rm_retried_stale x = (ct_state (mr_txn r) = TxnSent)"
        "rm_txn x = (if rm_retried_stale x then (mr_txn r)\<lparr>ct_state := TxnPending, ct_updated_at_secs := now\<rparr> else mr_txn r)"
      then show "ct_state (rm_txn x) = TxnPending" by (cases "ct_state (mr_txn r)") (simp_all add: manifest_is_ready_def)
    qed
  qed
  moreover have "active_counts_by_sink active s + sink_count out s \<le> max per_sink (active_counts_by_sink active s)" for s
    using i by metis
  ultimately show ?thesis using len fin[unfolded candidate_None s] i by blast
qed

theorem reserve_ready_spec_witness:
  "\<exists>m' out. reserve_ready 2 1 9 5 [] {} (mi_install [sample_txn ''x'' ''a'', sample_txn ''y'' ''b''] manifest_default) = (m', out)
     \<and> sink_count out ''s'' \<le> 1 \<and> length out \<le> 2"
proof -
  let ?m = "mi_install [sample_txn ''x'' ''a'', sample_txn ''y'' ''b''] manifest_default"
  obtain m' out where r: "reserve_ready 2 1 9 5 [] {} ?m = (m', out)" by force
  from reserve_ready_spec[OF mi_install_minv r] have "sink_count out ''s'' \<le> 1" "length out \<le> 2"
    by (auto simp: active_counts_by_sink_def dest!: spec[of _ "''s''"])
  with r show ?thesis by blast
qed

end
