(* ===== verification/Compaction_Index.thy ===== *)
theory Compaction_Index
  imports Manifest_Index
begin

text \<open>
  The compaction index (\<^verbatim>\<open>src/src/buffer/compaction_index.rs\<close>, \<open>impl CompactionIndex\<close>): every open
  slice of the WAL is waiting, ready, reserved or fenced; ready slices are queued per group and
  per lane; waiting slices are kept by age and by group until their group holds enough bytes or
  they are old enough. Conventions: the iteration order of a \<open>HashMap\<close> or \<open>HashSet\<close> is an
  argument of the operations that depend on it; the binary heap of waiting entries is the
  sorted list of its entries; \<open>usize\<close> counters are \<open>nat\<close>.
\<close>

section \<open>State\<close>

datatype SliceState = Waiting | Ready | Reserved | SFenced

record SliceRecord =
  sr_slice :: IndexedCompactionSlice
  sr_state :: SliceState
  sr_wait_generation :: u64

record SegmentState =
  ss_remaining :: nat
  ss_ids :: "CompactionSliceId set"
  ss_groups :: "CompactionGroupKey set"
  ss_lanes :: "CompactionLaneKey set"

record LaneState =
  ls_queue :: ReadyQueue
  ls_last_served :: u64

datatype WaitingEntry = WaitingEntry (we_eligible_at_secs: u64) (we_id: CompactionSliceId) (we_generation: u64)

definition waiting_tuple :: "WaitingEntry \<Rightarrow> u64 \<times> CompactionSliceId \<times> u64" where
  "waiting_tuple e = (we_eligible_at_secs e, we_id e, we_generation e)"

lemma waiting_tuple_inj: "waiting_tuple x = waiting_tuple y \<longleftrightarrow> x = y"
  by (cases x; cases y) (simp add: waiting_tuple_def)

instantiation WaitingEntry :: linorder
begin
definition less_eq_WaitingEntry :: "WaitingEntry \<Rightarrow> WaitingEntry \<Rightarrow> bool" where
  "less_eq_WaitingEntry x y \<longleftrightarrow> waiting_tuple x \<le> waiting_tuple y"
definition less_WaitingEntry :: "WaitingEntry \<Rightarrow> WaitingEntry \<Rightarrow> bool" where
  "less_WaitingEntry x y \<longleftrightarrow> waiting_tuple x < waiting_tuple y"
instance
  by standard (auto simp: less_eq_WaitingEntry_def less_WaitingEntry_def less_le_not_le
      intro: order_trans dest: antisym simp flip: waiting_tuple_inj)
end

record CompactionIndex =
  ci_slices :: "(CompactionSliceId, SliceRecord) fmap"
  ci_segments :: "(SegmentKey, SegmentState) fmap"
  ci_groups :: "(CompactionGroupKey, ReadyQueue) fmap"
  ci_lanes :: "(CompactionLaneKey, LaneState) fmap"
  ci_waiting :: "CompactionSliceId set"
  ci_waiting_by_age :: "WaitingEntry list"
  ci_waiting_ids_by_group :: "(CompactionGroupKey, CompactionSliceId set) fmap"
  ci_available_bytes_by_group :: "(CompactionGroupKey, u64) fmap"
  ci_available_counted :: "CompactionSliceId set"
  ci_force_only_ready :: "CompactionSliceId set"
  ci_ready_count :: nat
  ci_ready_group_count :: nat
  ci_byte_threshold :: "u64 option"
  ci_time_threshold_secs :: "u64 option"
  ci_service_ticket :: u64
  ci_manifests :: ManifestIndex
  ci_manifests_loaded :: bool

definition index_default :: CompactionIndex where
  "index_default = \<lparr>ci_slices = fmempty, ci_segments = fmempty, ci_groups = fmempty, ci_lanes = fmempty,
     ci_waiting = {}, ci_waiting_by_age = [], ci_waiting_ids_by_group = fmempty,
     ci_available_bytes_by_group = fmempty, ci_available_counted = {}, ci_force_only_ready = {},
     ci_ready_count = 0, ci_ready_group_count = 0, ci_byte_threshold = None, ci_time_threshold_secs = None,
     ci_service_ticket = 0, ci_manifests = manifest_default, ci_manifests_loaded = False\<rparr>"

definition clear_for_recovery :: "CompactionIndex \<Rightarrow> CompactionIndex" where
  "clear_for_recovery c = index_default"

text \<open>The order in which a hash map of slices and a hash set of segment names are iterated.\<close>

record hash_order =
  ho_slices :: "CompactionSliceId set \<Rightarrow> CompactionSliceId list"
  ho_names :: "string set \<Rightarrow> string list"

definition hash_order_ok :: "hash_order \<Rightarrow> bool" where
  "hash_order_ok ho \<longleftrightarrow> (\<forall>S. finite S \<longrightarrow> set (ho_slices ho S) = S \<and> distinct (ho_slices ho S))
     \<and> (\<forall>S. finite S \<longrightarrow> set (ho_names ho S) = S \<and> distinct (ho_names ho S))"

section \<open>Small accessors\<close>

abbreviation slice_rec :: "CompactionIndex \<Rightarrow> CompactionSliceId \<Rightarrow> SliceRecord option" where
  "slice_rec c i \<equiv> fmlookup (ci_slices c) i"

definition state_of :: "CompactionIndex \<Rightarrow> CompactionSliceId \<Rightarrow> SliceState option" where
  "state_of c i = map_option sr_state (slice_rec c i)"

definition set_state :: "SliceState \<Rightarrow> CompactionSliceId \<Rightarrow> CompactionIndex \<Rightarrow> CompactionIndex" where
  "set_state st i c = (case slice_rec c i of
      None \<Rightarrow> c
    | Some r \<Rightarrow> c\<lparr>ci_slices := fmupd i (r\<lparr>sr_state := st\<rparr>) (ci_slices c)\<rparr>)"

definition segment_remaining :: "SegmentKey \<Rightarrow> CompactionIndex \<Rightarrow> nat" where
  "segment_remaining seg c = (case fmlookup (ci_segments c) seg of Some s \<Rightarrow> ss_remaining s | None \<Rightarrow> 0)"

definition or_max :: "u64 option \<Rightarrow> u64" where
  "or_max x = (case x of Some v \<Rightarrow> v | None \<Rightarrow> - 1)"

definition group_available_bytes :: "CompactionGroupKey \<Rightarrow> CompactionIndex \<Rightarrow> u64" where
  "group_available_bytes g c = (case fmlookup (ci_available_bytes_by_group c) g of Some b \<Rightarrow> b | None \<Rightarrow> 0)"

definition set_available_bytes :: "CompactionSliceId \<Rightarrow> bool \<Rightarrow> CompactionIndex \<Rightarrow> CompactionIndex" where
  "set_available_bytes i on c = (case slice_rec c i of
      None \<Rightarrow> c
    | Some r \<Rightarrow>
       (let g = sl_group_key (sr_slice r); b = ie_bytes (sl_index_entry (sr_slice r));
            counted = (i \<in> ci_available_counted c)
        in if on \<and> \<not> counted then
             c\<lparr>ci_available_bytes_by_group := fmupd g (sat_add (group_available_bytes g c) b) (ci_available_bytes_by_group c),
               ci_available_counted := insert i (ci_available_counted c)\<rparr>
           else if \<not> on \<and> counted then
             (let nxt = sat_sub (group_available_bytes g c) b in
              c\<lparr>ci_available_bytes_by_group := (if nxt = 0 then fmdrop g (ci_available_bytes_by_group c)
                   else fmupd g nxt (ci_available_bytes_by_group c)),
                ci_available_counted := ci_available_counted c - {i}\<rparr>)
           else c))"

definition forget_waiting_id :: "CompactionSliceId \<Rightarrow> CompactionIndex \<Rightarrow> CompactionIndex" where
  "forget_waiting_id i c = (case slice_rec c i of
      None \<Rightarrow> c
    | Some r \<Rightarrow>
       (let g = sl_group_key (sr_slice r) in
        case fmlookup (ci_waiting_ids_by_group c) g of
          None \<Rightarrow> c
        | Some ids \<Rightarrow> c\<lparr>ci_waiting_ids_by_group :=
            (if ids - {i} = {} then fmdrop g (ci_waiting_ids_by_group c)
             else fmupd g (ids - {i}) (ci_waiting_ids_by_group c))\<rparr>))"

section \<open>Moving one slice\<close>

definition set_waiting :: "CompactionSliceId \<Rightarrow> CompactionIndex \<Rightarrow> CompactionIndex" where
  "set_waiting i c = (let c0 = c\<lparr>ci_force_only_ready := ci_force_only_ready c - {i}\<rparr> in
     case slice_rec c0 i of
       None \<Rightarrow> c0
     | Some r \<Rightarrow>
        (let gen = sat_add (sr_wait_generation r) 1; g = sl_group_key (sr_slice r);
             eligible = sat_add (ie_updated_at_secs (sl_index_entry (sr_slice r))) (or_max (ci_time_threshold_secs c));
             ids = (case fmlookup (ci_waiting_ids_by_group c0) g of Some ids \<Rightarrow> ids | None \<Rightarrow> {});
             c1 = c0\<lparr>ci_slices := fmupd i (r\<lparr>sr_state := Waiting, sr_wait_generation := gen\<rparr>) (ci_slices c0),
                     ci_waiting := insert i (ci_waiting c0),
                     ci_waiting_ids_by_group := fmupd g (insert i ids) (ci_waiting_ids_by_group c0)\<rparr>;
             c2 = set_available_bytes i True c1
         in c2\<lparr>ci_waiting_by_age := insort (WaitingEntry eligible i gen) (ci_waiting_by_age c2)\<rparr>))"

text \<open>Entering and leaving the two queues of a slice.\<close>

definition lane_state :: "CompactionLaneKey \<Rightarrow> CompactionIndex \<Rightarrow> LaneState" where
  "lane_state l c = (case fmlookup (ci_lanes c) l of Some s \<Rightarrow> s | None \<Rightarrow> \<lparr>ls_queue = rq_empty, ls_last_served = 0\<rparr>)"

definition group_queue :: "CompactionGroupKey \<Rightarrow> CompactionIndex \<Rightarrow> ReadyQueue" where
  "group_queue g c = (case fmlookup (ci_groups c) g of Some q \<Rightarrow> q | None \<Rightarrow> rq_empty)"

definition enqueue_ready :: "IndexedCompactionSlice \<Rightarrow> CompactionIndex \<Rightarrow> CompactionIndex" where
  "enqueue_ready sl c = (let rem = segment_remaining (slice_segment_key sl) c; g = sl_group_key sl;
       q = group_queue g c; q' = rq_insert sl rem q; l = group_lane g; ls = lane_state l c
     in c\<lparr>ci_groups := fmupd g q' (ci_groups c),
          ci_ready_group_count := (if rq_is_empty q \<and> \<not> rq_is_empty q' then ci_ready_group_count c + 1 else ci_ready_group_count c),
          ci_lanes := fmupd l (ls\<lparr>ls_queue := rq_insert sl rem (ls_queue ls)\<rparr>) (ci_lanes c),
          ci_ready_count := ci_ready_count c + 1\<rparr>)"

definition dequeue_ready :: "IndexedCompactionSlice \<Rightarrow> CompactionIndex \<Rightarrow> CompactionIndex" where
  "dequeue_ready sl c = (let rem = segment_remaining (slice_segment_key sl) c; g = sl_group_key sl; l = group_lane g;
       c1 = (case fmlookup (ci_groups c) g of
               None \<Rightarrow> c
             | Some q \<Rightarrow> (let q' = fst (rq_remove sl rem q) in
                 c\<lparr>ci_groups := fmupd g q' (ci_groups c),
                   ci_ready_group_count := (if \<not> rq_is_empty q \<and> rq_is_empty q' then ci_ready_group_count c - 1
                      else ci_ready_group_count c)\<rparr>));
       c2 = (case fmlookup (ci_lanes c1) l of
               None \<Rightarrow> c1
             | Some ls \<Rightarrow> c1\<lparr>ci_lanes := fmupd l (ls\<lparr>ls_queue := fst (rq_remove sl rem (ls_queue ls))\<rparr>) (ci_lanes c1)\<rparr>)
     in c2\<lparr>ci_ready_count := ci_ready_count c2 - 1\<rparr>)"

definition set_ready :: "CompactionSliceId \<Rightarrow> CompactionIndex \<Rightarrow> CompactionIndex" where
  "set_ready i c = (if state_of c i = Some Ready then c
     else let c1 = forget_waiting_id i c;
              c2 = c1\<lparr>ci_waiting := ci_waiting c1 - {i}, ci_force_only_ready := ci_force_only_ready c1 - {i}\<rparr>;
              c3 = set_available_bytes i True c2
          in case slice_rec c3 i of
               None \<Rightarrow> c3
             | Some r \<Rightarrow> set_state Ready i (enqueue_ready (sr_slice r) c3))"

definition remove_from_current_queue :: "CompactionSliceId \<Rightarrow> CompactionIndex \<Rightarrow> CompactionIndex" where
  "remove_from_current_queue i c = (let c0 = c\<lparr>ci_waiting := ci_waiting c - {i}\<rparr> in
     case slice_rec c0 i of
       None \<Rightarrow> c0
     | Some r \<Rightarrow> if sr_state r \<noteq> Ready then c0 else dequeue_ready (sr_slice r) c0)"

text \<open>The steps that take a slice out of every queue and count, shared by fencing, reserving and
  removing it.\<close>

definition withdraw :: "CompactionSliceId \<Rightarrow> CompactionIndex \<Rightarrow> CompactionIndex" where
  "withdraw i c = (let c1 = remove_from_current_queue i c;
       c2 = c1\<lparr>ci_force_only_ready := ci_force_only_ready c1 - {i}\<rparr>
     in set_available_bytes i False (forget_waiting_id i c2))"

definition set_fenced :: "CompactionSliceId \<Rightarrow> CompactionIndex \<Rightarrow> CompactionIndex" where
  "set_fenced i c = set_state SFenced i (withdraw i c)"

definition reserve_ready_slice :: "CompactionSliceId \<Rightarrow> CompactionIndex \<Rightarrow> CompactionIndex \<times> IndexedCompactionSlice option" where
  "reserve_ready_slice i c = (if state_of c i \<noteq> Some Ready then (c, None)
     else let c1 = withdraw i c in (set_state Reserved i c1, map_option sr_slice (slice_rec c1 i)))"

section \<open>Classification and promotion\<close>

definition promote_waiting_group :: "CompactionGroupKey \<Rightarrow> CompactionIndex \<Rightarrow> CompactionIndex" where
  "promote_waiting_group g c = (case fmlookup (ci_waiting_ids_by_group c) g of
      None \<Rightarrow> c
    | Some ids \<Rightarrow> fold set_ready (sorted_list_of_set ids) c)"

definition late_ready :: "u64 \<Rightarrow> IndexedCompactionSlice \<Rightarrow> CompactionIndex \<Rightarrow> bool" where
  "late_ready now sl c \<longleftrightarrow> or_max (ci_time_threshold_secs c) \<le> sat_sub now (ie_updated_at_secs (sl_index_entry sl))"

definition classify_available :: "u64 \<Rightarrow> CompactionSliceId \<Rightarrow> CompactionIndex \<Rightarrow> CompactionIndex" where
  "classify_available now i c = (if is_fenced i (ci_manifests c) then set_fenced i c
     else case slice_rec c i of
       None \<Rightarrow> c
     | Some r \<Rightarrow>
        (if late_ready now (sr_slice r) c then set_ready i c
         else let g = sl_group_key (sr_slice r);
                  c1 = (if i \<notin> ci_waiting c \<and> state_of c i \<noteq> Some Ready then set_waiting i c else c)
              in if or_max (ci_byte_threshold c1) \<le> group_available_bytes g c1 then promote_waiting_group g c1 else c1))"

definition reclassify :: "u64 \<Rightarrow> CompactionSliceId \<Rightarrow> CompactionIndex \<Rightarrow> CompactionIndex" where
  "reclassify now i c = classify_available now i (set_state Waiting i c)"

definition rebuild_available_queues :: "hash_order \<Rightarrow> u64 \<Rightarrow> CompactionIndex \<Rightarrow> CompactionIndex" where
  "rebuild_available_queues ho now c = (let
       c0 = c\<lparr>ci_groups := fmempty, ci_lanes := fmempty, ci_waiting := {}, ci_waiting_by_age := [],
              ci_waiting_ids_by_group := fmempty, ci_available_bytes_by_group := fmempty, ci_available_counted := {},
              ci_force_only_ready := {}, ci_ready_count := 0, ci_ready_group_count := 0\<rparr>;
       ids = filter (\<lambda>i. state_of c0 i \<in> {Some Waiting, Some Ready}) (ho_slices ho (fmdom' (ci_slices c0)))
     in fold (reclassify now) ids c0)"

definition configure_thresholds :: "hash_order \<Rightarrow> u64 \<Rightarrow> u64 \<Rightarrow> u64 \<Rightarrow> CompactionIndex \<Rightarrow> CompactionIndex" where
  "configure_thresholds ho byte_threshold time_threshold now c =
     (if ci_byte_threshold c = Some byte_threshold \<and> ci_time_threshold_secs c = Some time_threshold then c
      else rebuild_available_queues ho now
        (c\<lparr>ci_byte_threshold := Some byte_threshold, ci_time_threshold_secs := Some time_threshold\<rparr>))"

definition normal_eligible :: "CompactionSliceId \<Rightarrow> u64 \<Rightarrow> CompactionIndex \<Rightarrow> bool" where
  "normal_eligible i now c = (case slice_rec c i of
      None \<Rightarrow> False
    | Some r \<Rightarrow> late_ready now (sr_slice r) c
        \<or> or_max (ci_byte_threshold c) \<le> group_available_bytes (sl_group_key (sr_slice r)) c)"

definition promote_forced :: "u64 \<Rightarrow> CompactionSliceId \<Rightarrow> CompactionIndex \<Rightarrow> CompactionIndex" where
  "promote_forced now i c = (let normal = normal_eligible i now c; c1 = set_ready i c in
     if normal then c1 else c1\<lparr>ci_force_only_ready := insert i (ci_force_only_ready c1)\<rparr>)"

definition promote_all_waiting :: "u64 \<Rightarrow> CompactionIndex \<Rightarrow> CompactionIndex" where
  "promote_all_waiting now c = fold (promote_forced now) (sorted_list_of_set (ci_waiting c)) c"

definition demote_slice :: "u64 \<Rightarrow> CompactionSliceId \<Rightarrow> CompactionIndex \<Rightarrow> CompactionIndex" where
  "demote_slice now i c = (let c1 = remove_from_current_queue i c;
       c2 = c1\<lparr>ci_force_only_ready := ci_force_only_ready c1 - {i}\<rparr>
     in reclassify now i c2)"

definition demote_force_only :: "u64 \<Rightarrow> CompactionIndex \<Rightarrow> CompactionIndex" where
  "demote_force_only now c = fold (demote_slice now) (sorted_list_of_set (ci_force_only_ready c)) c"

definition mark_recovered_ready :: "CompactionIndex \<Rightarrow> CompactionIndex" where
  "mark_recovered_ready c = fold set_ready (sorted_list_of_set (ci_waiting c)) c"

lemma set_ready_by_age [simp]: "ci_waiting_by_age (set_ready i c) = ci_waiting_by_age c"
  by (simp add: set_ready_def Let_def forget_waiting_id_def set_available_bytes_def enqueue_ready_def set_state_def
      split: option.split)

function promote_due :: "u64 \<Rightarrow> CompactionIndex \<Rightarrow> CompactionIndex" where
  "promote_due now c = (case ci_waiting_by_age c of
      [] \<Rightarrow> c
    | e # es \<Rightarrow>
       (if now < we_eligible_at_secs e then c
        else let c1 = c\<lparr>ci_waiting_by_age := es\<rparr>;
                 valid = (case slice_rec c1 (we_id e) of
                    None \<Rightarrow> False
                  | Some r \<Rightarrow> sr_state r = Waiting \<and> sr_wait_generation r = we_generation e)
             in promote_due now (if valid then set_ready (we_id e) c1 else c1)))"
  by pat_completeness auto
termination
  by (relation "measure (\<lambda>(now, c). length (ci_waiting_by_age c))") (auto split: if_splits)

declare promote_due.simps [simp del]

section \<open>Removing slices and segments\<close>

definition update_group_remaining :: "SegmentKey \<Rightarrow> nat \<Rightarrow> CompactionGroupKey \<Rightarrow> CompactionIndex \<Rightarrow> CompactionIndex" where
  "update_group_remaining seg rem g c = (case fmlookup (ci_groups c) g of
      None \<Rightarrow> c
    | Some q \<Rightarrow> c\<lparr>ci_groups := fmupd g (rq_update_segment_remaining seg rem q) (ci_groups c)\<rparr>)"

definition update_lane_remaining :: "SegmentKey \<Rightarrow> nat \<Rightarrow> CompactionLaneKey \<Rightarrow> CompactionIndex \<Rightarrow> CompactionIndex" where
  "update_lane_remaining seg rem l c = (case fmlookup (ci_lanes c) l of
      None \<Rightarrow> c
    | Some ls \<Rightarrow> c\<lparr>ci_lanes := fmupd l (ls\<lparr>ls_queue := rq_update_segment_remaining seg rem (ls_queue ls)\<rparr>) (ci_lanes c)\<rparr>)"

definition remove_slice :: "CompactionSliceId \<Rightarrow> CompactionIndex \<Rightarrow> CompactionIndex \<times> bool" where
  "remove_slice i c = (case slice_rec c i of
      None \<Rightarrow> (c, False)
    | Some r \<Rightarrow>
       (let seg = slice_segment_key (sr_slice r);
            c1 = withdraw i c;
            c2 = c1\<lparr>ci_slices := fmdrop i (ci_slices c1)\<rparr>
        in case fmlookup (ci_segments c2) seg of
             None \<Rightarrow> (c2, True)
           | Some s \<Rightarrow>
              (let rem = ss_remaining s - 1;
                   s' = s\<lparr>ss_ids := ss_ids s - {i}, ss_remaining := rem\<rparr>;
                   c3 = c2\<lparr>ci_segments := fmupd seg s' (ci_segments c2)\<rparr>;
                   c4 = fold (update_group_remaining seg rem) (sorted_list_of_set (ss_groups s)) c3;
                   c5 = fold (update_lane_remaining seg rem) (sorted_list_of_set (ss_lanes s)) c4
               in (if rem = 0 then c5\<lparr>ci_segments := fmdrop seg (ci_segments c5)\<rparr> else c5, True))))"

definition remove_slices :: "CompactionSliceId list \<Rightarrow> CompactionIndex \<Rightarrow> CompactionIndex \<times> nat" where
  "remove_slices ids c = fold (\<lambda>i (c, n). let (c', removed) = remove_slice i c in (c', if removed then n + 1 else n)) ids (c, 0)"

definition remove_segment :: "string \<Rightarrow> CompactionIndex \<Rightarrow> CompactionIndex" where
  "remove_segment segment_id c = fst (remove_slices (concat (map (\<lambda>(k, s). sorted_list_of_set (ss_ids s))
     (filter (\<lambda>(k, s). sk_segment_id k = segment_id) (btree_entries (ci_segments c))))) c)"

definition drop_segments_not_in :: "hash_order \<Rightarrow> string set \<Rightarrow> CompactionIndex \<Rightarrow> CompactionIndex" where
  "drop_segments_not_in ho live c =
     fold remove_segment (ho_names ho (sk_segment_id ` fmdom' (ci_segments c) - live)) c"

definition complete_ordinals :: "hash_order \<Rightarrow> string \<Rightarrow> u32 list \<Rightarrow> CompactionIndex \<Rightarrow> CompactionIndex \<times> nat" where
  "complete_ordinals ho segment_id ordinals c = (if ordinals = [] then (c, 0)
     else remove_slices (map (\<lambda>i. sl_id (sr_slice (the (slice_rec c i))))
       (filter (\<lambda>i. case slice_rec c i of
            None \<Rightarrow> False
          | Some r \<Rightarrow> si_segment_id (sl_id (sr_slice r)) = segment_id
              \<and> ie_slice_ordinal (sl_index_entry (sr_slice r)) \<in> set ordinals)
         (ho_slices ho (fmdom' (ci_slices c))))) c)"

definition complete_refs :: "WalPartRef list \<Rightarrow> CompactionIndex \<Rightarrow> CompactionIndex \<times> nat" where
  "complete_refs refs c = remove_slices (map slice_id_from_wal_ref refs) c"

section \<open>Registering a segment\<close>

definition register_slice :: "IndexedCompactionSlice \<Rightarrow> SegmentState \<times> CompactionIndex \<Rightarrow> SegmentState \<times> CompactionIndex" where
  "register_slice sl = (\<lambda>(seg, c). if slice_rec c (sl_id sl) \<noteq> None then (seg, c)
     else (\<lparr>ss_remaining = ss_remaining seg + 1, ss_ids = insert (sl_id sl) (ss_ids seg),
            ss_groups = insert (sl_group_key sl) (ss_groups seg),
            ss_lanes = insert (group_lane (sl_group_key sl)) (ss_lanes seg)\<rparr>,
           c\<lparr>ci_slices := fmupd (sl_id sl)
               \<lparr>sr_slice = sl, sr_state = (if is_fenced (sl_id sl) (ci_manifests c) then SFenced else Waiting),
                sr_wait_generation = 0\<rparr> (ci_slices c)\<rparr>))"

definition classify_new :: "u64 \<Rightarrow> CompactionSliceId \<Rightarrow> CompactionIndex \<Rightarrow> CompactionIndex" where
  "classify_new now i c = (if state_of c i = Some Waiting then classify_available now i c else c)"

definition register_segment ::
  "hash_order \<Rightarrow> string \<Rightarrow> IndexedCompactionSlice list \<Rightarrow> u64 \<Rightarrow> u64 \<Rightarrow> u64 \<Rightarrow> CompactionIndex \<Rightarrow> CompactionIndex \<times> nat"
where
  "register_segment ho segment_id slices byte_threshold time_threshold now c =
     (let c1 = remove_segment segment_id (configure_thresholds ho byte_threshold time_threshold now c) in
      if slices = [] then (c1, 0)
      else let key = slice_segment_key (hd slices);
               (seg, c2) = fold register_slice slices (\<lparr>ss_remaining = 0, ss_ids = {}, ss_groups = {}, ss_lanes = {}\<rparr>, c1);
               c3 = c2\<lparr>ci_segments := fmupd key seg (ci_segments c2)\<rparr>
           in (fold (classify_new now) (sorted_list_of_set (ss_ids seg)) c3, ss_remaining seg))"

section \<open>Manifests\<close>

definition fence_installed :: "CompactionSliceId \<Rightarrow> CompactionIndex \<Rightarrow> CompactionIndex" where
  "fence_installed i c = (if is_fenced i (ci_manifests c) then set_fenced i c else c)"

definition install_manifests :: "hash_order \<Rightarrow> CompactionTransaction list \<Rightarrow> CompactionIndex \<Rightarrow> CompactionIndex" where
  "install_manifests ho txns c = (let
       c1 = c\<lparr>ci_manifests := mi_install txns (ci_manifests c), ci_manifests_loaded := True\<rparr>
     in fold fence_installed (ho_slices ho (fmdom' (ci_slices c1))) c1)"

definition release_slice :: "u64 \<Rightarrow> CompactionSliceId \<Rightarrow> CompactionIndex \<Rightarrow> CompactionIndex" where
  "release_slice now i c = (if state_of c i \<noteq> Some Reserved then c
     else if is_fenced i (ci_manifests c) then set_state SFenced i c
     else classify_available now i c)"

definition release_refs :: "WalPartRef list \<Rightarrow> u64 \<Rightarrow> CompactionIndex \<Rightarrow> CompactionIndex" where
  "release_refs refs now c = fold (release_slice now) (map slice_id_from_wal_ref refs) c"

text \<open>The source reads the wall clock for each slice it settles: \<open>clock\<close> gives the reading.\<close>

definition settle_upserted :: "(CompactionSliceId \<Rightarrow> u64) \<Rightarrow> CompactionSliceId \<Rightarrow> CompactionIndex \<Rightarrow> CompactionIndex" where
  "settle_upserted clock i c = (if is_fenced i (ci_manifests c) then
       (if state_of c i \<noteq> Some Reserved then set_fenced i c else c)
     else if state_of c i = Some SFenced then classify_available (clock i) i c else c)"

definition upsert_manifest :: "(CompactionSliceId \<Rightarrow> u64) \<Rightarrow> CompactionTransaction \<Rightarrow> CompactionIndex \<Rightarrow> CompactionIndex" where
  "upsert_manifest clock txn c = (let
       old_refs = (case fmlookup (mi_records (ci_manifests c)) (ct_id txn) of Some r \<Rightarrow> ct_refs (mr_txn r) | None \<Rightarrow> []);
       reserve_if_new = list_ex (\<lambda>w. state_of c (slice_id_from_wal_ref w) = Some Reserved) (ct_refs txn);
       c1 = c\<lparr>ci_manifests := mi_upsert txn reserve_if_new (ci_manifests c)\<rparr>
     in fold (settle_upserted clock) (sorted_list_of_set (slice_id_from_wal_ref ` set (old_refs @ ct_refs txn))) c1)"

definition settle_removed :: "u64 \<Rightarrow> CompactionSliceId \<Rightarrow> CompactionIndex \<Rightarrow> CompactionIndex" where
  "settle_removed now i c = (if \<not> is_fenced i (ci_manifests c) \<and> state_of c i = Some SFenced
     then classify_available now i c else c)"

definition remove_manifest :: "string \<Rightarrow> u64 \<Rightarrow> CompactionIndex \<Rightarrow> CompactionIndex" where
  "remove_manifest tid now c = (let (m, affected) = mi_remove tid (ci_manifests c) in
     fold (settle_removed now) affected (c\<lparr>ci_manifests := m\<rparr>))"

definition release_manifest :: "string \<Rightarrow> CompactionIndex \<Rightarrow> CompactionIndex" where
  "release_manifest tid c = c\<lparr>ci_manifests := mi_release tid (ci_manifests c)\<rparr>"

definition reserve_ready_manifests ::
  "nat \<Rightarrow> nat \<Rightarrow> u64 \<Rightarrow> u64 \<Rightarrow> active_counts \<Rightarrow> CompactionLaneKey set \<Rightarrow> CompactionIndex \<Rightarrow> CompactionIndex \<times> ReservedManifest list"
where
  "reserve_ready_manifests limit per_sink now stale active blocked c =
     (let (m, out) = reserve_ready limit per_sink now stale active blocked (ci_manifests c)
      in (c\<lparr>ci_manifests := m\<rparr>, out))"

definition indexed_slice_count :: "CompactionIndex \<Rightarrow> nat" where
  "indexed_slice_count c = card (fmdom' (ci_slices c))"

definition ready_queue_depth :: "CompactionIndex \<Rightarrow> nat" where
  "ready_queue_depth c = ci_ready_group_count c"

definition reclaimable_slice_count :: "bool \<Rightarrow> u64 \<Rightarrow> u64 \<Rightarrow> nat \<Rightarrow> CompactionIndex \<Rightarrow> CompactionIndex \<times> nat" where
  "reclaimable_slice_count force now stale limit c = (let c1 = (if force then c else promote_due now c) in
     (c1, min limit (ci_ready_count c1 + (if force then card (ci_waiting c1) else 0)
        + ready_ref_count now stale (ci_manifests c1))))"

end
