(* ===== verification/Compaction_Invariant.thy ===== *)
theory Compaction_Invariant
  imports Compaction_Index
begin

text \<open>
  The invariant of the compaction index and that every operation keeps it. The invariant
  \<open>structures W R c\<close> says that the waiting structures hold exactly the slices \<open>W\<close> and the
  queues exactly the slices \<open>R\<close>; it does not mention states. The invariant \<open>cinv U c\<close> ties
  them to the states of the slices, except for the slices \<open>U\<close> that an operation has taken out
  and not yet placed again; between operations \<open>U\<close> is empty.
\<close>

section \<open>The invariant\<close>

definition slice_of :: "CompactionIndex \<Rightarrow> CompactionSliceId \<Rightarrow> IndexedCompactionSlice" where
  "slice_of c i = sr_slice (the (slice_rec c i))"

definition grp :: "CompactionIndex \<Rightarrow> CompactionSliceId \<Rightarrow> CompactionGroupKey" where
  "grp c i = sl_group_key (slice_of c i)"

definition known :: "CompactionIndex \<Rightarrow> CompactionSliceId set" where
  "known c = fmdom' (ci_slices c)"

definition remf :: "CompactionIndex \<Rightarrow> SegmentKey \<Rightarrow> nat" where
  "remf c seg = segment_remaining seg c"

definition holds :: "CompactionIndex \<Rightarrow> ReadyQueue \<Rightarrow> CompactionSliceId set \<Rightarrow> bool" where
  "holds c q S \<longleftrightarrow> rq_invar (remf c) q \<and> rq_content q = (\<lambda>i. slice_queue_key (slice_of c i)) ` S"

definition ids_inv :: "CompactionIndex \<Rightarrow> bool" where
  "ids_inv c \<longleftrightarrow> (\<forall>i\<in>known c. sl_id (slice_of c i) = i)"

definition segment_inv :: "CompactionIndex \<Rightarrow> bool" where
  "segment_inv c \<longleftrightarrow> (\<forall>i\<in>known c. segment_of i \<in> fmdom' (ci_segments c))
     \<and> (\<forall>k s. fmlookup (ci_segments c) k = Some s \<longrightarrow>
          ss_ids s = {i \<in> known c. segment_of i = k} \<and> ss_ids s \<noteq> {} \<and> ss_remaining s = card (ss_ids s)
          \<and> finite (ss_groups s) \<and> finite (ss_lanes s)
          \<and> grp c ` ss_ids s \<subseteq> ss_groups s \<and> group_lane ` grp c ` ss_ids s \<subseteq> ss_lanes s)"

definition queue_inv :: "CompactionSliceId set \<Rightarrow> CompactionIndex \<Rightarrow> bool" where
  "queue_inv R c \<longleftrightarrow> (\<forall>g. holds c (group_queue g c) {i \<in> R. grp c i = g})
     \<and> (\<forall>l. holds c (ls_queue (lane_state l c)) {i \<in> R. group_lane (grp c i) = l})
     \<and> ci_ready_group_count c = card (grp c ` R) \<and> ci_ready_count c = card R"

definition eligible_at :: "CompactionIndex \<Rightarrow> CompactionSliceId \<Rightarrow> u64" where
  "eligible_at c i = sat_add (ie_updated_at_secs (sl_index_entry (slice_of c i))) (or_max (ci_time_threshold_secs c))"

definition entry_of :: "CompactionIndex \<Rightarrow> CompactionSliceId \<Rightarrow> WaitingEntry" where
  "entry_of c i = WaitingEntry (eligible_at c i) i (sr_wait_generation (the (slice_rec c i)))"

definition waiting_inv :: "CompactionSliceId set \<Rightarrow> CompactionIndex \<Rightarrow> bool" where
  "waiting_inv W c \<longleftrightarrow> ci_waiting c = W
     \<and> (\<forall>g. fmlookup (ci_waiting_ids_by_group c) g =
          (if {i \<in> W. grp c i = g} = {} then None else Some {i \<in> W. grp c i = g}))
     \<and> sorted (ci_waiting_by_age c) \<and> entry_of c ` W \<subseteq> set (ci_waiting_by_age c)"

definition structures :: "CompactionSliceId set \<Rightarrow> CompactionSliceId set \<Rightarrow> CompactionIndex \<Rightarrow> bool" where
  "structures W R c \<longleftrightarrow> W \<subseteq> known c \<and> R \<subseteq> known c \<and> ids_inv c \<and> segment_inv c \<and> queue_inv R c \<and> waiting_inv W c"

definition in_state :: "SliceState \<Rightarrow> CompactionSliceId set \<Rightarrow> CompactionIndex \<Rightarrow> CompactionSliceId set" where
  "in_state st U c = {i. state_of c i = Some st} - U"

definition cinv :: "CompactionSliceId set \<Rightarrow> CompactionIndex \<Rightarrow> bool" where
  "cinv U c \<longleftrightarrow> structures (in_state Waiting U c) (in_state Ready U c) c
     \<and> U \<subseteq> in_state Waiting {} c \<union> in_state Ready {} c
     \<and> ci_available_counted c - U = in_state Waiting U c \<union> in_state Ready U c
     \<and> ci_force_only_ready c \<subseteq> in_state Ready U c"

section \<open>Frames\<close>

lemma finite_known [simp]: "finite (known c)"
  by (simp add: known_def)

lemma known_iff: "i \<in> known c \<longleftrightarrow> slice_rec c i \<noteq> None"
  by (simp add: known_def fmlookup_dom'_iff)

lemma state_of_known: "state_of c i = Some st \<Longrightarrow> i \<in> known c"
  by (auto simp: state_of_def known_iff)

lemma in_state_known: "in_state st U c \<subseteq> known c"
  by (auto simp: in_state_def state_of_known)

lemma in_stateD: "i \<in> in_state st U c \<Longrightarrow> i \<in> known c"
  using in_state_known by blast

lemma cinv_known:
  assumes "cinv U c"
  shows "i \<in> U \<Longrightarrow> i \<in> known c" "i \<in> ci_waiting c \<Longrightarrow> i \<in> known c" "i \<in> ci_force_only_ready c \<Longrightarrow> i \<in> known c"
  using assms unfolding cinv_def structures_def waiting_inv_def by (blast dest: in_stateD)+

text \<open>Two indexes that differ in fields the structures do not read.\<close>

definition same_data :: "CompactionIndex \<Rightarrow> CompactionIndex \<Rightarrow> bool" where
  "same_data c c' \<longleftrightarrow> known c' = known c \<and> slice_of c' = slice_of c
     \<and> ci_time_threshold_secs c' = ci_time_threshold_secs c \<and> ci_segments c' = ci_segments c"

lemma same_data_views:
  assumes "same_data c c'"
  shows "grp c' = grp c" "eligible_at c' = eligible_at c" "remf c' = remf c" "holds c' = holds c"
    "ids_inv c' = ids_inv c" "segment_inv c' = segment_inv c"
proof -
  have s: "known c' = known c" "slice_of c' = slice_of c" "ci_time_threshold_secs c' = ci_time_threshold_secs c"
    "ci_segments c' = ci_segments c" using assms by (simp_all add: same_data_def)
  show g: "grp c' = grp c" by (simp add: grp_def s fun_eq_iff)
  show "eligible_at c' = eligible_at c" by (simp add: eligible_at_def s fun_eq_iff)
  show r: "remf c' = remf c" by (simp add: remf_def segment_remaining_def s fun_eq_iff)
  show "holds c' = holds c" by (intro ext) (simp add: holds_def s r)
  show "ids_inv c' = ids_inv c" by (simp add: ids_inv_def s)
  show "segment_inv c' = segment_inv c" by (simp add: segment_inv_def s g)
qed

lemma queue_inv_frame:
  assumes "same_data c c'" "ci_groups c' = ci_groups c" "ci_lanes c' = ci_lanes c"
    "ci_ready_group_count c' = ci_ready_group_count c" "ci_ready_count c' = ci_ready_count c"
  shows "queue_inv R c' = queue_inv R c"
  using assms by (simp add: queue_inv_def same_data_views group_queue_def lane_state_def)

lemma waiting_inv_frame:
  assumes "same_data c c'" "ci_waiting c' = ci_waiting c" "ci_waiting_ids_by_group c' = ci_waiting_ids_by_group c"
    "ci_waiting_by_age c' = ci_waiting_by_age c" "W \<subseteq> known c"
    "\<And>i. i \<in> W \<Longrightarrow> sr_wait_generation (the (slice_rec c' i)) = sr_wait_generation (the (slice_rec c i))"
  shows "waiting_inv W c' = waiting_inv W c"
proof -
  have "entry_of c' ` W = entry_of c ` W"
    using assms(1,6) by (intro image_cong) (simp_all add: entry_of_def same_data_views)
  then show ?thesis using assms by (simp add: waiting_inv_def same_data_views)
qed

lemma set_state_data [simp]:
  "same_data c (set_state st i c)" "known (set_state st i c) = known c" "slice_of (set_state st i c) = slice_of c"
  by (auto simp: same_data_def set_state_def known_def slice_of_def fun_eq_iff fmlookup_dom'_iff split: option.split)

lemma set_state_fields [simp]:
  "ci_segments (set_state st i c) = ci_segments c" "ci_groups (set_state st i c) = ci_groups c"
  "ci_lanes (set_state st i c) = ci_lanes c" "ci_waiting (set_state st i c) = ci_waiting c"
  "ci_waiting_by_age (set_state st i c) = ci_waiting_by_age c"
  "ci_waiting_ids_by_group (set_state st i c) = ci_waiting_ids_by_group c"
  "ci_available_bytes_by_group (set_state st i c) = ci_available_bytes_by_group c"
  "ci_available_counted (set_state st i c) = ci_available_counted c"
  "ci_force_only_ready (set_state st i c) = ci_force_only_ready c"
  "ci_ready_count (set_state st i c) = ci_ready_count c"
  "ci_ready_group_count (set_state st i c) = ci_ready_group_count c"
  "ci_byte_threshold (set_state st i c) = ci_byte_threshold c"
  "ci_time_threshold_secs (set_state st i c) = ci_time_threshold_secs c"
  "ci_manifests (set_state st i c) = ci_manifests c"
  by (simp_all add: set_state_def split: option.split)

lemma state_of_set_state:
  "state_of (set_state st i c) j = (if j = i \<and> i \<in> known c then Some st else state_of c j)"
  by (auto simp: state_of_def set_state_def known_iff split: option.split)

lemma generation_set_state [simp]:
  "sr_wait_generation (the (slice_rec (set_state st i c) j)) = sr_wait_generation (the (slice_rec c j))"
  by (auto simp: set_state_def split: option.split)

lemma structures_set_state [simp]: "structures W R (set_state st i c) = structures W R c"
proof -
  have "W \<subseteq> known c \<Longrightarrow> waiting_inv W (set_state st i c) = waiting_inv W c"
    by (rule waiting_inv_frame) simp_all
  moreover have "queue_inv R (set_state st i c) = queue_inv R c" by (rule queue_inv_frame) simp_all
  ultimately show ?thesis by (auto simp: structures_def same_data_views[OF set_state_data(1)])
qed

text \<open>A change of the available bytes, the counted slices, the forced slices or the manifests.\<close>

lemma structures_frame:
  assumes "ci_slices c' = ci_slices c" "ci_segments c' = ci_segments c" "ci_groups c' = ci_groups c" "ci_lanes c' = ci_lanes c"
    "ci_waiting c' = ci_waiting c" "ci_waiting_by_age c' = ci_waiting_by_age c"
    "ci_waiting_ids_by_group c' = ci_waiting_ids_by_group c" "ci_ready_count c' = ci_ready_count c"
    "ci_ready_group_count c' = ci_ready_group_count c" "ci_time_threshold_secs c' = ci_time_threshold_secs c"
  shows "structures W R c' = structures W R c"
proof -
  have d: "same_data c c'" using assms by (simp add: same_data_def known_def slice_of_def fun_eq_iff)
  have "waiting_inv W c' = waiting_inv W c" if "W \<subseteq> known c"
    using that assms by (intro waiting_inv_frame[OF d]) simp_all
  then show ?thesis using queue_inv_frame[OF d, of R] same_data_views[OF d] d assms
    by (auto simp: structures_def same_data_def)
qed

lemma set_available_bytes_fields [simp]:
  "ci_slices (set_available_bytes i b c) = ci_slices c" "ci_segments (set_available_bytes i b c) = ci_segments c"
  "ci_groups (set_available_bytes i b c) = ci_groups c" "ci_lanes (set_available_bytes i b c) = ci_lanes c"
  "ci_waiting (set_available_bytes i b c) = ci_waiting c"
  "ci_waiting_by_age (set_available_bytes i b c) = ci_waiting_by_age c"
  "ci_waiting_ids_by_group (set_available_bytes i b c) = ci_waiting_ids_by_group c"
  "ci_force_only_ready (set_available_bytes i b c) = ci_force_only_ready c"
  "ci_ready_count (set_available_bytes i b c) = ci_ready_count c"
  "ci_ready_group_count (set_available_bytes i b c) = ci_ready_group_count c"
  "ci_byte_threshold (set_available_bytes i b c) = ci_byte_threshold c"
  "ci_time_threshold_secs (set_available_bytes i b c) = ci_time_threshold_secs c"
  "ci_manifests (set_available_bytes i b c) = ci_manifests c"
  by (simp_all add: set_available_bytes_def Let_def split: option.split)

lemma set_available_counted:
  "i \<in> known c \<Longrightarrow> ci_available_counted (set_available_bytes i b c) =
     (if b then insert i (ci_available_counted c) else ci_available_counted c - {i})"
  by (auto simp: set_available_bytes_def Let_def known_iff split: option.split)

lemma structures_available [simp]: "structures W R (set_available_bytes i b c) = structures W R c"
  by (rule structures_frame) simp_all

section \<open>Waiting structures\<close>

lemma forget_waiting_fields [simp]:
  "ci_slices (forget_waiting_id i c) = ci_slices c" "ci_segments (forget_waiting_id i c) = ci_segments c"
  "ci_groups (forget_waiting_id i c) = ci_groups c" "ci_lanes (forget_waiting_id i c) = ci_lanes c"
  "ci_waiting (forget_waiting_id i c) = ci_waiting c"
  "ci_waiting_by_age (forget_waiting_id i c) = ci_waiting_by_age c"
  "ci_available_bytes_by_group (forget_waiting_id i c) = ci_available_bytes_by_group c"
  "ci_available_counted (forget_waiting_id i c) = ci_available_counted c"
  "ci_force_only_ready (forget_waiting_id i c) = ci_force_only_ready c"
  "ci_ready_count (forget_waiting_id i c) = ci_ready_count c"
  "ci_ready_group_count (forget_waiting_id i c) = ci_ready_group_count c"
  "ci_byte_threshold (forget_waiting_id i c) = ci_byte_threshold c"
  "ci_time_threshold_secs (forget_waiting_id i c) = ci_time_threshold_secs c"
  "ci_manifests (forget_waiting_id i c) = ci_manifests c"
  by (simp_all add: forget_waiting_id_def Let_def split: option.split)

lemma forget_waiting_groups:
  assumes "i \<in> known c" "\<forall>g. fmlookup (ci_waiting_ids_by_group c) g =
      (if {j \<in> W. grp c j = g} = {} then None else Some {j \<in> W. grp c j = g})"
  shows "fmlookup (ci_waiting_ids_by_group (forget_waiting_id i c)) g =
      (if {j \<in> W - {i}. grp c j = g} = {} then None else Some {j \<in> W - {i}. grp c j = g})"
proof -
  obtain r where r: "slice_rec c i = Some r" using assms(1) by (auto simp: known_iff)
  then have g: "sl_group_key (sr_slice r) = grp c i" by (simp add: grp_def slice_of_def)
  have same: "{j \<in> W - {i}. grp c j = g} = {j \<in> W. grp c j = g} - {i}" for g by auto
  have other: "{j \<in> W - {i}. grp c j = g} = {j \<in> W. grp c j = g}" if "g \<noteq> grp c i" for g using that by auto
  show ?thesis
  proof (cases "g = grp c i")
    case True
    show ?thesis using assms(2)[rule_format, of "grp c i"] r g
      by (auto simp: forget_waiting_id_def Let_def True same split: option.split)
  next
    case False
    then show ?thesis using assms(2)[rule_format, of "grp c i"] assms(2)[rule_format, of g] r g
      by (auto simp: forget_waiting_id_def Let_def other split: option.split)
  qed
qed

text \<open>Taking a slice out of the waiting structures.\<close>

definition unwait :: "CompactionSliceId \<Rightarrow> CompactionIndex \<Rightarrow> CompactionIndex" where
  "unwait i c = (forget_waiting_id i c)\<lparr>ci_waiting := ci_waiting c - {i}\<rparr>"

lemma structures_unwait:
  assumes "structures W R c" "i \<in> known c"
  shows "structures (W - {i}) R (unwait i c)"
proof -
  have d: "same_data c (unwait i c)" by (simp add: same_data_def unwait_def known_def slice_of_def fun_eq_iff)
  have w: "waiting_inv W c" using assms(1) by (simp add: structures_def)
  have "entry_of (unwait i c) = entry_of c"
    by (simp add: entry_of_def same_data_views[OF d] fun_eq_iff) (simp add: unwait_def)
  then have "waiting_inv (W - {i}) (unwait i c)"
    using w forget_waiting_groups[OF assms(2), of W] unfolding waiting_inv_def same_data_views[OF d]
    by (auto simp: unwait_def)
  moreover have "queue_inv R (unwait i c) = queue_inv R c"
    by (rule queue_inv_frame[OF d]) (simp_all add: unwait_def)
  ultimately show ?thesis using assms(1) same_data_views[OF d] d
    by (auto simp: structures_def same_data_def)
qed

lemma set_waiting_unfold:
  assumes "slice_rec c i = Some r"
  shows "set_waiting i c = (let gen = sat_add (sr_wait_generation r) 1; g = sl_group_key (sr_slice r);
       ids = (case fmlookup (ci_waiting_ids_by_group c) g of Some ids \<Rightarrow> ids | None \<Rightarrow> {});
       c1 = set_available_bytes i True (c\<lparr>ci_force_only_ready := ci_force_only_ready c - {i},
              ci_slices := fmupd i (r\<lparr>sr_state := Waiting, sr_wait_generation := gen\<rparr>) (ci_slices c),
              ci_waiting := insert i (ci_waiting c),
              ci_waiting_ids_by_group := fmupd g (insert i ids) (ci_waiting_ids_by_group c)\<rparr>)
     in c1\<lparr>ci_waiting_by_age := insort (WaitingEntry (eligible_at c i) i gen) (ci_waiting_by_age c1)\<rparr>)"
  using assms by (simp add: set_waiting_def Let_def eligible_at_def slice_of_def)

lemma set_waiting_fields:
  assumes "i \<in> known c"
  shows "same_data c (set_waiting i c)" "ci_groups (set_waiting i c) = ci_groups c" "ci_lanes (set_waiting i c) = ci_lanes c"
    "ci_ready_count (set_waiting i c) = ci_ready_count c" "ci_ready_group_count (set_waiting i c) = ci_ready_group_count c"
    "ci_waiting (set_waiting i c) = insert i (ci_waiting c)"
    "ci_manifests (set_waiting i c) = ci_manifests c" "ci_byte_threshold (set_waiting i c) = ci_byte_threshold c"
    "ci_available_counted (set_waiting i c) = insert i (ci_available_counted c)"
    "ci_force_only_ready (set_waiting i c) = ci_force_only_ready c - {i}"
    "state_of (set_waiting i c) = (state_of c)(i := Some Waiting)"
    "ci_segments (set_waiting i c) = ci_segments c" "ci_time_threshold_secs (set_waiting i c) = ci_time_threshold_secs c"
proof -
  obtain r where r: "slice_rec c i = Some r" using assms by (auto simp: known_iff)
  note u = set_waiting_unfold[OF r] Let_def
  show "same_data c (set_waiting i c)"
    using r by (auto simp: u same_data_def known_def slice_of_def fun_eq_iff fmlookup_dom'_iff)
  show "ci_groups (set_waiting i c) = ci_groups c" "ci_lanes (set_waiting i c) = ci_lanes c"
    "ci_ready_count (set_waiting i c) = ci_ready_count c" "ci_ready_group_count (set_waiting i c) = ci_ready_group_count c"
    "ci_waiting (set_waiting i c) = insert i (ci_waiting c)"
    "ci_manifests (set_waiting i c) = ci_manifests c" "ci_byte_threshold (set_waiting i c) = ci_byte_threshold c"
    "ci_force_only_ready (set_waiting i c) = ci_force_only_ready c - {i}"
    "ci_segments (set_waiting i c) = ci_segments c" "ci_time_threshold_secs (set_waiting i c) = ci_time_threshold_secs c"
    by (simp_all add: u)
  show "ci_available_counted (set_waiting i c) = insert i (ci_available_counted c)"
    by (simp add: u set_available_counted known_iff)
  show "state_of (set_waiting i c) = (state_of c)(i := Some Waiting)"
    by (auto simp: u state_of_def fun_eq_iff)
qed

lemma structures_set_waiting:
  assumes "structures W R c" "i \<in> known c"
  shows "structures (insert i W) R (set_waiting i c)"
proof -
  obtain r where r: "slice_rec c i = Some r" using assms by (auto simp: known_iff)
  note f = set_waiting_fields[OF assms(2)] and d = set_waiting_fields(1)[OF assms(2)]
  note u = set_waiting_unfold[OF r] Let_def
  have w: "waiting_inv W c" and sub: "W \<subseteq> known c" using assms(1) by (simp_all add: structures_def)
  have gi: "sl_group_key (sr_slice r) = grp c i" using r by (simp add: grp_def slice_of_def)
  have new: "entry_of (set_waiting i c) i \<in> set (ci_waiting_by_age (set_waiting i c))"
    by (simp add: entry_of_def same_data_views[OF d]) (simp add: u set_insort_key)
  have old: "entry_of (set_waiting i c) j = entry_of c j" if "j \<noteq> i" for j
    using that by (simp add: entry_of_def same_data_views[OF d]) (simp add: u)
  have age: "sorted (ci_waiting_by_age (set_waiting i c))" "set (ci_waiting_by_age c) \<subseteq> set (ci_waiting_by_age (set_waiting i c))"
    using w by (auto simp: u set_insort_key sorted_insort waiting_inv_def)
  have grps: "fmlookup (ci_waiting_ids_by_group (set_waiting i c)) g =
      (if {j \<in> insert i W. grp c j = g} = {} then None else Some {j \<in> insert i W. grp c j = g})" for g
  proof (cases "g = grp c i")
    case True
    then show ?thesis using w gi by (auto simp: u waiting_inv_def)
  next
    case False
    then have "{j \<in> insert i W. grp c j = g} = {j \<in> W. grp c j = g}" by auto
    then show ?thesis using w gi False by (auto simp: u waiting_inv_def)
  qed
  have "entry_of (set_waiting i c) ` insert i W \<subseteq> set (ci_waiting_by_age (set_waiting i c))"
    using new old age(2) w by (auto simp: waiting_inv_def image_subset_iff) (metis subsetD)
  then have "waiting_inv (insert i W) (set_waiting i c)"
    using w f age(1) grps unfolding waiting_inv_def same_data_views[OF d] by simp
  moreover have "queue_inv R (set_waiting i c) = queue_inv R c" by (rule queue_inv_frame[OF d]) (simp_all add: f)
  ultimately show ?thesis using assms same_data_views[OF d] d
    by (auto simp: structures_def same_data_def)
qed

section \<open>Queues\<close>

lemma holds_empty [simp]: "holds c rq_empty {}"
  by (simp add: holds_def rq.emp_laws)

lemma holds_is_empty: "holds c q S \<Longrightarrow> rq_is_empty q \<longleftrightarrow> S = {}"
  using rq.isemp_law by (auto simp: holds_def)

lemma holds_insert:
  "holds c q S \<Longrightarrow> holds c (rq_insert (slice_of c i) (segment_remaining (slice_segment_key (slice_of c i)) c) q) (insert i S)"
  using rq.ins_laws[of "remf c" q "slice_of c i" "remf c (slice_segment_key (slice_of c i))"]
  unfolding holds_def remf_def[symmetric] by simp

lemma slice_key_inj:
  assumes "ids_inv c" "i \<in> known c" "j \<in> known c" "slice_queue_key (slice_of c i) = slice_queue_key (slice_of c j)"
  shows "i = j"
  using assms by (simp add: slice_queue_key_def ids_inv_def)

lemma holds_remove:
  assumes "holds c q S" "ids_inv c" "S \<subseteq> known c" "i \<in> known c"
  shows "holds c (fst (rq_remove (slice_of c i) (segment_remaining (slice_segment_key (slice_of c i)) c) q)) (S - {i})"
proof -
  have "(\<lambda>i. slice_queue_key (slice_of c i)) ` (S - {i}) = (\<lambda>i. slice_queue_key (slice_of c i)) ` S - {slice_queue_key (slice_of c i)}"
    using assms(2-4) slice_key_inj by (auto simp: image_iff subset_iff)
  then show ?thesis
    using assms(1) rq.del_laws(1,2)[of "remf c" q "slice_of c i" "remf c (slice_segment_key (slice_of c i))"]
    unfolding holds_def remf_def[symmetric] by simp
qed

lemma ready_groups_empty: "{j \<in> R. grp c j = g} = {} \<longleftrightarrow> g \<notin> grp c ` R"
  by auto

lemma enqueue_fields [simp]:
  "ci_slices (enqueue_ready sl c) = ci_slices c" "ci_segments (enqueue_ready sl c) = ci_segments c"
  "ci_waiting (enqueue_ready sl c) = ci_waiting c" "ci_waiting_by_age (enqueue_ready sl c) = ci_waiting_by_age c"
  "ci_waiting_ids_by_group (enqueue_ready sl c) = ci_waiting_ids_by_group c"
  "ci_available_counted (enqueue_ready sl c) = ci_available_counted c"
  "ci_available_bytes_by_group (enqueue_ready sl c) = ci_available_bytes_by_group c"
  "ci_force_only_ready (enqueue_ready sl c) = ci_force_only_ready c"
  "ci_byte_threshold (enqueue_ready sl c) = ci_byte_threshold c"
  "ci_time_threshold_secs (enqueue_ready sl c) = ci_time_threshold_secs c"
  "ci_manifests (enqueue_ready sl c) = ci_manifests c"
  by (simp_all add: enqueue_ready_def Let_def)

lemma dequeue_fields [simp]:
  "ci_slices (dequeue_ready sl c) = ci_slices c" "ci_segments (dequeue_ready sl c) = ci_segments c"
  "ci_waiting (dequeue_ready sl c) = ci_waiting c" "ci_waiting_by_age (dequeue_ready sl c) = ci_waiting_by_age c"
  "ci_waiting_ids_by_group (dequeue_ready sl c) = ci_waiting_ids_by_group c"
  "ci_available_counted (dequeue_ready sl c) = ci_available_counted c"
  "ci_available_bytes_by_group (dequeue_ready sl c) = ci_available_bytes_by_group c"
  "ci_force_only_ready (dequeue_ready sl c) = ci_force_only_ready c"
  "ci_byte_threshold (dequeue_ready sl c) = ci_byte_threshold c"
  "ci_time_threshold_secs (dequeue_ready sl c) = ci_time_threshold_secs c"
  "ci_manifests (dequeue_ready sl c) = ci_manifests c"
  by (simp_all add: dequeue_ready_def Let_def split: option.split)

lemma queue_inv_enqueue:
  assumes "queue_inv R c" "i \<notin> R" "finite R"
  shows "queue_inv (insert i R) (enqueue_ready (slice_of c i) c)" (is "queue_inv _ ?c")
proof -
  have d: "same_data c ?c" by (simp add: same_data_def known_def slice_of_def fun_eq_iff)
  let ?rem = "segment_remaining (slice_segment_key (slice_of c i)) c"
  have gq: "group_queue g ?c = (if g = grp c i then rq_insert (slice_of c i) ?rem (group_queue g c) else group_queue g c)" for g
    by (simp add: enqueue_ready_def Let_def group_queue_def grp_def)
  have lq: "ls_queue (lane_state l ?c) = (if l = group_lane (grp c i) then rq_insert (slice_of c i) ?rem (ls_queue (lane_state l c))
      else ls_queue (lane_state l c))" for l
    by (simp add: enqueue_ready_def Let_def lane_state_def grp_def)
  have gset: "{j \<in> insert i R. grp c j = g} = (if g = grp c i then insert i {j \<in> R. grp c j = g} else {j \<in> R. grp c j = g})" for g
    by auto
  have lset: "{j \<in> insert i R. group_lane (grp c j) = l} =
      (if l = group_lane (grp c i) then insert i {j \<in> R. group_lane (grp c j) = l} else {j \<in> R. group_lane (grp c j) = l})" for l
    by auto
  have h: "holds c (group_queue g c) {j \<in> R. grp c j = g}" "holds c (ls_queue (lane_state l c)) {j \<in> R. group_lane (grp c j) = l}" for g l
    using assms(1) by (auto simp: queue_inv_def)
  have G: "holds c (group_queue g ?c) {j \<in> insert i R. grp c j = g}" for g
    unfolding gq gset using h(1) holds_insert by simp
  have L: "holds c (ls_queue (lane_state l ?c)) {j \<in> insert i R. group_lane (grp c j) = l}" for l
    unfolding lq lset using h(2) holds_insert by simp
  have "ci_ready_group_count ?c = card (grp c ` insert i R)"
  proof -
    have "rq_is_empty (group_queue (grp c i) c) \<longleftrightarrow> grp c i \<notin> grp c ` R"
      using holds_is_empty[OF h(1)] ready_groups_empty by metis
    moreover have "\<not> rq_is_empty (rq_insert (slice_of c i) ?rem (group_queue (grp c i) c))"
      using holds_is_empty[OF holds_insert[OF h(1)]] by blast
    moreover have "ci_ready_group_count c = card (grp c ` R)" using assms(1) by (simp add: queue_inv_def)
    ultimately show ?thesis using assms(3)
      by (simp add: enqueue_ready_def Let_def grp_def[symmetric] card_insert_if)
  qed
  moreover have "ci_ready_count ?c = card (insert i R)"
    using assms by (simp add: enqueue_ready_def Let_def queue_inv_def)
  ultimately show ?thesis unfolding queue_inv_def same_data_views[OF d] using G L by blast
qed

lemma queue_inv_dequeue:
  assumes "queue_inv R c" "i \<in> R" "R \<subseteq> known c" "ids_inv c"
  shows "queue_inv (R - {i}) (dequeue_ready (slice_of c i) c)" (is "queue_inv _ ?c")
proof -
  have d: "same_data c ?c" by (simp add: same_data_def known_def slice_of_def fun_eq_iff)
  have i: "i \<in> known c" and fin: "finite R" using assms(2,3) finite_subset[OF assms(3)] by auto
  let ?rem = "segment_remaining (slice_segment_key (slice_of c i)) c"
  have h: "holds c (group_queue g c) {j \<in> R. grp c j = g}" "holds c (ls_queue (lane_state l c)) {j \<in> R. group_lane (grp c j) = l}" for g l
    using assms(1) by (auto simp: queue_inv_def)
  have "\<not> rq_is_empty (group_queue (grp c i) c)" "\<not> rq_is_empty (ls_queue (lane_state (group_lane (grp c i)) c))"
    using holds_is_empty[OF h(1)[of "grp c i"]] holds_is_empty[OF h(2)[of "group_lane (grp c i)"]] assms(2) by auto
  then obtain q ls where q: "fmlookup (ci_groups c) (grp c i) = Some q" and ls: "fmlookup (ci_lanes c) (group_lane (grp c i)) = Some ls"
    using holds_is_empty[OF holds_empty[of c]] by (auto simp: group_queue_def lane_state_def split: option.splits)
  have gq: "group_queue g ?c = (if g = grp c i then fst (rq_remove (slice_of c i) ?rem (group_queue g c)) else group_queue g c)" for g
    using q ls by (simp add: dequeue_ready_def Let_def group_queue_def grp_def)
  have lq: "ls_queue (lane_state l ?c) = (if l = group_lane (grp c i) then fst (rq_remove (slice_of c i) ?rem (ls_queue (lane_state l c)))
      else ls_queue (lane_state l c))" for l
    using q ls by (simp add: dequeue_ready_def Let_def lane_state_def grp_def)
  have gset: "{j \<in> R - {i}. grp c j = g} = (if g = grp c i then {j \<in> R. grp c j = g} - {i} else {j \<in> R. grp c j = g})" for g
    by auto
  have lset: "{j \<in> R - {i}. group_lane (grp c j) = l} =
      (if l = group_lane (grp c i) then {j \<in> R. group_lane (grp c j) = l} - {i} else {j \<in> R. group_lane (grp c j) = l})" for l
    by auto
  have sub: "{j \<in> R. P j} \<subseteq> known c" for P using assms(3) by auto
  have G: "holds c (group_queue g ?c) {j \<in> R - {i}. grp c j = g}" for g
    unfolding gq gset using h(1) holds_remove[OF h(1) assms(4) sub i] by simp
  have L: "holds c (ls_queue (lane_state l ?c)) {j \<in> R - {i}. group_lane (grp c j) = l}" for l
    unfolding lq lset using h(2) holds_remove[OF h(2) assms(4) sub i] by simp
  have "ci_ready_group_count ?c = card (grp c ` (R - {i}))"
  proof -
    let ?q' = "fst (rq_remove (slice_of c i) ?rem q)"
    have "group_queue (grp c i) ?c = ?q'" using gq[of "grp c i"] q by (simp add: group_queue_def)
    then have e: "rq_is_empty ?q' \<longleftrightarrow> grp c i \<notin> grp c ` (R - {i})"
      using holds_is_empty[OF G[of "grp c i"]] ready_groups_empty by metis
    have n: "\<not> rq_is_empty q" using holds_is_empty[OF h(1)[of "grp c i"]] q assms(2) by (auto simp: group_queue_def)
    have img: "grp c ` R = insert (grp c i) (grp c ` (R - {i}))" using assms(2) by auto
    have "ci_ready_group_count c = card (grp c ` R)" using assms(1) by (simp add: queue_inv_def)
    then have "ci_ready_group_count c = (if rq_is_empty ?q' then card (grp c ` (R - {i})) + 1 else card (grp c ` (R - {i})))"
      unfolding img e using fin by (auto simp: card_insert_if)
    then show ?thesis using q ls n
      by (simp add: dequeue_ready_def Let_def grp_def[symmetric] split: if_splits)
  qed
  moreover have "ci_ready_count ?c = card (R - {i})"
    using assms(1,2) q ls fin by (simp add: dequeue_ready_def Let_def queue_inv_def grp_def[symmetric])
  ultimately show ?thesis unfolding queue_inv_def same_data_views[OF d] using G L by blast
qed

lemma structures_enqueue:
  assumes "structures W R c" "i \<in> known c" "i \<notin> R"
  shows "structures W (insert i R) (enqueue_ready (slice_of c i) c)"
proof -
  have d: "same_data c (enqueue_ready (slice_of c i) c)" by (simp add: same_data_def known_def slice_of_def fun_eq_iff)
  have "finite R" using assms(1) finite_subset[OF _ finite_known, of R c] by (simp add: structures_def)
  moreover have "waiting_inv W (enqueue_ready (slice_of c i) c) = waiting_inv W c"
    using assms(1) by (intro waiting_inv_frame[OF d]) (simp_all add: structures_def)
  ultimately show ?thesis
    using assms queue_inv_enqueue same_data_views[OF d] d by (auto simp: structures_def same_data_def)
qed

lemma structures_dequeue:
  assumes "structures W R c" "i \<in> R"
  shows "structures W (R - {i}) (dequeue_ready (slice_of c i) c)"
proof -
  have d: "same_data c (dequeue_ready (slice_of c i) c)" by (simp add: same_data_def known_def slice_of_def fun_eq_iff)
  have "waiting_inv W (dequeue_ready (slice_of c i) c) = waiting_inv W c"
    using assms(1) by (intro waiting_inv_frame[OF d]) (simp_all add: structures_def)
  then show ?thesis
    using assms queue_inv_dequeue same_data_views[OF d] d by (auto simp: structures_def same_data_def)
qed

section \<open>Moving one slice keeps the invariant\<close>

lemma dequeue_waiting_update:
  "dequeue_ready sl (c\<lparr>ci_waiting := w\<rparr>) = (dequeue_ready sl c)\<lparr>ci_waiting := w\<rparr>"
  by (simp add: dequeue_ready_def Let_def segment_remaining_def split: option.split)

lemma forget_waiting_update:
  "forget_waiting_id i (c\<lparr>ci_waiting := w\<rparr>) = (forget_waiting_id i c)\<lparr>ci_waiting := w\<rparr>"
  "forget_waiting_id i (c\<lparr>ci_force_only_ready := f\<rparr>) = (forget_waiting_id i c)\<lparr>ci_force_only_ready := f\<rparr>"
  by (simp_all add: forget_waiting_id_def Let_def split: option.split)

lemma withdraw_unfold:
  assumes "i \<in> known c"
  shows "withdraw i c = set_available_bytes i False
     ((unwait i (if state_of c i = Some Ready then dequeue_ready (slice_of c i) c else c))
        \<lparr>ci_force_only_ready := ci_force_only_ready c - {i}\<rparr>)"
proof -
  obtain r where "slice_rec c i = Some r" using assms by (auto simp: known_iff)
  then show ?thesis
    by (simp add: withdraw_def remove_from_current_queue_def Let_def unwait_def state_of_def slice_of_def
        dequeue_waiting_update forget_waiting_update)
qed

lemma structures_force [simp]: "structures W R (c\<lparr>ci_force_only_ready := f\<rparr>) = structures W R c"
  by (rule structures_frame) simp_all

lemma structures_manifests [simp]:
  "structures W R (c\<lparr>ci_manifests := m\<rparr>) = structures W R c"
  "structures W R (c\<lparr>ci_manifests_loaded := b\<rparr>) = structures W R c"
  by (rule structures_frame; simp)+

lemma known_update:
  "ci_slices c' = ci_slices c \<Longrightarrow> known c' = known c \<and> slice_of c' = slice_of c \<and> state_of c' = state_of c"
  by (simp add: known_def slice_of_def state_of_def fun_eq_iff)

lemma withdraw_fields:
  assumes "i \<in> known c"
  shows "ci_slices (withdraw i c) = ci_slices c" "ci_segments (withdraw i c) = ci_segments c"
    "ci_available_counted (withdraw i c) = ci_available_counted c - {i}"
    "ci_force_only_ready (withdraw i c) = ci_force_only_ready c - {i}"
    "ci_manifests (withdraw i c) = ci_manifests c" "ci_byte_threshold (withdraw i c) = ci_byte_threshold c"
    "ci_time_threshold_secs (withdraw i c) = ci_time_threshold_secs c"
    "ci_waiting_by_age (withdraw i c) = ci_waiting_by_age c"
  unfolding withdraw_unfold[OF assms] using assms
  by (simp_all add: unwait_def set_available_counted known_def)

lemma structures_withdraw:
  assumes "structures W R c" "i \<in> known c" "state_of c i = Some Ready \<longleftrightarrow> i \<in> R"
  shows "structures (W - {i}) (R - {i}) (withdraw i c)"
proof -
  let ?c = "if state_of c i = Some Ready then dequeue_ready (slice_of c i) c else c"
  have "structures W (R - {i}) ?c" using structures_dequeue[OF assms(1)] assms(1,3) by auto
  moreover have "i \<in> known ?c" using assms(2) by (simp add: known_def)
  ultimately show ?thesis unfolding withdraw_unfold[OF assms(2)] by (simp add: structures_unwait)
qed

lemma set_ready_unfold:
  assumes "i \<in> known c" "state_of c i \<noteq> Some Ready"
  shows "set_ready i c = set_state Ready i (enqueue_ready (slice_of c i) (set_available_bytes i True
     ((unwait i c)\<lparr>ci_force_only_ready := ci_force_only_ready c - {i}\<rparr>)))"
proof -
  obtain r where "slice_rec c i = Some r" using assms by (auto simp: known_iff)
  then show ?thesis using assms(2) by (simp add: set_ready_def Let_def unwait_def slice_of_def)
qed

lemma set_ready_fields:
  assumes "i \<in> known c" "state_of c i \<noteq> Some Ready"
  shows "ci_available_counted (set_ready i c) = insert i (ci_available_counted c)"
    "ci_force_only_ready (set_ready i c) = ci_force_only_ready c - {i}"
    "state_of (set_ready i c) = (state_of c)(i := Some Ready)"
  unfolding set_ready_unfold[OF assms] using assms(1)
  by (simp_all add: unwait_def set_available_counted known_def state_of_set_state fun_eq_iff)
    (simp add: state_of_def)

lemma set_ready_same:
  "known (set_ready i c) = known c" "slice_of (set_ready i c) = slice_of c" "ci_segments (set_ready i c) = ci_segments c"
  "ci_manifests (set_ready i c) = ci_manifests c" "ci_byte_threshold (set_ready i c) = ci_byte_threshold c"
  "ci_time_threshold_secs (set_ready i c) = ci_time_threshold_secs c"
  by (auto simp: set_ready_def Let_def split: option.split) (auto simp: known_def slice_of_def fun_eq_iff)

lemma structures_set_ready:
  assumes "structures W R c" "i \<in> known c" "state_of c i \<noteq> Some Ready" "i \<notin> R"
  shows "structures (W - {i}) (insert i R) (set_ready i c)"
proof -
  let ?c = "set_available_bytes i True ((unwait i c)\<lparr>ci_force_only_ready := ci_force_only_ready c - {i}\<rparr>)"
  have "structures (W - {i}) R ?c" using structures_unwait[OF assms(1,2)] by simp
  moreover have "i \<in> known ?c" "slice_of ?c i = slice_of c i" using assms(2) by (simp_all add: known_def slice_of_def unwait_def)
  ultimately show ?thesis using structures_enqueue[of "W - {i}" R ?c i] assms(4)
    unfolding set_ready_unfold[OF assms(2,3)] by simp
qed

lemma in_state_update:
  "state_of c' = (state_of c)(i := Some st') \<Longrightarrow>
     in_state st U c' = (if st = st' \<and> i \<notin> U then insert i (in_state st U c) else in_state st U c - {i})"
  by (auto simp: in_state_def)

lemma cinv_set_ready:
  assumes "cinv U c" "i \<in> known c" "state_of c i = Some Ready \<Longrightarrow> i \<notin> U"
  shows "cinv (U - {i}) (set_ready i c)"
proof (cases "state_of c i = Some Ready")
  case True
  then show ?thesis using assms by (simp add: set_ready_def)
next
  case False
  note f = set_ready_fields[OF assms(2) False]
  have st: "in_state Waiting (U - {i}) (set_ready i c) = in_state Waiting U c - {i}"
    "in_state Ready (U - {i}) (set_ready i c) = insert i (in_state Ready U c)"
    using False by (auto simp: in_state_def f(3) split: if_splits)
  have "structures (in_state Waiting U c - {i}) (insert i (in_state Ready U c)) (set_ready i c)"
    using assms(1) by (intro structures_set_ready assms(2) False) (auto simp: cinv_def in_state_def False)
  moreover have "U - {i} \<subseteq> in_state Waiting {} (set_ready i c) \<union> in_state Ready {} (set_ready i c)"
    using assms(1) by (auto simp: cinv_def in_state_def f(3))
  ultimately show ?thesis using assms(1) unfolding cinv_def st f by auto
qed

lemma cinv_set_waiting:
  assumes "cinv U c" "i \<in> known c" "state_of c i = Some Ready \<Longrightarrow> i \<in> U"
  shows "cinv (U - {i}) (set_waiting i c)"
proof -
  note f = set_waiting_fields[OF assms(2)]
  have st: "in_state Waiting (U - {i}) (set_waiting i c) = insert i (in_state Waiting U c)"
    "in_state Ready (U - {i}) (set_waiting i c) = in_state Ready U c"
    using assms(3) by (auto simp: in_state_def f(11) split: if_splits)
  have "structures (insert i (in_state Waiting U c)) (in_state Ready U c) (set_waiting i c)"
    using assms(1,2) by (intro structures_set_waiting) (auto simp: cinv_def)
  moreover have "U - {i} \<subseteq> in_state Waiting {} (set_waiting i c) \<union> in_state Ready {} (set_waiting i c)"
    using assms(1) by (auto simp: cinv_def in_state_def f(11))
  ultimately show ?thesis using assms(1) unfolding cinv_def st f by auto
qed

lemma cinv_withdraw_state:
  assumes "cinv U c" "i \<in> known c" "state_of c i = Some Ready \<Longrightarrow> i \<notin> U" "st \<notin> {Waiting, Ready}"
  shows "cinv (U - {i}) (set_state st i (withdraw i c))" (is "cinv _ ?c")
proof -
  note f = withdraw_fields[OF assms(2)] and k = known_update[OF withdraw_fields(1)[OF assms(2)]]
  have so: "state_of ?c = (state_of c)(i := Some st)"
    using assms(2) k by (simp add: fun_eq_iff state_of_set_state)
  have ins: "in_state Waiting (U - {i}) ?c = in_state Waiting U c - {i}" "in_state Ready (U - {i}) ?c = in_state Ready U c - {i}"
    using assms(4) by (auto simp: in_state_def so split: if_splits)
  have "structures (in_state Waiting U c - {i}) (in_state Ready U c - {i}) ?c"
    using assms(1,3) unfolding structures_set_state
    by (intro structures_withdraw assms(2)) (auto simp: cinv_def in_state_def)
  moreover have "U - {i} \<subseteq> in_state Waiting {} ?c \<union> in_state Ready {} ?c"
    using assms(1) by (auto simp: cinv_def in_state_def so)
  ultimately show ?thesis using assms(1) unfolding cinv_def ins set_state_fields f by auto
qed

text \<open>A state change of a slice that is in no structure.\<close>

lemma cinv_unplaced_state:
  assumes "cinv U c" "i \<in> known c" "i \<in> U \<or> state_of c i \<notin> {Some Waiting, Some Ready}" "st \<in> {Waiting, Ready}"
  shows "cinv (insert i U) (set_state st i c)"
proof -
  have so: "state_of (set_state st i c) = (state_of c)(i := Some st)"
    using assms(2) by (simp add: fun_eq_iff state_of_set_state)
  have "in_state s (insert i U) (set_state st i c) = in_state s U c" if "s \<in> {Waiting, Ready}" for s
    using that assms(3) by (auto simp: in_state_def so)
  moreover have "insert i U \<subseteq> in_state Waiting {} (set_state st i c) \<union> in_state Ready {} (set_state st i c)"
    using assms(1,4) by (auto simp: cinv_def in_state_def so)
  moreover have "i \<notin> in_state Waiting U c \<union> in_state Ready U c" using assms(3) by (auto simp: in_state_def)
  ultimately show ?thesis using assms(1) by (auto simp: cinv_def)
qed

section \<open>Fences\<close>

text \<open>No slice that a live transaction refers to is waiting or ready, except for the slices \<open>A\<close> that
  an operation has still to settle.\<close>

definition finv :: "CompactionSliceId set \<Rightarrow> CompactionIndex \<Rightarrow> bool" where
  "finv A c \<longleftrightarrow> (\<forall>i. state_of c i \<in> {Some Waiting, Some Ready} \<longrightarrow> i \<in> A \<or> \<not> is_fenced i (ci_manifests c))"

definition good :: "CompactionSliceId set \<Rightarrow> CompactionSliceId set \<Rightarrow> CompactionIndex \<Rightarrow> bool" where
  "good U A c \<longleftrightarrow> cinv U c \<and> finv A c \<and> minv (ci_manifests c)"

lemma finv_weaken: "finv A c \<Longrightarrow> A \<subseteq> B \<Longrightarrow> finv B c"
  by (auto simp: finv_def)

text \<open>What the operations on single slices leave alone.\<close>

definition keeps :: "CompactionIndex \<Rightarrow> CompactionIndex \<Rightarrow> bool" where
  "keeps c c' \<longleftrightarrow> known c' = known c \<and> slice_of c' = slice_of c \<and> ci_manifests c' = ci_manifests c
     \<and> ci_byte_threshold c' = ci_byte_threshold c \<and> ci_time_threshold_secs c' = ci_time_threshold_secs c
     \<and> ci_segments c' = ci_segments c"

lemma keeps_refl [simp]: "keeps c c"
  by (simp add: keeps_def)

lemma keeps_trans [trans]: "keeps a b \<Longrightarrow> keeps b c \<Longrightarrow> keeps a c"
  by (simp add: keeps_def)

lemma keeps_set_ready [simp]: "keeps c (set_ready i c)"
  by (simp add: keeps_def set_ready_same)

lemma keeps_set_state [simp]: "keeps c (set_state st i c)"
  by (simp add: keeps_def)

lemma keeps_set_waiting: "i \<in> known c \<Longrightarrow> keeps c (set_waiting i c)"
  using set_waiting_fields[of i c] by (simp add: keeps_def same_data_def)

lemma keeps_withdraw: "i \<in> known c \<Longrightarrow> keeps c (withdraw i c)"
  using withdraw_fields[of i c] known_update[of "withdraw i c" c] by (simp add: keeps_def)

lemma withdraw_unknown:
  assumes "cinv U c" "i \<notin> known c"
  shows "withdraw i c = c"
proof -
  have "i \<notin> ci_waiting c" "i \<notin> ci_force_only_ready c"
    using assms cinv_known by blast+
  then show ?thesis using assms(2)
    by (simp add: withdraw_def remove_from_current_queue_def Let_def known_iff forget_waiting_id_def set_available_bytes_def)
qed

lemma set_fenced_good:
  assumes "good U A c" "state_of c i = Some Ready \<Longrightarrow> i \<notin> U"
  shows "good (U - {i}) (A - {i}) (set_fenced i c)" "keeps c (set_fenced i c)"
    "state_of (set_fenced i c) = (if i \<in> known c then (state_of c)(i := Some SFenced) else state_of c)"
proof -
  have "good (U - {i}) (A - {i}) (set_fenced i c) \<and> keeps c (set_fenced i c)
    \<and> state_of (set_fenced i c) = (if i \<in> known c then (state_of c)(i := Some SFenced) else state_of c)"
  proof (cases "i \<in> known c")
    case True
    have c: "cinv (U - {i}) (set_fenced i c)" unfolding set_fenced_def
      using assms True by (intro cinv_withdraw_state) (auto simp: good_def)
    have k: "keeps c (set_fenced i c)" unfolding set_fenced_def
      using keeps_withdraw[OF True] keeps_set_state keeps_trans by blast
    have s: "state_of (set_fenced i c) = (state_of c)(i := Some SFenced)"
      using True known_update[OF withdraw_fields(1)[OF True]] by (simp add: set_fenced_def fun_eq_iff state_of_set_state)
    then have "finv (A - {i}) (set_fenced i c)" using assms(1) k by (auto simp: good_def finv_def keeps_def)
    then show ?thesis using c k s assms(1) True by (auto simp: good_def keeps_def)
  next
    case False
    then have "set_fenced i c = c" using withdraw_unknown assms(1) by (auto simp: set_fenced_def set_state_def good_def known_iff)
    moreover have "i \<notin> U" "state_of c i = None"
      using assms(1) False cinv_known(1)[of U c i] by (auto simp: good_def state_of_def known_iff)
    ultimately show ?thesis using assms(1) False by (auto simp: good_def finv_def)
  qed
  then show "good (U - {i}) (A - {i}) (set_fenced i c)" "keeps c (set_fenced i c)"
    "state_of (set_fenced i c) = (if i \<in> known c then (state_of c)(i := Some SFenced) else state_of c)" by simp_all
qed

lemma set_ready_good:
  assumes "good U A c" "i \<in> known c" "state_of c i = Some Ready \<Longrightarrow> i \<notin> U" "i \<in> A \<or> \<not> is_fenced i (ci_manifests c)"
  shows "good (U - {i}) A (set_ready i c)"
proof -
  have "state_of (set_ready i c) = (state_of c)(i := Some Ready)"
    using set_ready_fields(3)[OF assms(2)] by (cases "state_of c i = Some Ready") (auto simp: set_ready_def fun_eq_iff)
  then have "finv A (set_ready i c)" using assms(1,4) by (auto simp: good_def finv_def set_ready_same)
  then show ?thesis using assms cinv_set_ready by (auto simp: good_def set_ready_same)
qed

text \<open>The outcome of an operation that settles the slice \<open>i\<close> and may promote waiting slices.\<close>

definition promotes :: "CompactionSliceId set \<Rightarrow> CompactionIndex \<Rightarrow> CompactionIndex \<Rightarrow> bool" where
  "promotes U c c' \<longleftrightarrow> keeps c c' \<and> (\<forall>j. state_of c' j = state_of c j
     \<or> (state_of c j = Some Waiting \<and> state_of c' j = Some Ready \<and> j \<notin> U))"

lemma promotes_refl [simp]: "promotes U c c"
  by (simp add: promotes_def)

lemma fold_set_ready_good:
  assumes "good U A c" "set ids \<subseteq> in_state Waiting U c" "distinct ids"
  shows "good U A (fold set_ready ids c) \<and> promotes U c (fold set_ready ids c)
    \<and> (\<forall>j. state_of (fold set_ready ids c) j = (if j \<in> set ids then Some Ready else state_of c j))"
  using assms
proof (induction ids arbitrary: c)
  case (Cons i ids)
  then have i: "state_of c i = Some Waiting" "i \<notin> U" "i \<in> known c" "i \<notin> set ids"
    by (auto simp: in_state_def state_of_known)
  then have s: "state_of (set_ready i c) = (state_of c)(i := Some Ready)" using set_ready_fields(3)[of i c] by simp
  have "good (U - {i}) A (set_ready i c)"
    using Cons.prems(1) i by (intro set_ready_good) (auto simp: good_def finv_def)
  then have "good U A (set_ready i c)" using i by simp
  moreover have "set ids \<subseteq> in_state Waiting U (set_ready i c)"
    using Cons.prems(2) i s by (auto simp: in_state_def)
  ultimately have "good U A (fold set_ready ids (set_ready i c)) \<and> promotes U (set_ready i c) (fold set_ready ids (set_ready i c))
     \<and> (\<forall>j. state_of (fold set_ready ids (set_ready i c)) j = (if j \<in> set ids then Some Ready else state_of (set_ready i c) j))"
    using Cons.prems(3) by (intro Cons.IH) auto
  then show ?case using i s Cons.prems(2) keeps_trans[OF keeps_set_ready]
    by (auto simp: promotes_def in_state_def)
qed simp

lemma promote_group_good:
  assumes "good U A c"
  shows "good U A (promote_waiting_group g c)" "promotes U c (promote_waiting_group g c)"
proof -
  have "good U A (promote_waiting_group g c) \<and> promotes U c (promote_waiting_group g c)"
  proof (cases "fmlookup (ci_waiting_ids_by_group c) g")
    case None
    then show ?thesis using assms by (simp add: promote_waiting_group_def)
  next
    case (Some ids)
    then have "ids \<subseteq> in_state Waiting U c"
      using assms by (auto simp: good_def cinv_def structures_def waiting_inv_def split: if_splits)
    moreover from this have "finite ids" using in_state_known finite_subset[OF _ finite_known] by blast
    ultimately show ?thesis using Some fold_set_ready_good[OF assms, of "sorted_list_of_set ids"]
      by (simp add: promote_waiting_group_def)
  qed
  then show "good U A (promote_waiting_group g c)" "promotes U c (promote_waiting_group g c)" by simp_all
qed

text \<open>\<open>settles U i c c'\<close>: the slice \<open>i\<close> has been placed, waiting slices may have become ready.\<close>

definition settles :: "CompactionSliceId set \<Rightarrow> CompactionSliceId \<Rightarrow> CompactionIndex \<Rightarrow> CompactionIndex \<Rightarrow> bool" where
  "settles U i c c' \<longleftrightarrow> keeps c c' \<and> (\<forall>j. j \<noteq> i \<longrightarrow> state_of c' j = state_of c j
     \<or> (state_of c j = Some Waiting \<and> state_of c' j = Some Ready \<and> j \<notin> U))"

lemma classify_good:
  assumes "good U A c" "if i \<in> U then state_of c i = Some Waiting else state_of c i \<notin> {Some Waiting, Some Ready}"
  shows "good (U - {i}) (A - {i}) (classify_available now i c) \<and> settles U i c (classify_available now i c)"
proof -
  have ready: "state_of c i \<noteq> Some Ready" using assms(2) by (auto split: if_splits)
  consider "is_fenced i (ci_manifests c)" | "\<not> is_fenced i (ci_manifests c)" "slice_rec c i = None"
    | r where "\<not> is_fenced i (ci_manifests c)" "slice_rec c i = Some r" by (cases "slice_rec c i") auto
  then show ?thesis
  proof cases
    case 1
    then show ?thesis using set_fenced_good[OF assms(1), of i] ready
      by (auto simp: classify_available_def settles_def)
  next
    case 2
    then have "i \<notin> U" using assms(1) cinv_known(1)[of U c i] by (auto simp: good_def known_iff)
    then show ?thesis using 2 assms(1) by (auto simp: classify_available_def settles_def good_def finv_def)
  next
    case 3
    have known: "i \<in> known c" using 3 by (simp add: known_iff)
    have A: "finv (A - {i}) c" using assms(1) 3(1) by (auto simp: good_def finv_def)
    then have g0: "good U (A - {i}) c" using assms(1) by (simp add: good_def)
    have w: "i \<notin> ci_waiting c"
      using assms by (auto simp: good_def cinv_def structures_def waiting_inv_def in_state_def split: if_splits)
    show ?thesis
    proof (cases "late_ready now (sr_slice r) c")
      case True
      then show ?thesis
        using set_ready_good[OF g0 known] 3 ready set_ready_fields(3)[OF known ready]
        by (auto simp: classify_available_def settles_def)
    next
      case False
      let ?c1 = "set_waiting i c"
      have "cinv (U - {i}) ?c1" using cinv_set_waiting[OF _ known] assms(1) ready by (auto simp: good_def)
      moreover have "finv (A - {i}) ?c1" using A 3(1) set_waiting_fields(7,11)[OF known] by (auto simp: finv_def)
      ultimately have g1: "good (U - {i}) (A - {i}) ?c1" using assms(1) set_waiting_fields(7)[OF known] by (simp add: good_def)
      have k1: "settles U i c ?c1" using keeps_set_waiting[OF known] set_waiting_fields(11)[OF known] by (simp add: settles_def)
      have e: "classify_available now i c = (if or_max (ci_byte_threshold ?c1) \<le> group_available_bytes (sl_group_key (sr_slice r)) ?c1
          then promote_waiting_group (sl_group_key (sr_slice r)) ?c1 else ?c1)"
        using 3 False w ready by (simp add: classify_available_def Let_def)
      have "settles U i c (promote_waiting_group (sl_group_key (sr_slice r)) ?c1)"
        using promote_group_good(2)[OF g1] k1 keeps_trans set_waiting_fields(11)[OF known]
        unfolding promotes_def settles_def by (metis Diff_iff empty_iff fun_upd_other insert_iff)
      then show ?thesis unfolding e using g1 k1 promote_group_good(1)[OF g1] by simp
    qed
  qed
qed

section \<open>Rebuilding, demoting, promoting\<close>

lemma reclassify_good:
  assumes "good U A c" "i \<in> U"
  shows "good (U - {i}) (A - {i}) (reclassify now i c) \<and> settles U i c (reclassify now i c)"
proof -
  have k: "i \<in> known c" using assms cinv_known(1) by (auto simp: good_def)
  have st: "state_of c i \<in> {Some Waiting, Some Ready}" using assms by (auto simp: good_def cinv_def in_state_def)
  let ?c = "set_state Waiting i c"
  have "cinv U ?c" using cinv_unplaced_state[OF _ k, of U Waiting] assms by (auto simp: good_def insert_absorb)
  moreover have "finv A ?c" using assms st by (auto simp: good_def finv_def state_of_set_state)
  ultimately have "good U A ?c" using assms(1) by (simp add: good_def)
  from classify_good[OF this, of i now]
  have "good (U - {i}) (A - {i}) (classify_available now i ?c) \<and> settles U i ?c (classify_available now i ?c)"
    using assms(2) k by (simp add: state_of_set_state)
  then show ?thesis using keeps_trans[OF keeps_set_state] unfolding reclassify_def settles_def
    by (auto simp: state_of_set_state)
qed

lemma good_weaken: "good U A c \<Longrightarrow> A \<subseteq> B \<Longrightarrow> good U B c"
  using finv_weaken by (auto simp: good_def)

lemma fold_reclassify_good:
  assumes "good U A c" "set ids \<subseteq> U" "distinct ids"
  shows "good (U - set ids) A (fold (reclassify now) ids c) \<and> keeps c (fold (reclassify now) ids c)"
  using assms
proof (induction ids arbitrary: U c)
  case (Cons i ids)
  then have r: "good (U - {i}) (A - {i}) (reclassify now i c)" "keeps c (reclassify now i c)"
    using reclassify_good[of U A c i] by (auto simp: settles_def)
  then have "good (U - {i} - set ids) A (fold (reclassify now) ids (reclassify now i c))
     \<and> keeps (reclassify now i c) (fold (reclassify now) ids (reclassify now i c))"
    using Cons.prems by (intro Cons.IH) (auto intro: good_weaken)
  then show ?case using r(2) keeps_trans by (auto simp: Diff_insert2[symmetric] insert_commute)
qed simp

lemma cinv_core: "cinv U c \<Longrightarrow> ids_inv c \<and> segment_inv c"
  by (simp add: cinv_def structures_def)

lemma cleared_structures:
  assumes "ids_inv c" "segment_inv c" "ci_groups c = fmempty" "ci_lanes c = fmempty" "ci_waiting c = {}"
    "ci_waiting_by_age c = []" "ci_waiting_ids_by_group c = fmempty" "ci_ready_count c = 0" "ci_ready_group_count c = 0"
  shows "structures {} {} c"
  using assms by (simp add: structures_def queue_inv_def waiting_inv_def group_queue_def lane_state_def)

lemma rebuild_good:
  assumes "ids_inv c \<and> segment_inv c" "finv A c" "minv (ci_manifests c)" "hash_order_ok ho"
  shows "good {} A (rebuild_available_queues ho now c)" "keeps c (rebuild_available_queues ho now c)"
proof -
  let ?c0 = "c\<lparr>ci_groups := fmempty, ci_lanes := fmempty, ci_waiting := {}, ci_waiting_by_age := [],
              ci_waiting_ids_by_group := fmempty, ci_available_bytes_by_group := fmempty, ci_available_counted := {},
              ci_force_only_ready := {}, ci_ready_count := 0, ci_ready_group_count := 0\<rparr>"
  let ?U = "in_state Waiting {} c \<union> in_state Ready {} c"
  let ?ids = "filter (\<lambda>i. state_of ?c0 i \<in> {Some Waiting, Some Ready}) (ho_slices ho (fmdom' (ci_slices ?c0)))"
  have k: "known ?c0 = known c" "slice_of ?c0 = slice_of c" "state_of ?c0 = state_of c" using known_update[of ?c0 c] by simp_all
  have d: "same_data c ?c0" using k by (simp add: same_data_def)
  have "structures {} {} ?c0"
    using assms(1) same_data_views[OF d] by (intro cleared_structures) simp_all
  moreover have "in_state Waiting ?U ?c0 = {}" "in_state Ready ?U ?c0 = {}" using k by (auto simp: in_state_def)
  moreover have "in_state Waiting {} ?c0 = in_state Waiting {} c" "in_state Ready {} ?c0 = in_state Ready {} c"
    using k by (simp_all add: in_state_def)
  ultimately have "cinv ?U ?c0" unfolding cinv_def by simp
  moreover have "finv A ?c0" using assms(2) k by (simp add: finv_def)
  ultimately have g: "good ?U A ?c0" using assms(3) by (simp add: good_def)
  have ids: "set ?ids = ?U" "distinct ?ids"
    using assms(4) k state_of_known unfolding hash_order_ok_def by (auto simp: in_state_def known_def)
  have e: "rebuild_available_queues ho now c = fold (reclassify now) ?ids ?c0"
    by (simp add: rebuild_available_queues_def Let_def)
  have "keeps c ?c0" using k by (simp add: keeps_def)
  then show "good {} A (rebuild_available_queues ho now c)" "keeps c (rebuild_available_queues ho now c)"
    unfolding e using fold_reclassify_good[OF g _ ids(2), of now] ids(1) keeps_trans by auto
qed

lemma configure_good:
  assumes "good {} A c" "hash_order_ok ho"
  shows "good {} A (configure_thresholds ho bt tt now c)"
    "known (configure_thresholds ho bt tt now c) = known c"
    "slice_of (configure_thresholds ho bt tt now c) = slice_of c"
    "ci_segments (configure_thresholds ho bt tt now c) = ci_segments c"
    "ci_manifests (configure_thresholds ho bt tt now c) = ci_manifests c"
proof -
  have all: "good {} A (configure_thresholds ho bt tt now c) \<and> known (configure_thresholds ho bt tt now c) = known c
    \<and> slice_of (configure_thresholds ho bt tt now c) = slice_of c
    \<and> ci_segments (configure_thresholds ho bt tt now c) = ci_segments c
    \<and> ci_manifests (configure_thresholds ho bt tt now c) = ci_manifests c"
  proof (cases "ci_byte_threshold c = Some bt \<and> ci_time_threshold_secs c = Some tt")
    case True
    then show ?thesis using assms by (simp add: configure_thresholds_def)
  next
    case False
    let ?c = "c\<lparr>ci_byte_threshold := Some bt, ci_time_threshold_secs := Some tt\<rparr>"
    have e: "configure_thresholds ho bt tt now c = rebuild_available_queues ho now ?c"
      using False by (auto simp: configure_thresholds_def)
    have k: "known ?c = known c" "slice_of ?c = slice_of c" "state_of ?c = state_of c" using known_update[of ?c c] by simp_all
    have "grp ?c = grp c" using k by (simp add: grp_def fun_eq_iff)
    then have "ids_inv ?c = ids_inv c" "segment_inv ?c = segment_inv c" using k by (simp_all add: ids_inv_def segment_inv_def)
    then have "ids_inv ?c \<and> segment_inv ?c" using assms(1) cinv_core[of "{}" c] by (simp add: good_def)
    moreover have "finv A ?c" "minv (ci_manifests ?c)" using assms(1) k by (auto simp: good_def finv_def)
    ultimately show ?thesis unfolding e using rebuild_good[of ?c A ho now] assms(2) k by (simp add: keeps_def)
  qed
  then show "good {} A (configure_thresholds ho bt tt now c)"
    "known (configure_thresholds ho bt tt now c) = known c"
    "slice_of (configure_thresholds ho bt tt now c) = slice_of c"
    "ci_segments (configure_thresholds ho bt tt now c) = ci_segments c"
    "ci_manifests (configure_thresholds ho bt tt now c) = ci_manifests c" by simp_all
qed

lemma unqueue_good:
  assumes "good U A c" "state_of c i = Some Ready" "i \<notin> U"
  defines "c' \<equiv> (remove_from_current_queue i c)\<lparr>ci_force_only_ready := ci_force_only_ready (remove_from_current_queue i c) - {i}\<rparr>"
  shows "good (insert i U) A c'" "keeps c c'" "state_of c' = state_of c"
proof -
  have known: "i \<in> known c" and ready: "i \<in> in_state Ready U c" using assms(2,3) by (auto simp: state_of_known in_state_def)
  have c: "cinv U c" using assms(1) by (simp add: good_def)
  then have "i \<notin> ci_waiting c" using assms(2) by (auto simp: cinv_def structures_def waiting_inv_def in_state_def)
  then have e: "c' = (dequeue_ready (slice_of c i) c)\<lparr>ci_force_only_ready := ci_force_only_ready c - {i}\<rparr>"
    using assms(2) unfolding c'_def
    by (auto simp: remove_from_current_queue_def Let_def state_of_def slice_of_def)
  have s: "known c' = known c" "slice_of c' = slice_of c" "state_of c' = state_of c" using known_update[of c' c] by (simp_all add: e)
  then show "state_of c' = state_of c" "keeps c c'" by (simp_all add: keeps_def e)
  have ins: "in_state Waiting (insert i U) c' = in_state Waiting U c" "in_state Ready (insert i U) c' = in_state Ready U c - {i}"
    using assms(2) by (auto simp: in_state_def s)
  have "structures (in_state Waiting U c) (in_state Ready U c - {i}) c'"
    using structures_dequeue[OF _ ready] c unfolding e cinv_def by simp
  moreover have "insert i U \<subseteq> in_state Waiting {} c' \<union> in_state Ready {} c'"
    using c assms(2) by (auto simp: cinv_def in_state_def s)
  moreover have "i \<notin> in_state Waiting U c" using assms(2) by (simp add: in_state_def)
  ultimately have "cinv (insert i U) c'" using c unfolding cinv_def ins by (auto simp: e)
  moreover have "finv A c'" using assms(1) s by (simp add: good_def finv_def e)
  ultimately show "good (insert i U) A c'" using assms(1) by (simp add: good_def e)
qed

lemma demote_good:
  assumes "good {} A c" "state_of c i = Some Ready"
  shows "good {} A (demote_slice now i c) \<and> settles {} i c (demote_slice now i c)"
proof -
  let ?c = "(remove_from_current_queue i c)\<lparr>ci_force_only_ready := ci_force_only_ready (remove_from_current_queue i c) - {i}\<rparr>"
  note u = unqueue_good[OF assms, simplified]
  have "good ({i} - {i}) (A - {i}) (reclassify now i ?c) \<and> settles {i} i ?c (reclassify now i ?c)"
    using u(1) by (intro reclassify_good) simp_all
  then have "good {} A (reclassify now i ?c)" "settles {} i c (reclassify now i ?c)"
    using u(2,3) keeps_trans[OF u(2)] by (auto simp: settles_def intro: good_weaken)
  then show ?thesis by (simp add: demote_slice_def Let_def)
qed

lemma fold_demote_good:
  assumes "good {} A c" "set ids \<subseteq> in_state Ready {} c" "distinct ids"
  shows "good {} A (fold (demote_slice now) ids c) \<and> keeps c (fold (demote_slice now) ids c)"
  using assms
proof (induction ids arbitrary: c)
  case (Cons i ids)
  then have d: "good {} A (demote_slice now i c)" "settles {} i c (demote_slice now i c)"
    using demote_good[of A c i] by (auto simp: in_state_def)
  have "set ids \<subseteq> in_state Ready {} (demote_slice now i c)"
  proof
    fix j assume "j \<in> set ids"
    then have "j \<noteq> i" "state_of c j = Some Ready" using Cons.prems by (auto simp: in_state_def)
    then show "j \<in> in_state Ready {} (demote_slice now i c)" using d(2) by (auto simp: settles_def in_state_def)
  qed
  then have "good {} A (fold (demote_slice now) ids (demote_slice now i c))
      \<and> keeps (demote_slice now i c) (fold (demote_slice now) ids (demote_slice now i c))"
    using Cons.prems(3) d(1) by (intro Cons.IH) simp_all
  then show ?case using d(2) keeps_trans by (auto simp: settles_def)
qed simp

lemma forced_finite:
  assumes "cinv U c"
  shows "finite (ci_force_only_ready c)" "finite (ci_waiting c)"
    "ci_force_only_ready c \<subseteq> in_state Ready U c" "ci_waiting c = in_state Waiting U c"
proof -
  show w: "ci_force_only_ready c \<subseteq> in_state Ready U c" "ci_waiting c = in_state Waiting U c"
    using assms by (simp_all add: cinv_def structures_def waiting_inv_def)
  show "finite (ci_force_only_ready c)" "finite (ci_waiting c)"
    using finite_subset[OF in_state_known finite_known] w finite_subset by metis+
qed

lemma demote_force_only_good:
  assumes "good {} A c"
  shows "good {} A (demote_force_only now c)" "keeps c (demote_force_only now c)"
  using fold_demote_good[OF assms, of "sorted_list_of_set (ci_force_only_ready c)" now] forced_finite[of "{}" c] assms
  by (auto simp: demote_force_only_def good_def)

lemma mark_recovered_good:
  assumes "good {} A c"
  shows "good {} A (mark_recovered_ready c)" "in_state Waiting {} (mark_recovered_ready c) = {}"
  using fold_set_ready_good[OF assms, of "sorted_list_of_set (ci_waiting c)"] forced_finite[of "{}" c] assms
  by (auto simp: mark_recovered_ready_def good_def in_state_def)

lemma promote_forced_good:
  assumes "good {} A c" "state_of c i = Some Waiting"
  shows "good {} A (promote_forced now i c)" "keeps c (promote_forced now i c)"
    "state_of (promote_forced now i c) = (state_of c)(i := Some Ready)"
proof -
  have k: "i \<in> known c" using assms(2) by (rule state_of_known)
  have g: "good {} A (set_ready i c)"
    using set_ready_good[OF assms(1) k] assms by (auto simp: good_def finv_def)
  have s: "state_of (set_ready i c) = (state_of c)(i := Some Ready)" using set_ready_fields(3)[OF k] assms(2) by simp
  let ?c = "(set_ready i c)\<lparr>ci_force_only_ready := insert i (ci_force_only_ready (set_ready i c))\<rparr>"
  have so: "state_of ?c = state_of (set_ready i c)" by (simp add: state_of_def fun_eq_iff)
  have "good {} A ?c" using g s so by (auto simp: good_def cinv_def in_state_def finv_def)
  moreover have "keeps c ?c" using keeps_set_ready[of c i] known_update[of ?c "set_ready i c"] by (simp add: keeps_def)
  ultimately show "good {} A (promote_forced now i c)" "keeps c (promote_forced now i c)"
    "state_of (promote_forced now i c) = (state_of c)(i := Some Ready)"
    using g s so by (simp_all add: promote_forced_def Let_def)
qed

lemma promote_all_good:
  assumes "good {} A c"
  shows "good {} A (promote_all_waiting now c)" "keeps c (promote_all_waiting now c)"
    "in_state Waiting {} (promote_all_waiting now c) = {}"
proof -
  have "good {} A (fold (promote_forced now) ids c) \<and> keeps c (fold (promote_forced now) ids c)
      \<and> in_state Waiting {} (fold (promote_forced now) ids c) = in_state Waiting {} c - set ids"
    if "good {} A c" "set ids \<subseteq> in_state Waiting {} c" "distinct ids" for ids c
    using that
  proof (induction ids arbitrary: c)
    case (Cons i ids)
    then have p: "good {} A (promote_forced now i c)" "keeps c (promote_forced now i c)"
      "state_of (promote_forced now i c) = (state_of c)(i := Some Ready)"
      using promote_forced_good[of A c i] by (auto simp: in_state_def)
    then have w: "in_state Waiting {} (promote_forced now i c) = in_state Waiting {} c - {i}" by (auto simp: in_state_def)
    have "good {} A (fold (promote_forced now) ids (promote_forced now i c))
      \<and> keeps (promote_forced now i c) (fold (promote_forced now) ids (promote_forced now i c))
      \<and> in_state Waiting {} (fold (promote_forced now) ids (promote_forced now i c)) = in_state Waiting {} (promote_forced now i c) - set ids"
      using Cons.prems p(1) w by (intro Cons.IH) auto
    then show ?case using p(2) keeps_trans w by auto
  qed simp
  from this[OF assms, of "sorted_list_of_set (ci_waiting c)"] forced_finite[of "{}" c] assms
  show "good {} A (promote_all_waiting now c)" "keeps c (promote_all_waiting now c)"
    "in_state Waiting {} (promote_all_waiting now c) = {}"
    by (auto simp: promote_all_waiting_def good_def)
qed

section \<open>Promotion of old slices\<close>

lemma set_ready_age_update:
  "set_ready i (c\<lparr>ci_waiting_by_age := es\<rparr>) = (set_ready i c)\<lparr>ci_waiting_by_age := es\<rparr>"
proof -
  have 1: "forget_waiting_id i (c\<lparr>ci_waiting_by_age := es\<rparr>) = (forget_waiting_id i c)\<lparr>ci_waiting_by_age := es\<rparr>" for c
    by (simp add: forget_waiting_id_def Let_def split: option.split)
  have 2: "set_available_bytes i True (c\<lparr>ci_waiting_by_age := es\<rparr>) = (set_available_bytes i True c)\<lparr>ci_waiting_by_age := es\<rparr>" for c
    by (simp add: set_available_bytes_def group_available_bytes_def Let_def split: option.split)
  have 3: "enqueue_ready sl (c\<lparr>ci_waiting_by_age := es\<rparr>) = (enqueue_ready sl c)\<lparr>ci_waiting_by_age := es\<rparr>" for sl c
    by (simp add: enqueue_ready_def segment_remaining_def group_queue_def lane_state_def Let_def)
  have 4: "set_state st i (c\<lparr>ci_waiting_by_age := es\<rparr>) = (set_state st i c)\<lparr>ci_waiting_by_age := es\<rparr>" for st c
    by (simp add: set_state_def split: option.split)
  have com: "c\<lparr>ci_waiting_by_age := es, ci_waiting := w, ci_force_only_ready := f\<rparr>
     = c\<lparr>ci_waiting := w, ci_force_only_ready := f, ci_waiting_by_age := es\<rparr>" for c :: CompactionIndex and w f by simp
  show ?thesis
    by (simp add: set_ready_def Let_def state_of_def 1 com 2 3 4 split: option.split)
qed

lemma we_id_entry: "we_id (entry_of c i) = i"
  by (simp add: entry_of_def)

lemma structures_pop:
  assumes "structures W R c" "ci_waiting_by_age c = e # es" "e \<notin> entry_of c ` W"
  shows "structures W R (c\<lparr>ci_waiting_by_age := es\<rparr>)" (is "structures W R ?c")
proof -
  have d: "same_data c ?c" by (simp add: same_data_def known_def slice_of_def fun_eq_iff)
  have "entry_of ?c = entry_of c" by (simp add: entry_of_def same_data_views[OF d] fun_eq_iff)
  then have "waiting_inv W ?c" using assms by (auto simp: structures_def waiting_inv_def same_data_views[OF d])
  moreover have "queue_inv R ?c = queue_inv R c" by (rule queue_inv_frame[OF d]) simp_all
  ultimately show ?thesis using assms(1) same_data_views[OF d] d by (auto simp: structures_def same_data_def)
qed

lemma good_pop:
  assumes "good U A c" "ci_waiting_by_age c = e # es" "e \<notin> entry_of c ` in_state Waiting U c"
  shows "good U A (c\<lparr>ci_waiting_by_age := es\<rparr>)" (is "good U A ?c")
proof -
  have s: "state_of ?c = state_of c" by (simp add: state_of_def fun_eq_iff)
  then show ?thesis using assms structures_pop[of "in_state Waiting U c" "in_state Ready U c" c e es]
    by (simp add: good_def cinv_def in_state_def finv_def)
qed

lemma promote_step_good:
  assumes "good {} A c" "ci_waiting_by_age c = e # es"
    "valid = (case slice_rec c (we_id e) of None \<Rightarrow> False | Some r \<Rightarrow> sr_state r = Waiting \<and> sr_wait_generation r = we_generation e)"
  defines "c1 \<equiv> c\<lparr>ci_waiting_by_age := es\<rparr>"
  defines "c' \<equiv> if valid then set_ready (we_id e) c1 else c1"
  shows "good {} A c'" "promotes {} c c'"
proof -
  have same: "keeps c c1" "state_of c1 = state_of c" using known_update[of c1 c] by (simp_all add: c1_def keeps_def)
  have "good {} A c' \<and> promotes {} c c'"
  proof (cases valid)
    case True
    then have st: "state_of c (we_id e) = Some Waiting" using assms(3) by (auto simp: state_of_def split: option.splits)
    then have k: "we_id e \<in> known c" by (rule state_of_known)
    have g: "good {} A (set_ready (we_id e) c)" using set_ready_good[OF assms(1) k] assms(1) st by (auto simp: good_def finv_def)
    have s: "state_of (set_ready (we_id e) c) = (state_of c)(we_id e := Some Ready)" using set_ready_fields(3)[OF k] st by simp
    then have "we_id e \<notin> in_state Waiting {} (set_ready (we_id e) c)" by (simp add: in_state_def)
    then have "e \<notin> entry_of (set_ready (we_id e) c) ` in_state Waiting {} (set_ready (we_id e) c)"
      using we_id_entry by (metis imageE)
    then have "good {} A ((set_ready (we_id e) c)\<lparr>ci_waiting_by_age := es\<rparr>)" using good_pop[OF g, of e es] assms(2) by simp
    then have "good {} A c'" using True by (simp add: c'_def c1_def set_ready_age_update)
    moreover have "state_of c' = (state_of c)(we_id e := Some Ready)"
      using True s by (simp add: c'_def c1_def set_ready_age_update) (simp add: state_of_def fun_eq_iff)
    moreover have "keeps c c'" using True same(1) keeps_trans[OF _ keeps_set_ready] by (simp add: c'_def)
    ultimately show ?thesis using st by (auto simp: promotes_def)
  next
    case False
    then have "e \<notin> entry_of c ` in_state Waiting {} c"
      using assms(3) by (auto simp: in_state_def entry_of_def state_of_def)
    then show ?thesis using good_pop[OF assms(1,2)] False same by (auto simp: c'_def c1_def promotes_def)
  qed
  then show "good {} A c'" "promotes {} c c'" by simp_all
qed

lemma promotes_trans: "promotes {} a b \<Longrightarrow> promotes {} b c \<Longrightarrow> promotes {} a c"
proof -
  assume ab: "promotes {} a b" and bc: "promotes {} b c"
  have "state_of c j = state_of a j \<or> state_of a j = Some Waiting \<and> state_of c j = Some Ready" for j
    using ab[unfolded promotes_def, THEN conjunct2, rule_format, of j] bc[unfolded promotes_def, THEN conjunct2, rule_format, of j]
    by auto
  then show ?thesis using ab bc keeps_trans by (auto simp: promotes_def)
qed

lemma promote_due_good:
  "good {} A c \<Longrightarrow> good {} A (promote_due now c) \<and> promotes {} c (promote_due now c)
     \<and> (\<forall>i \<in> in_state Waiting {} (promote_due now c). now < eligible_at (promote_due now c) i)"
proof (induction now c rule: promote_due.induct)
  case (1 now c)
  show ?case
  proof (cases "ci_waiting_by_age c")
    case Nil
    then have "in_state Waiting {} c = {}" using 1(2) by (auto simp: good_def cinv_def structures_def waiting_inv_def)
    then show ?thesis using Nil 1(2) by (simp add: promote_due.simps[of now c])
  next
    case (Cons e es)
    show ?thesis
    proof (cases "now < we_eligible_at_secs e")
      case True
      have "now < eligible_at c i" if "i \<in> in_state Waiting {} c" for i
      proof -
        have "entry_of c i \<in> set (e # es)" "sorted (e # es)"
          using 1(2) that Cons by (auto simp: good_def cinv_def structures_def waiting_inv_def)
        then have "e \<le> entry_of c i" by auto
        then have "we_eligible_at_secs e \<le> eligible_at c i"
          by (auto simp: less_eq_WaitingEntry_def waiting_tuple_def entry_of_def less_eq_prod_def)
        then show ?thesis using True by (rule order.strict_trans2[rotated])
      qed
      then show ?thesis using Cons True 1(2) by (simp add: promote_due.simps[of now c])
    next
      case False
      define valid where "valid = (case slice_rec c (we_id e) of None \<Rightarrow> False
         | Some r \<Rightarrow> sr_state r = Waiting \<and> sr_wait_generation r = we_generation e)"
      define c' where "c' = (if valid then set_ready (we_id e) (c\<lparr>ci_waiting_by_age := es\<rparr>) else c\<lparr>ci_waiting_by_age := es\<rparr>)"
      have e: "promote_due now c = promote_due now c'"
        using Cons False by (simp add: promote_due.simps[of now c] Let_def valid_def c'_def)
      note st = promote_step_good[OF 1(2) Cons valid_def, folded c'_def]
      have "good {} A (promote_due now c') \<and> promotes {} c' (promote_due now c')
         \<and> (\<forall>i \<in> in_state Waiting {} (promote_due now c'). now < eligible_at (promote_due now c') i)"
        using 1(1)[OF Cons False refl refl] st(1) unfolding c'_def valid_def by simp
      then show ?thesis unfolding e using promotes_trans[OF st(2)] by blast
    qed
  qed
qed

section \<open>Removing a slice\<close>

lemma rq_update_empty [simp]: "rq_update_segment_remaining seg r rq_empty = rq_empty"
  by (simp add: rq_update_segment_remaining_def rq_empty_def)

lemma fold_update_groups:
  assumes "distinct gs"
  shows "\<exists>G. fold (update_group_remaining seg r) gs c = c\<lparr>ci_groups := G\<rparr>
    \<and> (\<forall>g. group_queue g (c\<lparr>ci_groups := G\<rparr>) =
        (if g \<in> set gs then rq_update_segment_remaining seg r (group_queue g c) else group_queue g c))"
  using assms
proof (induction gs arbitrary: c)
  case Nil
  show ?case by (intro exI[of _ "ci_groups c"]) simp
next
  case (Cons h gs)
  obtain H where H: "update_group_remaining seg r h c = c\<lparr>ci_groups := H\<rparr>"
    "\<And>g. group_queue g (c\<lparr>ci_groups := H\<rparr>) = (if g = h then rq_update_segment_remaining seg r (group_queue g c) else group_queue g c)"
  proof (cases "fmlookup (ci_groups c) h")
    case None
    then show ?thesis by (intro that[of "ci_groups c"]) (auto simp: update_group_remaining_def group_queue_def)
  next
    case (Some q)
    then show ?thesis by (intro that[of "fmupd h (rq_update_segment_remaining seg r q) (ci_groups c)"])
        (auto simp: update_group_remaining_def group_queue_def)
  qed
  from Cons.IH[of "c\<lparr>ci_groups := H\<rparr>"] Cons.prems obtain G where
    "fold (update_group_remaining seg r) gs (c\<lparr>ci_groups := H\<rparr>) = c\<lparr>ci_groups := G\<rparr>"
    "\<forall>g. group_queue g (c\<lparr>ci_groups := G\<rparr>) = (if g \<in> set gs then rq_update_segment_remaining seg r (group_queue g (c\<lparr>ci_groups := H\<rparr>))
       else group_queue g (c\<lparr>ci_groups := H\<rparr>))" by auto
  then show ?case using H Cons.prems by (intro exI[of _ G]) auto
qed

lemma fold_update_lanes:
  assumes "distinct ls"
  shows "\<exists>L. fold (update_lane_remaining seg r) ls c = c\<lparr>ci_lanes := L\<rparr>
    \<and> (\<forall>l. ls_queue (lane_state l (c\<lparr>ci_lanes := L\<rparr>)) =
        (if l \<in> set ls then rq_update_segment_remaining seg r (ls_queue (lane_state l c)) else ls_queue (lane_state l c)))"
  using assms
proof (induction ls arbitrary: c)
  case Nil
  show ?case by (intro exI[of _ "ci_lanes c"]) simp
next
  case (Cons h ls)
  obtain H where H: "update_lane_remaining seg r h c = c\<lparr>ci_lanes := H\<rparr>"
    "\<And>l. ls_queue (lane_state l (c\<lparr>ci_lanes := H\<rparr>)) =
       (if l = h then rq_update_segment_remaining seg r (ls_queue (lane_state l c)) else ls_queue (lane_state l c))"
  proof (cases "fmlookup (ci_lanes c) h")
    case None
    then show ?thesis by (intro that[of "ci_lanes c"]) (auto simp: update_lane_remaining_def lane_state_def)
  next
    case (Some s)
    then show ?thesis by (intro that[of "fmupd h (s\<lparr>ls_queue := rq_update_segment_remaining seg r (ls_queue s)\<rparr>) (ci_lanes c)"])
        (auto simp: update_lane_remaining_def lane_state_def)
  qed
  from Cons.IH[of "c\<lparr>ci_lanes := H\<rparr>"] Cons.prems obtain L where
    "fold (update_lane_remaining seg r) ls (c\<lparr>ci_lanes := H\<rparr>) = c\<lparr>ci_lanes := L\<rparr>"
    "\<forall>l. ls_queue (lane_state l (c\<lparr>ci_lanes := L\<rparr>)) = (if l \<in> set ls then rq_update_segment_remaining seg r (ls_queue (lane_state l (c\<lparr>ci_lanes := H\<rparr>)))
       else ls_queue (lane_state l (c\<lparr>ci_lanes := H\<rparr>)))" by auto
  then show ?case using H Cons.prems by (intro exI[of _ L]) auto
qed

text \<open>A queue after the count of the segment of the removed slice went down: updated queues get the
  new count, the others hold no slice of the segment.\<close>

lemma holds_recount:
  assumes "holds c q S" "S \<subseteq> known c" "ids_inv c"
    "\<And>j. j \<in> S \<Longrightarrow> slice_of c' j = slice_of c j"
    "remf c' = (remf c)(seg := r)"
    "q' = (if upd then rq_update_segment_remaining seg r q else q)"
    "\<not> upd \<Longrightarrow> \<forall>j\<in>S. segment_of j \<noteq> seg"
  shows "holds c' q' S"
proof -
  have img: "(\<lambda>j. slice_queue_key (slice_of c' j)) ` S = (\<lambda>j. slice_queue_key (slice_of c j)) ` S"
    using assms(4) by (intro image_cong) auto
  show ?thesis
  proof (cases upd)
    case True
    then show ?thesis using assms(1,5,6) rq.upd_laws[of "remf c" q seg r] img by (simp add: holds_def)
  next
    case False
    have "rq_invar (remf c') q"
    proof (rule rq.invar_cong)
      show "rq_invar (remf c) q" using assms(1) by (simp add: holds_def)
      fix k assume "k \<in> rq_content q"
      then obtain j where j: "j \<in> S" "k = slice_queue_key (slice_of c j)" using assms(1) by (auto simp: holds_def)
      then have "qk_id k = j" using assms(2,3) by (auto simp: ids_inv_def slice_queue_key_def)
      then show "remf c' (segment_of (qk_id k)) = remf c (segment_of (qk_id k))"
        using assms(5,7) False j by auto
    qed
    then show ?thesis using False assms(1,6) img by (simp add: holds_def)
  qed
qed

lemma segment_of_slice: "ids_inv c \<Longrightarrow> i \<in> known c \<Longrightarrow> slice_segment_key (slice_of c i) = segment_of i"
  by (auto simp: ids_inv_def slice_segment_key_def segment_of_def)

lemma structures_drop:
  assumes st: "structures W R c" and i: "i \<in> known c" "i \<notin> W" "i \<notin> R"
    and seg: "fmlookup (ci_segments c) (segment_of i) = Some s"
    and sl: "ci_slices c' = fmdrop i (ci_slices c)"
    and sg: "\<And>k. fmlookup (ci_segments c') k = (if k = segment_of i then
        (if ss_remaining s - 1 = 0 then None else Some (s\<lparr>ss_ids := ss_ids s - {i}, ss_remaining := ss_remaining s - 1\<rparr>))
        else fmlookup (ci_segments c) k)"
    and gq: "\<And>g. group_queue g c' = (if g \<in> ss_groups s then rq_update_segment_remaining (segment_of i) (ss_remaining s - 1) (group_queue g c)
        else group_queue g c)"
    and lq: "\<And>l. ls_queue (lane_state l c') = (if l \<in> ss_lanes s then rq_update_segment_remaining (segment_of i) (ss_remaining s - 1) (ls_queue (lane_state l c))
        else ls_queue (lane_state l c))"
    and rest: "ci_waiting c' = ci_waiting c" "ci_waiting_by_age c' = ci_waiting_by_age c"
      "ci_waiting_ids_by_group c' = ci_waiting_ids_by_group c" "ci_ready_count c' = ci_ready_count c"
      "ci_ready_group_count c' = ci_ready_group_count c" "ci_time_threshold_secs c' = ci_time_threshold_secs c"
  shows "structures W R c'"
proof -
  have sub: "W \<subseteq> known c" "R \<subseteq> known c" and ids: "ids_inv c" and si: "segment_inv c" and qi: "queue_inv R c" and wi: "waiting_inv W c"
    using st by (simp_all add: structures_def)
  have k: "known c' = known c - {i}" by (auto simp: known_def sl)
  have so: "slice_rec c' j = slice_rec c j" if "j \<noteq> i" for j using that by (simp add: sl)
  then have so': "slice_of c' j = slice_of c j" "grp c' j = grp c j" "eligible_at c' j = eligible_at c j" if "j \<noteq> i" for j
    using that rest(6) by (simp_all add: slice_of_def grp_def eligible_at_def)
  have s: "ss_ids s = {j \<in> known c. segment_of j = segment_of i}" "ss_remaining s = card (ss_ids s)"
    "finite (ss_groups s)" "finite (ss_lanes s)" "grp c ` ss_ids s \<subseteq> ss_groups s" "group_lane ` grp c ` ss_ids s \<subseteq> ss_lanes s"
    using si seg unfolding segment_inv_def by blast+
  have fin: "finite (ss_ids s)" and mem: "i \<in> ss_ids s" unfolding s(1) using i(1) by auto
  have card: "card (ss_ids s - {i}) = ss_remaining s - 1" using mem fin s(2) by simp
  have "ids_inv c'" using ids k so' by (auto simp: ids_inv_def)
  moreover have "segment_inv c'"
  proof -
    have "segment_of j \<in> fmdom' (ci_segments c')" if j: "j \<in> known c'" for j
    proof (cases "segment_of j = segment_of i")
      case True
      then have "j \<in> ss_ids s - {i}" using j k s(1) by auto
      then have "ss_remaining s - 1 \<noteq> 0" using card fin by (auto simp: card_eq_0_iff)
      then show ?thesis using True sg by (simp add: fmlookup_dom'_iff)
    next
      case False
      then show ?thesis using j k si sg by (auto simp: segment_inv_def fmlookup_dom'_iff)
    qed
    moreover have "ss_ids x = {j \<in> known c'. segment_of j = m} \<and> ss_ids x \<noteq> {} \<and> ss_remaining x = card (ss_ids x)
        \<and> finite (ss_groups x) \<and> finite (ss_lanes x) \<and> grp c' ` ss_ids x \<subseteq> ss_groups x \<and> group_lane ` grp c' ` ss_ids x \<subseteq> ss_lanes x"
      if x: "fmlookup (ci_segments c') m = Some x" for m x
    proof (cases "m = segment_of i")
      case True
      then have "x = s\<lparr>ss_ids := ss_ids s - {i}, ss_remaining := ss_remaining s - 1\<rparr>" "ss_remaining s - 1 \<noteq> 0"
        using x sg by (auto split: if_splits)
      moreover from this(2) have "ss_ids s - {i} \<noteq> {}" using card by (metis card.empty)
      moreover have "grp c' ` (ss_ids s - {i}) = grp c ` (ss_ids s - {i})" using so'(2) by (intro image_cong) auto
      moreover have "ss_ids s - {i} = {j \<in> known c'. segment_of j = m}" using True s(1) k by auto
      moreover have "grp c ` (ss_ids s - {i}) \<subseteq> ss_groups s" "group_lane ` grp c ` (ss_ids s - {i}) \<subseteq> ss_lanes s"
        using s(5,6) by blast+
      ultimately show ?thesis using s(3,4) card by simp
    next
      case False
      then have o: "fmlookup (ci_segments c) m = Some x" using x sg by simp
      then have x': "ss_ids x = {j \<in> known c. segment_of j = m}" "ss_ids x \<noteq> {}" "ss_remaining x = card (ss_ids x)" "finite (ss_groups x)"
        "finite (ss_lanes x)" "grp c ` ss_ids x \<subseteq> ss_groups x" "group_lane ` grp c ` ss_ids x \<subseteq> ss_lanes x"
        using si unfolding segment_inv_def by blast+
      have eqs: "{j \<in> known c'. segment_of j = m} = {j \<in> known c. segment_of j = m}" using False k by auto
      have "i \<notin> ss_ids x" using False x'(1) by auto
      then have "grp c' ` ss_ids x = grp c ` ss_ids x" using so'(2) by (intro image_cong) metis+
      then show ?thesis using x' eqs by simp
    qed
    ultimately show ?thesis unfolding segment_inv_def by blast
  qed
  moreover have "queue_inv R c'"
  proof -
    have rem: "remf c' = (remf c)(segment_of i := ss_remaining s - 1)"
      using sg by (auto simp: remf_def segment_remaining_def fun_eq_iff)
    have neq: "j \<noteq> i" if "j \<in> R" for j using that i(3) by auto
    have gs: "{j \<in> R. grp c' j = g} = {j \<in> R. grp c j = g}" "{j \<in> R. group_lane (grp c' j) = l} = {j \<in> R. group_lane (grp c j) = l}" for g l
      using so'(2) neq by auto
    have sgr: "grp c j \<in> ss_groups s" "group_lane (grp c j) \<in> ss_lanes s" if "j \<in> R" "segment_of j = segment_of i" for j
    proof -
      have "j \<in> ss_ids s" using that sub(2) s(1) by auto
      then show "grp c j \<in> ss_groups s" "group_lane (grp c j) \<in> ss_lanes s" using s(5,6) by blast+
    qed
    have "holds c' (group_queue g c') {j \<in> R. grp c' j = g}" for g unfolding gs
      by (rule holds_recount[OF _ _ ids _ rem gq]) (use qi i(3) sub so'(1) neq sgr in \<open>auto simp: queue_inv_def\<close>)
    moreover have "holds c' (ls_queue (lane_state l c')) {j \<in> R. group_lane (grp c' j) = l}" for l unfolding gs
      by (rule holds_recount[OF _ _ ids _ rem lq]) (use qi i(3) sub so'(1) neq sgr in \<open>auto simp: queue_inv_def\<close>)
    moreover have "grp c' ` R = grp c ` R" using so'(2) neq by (intro image_cong) auto
    ultimately show ?thesis using qi rest by (simp add: queue_inv_def)
  qed
  moreover have "waiting_inv W c'"
  proof -
    have neq: "j \<noteq> i" if "j \<in> W" for j using that i(2) by auto
    have "{j \<in> W. grp c' j = g} = {j \<in> W. grp c j = g}" for g using so'(2) neq by auto
    moreover have "entry_of c' ` W = entry_of c ` W" using so so' neq by (intro image_cong) (simp_all add: entry_of_def)
    ultimately show ?thesis using wi rest by (simp add: waiting_inv_def)
  qed
  ultimately show ?thesis using sub k i by (auto simp: structures_def)
qed

lemma remove_slice_unknown: "i \<notin> known c \<Longrightarrow> remove_slice i c = (c, False)"
  by (simp add: remove_slice_def known_iff)

lemma remove_slice_result:
  assumes "good {} A c" "i \<in> known c"
  shows "\<exists>c' s. remove_slice i c = (c', True) \<and> good {} A c'
    \<and> ci_slices c' = fmdrop i (ci_slices c) \<and> ci_manifests c' = ci_manifests c
    \<and> ci_time_threshold_secs c' = ci_time_threshold_secs c \<and> ci_byte_threshold c' = ci_byte_threshold c
    \<and> fmlookup (ci_segments c) (segment_of i) = Some s
    \<and> (\<forall>k. fmlookup (ci_segments c') k = (if k = segment_of i then
        (if ss_remaining s - 1 = 0 then None else Some (s\<lparr>ss_ids := ss_ids s - {i}, ss_remaining := ss_remaining s - 1\<rparr>))
        else fmlookup (ci_segments c) k))"
proof -
  have cinv: "cinv {} c" using assms(1) by (simp add: good_def)
  then have ids: "ids_inv c" and si: "segment_inv c" using cinv_core by auto
  obtain r where r: "slice_rec c i = Some r" using assms(2) by (auto simp: known_iff)
  then have seg: "slice_segment_key (sr_slice r) = segment_of i"
    using segment_of_slice[OF ids assms(2)] by (simp add: slice_of_def)
  obtain s where s: "fmlookup (ci_segments c) (segment_of i) = Some s" and fin: "finite (ss_groups s)" "finite (ss_lanes s)"
    using si assms(2) unfolding segment_inv_def by (metis fmlookup_dom'_iff)
  define n where "n = ss_remaining s - Suc 0"
  let ?s = "s\<lparr>ss_ids := ss_ids s - {i}, ss_remaining := n\<rparr>"
  define c1 where "c1 = withdraw i c"
  note f = withdraw_fields[OF assms(2), folded c1_def] and k = known_update[OF withdraw_fields(1)[OF assms(2)], folded c1_def]
  define c3 where "c3 = c1\<lparr>ci_slices := fmdrop i (ci_slices c1), ci_segments := fmupd (segment_of i) ?s (ci_segments c1)\<rparr>"
  obtain G where G: "fold (update_group_remaining (segment_of i) n) (sorted_list_of_set (ss_groups s)) c3 = c3\<lparr>ci_groups := G\<rparr>"
    "\<And>g. group_queue g (c3\<lparr>ci_groups := G\<rparr>) = (if g \<in> ss_groups s then rq_update_segment_remaining (segment_of i) n (group_queue g c3) else group_queue g c3)"
    using fold_update_groups[of "sorted_list_of_set (ss_groups s)" "segment_of i" n c3] fin(1) by auto
  obtain L where L: "fold (update_lane_remaining (segment_of i) n) (sorted_list_of_set (ss_lanes s)) (c3\<lparr>ci_groups := G\<rparr>) = c3\<lparr>ci_groups := G, ci_lanes := L\<rparr>"
    "\<And>l. ls_queue (lane_state l (c3\<lparr>ci_groups := G, ci_lanes := L\<rparr>)) = (if l \<in> ss_lanes s
        then rq_update_segment_remaining (segment_of i) n (ls_queue (lane_state l c3)) else ls_queue (lane_state l c3))"
    using fold_update_lanes[of "sorted_list_of_set (ss_lanes s)" "segment_of i" n "c3\<lparr>ci_groups := G\<rparr>"] fin(2)
    by (auto simp: lane_state_def)
  define c' where "c' = (let c5 = c3\<lparr>ci_groups := G, ci_lanes := L\<rparr> in
     if n = 0 then c5\<lparr>ci_segments := fmdrop (segment_of i) (ci_segments c5)\<rparr> else c5)"
  have "remove_slice i c = (let c5 = fold (update_lane_remaining (segment_of i) n) (sorted_list_of_set (ss_lanes s))
      (fold (update_group_remaining (segment_of i) n) (sorted_list_of_set (ss_groups s)) c3)
     in (if n = 0 then c5\<lparr>ci_segments := fmdrop (segment_of i) (ci_segments c5)\<rparr> else c5, True))"
    using r s f seg by (simp add: remove_slice_def Let_def c1_def[symmetric] n_def[symmetric] c3_def split del: if_split)
  then have res: "remove_slice i c = (c', True)" unfolding G(1) L(1) by (simp add: c'_def Let_def)
  have q: "group_queue g c3 = group_queue g c1" "lane_state l c3 = lane_state l c1" for g l
    by (simp_all add: c3_def group_queue_def lane_state_def)
  have sg: "fmlookup (ci_segments c') k = (if k = segment_of i then (if n = 0 then None else Some ?s) else fmlookup (ci_segments c) k)" for k
    using f by (simp add: c'_def c3_def Let_def)
  have sl: "ci_slices c' = fmdrop i (ci_slices c)" using f by (simp add: c'_def c3_def Let_def)
  have gq: "group_queue g c' = (if g \<in> ss_groups s then rq_update_segment_remaining (segment_of i) n (group_queue g c1) else group_queue g c1)" for g
  proof -
    have "group_queue g c' = group_queue g (c3\<lparr>ci_groups := G\<rparr>)" by (simp add: c'_def Let_def group_queue_def)
    then show ?thesis using G(2)[of g] by (simp add: q)
  qed
  have lq: "ls_queue (lane_state l c') = (if l \<in> ss_lanes s then rq_update_segment_remaining (segment_of i) n (ls_queue (lane_state l c1)) else ls_queue (lane_state l c1))" for l
  proof -
    have "lane_state l c' = lane_state l (c3\<lparr>ci_groups := G, ci_lanes := L\<rparr>)" by (simp add: c'_def Let_def lane_state_def)
    then show ?thesis using L(2)[of l] by (simp add: q)
  qed
  have st: "state_of c' j = (if j = i then None else state_of c j)" for j by (simp add: state_of_def sl)
  then have ins: "in_state x {} c' = in_state x {} c - {i}" for x by (auto simp: in_state_def split: if_splits)
  have "structures (in_state Waiting {} c - {i}) (in_state Ready {} c - {i}) c1"
    using cinv structures_withdraw[OF _ assms(2), of _ "in_state Ready {} c"] unfolding c1_def cinv_def by (auto simp: in_state_def)
  then have "structures (in_state Waiting {} c - {i}) (in_state Ready {} c - {i}) c'"
    by (rule structures_drop[where i = i and s = s]) (use assms(2) k f s sl sg gq lq in \<open>auto simp: c'_def c3_def Let_def n_def\<close>)
  moreover have "ci_available_counted c' = ci_available_counted c - {i}" "ci_force_only_ready c' = ci_force_only_ready c - {i}"
    "ci_manifests c' = ci_manifests c" using f by (simp_all add: c'_def c3_def Let_def)
  ultimately have "good {} A c'"
    using assms(1) cinv unfolding good_def cinv_def ins finv_def st by auto
  then show ?thesis using res sl s sg f by (auto simp: c'_def c3_def Let_def n_def)
qed

end
