(* ===== verification/Compaction_Ops.thy ===== *)
theory Compaction_Ops
  imports Compaction_Invariant
begin

text \<open>
  The public operations of the compaction index other than planning keep its invariant: removing
  slices and segments, registering a segment, and the operations that change the manifests. The
  effect of each on the set of known slices is stated with it.
\<close>

section \<open>Removing slices\<close>

lemma remove_slice_good:
  assumes "good {} A c"
  shows "good {} A (fst (remove_slice i c))" "snd (remove_slice i c) \<longleftrightarrow> i \<in> known c"
    "ci_slices (fst (remove_slice i c)) = fmdrop i (ci_slices c)" "ci_manifests (fst (remove_slice i c)) = ci_manifests c"
proof -
  have "good {} A (fst (remove_slice i c)) \<and> (snd (remove_slice i c) \<longleftrightarrow> i \<in> known c)
    \<and> ci_slices (fst (remove_slice i c)) = fmdrop i (ci_slices c) \<and> ci_manifests (fst (remove_slice i c)) = ci_manifests c"
  proof (cases "i \<in> known c")
    case True
    then show ?thesis using remove_slice_result[OF assms True] by auto
  next
    case False
    then have "fmdrop i (ci_slices c) = ci_slices c" by (intro fmap_ext) (auto simp: known_iff)
    then show ?thesis using False assms by (simp add: remove_slice_unknown)
  qed
  then show "good {} A (fst (remove_slice i c))" "snd (remove_slice i c) \<longleftrightarrow> i \<in> known c"
    "ci_slices (fst (remove_slice i c)) = fmdrop i (ci_slices c)" "ci_manifests (fst (remove_slice i c)) = ci_manifests c"
    by simp_all
qed

lemma known_fmdrop: "ci_slices c' = fmdrop i (ci_slices c) \<Longrightarrow> known c' = known c - {i}"
  by (simp add: known_def)

lemma remove_slices_fold:
  assumes "good {} A c"
  shows "\<exists>c' m. fold (\<lambda>i (c, n). let (c', removed) = remove_slice i c in (c', if removed then n + 1 else n)) ids (c, n) = (c', n + m)
     \<and> good {} A c' \<and> ci_slices c' = fmdrop_set (set ids) (ci_slices c) \<and> ci_manifests c' = ci_manifests c
     \<and> m = card (known c \<inter> set ids)"
  using assms
proof (induction ids arbitrary: c n)
  case Nil
  then show ?case by simp
next
  case (Cons i ids)
  obtain c1 b where r: "remove_slice i c = (c1, b)" by force
  note g = remove_slice_good[OF Cons.prems, of i, unfolded r fst_conv snd_conv]
  let ?n = "if b then n + 1 else n"
  obtain c' m where c': "fold (\<lambda>i (c, n). let (c', removed) = remove_slice i c in (c', if removed then n + 1 else n)) ids (c1, ?n) = (c', ?n + m)"
    "good {} A c'" "ci_slices c' = fmdrop_set (set ids) (ci_slices c1)" "ci_manifests c' = ci_manifests c1" "m = card (known c1 \<inter> set ids)"
    using Cons.IH[OF g(1), of ?n] by blast
  have "ci_slices c' = fmdrop_set (set (i # ids)) (ci_slices c)"
    unfolding c'(3) g(3) by (intro fmap_ext) auto
  moreover have "?n + m = n + card (known c \<inter> set (i # ids))"
  proof (cases "i \<in> known c")
    case True
    have "known c \<inter> set (i # ids) = insert i (known c1 \<inter> set ids)" using True known_fmdrop[OF g(3)] by auto
    then show ?thesis using True g(2) c'(5) known_fmdrop[OF g(3)] by (simp add: card_insert_if)
  next
    case False
    then have "known c \<inter> set (i # ids) = known c1 \<inter> set ids" using known_fmdrop[OF g(3)] by auto
    then show ?thesis using False g(2) c'(5) by simp
  qed
  ultimately show ?case using c' g(4) by (intro exI[of _ c'] exI[of _ "card (known c \<inter> set (i # ids))"]) (simp add: r)
qed

lemma remove_slices_good:
  assumes "good {} A c"
  shows "good {} A (fst (remove_slices ids c))" "ci_slices (fst (remove_slices ids c)) = fmdrop_set (set ids) (ci_slices c)"
    "ci_manifests (fst (remove_slices ids c)) = ci_manifests c" "snd (remove_slices ids c) = card (known c \<inter> set ids)"
  using remove_slices_fold[OF assms, of ids 0] by (auto simp: remove_slices_def)

lemma known_drop_set: "ci_slices c' = fmdrop_set S (ci_slices c) \<Longrightarrow> known c' = known c - S"
  by (simp add: known_def)

lemma segment_ids_set:
  assumes "segment_inv c"
  shows "set (concat (map (\<lambda>(k, s). sorted_list_of_set (ss_ids s))
      (filter (\<lambda>(k, s). sk_segment_id k = sid) (btree_entries (ci_segments c))))) = {i \<in> known c. si_segment_id i = sid}"
proof -
  have s: "ss_ids s = {i \<in> known c. segment_of i = k}" "finite (ss_ids s)" if "fmlookup (ci_segments c) k = Some s" for k s
  proof -
    show "ss_ids s = {i \<in> known c. segment_of i = k}" using assms that unfolding segment_inv_def by blast
    then show "finite (ss_ids s)" by simp
  qed
  show ?thesis
  proof (intro set_eqI iffI)
    fix i assume "i \<in> set (concat (map (\<lambda>(k, s). sorted_list_of_set (ss_ids s))
      (filter (\<lambda>(k, s). sk_segment_id k = sid) (btree_entries (ci_segments c)))))"
    then obtain k s where "fmlookup (ci_segments c) k = Some s" "sk_segment_id k = sid" "i \<in> set (sorted_list_of_set (ss_ids s))"
      by (auto simp: btree_entries_set)
    then show "i \<in> {i \<in> known c. si_segment_id i = sid}" using s[of k s] by (auto simp: segment_of_def)
  next
    fix i assume i: "i \<in> {i \<in> known c. si_segment_id i = sid}"
    then obtain s where "fmlookup (ci_segments c) (segment_of i) = Some s"
      using assms unfolding segment_inv_def by (auto simp: fmlookup_dom'_iff)
    then show "i \<in> set (concat (map (\<lambda>(k, s). sorted_list_of_set (ss_ids s))
      (filter (\<lambda>(k, s). sk_segment_id k = sid) (btree_entries (ci_segments c)))))"
      using i s[of "segment_of i" s] by (force simp: btree_entries_set segment_of_def)
  qed
qed

lemma remove_segment_good:
  assumes "good {} A c"
  shows "good {} A (remove_segment sid c)" "ci_manifests (remove_segment sid c) = ci_manifests c"
    "known (remove_segment sid c) = {i \<in> known c. si_segment_id i \<noteq> sid}"
    "ci_slices (remove_segment sid c) = fmdrop_set {i \<in> known c. si_segment_id i = sid} (ci_slices c)"
proof -
  have si: "segment_inv c" using assms cinv_core by (auto simp: good_def)
  note r = remove_slices_good[OF assms, of "concat (map (\<lambda>(k, s). sorted_list_of_set (ss_ids s))
      (filter (\<lambda>(k, s). sk_segment_id k = sid) (btree_entries (ci_segments c))))", unfolded segment_ids_set[OF si]]
  show "good {} A (remove_segment sid c)" "ci_manifests (remove_segment sid c) = ci_manifests c"
    "ci_slices (remove_segment sid c) = fmdrop_set {i \<in> known c. si_segment_id i = sid} (ci_slices c)"
    using r by (simp_all add: remove_segment_def)
  from known_drop_set[OF this(3)] show "known (remove_segment sid c) = {i \<in> known c. si_segment_id i \<noteq> sid}" by auto
qed

lemma fold_remove_segment_good:
  assumes "good {} A c"
  shows "good {} A (fold remove_segment sids c) \<and> ci_manifests (fold remove_segment sids c) = ci_manifests c
    \<and> known (fold remove_segment sids c) = {i \<in> known c. si_segment_id i \<notin> set sids}"
  using assms
proof (induction sids arbitrary: c)
  case (Cons sid sids)
  from Cons.IH[OF remove_segment_good(1)[OF Cons.prems, of sid]] show ?case
    using remove_segment_good(2,3)[OF Cons.prems, of sid] by auto
qed simp

lemma drop_segments_good:
  assumes "good {} A c" "hash_order_ok ho"
  shows "good {} A (drop_segments_not_in ho live c)" "known (drop_segments_not_in ho live c) = {i \<in> known c. si_segment_id i \<in> live}"
proof -
  have names: "set (ho_names ho (sk_segment_id ` fmdom' (ci_segments c) - live)) = sk_segment_id ` fmdom' (ci_segments c) - live"
    using assms(2) by (simp add: hash_order_ok_def)
  have "segment_of i \<in> fmdom' (ci_segments c)" if "i \<in> known c" for i
    using that assms(1) cinv_core[of "{}" c] by (auto simp: good_def segment_inv_def)
  then have "si_segment_id i \<in> sk_segment_id ` fmdom' (ci_segments c)" if "i \<in> known c" for i
    using that by (metis SegmentKey.sel(1) imageI segment_of_def)
  then show "good {} A (drop_segments_not_in ho live c)" "known (drop_segments_not_in ho live c) = {i \<in> known c. si_segment_id i \<in> live}"
    using fold_remove_segment_good[OF assms(1), of "ho_names ho (sk_segment_id ` fmdom' (ci_segments c) - live)"]
    by (auto simp: drop_segments_not_in_def names)
qed

lemma complete_ordinals_good:
  fixes sid :: string and ordinals :: "u32 list"
  assumes "good {} A c" "hash_order_ok ho"
  defines "D \<equiv> {i \<in> known c. si_segment_id i = sid \<and> ie_slice_ordinal (sl_index_entry (slice_of c i)) \<in> set ordinals}"
  shows "good {} A (fst (complete_ordinals ho sid ordinals c))" "snd (complete_ordinals ho sid ordinals c) = card D"
    "known (fst (complete_ordinals ho sid ordinals c)) = known c - D"
proof -
  have "good {} A (fst (complete_ordinals ho sid ordinals c)) \<and> snd (complete_ordinals ho sid ordinals c) = card D
    \<and> known (fst (complete_ordinals ho sid ordinals c)) = known c - D"
  proof (cases "ordinals = []")
    case True
    then show ?thesis using assms(1) by (simp add: complete_ordinals_def D_def)
  next
    case False
    let ?ids = "map (\<lambda>i. sl_id (sr_slice (the (slice_rec c i))))
       (filter (\<lambda>i. case slice_rec c i of
            None \<Rightarrow> False
          | Some r \<Rightarrow> si_segment_id (sl_id (sr_slice r)) = sid
              \<and> ie_slice_ordinal (sl_index_entry (sr_slice r)) \<in> set ordinals)
         (ho_slices ho (fmdom' (ci_slices c))))"
    have ids: "ids_inv c" using assms(1) cinv_core by (auto simp: good_def)
    have order: "set (ho_slices ho (fmdom' (ci_slices c))) = known c" using assms(2) by (simp add: hash_order_ok_def known_def)
    have one: "(case slice_rec c i of None \<Rightarrow> False | Some r \<Rightarrow> si_segment_id (sl_id (sr_slice r)) = sid
        \<and> ie_slice_ordinal (sl_index_entry (sr_slice r)) \<in> set ordinals) \<longleftrightarrow> i \<in> D" if "i \<in> known c" for i
    proof -
      have "sl_id (slice_of c i) = i" using that ids by (simp add: ids_inv_def)
      then show ?thesis using that by (cases "slice_rec c i") (auto simp: D_def slice_of_def known_iff)
    qed
    have "set ?ids = (\<lambda>i. sl_id (slice_of c i)) ` D"
      using one order by (auto simp: slice_of_def D_def)
    also have "\<dots> = D" using ids by (force simp: D_def ids_inv_def image_iff)
    finally have D: "set ?ids = D" .
    have e: "complete_ordinals ho sid ordinals c = remove_slices ?ids c" using False by (simp add: complete_ordinals_def)
    note r = remove_slices_good[OF assms(1), of ?ids, unfolded D]
    have "known c \<inter> D = D" by (auto simp: D_def)
    then show ?thesis unfolding e using r known_drop_set[OF r(2)] by simp
  qed
  then show "good {} A (fst (complete_ordinals ho sid ordinals c))" "snd (complete_ordinals ho sid ordinals c) = card D"
    "known (fst (complete_ordinals ho sid ordinals c)) = known c - D" by simp_all
qed

lemma complete_refs_good:
  assumes "good {} A c"
  shows "good {} A (fst (complete_refs refs c))" "snd (complete_refs refs c) = card (known c \<inter> slice_id_from_wal_ref ` set refs)"
    "known (fst (complete_refs refs c)) = known c - slice_id_from_wal_ref ` set refs"
  using remove_slices_good[OF assms, of "map slice_id_from_wal_ref refs"]
    known_drop_set[of "fst (complete_refs refs c)" "slice_id_from_wal_ref ` set refs" c]
  by (simp_all add: complete_refs_def)

section \<open>Registering a segment\<close>

text \<open>The slices a caller registers come from one segment file: they carry its id and one source.\<close>

definition one_segment :: "string \<Rightarrow> IndexedCompactionSlice list \<Rightarrow> bool" where
  "one_segment sid slices \<longleftrightarrow> (\<forall>sl\<in>set slices. si_segment_id (sl_id sl) = sid \<and> slice_segment_key sl = slice_segment_key (hd slices))"

definition registering :: "CompactionIndex \<Rightarrow> SegmentKey \<Rightarrow> SegmentState \<times> CompactionIndex \<Rightarrow> bool" where
  "registering c0 key = (\<lambda>(s, c). (\<exists>S. c = c0\<lparr>ci_slices := S\<rparr>) \<and> finite (ss_ids s) \<and> ss_remaining s = card (ss_ids s)
     \<and> known c = known c0 \<union> ss_ids s \<and> known c0 \<inter> ss_ids s = {} \<and> finite (ss_groups s) \<and> finite (ss_lanes s)
     \<and> (\<forall>j. j \<notin> ss_ids s \<longrightarrow> slice_rec c j = slice_rec c0 j)
     \<and> (\<forall>j\<in>ss_ids s. segment_of j = key \<and> sl_id (slice_of c j) = j \<and> grp c j \<in> ss_groups s \<and> group_lane (grp c j) \<in> ss_lanes s
          \<and> state_of c j = Some (if is_fenced j (ci_manifests c0) then SFenced else Waiting)))"

lemma register_slice_registering:
  assumes "registering c0 key (s, c)" "slice_segment_key sl = key"
  shows "registering c0 key (register_slice sl (s, c))" "ss_ids (fst (register_slice sl (s, c))) \<union> known c0 = insert (sl_id sl) (ss_ids s) \<union> known c0"
proof -
  obtain S where S: "c = c0\<lparr>ci_slices := S\<rparr>" using assms(1) by (auto simp: registering_def)
  have "registering c0 key (register_slice sl (s, c)) \<and> ss_ids (fst (register_slice sl (s, c))) \<union> known c0 = insert (sl_id sl) (ss_ids s) \<union> known c0"
  proof (cases "slice_rec c (sl_id sl) = None")
    case False
    then have "sl_id sl \<in> known c" by (simp add: known_iff)
    then show ?thesis using False assms(1) by (auto simp: register_slice_def registering_def)
  next
    case True
    then have new: "sl_id sl \<notin> known c" by (simp add: known_iff)
    let ?r = "\<lparr>sr_slice = sl, sr_state = (if is_fenced (sl_id sl) (ci_manifests c) then SFenced else Waiting), sr_wait_generation = 0\<rparr>"
    define c' where "c' = c\<lparr>ci_slices := fmupd (sl_id sl) ?r (ci_slices c)\<rparr>"
    have lk: "slice_rec c' j = (if j = sl_id sl then Some ?r else slice_rec c j)" for j by (simp add: c'_def)
    have k: "known c' = insert (sl_id sl) (known c)" by (auto simp: known_iff lk split: if_splits)
    have v: "slice_of c' j = (if j = sl_id sl then sl else slice_of c j)" "state_of c' j = (if j = sl_id sl then Some (sr_state ?r) else state_of c j)"
      "grp c' j = (if j = sl_id sl then sl_group_key sl else grp c j)" for j
      by (simp_all add: slice_of_def state_of_def grp_def lk)
    have seg: "segment_of (sl_id sl) = key" using assms(2) by (simp add: slice_segment_key_def segment_of_def)
    have m: "ci_manifests c = ci_manifests c0" using S by simp
    have "c' = c0\<lparr>ci_slices := fmupd (sl_id sl) ?r S\<rparr>" using S by (simp add: c'_def)
    moreover have "register_slice sl (s, c) = (\<lparr>ss_remaining = ss_remaining s + 1, ss_ids = insert (sl_id sl) (ss_ids s),
        ss_groups = insert (sl_group_key sl) (ss_groups s), ss_lanes = insert (group_lane (sl_group_key sl)) (ss_lanes s)\<rparr>, c')"
      using True by (simp add: register_slice_def c'_def)
    ultimately show ?thesis using assms(1) new k v seg m lk
      unfolding registering_def by auto
  qed
  then show "registering c0 key (register_slice sl (s, c))"
    "ss_ids (fst (register_slice sl (s, c))) \<union> known c0 = insert (sl_id sl) (ss_ids s) \<union> known c0" by simp_all
qed

lemma fold_register_slice:
  assumes "registering c0 key p" "\<forall>sl\<in>set slices. slice_segment_key sl = key"
  shows "registering c0 key (fold register_slice slices p)
    \<and> ss_ids (fst (fold register_slice slices p)) \<union> known c0 = sl_id ` set slices \<union> ss_ids (fst p) \<union> known c0"
  using assms
proof (induction slices arbitrary: p)
  case (Cons sl slices)
  obtain s c where p: "p = (s, c)" by force
  note r = register_slice_registering[of c0 key s c sl] Cons.prems[unfolded p]
  then have "registering c0 key (fold register_slice slices (register_slice sl (s, c)))
    \<and> ss_ids (fst (fold register_slice slices (register_slice sl (s, c)))) \<union> known c0
        = sl_id ` set slices \<union> ss_ids (fst (register_slice sl (s, c))) \<union> known c0"
    by (intro Cons.IH) auto
  then show ?case using r unfolding p by auto
qed simp

lemma structures_extend:
  assumes st: "structures W R c" and reg: "registering c key (s, c2)" and fresh: "\<forall>j\<in>known c. segment_of j \<noteq> key"
    and some: "ss_ids s \<noteq> {}"
  shows "structures W R (c2\<lparr>ci_segments := fmupd key s (ci_segments c2)\<rparr>)" (is "structures W R ?c")
proof -
  obtain S where S: "c2 = c\<lparr>ci_slices := S\<rparr>" using reg by (auto simp: registering_def)
  have sub: "W \<subseteq> known c" "R \<subseteq> known c" and ids: "ids_inv c" and si: "segment_inv c" and qi: "queue_inv R c" and wi: "waiting_inv W c"
    using st by (simp_all add: structures_def)
  have r: "known c2 = known c \<union> ss_ids s" "known c \<inter> ss_ids s = {}" "ss_remaining s = card (ss_ids s)" "finite (ss_groups s)" "finite (ss_lanes s)"
    "\<And>j. j \<notin> ss_ids s \<Longrightarrow> slice_rec c2 j = slice_rec c j" "\<And>j. j \<in> ss_ids s \<Longrightarrow> segment_of j = key \<and> sl_id (slice_of c2 j) = j"
    "\<And>j. j \<in> ss_ids s \<Longrightarrow> grp c2 j \<in> ss_groups s \<and> group_lane (grp c2 j) \<in> ss_lanes s"
    using reg unfolding registering_def by auto
  have k: "known ?c = known c \<union> ss_ids s" using r(1) by (simp add: known_def)
  have lk: "slice_rec ?c j = slice_rec c j" if "j \<in> known c" for j using r(2,6) that by auto
  then have v: "slice_of ?c j = slice_of c j" "grp ?c j = grp c j" "eligible_at ?c j = eligible_at c j" if "j \<in> known c" for j
    using that S by (simp_all add: slice_of_def grp_def eligible_at_def)
  have v2: "slice_of ?c = slice_of c2" "grp ?c = grp c2" by (simp_all add: slice_of_def grp_def fun_eq_iff)
  have seg2: "ci_segments c2 = ci_segments c" using S by simp
  have segs: "fmlookup (ci_segments ?c) m = (if m = key then Some s else fmlookup (ci_segments c) m)" for m using S by simp
  have "ids_inv ?c" using ids r(7) k v(1) v2(1) by (auto simp: ids_inv_def)
  moreover have "segment_inv ?c"
  proof -
    have "segment_of j \<in> fmdom' (ci_segments ?c)" if "j \<in> known ?c" for j
      using that k si r(7)[of j] by (auto simp: segment_inv_def fmlookup_dom'_iff seg2)
    moreover have "ss_ids x = {j \<in> known ?c. segment_of j = m} \<and> ss_ids x \<noteq> {} \<and> ss_remaining x = card (ss_ids x)
        \<and> finite (ss_groups x) \<and> finite (ss_lanes x) \<and> grp ?c ` ss_ids x \<subseteq> ss_groups x \<and> group_lane ` grp ?c ` ss_ids x \<subseteq> ss_lanes x"
      if x: "fmlookup (ci_segments ?c) m = Some x" for m x
    proof (cases "m = key")
      case True
      then have "x = s" using x segs by simp
      moreover have "ss_ids s = {j \<in> known ?c. segment_of j = key}" using k fresh r(7) by auto
      ultimately show ?thesis using True some r(3-5,8) v2(2) by auto
    next
      case False
      then have "fmlookup (ci_segments c) m = Some x" using x by (simp add: seg2)
      then have x': "ss_ids x = {j \<in> known c. segment_of j = m}" "ss_ids x \<noteq> {}" "ss_remaining x = card (ss_ids x)" "finite (ss_groups x)"
        "finite (ss_lanes x)" "grp c ` ss_ids x \<subseteq> ss_groups x" "group_lane ` grp c ` ss_ids x \<subseteq> ss_lanes x"
        using si unfolding segment_inv_def by blast+
      have "{j \<in> known ?c. segment_of j = m} = {j \<in> known c. segment_of j = m}" using False k r(7) by auto
      moreover have "grp ?c ` ss_ids x = grp c ` ss_ids x" using x'(1) v(2) by (intro image_cong) auto
      ultimately show ?thesis using x' by simp
    qed
    ultimately show ?thesis unfolding segment_inv_def by blast
  qed
  moreover have "queue_inv R ?c"
  proof -
    have rem: "remf ?c = (remf c)(key := ss_remaining s)"
      using segs by (auto simp: remf_def segment_remaining_def fun_eq_iff)
    have gs: "{j \<in> R. grp ?c j = g} = {j \<in> R. grp c j = g}" "{j \<in> R. group_lane (grp ?c j) = l} = {j \<in> R. group_lane (grp c j) = l}" for g l
      using v(2) sub by auto
    have q: "group_queue g ?c = (if False then rq_update_segment_remaining key (ss_remaining s) (group_queue g c) else group_queue g c)"
      "ls_queue (lane_state l ?c) = (if False then rq_update_segment_remaining key (ss_remaining s) (ls_queue (lane_state l c)) else ls_queue (lane_state l c))" for g l
      using S by (simp_all add: group_queue_def lane_state_def)
    have "holds ?c (group_queue g ?c) {j \<in> R. grp ?c j = g}" for g unfolding gs
      by (rule holds_recount[OF _ _ ids _ rem q(1)]) (use qi sub v(1) fresh in \<open>auto simp: queue_inv_def\<close>)
    moreover have "holds ?c (ls_queue (lane_state l ?c)) {j \<in> R. group_lane (grp ?c j) = l}" for l unfolding gs
      by (rule holds_recount[OF _ _ ids _ rem q(2)]) (use qi sub v(1) fresh in \<open>auto simp: queue_inv_def\<close>)
    moreover have "grp ?c ` R = grp c ` R" using v(2) sub by (intro image_cong) auto
    ultimately show ?thesis using qi S by (simp add: queue_inv_def)
  qed
  moreover have "waiting_inv W ?c"
  proof -
    have "{j \<in> W. grp ?c j = g} = {j \<in> W. grp c j = g}" for g using v(2) sub by auto
    moreover have "entry_of ?c j = entry_of c j" if "j \<in> known c" for j
      unfolding entry_of_def lk[OF that] v(3)[OF that] ..
    then have "entry_of ?c ` W = entry_of c ` W" using sub(1) by (intro image_cong) auto
    ultimately show ?thesis using wi S by (simp add: waiting_inv_def)
  qed
  ultimately show ?thesis using sub k by (auto simp: structures_def)
qed

lemma fold_classify_new:
  assumes "good U A c" "distinct ids" "\<forall>i\<in>U. state_of c i = Some Waiting" "\<forall>i\<in>set ids. state_of c i = Some Waiting \<longrightarrow> i \<in> U"
  shows "good (U - set ids) A (fold (classify_new now) ids c) \<and> keeps c (fold (classify_new now) ids c)"
  using assms
proof (induction ids arbitrary: U c)
  case (Cons i ids)
  show ?case
  proof (cases "state_of c i = Some Waiting")
    case True
    then have "i \<in> U" using Cons.prems(4) by simp
    then have r: "good (U - {i}) (A - {i}) (classify_available now i c)" "settles U i c (classify_available now i c)"
      using classify_good[OF Cons.prems(1), of i now] True by simp_all
    let ?c = "classify_available now i c"
    have other: "state_of ?c j = Some Waiting \<Longrightarrow> state_of c j = Some Waiting" "j \<in> U \<Longrightarrow> state_of ?c j = state_of c j" if "j \<noteq> i" for j
      using r(2)[unfolded settles_def, THEN conjunct2, rule_format, OF that] by auto
    have p4: "\<forall>j\<in>set ids. state_of ?c j = Some Waiting \<longrightarrow> j \<in> U - {i}"
    proof (intro ballI impI)
      fix j assume j: "j \<in> set ids" "state_of ?c j = Some Waiting"
      then have "j \<noteq> i" using Cons.prems(2) by auto
      then show "j \<in> U - {i}" using other(1)[of j] j Cons.prems(4) by simp
    qed
    have p3: "\<forall>j\<in>U - {i}. state_of ?c j = Some Waiting" using other(2) Cons.prems(3) by simp
    have p1: "good (U - {i}) A ?c" using r(1) by (rule good_weaken) blast
    have p2: "distinct ids" using Cons.prems(2) by simp
    have "good (U - {i} - set ids) A (fold (classify_new now) ids ?c) \<and> keeps ?c (fold (classify_new now) ids ?c)"
      by (rule Cons.IH[OF p1 p2 p3 p4])
    moreover have "U - {i} - set ids = U - set (i # ids)" by auto
    moreover have "keeps c ?c" using r(2) by (simp add: settles_def)
    moreover have "classify_new now i c = ?c" using True by (simp add: classify_new_def)
    ultimately show ?thesis using keeps_trans[of c ?c "fold (classify_new now) ids ?c"] by simp
  next
    case False
    then have "i \<notin> U" using Cons.prems(3) by auto
    then have "U - set (i # ids) = U - set ids" by auto
    moreover have "classify_new now i c = c" using False by (simp add: classify_new_def)
    moreover have "good (U - set ids) A (fold (classify_new now) ids c) \<and> keeps c (fold (classify_new now) ids c)"
      by (rule Cons.IH[OF Cons.prems(1)]) (use Cons.prems(2,3,4) in simp_all)
    ultimately show ?thesis by (metis fold_simps(2))
  qed
qed simp

lemma register_segment_good:
  assumes "good {} {} c" "hash_order_ok ho" "one_segment sid slices"
  shows "good {} {} (fst (register_segment ho sid slices bt tt now c))"
    "known (fst (register_segment ho sid slices bt tt now c)) = {i \<in> known c. si_segment_id i \<noteq> sid} \<union> sl_id ` set slices"
    "snd (register_segment ho sid slices bt tt now c) = card (sl_id ` set slices)"
proof -
  define c1 where "c1 = remove_segment sid (configure_thresholds ho bt tt now c)"
  note cg = configure_good[OF assms(1,2), where bt = bt and tt = tt and now = now]
  have g1: "good {} {} c1" and k1: "known c1 = {i \<in> known c. si_segment_id i \<noteq> sid}"
    using remove_segment_good[OF cg(1), of sid] cg(2) by (simp_all add: c1_def)
  have "good {} {} (fst (register_segment ho sid slices bt tt now c))
    \<and> known (fst (register_segment ho sid slices bt tt now c)) = {i \<in> known c. si_segment_id i \<noteq> sid} \<union> sl_id ` set slices
    \<and> snd (register_segment ho sid slices bt tt now c) = card (sl_id ` set slices)"
  proof (cases "slices = []")
    case True
    then show ?thesis using g1 k1 by (simp add: register_segment_def c1_def[symmetric])
  next
    case False
    define key where "key = slice_segment_key (hd slices)"
    let ?s0 = "\<lparr>ss_remaining = 0, ss_ids = {}, ss_groups = {}, ss_lanes = {}\<rparr>"
    obtain s c2 where fold: "fold register_slice slices (?s0, c1) = (s, c2)" by force
    have "registering c1 key (?s0, c1)" by (auto simp: registering_def intro: exI[of _ "ci_slices c1"])
    moreover have "\<forall>sl\<in>set slices. slice_segment_key sl = key" using assms(3) by (simp add: one_segment_def key_def)
    ultimately have reg: "registering c1 key (s, c2)" and ids: "ss_ids s \<union> known c1 = sl_id ` set slices \<union> known c1"
      using fold_register_slice[of c1 key "(?s0, c1)" slices] fold by simp_all
    have keyid: "sk_segment_id key = sid"
      using assms(3) False by (cases slices) (simp_all add: one_segment_def key_def slice_segment_key_def)
    have "sl_id ` set slices \<inter> known c1 = {}" using assms(3) k1 by (auto simp: one_segment_def)
    moreover have dis: "ss_ids s \<inter> known c1 = {}" and fin: "finite (ss_ids s)" and rem: "ss_remaining s = card (ss_ids s)"
      using reg by (auto simp: registering_def)
    ultimately have new: "ss_ids s = sl_id ` set slices" using ids by blast
    have fresh: "\<forall>j\<in>known c1. segment_of j \<noteq> key" using k1 keyid by (auto simp: segment_of_def)
    obtain S where S: "c2 = c1\<lparr>ci_slices := S\<rparr>" using reg by (auto simp: registering_def)
    define c3 where "c3 = c2\<lparr>ci_segments := fmupd key s (ci_segments c2)\<rparr>"
    have k3: "known c3 = known c1 \<union> ss_ids s" using reg by (simp add: registering_def c3_def known_def)
    have st: "state_of c3 j = state_of c1 j" if "j \<notin> ss_ids s" for j
      using reg that by (simp add: registering_def c3_def state_of_def)
    have stn: "state_of c3 j = Some (if is_fenced j (ci_manifests c1) then SFenced else Waiting)" if "j \<in> ss_ids s" for j
      using reg that by (simp add: registering_def c3_def state_of_def)
    let ?U = "{j \<in> ss_ids s. state_of c3 j = Some Waiting}"
    have none: "state_of c1 j = None" if "j \<in> ss_ids s" for j using that dis by (auto simp: state_of_def known_iff)
    have ins: "in_state Waiting ?U c3 = in_state Waiting {} c1" "in_state Ready ?U c3 = in_state Ready {} c1"
    proof -
      have "x \<in> in_state q ?U c3 \<longleftrightarrow> x \<in> in_state q {} c1" if "q \<in> {Waiting, Ready}" for x q
        using st[of x] stn[of x] none[of x] that by (cases "x \<in> ss_ids s") (auto simp: in_state_def split: if_splits)
      then show "in_state Waiting ?U c3 = in_state Waiting {} c1" "in_state Ready ?U c3 = in_state Ready {} c1" by auto
    qed
    have "structures (in_state Waiting {} c1) (in_state Ready {} c1) c3"
      unfolding c3_def using g1 by (intro structures_extend[OF _ reg fresh]) (simp_all add: good_def cinv_def new False)
    moreover have "ci_available_counted c3 - ?U = ci_available_counted c1"
      using g1 dis in_state_known[of _ "{}" c1] S unfolding good_def cinv_def c3_def by fastforce
    ultimately have "cinv ?U c3"
      using g1 S unfolding good_def cinv_def ins by (auto simp: c3_def in_state_def)
    moreover have "finv {} c3"
    proof -
      have "\<not> is_fenced j (ci_manifests c3)" if "state_of c3 j \<in> {Some Waiting, Some Ready}" for j
        using that st[of j] stn[of j] g1 S by (cases "j \<in> ss_ids s") (auto simp: good_def finv_def c3_def split: if_splits)
      then show ?thesis by (auto simp: finv_def)
    qed
    ultimately have g3: "good ?U {} c3" using g1 S by (simp add: good_def c3_def)
    have "good (?U - ss_ids s) {} (fold (classify_new now) (sorted_list_of_set (ss_ids s)) c3)
      \<and> keeps c3 (fold (classify_new now) (sorted_list_of_set (ss_ids s)) c3)"
      using fold_classify_new[OF g3, of "sorted_list_of_set (ss_ids s)" now] fin by simp
    moreover have e: "?U - ss_ids s = {}" by auto
    ultimately have "good {} {} (fold (classify_new now) (sorted_list_of_set (ss_ids s)) c3)"
      "known (fold (classify_new now) (sorted_list_of_set (ss_ids s)) c3) = known c3" unfolding e keeps_def by blast+
    moreover have "register_segment ho sid slices bt tt now c = (fold (classify_new now) (sorted_list_of_set (ss_ids s)) c3, ss_remaining s)"
      using False fold by (simp add: register_segment_def c1_def[symmetric] c3_def key_def Let_def)
    ultimately show ?thesis using k3 k1 new rem by (auto simp: keeps_def)
  qed
  then show "good {} {} (fst (register_segment ho sid slices bt tt now c))"
    "known (fst (register_segment ho sid slices bt tt now c)) = {i \<in> known c. si_segment_id i \<noteq> sid} \<union> sl_id ` set slices"
    "snd (register_segment ho sid slices bt tt now c) = card (sl_id ` set slices)" by simp_all
qed

section \<open>Manifests\<close>

lemma good_manifests:
  assumes "good U A c" "minv m" "\<And>i. i \<notin> B \<Longrightarrow> is_fenced i m \<Longrightarrow> is_fenced i (ci_manifests c)" "A \<subseteq> B"
  shows "good U B (c\<lparr>ci_manifests := m\<rparr>)" "good U B (c\<lparr>ci_manifests := m, ci_manifests_loaded := b\<rparr>)"
proof -
  have s: "state_of (c\<lparr>ci_manifests := m\<rparr>) = state_of c" "state_of (c\<lparr>ci_manifests := m, ci_manifests_loaded := b\<rparr>) = state_of c"
    by (simp_all add: state_of_def fun_eq_iff)
  show "good U B (c\<lparr>ci_manifests := m\<rparr>)" "good U B (c\<lparr>ci_manifests := m, ci_manifests_loaded := b\<rparr>)"
    using assms unfolding good_def cinv_def finv_def in_state_def s by auto
qed

lemma fence_installed_good:
  assumes "good {} A c"
  shows "good {} (A - {i}) (fence_installed i c) \<and> keeps c (fence_installed i c)"
proof (cases "is_fenced i (ci_manifests c)")
  case True
  then show ?thesis using set_fenced_good[OF assms, of i] by (simp add: fence_installed_def)
next
  case False
  then show ?thesis using assms by (auto simp: fence_installed_def good_def finv_def)
qed

lemma fold_settle_good:
  assumes "\<And>A i c. good {} A c \<Longrightarrow> good {} (A - {i}) (f i c) \<and> keeps c (f i c)" "good {} A c"
  shows "good {} (A - set ids) (fold f ids c) \<and> keeps c (fold f ids c)"
  using assms(2)
proof (induction ids arbitrary: A c)
  case (Cons i ids)
  from assms(1)[OF Cons.prems, of i] have g: "good {} (A - {i}) (f i c)" and k: "keeps c (f i c)" by simp_all
  have "A - {i} - set ids = A - set (i # ids)" by auto
  then show ?case using Cons.IH[OF g] keeps_trans[OF k, of "fold f ids (f i c)"] by simp
qed simp

lemma good_known: "good U A c \<Longrightarrow> good U (A \<inter> known c) c"
  by (auto simp: good_def finv_def state_of_known)

lemma install_good:
  assumes "good {} A c" "hash_order_ok ho"
  shows "good {} {} (install_manifests ho txns c)" "known (install_manifests ho txns c) = known c"
proof -
  let ?c = "c\<lparr>ci_manifests := mi_install txns (ci_manifests c), ci_manifests_loaded := True\<rparr>"
  have "good {} UNIV ?c" by (rule good_manifests(2)[OF assms(1) mi_install_minv]) auto
  then have "good {} (known ?c) ?c" using good_known by fastforce
  from fold_settle_good[OF fence_installed_good this, of "ho_slices ho (fmdom' (ci_slices ?c))"]
  have "good {} (known ?c - set (ho_slices ho (fmdom' (ci_slices ?c)))) (install_manifests ho txns c) \<and> keeps ?c (install_manifests ho txns c)"
    by (simp add: install_manifests_def Let_def)
  moreover have "set (ho_slices ho (fmdom' (ci_slices ?c))) = known ?c" using assms(2) by (simp add: hash_order_ok_def known_def)
  moreover have "known ?c = known c" by (simp add: known_def)
  ultimately show "good {} {} (install_manifests ho txns c)" "known (install_manifests ho txns c) = known c"
    by (simp_all add: keeps_def)
qed

lemma idle_state_good:
  assumes "good U A c" "state_of c i \<notin> {Some Waiting, Some Ready}" "st \<notin> {Waiting, Ready}"
  shows "good U A (set_state st i c)"
proof (cases "i \<in> known c")
  case True
  have s: "state_of (set_state st i c) = (state_of c)(i := Some st)" using True by (simp add: fun_eq_iff state_of_set_state)
  have "in_state q V (set_state st i c) = in_state q V c" if "q \<in> {Waiting, Ready}" for q V
    using that assms(2,3) by (auto simp: in_state_def s)
  then have "cinv U (set_state st i c)" using assms(1) by (simp add: good_def cinv_def)
  moreover have "finv A (set_state st i c)" using assms by (auto simp: good_def finv_def s)
  ultimately show ?thesis using assms(1) by (simp add: good_def)
next
  case False
  then show ?thesis using assms(1) by (simp add: set_state_def known_iff)
qed

lemma classify_idle_good:
  assumes "good {} A c" "state_of c i \<notin> {Some Waiting, Some Ready}"
  shows "good {} (A - {i}) (classify_available now i c) \<and> keeps c (classify_available now i c)"
  using classify_good[OF assms(1), of i now] assms(2) by (simp add: settles_def)

lemma release_slice_good:
  assumes "good {} A c"
  shows "good {} A (release_slice now i c) \<and> keeps c (release_slice now i c)"
proof (cases "state_of c i = Some Reserved \<and> \<not> is_fenced i (ci_manifests c)")
  case True
  then have "good {} (A - {i}) (release_slice now i c) \<and> keeps c (release_slice now i c)"
    using classify_idle_good[OF assms, of i now] by (simp add: release_slice_def)
  then show ?thesis using good_weaken[of "{}" "A - {i}" _ A] by blast
next
  case False
  then show ?thesis using assms idle_state_good[OF assms, of i SFenced] by (auto simp: release_slice_def)
qed

lemma release_refs_good:
  assumes "good {} A c"
  shows "good {} A (release_refs refs now c)" "known (release_refs refs now c) = known c"
proof -
  have "good {} A (fold (release_slice now) ids c) \<and> keeps c (fold (release_slice now) ids c)" for ids
    using assms
  proof (induction ids arbitrary: c)
    case (Cons i ids)
    from release_slice_good[OF Cons.prems, of now i] Cons.IH[of "release_slice now i c"] keeps_trans[of c "release_slice now i c"]
    show ?case by simp
  qed simp
  then show "good {} A (release_refs refs now c)" "known (release_refs refs now c) = known c"
    by (simp_all add: release_refs_def keeps_def)
qed

lemma settle_upserted_good:
  assumes "good {} A c"
  shows "good {} (A - {i}) (settle_upserted clock i c) \<and> keeps c (settle_upserted clock i c)"
proof -
  have skip: "good {} (A - {i}) c" if "state_of c i \<notin> {Some Waiting, Some Ready} \<or> \<not> is_fenced i (ci_manifests c)"
    using assms that by (auto simp: good_def finv_def)
  show ?thesis
    using skip set_fenced_good[OF assms, of i] classify_idle_good[OF assms, of i "clock i"]
    by (auto simp: settle_upserted_def)
qed

lemma holders_upsert:
  assumes "minv m" "i \<notin> ref_ids txn" "\<And>r. fmlookup (mi_records m) (ct_id txn) = Some r \<Longrightarrow> i \<notin> ref_ids (mr_txn r)"
  shows "holders (mi_upsert txn b m) i = holders m i"
  using assms unfolding holders_def mi_upsert_minv(2)[OF assms(1)] by (auto split: if_splits)

lemma upsert_good:
  assumes "good {} {} c"
  shows "good {} {} (upsert_manifest clock txn c)" "known (upsert_manifest clock txn c) = known c"
    "\<exists>b. ci_manifests (upsert_manifest clock txn c) = mi_upsert txn b (ci_manifests c)"
proof -
  let ?m = "ci_manifests c"
  let ?old = "case fmlookup (mi_records ?m) (ct_id txn) of Some r \<Rightarrow> ct_refs (mr_txn r) | None \<Rightarrow> []"
  define B where "B = slice_id_from_wal_ref ` set (?old @ ct_refs txn)"
  let ?b = "list_ex (\<lambda>w. state_of c (slice_id_from_wal_ref w) = Some Reserved) (ct_refs txn)"
  let ?c = "c\<lparr>ci_manifests := mi_upsert txn ?b ?m\<rparr>"
  have minv: "minv ?m" using assms by (simp add: good_def)
  have "holders (mi_upsert txn ?b ?m) i = holders ?m i" if "i \<notin> B" for i
    using that by (intro holders_upsert[OF minv]) (auto simp: ref_ids_def B_def)
  then have "is_fenced i ?m" if "i \<notin> B" "is_fenced i (mi_upsert txn ?b ?m)" for i
    using that minv_is_fenced[OF minv, of i] minv_is_fenced[OF mi_upsert_minv(1)[OF minv], of i] by auto
  then have "good {} B ?c" by (intro good_manifests(1)[OF assms mi_upsert_minv(1)[OF minv]]) auto
  from fold_settle_good[where f = "settle_upserted clock", OF settle_upserted_good this, of "sorted_list_of_set B"]
  have "good {} (B - set (sorted_list_of_set B)) (upsert_manifest clock txn c) \<and> keeps ?c (upsert_manifest clock txn c)"
    by (simp only: upsert_manifest_def Let_def B_def)
  moreover have "finite B" unfolding B_def by (rule finite_imageI[OF finite_set])
  moreover from this have "B - set (sorted_list_of_set B) = {}" by simp
  ultimately show "good {} {} (upsert_manifest clock txn c)" "known (upsert_manifest clock txn c) = known c"
    "\<exists>b. ci_manifests (upsert_manifest clock txn c) = mi_upsert txn b (ci_manifests c)"
    by (auto simp: keeps_def known_def)
qed

lemma remove_manifest_good:
  assumes "good {} {} c"
  shows "good {} {} (remove_manifest tid now c)" "known (remove_manifest tid now c) = known c"
proof -
  let ?m = "fst (mi_remove tid (ci_manifests c))"
  have minv: "minv (ci_manifests c)" using assms by (simp add: good_def)
  have "mi_records ?m = (if fmlookup (mi_records (ci_manifests c)) tid = None then mi_records (ci_manifests c) else fmdrop tid (mi_records (ci_manifests c)))"
    using drop_record_minv(2)[OF minv] by (auto simp: mi_remove_def split: option.split)
  then have "holders ?m i \<subseteq> holders (ci_manifests c) i" for i by (auto simp: holders_def split: if_splits)
  then have "is_fenced i (ci_manifests c)" if "is_fenced i ?m" for i
    using that minv_is_fenced[OF minv, of i] minv_is_fenced[OF mi_remove_minv[OF minv], of i] by blast
  then have g: "good {} {} (c\<lparr>ci_manifests := ?m\<rparr>)" by (intro good_manifests(1)[OF assms mi_remove_minv[OF minv]]) auto
  have "good {} (A - {i}) (settle_removed now i c) \<and> keeps c (settle_removed now i c)" if "good {} A c" "A = {}" for A i c
    using that classify_idle_good[OF that(1), of i now] by (auto simp: settle_removed_def)
  then have step: "good {} {} (settle_removed now i c) \<and> keeps c (settle_removed now i c)" if "good {} {} c" for i c
    using that by fastforce
  have "good {} {} (fold (settle_removed now) ids c) \<and> keeps c (fold (settle_removed now) ids c)" if "good {} {} c" for ids c
    using that
  proof (induction ids arbitrary: c)
    case (Cons i ids)
    from step[OF Cons.prems, of i] Cons.IH[of "settle_removed now i c"] keeps_trans[of c "settle_removed now i c"]
    show ?case by simp
  qed simp
  from this[OF g, of "snd (mi_remove tid (ci_manifests c))"]
  show "good {} {} (remove_manifest tid now c)" "known (remove_manifest tid now c) = known c"
    by (simp_all add: remove_manifest_def Let_def case_prod_beta keeps_def known_def)
qed

lemma holders_release: "holders (mi_release tid m) i = holders m i"
  by (auto simp: mi_release_def holders_def split: option.split)

lemma release_manifest_good:
  assumes "good {} {} c"
  shows "good {} {} (release_manifest tid c)" "known (release_manifest tid c) = known c"
proof -
  have minv: "minv (ci_manifests c)" using assms by (simp add: good_def)
  have "is_fenced i (mi_release tid (ci_manifests c)) = is_fenced i (ci_manifests c)" for i
    using minv_is_fenced[OF minv] minv_is_fenced[OF mi_release_minv[OF minv]] holders_release by metis
  then show "good {} {} (release_manifest tid c)"
    unfolding release_manifest_def by (intro good_manifests(1)[OF assms mi_release_minv[OF minv]]) auto
  show "known (release_manifest tid c) = known c" by (simp add: release_manifest_def known_def)
qed

lemma holders_reserve:
  assumes "minv m"
  shows "holders (fst (reserve_ready limit per_sink now stale active blocked m)) i \<subseteq> holders m i"
proof
  fix tid assume t: "tid \<in> holders (fst (reserve_ready limit per_sink now stale active blocked m)) i"
  obtain m' out where r: "reserve_ready limit per_sink now stale active blocked m = (m', out)" by force
  obtain sch where inv: "rsv_inv now stale per_sink blocked (active_counts_by_sink active) m sch out m'"
    using reserve_ready_inv[OF assms r] by blast
  obtain rec where rec: "fmlookup (mi_records m') tid = Some rec" "i \<in> ref_ids (mr_txn rec)" using t r by (auto simp: holders_def)
  show "tid \<in> holders m i"
  proof (cases "tid \<in> res_id ` set out")
    case True
    then obtain x where x: "x \<in> set out" "tid = res_id x" by auto
    then have "mr_txn rec = rm_txn x" "reserved_from now stale blocked m x" using inv rec(1) by (auto simp: rsv_inv_def)
    from this(2)[unfolded reserved_from_def] obtain r where r0: "fmlookup (mi_records m) tid = Some r"
      and tx: "rm_txn x = (if rm_retried_stale x then (mr_txn r)\<lparr>ct_state := TxnPending, ct_updated_at_secs := now\<rparr> else mr_txn r)"
      unfolding x(2)[symmetric] by metis
    have "ref_ids (rm_txn x) = ref_ids (mr_txn r)" unfolding tx by (simp add: ref_ids_def)
    then show ?thesis using rec(2) r0 \<open>mr_txn rec = rm_txn x\<close> by (auto simp: holders_def)
  next
    case False
    then have "fmlookup (mi_records m) tid = Some rec" using inv rec(1) unfolding rsv_inv_def by metis
    then show ?thesis using rec(2) by (auto simp: holders_def)
  qed
qed

lemma reserve_manifests_good:
  assumes "good {} {} c"
  shows "good {} {} (fst (reserve_ready_manifests limit per_sink now stale active blocked c))"
    "known (fst (reserve_ready_manifests limit per_sink now stale active blocked c)) = known c"
proof -
  let ?m = "fst (reserve_ready limit per_sink now stale active blocked (ci_manifests c))"
  have minv: "minv (ci_manifests c)" using assms by (simp add: good_def)
  have "is_fenced i (ci_manifests c)" if "is_fenced i ?m" for i
    using that minv_is_fenced[OF minv, of i] minv_is_fenced[OF reserve_ready_minv[OF minv], of i] holders_reserve[OF minv] by blast
  then have "good {} {} (c\<lparr>ci_manifests := ?m\<rparr>)" by (intro good_manifests(1)[OF assms reserve_ready_minv[OF minv]]) auto
  then show "good {} {} (fst (reserve_ready_manifests limit per_sink now stale active blocked c))"
    "known (fst (reserve_ready_manifests limit per_sink now stale active blocked c)) = known c"
    by (simp_all add: reserve_ready_manifests_def case_prod_beta known_def)
qed

lemma reclaimable_good:
  assumes "good {} {} c"
  shows "good {} {} (fst (reclaimable_slice_count force now stale limit c))"
    "known (fst (reclaimable_slice_count force now stale limit c)) = known c"
  using promote_due_good[OF assms, of now] assms
  by (auto simp: reclaimable_slice_count_def Let_def promotes_def keeps_def)

lemma index_default_good: "good {} {} index_default"
proof -
  have k: "known index_default = {}" by (simp add: known_def index_default_def)
  have s: "state_of index_default i = None" for i by (simp add: state_of_def index_default_def)
  have "structures {} {} index_default"
    by (rule cleared_structures) (simp_all add: ids_inv_def segment_inv_def k, simp_all add: index_default_def)
  then show ?thesis by (simp add: good_def cinv_def finv_def in_state_def s) (simp add: index_default_def)
qed

end
