(* ===== verification/Compaction_Plan.thy ===== *)
theory Compaction_Plan
  imports Compaction_Ops
begin

text \<open>
  Planning (\<^verbatim>\<open>src/src/buffer/compaction_index.rs\<close>, \<open>plan_ready\<close>): lanes are served in the order of
  their last service, each service reserves a group of ready slices, and the loop stops at the
  limit or when no lane is eligible. The outer loop may not end when a group cannot take a single
  slice, so it is a partial function; it is proved to return for a positive number of parts. The
  step relation \<open>index_step\<close> collects all public operations.
\<close>

section \<open>Planning\<close>

record PlannedCompactionGroup =
  pg_key :: CompactionGroupKey
  pg_slices :: "IndexedCompactionSlice list"

record CompactionPlan =
  cp_groups :: "PlannedCompactionGroup list"
  cp_segments_examined :: u64
  cp_slices_examined :: u64
  cp_ready_queue_depth :: nat

definition slice_bytes :: "IndexedCompactionSlice \<Rightarrow> u64" where
  "slice_bytes sl = ie_bytes (sl_index_entry sl)"

function select_loop ::
  "nat \<Rightarrow> u64 \<Rightarrow> CompactionGroupKey \<Rightarrow> IndexedCompactionSlice list \<Rightarrow> u64 \<Rightarrow> u64 \<Rightarrow> SegmentKey set \<Rightarrow> CompactionIndex
    \<Rightarrow> CompactionIndex \<times> IndexedCompactionSlice list \<times> u64 \<times> SegmentKey set"
where
  "select_loop max_parts target g selected selected_bytes examined seen c =
     (if max_parts \<le> length selected then (c, selected, examined, seen)
      else case Option.bind (fmlookup (ci_groups c) g) rq_peek of
        None \<Rightarrow> (c, selected, examined, seen)
      | Some head \<Rightarrow>
         (let i = qh_id head; examined' = sat_add examined 1 in
          case slice_rec c i of
            None \<Rightarrow> (c, selected, examined', seen)
          | Some r \<Rightarrow>
             (let seen' = insert (slice_segment_key (sr_slice r)) seen; b = slice_bytes (sr_slice r) in
              if selected \<noteq> [] \<and> target < sat_add selected_bytes b then (c, selected, examined', seen')
              else case reserve_ready_slice i c of
                (c', None) \<Rightarrow> (c', selected, examined', seen')
              | (c', Some sl) \<Rightarrow>
                  select_loop max_parts target g (selected @ [sl]) (sat_add selected_bytes b) examined' seen' c')))"
  by pat_completeness auto
termination by (relation "measure (\<lambda>(max_parts, _, _, selected, _, _, _, _). max_parts - length selected)") auto

declare select_loop.simps [simp del]

definition lane_rank :: "CompactionLaneKey \<times> LaneState \<Rightarrow> (u64 \<times> u64 \<times> nat \<times> CompactionLaneKey \<times> CompactionSliceId) option" where
  "lane_rank = (\<lambda>(lane, s). map_option (\<lambda>head.
     (ls_last_served s, qh_updated_at_secs head, qh_segment_remaining head, lane, qh_id head)) (rq_peek (ls_queue s)))"

definition lane_eligible :: "nat \<Rightarrow> CompactionLaneKey set \<Rightarrow> (string \<Rightarrow> nat) \<Rightarrow> CompactionLaneKey \<times> LaneState \<Rightarrow> bool" where
  "lane_eligible per_sink blocked scheduled = (\<lambda>(lane, s). \<not> rq_is_empty (ls_queue s) \<and> lane \<notin> blocked
     \<and> scheduled (lane_sink_ref lane) < per_sink)"

definition lane_candidate ::
  "nat \<Rightarrow> CompactionLaneKey set \<Rightarrow> (string \<Rightarrow> nat) \<Rightarrow> CompactionIndex
    \<Rightarrow> (u64 \<times> u64 \<times> nat \<times> CompactionLaneKey \<times> CompactionSliceId) option"
where
  "lane_candidate per_sink blocked scheduled c =
     iter_min (List.map_filter lane_rank (filter (lane_eligible per_sink blocked scheduled) (btree_entries (ci_lanes c))))"

definition serve_lane :: "CompactionLaneKey \<Rightarrow> CompactionIndex \<Rightarrow> CompactionIndex" where
  "serve_lane lane c = (let ticket = sat_add (ci_service_ticket c) 1; c1 = c\<lparr>ci_service_ticket := ticket\<rparr> in
     case fmlookup (ci_lanes c1) lane of
       None \<Rightarrow> c1
     | Some s \<Rightarrow> c1\<lparr>ci_lanes := fmupd lane (s\<lparr>ls_last_served := ticket\<rparr>) (ci_lanes c1)\<rparr>)"

partial_function (option) plan_loop ::
  "nat \<Rightarrow> nat \<Rightarrow> u64 \<Rightarrow> nat \<Rightarrow> CompactionLaneKey set \<Rightarrow> (string \<Rightarrow> nat) \<Rightarrow> PlannedCompactionGroup list \<Rightarrow> u64 \<Rightarrow> SegmentKey set
    \<Rightarrow> CompactionIndex \<Rightarrow> (CompactionIndex \<times> PlannedCompactionGroup list \<times> u64 \<times> SegmentKey set) option"
where
  "plan_loop limit max_parts target per_sink blocked scheduled groups examined seen c =
     (if limit \<le> length groups then Some (c, groups, examined, seen)
      else case lane_candidate per_sink blocked scheduled c of
        None \<Rightarrow> Some (c, groups, examined, seen)
      | Some (_, _, _, lane, first_id) \<Rightarrow>
         (case slice_rec c first_id of
            None \<Rightarrow> Some (c, groups, examined, seen)
          | Some r \<Rightarrow>
             (let g = sl_group_key (sr_slice r) in
              case select_loop max_parts target g [] 0 examined seen c of
                (c1, selected, examined1, seen1) \<Rightarrow>
                  if selected = [] then plan_loop limit max_parts target per_sink blocked scheduled groups examined1 seen1 c1
                  else plan_loop limit max_parts target per_sink blocked
                    (scheduled(gk_sink_ref g := scheduled (gk_sink_ref g) + 1))
                    (groups @ [\<lparr>pg_key = g, pg_slices = selected\<rparr>]) examined1 seen1 (serve_lane lane c1))))"

definition prepare_plan :: "hash_order \<Rightarrow> bool \<Rightarrow> u64 \<Rightarrow> u64 \<Rightarrow> u64 \<Rightarrow> CompactionIndex \<Rightarrow> CompactionIndex" where
  "prepare_plan ho force now byte_threshold time_threshold c = (let c1 = configure_thresholds ho byte_threshold time_threshold now c in
     if force then promote_all_waiting now c1 else promote_due now (demote_force_only now c1))"

definition plan_ready ::
  "hash_order \<Rightarrow> nat \<Rightarrow> bool \<Rightarrow> u64 \<Rightarrow> u64 \<Rightarrow> u64 \<Rightarrow> u64 \<Rightarrow> nat \<Rightarrow> nat \<Rightarrow> active_counts \<Rightarrow> CompactionLaneKey set
    \<Rightarrow> CompactionIndex \<Rightarrow> (CompactionIndex \<times> CompactionPlan) option"
where
  "plan_ready ho limit force now byte_threshold time_threshold target max_parts per_sink active blocked c =
     map_option (\<lambda>(c', groups, examined, seen). (c', \<lparr>cp_groups = groups, cp_segments_examined = of_nat (card seen),
         cp_slices_examined = examined, cp_ready_queue_depth = ci_ready_group_count c'\<rparr>))
       (plan_loop limit max_parts target per_sink blocked (active_counts_by_sink active) [] 0 {}
          (prepare_plan ho force now byte_threshold time_threshold c))"

section \<open>Selecting the slices of a group\<close>

definition sel_ids :: "IndexedCompactionSlice list \<Rightarrow> CompactionSliceId set" where
  "sel_ids sel = sl_id ` set sel"

definition sat_sum :: "IndexedCompactionSlice list \<Rightarrow> u64" where
  "sat_sum sel = fold (\<lambda>sl b. sat_add b (slice_bytes sl)) sel 0"

text \<open>What has been selected so far, relative to the index \<open>c0\<close> before the selection.\<close>

definition sel_inv :: "CompactionGroupKey \<Rightarrow> nat \<Rightarrow> u64 \<Rightarrow> CompactionIndex \<Rightarrow> IndexedCompactionSlice list \<Rightarrow> CompactionIndex \<Rightarrow> bool" where
  "sel_inv g max_parts target c0 sel c \<longleftrightarrow> good {} {} c \<and> keeps c0 c \<and> distinct (map sl_id sel) \<and> length sel \<le> max_parts
     \<and> (\<forall>sl\<in>set sel. state_of c0 (sl_id sl) = Some Ready \<and> slice_of c0 (sl_id sl) = sl \<and> sl_group_key sl = g)
     \<and> (\<forall>j. state_of c j = (if j \<in> sel_ids sel then Some Reserved else state_of c0 j))
     \<and> (length sel \<le> 1 \<or> sat_sum sel \<le> target)"

lemma peek_member:
  assumes "holds c q S" "ids_inv c" "S \<subseteq> known c"
  shows "rq_peek q = None \<longleftrightarrow> S = {}" "rq_peek q = Some h \<Longrightarrow> qh_id h \<in> S"
proof -
  have i: "rq_invar (remf c) q" and ct: "rq_content q = (\<lambda>i. slice_queue_key (slice_of c i)) ` S"
    using assms(1) by (simp_all add: holds_def)
  show "rq_peek q = None \<longleftrightarrow> S = {}" using rq.peek_None_iff[OF i] holds_is_empty[OF assms(1)] by simp
  assume "rq_peek q = Some h"
  from rq.peek_Some(1)[OF i this] obtain j where "j \<in> S" "h = key_head (remf c) (slice_queue_key (slice_of c j))"
    unfolding ct by auto
  then show "qh_id h \<in> S" using assms(2,3) by (auto simp: key_head_def head_of_def slice_queue_key_def ids_inv_def)
qed

lemma good_queues:
  assumes "good {} A c"
  shows "holds c (group_queue g c) {i \<in> in_state Ready {} c. grp c i = g}"
    "holds c (ls_queue (lane_state l c)) {i \<in> in_state Ready {} c. group_lane (grp c i) = l}"
    "ids_inv c" "{i \<in> in_state Ready {} c. P i} \<subseteq> known c"
  using assms in_state_known[of Ready "{}" c] by (auto simp: good_def cinv_def structures_def queue_inv_def)

lemma group_peek:
  assumes "good {} A c"
  shows "Option.bind (fmlookup (ci_groups c) g) rq_peek = None \<longleftrightarrow> (\<forall>i. state_of c i = Some Ready \<longrightarrow> grp c i \<noteq> g)"
    "Option.bind (fmlookup (ci_groups c) g) rq_peek = Some h \<Longrightarrow> state_of c (qh_id h) = Some Ready \<and> grp c (qh_id h) = g"
proof -
  have e: "Option.bind (fmlookup (ci_groups c) g) rq_peek = rq_peek (group_queue g c)"
    by (simp add: group_queue_def rq_peek_def rq_empty_def split: option.split)
  note q = peek_member[OF good_queues(1)[OF assms, of g] good_queues(3,4)[OF assms]]
  show "Option.bind (fmlookup (ci_groups c) g) rq_peek = None \<longleftrightarrow> (\<forall>i. state_of c i = Some Ready \<longrightarrow> grp c i \<noteq> g)"
    unfolding e q(1) by (auto simp: in_state_def)
  show "Option.bind (fmlookup (ci_groups c) g) rq_peek = Some h \<Longrightarrow> state_of c (qh_id h) = Some Ready \<and> grp c (qh_id h) = g"
    unfolding e using q(2) by (auto simp: in_state_def)
qed

lemma reserve_slice_good:
  assumes "good {} A c" "state_of c i = Some Ready"
  shows "\<exists>c'. reserve_ready_slice i c = (c', Some (slice_of c i)) \<and> good {} A c' \<and> keeps c c'
     \<and> state_of c' = (state_of c)(i := Some Reserved)"
proof -
  have k: "i \<in> known c" using assms(2) by (rule state_of_known)
  let ?c = "set_state Reserved i (withdraw i c)"
  have r: "reserve_ready_slice i c = (?c, Some (slice_of c i))"
    using assms(2) k withdraw_fields(1)[OF k] by (auto simp: reserve_ready_slice_def Let_def slice_of_def known_iff)
  have "cinv {} ?c" using cinv_withdraw_state[of "{}" c i Reserved] assms(1) k by (simp add: good_def)
  moreover have s: "state_of ?c = (state_of c)(i := Some Reserved)"
    using k known_update[OF withdraw_fields(1)[OF k]] by (simp add: fun_eq_iff state_of_set_state)
  moreover have kp: "keeps c ?c" using keeps_trans[OF keeps_withdraw[OF k] keeps_set_state] .
  moreover have "finv A ?c" using assms(1) s kp by (auto simp: good_def finv_def keeps_def)
  ultimately show ?thesis using r assms(1) by (auto simp: good_def keeps_def)
qed

lemma sel_inv_step:
  assumes "sel_inv g max_parts target c0 sel c" "state_of c i = Some Ready" "grp c i = g" "length sel < max_parts"
    "sel = [] \<or> sat_add (sat_sum sel) (slice_bytes (slice_of c i)) \<le> target"
    "reserve_ready_slice i c = (c', Some (slice_of c i))" "good {} {} c'" "keeps c c'" "state_of c' = (state_of c)(i := Some Reserved)"
  shows "sel_inv g max_parts target c0 (sel @ [slice_of c i]) c'"
proof -
  have "ids_inv c" using assms(1) cinv_core by (auto simp: sel_inv_def good_def)
  then have id: "sl_id (slice_of c i) = i" using state_of_known[OF assms(2)] by (simp add: ids_inv_def)
  have same: "slice_of c = slice_of c0" using assms(1) by (simp add: sel_inv_def keeps_def)
  have new: "i \<notin> sel_ids sel" "state_of c0 i = Some Ready" using assms(1,2) by (auto simp: sel_inv_def split: if_splits)
  have g: "sl_group_key (slice_of c i) = g" using assms(3) by (simp add: grp_def)
  have "distinct (map sl_id (sel @ [slice_of c i]))" using assms(1) new id by (auto simp: sel_inv_def sel_ids_def)
  moreover have "keeps c0 c'" using assms(1,8) keeps_trans by (auto simp: sel_inv_def)
  moreover have "\<forall>j. state_of c' j = (if j \<in> sel_ids (sel @ [slice_of c i]) then Some Reserved else state_of c0 j)"
    using assms(1,9) id by (auto simp: sel_inv_def sel_ids_def)
  moreover have "length (sel @ [slice_of c i]) \<le> 1 \<or> sat_sum (sel @ [slice_of c i]) \<le> target"
    using assms(5) by (auto simp: sat_sum_def)
  ultimately show ?thesis using assms(1,4,7) new g id same unfolding sel_inv_def by auto
qed

lemma select_loop_spec:
  assumes "sel_inv g max_parts target c0 sel c" "bytes = sat_sum sel"
    "select_loop max_parts target g sel bytes examined seen c = (c', sel', examined', seen')"
  shows "sel_inv g max_parts target c0 sel' c' \<and> (sel \<noteq> [] \<longrightarrow> sel' \<noteq> [])
    \<and> (0 < max_parts \<and> (\<exists>i. state_of c i = Some Ready \<and> grp c i = g) \<longrightarrow> sel' \<noteq> [])"
  using assms
proof (induction max_parts target g sel bytes examined seen c rule: select_loop.induct)
  case (1 max_parts target g sel bytes examined seen c)
  have gd: "good {} {} c" using 1(2) by (simp add: sel_inv_def)
  note u = select_loop.simps[of max_parts target g sel bytes examined seen c]
  show ?case
  proof (cases "max_parts \<le> length sel")
    case True
    then show ?thesis using 1(2,4) u by auto
  next
    case more: False
    show ?thesis
    proof (cases "Option.bind (fmlookup (ci_groups c) g) rq_peek")
      case None
      then have "\<not> (\<exists>i. state_of c i = Some Ready \<and> grp c i = g)" using group_peek(1)[OF gd, of g] by blast
      moreover have "c' = c \<and> sel' = sel" using 1(4) u more None by simp
      ultimately show ?thesis using 1(2) by blast
    next
      case (Some h)
      from group_peek(2)[OF gd Some] have st: "state_of c (qh_id h) = Some Ready" and gr: "grp c (qh_id h) = g" by auto
      then obtain r where r: "slice_rec c (qh_id h) = Some r" by (auto simp: state_of_def)
      then have sl: "sr_slice r = slice_of c (qh_id h)" by (simp add: slice_of_def)
      show ?thesis
      proof (cases "sel \<noteq> [] \<and> target < sat_add bytes (slice_bytes (sr_slice r))")
        case True
        then show ?thesis using 1(2,4) u more Some r by (auto simp: Let_def)
      next
        case False
        obtain c1 where c1: "reserve_ready_slice (qh_id h) c = (c1, Some (slice_of c (qh_id h)))" "good {} {} c1" "keeps c c1"
          "state_of c1 = (state_of c)(qh_id h := Some Reserved)" using reserve_slice_good[OF gd st] by blast
        have inv: "sel_inv g max_parts target c0 (sel @ [slice_of c (qh_id h)]) c1"
          using more False 1(3) sl by (intro sel_inv_step[OF 1(2) st gr _ _ c1]) auto
        have b: "sat_add bytes (slice_bytes (sr_slice r)) = sat_sum (sel @ [slice_of c (qh_id h)])"
          using 1(3) sl by (simp add: sat_sum_def)
        have loop: "select_loop max_parts target g (sel @ [slice_of c (qh_id h)]) (sat_add bytes (slice_bytes (sr_slice r)))
            (sat_add examined 1) (insert (slice_segment_key (sr_slice r)) seen) c1 = (c', sel', examined', seen')"
          using 1(4) u more Some r False c1(1) by (simp add: Let_def)
        from 1(1)[OF more Some refl refl r refl refl False c1(1)[symmetric] refl inv b loop] show ?thesis by simp
      qed
    qed
  qed
qed

section \<open>The planning loop\<close>

lemma serve_lane_good:
  assumes "good U A c"
  shows "good U A (serve_lane l c)" "keeps c (serve_lane l c)" "state_of (serve_lane l c) = state_of c"
proof -
  let ?c = "serve_lane l c"
  have f: "ci_slices ?c = ci_slices c" "ci_segments ?c = ci_segments c" "ci_groups ?c = ci_groups c" "ci_waiting ?c = ci_waiting c"
    "ci_waiting_by_age ?c = ci_waiting_by_age c" "ci_waiting_ids_by_group ?c = ci_waiting_ids_by_group c"
    "ci_ready_count ?c = ci_ready_count c" "ci_ready_group_count ?c = ci_ready_group_count c"
    "ci_time_threshold_secs ?c = ci_time_threshold_secs c" "ci_byte_threshold ?c = ci_byte_threshold c"
    "ci_manifests ?c = ci_manifests c" "ci_available_counted ?c = ci_available_counted c"
    "ci_force_only_ready ?c = ci_force_only_ready c"
    by (simp_all add: serve_lane_def Let_def split: option.split)
  have q: "ls_queue (lane_state m ?c) = ls_queue (lane_state m c)" for m
    by (auto simp: serve_lane_def Let_def lane_state_def split: option.split)
  note k = known_update[OF f(1)]
  then have d: "same_data c ?c" using f by (simp add: same_data_def)
  show "state_of ?c = state_of c" "keeps c ?c" using k f by (simp_all add: keeps_def)
  have "queue_inv R ?c = queue_inv R c" for R
    using q f by (simp add: queue_inv_def same_data_views[OF d] group_queue_def)
  moreover have "waiting_inv W ?c = waiting_inv W c" if "W \<subseteq> known c" for W
    using that f by (intro waiting_inv_frame[OF d]) simp_all
  ultimately have "structures W R ?c = structures W R c" for W R
    using same_data_views[OF d] k by (auto simp: structures_def)
  then show "good U A ?c" using assms k f by (simp add: good_def cinv_def in_state_def finv_def)
qed

lemma lane_candidate_SomeD:
  assumes "good {} {} c" "lane_candidate per_sink blocked scheduled c = Some (x, y, z, lane, first)"
  shows "state_of c first = Some Ready" "group_lane (grp c first) = lane" "lane \<notin> blocked" "scheduled (lane_sink_ref lane) < per_sink"
proof -
  from iter_min_SomeD[OF assms(2)[unfolded lane_candidate_def]]
  obtain s h where s: "fmlookup (ci_lanes c) lane = Some s" "rq_peek (ls_queue s) = Some h" "qh_id h = first"
    and el: "lane_eligible per_sink blocked scheduled (lane, s)"
    by (auto simp: List.map_filter_def lane_rank_def btree_entries_set)
  have "ls_queue (lane_state lane c) = ls_queue s" using s(1) by (simp add: lane_state_def)
  then have "first \<in> {i \<in> in_state Ready {} c. group_lane (grp c i) = lane}"
    using peek_member(2)[OF good_queues(2)[OF assms(1), of lane] good_queues(3,4)[OF assms(1)]] s by metis
  then show "state_of c first = Some Ready" "group_lane (grp c first) = lane" by (auto simp: in_state_def)
  show "lane \<notin> blocked" "scheduled (lane_sink_ref lane) < per_sink" using el by (auto simp: lane_eligible_def)
qed

lemma lane_candidate_NoneD:
  assumes "good {} {} c" "lane_candidate per_sink blocked scheduled c = None" "state_of c i = Some Ready"
  shows "group_lane (grp c i) \<in> blocked \<or> per_sink \<le> scheduled (gk_sink_ref (grp c i))"
proof (rule ccontr)
  let ?l = "group_lane (grp c i)"
  assume n: "\<not> (?l \<in> blocked \<or> per_sink \<le> scheduled (gk_sink_ref (grp c i)))"
  note h = good_queues(2)[OF assms(1), of ?l]
  have ne: "{j \<in> in_state Ready {} c. group_lane (grp c j) = ?l} \<noteq> {}" using assms(3) by (auto simp: in_state_def)
  then have full: "\<not> rq_is_empty (ls_queue (lane_state ?l c))" using holds_is_empty[OF h] by simp
  then obtain s where s: "fmlookup (ci_lanes c) ?l = Some s" "ls_queue (lane_state ?l c) = ls_queue s"
    using holds_is_empty[OF holds_empty[of c]] by (cases "fmlookup (ci_lanes c) ?l") (auto simp: lane_state_def)
  obtain hd where "rq_peek (ls_queue s) = Some hd"
    using peek_member(1)[OF h good_queues(3,4)[OF assms(1)]] ne s(2) by (cases "rq_peek (ls_queue s)") auto
  then have "lane_rank (?l, s) \<noteq> None" by (simp add: lane_rank_def)
  moreover have "lane_eligible per_sink blocked scheduled (?l, s)"
    using n full s(2) by (simp add: lane_eligible_def group_lane_def)
  moreover have "(?l, s) \<in> set (btree_entries (ci_lanes c))" using s(1) by (simp add: btree_entries_set)
  ultimately show False using assms(2) by (auto simp: lane_candidate_def List.map_filter_def filter_empty_conv)
qed

definition planned_slices :: "PlannedCompactionGroup list \<Rightarrow> IndexedCompactionSlice list" where
  "planned_slices groups = concat (map pg_slices groups)"

lemma planned_append: "planned_slices (groups @ [p]) = planned_slices groups @ pg_slices p"
  by (simp add: planned_slices_def)

definition group_count :: "PlannedCompactionGroup list \<Rightarrow> string \<Rightarrow> nat" where
  "group_count groups sink = length (filter (\<lambda>p. gk_sink_ref (pg_key p) = sink) groups)"

text \<open>A group that may be planned from the index \<open>c0\<close>.\<close>

definition group_ok :: "nat \<Rightarrow> u64 \<Rightarrow> CompactionLaneKey set \<Rightarrow> CompactionIndex \<Rightarrow> PlannedCompactionGroup \<Rightarrow> bool" where
  "group_ok max_parts target blocked c0 p \<longleftrightarrow> pg_slices p \<noteq> [] \<and> length (pg_slices p) \<le> max_parts
     \<and> (length (pg_slices p) \<le> 1 \<or> sat_sum (pg_slices p) \<le> target) \<and> group_lane (pg_key p) \<notin> blocked
     \<and> (\<forall>sl\<in>set (pg_slices p). state_of c0 (sl_id sl) = Some Ready \<and> slice_of c0 (sl_id sl) = sl \<and> sl_group_key sl = pg_key p)"

definition plan_inv ::
  "nat \<Rightarrow> nat \<Rightarrow> u64 \<Rightarrow> nat \<Rightarrow> CompactionLaneKey set \<Rightarrow> (string \<Rightarrow> nat) \<Rightarrow> CompactionIndex \<Rightarrow> (string \<Rightarrow> nat)
    \<Rightarrow> PlannedCompactionGroup list \<Rightarrow> CompactionIndex \<Rightarrow> bool"
where
  "plan_inv limit max_parts target per_sink blocked active c0 scheduled groups c \<longleftrightarrow> good {} {} c \<and> keeps c0 c
     \<and> length groups \<le> limit \<and> distinct (map sl_id (planned_slices groups))
     \<and> (\<forall>p\<in>set groups. group_ok max_parts target blocked c0 p)
     \<and> (\<forall>j. state_of c j = (if j \<in> sel_ids (planned_slices groups) then Some Reserved else state_of c0 j))
     \<and> (\<forall>s. scheduled s = active s + group_count groups s \<and> scheduled s \<le> max per_sink (active s))"

lemma plan_inv_step:
  assumes inv: "plan_inv limit max_parts target per_sink blocked active c0 scheduled groups c"
    and room: "length groups < limit"
    and lane: "group_lane g \<notin> blocked" "scheduled (gk_sink_ref g) < per_sink"
    and sel: "sel_inv g max_parts target c sel c1" "sel \<noteq> []"
  shows "plan_inv limit max_parts target per_sink blocked active c0
     (scheduled(gk_sink_ref g := scheduled (gk_sink_ref g) + 1)) (groups @ [\<lparr>pg_key = g, pg_slices = sel\<rparr>]) (serve_lane l c1)"
proof -
  let ?p = "\<lparr>pg_key = g, pg_slices = sel\<rparr>" and ?gs = "groups @ [\<lparr>pg_key = g, pg_slices = sel\<rparr>]"
  have g1: "good {} {} c1" and k1: "keeps c c1" using sel(1) by (simp_all add: sel_inv_def)
  have k: "keeps c0 (serve_lane l c1)"
    using inv k1 serve_lane_good(2)[OF g1] keeps_trans unfolding plan_inv_def by meson
  have st: "state_of c j = (if j \<in> sel_ids (planned_slices groups) then Some Reserved else state_of c0 j)" for j
    using inv unfolding plan_inv_def by blast
  have fromc: "state_of c (sl_id sl) = Some Ready" "slice_of c (sl_id sl) = sl" "sl_group_key sl = g" if "sl \<in> set sel" for sl
    using sel(1) that unfolding sel_inv_def by blast+
  have fresh: "sl_id sl \<notin> sel_ids (planned_slices groups)" "state_of c0 (sl_id sl) = Some Ready" if "sl \<in> set sel" for sl
    using fromc(1)[OF that] st[of "sl_id sl"] by (auto split: if_splits)
  have same: "slice_of c = slice_of c0" using inv by (simp add: plan_inv_def keeps_def)
  have "group_ok max_parts target blocked c0 ?p"
    using sel lane fromc fresh same unfolding group_ok_def sel_inv_def by simp
  then have "\<forall>p\<in>set ?gs. group_ok max_parts target blocked c0 p" using inv by (simp add: plan_inv_def)
  moreover have "length ?gs \<le> limit" using room by simp
  moreover have "distinct (map sl_id (planned_slices ?gs))"
  proof -
    have "distinct (map sl_id (planned_slices groups))" "distinct (map sl_id sel)" using inv sel(1) by (simp_all add: plan_inv_def sel_inv_def)
    moreover have "set (map sl_id (planned_slices groups)) \<inter> set (map sl_id sel) = {}"
      using fresh(1) by (auto simp: sel_ids_def) (metis imageI)
    ultimately show ?thesis unfolding planned_append map_append distinct_append by simp
  qed
  moreover have "state_of (serve_lane l c1) j = (if j \<in> sel_ids (planned_slices ?gs) then Some Reserved else state_of c0 j)" for j
  proof -
    have "state_of c1 j = (if j \<in> sel_ids sel then Some Reserved else state_of c j)" using sel(1) unfolding sel_inv_def by blast
    then show ?thesis unfolding serve_lane_good(3)[OF g1] using st[of j] by (auto simp: planned_slices_def sel_ids_def)
  qed
  moreover have "(scheduled(gk_sink_ref g := scheduled (gk_sink_ref g) + 1)) s = active s + group_count ?gs s
      \<and> (scheduled(gk_sink_ref g := scheduled (gk_sink_ref g) + 1)) s \<le> max per_sink (active s)" for s
  proof -
    have "scheduled s = active s + group_count groups s" "scheduled s \<le> max per_sink (active s)" using inv unfolding plan_inv_def by blast+
    then show ?thesis using lane(2) by (cases "s = gk_sink_ref g") (auto simp: group_count_def)
  qed
  ultimately show ?thesis unfolding plan_inv_def using k serve_lane_good(1)[OF g1] by blast
qed

lemma plan_loop_spec:
  assumes "plan_inv limit max_parts target per_sink blocked active c0 scheduled groups c" "0 < max_parts"
  shows "\<exists>c' groups' ex' seen' scheduled'. plan_loop limit max_parts target per_sink blocked scheduled groups ex seen c = Some (c', groups', ex', seen')
    \<and> plan_inv limit max_parts target per_sink blocked active c0 scheduled' groups' c'
    \<and> (length groups' = limit \<or> lane_candidate per_sink blocked scheduled' c' = None)"
  using assms
proof (induction "limit - length groups" arbitrary: groups scheduled c ex seen rule: less_induct)
  case less
  note inv = less.prems(1) and u = plan_loop.simps[of limit max_parts target per_sink blocked scheduled groups ex seen c]
  have gd: "good {} {} c" and len: "length groups \<le> limit" using inv by (simp_all add: plan_inv_def)
  show ?case
  proof (cases "limit \<le> length groups \<or> lane_candidate per_sink blocked scheduled c = None")
    case True
    then have "plan_loop limit max_parts target per_sink blocked scheduled groups ex seen c = Some (c, groups, ex, seen)"
      using u by auto
    then show ?thesis using inv len True by (intro exI[of _ c] exI[of _ groups] exI[of _ ex] exI[of _ seen] exI[of _ scheduled]) auto
  next
    case False
    then obtain x y z lane first where cand: "lane_candidate per_sink blocked scheduled c = Some (x, y, z, lane, first)"
      by (cases "lane_candidate per_sink blocked scheduled c") auto
    note s = lane_candidate_SomeD[OF gd cand]
    then obtain r where r: "slice_rec c first = Some r" by (auto simp: state_of_def)
    let ?g = "sl_group_key (sr_slice r)"
    have g: "?g = grp c first" using r by (simp add: grp_def slice_of_def)
    obtain c1 sel ex1 seen1 where sl: "select_loop max_parts target ?g [] 0 ex seen c = (c1, sel, ex1, seen1)"
      by (metis prod_cases4)
    have start: "sel_inv ?g max_parts target c [] c" using gd by (simp add: sel_inv_def sel_ids_def)
    have "sel_inv ?g max_parts target c sel c1 \<and> sel \<noteq> []"
      using select_loop_spec[OF start _ sl] less.prems(2) s(1) g by (auto simp: sat_sum_def)
    then have sel: "sel_inv ?g max_parts target c sel c1" "sel \<noteq> []" by simp_all
    let ?sch = "scheduled(gk_sink_ref ?g := scheduled (gk_sink_ref ?g) + 1)" and ?gs = "groups @ [\<lparr>pg_key = ?g, pg_slices = sel\<rparr>]"
    have loop: "plan_loop limit max_parts target per_sink blocked scheduled groups ex seen c
        = plan_loop limit max_parts target per_sink blocked ?sch ?gs ex1 seen1 (serve_lane lane c1)"
      unfolding u using False cand r sl sel(2) by (simp add: Let_def)
    have inv': "plan_inv limit max_parts target per_sink blocked active c0 ?sch ?gs (serve_lane lane c1)"
      using False s(2-4) g by (intro plan_inv_step[OF inv _ _ _ sel]) (auto simp: group_lane_def)
    have "length groups < limit" using False by simp
    then have "limit - length ?gs < limit - length groups" by simp
    from less.hyps[OF this inv' less.prems(2), of ex1 seen1] show ?thesis unfolding loop .
  qed
qed

end
