(* ===== verification/Compaction_System.thy ===== *)
theory Compaction_System
  imports Compaction_Plan
begin

text \<open>
  The compaction index as a state machine: one rule of \<open>index_step\<close> per public operation of
  \<^verbatim>\<open>src/src/buffer/compaction_index.rs\<close>, with every argument the callers may choose (limits,
  clock readings, thresholds, transactions, hash iteration orders). The invariant of
  \<^verbatim>\<open>Compaction_Invariant\<close> holds in every reachable index, and the properties of the planner are
  stated for reachable indexes.
\<close>

section \<open>Steps\<close>

inductive index_step :: "CompactionIndex \<Rightarrow> CompactionIndex \<Rightarrow> bool" where
  step_clear: "index_step c (clear_for_recovery c)"
| step_register: "hash_order_ok ho \<Longrightarrow> one_segment sid slices \<Longrightarrow>
    index_step c (fst (register_segment ho sid slices byte_threshold time_threshold now c))"
| step_remove_segment: "index_step c (remove_segment sid c)"
| step_drop: "hash_order_ok ho \<Longrightarrow> index_step c (drop_segments_not_in ho live c)"
| step_ordinals: "hash_order_ok ho \<Longrightarrow> index_step c (fst (complete_ordinals ho sid ordinals c))"
| step_complete: "index_step c (fst (complete_refs refs c))"
| step_release: "index_step c (release_refs refs now c)"
| step_install: "hash_order_ok ho \<Longrightarrow> index_step c (install_manifests ho txns c)"
| step_upsert: "index_step c (upsert_manifest clock txn c)"
| step_remove_manifest: "index_step c (remove_manifest tid now c)"
| step_release_manifest: "index_step c (release_manifest tid c)"
| step_reserve: "index_step c (fst (reserve_ready_manifests limit per_sink now stale active blocked c))"
| step_reclaimable: "index_step c (fst (reclaimable_slice_count force now stale limit c))"
| step_recovered: "index_step c (mark_recovered_ready c)"
| step_plan: "hash_order_ok ho \<Longrightarrow> 0 < max_parts \<Longrightarrow>
    plan_ready ho limit force now byte_threshold time_threshold target max_parts per_sink active blocked c = Some (c', p) \<Longrightarrow>
    index_step c c'"

inductive index_reachable :: "CompactionIndex \<Rightarrow> bool" where
  reach_default: "index_reachable index_default"
| reach_step: "index_reachable c \<Longrightarrow> index_step c c' \<Longrightarrow> index_reachable c'"

section \<open>Planning keeps the invariant\<close>

lemma prepare_plan_good:
  fixes force :: bool and now bt tt :: u64
  assumes "good {} {} c" "hash_order_ok ho"
  defines "c0 \<equiv> prepare_plan ho force now bt tt c"
  shows "good {} {} c0" "known c0 = known c" "slice_of c0 = slice_of c" "ci_manifests c0 = ci_manifests c"
    "force \<Longrightarrow> in_state Waiting {} c0 = {}" "\<not> force \<Longrightarrow> i \<in> in_state Waiting {} c0 \<Longrightarrow> now < eligible_at c0 i"
proof -
  let ?c = "configure_thresholds ho bt tt now c"
  note cfg = configure_good[OF assms(1,2), of bt tt now]
  note all = promote_all_good[OF cfg(1), of now]
  note dem = demote_force_only_good[OF cfg(1), of now]
  note due = promote_due_good[OF dem(1), of now]
  have "good {} {} c0 \<and> keeps ?c c0 \<and> (force \<longrightarrow> in_state Waiting {} c0 = {})
      \<and> (\<not> force \<longrightarrow> (\<forall>i \<in> in_state Waiting {} c0. now < eligible_at c0 i))"
  proof (cases force)
    case True
    then show ?thesis using all by (simp add: c0_def prepare_plan_def Let_def)
  next
    case False
    then have "c0 = promote_due now (demote_force_only now ?c)" by (simp add: c0_def prepare_plan_def Let_def)
    moreover have "keeps ?c (promote_due now (demote_force_only now ?c))"
      using due dem(2) keeps_trans unfolding promotes_def by blast
    ultimately show ?thesis using False due by simp
  qed
  then show "good {} {} c0" "known c0 = known c" "slice_of c0 = slice_of c" "ci_manifests c0 = ci_manifests c"
    "force \<Longrightarrow> in_state Waiting {} c0 = {}" "\<not> force \<Longrightarrow> i \<in> in_state Waiting {} c0 \<Longrightarrow> now < eligible_at c0 i"
    using cfg by (auto simp: keeps_def)
qed

lemma plan_ready_inv:
  fixes force :: bool and now bt tt :: u64
  assumes "good {} {} c" "hash_order_ok ho" "0 < max_parts"
  defines "c0 \<equiv> prepare_plan ho force now bt tt c"
  shows "\<exists>c' p scheduled. plan_ready ho limit force now bt tt target max_parts per_sink active blocked c = Some (c', p)
    \<and> plan_inv limit max_parts target per_sink blocked (active_counts_by_sink active) c0 scheduled (cp_groups p) c'
    \<and> cp_ready_queue_depth p = ci_ready_group_count c'
    \<and> (length (cp_groups p) = limit \<or> lane_candidate per_sink blocked scheduled c' = None)"
proof -
  let ?a = "active_counts_by_sink active"
  have "plan_inv limit max_parts target per_sink blocked ?a c0 ?a [] c0"
    using prepare_plan_good(1)[OF assms(1,2)] by (simp add: plan_inv_def c0_def planned_slices_def sel_ids_def group_count_def)
  from plan_loop_spec[OF this assms(3), of 0 "{}"] show ?thesis
    unfolding plan_ready_def c0_def[symmetric] by fastforce
qed

section \<open>The invariant of reachable indexes\<close>

lemma index_step_good:
  assumes "index_step c c'" "good {} {} c"
  shows "good {} {} c'"
  using assms
proof (induction rule: index_step.induct)
  case (step_plan ho max_parts limit force now byte_threshold time_threshold target per_sink active blocked c c' p)
  then show ?case
    using plan_ready_inv[OF step_plan(4,1,2), of limit force now byte_threshold time_threshold target per_sink active blocked]
    by (auto simp: plan_inv_def)
qed (simp_all add: clear_for_recovery_def index_default_good register_segment_good(1) remove_segment_good(1) drop_segments_good(1)
    complete_ordinals_good(1) complete_refs_good(1) release_refs_good(1) install_good(1) upsert_good(1) remove_manifest_good(1)
    release_manifest_good(1) reserve_manifests_good(1) reclaimable_good(1) mark_recovered_good(1))

lemma index_reachable_good: "index_reachable c \<Longrightarrow> good {} {} c"
  by (induction rule: index_reachable.induct) (auto intro: index_default_good index_step_good)

section \<open>A concrete index\<close>

definition sorted_order :: hash_order where
  "sorted_order = \<lparr>ho_slices = sorted_list_of_set, ho_names = sorted_list_of_set\<rparr>"

lemma sorted_order_ok [simp]: "hash_order_ok sorted_order"
  by (simp add: hash_order_ok_def sorted_order_def)

definition sample_index :: CompactionIndex where
  "sample_index = fst (register_segment sorted_order ''a'' [sample_slice ''a'' 0, sample_slice ''a'' 8] 16 60 7 index_default)"

lemma sample_ids [simp]: "sl_id (sample_slice ''a'' 0) \<noteq> sl_id (sample_slice ''a'' 8)"
  by (simp add: slice_id_from_wal_ref_def)

lemma sample_one_segment: "one_segment ''a'' [sample_slice ''a'' 0, sample_slice ''a'' 8]"
  by (simp add: one_segment_def slice_id_from_wal_ref_def slice_segment_key_def)

lemma sample_index_reachable: "index_reachable sample_index"
  unfolding sample_index_def
  by (intro reach_step[OF reach_default] step_register sorted_order_ok sample_one_segment)

lemma sample_index_known: "known sample_index = {sl_id (sample_slice ''a'' 0), sl_id (sample_slice ''a'' 8)}"
  unfolding sample_index_def
  using register_segment_good(2)[OF index_default_good sorted_order_ok sample_one_segment, of 16 60 7]
  by (simp add: known_def index_default_def)

section \<open>Properties\<close>

definition ready_ids :: "CompactionIndex \<Rightarrow> CompactionSliceId set" where
  "ready_ids c = {i. state_of c i = Some Ready}"

text \<open>C5. In every reachable index the derived structures agree with the slice records: the waiting set
  is the set of slices in state waiting; the group queues and the lane queues hold exactly the
  ready slices of their group and lane; the two ready counters count the ready slices and the
  groups that have one; a segment is present exactly while it has an open slice, and its
  remaining count is the number of its open slices; the slices whose bytes count as available
  are the waiting and the ready ones; force-only slices are ready.\<close>

theorem index_consistent:
  assumes "index_reachable c"
  shows "ci_waiting c = {i. state_of c i = Some Waiting}
    \<and> (\<forall>g. rq_content (group_queue g c) = (\<lambda>i. slice_queue_key (slice_of c i)) ` {i \<in> ready_ids c. grp c i = g})
    \<and> (\<forall>l. rq_content (ls_queue (lane_state l c)) = (\<lambda>i. slice_queue_key (slice_of c i)) ` {i \<in> ready_ids c. group_lane (grp c i) = l})
    \<and> ci_ready_count c = card (ready_ids c) \<and> ci_ready_group_count c = card (grp c ` ready_ids c)
    \<and> (\<forall>k. k \<in> fmdom' (ci_segments c) \<longleftrightarrow> (\<exists>i\<in>known c. segment_of i = k))
    \<and> (\<forall>k. segment_remaining k c = card {i \<in> known c. segment_of i = k})
    \<and> ci_available_counted c = ci_waiting c \<union> ready_ids c \<and> ci_force_only_ready c \<subseteq> ready_ids c"
proof -
  have r: "in_state Ready {} c = ready_ids c" by (simp add: in_state_def ready_ids_def)
  have inv: "cinv {} c" using index_reachable_good[OF assms] by (simp add: good_def)
  then have s: "segment_inv c" "queue_inv (ready_ids c) c" "waiting_inv {i. state_of c i = Some Waiting} c"
    by (auto simp: cinv_def structures_def r) (simp add: in_state_def)
  have "k \<in> fmdom' (ci_segments c) \<longleftrightarrow> (\<exists>i\<in>known c. segment_of i = k)" for k
    using s(1) unfolding segment_inv_def fmlookup_dom'_iff by blast
  moreover have "segment_remaining k c = card {i \<in> known c. segment_of i = k}" for k
  proof (cases "fmlookup (ci_segments c) k")
    case None
    then have "{i \<in> known c. segment_of i = k} = {}" using s(1) unfolding segment_inv_def fmlookup_dom'_iff by auto
    then show ?thesis using None by (simp add: segment_remaining_def)
  next
    case (Some x)
    then show ?thesis using s(1) unfolding segment_inv_def by (simp add: segment_remaining_def)
  qed
  moreover have "ci_available_counted c = ci_waiting c \<union> ready_ids c" "ci_force_only_ready c \<subseteq> ready_ids c"
    using inv s(3) unfolding cinv_def r waiting_inv_def by (auto simp: in_state_def)
  moreover have "ci_waiting c = {i. state_of c i = Some Waiting}" using s(3) by (simp add: waiting_inv_def)
  moreover have "rq_content (group_queue g c) = (\<lambda>i. slice_queue_key (slice_of c i)) ` {i \<in> ready_ids c. grp c i = g}" for g
    using s(2) unfolding queue_inv_def holds_def by simp
  moreover have "rq_content (ls_queue (lane_state l c)) = (\<lambda>i. slice_queue_key (slice_of c i)) ` {i \<in> ready_ids c. group_lane (grp c i) = l}" for l
    using s(2) unfolding queue_inv_def holds_def by simp
  moreover have "ci_ready_count c = card (ready_ids c)" "ci_ready_group_count c = card (grp c ` ready_ids c)"
    using s(2) by (simp_all add: queue_inv_def)
  ultimately show ?thesis by (intro conjI allI)
qed

theorem index_consistent_witness:
  "segment_remaining (slice_segment_key (sample_slice ''a'' 0)) sample_index = 2"
proof -
  let ?k = "slice_segment_key (sample_slice ''a'' 0)"
  have "segment_of i = ?k" if "i \<in> known sample_index" for i
    using that unfolding sample_index_known by (auto simp: segment_of_def slice_segment_key_def slice_id_from_wal_ref_def)
  then have "{i \<in> known sample_index. segment_of i = ?k} = {sl_id (sample_slice ''a'' 0), sl_id (sample_slice ''a'' 8)}"
    using sample_index_known by auto
  moreover have "card {sl_id (sample_slice ''a'' 0), sl_id (sample_slice ''a'' 8)} = 2"
    using sample_ids by (metis card_2_iff)
  ultimately show ?thesis using index_consistent[OF sample_index_reachable] by simp
qed

text \<open>C6. In every reachable index, a slice that a live compaction transaction refers to is neither
  waiting nor ready, so it is not handed out for a second compaction.\<close>

theorem referenced_slices_not_schedulable:
  assumes "index_reachable c" "fmlookup (mi_records (ci_manifests c)) tid = Some r" "w \<in> set (ct_refs (mr_txn r))"
  shows "state_of c (slice_id_from_wal_ref w) \<in> {None, Some Reserved, Some SFenced}"
proof -
  have g: "good {} {} c" using assms(1) by (rule index_reachable_good)
  have "holders (ci_manifests c) (slice_id_from_wal_ref w) \<noteq> {}" using assms(2,3) by (force simp: holders_def ref_ids_def)
  then have "is_fenced (slice_id_from_wal_ref w) (ci_manifests c)" using g minv_is_fenced by (auto simp: good_def)
  then have n: "state_of c (slice_id_from_wal_ref w) \<notin> {Some Waiting, Some Ready}" using g by (auto simp: good_def finv_def)
  show ?thesis
  proof (cases "state_of c (slice_id_from_wal_ref w)")
    case (Some st)
    then show ?thesis using n by (cases st) auto
  qed simp
qed

theorem referenced_slices_not_schedulable_witness:
  "state_of (upsert_manifest (\<lambda>_. 7) (sample_txn ''x'' ''a'') sample_index) (slice_id_from_wal_ref (sample_wal_ref ''a'' 0))
     \<in> {None, Some Reserved, Some SFenced}"
proof -
  let ?c = "upsert_manifest (\<lambda>_. 7) (sample_txn ''x'' ''a'') sample_index"
  have g: "good {} {} sample_index" using sample_index_reachable by (rule index_reachable_good)
  then obtain b where "ci_manifests ?c = mi_upsert (sample_txn ''x'' ''a'') b (ci_manifests sample_index)"
    using upsert_good(3) by blast
  moreover have "minv (ci_manifests sample_index)" using g by (simp add: good_def)
  ultimately obtain r where r: "fmlookup (mi_records (ci_manifests ?c)) ''x'' = Some r" "mr_txn r = sample_txn ''x'' ''a''"
    by (simp add: mi_upsert_minv(2))
  have "index_reachable ?c" using sample_index_reachable step_upsert by (rule reach_step)
  from referenced_slices_not_schedulable[OF this r(1), of "sample_wal_ref ''a'' 0"] show ?thesis using r(2) by simp
qed

text \<open>C4. Planning returns for every positive number of parts, and its plan is safe: at most \<open>limit\<close>
  groups; no slice twice, neither within a group nor across groups; every group is not empty, of
  at most \<open>max_parts\<close> slices, within the target bytes unless it is a single slice, of one group
  key and in a lane that is not blocked; every planned slice is a slice of the index that no
  live transaction refers to and that is reserved afterwards; and no sink gets more than its
  limit beyond what was active already.\<close>

theorem plan_ready_safe:
  assumes "index_reachable c" "hash_order_ok ho" "0 < max_parts"
  shows "\<exists>c' p. plan_ready ho limit force now byte_threshold time_threshold target max_parts per_sink active blocked c = Some (c', p)
    \<and> length (cp_groups p) \<le> limit \<and> distinct (map sl_id (planned_slices (cp_groups p)))
    \<and> (\<forall>g\<in>set (cp_groups p). pg_slices g \<noteq> [] \<and> length (pg_slices g) \<le> max_parts
        \<and> (length (pg_slices g) \<le> 1 \<or> sat_sum (pg_slices g) \<le> target) \<and> group_lane (pg_key g) \<notin> blocked
        \<and> (\<forall>sl\<in>set (pg_slices g). sl_group_key sl = pg_key g \<and> map_option sr_slice (slice_rec c (sl_id sl)) = Some sl
             \<and> \<not> is_fenced (sl_id sl) (ci_manifests c) \<and> state_of c' (sl_id sl) = Some Reserved))
    \<and> (\<forall>s. active_counts_by_sink active s + group_count (cp_groups p) s \<le> max per_sink (active_counts_by_sink active s))"
proof -
  have g: "good {} {} c" using assms(1) by (rule index_reachable_good)
  define c0 where "c0 = prepare_plan ho force now byte_threshold time_threshold c"
  note p0 = prepare_plan_good[OF g assms(2), where force = force and now = now and bt = byte_threshold and tt = time_threshold, folded c0_def]
  obtain c' p sched where p: "plan_ready ho limit force now byte_threshold time_threshold target max_parts per_sink active blocked c = Some (c', p)"
    "plan_inv limit max_parts target per_sink blocked (active_counts_by_sink active) c0 sched (cp_groups p) c'"
    using plan_ready_inv[OF g assms(2,3)] unfolding c0_def by blast
  note i = p(2)[unfolded plan_inv_def]
  have slice: "map_option sr_slice (slice_rec c (sl_id sl)) = Some sl \<and> \<not> is_fenced (sl_id sl) (ci_manifests c)
      \<and> state_of c' (sl_id sl) = Some Reserved" if "gr \<in> set (cp_groups p)" "sl \<in> set (pg_slices gr)" for gr sl
  proof -
    have "state_of c0 (sl_id sl) = Some Ready" "slice_of c0 (sl_id sl) = sl" using i that unfolding group_ok_def by blast+
    moreover from this have "sl_id sl \<in> known c" "\<not> is_fenced (sl_id sl) (ci_manifests c)"
      using p0(1,2,4) state_of_known[of c0 "sl_id sl" Ready] by (auto simp: good_def finv_def)
    moreover have "sl_id sl \<in> sel_ids (planned_slices (cp_groups p))" using that by (auto simp: sel_ids_def planned_slices_def)
    ultimately show ?thesis using i p0(3) by (auto simp: slice_of_def known_iff)
  qed
  have "active_counts_by_sink active s + group_count (cp_groups p) s \<le> max per_sink (active_counts_by_sink active s)" for s
    using i by metis
  moreover have "\<forall>gr\<in>set (cp_groups p). pg_slices gr \<noteq> [] \<and> length (pg_slices gr) \<le> max_parts
        \<and> (length (pg_slices gr) \<le> 1 \<or> sat_sum (pg_slices gr) \<le> target) \<and> group_lane (pg_key gr) \<notin> blocked
        \<and> (\<forall>sl\<in>set (pg_slices gr). sl_group_key sl = pg_key gr)"
    using i unfolding group_ok_def by blast
  ultimately show ?thesis using p(1) i slice by blast
qed

theorem plan_ready_safe_witness:
  "\<exists>c' p. plan_ready sorted_order 2 True 7 16 60 64 4 1 [] {} sample_index = Some (c', p)
    \<and> length (cp_groups p) \<le> 2 \<and> distinct (map sl_id (planned_slices (cp_groups p))) \<and> group_count (cp_groups p) ''s'' \<le> 1"
proof -
  obtain c' p where p: "plan_ready sorted_order 2 True 7 16 60 64 4 1 [] {} sample_index = Some (c', p)"
    "length (cp_groups p) \<le> 2" "distinct (map sl_id (planned_slices (cp_groups p)))"
    "\<And>s. active_counts_by_sink [] s + group_count (cp_groups p) s \<le> max 1 (active_counts_by_sink [] s)"
    using plan_ready_safe[OF sample_index_reachable sorted_order_ok, of 4 2 True 7 16 60 64 1 "[]" "{}"] by auto
  have "group_count (cp_groups p) ''s'' \<le> 1" using p(4)[of "''s''"] by (simp add: active_counts_by_sink_def)
  then show ?thesis using p(1-3) by blast
qed

text \<open>Planning is work conserving: a plan with fewer groups than the limit leaves a slice ready only
  when its lane is blocked or its sink has reached its limit; a forced plan leaves no slice
  waiting, and any other plan leaves a slice waiting only when its age threshold is in the
  future.\<close>

theorem plan_ready_exhausts:
  assumes "index_reachable c" "hash_order_ok ho" "0 < max_parts"
  shows "\<exists>c' p. plan_ready ho limit force now byte_threshold time_threshold target max_parts per_sink active blocked c = Some (c', p)
    \<and> (length (cp_groups p) < limit \<longrightarrow> (\<forall>i. state_of c' i = Some Ready \<longrightarrow> group_lane (grp c' i) \<in> blocked
         \<or> per_sink \<le> active_counts_by_sink active (gk_sink_ref (grp c' i)) + group_count (cp_groups p) (gk_sink_ref (grp c' i))))
    \<and> (\<forall>i. state_of c' i = Some Waiting \<longrightarrow> \<not> force \<and> now < eligible_at c' i)"
proof -
  have g: "good {} {} c" using assms(1) by (rule index_reachable_good)
  define c0 where "c0 = prepare_plan ho force now byte_threshold time_threshold c"
  note p0 = prepare_plan_good[OF g assms(2), where force = force and now = now and bt = byte_threshold and tt = time_threshold, folded c0_def]
  obtain c' p sched where p: "plan_ready ho limit force now byte_threshold time_threshold target max_parts per_sink active blocked c = Some (c', p)"
    "plan_inv limit max_parts target per_sink blocked (active_counts_by_sink active) c0 sched (cp_groups p) c'"
    "length (cp_groups p) = limit \<or> lane_candidate per_sink blocked sched c' = None"
    using plan_ready_inv[OF g assms(2,3)] unfolding c0_def by blast
  note i = p(2)[unfolded plan_inv_def]
  have sched: "sched s = active_counts_by_sink active s + group_count (cp_groups p) s" for s using i by blast
  have gc: "good {} {} c'" using i by blast
  have wait: "\<not> force \<and> now < eligible_at c' j" if "state_of c' j = Some Waiting" for j
  proof -
    have "state_of c0 j = Some Waiting" using i that by (metis SliceState.distinct(3) option.inject)
    then have "j \<in> in_state Waiting {} c0" by (simp add: in_state_def)
    moreover have "eligible_at c' j = eligible_at c0 j" using i by (simp add: keeps_def eligible_at_def)
    ultimately show ?thesis using p0(5,6) by auto
  qed
  have "group_lane (grp c' j) \<in> blocked
      \<or> per_sink \<le> active_counts_by_sink active (gk_sink_ref (grp c' j)) + group_count (cp_groups p) (gk_sink_ref (grp c' j))"
    if "length (cp_groups p) < limit" "state_of c' j = Some Ready" for j
  proof -
    have "lane_candidate per_sink blocked sched c' = None" using p(3) that(1) by simp
    from lane_candidate_NoneD[OF gc this that(2)] show ?thesis unfolding sched .
  qed
  then show ?thesis using p(1) wait by blast
qed

theorem plan_ready_exhausts_witness:
  "\<exists>c' p. plan_ready sorted_order 2 True 7 16 60 64 4 5 [] {} sample_index = Some (c', p)
    \<and> (\<forall>i. state_of c' i \<noteq> Some Waiting) \<and> (cp_groups p = [] \<longrightarrow> (\<forall>i. state_of c' i \<noteq> Some Ready))"
proof -
  obtain c' p where p: "plan_ready sorted_order 2 True 7 16 60 64 4 5 [] {} sample_index = Some (c', p)"
    "length (cp_groups p) < 2 \<longrightarrow> (\<forall>i. state_of c' i = Some Ready \<longrightarrow> group_lane (grp c' i) \<in> {}
         \<or> 5 \<le> active_counts_by_sink [] (gk_sink_ref (grp c' i)) + group_count (cp_groups p) (gk_sink_ref (grp c' i)))"
    "\<forall>i. state_of c' i \<noteq> Some Waiting"
    using plan_ready_exhausts[OF sample_index_reachable sorted_order_ok, of 4 2 True 7 16 60 64 5 "[]" "{}"] by auto
  have "state_of c' i \<noteq> Some Ready" if "cp_groups p = []" for i
    using p(2) that by (auto simp: active_counts_by_sink_def group_count_def)
  then show ?thesis using p(1,3) by blast
qed

end
