(* ===== verification/Compaction_Slices.thy ===== *)
theory Compaction_Slices
  imports Compaction_System
begin

text \<open>
  A slice enters the index only by registration and is never changed afterwards: a predicate that
  holds of every registered slice holds of every slice of the index, whatever operations of
  \<^verbatim>\<open>src/src/buffer/compaction_index.rs\<close> follow.
\<close>

definition slices_sat :: "(IndexedCompactionSlice \<Rightarrow> bool) \<Rightarrow> CompactionIndex \<Rightarrow> bool" where
  "slices_sat P c \<longleftrightarrow> (\<forall>i r. slice_rec c i = Some r \<longrightarrow> P (sr_slice r))"

named_theorems sat_intros \<open>operations of the index that keep a predicate on its slices\<close>

lemma slices_sat_fields [simp]:
  "slices_sat P (c\<lparr>ci_segments := x_segments\<rparr>) = slices_sat P c"
  "slices_sat P (c\<lparr>ci_groups := x_groups\<rparr>) = slices_sat P c"
  "slices_sat P (c\<lparr>ci_lanes := x_lanes\<rparr>) = slices_sat P c"
  "slices_sat P (c\<lparr>ci_waiting := x_waiting\<rparr>) = slices_sat P c"
  "slices_sat P (c\<lparr>ci_waiting_by_age := x_waiting_by_age\<rparr>) = slices_sat P c"
  "slices_sat P (c\<lparr>ci_waiting_ids_by_group := x_waiting_ids_by_group\<rparr>) = slices_sat P c"
  "slices_sat P (c\<lparr>ci_available_bytes_by_group := x_available_bytes_by_group\<rparr>) = slices_sat P c"
  "slices_sat P (c\<lparr>ci_available_counted := x_available_counted\<rparr>) = slices_sat P c"
  "slices_sat P (c\<lparr>ci_force_only_ready := x_force_only_ready\<rparr>) = slices_sat P c"
  "slices_sat P (c\<lparr>ci_ready_count := x_ready_count\<rparr>) = slices_sat P c"
  "slices_sat P (c\<lparr>ci_ready_group_count := x_ready_group_count\<rparr>) = slices_sat P c"
  "slices_sat P (c\<lparr>ci_byte_threshold := x_byte_threshold\<rparr>) = slices_sat P c"
  "slices_sat P (c\<lparr>ci_time_threshold_secs := x_time_threshold_secs\<rparr>) = slices_sat P c"
  "slices_sat P (c\<lparr>ci_service_ticket := x_service_ticket\<rparr>) = slices_sat P c"
  "slices_sat P (c\<lparr>ci_manifests := x_manifests\<rparr>) = slices_sat P c"
  "slices_sat P (c\<lparr>ci_manifests_loaded := x_manifests_loaded\<rparr>) = slices_sat P c"
  by (simp_all add: slices_sat_def)

lemma slices_sat_fold: "(\<And>x c. slices_sat P c \<Longrightarrow> slices_sat P (f x c)) \<Longrightarrow> slices_sat P c \<Longrightarrow> slices_sat P (fold f xs c)"
  by (induction xs arbitrary: c) auto

lemma slices_satD: "slices_sat P c \<Longrightarrow> i \<in> known c \<Longrightarrow> P (slice_of c i)"
  by (auto simp: slices_sat_def known_iff slice_of_def)

section \<open>Moving one slice\<close>

lemma set_state_sat [sat_intros]: "slices_sat P c \<Longrightarrow> slices_sat P (set_state st i c)"
  by (auto simp: slices_sat_def set_state_def split: option.split)

lemma same_slices [simp]:
  "ci_slices (set_available_bytes i b c) = ci_slices c" "ci_slices (forget_waiting_id i c) = ci_slices c"
  "ci_slices (enqueue_ready sl c) = ci_slices c" "ci_slices (dequeue_ready sl c) = ci_slices c"
  "ci_slices (remove_from_current_queue i c) = ci_slices c" "ci_slices (withdraw i c) = ci_slices c"
  "ci_slices (update_group_remaining seg rem g c) = ci_slices c" "ci_slices (update_lane_remaining seg rem l c) = ci_slices c"
  by (simp_all add: set_available_bytes_def forget_waiting_id_def enqueue_ready_def dequeue_ready_def remove_from_current_queue_def
      withdraw_def update_group_remaining_def update_lane_remaining_def Let_def split: option.split)

lemma same_slices_sat [simp]:
  "slices_sat P (set_available_bytes i b c) = slices_sat P c" "slices_sat P (forget_waiting_id i c) = slices_sat P c"
  "slices_sat P (enqueue_ready sl c) = slices_sat P c" "slices_sat P (remove_from_current_queue i c) = slices_sat P c"
  "slices_sat P (withdraw i c) = slices_sat P c"
  by (simp_all add: slices_sat_def)

lemma set_waiting_sat [sat_intros]: "slices_sat P c \<Longrightarrow> slices_sat P (set_waiting i c)"
  by (auto simp: slices_sat_def set_waiting_def Let_def split: option.split)

lemma set_ready_sat [sat_intros]: "slices_sat P c \<Longrightarrow> slices_sat P (set_ready i c)"
  by (auto simp: set_ready_def Let_def split: option.split intro!: set_state_sat)

lemma set_fenced_sat [sat_intros]: "slices_sat P c \<Longrightarrow> slices_sat P (set_fenced i c)"
  by (simp add: set_fenced_def set_state_sat)

section \<open>Classification and promotion\<close>

lemma promote_waiting_group_sat [sat_intros]: "slices_sat P c \<Longrightarrow> slices_sat P (promote_waiting_group g c)"
  by (auto simp: promote_waiting_group_def split: option.split intro: slices_sat_fold set_ready_sat)

lemma classify_available_sat [sat_intros]: "slices_sat P c \<Longrightarrow> slices_sat P (classify_available now i c)"
  by (auto simp: classify_available_def Let_def split: option.split intro: sat_intros)

lemma reclassify_sat [sat_intros]: "slices_sat P c \<Longrightarrow> slices_sat P (reclassify now i c)"
  by (simp add: reclassify_def sat_intros)

lemma rebuild_sat [sat_intros]: "slices_sat P c \<Longrightarrow> slices_sat P (rebuild_available_queues ho now c)"
  unfolding rebuild_available_queues_def Let_def by (intro slices_sat_fold reclassify_sat) simp_all

lemma configure_sat [sat_intros]: "slices_sat P c \<Longrightarrow> slices_sat P (configure_thresholds ho b t now c)"
  by (simp add: configure_thresholds_def sat_intros)

lemma promote_due_sat [sat_intros]: "slices_sat P c \<Longrightarrow> slices_sat P (promote_due now c)"
proof (induction "length (ci_waiting_by_age c)" arbitrary: c)
  case 0
  then show ?case by (simp add: promote_due.simps)
next
  case (Suc n)
  then obtain e es where w: "ci_waiting_by_age c = e # es" by (cases "ci_waiting_by_age c") auto
  then have "slices_sat P (promote_due now (set_ready (we_id e) (c\<lparr>ci_waiting_by_age := es\<rparr>)))"
    "slices_sat P (promote_due now (c\<lparr>ci_waiting_by_age := es\<rparr>))"
    using Suc.hyps(2) Suc.prems by (auto intro!: Suc.hyps(1) sat_intros)
  then show ?case using w Suc.prems by (subst promote_due.simps) (simp add: Let_def)
qed

lemma mark_recovered_sat [sat_intros]: "slices_sat P c \<Longrightarrow> slices_sat P (mark_recovered_ready c)"
  unfolding mark_recovered_ready_def by (intro slices_sat_fold set_ready_sat)

section \<open>Removing and registering\<close>

lemma remove_slice_sat [sat_intros]: "slices_sat P c \<Longrightarrow> slices_sat P (fst (remove_slice i c))"
proof -
  assume c: "slices_sat P c"
  have g: "ci_slices (fold (update_group_remaining seg rem) gs d) = ci_slices d" for seg rem gs d by (induction gs arbitrary: d) simp_all
  have l: "ci_slices (fold (update_lane_remaining seg rem) gs d) = ci_slices d" for seg rem gs d by (induction gs arbitrary: d) simp_all
  show ?thesis using c by (auto simp: remove_slice_def Let_def slices_sat_def g l split: option.splits if_splits)
qed

lemma remove_slices_sat [sat_intros]: "slices_sat P c \<Longrightarrow> slices_sat P (fst (remove_slices ids c))"
proof -
  have "slices_sat P c \<Longrightarrow> slices_sat P (fst (fold (\<lambda>i (c, n). let (c', removed) = remove_slice i c in (c', if removed then n + 1 else n)) ids (c, n)))" for n :: nat
    by (induction ids arbitrary: c n) (auto simp: case_prod_beta intro: remove_slice_sat)
  then show "slices_sat P c \<Longrightarrow> slices_sat P (fst (remove_slices ids c))" by (simp add: remove_slices_def)
qed

lemma remove_segment_sat [sat_intros]: "slices_sat P c \<Longrightarrow> slices_sat P (remove_segment sid c)"
  by (simp add: remove_segment_def remove_slices_sat)

lemma drop_segments_sat [sat_intros]: "slices_sat P c \<Longrightarrow> slices_sat P (drop_segments_not_in ho live c)"
  unfolding drop_segments_not_in_def by (intro slices_sat_fold remove_segment_sat)

lemma complete_refs_sat [sat_intros]: "slices_sat P c \<Longrightarrow> slices_sat P (fst (complete_refs refs c))"
  by (simp add: complete_refs_def remove_slices_sat)

lemma complete_ordinals_sat [sat_intros]: "slices_sat P c \<Longrightarrow> slices_sat P (fst (complete_ordinals ho sid ords c))"
  by (simp add: complete_ordinals_def remove_slices_sat)

lemma register_slices_sat:
  "slices_sat P c \<Longrightarrow> \<forall>sl\<in>set slices. P sl \<Longrightarrow> slices_sat P (snd (fold register_slice slices (seg, c)))"
proof (induction slices arbitrary: seg c)
  case (Cons sl slices)
  obtain seg' c' where r: "register_slice sl (seg, c) = (seg', c')" by force
  have "slices_sat P c'" using r Cons.prems by (auto simp: register_slice_def slices_sat_def split: if_splits)
  then show ?case using Cons r by simp
qed simp

lemma register_segment_sat:
  assumes "slices_sat P c" "\<forall>sl\<in>set slices. P sl"
  shows "slices_sat P (fst (register_segment ho sid slices b t now c))"
proof -
  let ?c1 = "remove_segment sid (configure_thresholds ho b t now c)"
  let ?z = "fold register_slice slices (\<lparr>ss_remaining = 0, ss_ids = {}, ss_groups = {}, ss_lanes = {}\<rparr>, ?c1)"
  have c1: "slices_sat P ?c1" using assms(1) by (intro sat_intros)
  have "slices_sat P (snd ?z)" by (rule register_slices_sat[OF c1 assms(2)])
  then have z: "slices_sat P ((snd ?z)\<lparr>ci_segments := x\<rparr>)" for x by simp
  have "slices_sat P (classify_new now i d)" if "slices_sat P d" for i d using that by (simp add: classify_new_def sat_intros)
  then have "slices_sat P (fold (classify_new now) ids ((snd ?z)\<lparr>ci_segments := x\<rparr>))" for ids x
    by (rule slices_sat_fold[OF _ z])
  then show ?thesis using c1 unfolding register_segment_def Let_def case_prod_beta by (cases "slices = []") (simp_all only: if_True if_False fst_conv simp_thms)
qed

section \<open>Manifests and plans\<close>

lemma install_sat [sat_intros]: "slices_sat P c \<Longrightarrow> slices_sat P (install_manifests ho txns c)"
  unfolding install_manifests_def Let_def
  by (intro slices_sat_fold) (simp_all add: fence_installed_def set_fenced_sat)

lemma release_refs_sat [sat_intros]: "slices_sat P c \<Longrightarrow> slices_sat P (release_refs refs now c)"
  unfolding release_refs_def by (intro slices_sat_fold) (auto simp: release_slice_def intro: sat_intros)

lemma upsert_sat [sat_intros]: "slices_sat P c \<Longrightarrow> slices_sat P (upsert_manifest clock txn c)"
  unfolding upsert_manifest_def Let_def
  by (intro slices_sat_fold) (auto simp: settle_upserted_def intro: sat_intros)

lemma remove_manifest_sat [sat_intros]: "slices_sat P c \<Longrightarrow> slices_sat P (remove_manifest tid now c)"
  unfolding remove_manifest_def Let_def case_prod_beta
  by (intro slices_sat_fold) (auto simp: settle_removed_def intro: sat_intros)

lemma release_manifest_sat [sat_intros]: "slices_sat P c \<Longrightarrow> slices_sat P (release_manifest tid c)"
  by (simp add: release_manifest_def)

lemma reserve_manifests_sat [sat_intros]:
  "slices_sat P c \<Longrightarrow> slices_sat P (fst (reserve_ready_manifests limit per_sink now stale active blocked c))"
  by (simp add: reserve_ready_manifests_def case_prod_beta)

lemma reclaimable_sat [sat_intros]: "slices_sat P c \<Longrightarrow> slices_sat P (fst (reclaimable_slice_count force now stale limit c))"
  by (simp add: reclaimable_slice_count_def Let_def sat_intros)

lemma plan_ready_sat:
  assumes "good {} {} c" "slices_sat P c" "hash_order_ok ho" "0 < max_parts"
    "plan_ready ho limit force now bt tt target max_parts per_sink active blocked c = Some (c', p)"
  shows "slices_sat P c'"
proof -
  let ?c0 = "prepare_plan ho force now bt tt c"
  have "keeps ?c0 c'"
    using plan_ready_inv[OF assms(1,3,4), of limit force now bt tt target per_sink active blocked] assms(5) by (auto simp: plan_inv_def)
  then have "known c' = known c" "slice_of c' = slice_of c"
    using prepare_plan_good(2,3)[OF assms(1,3), of force now bt tt] by (simp_all add: keeps_def)
  moreover have "slices_sat P d \<longleftrightarrow> (\<forall>i\<in>known d. P (slice_of d i))" for d
    unfolding slices_sat_def known_iff Ball_def slice_of_def by (metis option.collapse option.distinct(1) option.sel)
  ultimately show ?thesis using assms(2) by simp
qed

end
