(* ===== verification/Compaction_Scheduler.thy ===== *)
theory Compaction_Scheduler
  imports Manifest_Index "HOL-Library.AList" "HOL-Library.Multiset"
begin

text \<open>
  The work-conserving scheduler of a compaction cycle
  (\<^verbatim>\<open>src/src/buffer/compaction_scheduler.rs\<close>): \<open>drive_work_conserving\<close> keeps as many works in flight
  as the concurrency allows, asking a planner for more whenever slots are free, and reacts to
  completions and to commands. The planner closure is an argument with a state of its own; what
  the scheduler relies on is the locale \<open>compaction_planner\<close>. A reply channel is named by a
  number; the metrics are left out.
\<close>

section \<open>Commands and control\<close>

datatype CompactorCommand = Wake | DrainAndStop nat

record CompactionCycleControl =
  cc_rx :: "CompactorCommand list"
  cc_closed :: bool
  cc_drain_reply :: "nat option"
  cc_stop_requested :: bool
  cc_refused :: "nat list"

text \<open>\<open>cc_rx\<close> are the commands queued in the channel, \<open>cc_closed\<close> says that all senders are gone, and
  \<open>cc_refused\<close> are the channels that were answered \<open>false\<close>.\<close>

definition handle_command :: "CompactorCommand option \<Rightarrow> CompactionCycleControl \<Rightarrow> CompactionCycleControl" where
  "handle_command command c = (case command of
      Some Wake \<Rightarrow> c
    | Some (DrainAndStop reply) \<Rightarrow>
        if cc_drain_reply c = None then c\<lparr>cc_drain_reply := Some reply\<rparr> else c\<lparr>cc_refused := cc_refused c @ [reply]\<rparr>
    | None \<Rightarrow> c\<lparr>cc_stop_requested := True\<rparr>)"

lemma handle_command_rx [simp]: "cc_rx (handle_command cmd c) = cc_rx c" "cc_closed (handle_command cmd c) = cc_closed c"
  by (auto simp: handle_command_def split: option.split CompactorCommand.split)

function drain_pending_commands :: "CompactionCycleControl \<Rightarrow> CompactionCycleControl" where
  "drain_pending_commands c = (case cc_rx c of
      command # rest \<Rightarrow> drain_pending_commands (handle_command (Some command) (c\<lparr>cc_rx := rest\<rparr>))
    | [] \<Rightarrow> if cc_closed c then handle_command None c else c)"
  by pat_completeness auto
termination by (relation "measure (\<lambda>c. length (cc_rx c))") auto

declare drain_pending_commands.simps [simp del]

definition control_force :: "bool \<Rightarrow> CompactionCycleControl \<Rightarrow> bool" where
  "control_force initial_force c \<longleftrightarrow> initial_force \<or> cc_drain_reply c \<noteq> None"

definition stopping :: "CompactionCycleControl \<Rightarrow> bool" where
  "stopping c = cc_stop_requested c"

section \<open>The drive loop\<close>

definition BUDGET_RETUNE_WAVES :: nat where "BUDGET_RETUNE_WAVES = 4"

record 'w CompactionPlanBatch =
  pb_works :: "'w list"
  pb_ready_work_remaining :: bool

type_synonym ('p, 'w) planner =
  "nat \<Rightarrow> bool \<Rightarrow> active_counts \<Rightarrow> CompactionLaneKey set \<Rightarrow> 'p \<Rightarrow> 'p \<times> 'w CompactionPlanBatch"

text \<open>The local variables of the loop.\<close>

record ('p, 'w) drive =
  dr_planner :: 'p
  dr_control :: "CompactionCycleControl option"
  dr_active :: active_counts
  dr_blocked :: "CompactionLaneKey set"
  dr_in_flight :: "'w list"
  dr_completions :: nat
  dr_retune :: bool
  dr_made_progress :: bool

definition drive_start :: "'p \<Rightarrow> CompactionCycleControl option \<Rightarrow> ('p, 'w) drive" where
  "drive_start p control = \<lparr>dr_planner = p, dr_control = map_option drain_pending_commands control, dr_active = [],
     dr_blocked = {}, dr_in_flight = [], dr_completions = 0, dr_retune = False, dr_made_progress = False\<rparr>"

definition drive_stopping :: "('p, 'w) drive \<Rightarrow> bool" where
  "drive_stopping d = (case dr_control d of Some c \<Rightarrow> stopping c | None \<Rightarrow> False)"

definition drive_force :: "bool \<Rightarrow> ('p, 'w) drive \<Rightarrow> bool" where
  "drive_force initial_force d = (case dr_control d of Some c \<Rightarrow> control_force initial_force c | None \<Rightarrow> initial_force)"

definition max_completions_before_retune :: "nat \<Rightarrow> nat" where
  "max_completions_before_retune concurrency = max (concurrency * BUDGET_RETUNE_WAVES) 1"

definition add_active :: "CompactionLaneKey \<Rightarrow> active_counts \<Rightarrow> active_counts" where
  "add_active lane active = AList.update lane ((case map_of active lane of Some n \<Rightarrow> n | None \<Rightarrow> 0) + 1) active"

definition release_active :: "CompactionLaneKey \<Rightarrow> active_counts \<Rightarrow> active_counts" where
  "release_active lane active = (case map_of active lane of
      None \<Rightarrow> active
    | Some n \<Rightarrow> if n - 1 = 0 then AList.delete lane active else AList.update lane (n - 1) active)"

definition start_work :: "('w \<Rightarrow> CompactionLaneKey) \<Rightarrow> 'w \<Rightarrow> ('p, 'w) drive \<Rightarrow> ('p, 'w) drive" where
  "start_work lane w d = d\<lparr>dr_active := add_active (lane w) (dr_active d), dr_in_flight := dr_in_flight d @ [w]\<rparr>"

lemma fold_start_work [simp]:
  "dr_in_flight (fold (start_work lane) ws d) = dr_in_flight d @ ws" "dr_planner (fold (start_work lane) ws d) = dr_planner d"
  "dr_control (fold (start_work lane) ws d) = dr_control d" "dr_blocked (fold (start_work lane) ws d) = dr_blocked d"
  "dr_completions (fold (start_work lane) ws d) = dr_completions d" "dr_retune (fold (start_work lane) ws d) = dr_retune d"
  "dr_made_progress (fold (start_work lane) ws d) = dr_made_progress d"
  by (induction ws arbitrary: d) (simp_all add: start_work_def)

function top_up ::
  "('w \<Rightarrow> CompactionLaneKey) \<Rightarrow> nat \<Rightarrow> bool \<Rightarrow> ('p, 'w) planner \<Rightarrow> ('p, 'w) drive \<Rightarrow> ('p, 'w) drive"
where
  "top_up lane concurrency initial_force plan d = (let slots = concurrency - length (dr_in_flight d) in
     if slots = 0 then d
     else case plan slots (drive_force initial_force d) (dr_active d) (dr_blocked d) (dr_planner d) of (p, batch) \<Rightarrow>
       if pb_works batch = [] then d\<lparr>dr_planner := p\<rparr>
       else top_up lane concurrency initial_force plan (fold (start_work lane) (pb_works batch) (d\<lparr>dr_planner := p\<rparr>)))"
  by pat_completeness auto
termination
  by (relation "measure (\<lambda>(lane, concurrency, f, plan, d). concurrency - length (dr_in_flight d))")
    (auto simp: neq_Nil_conv)

declare top_up.simps [simp del]

definition loop_head ::
  "('w \<Rightarrow> CompactionLaneKey) \<Rightarrow> nat \<Rightarrow> bool \<Rightarrow> ('p, 'w) planner \<Rightarrow> ('p, 'w) drive \<Rightarrow> ('p, 'w) drive"
where
  "loop_head lane concurrency initial_force plan d =
     (if \<not> drive_stopping d \<and> \<not> dr_retune d then top_up lane (max concurrency 1) initial_force plan d else d)"

text \<open>What follows the completion of the work at position \<open>i\<close>; \<open>late\<close> says that the cycle has been
  running for at least the retune interval.\<close>

definition drive_complete ::
  "('w \<Rightarrow> CompactionLaneKey) \<Rightarrow> nat \<Rightarrow> nat \<Rightarrow> bool \<Rightarrow> bool \<Rightarrow> ('p, 'w) drive \<Rightarrow> ('p, 'w) drive"
where
  "drive_complete lane concurrency i compacted late d = (let l = lane (dr_in_flight d ! i) in
     d\<lparr>dr_in_flight := take i (dr_in_flight d) @ drop (Suc i) (dr_in_flight d),
       dr_active := release_active l (dr_active d),
       dr_made_progress := dr_made_progress d \<or> compacted,
       dr_blocked := (if compacted then dr_blocked d else insert l (dr_blocked d)),
       dr_completions := dr_completions d + 1,
       dr_retune := dr_retune d \<or> max_completions_before_retune (max concurrency 1) \<le> dr_completions d + 1 \<or> late\<rparr>)"

text \<open>\<open>recv\<close> on the command channel: a queued command, or \<open>None\<close> once all senders are gone.\<close>

definition recv_command :: "CompactionCycleControl \<Rightarrow> (CompactorCommand option \<times> CompactionCycleControl) option" where
  "recv_command c = (case cc_rx c of
      command # rest \<Rightarrow> Some (Some command, c\<lparr>cc_rx := rest\<rparr>)
    | [] \<Rightarrow> if cc_closed c then Some (None, c) else None)"

text \<open>A run of the loop. \<open>started\<close> lists the works handed to the executor and \<open>log\<close> the completions with
  their outcome, both in order. Each rule but the last is one iteration: the top-up at its head and
  then the completion of any work in flight, or a command. Between iterations the planner's state
  may change within its invariant, and commands may arrive.\<close>

inductive drive_run ::
  "('w \<Rightarrow> CompactionLaneKey) \<Rightarrow> nat \<Rightarrow> bool \<Rightarrow> ('p, 'w) planner \<Rightarrow> ('p \<Rightarrow> bool) \<Rightarrow> ('p, 'w) drive
    \<Rightarrow> 'w list \<Rightarrow> ('w \<times> bool) list \<Rightarrow> ('p, 'w) drive \<Rightarrow> bool"
  for lane concurrency initial_force plan pinv d0
where
  run_start: "drive_run lane concurrency initial_force plan pinv d0 [] [] d0"
| run_completion: "drive_run lane concurrency initial_force plan pinv d0 started log d \<Longrightarrow>
    d1 = loop_head lane concurrency initial_force plan d \<Longrightarrow> i < length (dr_in_flight d1) \<Longrightarrow>
    drive_run lane concurrency initial_force plan pinv d0
      (started @ drop (length (dr_in_flight d)) (dr_in_flight d1)) (log @ [(dr_in_flight d1 ! i, compacted)])
      (drive_complete lane concurrency i compacted late d1)"
| run_command: "drive_run lane concurrency initial_force plan pinv d0 started log d \<Longrightarrow>
    d1 = loop_head lane concurrency initial_force plan d \<Longrightarrow> dr_in_flight d1 \<noteq> [] \<Longrightarrow>
    dr_control d1 = Some c \<Longrightarrow> \<not> stopping c \<Longrightarrow> recv_command c = Some (command, c') \<Longrightarrow>
    drive_run lane concurrency initial_force plan pinv d0
      (started @ drop (length (dr_in_flight d)) (dr_in_flight d1)) log (d1\<lparr>dr_control := Some (handle_command command c')\<rparr>)"
| run_outside: "drive_run lane concurrency initial_force plan pinv d0 started log d \<Longrightarrow> pinv p \<Longrightarrow>
    drive_run lane concurrency initial_force plan pinv d0 started log
      (d\<lparr>dr_planner := p, dr_control := map_option (\<lambda>c. c\<lparr>cc_rx := cc_rx c @ cmds, cc_closed := cc_closed c \<or> closed\<rparr>) (dr_control d)\<rparr>)"

definition drive_returns ::
  "('w \<Rightarrow> CompactionLaneKey) \<Rightarrow> nat \<Rightarrow> bool \<Rightarrow> ('p, 'w) planner \<Rightarrow> ('p, 'w) drive \<Rightarrow> bool \<Rightarrow> bool"
where
  "drive_returns lane concurrency initial_force plan d made_progress \<longleftrightarrow>
     (let d1 = loop_head lane concurrency initial_force plan d in dr_in_flight d1 = [] \<and> made_progress = dr_made_progress d1)"

section \<open>The counts of active works\<close>

definition active_exact :: "('w \<Rightarrow> CompactionLaneKey) \<Rightarrow> 'w list \<Rightarrow> active_counts \<Rightarrow> bool" where
  "active_exact lane ws a \<longleftrightarrow> distinct (map fst a)
     \<and> (\<forall>l. map_of a l = (let n = length (filter (\<lambda>w. lane w = l) ws) in if n = 0 then None else Some n))"

lemma active_exact_nil [simp]: "active_exact lane [] []"
  by (simp add: active_exact_def)

lemma active_exact_start: "active_exact lane ws a \<Longrightarrow> active_exact lane (ws @ [w]) (add_active (lane w) a)"
  by (auto simp: active_exact_def add_active_def distinct_update update_conv' Let_def)

lemma active_exact_fold:
  "active_exact lane (dr_in_flight d) (dr_active d) \<Longrightarrow>
     active_exact lane (dr_in_flight d @ ws) (dr_active (fold (start_work lane) ws d))"
proof (induction ws arbitrary: d)
  case (Cons w ws)
  from Cons.IH[of "start_work lane w d"] Cons.prems show ?case by (simp add: start_work_def active_exact_start)
qed simp

lemma active_exact_release:
  assumes "active_exact lane ws a" "i < length ws"
  shows "active_exact lane (take i ws @ drop (Suc i) ws) (release_active (lane (ws ! i)) a)"
proof -
  have ws: "ws = take i ws @ ws ! i # drop (Suc i) ws" using assms(2) by (simp add: id_take_nth_drop)
  have f: "filter (\<lambda>w. lane w = l) ws = filter (\<lambda>w. lane w = l) (take i ws)
      @ (if lane (ws ! i) = l then [ws ! i] else []) @ filter (\<lambda>w. lane w = l) (drop (Suc i) ws)" for l
    by (subst ws) simp
  show ?thesis using assms(1)
    by (auto simp: active_exact_def release_active_def f Let_def distinct_update distinct_delete update_conv' delete_conv'
        split: option.split)
qed

section \<open>What the scheduler relies on and what it guarantees\<close>

text \<open>The contract of a planner: it keeps its own invariant, offers at most as many works as there are
  free slots, and none in a blocked lane.\<close>

locale compaction_planner =
  fixes lane :: "'w \<Rightarrow> CompactionLaneKey" and plan :: "('p, 'w) planner" and pinv :: "'p \<Rightarrow> bool"
  assumes plan_keeps: "pinv p \<Longrightarrow> plan slots force active blocked p = (p', batch) \<Longrightarrow> pinv p'"
    and plan_slots: "pinv p \<Longrightarrow> plan slots force active blocked p = (p', batch) \<Longrightarrow> length (pb_works batch) \<le> slots"
    and plan_blocked: "pinv p \<Longrightarrow> plan slots force active blocked p = (p', batch) \<Longrightarrow> w \<in> set (pb_works batch) \<Longrightarrow> lane w \<notin> blocked"
begin

text \<open>What a top-up does to the loop's variables: it appends works within the concurrency, none of them
  in a blocked lane, keeps the counts exact, and stops short only when the planner has nothing
  to offer for the free slots.\<close>

definition topped :: "nat \<Rightarrow> bool \<Rightarrow> ('p, 'w) drive \<Rightarrow> ('p, 'w) drive \<Rightarrow> bool" where
  "topped c f d d' \<longleftrightarrow> (\<exists>ws. dr_in_flight d' = dr_in_flight d @ ws \<and> (\<forall>w\<in>set ws. lane w \<notin> dr_blocked d))
     \<and> pinv (dr_planner d') \<and> active_exact lane (dr_in_flight d') (dr_active d') \<and> length (dr_in_flight d') \<le> c
     \<and> dr_control d' = dr_control d \<and> dr_blocked d' = dr_blocked d \<and> dr_completions d' = dr_completions d
     \<and> dr_retune d' = dr_retune d \<and> dr_made_progress d' = dr_made_progress d"

definition exhausted :: "nat \<Rightarrow> bool \<Rightarrow> ('p, 'w) drive \<Rightarrow> ('p, 'w) drive \<Rightarrow> bool" where
  "exhausted c f d d' \<longleftrightarrow> length (dr_in_flight d') = c
     \<or> (\<exists>q batch. pinv q \<and> pb_works batch = []
          \<and> plan (c - length (dr_in_flight d')) (drive_force f d) (dr_active d') (dr_blocked d) q = (dr_planner d', batch))"

lemma top_up_topped:
  assumes "pinv (dr_planner d)" "active_exact lane (dr_in_flight d) (dr_active d)" "length (dr_in_flight d) \<le> c"
  shows "topped c f d (top_up lane c f plan d) \<and> exhausted c f d (top_up lane c f plan d)"
  using assms
proof (induction "c - length (dr_in_flight d)" arbitrary: d rule: less_induct)
  case less
  note u = top_up.simps[of lane c f plan d]
  show ?case
  proof (cases "c - length (dr_in_flight d) = 0")
    case True
    then show ?thesis using u less.prems by (simp add: topped_def exhausted_def)
  next
    case False
    obtain p batch where pl: "plan (c - length (dr_in_flight d)) (drive_force f d) (dr_active d) (dr_blocked d) (dr_planner d) = (p, batch)"
      by force
    have p: "pinv p" "length (pb_works batch) \<le> c - length (dr_in_flight d)" "\<And>w. w \<in> set (pb_works batch) \<Longrightarrow> lane w \<notin> dr_blocked d"
      using plan_keeps[OF less.prems(1) pl] plan_slots[OF less.prems(1) pl] plan_blocked[OF less.prems(1) pl] by auto
    show ?thesis
    proof (cases "pb_works batch = []")
      case True
      then have "top_up lane c f plan d = d\<lparr>dr_planner := p\<rparr>" using u False pl by simp
      then show ?thesis using less.prems p(1) pl True by (auto simp: topped_def exhausted_def)
    next
      case nonempty: False
      let ?d = "fold (start_work lane) (pb_works batch) (d\<lparr>dr_planner := p\<rparr>)"
      have eq: "top_up lane c f plan d = top_up lane c f plan ?d" using u False pl nonempty by simp
      have "length (pb_works batch) \<noteq> 0" using nonempty by simp
      then have "c - length (dr_in_flight ?d) < c - length (dr_in_flight d)"
        using False by (cases "length (pb_works batch)") simp_all
      moreover have "active_exact lane (dr_in_flight ?d) (dr_active ?d)"
        using active_exact_fold[of lane "d\<lparr>dr_planner := p\<rparr>"] less.prems(2) by simp
      moreover have "length (dr_in_flight ?d) \<le> c" using p(2) False by simp
      moreover have "pinv (dr_planner ?d)" using p(1) by simp
      ultimately have ih: "topped c f ?d (top_up lane c f plan ?d)" "exhausted c f ?d (top_up lane c f plan ?d)"
        using less.hyps[of ?d] by blast+
      have "drive_force f ?d = drive_force f d" by (simp add: drive_force_def)
      then have "exhausted c f d (top_up lane c f plan ?d)" using ih(2) by (simp add: exhausted_def)
      moreover have "topped c f d (top_up lane c f plan ?d)" using ih(1) p(3) unfolding topped_def by fastforce
      ultimately show ?thesis unfolding eq by simp
    qed
  qed
qed

text \<open>The invariant of a run.\<close>

definition run_inv :: "nat \<Rightarrow> 'w list \<Rightarrow> ('w \<times> bool) list \<Rightarrow> ('p, 'w) drive \<Rightarrow> bool" where
  "run_inv c started log d \<longleftrightarrow> pinv (dr_planner d) \<and> active_exact lane (dr_in_flight d) (dr_active d)
     \<and> length (dr_in_flight d) \<le> c \<and> mset started = mset (dr_in_flight d) + mset (map fst log)
     \<and> dr_completions d = length log \<and> dr_made_progress d = (True \<in> snd ` set log)
     \<and> dr_blocked d = {lane w | w. (w, False) \<in> set log}
     \<and> (if dr_retune d then length log + length (dr_in_flight d) \<le> 5 * c - 1 else length log < 4 * c)"

lemma run_inv_start: "pinv p \<Longrightarrow> 0 < c \<Longrightarrow> run_inv c [] [] (drive_start p control)"
  by (simp add: run_inv_def drive_start_def)

lemma loop_head_topped:
  assumes "run_inv (max c 1) started log d"
  shows "topped (max c 1) f d (loop_head lane c f plan d)"
proof (cases "\<not> drive_stopping d \<and> \<not> dr_retune d")
  case True
  then have "loop_head lane c f plan d = top_up lane (max c 1) f plan d" by (simp add: loop_head_def)
  then show ?thesis using top_up_topped[of d "max c 1" f] assms by (simp add: run_inv_def)
next
  case False
  then have "loop_head lane c f plan d = d" by (auto simp: loop_head_def)
  then show ?thesis using assms by (simp add: topped_def run_inv_def)
qed

lemma loop_head_inv:
  assumes "run_inv (max c 1) started log d"
  shows "run_inv (max c 1) (started @ drop (length (dr_in_flight d)) (dr_in_flight (loop_head lane c f plan d))) log (loop_head lane c f plan d)"
proof -
  let ?d = "loop_head lane c f plan d"
  note t = loop_head_topped[OF assms, of f, unfolded topped_def]
  obtain ws where ws: "dr_in_flight ?d = dr_in_flight d @ ws" using t by blast
  have keep: "dr_completions ?d = dr_completions d" "dr_made_progress ?d = dr_made_progress d" "dr_blocked ?d = dr_blocked d"
    "dr_retune ?d = dr_retune d" "pinv (dr_planner ?d)" "active_exact lane (dr_in_flight ?d) (dr_active ?d)"
    "length (dr_in_flight ?d) \<le> max c 1" using t by auto
  have "ws = []" if "dr_retune d" using ws that by (simp add: loop_head_def)
  moreover have "mset (started @ drop (length (dr_in_flight d)) (dr_in_flight ?d)) = mset (dr_in_flight ?d) + mset (map fst log)"
    using assms ws by (simp add: run_inv_def)
  ultimately show ?thesis using assms keep(5-7) ws unfolding run_inv_def keep(1-4) by (simp split: if_splits)
qed

lemma drive_complete_inv:
  assumes "run_inv (max c 1) started log d" "i < length (dr_in_flight d)"
  shows "run_inv (max c 1) started (log @ [(dr_in_flight d ! i, ok)]) (drive_complete lane c i ok late d)"
proof -
  let ?ws = "dr_in_flight d"
  have ws: "?ws = take i ?ws @ ?ws ! i # drop (Suc i) ?ws" using assms(2) by (simp add: id_take_nth_drop)
  have "mset ?ws = mset (take i ?ws @ drop (Suc i) ?ws) + {#?ws ! i#}" by (subst ws) simp
  moreover have "active_exact lane (take i ?ws @ drop (Suc i) ?ws) (release_active (lane (?ws ! i)) (dr_active d))"
    using assms active_exact_release unfolding run_inv_def by blast
  moreover have "length (take i ?ws @ drop (Suc i) ?ws) = length ?ws - 1" using assms(2) by simp
  moreover have "length log + length ?ws \<le> 5 * max c 1 - 1" "\<not> dr_retune d \<Longrightarrow> length log < 4 * max c 1"
    using assms unfolding run_inv_def by (auto split: if_splits)
  ultimately show ?thesis using assms unfolding run_inv_def drive_complete_def Let_def
    by (auto simp: max_completions_before_retune_def BUDGET_RETUNE_WAVES_def)
qed

lemma run_inv_control [simp]: "run_inv c started log (d\<lparr>dr_control := x\<rparr>) = run_inv c started log d"
  by (simp add: run_inv_def)

lemma drive_run_inv:
  assumes "drive_run lane c f plan pinv d0 started log d" "run_inv (max c 1) [] [] d0"
  shows "run_inv (max c 1) started log d"
  using assms(1)
proof (induction rule: drive_run.induct)
  case run_start
  show ?case by (rule assms(2))
next
  case (run_completion started log d d1 i ok late)
  then show ?case using drive_complete_inv loop_head_inv by blast
next
  case (run_command started log d d1 ctl command ctl')
  then show ?case using loop_head_inv[of c started log d f] unfolding run_inv_control by blast
next
  case (run_outside started log d p cmds closed)
  then show ?case by (cases "dr_retune d") (simp_all add: run_inv_def)
qed

text \<open>From every state of a run the loop returns after finitely many completions.\<close>

lemma drive_run_returns:
  assumes "drive_run lane c f plan pinv d0 started log d" "run_inv (max c 1) [] [] d0"
  shows "\<exists>started' log' d'. drive_run lane c f plan pinv d0 (started @ started') (log @ log') d'
    \<and> (\<exists>r. drive_returns lane c f plan d' r)"
  using assms(1)
proof (induction "5 * max c 1 - length log" arbitrary: started log d rule: less_induct)
  case less
  let ?d = "loop_head lane c f plan d"
  note inv = loop_head_inv[OF drive_run_inv[OF less.prems assms(2)], of f]
  show ?case
  proof (cases "dr_in_flight ?d = []")
    case True
    then have "drive_returns lane c f plan d (dr_made_progress ?d)" by (simp add: drive_returns_def)
    then show ?thesis using less.prems by (metis append_Nil2)
  next
    case False
    let ?s = "drop (length (dr_in_flight d)) (dr_in_flight ?d)" and ?l = "[(dr_in_flight ?d ! 0, True)]"
    have r: "drive_run lane c f plan pinv d0 (started @ ?s) (log @ ?l) (drive_complete lane c 0 True False ?d)"
      using drive_run.run_completion[OF less.prems refl] False by blast
    have "length log < 5 * max c 1" using inv False unfolding run_inv_def by (auto split: if_splits)
    then have "5 * max c 1 - length (log @ ?l) < 5 * max c 1 - length log" by simp
    from less.hyps[OF this r] show ?thesis by (metis append_assoc)
  qed
qed

end

end
