(* ===== verification/Body_Cache.thy ===== *)
theory Body_Cache
  imports Segment_File "HOL-Library.Finite_Map"
begin

text \<open>
  The bounded cache of S3 segment bodies and the memory budget it takes its limits from
  (\<^verbatim>\<open>src/src/buffer/s3_wal_body_cache.rs\<close>, \<^verbatim>\<open>src/src/buffer/s3_wal_memory_budget.rs\<close>). The process-wide
  cache and pin table are passed as state; the memory hint of the operating system and the bytes
  an object store returns are arguments. \<open>usize\<close> is \<open>nat\<close>, with saturation written out where the
  code multiplies.
\<close>

section \<open>Memory budget\<close>

definition usize_max :: nat where "usize_max = 2 ^ 64 - 1"
definition FALLBACK_MEMORY_HINT_BYTES :: nat where "FALLBACK_MEMORY_HINT_BYTES = 2 * 1024 * 1024 * 1024"
definition COMBINED_PCT :: nat where "COMBINED_PCT = 70"
definition MIN_ADMISSION :: nat where "MIN_ADMISSION = 256 * 1024 * 1024"
definition MIN_LRU :: nat where "MIN_LRU = 32 * 1024 * 1024"
definition MAX_ADMISSION :: nat where "MAX_ADMISSION = 64 * 1024 * 1024 * 1024"
definition MAX_LRU :: nat where "MAX_LRU = 16 * 1024 * 1024 * 1024"

definition usize_mul :: "nat \<Rightarrow> nat \<Rightarrow> nat" where
  "usize_mul a b = min (a * b) usize_max"

definition combined_pool_bytes :: "nat \<Rightarrow> nat" where
  "combined_pool_bytes hint = usize_mul hint COMBINED_PCT div 100"

text \<open>The two corrections towards the minimum of one side, at the cost of the other.\<close>

definition shift_to_lru :: "nat \<times> nat \<Rightarrow> nat \<times> nat" where
  "shift_to_lru = (\<lambda>(admission, lru). if lru < MIN_LRU then
     (let shift = min (MIN_LRU - lru) admission in (admission - shift, lru + shift)) else (admission, lru))"

definition shift_to_admission :: "nat \<times> nat \<Rightarrow> nat \<times> nat" where
  "shift_to_admission = (\<lambda>(admission, lru). if admission < MIN_ADMISSION then
     (let shift = min (MIN_ADMISSION - admission) lru in (admission + shift, lru - shift)) else (admission, lru))"

definition split_s3_wal_memory_budget :: "nat \<Rightarrow> nat \<times> nat" where
  "split_s3_wal_memory_budget hint = (let pool = combined_pool_bytes hint in
     if pool = 0 then (0, 0)
     else if pool < MIN_ADMISSION + MIN_LRU then (let lru = min MIN_LRU pool in (pool - lru, lru))
     else let
       admission = min (usize_mul pool 5 div 7) MAX_ADMISSION;
       lru = min (pool - admission) MAX_LRU;
       lru = (if pool < admission + lru then pool - admission else lru);
       (admission, lru) = shift_to_admission (shift_to_lru (admission, lru));
       admission = min (min admission MAX_ADMISSION) pool;
       lru = min (min lru MAX_LRU) (pool - admission);
       (admission, lru) = (if admission < MIN_ADMISSION \<and> MIN_ADMISSION \<le> pool
          then (let admission = min (min MIN_ADMISSION pool) MAX_ADMISSION in (admission, min (pool - admission) MAX_LRU))
          else (admission, lru));
       (admission, lru) = (if lru < MIN_LRU \<and> MIN_LRU \<le> pool - admission
          then (let lru = min (min MIN_LRU MAX_LRU) (pool - admission) in (min (pool - lru) MAX_ADMISSION, lru))
          else (admission, lru))
     in (admission, lru))"

definition MIN_CACHE_ENTRIES :: nat where "MIN_CACHE_ENTRIES = 8"
definition MAX_CACHE_ENTRIES :: nat where "MAX_CACHE_ENTRIES = 256"

definition autotune_limits :: "nat option \<Rightarrow> nat \<times> nat" where
  "autotune_limits memory_hint = (let
       hint = (case memory_hint of Some h \<Rightarrow> h | None \<Rightarrow> FALLBACK_MEMORY_HINT_BYTES);
       max_bytes = snd (split_s3_wal_memory_budget hint)
     in (max_bytes, min (max (max_bytes div (40 * 1024 * 1024)) MIN_CACHE_ENTRIES) MAX_CACHE_ENTRIES))"

lemmas budget_consts = MIN_ADMISSION_def MIN_LRU_def MAX_ADMISSION_def MAX_LRU_def

lemma split_budget_bounds:
  assumes "split_s3_wal_memory_budget hint = (a, l)"
  shows "a + l \<le> combined_pool_bytes hint \<and> a \<le> MAX_ADMISSION \<and> l \<le> MAX_LRU
    \<and> (MIN_ADMISSION + MIN_LRU \<le> combined_pool_bytes hint \<longrightarrow> MIN_ADMISSION \<le> a \<and> MIN_LRU \<le> l)"
proof -
  define pool where "pool = combined_pool_bytes hint"
  consider "pool = 0" | "0 < pool" "pool < MIN_ADMISSION + MIN_LRU" | "MIN_ADMISSION + MIN_LRU \<le> pool" by linarith
  then show ?thesis
  proof cases
    case 1
    then show ?thesis using assms by (simp add: split_s3_wal_memory_budget_def pool_def budget_consts)
  next
    case 2
    then show ?thesis using assms by (auto simp: split_s3_wal_memory_budget_def pool_def budget_consts Let_def)
  next
    case 3
    define adm where "adm = min (usize_mul pool 5 div 7) MAX_ADMISSION"
    have ge: "adm = MAX_ADMISSION \<or> adm = 5 * pool div 7" "5 * pool div 7 \<le> pool" "adm \<le> 5 * pool div 7"
      by (auto simp: adm_def usize_mul_def usize_max_def budget_consts min_def mult.commute)
    have adm: "adm \<le> pool" "205 * 1024 * 1024 \<le> adm" "adm \<le> MAX_ADMISSION" using ge 3 by (auto simp: budget_consts adm_def)
    define lru where "lru = min (pool - adm) MAX_LRU"
    have lru: "adm + lru \<le> pool" "lru \<le> MAX_LRU" "MIN_LRU \<le> lru" using adm ge 3 by (auto simp: lru_def budget_consts)
    have fin: "MIN_ADMISSION \<le> adm \<or> lru = pool - adm" using ge 3 adm by (auto simp: lru_def budget_consts min_def)
    show ?thesis
      using assms 3 adm lru fin
      unfolding split_s3_wal_memory_budget_def pool_def[symmetric] Let_def adm_def[symmetric] lru_def[symmetric] shift_to_lru_def shift_to_admission_def
      by (auto simp: budget_consts split: if_splits)
  qed
qed

section \<open>The cache\<close>

record Inner =
  in_order :: "string list"
  in_map :: "(string, bytes) fmap"
  in_bytes :: nat
  in_max_bytes :: nat
  in_max_entries :: nat

type_synonym pins = "(string, nat) fmap"

definition inner_new_autotuned :: "nat option \<Rightarrow> Inner" where
  "inner_new_autotuned hint = (let (max_bytes, max_entries) = autotune_limits hint in
     \<lparr>in_order = [], in_map = fmempty, in_bytes = 0, in_max_bytes = max_bytes, in_max_entries = max_entries\<rparr>)"

definition refresh_caps :: "nat option \<Rightarrow> Inner \<Rightarrow> Inner" where
  "refresh_caps hint c = (let (b, e) = autotune_limits hint in c\<lparr>in_max_bytes := b, in_max_entries := e\<rparr>)"

definition touch :: "string \<Rightarrow> Inner \<Rightarrow> Inner" where
  "touch i c = c\<lparr>in_order := remove1 i (in_order c) @ [i]\<rparr>"

definition drop_body :: "string \<Rightarrow> Inner \<Rightarrow> Inner" where
  "drop_body i c = (case fmlookup (in_map c) i of
      None \<Rightarrow> c
    | Some v \<Rightarrow> c\<lparr>in_map := fmdrop i (in_map c), in_bytes := in_bytes c - length v\<rparr>)"

fun evict_loop :: "nat \<Rightarrow> pins \<Rightarrow> Inner \<Rightarrow> Inner \<times> bool" where
  "evict_loop 0 p c = (c, False)"
| "evict_loop (Suc n) p c = (case in_order c of
      [] \<Rightarrow> (c, False)
    | i # rest \<Rightarrow>
       if fmlookup p i \<noteq> None then evict_loop n p (c\<lparr>in_order := rest @ [i]\<rparr>)
       else (drop_body i (c\<lparr>in_order := rest\<rparr>), True))"

definition evict_one :: "pins \<Rightarrow> Inner \<Rightarrow> Inner \<times> bool" where
  "evict_one p c = (if in_order c = [] then (c, False) else evict_loop (length (in_order c)) p c)"

lemma fmap_ext_iff: "m = m' \<longleftrightarrow> (\<forall>x. fmlookup m x = fmlookup m' x)"
  by (auto intro: fmap_ext)

lemma drop_body_fields [simp]:
  "in_order (drop_body i c) = in_order c" "in_max_bytes (drop_body i c) = in_max_bytes c" "in_max_entries (drop_body i c) = in_max_entries c"
  "in_map (drop_body i c) = fmdrop i (in_map c)"
  by (auto simp: drop_body_def fmap_ext_iff split: option.split)

lemma evict_loop_shorter: "evict_loop n p c = (c', True) \<Longrightarrow> length (in_order c') < length (in_order c)"
proof (induction n p c rule: evict_loop.induct)
  case (2 n p c)
  then show ?case by (auto split: list.splits if_splits)
qed simp

function enforce_limits :: "pins \<Rightarrow> Inner \<Rightarrow> Inner" where
  "enforce_limits p c = (if \<not> in_max_bytes c < in_bytes c \<and> \<not> in_max_entries c < fcard (fmdom (in_map c)) then c
     else case evict_one p c of
       (c', True) \<Rightarrow> enforce_limits p c'
     | (c', False) \<Rightarrow> c')"
  by pat_completeness auto
termination
  by (relation "measure (\<lambda>(p, c). length (in_order c))") (auto simp: evict_one_def dest: evict_loop_shorter[OF sym] split: if_splits)

declare enforce_limits.simps [simp del]

definition put_body :: "pins \<Rightarrow> string \<Rightarrow> bytes \<Rightarrow> Inner \<Rightarrow> Inner" where
  "put_body p i data c = (let
       c1 = c\<lparr>in_map := fmupd i data (in_map c),
              in_bytes := (case fmlookup (in_map c) i of Some old \<Rightarrow> in_bytes c - length old | None \<Rightarrow> in_bytes c)\<rparr>;
       c2 = c1\<lparr>in_bytes := in_bytes c1 + length data\<rparr>
     in enforce_limits p (touch i c2))"

definition remove_body :: "string \<Rightarrow> Inner \<Rightarrow> Inner" where
  "remove_body i c = drop_body i (c\<lparr>in_order := remove1 i (in_order c)\<rparr>)"

text \<open>The two critical sections of \<open>get_or_fetch\<close>: a lookup, and the insertion after the fetch,
  which looks again because another task may have filled the cache in between.\<close>

definition lookup_body :: "nat option \<Rightarrow> pins \<Rightarrow> string \<Rightarrow> Inner \<Rightarrow> Inner \<times> bytes option" where
  "lookup_body hint p i c = (let c1 = refresh_caps hint c in
     case fmlookup (in_map c1) i of
       Some v \<Rightarrow> (enforce_limits p (touch i c1), Some v)
     | None \<Rightarrow> (c1, None))"

definition admit_fetched :: "'b seg_env \<Rightarrow> nat option \<Rightarrow> pins \<Rightarrow> string \<Rightarrow> bytes \<Rightarrow> Inner \<Rightarrow> Inner \<times> (io_error + bytes)" where
  "admit_fetched env hint p i fetched c = (case verify_body_checksum env fetched of
      Inl e \<Rightarrow> (c, Inl e)
    | Inr _ \<Rightarrow> (case lookup_body hint p i c of
        (c1, Some v) \<Rightarrow> (c1, Inr v)
      | (c1, None) \<Rightarrow> (put_body p i fetched c1, Inr fetched)))"

section \<open>Pins\<close>

definition pin_one :: "string \<Rightarrow> pins \<Rightarrow> pins" where
  "pin_one i p = (case fmlookup p i of Some n \<Rightarrow> fmupd i (n + 1) p | None \<Rightarrow> fmupd i 1 p)"

definition pin_segments :: "string list \<Rightarrow> pins \<Rightarrow> string list \<times> pins" where
  "pin_segments ids p = (let ids' = remdups_adj (sort ids) in (ids', fold pin_one ids' p))"

definition unpin_one :: "string \<Rightarrow> pins \<Rightarrow> pins" where
  "unpin_one i p = (case fmlookup p i of
      None \<Rightarrow> p
    | Some n \<Rightarrow> if 1 < n then fmupd i (n - 1) p else fmdrop i p)"

definition drop_pin :: "string list \<Rightarrow> pins \<Rightarrow> pins" where
  "drop_pin ids p = fold unpin_one ids p"

section \<open>Invariant\<close>

definition body_total :: "(string, bytes) fmap \<Rightarrow> nat" where
  "body_total m = (\<Sum>i\<in>fmdom' m. length (the (fmlookup m i)))"

definition cache_inv :: "'b seg_env \<Rightarrow> Inner \<Rightarrow> bool" where
  "cache_inv env c \<longleftrightarrow> distinct (in_order c) \<and> set (in_order c) = fmdom' (in_map c) \<and> in_bytes c = body_total (in_map c)
     \<and> (\<forall>i v. fmlookup (in_map c) i = Some v \<longrightarrow> \<not> is_err (verify_body_checksum env v))"

text \<open>A step that keeps the pinned bodies and adds none.\<close>

definition shrinks :: "pins \<Rightarrow> Inner \<Rightarrow> Inner \<Rightarrow> bool" where
  "shrinks p c c' \<longleftrightarrow> (\<forall>i. fmlookup (in_map c') i = fmlookup (in_map c) i \<or> fmlookup p i = None \<and> fmlookup (in_map c') i = None)
     \<and> in_max_bytes c' = in_max_bytes c \<and> in_max_entries c' = in_max_entries c"

lemma shrinks_refl [simp]: "shrinks p c c"
  by (simp add: shrinks_def)

lemma shrinks_pinned:
  "shrinks p c c' \<Longrightarrow> fmlookup p j \<noteq> None \<Longrightarrow> fmlookup (in_map c) j = Some w \<Longrightarrow> fmlookup (in_map c') j = Some w"
  unfolding shrinks_def by metis

lemma shrinks_trans: "shrinks p a b \<Longrightarrow> shrinks p b c \<Longrightarrow> shrinks p a c"
  by (auto simp: shrinks_def) metis+

lemma body_total_drop:
  assumes "fmlookup m i = Some v"
  shows "body_total m = body_total (fmdrop i m) + length v"
proof -
  have "i \<in> fmdom' m" using assms by (simp add: fmlookup_dom'_iff)
  then have "body_total m = length (the (fmlookup m i)) + (\<Sum>j\<in>fmdom' m - {i}. length (the (fmlookup m j)))"
    unfolding body_total_def by (simp add: sum.remove)
  moreover have "(\<Sum>j\<in>fmdom' m - {i}. length (the (fmlookup m j))) = body_total (fmdrop i m)"
    unfolding body_total_def by (rule sum.cong) auto
  ultimately show ?thesis using assms by simp
qed

lemma drop_body_inv:
  assumes "cache_inv env c"
  shows "cache_inv env (drop_body i (c\<lparr>in_order := remove1 i (in_order c)\<rparr>))"
proof (cases "fmlookup (in_map c) i")
  case None
  then have "i \<notin> set (in_order c)" using assms by (simp add: cache_inv_def fmlookup_dom'_iff)
  then show ?thesis using None assms by (simp add: drop_body_def remove1_idem)
next
  case (Some v)
  then show ?thesis using assms body_total_drop[OF Some] by (auto simp: cache_inv_def drop_body_def split: if_splits)
qed

lemma evict_loop_spec:
  assumes "evict_loop n p c = (c', b)" "cache_inv env c"
  shows "cache_inv env c' \<and> shrinks p c c' \<and> (\<not> b \<longrightarrow> (\<forall>i\<in>set (take n (in_order c)). fmlookup p i \<noteq> None) \<and> in_map c' = in_map c)"
  using assms
proof (induction n p c rule: evict_loop.induct)
  case (2 n p c)
  show ?case
  proof (cases "in_order c")
    case Nil
    then show ?thesis using 2(2,3) by simp
  next
    case (Cons i rest)
    show ?thesis
    proof (cases "fmlookup p i = None")
      case True
      then have "c' = drop_body i (c\<lparr>in_order := remove1 i (in_order c)\<rparr>)" "b" using 2(2) Cons by auto
      then show ?thesis using drop_body_inv[OF 2(3), of i] True by (auto simp: shrinks_def)
    next
      case False
      let ?c = "c\<lparr>in_order := rest @ [i]\<rparr>"
      have l: "evict_loop n p ?c = (c', b)" using 2(2) Cons False by simp
      have "cache_inv env ?c" using 2(3) Cons by (auto simp: cache_inv_def)
      from "2.IH"[OF Cons False l this] show ?thesis using Cons False by (fastforce simp: shrinks_def)
    qed
  qed
qed simp

lemma enforce_limits_spec:
  assumes "cache_inv env c"
  shows "cache_inv env (enforce_limits p c) \<and> shrinks p c (enforce_limits p c)
    \<and> (in_bytes (enforce_limits p c) \<le> in_max_bytes c \<and> fcard (fmdom (in_map (enforce_limits p c))) \<le> in_max_entries c
       \<or> (\<forall>i\<in>fmdom' (in_map (enforce_limits p c)). fmlookup p i \<noteq> None))"
  using assms
proof (induction p c rule: enforce_limits.induct)
  case (1 p c)
  note u = enforce_limits.simps[of p c]
  show ?case
  proof (cases "\<not> in_max_bytes c < in_bytes c \<and> \<not> in_max_entries c < fcard (fmdom (in_map c))")
    case True
    then show ?thesis using 1(2) u by simp
  next
    case False
    obtain c' b where e: "evict_one p c = (c', b)" by force
    have sp: "cache_inv env c' \<and> shrinks p c c' \<and> (\<not> b \<longrightarrow> (\<forall>i\<in>set (in_order c). fmlookup p i \<noteq> None) \<and> in_map c' = in_map c)"
    proof (cases "in_order c = []")
      case True
      then show ?thesis using e 1(2) by (simp add: evict_one_def)
    next
      case False
      then show ?thesis using e evict_loop_spec[OF _ 1(2), of "length (in_order c)" p c' b] by (simp add: evict_one_def)
    qed
    show ?thesis
    proof (cases b)
      case True
      then have e': "(c', True) = evict_one p c" using e by simp
      have eq: "enforce_limits p c = enforce_limits p c'" using u e True False by simp
      show ?thesis unfolding eq
        using "1.IH"[OF False e' refl] sp shrinks_trans[of p c c'] by (simp add: shrinks_def)
    next
      case nb: False
      then have "enforce_limits p c = c'" using u e False by simp
      then show ?thesis using sp nb 1(2) by (auto simp: cache_inv_def)
    qed
  qed
qed

text \<open>What the single operations keep.\<close>

lemma touch_inv:
  assumes "distinct (in_order c)" "set (in_order c) \<union> {i} = fmdom' (in_map c)" "in_bytes c = body_total (in_map c)"
    "\<forall>j v. fmlookup (in_map c) j = Some v \<longrightarrow> \<not> is_err (verify_body_checksum env v)"
  shows "cache_inv env (touch i c)"
  using assms by (auto simp: cache_inv_def touch_def)

lemma refresh_caps_fields [simp]:
  "in_order (refresh_caps hint c) = in_order c" "in_map (refresh_caps hint c) = in_map c" "in_bytes (refresh_caps hint c) = in_bytes c"
  by (simp_all add: refresh_caps_def split: prod.split)

lemma refresh_caps_limits:
  "(in_max_bytes (refresh_caps hint c), in_max_entries (refresh_caps hint c)) = autotune_limits hint"
  by (simp add: refresh_caps_def split: prod.split)

lemma refresh_caps_inv: "cache_inv env c \<Longrightarrow> cache_inv env (refresh_caps hint c)"
  by (simp add: cache_inv_def)

definition within_limits :: "pins \<Rightarrow> nat \<times> nat \<Rightarrow> Inner \<Rightarrow> bool" where
  "within_limits p lim c \<longleftrightarrow> in_bytes c \<le> fst lim \<and> fcard (fmdom (in_map c)) \<le> snd lim
     \<or> (\<forall>i\<in>fmdom' (in_map c). fmlookup p i \<noteq> None)"

lemma touch_fields [simp]:
  "in_map (touch i c) = in_map c" "in_bytes (touch i c) = in_bytes c"
  "in_max_bytes (touch i c) = in_max_bytes c" "in_max_entries (touch i c) = in_max_entries c"
  by (simp_all add: touch_def)

lemma body_total_upd:
  "body_total (fmupd i v m) + (case fmlookup m i of Some old \<Rightarrow> length old | None \<Rightarrow> 0) = body_total m + length v"
proof -
  have "body_total (fmupd i v m) = body_total (fmdrop i m) + length v"
    using body_total_drop[of "fmupd i v m" i v] by (simp add: fmdrop_fmupd_same)
  moreover have "body_total m = body_total (fmdrop i m) + (case fmlookup m i of Some old \<Rightarrow> length old | None \<Rightarrow> 0)"
  proof (cases "fmlookup m i")
    case None
    then have "fmdrop i m = m" by (auto simp: fmap_ext_iff)
    then show ?thesis using None by simp
  qed (simp add: body_total_drop)
  ultimately show ?thesis by simp
qed

lemma put_body_spec:
  assumes "cache_inv env c" "\<not> is_err (verify_body_checksum env v)"
  shows "cache_inv env (put_body p i v c) \<and> within_limits p (in_max_bytes c, in_max_entries c) (put_body p i v c)
    \<and> (\<forall>j w. j \<noteq> i \<longrightarrow> fmlookup p j \<noteq> None \<longrightarrow> fmlookup (in_map c) j = Some w \<longrightarrow> fmlookup (in_map (put_body p i v c)) j = Some w)"
proof -
  define b where "b = (case fmlookup (in_map c) i of Some old \<Rightarrow> in_bytes c - length old | None \<Rightarrow> in_bytes c) + length v"
  define d where "d = c\<lparr>in_map := fmupd i v (in_map c), in_bytes := b\<rparr>"
  have put: "put_body p i v c = enforce_limits p (touch i d)"
    by (simp add: put_body_def d_def b_def Let_def)
  have bt: "b = body_total (fmupd i v (in_map c))"
    using body_total_upd[of i v "in_map c"] body_total_drop[of "in_map c" i] assms(1)
    by (auto simp: b_def cache_inv_def split: option.splits)
  have "cache_inv env (touch i d)"
    by (rule touch_inv) (use assms bt in \<open>auto simp: d_def cache_inv_def\<close>)
  note sp = enforce_limits_spec[OF this, of p]
  have "fmlookup (in_map (enforce_limits p (touch i d))) j = Some w"
    if "j \<noteq> i" "fmlookup p j \<noteq> None" "fmlookup (in_map c) j = Some w" for j w
    by (rule shrinks_pinned[of p "touch i d"]) (use sp that in \<open>simp_all add: d_def\<close>)
  then show ?thesis using sp unfolding put within_limits_def by (simp add: d_def)
qed

lemma lookup_body_spec:
  assumes "cache_inv env c" "lookup_body hint p i c = (c', r)"
  shows "cache_inv env c' \<and> r = fmlookup (in_map c) i \<and> (r \<noteq> None \<longrightarrow> within_limits p (autotune_limits hint) c')
    \<and> (in_max_bytes c', in_max_entries c') = autotune_limits hint
    \<and> (r = None \<longrightarrow> in_map c' = in_map c)
    \<and> (\<forall>j w. fmlookup p j \<noteq> None \<longrightarrow> fmlookup (in_map c) j = Some w \<longrightarrow> fmlookup (in_map c') j = Some w)"
proof (cases "fmlookup (in_map c) i")
  case None
  then show ?thesis using assms refresh_caps_inv[OF assms(1)] refresh_caps_limits[of hint c]
    by (auto simp: lookup_body_def Let_def)
next
  case (Some v)
  let ?c = "touch i (refresh_caps hint c)"
  have c': "c' = enforce_limits p ?c" "r = Some v" using assms(2) Some by (auto simp: lookup_body_def Let_def)
  have "cache_inv env ?c"
    by (rule touch_inv) (use assms(1) Some in \<open>auto simp: cache_inv_def fmlookup_dom'_iff\<close>)
  note sp = enforce_limits_spec[OF this, of p]
  have "in_max_bytes c' = fst (autotune_limits hint)" "in_max_entries c' = snd (autotune_limits hint)"
    using sp refresh_caps_limits[of hint c] unfolding c' shrinks_def by (metis fst_conv snd_conv touch_fields)+
  moreover have "fmlookup (in_map c') j = Some w" if "fmlookup p j \<noteq> None" "fmlookup (in_map c) j = Some w" for j w
    unfolding c' by (rule shrinks_pinned[of p ?c]) (use sp that in simp_all)
  ultimately show ?thesis using Some c' sp unfolding within_limits_def shrinks_def by simp
qed

lemma admit_fetched_spec:
  assumes "cache_inv env c" "admit_fetched env hint p i v c = (c', r)"
  shows "cache_inv env c' \<and> (\<forall>u. r = Inr u \<longrightarrow> \<not> is_err (verify_body_checksum env u) \<and> within_limits p (autotune_limits hint) c')
    \<and> (\<forall>j w. fmlookup p j \<noteq> None \<longrightarrow> fmlookup (in_map c) j = Some w \<longrightarrow> fmlookup (in_map c') j = Some w)"
proof (cases "verify_body_checksum env v")
  case (Inl e)
  then show ?thesis using assms by (auto simp: admit_fetched_def)
next
  case (Inr x)
  obtain c1 q where l: "lookup_body hint p i c = (c1, q)" by force
  note sp = lookup_body_spec[OF assms(1) l]
  show ?thesis
  proof (cases q)
    case None
    then have c': "c' = put_body p i v c1" "r = Inr v" using assms(2) Inr l by (auto simp: admit_fetched_def)
    have ok: "\<not> is_err (verify_body_checksum env v)" using Inr by simp
    show ?thesis using put_body_spec[OF conjunct1[OF sp] ok, of p i] sp ok None unfolding c'
      by (auto, metis option.distinct(1))
  next
    case (Some w)
    then have "c' = c1" "r = Inr w" using assms(2) Inr l by (auto simp: admit_fetched_def)
    then show ?thesis using sp Some assms(1) by (auto simp: cache_inv_def)
  qed
qed

section \<open>The cache as a state machine\<close>

text \<open>The shared state is the cache behind its lock, the pin table, and the pin guards that are alive.
  A task looks a body up, admits one it fetched (whatever bytes the store gave), or removes one;
  guards come and go in any order between these steps.\<close>

record cache_sys =
  cs_inner :: Inner
  cs_pins :: pins
  cs_guards :: "string list list"

datatype cache_event = LookupEv "nat option" string | AdmitEv "nat option" string bytes
  | RemoveEv string | PinEv "string list" | DropPinEv "string list"

inductive cache_step :: "'b seg_env \<Rightarrow> cache_sys \<Rightarrow> cache_event \<Rightarrow> cache_sys \<Rightarrow> bool" for env where
  lookup: "lookup_body hint (cs_pins s) i (cs_inner s) = (c, r) \<Longrightarrow> cache_step env s (LookupEv hint i) (s\<lparr>cs_inner := c\<rparr>)"
| admit: "admit_fetched env hint (cs_pins s) i v (cs_inner s) = (c, r) \<Longrightarrow> cache_step env s (AdmitEv hint i v) (s\<lparr>cs_inner := c\<rparr>)"
| remove: "cache_step env s (RemoveEv i) (s\<lparr>cs_inner := remove_body i (cs_inner s)\<rparr>)"
| pin: "pin_segments ids (cs_pins s) = (ids', p) \<Longrightarrow> cache_step env s (PinEv ids) (s\<lparr>cs_pins := p, cs_guards := ids' # cs_guards s\<rparr>)"
| unpin: "ids \<in> set (cs_guards s) \<Longrightarrow>
    cache_step env s (DropPinEv ids) (s\<lparr>cs_pins := drop_pin ids (cs_pins s), cs_guards := remove1 ids (cs_guards s)\<rparr>)"

inductive_cases cache_step_cases: "cache_step env s ev s'"

inductive cache_reachable :: "'b seg_env \<Rightarrow> nat option \<Rightarrow> cache_sys \<Rightarrow> bool" for env hint where
  start: "cache_reachable env hint \<lparr>cs_inner = inner_new_autotuned hint, cs_pins = fmempty, cs_guards = []\<rparr>"
| step: "cache_reachable env hint s \<Longrightarrow> cache_step env s ev s' \<Longrightarrow> cache_reachable env hint s'"

definition guard_count :: "string list list \<Rightarrow> string \<Rightarrow> nat" where
  "guard_count gs i = length (filter (\<lambda>g. i \<in> set g) gs)"

definition pins_exact :: "string list list \<Rightarrow> pins \<Rightarrow> bool" where
  "pins_exact gs p \<longleftrightarrow> (\<forall>g\<in>set gs. distinct g)
     \<and> (\<forall>i. fmlookup p i = (if guard_count gs i = 0 then None else Some (guard_count gs i)))"

lemma fold_pin_one:
  "distinct ids \<Longrightarrow> fmlookup (fold pin_one ids p) i =
     (if i \<in> set ids then Some (case fmlookup p i of Some n \<Rightarrow> n + 1 | None \<Rightarrow> 1) else fmlookup p i)"
  by (induction ids arbitrary: p) (auto simp: pin_one_def split: option.splits)

lemma drop_pin_lookup:
  "distinct ids \<Longrightarrow> fmlookup (drop_pin ids p) i =
     (if i \<in> set ids then (case fmlookup p i of Some n \<Rightarrow> if 1 < n then Some (n - 1) else None | None \<Rightarrow> None) else fmlookup p i)"
  by (induction ids arbitrary: p) (auto simp: unpin_one_def drop_pin_def split: option.splits)

lemma guard_count_remove1:
  "g \<in> set gs \<Longrightarrow> guard_count gs i = guard_count (remove1 g gs) i + (if i \<in> set g then 1 else 0)"
  by (induction gs) (auto simp: guard_count_def)

lemma distinct_remdups_adj_sorted: "sorted xs \<Longrightarrow> distinct (remdups_adj xs)"
  by (induction xs rule: remdups_adj.induct) (auto simp: less_le)

lemma pin_segments_exact:
  assumes "pin_segments ids p = (ids', p')" "pins_exact gs p"
  shows "set ids' = set ids \<and> pins_exact (ids' # gs) p'"
proof -
  have i: "ids' = remdups_adj (sort ids)" "p' = fold pin_one ids' p" using assms(1) by (auto simp: pin_segments_def Let_def)
  have d: "distinct ids'" unfolding i by (simp add: distinct_remdups_adj_sorted)
  show ?thesis using assms(2) d fold_pin_one[OF d, of p] i by (auto simp: pins_exact_def guard_count_def)
qed

lemma drop_pin_exact:
  assumes "pins_exact gs p" "g \<in> set gs"
  shows "pins_exact (remove1 g gs) (drop_pin g p)"
proof -
  have "distinct g" using assms by (simp add: pins_exact_def)
  then show ?thesis using assms guard_count_remove1[OF assms(2)] drop_pin_lookup[of g p]
    by (auto simp: pins_exact_def dest: notin_set_remove1)
qed

definition cache_sys_inv :: "'b seg_env \<Rightarrow> cache_sys \<Rightarrow> bool" where
  "cache_sys_inv env s \<longleftrightarrow> cache_inv env (cs_inner s) \<and> pins_exact (cs_guards s) (cs_pins s)"

lemma cache_step_inv:
  assumes "cache_step env s ev s'" "cache_sys_inv env s"
  shows "cache_sys_inv env s'"
  using assms
proof cases
  case (unpin ids)
  then show ?thesis using assms(2) drop_pin_exact by (auto simp: cache_sys_inv_def)
qed (auto simp: cache_sys_inv_def remove_body_def drop_body_inv dest: lookup_body_spec[rotated] admit_fetched_spec[rotated] pin_segments_exact)

lemma cache_reachable_inv: "cache_reachable env hint s \<Longrightarrow> cache_sys_inv env s"
proof (induction rule: cache_reachable.induct)
  case start
  show ?case by (auto simp: cache_sys_inv_def cache_inv_def inner_new_autotuned_def body_total_def pins_exact_def guard_count_def split: prod.split)
qed (rule cache_step_inv)

section \<open>A pinned body under a zero budget\<close>

definition sample_body :: bytes where "sample_body = FOOT_TAG @ replicate (FOOTER_LEN - 4) 0"

definition sample_cache :: Inner where
  "sample_cache = \<lparr>in_order = [''a''], in_map = fmupd ''a'' sample_body fmempty, in_bytes = FOOTER_LEN, in_max_bytes = 0, in_max_entries = 8\<rparr>"

definition sample_sys :: cache_sys where
  "sample_sys = \<lparr>cs_inner = sample_cache, cs_pins = fmupd ''a'' 1 fmempty, cs_guards = [[''a'']]\<rparr>"

lemma sample_body_ok: "verify_body_checksum sample_env sample_body = Inr (replicate 32 0)" "length sample_body = FOOTER_LEN"
  by (simp_all add: verify_body_checksum_def sample_body_def sample_env_def FOOTER_LEN_def FOOT_TAG_def as_bytes_def Let_def)

lemma sample_limits: "autotune_limits (Some 0) = (0, 8)"
  by (simp add: autotune_limits_def split_s3_wal_memory_budget_def combined_pool_bytes_def usize_mul_def MIN_CACHE_ENTRIES_def MAX_CACHE_ENTRIES_def)

lemma sample_admit:
  "admit_fetched sample_env (Some 0) (fmupd ''a'' 1 fmempty) ''a'' sample_body (inner_new_autotuned (Some 0)) = (sample_cache, Inr sample_body)"
proof -
  have "enforce_limits (fmupd ''a'' 1 fmempty) sample_cache = sample_cache"
    by (subst enforce_limits.simps) (simp add: sample_cache_def evict_one_def FOOTER_LEN_def)
  then have "put_body (fmupd ''a'' 1 fmempty) ''a'' sample_body (inner_new_autotuned (Some 0)) = sample_cache"
    by (simp add: put_body_def inner_new_autotuned_def sample_limits touch_def sample_body_ok sample_cache_def)
  moreover have "lookup_body (Some 0) p ''a'' (inner_new_autotuned (Some 0)) = (inner_new_autotuned (Some 0), None)" for p
    by (simp add: lookup_body_def refresh_caps_def inner_new_autotuned_def sample_limits)
  ultimately show ?thesis by (simp add: admit_fetched_def sample_body_ok)
qed

lemma sample_reachable: "cache_reachable sample_env (Some 0) sample_sys"
proof -
  let ?s = "\<lparr>cs_inner = inner_new_autotuned (Some 0), cs_pins = fmempty, cs_guards = []\<rparr>"
  let ?t = "\<lparr>cs_inner = inner_new_autotuned (Some 0), cs_pins = fmupd ''a'' 1 fmempty, cs_guards = [[''a'']]\<rparr>"
  have "cache_step sample_env ?s (PinEv [''a'']) ?t"
    using cache_step.pin[of "[''a'']" ?s "[''a'']" "fmupd ''a'' 1 fmempty" sample_env] by (simp add: pin_segments_def pin_one_def)
  moreover have "cache_step sample_env ?t (AdmitEv (Some 0) ''a'' sample_body) sample_sys"
    using cache_step.admit[of sample_env "Some 0" ?t "''a''" sample_body sample_cache "Inr sample_body"] sample_admit by (simp add: sample_sys_def)
  ultimately show ?thesis by (meson cache_reachable.intros)
qed

section \<open>Properties\<close>

text \<open>Memory budget: for every memory hint the admission budget and the cache budget together
  stay within the combined pool (at most 70 per cent of the hint), each stays below its own
  maximum, and as soon as the pool can hold both minima each side gets at least its minimum.\<close>

theorem memory_budget_split:
  "(case split_s3_wal_memory_budget hint of (admission, lru) \<Rightarrow>
      admission + lru \<le> combined_pool_bytes hint \<and> 100 * combined_pool_bytes hint \<le> 70 * hint
      \<and> admission \<le> MAX_ADMISSION \<and> lru \<le> MAX_LRU
      \<and> (combined_pool_bytes hint < MIN_ADMISSION + MIN_LRU \<or> MIN_ADMISSION \<le> admission \<and> MIN_LRU \<le> lru))"
proof -
  obtain a l where s: "split_s3_wal_memory_budget hint = (a, l)" by force
  have "100 * combined_pool_bytes hint \<le> usize_mul hint COMBINED_PCT"
    by (simp add: combined_pool_bytes_def)
  also have "\<dots> \<le> 70 * hint" by (simp add: usize_mul_def COMBINED_PCT_def)
  finally show ?thesis using split_budget_bounds[OF s] s by (auto simp: not_less)
qed

text \<open>In every state the cache can reach, whatever bodies were fetched and however lookups,
  admissions, removals and pin guards interleave: the eviction order lists exactly the cached
  bodies once, the byte counter is the sum of their sizes, every cached body passes its checksum,
  and the pin table counts exactly the guards that are alive.\<close>

theorem body_cache_invariant:
  assumes "cache_reachable env hint s"
  shows "distinct (in_order (cs_inner s)) \<and> set (in_order (cs_inner s)) = fmdom' (in_map (cs_inner s))
    \<and> in_bytes (cs_inner s) = body_total (in_map (cs_inner s))
    \<and> (\<forall>i v. fmlookup (in_map (cs_inner s)) i = Some v \<longrightarrow> \<not> is_err (verify_body_checksum env v))
    \<and> (\<forall>i. fmlookup (cs_pins s) i = (if guard_count (cs_guards s) i = 0 then None else Some (guard_count (cs_guards s) i)))"
  using cache_reachable_inv[OF assms] by (auto simp: cache_sys_inv_def cache_inv_def pins_exact_def)

theorem body_cache_invariant_witness:
  "fmlookup (cs_pins sample_sys) ''a'' = Some 1 \<and> in_bytes (cs_inner sample_sys) = body_total (in_map (cs_inner sample_sys))"
  using body_cache_invariant[OF sample_reachable] by (simp add: sample_sys_def)

text \<open>C28. A body that a live pin guard names is never evicted: in a reachable state, no step other
  than its explicit removal takes it out of the cache or replaces it, however tight the limits are.\<close>

theorem pinned_body_kept:
  assumes "cache_reachable env hint s" "cache_step env s ev s'"
    and "\<exists>g\<in>set (cs_guards s). i \<in> set g" "fmlookup (in_map (cs_inner s)) i = Some v" "ev \<noteq> RemoveEv i"
  shows "fmlookup (in_map (cs_inner s')) i = Some v"
proof -
  note inv = cache_reachable_inv[OF assms(1)]
  have "guard_count (cs_guards s) i \<noteq> 0" using assms(3) by (auto simp: guard_count_def filter_empty_conv)
  then have p: "fmlookup (cs_pins s) i \<noteq> None" using inv by (simp add: cache_sys_inv_def pins_exact_def)
  from assms(2) show ?thesis
  proof cases
    case (lookup hint j c r)
    then show ?thesis using lookup_body_spec[OF _ lookup(3), of env] inv p assms(4) by (auto simp: cache_sys_inv_def)
  next
    case (admit hint j w c r)
    then show ?thesis using admit_fetched_spec[OF _ admit(3)] inv p assms(4) by (auto simp: cache_sys_inv_def)
  next
    case (remove j)
    then show ?thesis using assms(4,5) by (simp add: remove_body_def)
  qed (use assms(4) in simp_all)
qed

theorem pinned_body_kept_witness:
  "\<exists>s'. cache_step sample_env sample_sys (LookupEv (Some 0) ''b'') s' \<and> in_max_bytes sample_cache < in_bytes sample_cache
     \<and> fmlookup (in_map (cs_inner s')) ''a'' = Some sample_body"
proof -
  obtain c r where l: "lookup_body (Some 0) (cs_pins sample_sys) ''b'' (cs_inner sample_sys) = (c, r)" by force
  note st = cache_step.lookup[OF l, of sample_env]
  have "in_max_bytes sample_cache < in_bytes sample_cache" by (simp add: sample_cache_def FOOTER_LEN_def)
  moreover have "fmlookup (in_map (cs_inner (sample_sys\<lparr>cs_inner := c\<rparr>))) ''a'' = Some sample_body"
    by (rule pinned_body_kept[OF sample_reachable st]) (simp_all add: sample_sys_def sample_cache_def)
  ultimately show ?thesis using st by blast
qed

text \<open>The body handed out after a fetch passes its checksum, whether it is the fetched one or one
  another task had cached meanwhile, and the cache is then within both limits of the memory budget
  unless every body left in it is pinned; a body that fails its checksum leaves the cache as it was.\<close>

theorem admit_fetched_bounded:
  assumes "cache_reachable env hint0 s" "admit_fetched env hint (cs_pins s) i v (cs_inner s) = (c, r)"
  shows "case r of
      Inl e \<Rightarrow> verify_body_checksum env v = Inl e \<and> c = cs_inner s
    | Inr u \<Rightarrow> \<not> is_err (verify_body_checksum env u)
        \<and> (in_bytes c \<le> fst (autotune_limits hint) \<and> fcard (fmdom (in_map c)) \<le> snd (autotune_limits hint)
           \<or> (\<forall>j\<in>fmdom' (in_map c). \<exists>g\<in>set (cs_guards s). j \<in> set g))"
proof (cases r)
  case (Inl e)
  then show ?thesis using assms(2) by (auto simp: admit_fetched_def split: sum.splits prod.splits option.splits)
next
  case (Inr u)
  note inv = cache_reachable_inv[OF assms(1)]
  have g: "\<exists>g\<in>set (cs_guards s). j \<in> set g" if "fmlookup (cs_pins s) j \<noteq> None" for j
  proof -
    have "guard_count (cs_guards s) j \<noteq> 0" using that inv by (auto simp: cache_sys_inv_def pins_exact_def split: if_splits)
    then show ?thesis by (auto simp: guard_count_def filter_empty_conv)
  qed
  show ?thesis using admit_fetched_spec[OF _ assms(2)] inv g Inr unfolding cache_sys_inv_def within_limits_def by auto
qed

theorem admit_fetched_bounded_witness:
  "\<exists>c r. admit_fetched sample_env (Some 0) (cs_pins sample_sys) ''b'' sample_body (cs_inner sample_sys) = (c, Inr r)
     \<and> \<not> is_err (verify_body_checksum sample_env r)"
proof -
  obtain c r where a: "admit_fetched sample_env (Some 0) (cs_pins sample_sys) ''b'' sample_body (cs_inner sample_sys) = (c, r)" by force
  then obtain v where "r = Inr v" by (cases r) (auto simp: admit_fetched_def sample_body_ok split: prod.splits option.splits)
  then show ?thesis using a admit_fetched_bounded[OF sample_reachable a] by auto
qed

end
