(* ===== verification/Ingest_Compaction.thy ===== *)
theory Ingest_Compaction
  imports Compaction_Slices Compaction_Scheduler Body_Cache Catalog_Row
begin

text \<open>
  The compaction side of the ingest buffer (\<^verbatim>\<open>src/src/buffer/ingest_buffer.rs\<close>): the cache of
  committed segments, its registration in the planner's index, hydration from the catalog, and
  \<open>next_compaction_transactions\<close>, which turns reserved manifests and planned groups into works for
  the scheduler. The statics of the source are fields of one state; what the catalog answers and
  the clock are fields too, because they change between calls. SHA-256, URL encoding, the
  capabilities of the sinks and the configuration are arguments.
\<close>

section \<open>Sources of segments\<close>

datatype SegmentSource = SrcDisk string | SrcWal string string | SrcS3 string string "bytes option"

text \<open>\<open>Path::file_name\<close> and \<open>Path::file_stem\<close> on a path with \<open>/\<close> as separator.\<close>

definition file_name :: "string \<Rightarrow> string option" where
  "file_name p = (case filter (\<lambda>x. x \<notin> {'''', ''.''}) (split_on CHR ''/'' p) of
      [] \<Rightarrow> None
    | cs \<Rightarrow> if last cs = ''..'' then None else Some (last cs))"

definition file_stem :: "string \<Rightarrow> string option" where
  "file_stem p = map_option (\<lambda>f. case rsplit_once CHR ''.'' f of
      None \<Rightarrow> f
    | Some (before, _) \<Rightarrow> if before = [] then f else before) (file_name p)"

definition strip_suffix :: "string \<Rightarrow> string \<Rightarrow> string option" where
  "strip_suffix end_part s = (if length end_part \<le> length s \<and> drop (length s - length end_part) s = end_part
     then Some (take (length s - length end_part) s) else None)"

fun source_segment_id :: "SegmentSource \<Rightarrow> string" where
  "source_segment_id (SrcDisk p) = (case file_stem p of Some s \<Rightarrow> s | None \<Rightarrow> ''unknown'')"
| "source_segment_id (SrcWal uri p) = (case file_stem p of Some s \<Rightarrow> s | None \<Rightarrow> ''unknown'')"
| "source_segment_id (SrcS3 key bucket body) = (let filename = last (split_on CHR ''/'' key) in
     case strip_suffix ''.seg'' filename of Some s \<Rightarrow> s | None \<Rightarrow> filename)"

fun display_name :: "SegmentSource \<Rightarrow> string" where
  "display_name (SrcDisk p) = p"
| "display_name (SrcWal uri p) = uri"
| "display_name (SrcS3 key bucket body) = ''s3://'' @ bucket @ ''/'' @ key"

fun source_descriptor :: "SegmentSource \<Rightarrow> SegmentSourceDescriptor" where
  "source_descriptor (SrcDisk path) = DiskSource path"
| "source_descriptor (SrcWal uri p) = WalSource uri"
| "source_descriptor (SrcS3 key bucket body) = S3Source bucket key"

lemma display_name_stable [simp]: "stable_id (source_descriptor s) = display_name s"
  by (cases s) simp_all

section \<open>State\<close>

record CachedSegment =
  cg_source :: SegmentSource
  cg_meta :: SegmentFileMetadata

record CompactionEntry =
  ce_source :: SegmentSource
  ce_meta :: SegmentFileMetadata
  ce_ordinal :: nat
  ce_idx :: SegmentPartitionIndexEntry
  ce_wal_ref :: WalPartRef

record CompactionWork =
  cwk_pipeline :: PipelineKey
  cwk_txn :: CompactionTransaction
  cwk_entries :: "CompactionEntry list"

definition work_lane :: "CompactionWork \<Rightarrow> CompactionLaneKey" where
  "work_lane w = CompactionLaneKey (ct_sink_ref (cwk_txn w)) (ct_namespace (cwk_txn w))"

datatype WalStorage = StorageDisk | StorageS3

text \<open>What the catalog handle answers: the live rows, each with the outcome of reading its index, and
  the compaction transactions. \<open>None\<close> stands for an absent handle or an unreadable catalog.\<close>

record hydrate_row =
  hr_segment_id :: string
  hr_location :: PayloadLocation
  hr_meta :: "string + SegmentFileMetadata"

record catalog_answers =
  cv_rows :: "hydrate_row list option"
  cv_txns :: "string + CompactionTransaction list"

record ingest_planner =
  ip_cache :: "(string, CachedSegment) fmap"
  ip_bodies :: Inner
  ip_index :: CompactionIndex
  ip_in_flight :: "(string \<times> u64 \<times> u64) set"
  ip_done :: "string \<Rightarrow> u32 \<Rightarrow> bool"
  ip_catalog :: "catalog_answers option"
  ip_now :: u64

record planner_config =
  pc_order :: hash_order
  pc_storage :: WalStorage
  pc_byte_threshold :: u64
  pc_time_threshold :: u64
  pc_target_bytes :: u64
  pc_max_parts :: nat
  pc_sent_stale_secs :: u64
  pc_per_sink_limit :: nat
  pc_pipeline :: "string + PipelineKey"
  pc_capability :: "string \<Rightarrow> SinkCapability option"
  pc_metadata :: "(string, SourceNamespaceContract) fmap"
  pc_sha_hex :: "bytes \<Rightarrow> string"
  pc_urlencode :: "(string \<times> string) list \<Rightarrow> string"

section \<open>Registration\<close>

definition schema_fingerprint_for_meta :: "(bytes \<Rightarrow> string) \<Rightarrow> SegmentFileMetadata \<Rightarrow> string" where
  "schema_fingerprint_for_meta sha_hex m = sha_hex (concat (map (\<lambda>e.
     as_bytes (pk_namespace (ie_key e)) @ [0] @ as_bytes (pk_schema_fingerprint (ie_key e)) @ [0]) (sm_index m)))"

definition schema_fingerprint_for_group :: "(bytes \<Rightarrow> string) \<Rightarrow> SegmentPartitionIndexEntry \<Rightarrow> SegmentFileMetadata \<Rightarrow> string" where
  "schema_fingerprint_for_group sha_hex e m = (if pk_schema_fingerprint (ie_key e) = [] then schema_fingerprint_for_meta sha_hex m
     else pk_schema_fingerprint (ie_key e))"

definition grouping_key :: "SegmentPartitionIndexEntry \<Rightarrow> string \<Rightarrow> CompactionGroupKey" where
  "grouping_key e fp = CompactionGroupKey (pk_sink_ref (ie_key e)) (pk_namespace (ie_key e)) (pk_partition (ie_key e))
     (pk_time (ie_key e)) fp (if summary_is_cdc (ie_part_meta_summary e) then KindCdc else KindAppend)"

definition indexed_slice :: "(bytes \<Rightarrow> string) \<Rightarrow> SegmentSource \<Rightarrow> SegmentFileMetadata \<Rightarrow> SegmentPartitionIndexEntry \<Rightarrow> IndexedCompactionSlice" where
  "indexed_slice sha_hex source m e = (let sid = source_segment_id source in
     \<lparr>sl_id = CompactionSliceId sid (display_name source) (ie_start e) (ie_len e),
      sl_group_key = grouping_key e (schema_fingerprint_for_group sha_hex e m),
      sl_index_entry = e,
      sl_wal_ref = \<lparr>wr_segment_id = sid, wr_source = source_descriptor source, wr_start = ie_start e, wr_len = ie_len e,
         wr_key = ie_key e, wr_cdc_meta_hash = summary_canonical_hash (ie_part_meta_summary e),
         wr_ordinal = Some (ie_slice_ordinal e)\<rparr>\<rparr>)"

definition segment_cache_register :: "planner_config \<Rightarrow> SegmentSource \<Rightarrow> SegmentFileMetadata \<Rightarrow> ingest_planner \<Rightarrow> ingest_planner" where
  "segment_cache_register cfg source m s = (let sid = source_segment_id source;
       slices = map (indexed_slice (pc_sha_hex cfg) source m \<circ> snd)
         (filter (\<lambda>(ordinal, e). \<not> ip_done s sid (of_nat ordinal)) (enumerate 0 (sm_index m)))
     in s\<lparr>ip_cache := fmupd sid \<lparr>cg_source = source, cg_meta = m\<rparr> (ip_cache s),
          ip_index := fst (register_segment (pc_order cfg) sid slices (pc_byte_threshold cfg) (pc_time_threshold cfg) (ip_now s) (ip_index s))\<rparr>)"

definition segment_cache_remove :: "string \<Rightarrow> ingest_planner \<Rightarrow> ingest_planner" where
  "segment_cache_remove sid s = s\<lparr>ip_cache := fmdrop sid (ip_cache s), ip_index := remove_segment sid (ip_index s),
     ip_bodies := remove_body sid (ip_bodies s)\<rparr>"

section \<open>Hydration\<close>

fun location_matches_layer :: "WalStorage \<Rightarrow> PayloadLocation \<Rightarrow> bool" where
  "location_matches_layer StorageS3 (S3 bucket key) = True"
| "location_matches_layer StorageDisk (Disk path) = True"
| "location_matches_layer _ _ = False"

fun source_of_location :: "PayloadLocation \<Rightarrow> SegmentSource" where
  "source_of_location (Disk path) = SrcDisk path"
| "source_of_location (S3 bucket key) = SrcS3 key bucket None"

definition hydrate_stale :: "string \<Rightarrow> ingest_planner \<Rightarrow> ingest_planner" where
  "hydrate_stale sid s = s\<lparr>ip_cache := fmdrop sid (ip_cache s), ip_bodies := remove_body sid (ip_bodies s)\<rparr>"

definition hydrate_admit :: "planner_config \<Rightarrow> hydrate_row \<Rightarrow> ingest_planner \<Rightarrow> ingest_planner" where
  "hydrate_admit cfg row s = (if \<not> location_matches_layer (pc_storage cfg) (hr_location row) then s
     else case hr_meta row of
       Inl _ \<Rightarrow> s
     | Inr m \<Rightarrow> segment_cache_register cfg (source_of_location (hr_location row)) m s)"

definition hydrate_manifests :: "(string + CompactionTransaction list) \<Rightarrow> CompactionTransaction list" where
  "hydrate_manifests r = (case r of
      Inl _ \<Rightarrow> []
    | Inr txns \<Rightarrow> map (\<lambda>t. if ct_state t = TxnSent then t\<lparr>ct_state := TxnPending\<rparr> else t)
        (filter (\<lambda>t. ct_state t \<noteq> TxnAcked) txns))"

definition hydrate_from_catalog :: "planner_config \<Rightarrow> catalog_answers \<Rightarrow> ingest_planner \<Rightarrow> ingest_planner" where
  "hydrate_from_catalog cfg view s = (case cv_rows view of
      None \<Rightarrow> s
    | Some rows \<Rightarrow> (let
         live = hr_segment_id ` set rows;
         stale = ho_names (pc_order cfg) (fmdom' (ip_cache s) - live);
         s1 = fold hydrate_stale stale s;
         s2 = fold (hydrate_admit cfg) rows s1;
         index = install_manifests (pc_order cfg) (hydrate_manifests (cv_txns view))
                   (drop_segments_not_in (pc_order cfg) live (ip_index s2))
       in s2\<lparr>ip_index := index\<rparr>))"

definition hydrate_planner :: "planner_config \<Rightarrow> ingest_planner \<Rightarrow> ingest_planner" where
  "hydrate_planner cfg s = (if ci_manifests_loaded (ip_index s) then s
     else case ip_catalog s of None \<Rightarrow> s | Some view \<Rightarrow> hydrate_from_catalog cfg view s)"

section \<open>Works\<close>

definition grouped_write_semantics :: "SinkCapability \<Rightarrow> SinkWriteSemantics" where
  "grouped_write_semantics cap = (case retry_semantics cap of
      TransactionalIdempotent \<Rightarrow> ExactOnce
    | FinalStateIdempotent \<Rightarrow> ExactOnce
    | DeterministicOverwrite \<Rightarrow> IdempotentAtLeastOnce
    | AtLeastOnce \<Rightarrow> WriteAtLeastOnce
    | NonRetryable \<Rightarrow> WriteAtLeastOnce)"

definition patch_manifest_semantics :: "planner_config \<Rightarrow> CompactionTransaction \<Rightarrow> CompactionTransaction option" where
  "patch_manifest_semantics cfg txn = (case pc_capability cfg (ct_sink_ref txn) of
      None \<Rightarrow> None
    | Some cap \<Rightarrow> (let expected = grouped_write_semantics cap in
        Some (if ct_semantics txn \<noteq> expected then txn\<lparr>ct_semantics := expected\<rparr> else txn)))"

definition compaction_pipeline_key :: "planner_config \<Rightarrow> PipelineKey option" where
  "compaction_pipeline_key cfg = (case pc_pipeline cfg of Inr k \<Rightarrow> Some k | Inl _ \<Rightarrow> None)"

definition manifest_refs_in_flight :: "ingest_planner \<Rightarrow> CompactionTransaction \<Rightarrow> bool" where
  "manifest_refs_in_flight s txn = list_ex (\<lambda>w. (stable_id (wr_source w), wr_start w, wr_len w) \<in> ip_in_flight s) (ct_refs txn)"

fun manifest_entries :: "ingest_planner \<Rightarrow> WalPartRef list \<Rightarrow> CompactionEntry list \<Rightarrow> WalPartRef list
  \<Rightarrow> (CompactionEntry list \<times> WalPartRef list) option"
where
  "manifest_entries s [] entries completed = Some (entries, completed)"
| "manifest_entries s (w # ws) entries completed = (case fmlookup (ip_cache s) (wr_segment_id w) of
      None \<Rightarrow> None
    | Some cached \<Rightarrow>
       (case List.find (\<lambda>(ordinal, e). ie_start e = wr_start w \<and> ie_len e = wr_len w \<and> ie_key e = wr_key w)
               (enumerate 0 (sm_index (cg_meta cached))) of
          None \<Rightarrow> None
        | Some (ordinal, e) \<Rightarrow>
            if ip_done s (source_segment_id (cg_source cached)) (of_nat ordinal) then manifest_entries s ws entries (completed @ [w])
            else if wr_cdc_meta_hash w \<noteq> None \<and> wr_cdc_meta_hash w \<noteq> summary_canonical_hash (ie_part_meta_summary e) then None
            else manifest_entries s ws (entries @ [\<lparr>ce_source = cg_source cached, ce_meta = cg_meta cached, ce_ordinal = ordinal,
                   ce_idx = e, ce_wal_ref = w\<rparr>]) completed))"

definition work_from_manifest :: "planner_config \<Rightarrow> CompactionTransaction \<Rightarrow> ingest_planner \<Rightarrow> ingest_planner \<times> CompactionWork option" where
  "work_from_manifest cfg txn0 s = (if manifest_refs_in_flight s txn0 then (s, None)
     else case patch_manifest_semantics cfg txn0 of
       None \<Rightarrow> (s, None)
     | Some txn \<Rightarrow>
        (case manifest_entries s (ct_refs txn) [] [] of
           None \<Rightarrow> (s, None)
         | Some (entries, completed) \<Rightarrow>
            (let s1 = (if completed \<noteq> [] then s\<lparr>ip_index := fst (complete_refs completed (ip_index s))\<rparr> else s) in
             if entries = [] then (s1, None)
             else (s1, map_option (\<lambda>k. \<lparr>cwk_pipeline = k, cwk_txn = txn, cwk_entries = entries\<rparr>) (compaction_pipeline_key cfg)))))"

definition show_i64 :: "i64 \<Rightarrow> string" where
  "show_i64 t = (if t < 0 then CHR ''-'' # show_nat (nat (- t)) else show_nat (nat t))"

definition encode_chunk_name ::
  "planner_config \<Rightarrow> string \<Rightarrow> string \<Rightarrow> string \<Rightarrow> string \<Rightarrow> i64 option \<Rightarrow> string \<Rightarrow> string"
where
  "encode_chunk_name cfg buffer_name sink_ref ns part time fp = (let
       (sink_type, sink_name) = (case split_once CHR ''.'' sink_ref of Some p \<Rightarrow> p | None \<Rightarrow> (sink_ref, ''''))
     in pc_urlencode cfg [(''buffer'', buffer_name), (''sink_type'', sink_type), (''sink_name'', sink_name), (''namespace'', ns),
          (''partition'', part), (''time'', (case time of Some t \<Rightarrow> show_i64 t | None \<Rightarrow> '''')),
          (''schema_fingerprint'', fp)])"

definition build_compaction_work :: "planner_config \<Rightarrow> u64 \<Rightarrow> CompactionEntry list \<Rightarrow> string \<Rightarrow> CompactionWork option" where
  "build_compaction_work cfg now entries hint = (case entries of
      [] \<Rightarrow> None
    | first # _ \<Rightarrow> (let key = ie_key (ce_idx first) in
       case pc_capability cfg (pk_sink_ref key) of
         None \<Rightarrow> None
       | Some cap \<Rightarrow> (let
            policy = (case source_contract_for_namespace (pc_metadata cfg) (pk_namespace key) of
                Some c \<Rightarrow> write_policy c | None \<Rightarrow> Append);
            fp = (if hint = [] then schema_fingerprint_for_group (pc_sha_hex cfg) (ce_idx first) (ce_meta first) else hint);
            out_key = encode_chunk_name cfg ''output'' (pk_sink_ref key) (pk_namespace key) (pk_partition key) (pk_time key)
              (pk_schema_fingerprint key);
            txn = compaction_transaction_new (pc_sha_hex cfg) now (pk_sink_ref key) (pk_namespace key) fp policy
              (grouped_write_semantics cap) (map ce_wal_ref entries) '''';
            txn = txn\<lparr>ct_target_filename := out_key @ ''-c='' @ ct_id txn\<rparr>
          in map_option (\<lambda>k. \<lparr>cwk_pipeline = k, cwk_txn = txn, cwk_entries = entries\<rparr>) (compaction_pipeline_key cfg))))"

fun planned_entries :: "ingest_planner \<Rightarrow> IndexedCompactionSlice list \<Rightarrow> CompactionEntry list option" where
  "planned_entries s [] = Some []"
| "planned_entries s (sl # sls) = (case fmlookup (ip_cache s) (si_segment_id (sl_id sl)) of
      None \<Rightarrow> None
    | Some cached \<Rightarrow> if display_name (cg_source cached) \<noteq> si_source_id (sl_id sl) then None
        else map_option (\<lambda>es. \<lparr>ce_source = cg_source cached, ce_meta = cg_meta cached,
               ce_ordinal = unat (ie_slice_ordinal (sl_index_entry sl)), ce_idx = sl_index_entry sl, ce_wal_ref = sl_wal_ref sl\<rparr> # es)
             (planned_entries s sls))"

definition work_from_planned_group :: "planner_config \<Rightarrow> PlannedCompactionGroup \<Rightarrow> ingest_planner \<Rightarrow> CompactionWork option" where
  "work_from_planned_group cfg planned s = (case planned_entries s (pg_slices planned) of
      None \<Rightarrow> None
    | Some entries \<Rightarrow> build_compaction_work cfg (ip_now s) entries (gk_schema_fingerprint (pg_key planned)))"

section \<open>The planner\<close>

definition resume_manifest :: "planner_config \<Rightarrow> ReservedManifest \<Rightarrow> ingest_planner \<times> CompactionWork list \<Rightarrow> ingest_planner \<times> CompactionWork list" where
  "resume_manifest cfg rm = (\<lambda>(s, out). case work_from_manifest cfg (rm_txn rm) s of
      (s1, Some work) \<Rightarrow> (s1, out @ [work])
    | (s1, None) \<Rightarrow> (s1\<lparr>ip_index := release_manifest (ct_id (rm_txn rm)) (ip_index s1)\<rparr>, out))"

definition start_group :: "planner_config \<Rightarrow> PlannedCompactionGroup \<Rightarrow> ingest_planner \<times> CompactionWork list \<Rightarrow> ingest_planner \<times> CompactionWork list" where
  "start_group cfg planned = (\<lambda>(s, out). case work_from_planned_group cfg planned s of
      Some work \<Rightarrow> (s, out @ [work])
    | None \<Rightarrow> (s\<lparr>ip_index := release_refs (map sl_wal_ref (pg_slices planned)) (ip_now s) (ip_index s)\<rparr>, out))"

definition count_ready :: "planner_config \<Rightarrow> bool \<Rightarrow> nat \<Rightarrow> ingest_planner \<Rightarrow> ingest_planner \<times> nat" where
  "count_ready cfg force limit s =
     (let (c, n) = reclaimable_slice_count force (ip_now s) (pc_sent_stale_secs cfg) limit (ip_index s) in (s\<lparr>ip_index := c\<rparr>, n))"

text \<open>\<open>plan_ready\<close> returns for every positive number of parts; the configuration never has zero parts,
  so the case without a result does not arise.\<close>

definition next_compaction_transactions ::
  "planner_config \<Rightarrow> nat \<Rightarrow> bool \<Rightarrow> active_counts \<Rightarrow> CompactionLaneKey set \<Rightarrow> ingest_planner \<Rightarrow> ingest_planner \<times> CompactionWork list"
where
  "next_compaction_transactions cfg limit force active blocked s = (let
       now = ip_now s; per_sink = max (pc_per_sink_limit cfg) 1;
       s0 = hydrate_planner cfg s;
       (c1, pending) = reserve_ready_manifests limit per_sink now (pc_sent_stale_secs cfg) active blocked (ip_index s0);
       (s1, out) = fold (resume_manifest cfg) pending (s0\<lparr>ip_index := c1\<rparr>, [])
     in if out \<noteq> [] then (fst (count_ready cfg force usize_max s1), out)
     else case plan_ready (pc_order cfg) limit force now (pc_byte_threshold cfg) (pc_time_threshold cfg) (pc_target_bytes cfg)
              (pc_max_parts cfg) per_sink active blocked (ip_index s1) of
       None \<Rightarrow> (s1, [])
     | Some (c2, plan) \<Rightarrow> (let (s2, works) = fold (start_group cfg) (cp_groups plan) (s1\<lparr>ip_index := c2\<rparr>, [])
         in (fst (count_ready cfg force usize_max s2), works)))"

definition has_ready_compaction_work :: "planner_config \<Rightarrow> bool \<Rightarrow> ingest_planner \<Rightarrow> ingest_planner \<times> bool" where
  "has_ready_compaction_work cfg force s = (let (s1, n) = count_ready cfg force 1 (hydrate_planner cfg s) in (s1, 0 < n))"

text \<open>The planner closure of \<open>run_compaction_cycle\<close>.\<close>

definition cycle_planner :: "planner_config \<Rightarrow> (ingest_planner, CompactionWork) planner" where
  "cycle_planner cfg slots force active blocked s = (let
       (s1, works) = next_compaction_transactions cfg slots force active blocked s;
       (s2, remaining) = has_ready_compaction_work cfg force s1
     in (s2, \<lparr>pb_works = works, pb_ready_work_remaining = remaining\<rparr>))"

section \<open>The planner's invariant\<close>

text \<open>A registered slice names the lane of its partition key, and its reference names the slice.\<close>

definition slice_wf :: "IndexedCompactionSlice \<Rightarrow> bool" where
  "slice_wf sl \<longleftrightarrow> group_lane (sl_group_key sl) = CompactionLaneKey (pk_sink_ref (ie_key (sl_index_entry sl))) (pk_namespace (ie_key (sl_index_entry sl)))
     \<and> slice_id_from_wal_ref (sl_wal_ref sl) = sl_id sl \<and> wr_key (sl_wal_ref sl) = ie_key (sl_index_entry sl)"

definition planner_ok :: "ingest_planner \<Rightarrow> bool" where
  "planner_ok s \<longleftrightarrow> good {} {} (ip_index s) \<and> slices_sat slice_wf (ip_index s)"

definition config_ok :: "planner_config \<Rightarrow> bool" where
  "config_ok cfg \<longleftrightarrow> hash_order_ok (pc_order cfg) \<and> 0 < pc_max_parts cfg"

lemma planner_ok_index: "planner_ok s \<Longrightarrow> good {} {} c \<Longrightarrow> slices_sat slice_wf c \<Longrightarrow> planner_ok (s\<lparr>ip_index := c\<rparr>)"
  by (simp add: planner_ok_def)

lemma indexed_slice_wf: "slice_wf (indexed_slice sha source m e)"
  by (simp add: slice_wf_def indexed_slice_def Let_def slice_id_from_wal_ref_def grouping_key_def group_lane_def)

lemma register_ok:
  assumes "planner_ok s" "config_ok cfg"
  shows "planner_ok (segment_cache_register cfg source m s)"
proof -
  let ?slices = "map (indexed_slice (pc_sha_hex cfg) source m \<circ> snd)
    (filter (\<lambda>(ordinal, e). \<not> ip_done s (source_segment_id source) (of_nat ordinal)) (enumerate 0 (sm_index m)))"
  have id: "sl_id (indexed_slice (pc_sha_hex cfg) source m e) = CompactionSliceId (source_segment_id source) (display_name source) (ie_start e) (ie_len e)" for e
    by (simp add: indexed_slice_def Let_def)
  have key: "slice_segment_key sl = SegmentKey (source_segment_id source) (display_name source) \<and> si_segment_id (sl_id sl) = source_segment_id source"
    if "sl \<in> set ?slices" for sl using that by (auto simp: slice_segment_key_def id)
  then have "one_segment (source_segment_id source) ?slices"
    unfolding one_segment_def by (metis empty_iff empty_set hd_in_set)
  moreover have "\<forall>sl\<in>set ?slices. slice_wf sl" by (auto intro: indexed_slice_wf)
  ultimately show ?thesis using assms register_segment_good(1) register_segment_sat
    by (auto simp: planner_ok_def config_ok_def segment_cache_register_def Let_def)
qed

lemma hydrate_admit_ok: "planner_ok s \<Longrightarrow> config_ok cfg \<Longrightarrow> planner_ok (hydrate_admit cfg row s)"
  by (auto simp: hydrate_admit_def register_ok split: sum.split)

lemma fold_keeps: "(\<And>x s. P s \<Longrightarrow> P (f x s)) \<Longrightarrow> P s \<Longrightarrow> P (fold f xs s)"
  by (induction xs arbitrary: s) auto

lemma hydrate_from_catalog_ok:
  assumes "planner_ok s" "config_ok cfg"
  shows "planner_ok (hydrate_from_catalog cfg view s)"
proof (cases "cv_rows view")
  case (Some rows)
  let ?s1 = "fold hydrate_stale (ho_names (pc_order cfg) (fmdom' (ip_cache s) - hr_segment_id ` set rows)) s"
  have "planner_ok ?s1" by (rule fold_keeps) (use assms(1) in \<open>auto simp: planner_ok_def hydrate_stale_def\<close>)
  then have "planner_ok (fold (hydrate_admit cfg) rows ?s1)" by (rule fold_keeps[rotated]) (rule hydrate_admit_ok[OF _ assms(2)])
  then show ?thesis using Some assms(2)
    by (auto simp: hydrate_from_catalog_def Let_def planner_ok_def config_ok_def intro!: install_good(1) drop_segments_good(1) sat_intros)
qed (simp add: hydrate_from_catalog_def assms)

lemma hydrate_planner_ok: "planner_ok s \<Longrightarrow> config_ok cfg \<Longrightarrow> planner_ok (hydrate_planner cfg s)"
  by (auto simp: hydrate_planner_def hydrate_from_catalog_ok split: option.split)

lemma count_ready_ok: "planner_ok s \<Longrightarrow> planner_ok (fst (count_ready cfg force limit s))"
  by (auto simp: count_ready_def case_prod_beta planner_ok_def intro: reclaimable_good(1) sat_intros)

lemma work_from_manifest_ok:
  assumes "planner_ok s" "work_from_manifest cfg txn s = (s', w)"
  shows "planner_ok s' \<and> (\<forall>work. w = Some work \<longrightarrow> work_lane work = txn_lane txn)"
proof -
  have "planner_ok (s\<lparr>ip_index := fst (complete_refs refs (ip_index s))\<rparr>)" for refs
    using assms(1) by (auto simp: planner_ok_def intro: complete_refs_good(1) sat_intros)
  then show ?thesis using assms
    by (auto simp: work_from_manifest_def patch_manifest_semantics_def Let_def work_lane_def txn_lane_def split: if_splits option.splits)
qed

lemma resume_manifests_ok:
  assumes "planner_ok s" "fold (resume_manifest cfg) pending (s, out) = (s', out')" "\<forall>w\<in>set out. work_lane w \<notin> blocked"
    "\<forall>x\<in>set pending. txn_lane (rm_txn x) \<notin> blocked"
  shows "planner_ok s' \<and> length out' \<le> length out + length pending \<and> (\<forall>w\<in>set out'. work_lane w \<notin> blocked)"
  using assms
proof (induction pending arbitrary: s out)
  case (Cons x pending)
  obtain s1 w where f: "work_from_manifest cfg (rm_txn x) s = (s1, w)" by force
  note k = work_from_manifest_ok[OF Cons.prems(1) f]
  show ?case
  proof (cases w)
    case None
    have "planner_ok (s1\<lparr>ip_index := release_manifest (ct_id (rm_txn x)) (ip_index s1)\<rparr>)"
      using k by (auto simp: planner_ok_def intro: release_manifest_good(1) sat_intros)
    from Cons.IH[OF this _ Cons.prems(3)] Cons.prems(2,4) f None show ?thesis by (auto simp: resume_manifest_def)
  next
    case (Some work)
    then have "\<forall>w\<in>set (out @ [work]). work_lane w \<notin> blocked" using k Cons.prems(3,4) by auto
    from Cons.IH[OF _ _ this] k Cons.prems(2,4) f Some show ?thesis by (force simp: resume_manifest_def)
  qed
qed simp

lemma start_groups_ok:
  assumes "planner_ok s" "fold (start_group cfg) groups (s, out) = (s', out')"
    "\<forall>g\<in>set groups. \<forall>w s. work_from_planned_group cfg g s = Some w \<longrightarrow> work_lane w \<notin> blocked" "\<forall>w\<in>set out. work_lane w \<notin> blocked"
  shows "planner_ok s' \<and> length out' \<le> length out + length groups \<and> (\<forall>w\<in>set out'. work_lane w \<notin> blocked)"
  using assms
proof (induction groups arbitrary: s out)
  case (Cons g groups)
  show ?case
  proof (cases "work_from_planned_group cfg g s")
    case None
    have "planner_ok (s\<lparr>ip_index := release_refs (map sl_wal_ref (pg_slices g)) (ip_now s) (ip_index s)\<rparr>)"
      using Cons.prems(1) by (auto simp: planner_ok_def intro: release_refs_good(1) sat_intros)
    from Cons.IH[OF this _ _ Cons.prems(4)] Cons.prems(2,3) None show ?thesis by (auto simp: start_group_def)
  next
    case (Some w)
    then have "\<forall>w\<in>set (out @ [w]). work_lane w \<notin> blocked" using Cons.prems(3,4) by auto
    from Cons.IH[OF Cons.prems(1) _ _ this] Cons.prems(2,3) Some show ?thesis by (force simp: start_group_def)
  qed
qed simp

section \<open>Works of planned groups\<close>

lemma planned_entries_spec:
  "planned_entries s sls = Some es \<Longrightarrow> map ce_idx es = map sl_index_entry sls \<and> map ce_wal_ref es = map sl_wal_ref sls"
  by (induction s sls arbitrary: es rule: planned_entries.induct) (auto split: option.splits if_splits)

lemma planned_work_spec:
  assumes "work_from_planned_group cfg g s = Some w" "\<forall>sl\<in>set (pg_slices g). slice_wf sl \<and> sl_group_key sl = pg_key g"
  shows "work_lane w = group_lane (pg_key g) \<and> ct_refs (cwk_txn w) = map sl_wal_ref (pg_slices g)
    \<and> map slice_id_from_wal_ref (ct_refs (cwk_txn w)) = map sl_id (pg_slices g)"
proof -
  from assms(1) obtain es where es: "planned_entries s (pg_slices g) = Some es"
    "build_compaction_work cfg (ip_now s) es (gk_schema_fingerprint (pg_key g)) = Some w"
    by (auto simp: work_from_planned_group_def split: option.splits)
  note sp = planned_entries_spec[OF es(1)]
  from es(2) obtain e rest where c: "es = e # rest" by (cases es) (auto simp: build_compaction_work_def)
  then obtain sl sls where g: "pg_slices g = sl # sls" using sp by (cases "pg_slices g") auto
  have w: "work_lane w = CompactionLaneKey (pk_sink_ref (ie_key (ce_idx e))) (pk_namespace (ie_key (ce_idx e)))"
    "ct_refs (cwk_txn w) = map ce_wal_ref es"
    using es(2) c by (auto simp: build_compaction_work_def Let_def work_lane_def compaction_transaction_new_def split: option.splits)
  have "ce_idx e = sl_index_entry sl" using sp c g by simp
  moreover have "slice_wf sl" "sl_group_key sl = pg_key g" using assms(2) g by auto
  ultimately have "work_lane w = group_lane (pg_key g)" unfolding w(1) slice_wf_def by metis
  moreover have "map slice_id_from_wal_ref (map sl_wal_ref (pg_slices g)) = map sl_id (pg_slices g)"
    using assms(2) by (simp add: slice_wf_def)
  ultimately show ?thesis using w(2) sp by simp
qed

definition work_ids :: "CompactionWork list \<Rightarrow> CompactionSliceId list" where
  "work_ids works = concat (map (\<lambda>w. map slice_id_from_wal_ref (ct_refs (cwk_txn w))) works)"

lemma release_slice_others:
  assumes "good {} {} c" "state_of c j = Some Reserved" "j \<noteq> i"
  shows "state_of (release_slice now i c) j = Some Reserved"
proof (cases "state_of c i = Some Reserved \<and> \<not> is_fenced i (ci_manifests c)")
  case True
  then have "settles {} i c (classify_available now i c)" using classify_good[OF assms(1), of i now] by simp
  then show ?thesis using True assms(2,3) by (auto simp: release_slice_def settles_def)
next
  case False
  then show ?thesis using assms(2,3) by (auto simp: release_slice_def state_of_def set_state_def split: option.splits)
qed

lemma release_refs_others:
  assumes "good {} {} c" "state_of c j = Some Reserved" "j \<notin> slice_id_from_wal_ref ` set refs"
  shows "state_of (release_refs refs now c) j = Some Reserved"
proof -
  have "state_of (fold (release_slice now) ids c) j = Some Reserved" if "j \<notin> set ids" for ids
    using that assms(1,2)
  proof (induction ids arbitrary: c)
    case (Cons i ids)
    then show ?case using release_slice_good[of "{}" c now i] release_slice_others[of c j i now] by simp
  qed simp
  then show ?thesis using assms(3) by (simp add: release_refs_def)
qed

lemma start_group_apply: "start_group cfg g (s, out) = (case work_from_planned_group cfg g s of
      Some work \<Rightarrow> (s, out @ [work])
    | None \<Rightarrow> (s\<lparr>ip_index := release_refs (map sl_wal_ref (pg_slices g)) (ip_now s) (ip_index s)\<rparr>, out))"
  by (simp add: start_group_def)

lemma start_groups_reserved:
  assumes "planner_ok s" "fold (start_group cfg) groups (s, out) = (s', out')"
    "\<forall>g\<in>set groups. \<forall>sl\<in>set (pg_slices g). slice_wf sl \<and> sl_group_key sl = pg_key g"
    "distinct (work_ids out @ map sl_id (planned_slices groups))"
    "\<forall>i\<in>set (work_ids out @ map sl_id (planned_slices groups)). state_of (ip_index s) i = Some Reserved"
  shows "distinct (work_ids out') \<and> (\<forall>i\<in>set (work_ids out'). state_of (ip_index s') i = Some Reserved)"
  using assms
proof (induction groups arbitrary: s out)
  case Nil
  then show ?case by (simp add: planned_slices_def)
next
  case (Cons g groups)
  have ids: "map sl_id (planned_slices (g # groups)) = map sl_id (pg_slices g) @ map sl_id (planned_slices groups)"
    by (simp add: planned_slices_def)
  show ?case
  proof (cases "work_from_planned_group cfg g s")
    case None
    let ?s = "s\<lparr>ip_index := release_refs (map sl_wal_ref (pg_slices g)) (ip_now s) (ip_index s)\<rparr>"
    have ok: "planner_ok ?s" using Cons.prems(1) by (auto simp: planner_ok_def intro: release_refs_good(1) sat_intros)
    have "slice_id_from_wal_ref ` set (map sl_wal_ref (pg_slices g)) = sl_id ` set (pg_slices g)"
      using Cons.prems(3) by (auto simp: slice_wf_def image_iff)
    moreover have "i \<notin> sl_id ` set (pg_slices g)" if "i \<in> set (work_ids out @ map sl_id (planned_slices groups))" for i
      using that Cons.prems(4) unfolding ids by auto
    ultimately have "\<forall>i\<in>set (work_ids out @ map sl_id (planned_slices groups)). state_of (ip_index ?s) i = Some Reserved"
      using release_refs_others Cons.prems(1,5) unfolding ids planner_ok_def by fastforce
    moreover have "fold (start_group cfg) groups (?s, out) = (s', out')" 
      using Cons.prems(2) None by (simp add: start_group_apply)
    moreover have "distinct (work_ids out @ map sl_id (planned_slices groups))" using Cons.prems(4) unfolding ids by auto
    moreover have "\<forall>g\<in>set groups. \<forall>sl\<in>set (pg_slices g). slice_wf sl \<and> sl_group_key sl = pg_key g" using Cons.prems(3) by simp
    ultimately show ?thesis using Cons.IH[OF ok] by blast
  next
    case (Some w)
    have "map slice_id_from_wal_ref (ct_refs (cwk_txn w)) = map sl_id (pg_slices g)" 
      using planned_work_spec[OF Some] Cons.prems(3) by (meson list.set_intros(1))
    then have wi: "work_ids (out @ [w]) @ map sl_id (planned_slices groups) = work_ids out @ map sl_id (planned_slices (g # groups))"
      by (simp add: work_ids_def ids)
    have "fold (start_group cfg) groups (s, out @ [w]) = (s', out')" using Cons.prems(2) Some by (simp add: start_group_apply)
    from Cons.IH[OF Cons.prems(1) this] show ?thesis using Cons.prems(3-5) unfolding wi by simp
  qed
qed

lemma count_ready_reserved:
  assumes "planner_ok s" "state_of (ip_index s) i = Some Reserved"
  shows "state_of (ip_index (fst (count_ready cfg force limit s))) i = Some Reserved"
proof -
  have "promotes {} (ip_index s) (promote_due now (ip_index s))" for now
    using promote_due_good[of "{}" "ip_index s" now] assms(1) by (simp add: planner_ok_def)
  then show ?thesis using assms(2) unfolding promotes_def count_ready_def reclaimable_slice_count_def Let_def
    by (auto simp: case_prod_beta) (metis SliceState.distinct option.inject)+
qed

section \<open>Works of resumed manifests\<close>

definition work_txn_id :: "CompactionWork \<Rightarrow> string" where
  "work_txn_id w = ct_id (cwk_txn w)"

definition txn_reserved :: "ingest_planner \<Rightarrow> string \<Rightarrow> bool" where
  "txn_reserved s t \<longleftrightarrow> (\<exists>r. fmlookup (mi_records (ci_manifests (ip_index s))) t = Some r \<and> mr_reserved r)"

lemma work_from_manifest_txn:
  assumes "planner_ok s" "work_from_manifest cfg txn s = (s', w)"
  shows "ci_manifests (ip_index s') = ci_manifests (ip_index s) \<and> (\<forall>work. w = Some work \<longrightarrow> work_txn_id work = ct_id txn)"
proof -
  have "ci_manifests (fst (complete_refs refs (ip_index s))) = ci_manifests (ip_index s)" for refs
    using remove_slices_good(3)[of "{}" "ip_index s"] assms(1) by (simp add: complete_refs_def planner_ok_def)
  then show ?thesis using assms(2)
    by (auto simp: work_from_manifest_def patch_manifest_semantics_def Let_def work_txn_id_def split: if_splits option.splits)
qed

lemma resume_manifest_apply: "resume_manifest cfg x (s, out) = (case work_from_manifest cfg (rm_txn x) s of
      (s1, Some work) \<Rightarrow> (s1, out @ [work])
    | (s1, None) \<Rightarrow> (s1\<lparr>ip_index := release_manifest (ct_id (rm_txn x)) (ip_index s1)\<rparr>, out))"
  by (simp add: resume_manifest_def)

lemma resume_manifests_reserved:
  assumes "planner_ok s" "fold (resume_manifest cfg) pending (s, out) = (s', out')"
    "distinct (map work_txn_id out @ map res_id pending)" "\<forall>t\<in>set (map work_txn_id out @ map res_id pending). txn_reserved s t"
  shows "distinct (map work_txn_id out') \<and> (\<forall>t\<in>set (map work_txn_id out'). txn_reserved s' t)"
  using assms
proof (induction pending arbitrary: s out)
  case (Cons x pending)
  obtain s1 w where f: "work_from_manifest cfg (rm_txn x) s = (s1, w)" by force
  note k = work_from_manifest_ok[OF Cons.prems(1) f] work_from_manifest_txn[OF Cons.prems(1) f]
  then have r: "txn_reserved s1 t = txn_reserved s t" for t by (simp add: txn_reserved_def)
  show ?case
  proof (cases w)
    case None
    let ?s = "s1\<lparr>ip_index := release_manifest (ct_id (rm_txn x)) (ip_index s1)\<rparr>"
    have ok: "planner_ok ?s" using k by (auto simp: planner_ok_def intro: release_manifest_good(1) sat_intros)
    have eq: "fold (resume_manifest cfg) pending (?s, out) = (s', out')" using Cons.prems(2) f None by (simp add: resume_manifest_apply)
    have other: "txn_reserved ?s t = txn_reserved s t" if "t \<noteq> res_id x" for t
      using that r[of t] by (auto simp: txn_reserved_def res_id_def release_manifest_def mi_release_def split: option.splits)
    have "txn_reserved ?s t" if "t \<in> set (map work_txn_id out @ map res_id pending)" for t
    proof -
      have "t \<noteq> res_id x" using that Cons.prems(3) by auto
      then show ?thesis using other[of t] that Cons.prems(4) by auto
    qed
    then have "\<forall>t\<in>set (map work_txn_id out @ map res_id pending). txn_reserved ?s t" by blast
    then show ?thesis using Cons.IH[OF ok eq] Cons.prems(3) by auto
  next
    case (Some work)
    have eq: "fold (resume_manifest cfg) pending (s1, out @ [work]) = (s', out')" using Cons.prems(2) f Some by (simp add: resume_manifest_apply)
    have "work_txn_id work = res_id x" using k Some by (simp add: res_id_def)
    then show ?thesis using Cons.IH[OF _ eq] k Cons.prems(3,4) r by auto
  qed
qed simp

lemma count_ready_txn_reserved:
  assumes "planner_ok s"
  shows "txn_reserved (fst (count_ready cfg force limit s)) t = txn_reserved s t"
proof -
  have "keeps (ip_index s) (promote_due now (ip_index s))" for now
    using promote_due_good[of "{}" "ip_index s" now] assms by (simp add: planner_ok_def promotes_def)
  then show ?thesis by (simp add: txn_reserved_def count_ready_def reclaimable_slice_count_def Let_def keeps_def)
qed

section \<open>What a call of the planner offers\<close>

text \<open>The two outcomes of a call: works of freshly planned groups, whose slices are reserved, or works
  resumed from manifests, whose transactions are reserved.\<close>

lemma next_offers:
  assumes "planner_ok s" "config_ok cfg" "next_compaction_transactions cfg limit force active blocked s = (s', works)"
  shows "planner_ok s' \<and> length works \<le> limit \<and> (\<forall>w\<in>set works. work_lane w \<notin> blocked)
    \<and> (distinct (work_ids works) \<and> (\<forall>i\<in>set (work_ids works). state_of (ip_index s') i = Some Reserved)
       \<or> distinct (map work_txn_id works) \<and> (\<forall>w\<in>set works. txn_reserved s' (work_txn_id w)))"
proof -
  let ?per = "max (pc_per_sink_limit cfg) 1" and ?s0 = "hydrate_planner cfg s"
  have ok0: "planner_ok ?s0" by (rule hydrate_planner_ok[OF assms(1,2)])
  obtain c1 pending where r: "reserve_ready_manifests limit ?per (ip_now s) (pc_sent_stale_secs cfg) active blocked (ip_index ?s0) = (c1, pending)" by force
  obtain s1 out where f: "fold (resume_manifest cfg) pending (?s0\<lparr>ip_index := c1\<rparr>, []) = (s1, out)" by force
  have ok1: "planner_ok (?s0\<lparr>ip_index := c1\<rparr>)"
    using ok0 reserve_manifests_good(1)[of "ip_index ?s0" limit ?per "ip_now s" "pc_sent_stale_secs cfg" active blocked]
      reserve_manifests_sat[of slice_wf "ip_index ?s0" limit ?per "ip_now s" "pc_sent_stale_secs cfg" active blocked] r
    by (simp add: planner_ok_def)
  have "minv (ci_manifests (ip_index ?s0))" using ok0 by (simp add: planner_ok_def good_def)
  moreover obtain m where "reserve_ready limit ?per (ip_now s) (pc_sent_stale_secs cfg) active blocked (ci_manifests (ip_index ?s0)) = (m, pending)"
    using r by (auto simp: reserve_ready_manifests_def Let_def split: prod.splits)
  moreover from this have "ci_manifests c1 = m" using r by (auto simp: reserve_ready_manifests_def Let_def)
  ultimately have p: "length pending \<le> limit" "\<forall>x\<in>set pending. reserved_from (ip_now s) (pc_sent_stale_secs cfg) blocked (ci_manifests (ip_index ?s0)) x"
    "distinct (map res_id pending)" "\<forall>x\<in>set pending. txn_reserved (?s0\<lparr>ip_index := c1\<rparr>) (res_id x)"
    using reserve_ready_inv unfolding rsv_inv_def txn_reserved_def by fastforce+
  then have lanes: "\<forall>x\<in>set pending. txn_lane (rm_txn x) \<notin> blocked"
    unfolding reserved_from_def by (force simp: txn_lane_def)
  note man = resume_manifests_ok[OF ok1 f _ lanes]
  have resv: "distinct (map work_txn_id out)" "\<forall>t\<in>set (map work_txn_id out). txn_reserved s1 t"
    using resume_manifests_reserved[OF ok1 f] p(3,4) by auto
  have n: "next_compaction_transactions cfg limit force active blocked s = (if out \<noteq> [] then (fst (count_ready cfg force usize_max s1), out)
     else case plan_ready (pc_order cfg) limit force (ip_now s) (pc_byte_threshold cfg) (pc_time_threshold cfg) (pc_target_bytes cfg)
              (pc_max_parts cfg) ?per active blocked (ip_index s1) of
       None \<Rightarrow> (s1, [])
     | Some (c2, plan) \<Rightarrow> (let (s2, works) = fold (start_group cfg) (cp_groups plan) (s1\<lparr>ip_index := c2\<rparr>, [])
         in (fst (count_ready cfg force usize_max s2), works)))"
    unfolding next_compaction_transactions_def Let_def r prod.case f by (rule refl)
  show ?thesis
  proof (cases "out = []")
    case False
    then have "s' = fst (count_ready cfg force usize_max s1)" "works = out" using assms(3) n by auto
    then show ?thesis using man p(1) resv count_ready_ok[of s1] count_ready_txn_reserved[of s1] by auto
  next
    case True
    have ok: "planner_ok s1" using man by simp
    obtain c2 plan sched where pl: "plan_ready (pc_order cfg) limit force (ip_now s) (pc_byte_threshold cfg) (pc_time_threshold cfg)
        (pc_target_bytes cfg) (pc_max_parts cfg) ?per active blocked (ip_index s1) = Some (c2, plan)"
      and inv: "plan_inv limit (pc_max_parts cfg) (pc_target_bytes cfg) ?per blocked (active_counts_by_sink active)
        (prepare_plan (pc_order cfg) force (ip_now s) (pc_byte_threshold cfg) (pc_time_threshold cfg) (ip_index s1)) sched (cp_groups plan) c2"
      using plan_ready_inv[of "ip_index s1" "pc_order cfg" "pc_max_parts cfg"] ok assms(2) unfolding planner_ok_def config_ok_def by blast
    let ?c0 = "prepare_plan (pc_order cfg) force (ip_now s) (pc_byte_threshold cfg) (pc_time_threshold cfg) (ip_index s1)"
    note i = inv[unfolded plan_inv_def]
    obtain s2 ws where g: "fold (start_group cfg) (cp_groups plan) (s1\<lparr>ip_index := c2\<rparr>, []) = (s2, ws)" by force
    have res: "s' = fst (count_ready cfg force usize_max s2)" "works = ws" using assms(3) n True pl g by auto
    have "slices_sat slice_wf c2" using plan_ready_sat[OF _ _ _ _ pl] ok assms(2) by (auto simp: planner_ok_def config_ok_def)
    moreover have keep: "known c2 = known ?c0" "slice_of c2 = slice_of ?c0" using i by (auto simp: keeps_def)
    ultimately have wf: "slice_wf sl \<and> sl_group_key sl = pg_key gr" if "gr \<in> set (cp_groups plan)" "sl \<in> set (pg_slices gr)" for gr sl
    proof -
      have "state_of ?c0 (sl_id sl) = Some Ready" "slice_of ?c0 (sl_id sl) = sl" "sl_group_key sl = pg_key gr"
        using i that unfolding group_ok_def by blast+
      moreover from this have "sl_id sl \<in> known c2" using state_of_known keep(1) by blast
      ultimately show ?thesis using slices_satD[OF \<open>slices_sat slice_wf c2\<close>, of "sl_id sl"] keep(2) by simp
    qed
    have ok2: "planner_ok (s1\<lparr>ip_index := c2\<rparr>)" using i \<open>slices_sat slice_wf c2\<close> by (simp add: planner_ok_def)
    have "\<forall>gr\<in>set (cp_groups plan). \<forall>w s. work_from_planned_group cfg gr s = Some w \<longrightarrow> work_lane w \<notin> blocked"
      using planned_work_spec wf i unfolding group_ok_def by fastforce
    from start_groups_ok[OF ok2 g this] have st: "planner_ok s2" "length ws \<le> length (cp_groups plan)" "\<forall>w\<in>set ws. work_lane w \<notin> blocked" by auto
    have "distinct (work_ids [] @ map sl_id (planned_slices (cp_groups plan)))"
      "\<forall>j\<in>set (work_ids [] @ map sl_id (planned_slices (cp_groups plan))). state_of (ip_index (s1\<lparr>ip_index := c2\<rparr>)) j = Some Reserved"
      using i by (auto simp: work_ids_def sel_ids_def)
    from start_groups_reserved[OF ok2 g _ this] wf have "distinct (work_ids ws)" "\<forall>j\<in>set (work_ids ws). state_of (ip_index s2) j = Some Reserved" by blast+
    then show ?thesis using res st i count_ready_ok[of s2] count_ready_reserved[OF st(1)] by auto
  qed
qed

lemma cycle_planner_spec:
  assumes "planner_ok s" "config_ok cfg" "cycle_planner cfg slots force active blocked s = (s', batch)"
  shows "planner_ok s' \<and> length (pb_works batch) \<le> slots \<and> (\<forall>w\<in>set (pb_works batch). work_lane w \<notin> blocked)"
proof -
  obtain s1 works where n: "next_compaction_transactions cfg slots force active blocked s = (s1, works)" by force
  have "s' = fst (has_ready_compaction_work cfg force s1)" "pb_works batch = works"
    using assms(3) n by (auto simp: cycle_planner_def split: prod.splits)
  then show ?thesis using next_offers[OF assms(1,2) n] count_ready_ok[OF hydrate_planner_ok[of s1 cfg]] assms(2)
    by (auto simp: has_ready_compaction_work_def case_prod_beta)
qed

section \<open>The planner meets the scheduler's contract\<close>

definition drop_reservation :: "CompactionTransaction \<Rightarrow> ingest_planner \<Rightarrow> ingest_planner" where
  "drop_reservation txn s = s\<lparr>ip_index := release_manifest (ct_id txn) (release_refs (ct_refs txn) (ip_now s) (ip_index s))\<rparr>"

text \<open>The states the planner can be in: a start with nothing cached, then in any order registrations,
  removals, hydrations, calls of the planner, returned reservations, persisted and removed
  compaction rows, completed references, and changes of the clock, the catalog and the works in
  flight.\<close>

definition ingest_start :: "Inner \<Rightarrow> ingest_planner" where
  "ingest_start bodies = \<lparr>ip_cache = fmempty, ip_bodies = bodies, ip_index = index_default, ip_in_flight = {}, ip_done = (\<lambda>_ _. False),
     ip_catalog = None, ip_now = 0\<rparr>"

inductive ingest_reachable :: "planner_config \<Rightarrow> ingest_planner \<Rightarrow> bool" for cfg where
  reach_start: "ingest_reachable cfg (ingest_start bodies)"
| reach_register: "ingest_reachable cfg s \<Longrightarrow> ingest_reachable cfg (segment_cache_register cfg source m s)"
| reach_remove: "ingest_reachable cfg s \<Longrightarrow> ingest_reachable cfg (segment_cache_remove sid s)"
| reach_hydrate: "ingest_reachable cfg s \<Longrightarrow> ingest_reachable cfg (hydrate_from_catalog cfg view s)"
| reach_plan: "ingest_reachable cfg s \<Longrightarrow> cycle_planner cfg slots force active blocked s = (s', batch) \<Longrightarrow> ingest_reachable cfg s'"
| reach_release: "ingest_reachable cfg s \<Longrightarrow> ingest_reachable cfg (drop_reservation txn s)"
| reach_persist: "ingest_reachable cfg s \<Longrightarrow> ingest_reachable cfg (s\<lparr>ip_index := upsert_manifest clock txn (ip_index s)\<rparr>)"
| reach_forget: "ingest_reachable cfg s \<Longrightarrow> ingest_reachable cfg (s\<lparr>ip_index := remove_manifest tid (ip_now s) (ip_index s)\<rparr>)"
| reach_complete: "ingest_reachable cfg s \<Longrightarrow> ingest_reachable cfg (s\<lparr>ip_index := fst (complete_refs refs (ip_index s))\<rparr>)"
| reach_outside: "ingest_reachable cfg s \<Longrightarrow>
    ingest_reachable cfg (s\<lparr>ip_in_flight := f, ip_done := dn, ip_catalog := v, ip_now := now, ip_bodies := b\<rparr>)"

lemma ingest_reachable_ok: "ingest_reachable cfg s \<Longrightarrow> config_ok cfg \<Longrightarrow> planner_ok s"
proof (induction rule: ingest_reachable.induct)
  case (reach_start bodies)
  show ?case by (simp add: planner_ok_def ingest_start_def index_default_good slices_sat_def) (simp add: index_default_def)
next
  case (reach_remove s sid)
  then show ?case by (auto simp: planner_ok_def segment_cache_remove_def intro: remove_segment_good(1) sat_intros)
next
  case (reach_release s txn)
  then show ?case by (auto simp: planner_ok_def drop_reservation_def intro!: release_manifest_good(1) release_refs_good(1) sat_intros)
next
  case (reach_persist s clock txn)
  then show ?case by (auto simp: planner_ok_def intro: upsert_good(1) sat_intros)
next
  case (reach_forget s tid)
  then show ?case by (auto simp: planner_ok_def intro: remove_manifest_good(1) sat_intros)
next
  case (reach_complete s refs)
  then show ?case by (auto simp: planner_ok_def intro: complete_refs_good(1) sat_intros)
next
  case (reach_outside s f dn v now b)
  then show ?case by (simp add: planner_ok_def)
qed (auto simp: register_ok hydrate_from_catalog_ok dest: cycle_planner_spec)

abbreviation planner_reachable :: "planner_config \<Rightarrow> ingest_planner \<Rightarrow> bool" where
  "planner_reachable cfg s \<equiv> config_ok cfg \<and> ingest_reachable cfg s"

interpretation cycle: compaction_planner work_lane "cycle_planner cfg" "planner_reachable cfg" for cfg
proof
  fix p p' :: ingest_planner and slots force active blocked batch
  assume r: "planner_reachable cfg p" and c: "cycle_planner cfg slots force active blocked p = (p', batch)"
  then show "planner_reachable cfg p'" by (auto intro: reach_plan)
  have "planner_ok p" "config_ok cfg" using r ingest_reachable_ok by blast+
  note sp = cycle_planner_spec[OF this c]
  from sp show "length (pb_works batch) \<le> slots" by simp
  fix w assume "w \<in> set (pb_works batch)"
  then show "work_lane w \<notin> blocked" using sp by simp
qed

section \<open>Hydration\<close>

lemma hydrate_stale_cache: "fmlookup (ip_cache (fold hydrate_stale ids s)) i = (if i \<in> set ids then None else fmlookup (ip_cache s) i)"
  by (induction ids arbitrary: s) (auto simp: hydrate_stale_def)

definition row_admitted :: "planner_config \<Rightarrow> hydrate_row \<Rightarrow> SegmentFileMetadata \<Rightarrow> bool" where
  "row_admitted cfg row m \<longleftrightarrow> location_matches_layer (pc_storage cfg) (hr_location row) \<and> hr_meta row = Inr m"

lemma hydrate_admit_cache:
  assumes "source_segment_id (source_of_location (hr_location row)) = hr_segment_id row"
  shows "row_admitted cfg row m \<Longrightarrow> ip_cache (hydrate_admit cfg row s)
      = fmupd (hr_segment_id row) \<lparr>cg_source = source_of_location (hr_location row), cg_meta = m\<rparr> (ip_cache s)"
    "\<forall>m. \<not> row_admitted cfg row m \<Longrightarrow> ip_cache (hydrate_admit cfg row s) = ip_cache s"
  using assms by (auto simp: row_admitted_def hydrate_admit_def segment_cache_register_def Let_def split: sum.split)

lemma hydrate_admits_cache:
  assumes "\<forall>row\<in>set rows. source_segment_id (source_of_location (hr_location row)) = hr_segment_id row" "distinct (map hr_segment_id rows)"
  shows "(\<forall>row\<in>set rows. \<forall>m. row_admitted cfg row m \<longrightarrow> fmlookup (ip_cache (fold (hydrate_admit cfg) rows s)) (hr_segment_id row)
        = Some \<lparr>cg_source = source_of_location (hr_location row), cg_meta = m\<rparr>)
    \<and> (\<forall>i. i \<notin> hr_segment_id ` set rows \<longrightarrow> fmlookup (ip_cache (fold (hydrate_admit cfg) rows s)) i = fmlookup (ip_cache s) i)"
  using assms
proof (induction rows arbitrary: s)
  case (Cons row rows)
  let ?s = "hydrate_admit cfg row s"
  have src: "source_segment_id (source_of_location (hr_location row)) = hr_segment_id row" using Cons.prems(1) by simp
  have other: "fmlookup (ip_cache ?s) i = fmlookup (ip_cache s) i" if "i \<noteq> hr_segment_id row" for i
    using hydrate_admit_cache[OF src, where cfg = cfg and s = s] that by (cases "\<exists>m. row_admitted cfg row m") auto
  have new: "hr_segment_id row \<notin> hr_segment_id ` set rows" using Cons.prems(2) by auto
  note ih = Cons.IH[of ?s]
  have "fmlookup (ip_cache (fold (hydrate_admit cfg) rows ?s)) (hr_segment_id row) = Some \<lparr>cg_source = source_of_location (hr_location row), cg_meta = m\<rparr>"
    if "row_admitted cfg row m" for m
    using ih Cons.prems new hydrate_admit_cache(1)[OF src that, of s] by simp
  then show ?case using ih Cons.prems other by auto
qed simp

section \<open>A concrete planner\<close>

definition sample_cfg :: planner_config where
  "sample_cfg = \<lparr>pc_order = sorted_order, pc_storage = StorageDisk, pc_byte_threshold = 16, pc_time_threshold = 60, pc_target_bytes = 64,
     pc_max_parts = 4, pc_sent_stale_secs = 300, pc_per_sink_limit = 2,
     pc_pipeline = Inr \<lparr>tenant = ''t'', workspace = ''w'', pipeline = ''p''\<rparr>, pc_capability = (\<lambda>_. None), pc_metadata = fmempty,
     pc_sha_hex = (\<lambda>_. ''00''), pc_urlencode = concat \<circ> map fst\<rparr>"

definition sample_row :: hydrate_row where
  "sample_row = \<lparr>hr_segment_id = ''a'', hr_location = Disk ''/wal/a.seg'', hr_meta = Inr \<lparr>sm_created_at_secs = 1, sm_total_bytes = 8,
     sm_num_partitions = 0, sm_offsets = Map.empty, sm_index = [], sm_body_sha256 = []\<rparr>\<rparr>"

lemma sample_cfg_ok: "config_ok sample_cfg"
  by (simp add: config_ok_def sample_cfg_def)

abbreviation sample_start :: ingest_planner where
  "sample_start \<equiv> ingest_start (inner_new_autotuned (Some 0))"

lemma sample_start_reachable: "ingest_reachable sample_cfg sample_start"
  by (rule reach_start)

section \<open>Properties\<close>







text \<open>C17. The scheduler is work conserving over the real planner: the top-up at the head of an iteration
  starts works in unblocked lanes only, and it leaves a slot free only when the cycle is stopping or
  about to retune, or when the planner, asked for exactly the free slots, had nothing to offer.\<close>

theorem compaction_cycle_work_conserving:
  assumes "config_ok cfg" "ingest_reachable cfg s"
    "drive_run work_lane concurrency initial_force (cycle_planner cfg) (planner_reachable cfg) (drive_start s control) started log d"
  shows "let d1 = loop_head work_lane concurrency initial_force (cycle_planner cfg) d in
    (\<exists>ws. dr_in_flight d1 = dr_in_flight d @ ws \<and> (\<forall>w\<in>set ws. \<forall>u. (u, False) \<in> set log \<longrightarrow> work_lane u \<noteq> work_lane w))
    \<and> (length (dr_in_flight d1) = max concurrency 1 \<or> drive_stopping d \<or> dr_retune d
       \<or> (\<exists>q batch. ingest_reachable cfg q \<and> pb_works batch = []
           \<and> cycle_planner cfg (max concurrency 1 - length (dr_in_flight d1)) (drive_force initial_force d) (dr_active d1) (dr_blocked d) q
               = (dr_planner d1, batch)))"
proof -
  have "cycle.run_inv cfg (max concurrency 1) [] [] (drive_start s control)" using assms(1,2) cycle.run_inv_start by simp
  note inv = cycle.drive_run_inv[OF assms(3) this]
  let ?d = "loop_head work_lane concurrency initial_force (cycle_planner cfg) d"
  obtain ws where ws: "dr_in_flight ?d = dr_in_flight d @ ws" "\<forall>w\<in>set ws. work_lane w \<notin> dr_blocked d"
    using cycle.loop_head_topped[OF inv] unfolding cycle.topped_def by blast
  moreover have "dr_blocked d = {work_lane w | w. (w, False) \<in> set log}" using inv by (simp add: cycle.run_inv_def)
  ultimately have 1: "\<exists>ws. dr_in_flight ?d = dr_in_flight d @ ws \<and> (\<forall>w\<in>set ws. \<forall>u. (u, False) \<in> set log \<longrightarrow> work_lane u \<noteq> work_lane w)" by auto
  have 2: "cycle.exhausted cfg (max concurrency 1) initial_force d ?d" if "\<not> drive_stopping d" "\<not> dr_retune d"
    using that inv cycle.top_up_topped[of cfg d "max concurrency 1" initial_force] by (simp add: loop_head_def cycle.run_inv_def)
  show ?thesis using 1 2 unfolding Let_def cycle.exhausted_def by blast
qed

theorem compaction_cycle_work_conserving_witness:
  "let d1 = loop_head work_lane 3 True (cycle_planner sample_cfg) (drive_start sample_start None) in
     length (dr_in_flight d1) = 3 \<or> (\<exists>q batch. pb_works batch = []
       \<and> cycle_planner sample_cfg (3 - length (dr_in_flight d1)) True (dr_active d1) {} q = (dr_planner d1, batch))"
  using compaction_cycle_work_conserving[OF sample_cfg_ok sample_start_reachable run_start, where concurrency = 3 and initial_force = True and control = None]
  by (auto simp: Let_def drive_start_def drive_stopping_def drive_force_def)




text \<open>Hydration brings the memory of the planner in line with the catalog: afterwards only live
  segments are cached and indexed, and every live segment whose payload belongs to the storage
  layer and whose index could be read is cached under its id with that index. It presumes that
  a payload is named after its segment and that the catalog lists a segment once.\<close>

theorem hydrate_from_catalog_live:
  assumes "config_ok cfg" "ingest_reachable cfg s" "cv_rows view = Some rows" "distinct (map hr_segment_id rows)"
    "\<forall>row\<in>set rows. source_segment_id (source_of_location (hr_location row)) = hr_segment_id row"
  shows "let s' = hydrate_from_catalog cfg view s; live = hr_segment_id ` set rows in
    fmdom' (ip_cache s') \<subseteq> live \<and> si_segment_id ` known (ip_index s') \<subseteq> live
    \<and> (\<forall>row\<in>set rows. \<forall>m. location_matches_layer (pc_storage cfg) (hr_location row) \<and> hr_meta row = Inr m \<longrightarrow>
        fmlookup (ip_cache s') (hr_segment_id row) = Some \<lparr>cg_source = source_of_location (hr_location row), cg_meta = m\<rparr>)"
proof -
  let ?live = "hr_segment_id ` set rows"
  define s1 where "s1 = fold hydrate_stale (ho_names (pc_order cfg) (fmdom' (ip_cache s) - ?live)) s"
  define s2 where "s2 = fold (hydrate_admit cfg) rows s1"
  have h: "hydrate_from_catalog cfg view s = s2\<lparr>ip_index := install_manifests (pc_order cfg) (hydrate_manifests (cv_txns view))
      (drop_segments_not_in (pc_order cfg) ?live (ip_index s2))\<rparr>"
    using assms(3) by (simp add: hydrate_from_catalog_def Let_def s1_def s2_def)
  have ho: "hash_order_ok (pc_order cfg)" using assms(1) by (simp add: config_ok_def)
  then have names: "set (ho_names (pc_order cfg) (fmdom' (ip_cache s) - ?live)) = fmdom' (ip_cache s) - ?live"
    by (simp add: hash_order_ok_def)
  have "planner_ok s" using assms(1,2) by (rule ingest_reachable_ok[rotated])
  then have "planner_ok s1" unfolding s1_def by (rule fold_keeps[rotated]) (auto simp: planner_ok_def hydrate_stale_def)
  then have "planner_ok s2" unfolding s2_def by (rule fold_keeps[rotated]) (rule hydrate_admit_ok[OF _ assms(1)])
  then have g: "good {} {} (ip_index s2)" by (simp add: planner_ok_def)
  note admits = hydrate_admits_cache[OF assms(5,4), of cfg s1, folded s2_def]
  have "known (ip_index (hydrate_from_catalog cfg view s)) = {i \<in> known (ip_index s2). si_segment_id i \<in> ?live}"
    unfolding h using install_good(2)[OF drop_segments_good(1)[OF g ho] ho] drop_segments_good(2)[OF g ho] by simp
  moreover have "fmdom' (ip_cache s2) \<subseteq> ?live"
  proof
    fix i assume i: "i \<in> fmdom' (ip_cache s2)"
    show "i \<in> ?live"
    proof (rule ccontr)
      assume n: "i \<notin> ?live"
      then have "fmlookup (ip_cache s1) i \<noteq> None" using i admits by (simp add: fmlookup_dom'_iff)
      then show False using n names unfolding s1_def hydrate_stale_cache by (auto simp: fmlookup_dom'_iff split: if_splits)
    qed
  qed
  ultimately show ?thesis using admits unfolding h Let_def row_admitted_def by auto
qed

theorem hydrate_from_catalog_live_witness:
  "fmlookup (ip_cache (hydrate_from_catalog sample_cfg \<lparr>cv_rows = Some [sample_row], cv_txns = Inr []\<rparr> sample_start)) ''a'' \<noteq> None"
proof -
  have "source_segment_id (source_of_location (hr_location sample_row)) = hr_segment_id sample_row"
    by (simp add: sample_row_def file_stem_def file_name_def rsplit_once_def)
  then show ?thesis
    using hydrate_from_catalog_live[OF sample_cfg_ok sample_start_reachable, of "\<lparr>cv_rows = Some [sample_row], cv_txns = Inr []\<rparr>" "[sample_row]"]
    by (auto simp: Let_def sample_row_def sample_cfg_def)
qed

end
