(* ===== verification/Catalog_Outbox.thy ===== *)
theory Catalog_Outbox
  imports Offset_Store
begin

text \<open>
  The durable outbox of catalog intents (\<^verbatim>\<open>src/src/catalog_outbox.rs\<close>) and the intents themselves
  (\<^verbatim>\<open>src/src/runtime_plugins/protocol.rs\<close>): one JSON file per intent in the pending directory, and an index of
  the files in memory. JSON and SHA-256 are arguments, collected in \<open>outbox_env\<close>; the clock and the
  errors of the file system are arguments of the operations. The pending directory is a finite map
  from the stem of a \<^verbatim>\<open>.json\<close> file to its bytes; other files are never read. Beside the directory
  as the process sees it stand its contents at the last \<^verbatim>\<open>fsync\<close> and the renames and removals since, so
  that what a power loss may leave is part of the model. Error messages leave out the path of the file.
\<close>

section \<open>Intents\<close>

datatype CatalogIntentKind = UpsertPartition

record CatalogIntentIdentity =
  ci_sink_ref :: string
  ci_namespace :: string
  ci_kind :: CatalogIntentKind
  ci_key :: string

record GlueColumnIntent =
  gc_name :: string
  gc_type :: string
  gc_comment :: "string option"

definition from_glue_fields :: "string \<Rightarrow> string option \<Rightarrow> string option \<Rightarrow> GlueColumnIntent" where
  "from_glue_fields name ty comment = \<lparr>gc_name = name, gc_type = (case ty of Some t \<Rightarrow> t | None \<Rightarrow> ''string''), gc_comment = comment\<rparr>"

record GluePartitionCatalogIntentV1 =
  gp_version :: u32
  gp_region :: "string option"
  gp_catalog_id :: "string option"
  gp_database :: string
  gp_table :: string
  gp_partition_values :: "string list"
  gp_location :: string
  gp_storage_columns :: "GlueColumnIntent list"
  gp_partition_columns :: "GlueColumnIntent list"
  gp_input_format :: string
  gp_output_format :: string
  gp_serde_library :: string
  gp_schema_namespace :: string
  gp_schema_version :: u64

record CatalogIntent =
  in_version :: u32
  in_identity :: CatalogIntentIdentity
  in_payload :: GluePartitionCatalogIntentV1

definition CATALOG_INTENT_VERSION :: u32 where "CATALOG_INTENT_VERSION = 2"
definition GLUE_PARTITION_CATALOG_INTENT_VERSION :: u32 where "GLUE_PARTITION_CATALOG_INTENT_VERSION = 1"

definition is_admissible :: "CatalogIntent \<Rightarrow> bool" where
  "is_admissible intent = (let p = in_payload intent; i = in_identity intent in
     in_version intent = CATALOG_INTENT_VERSION
     \<and> trim (ci_namespace i) \<noteq> [] \<and> trim (ci_key i) \<noteq> []
     \<and> gp_version p = GLUE_PARTITION_CATALOG_INTENT_VERSION
     \<and> trim (gp_database p) \<noteq> [] \<and> trim (gp_table p) \<noteq> [] \<and> trim (gp_location p) \<noteq> []
     \<and> gp_schema_namespace p = ci_namespace i
     \<and> gp_partition_values p \<noteq> [] \<and> length (gp_partition_values p) = length (gp_partition_columns p)
     \<and> list_all (\<lambda>v. trim v \<noteq> []) (gp_partition_values p) \<and> list_all (\<lambda>c. trim (gc_name c) \<noteq> []) (gp_partition_columns p))"

section \<open>Entries and their files\<close>

definition CATALOG_OUTBOX_FORMAT_VERSION :: u32 where "CATALOG_OUTBOX_FORMAT_VERSION = 2"
definition MAX_ENTRY_BYTES :: nat where "MAX_ENTRY_BYTES = 1024 * 1024"

record PendingCatalogIntent =
  pi_id :: string
  pi_intent :: CatalogIntent
  pi_created_at_ms :: u64
  pi_updated_at_ms :: u64
  pi_attempts :: u32
  pi_next_attempt_at_ms :: u64
  pi_last_error :: "string option"
  pi_terminal :: bool

record CatalogOutboxEnvelope =
  ev_version :: u32
  ev_checksum_sha256 :: string
  ev_entry :: PendingCatalogIntent

record outbox_env =
  ox_json_identity :: "CatalogIntentIdentity \<Rightarrow> string + bytes"
  ox_json_intent :: "CatalogIntent \<Rightarrow> string + bytes"
  ox_json_entry :: "PendingCatalogIntent \<Rightarrow> string + bytes"
  ox_json_envelope :: "CatalogOutboxEnvelope \<Rightarrow> string + bytes"
  ox_parse_envelope :: "bytes \<Rightarrow> string + CatalogOutboxEnvelope"
  ox_sha :: "bytes \<Rightarrow> bytes"
  ox_sha_hex :: "bytes \<Rightarrow> string"

datatype ob_error = ObNotFound | ObInvalidData string | ObInvalidInput string | ObIo string

type_synonym pending_dir = "(string, bytes) fmap"

definition stable_intent_id :: "outbox_env \<Rightarrow> CatalogIntentIdentity \<Rightarrow> ob_error + string" where
  "stable_intent_id env identity = bindR (map_errR ObInvalidData (ox_json_identity env identity)) (\<lambda>bs. Inr (ox_sha_hex env bs))"

definition entry_generation :: "outbox_env \<Rightarrow> PendingCatalogIntent \<Rightarrow> ob_error + bytes" where
  "entry_generation env entry = bindR (map_errR ObInvalidData (ox_json_entry env entry)) (\<lambda>bs. Inr (ox_sha env bs))"

definition intent_generation :: "outbox_env \<Rightarrow> CatalogIntent \<Rightarrow> ob_error + bytes" where
  "intent_generation env intent = bindR (map_errR ObInvalidData (ox_json_intent env intent)) (\<lambda>bs. Inr (ox_sha env bs))"

definition entry_checksum :: "outbox_env \<Rightarrow> PendingCatalogIntent \<Rightarrow> ob_error + string" where
  "entry_checksum env entry = bindR (map_errR ObInvalidData (ox_json_entry env entry)) (\<lambda>bs. Inr (ox_sha_hex env bs))"

text \<open>\<open>read_entry\<close> on the file with the given stem. Each comparison of the validation that needs a
  serialization may fail with its error before a later one is made.\<close>

definition read_entry :: "outbox_env \<Rightarrow> pending_dir \<Rightarrow> string \<Rightarrow> ob_error + PendingCatalogIntent" where
  "read_entry env files stem = (case fmlookup files stem of
      None \<Rightarrow> Inl ObNotFound
    | Some bs \<Rightarrow>
       (if MAX_ENTRY_BYTES < length bs then Inl (ObInvalidData ''catalog outbox entry exceeds limit'')
        else bindR (map_errR (\<lambda>e. ObInvalidData (''corrupt catalog outbox entry: '' @ e)) (ox_parse_envelope env bs)) (\<lambda>ev.
          let invalid = Inl (ObInvalidData ''catalog outbox entry failed version, checksum, or identity validation'') in
          if ev_version ev \<noteq> CATALOG_OUTBOX_FORMAT_VERSION then invalid
          else bindR (entry_checksum env (ev_entry ev)) (\<lambda>sum.
            if sum \<noteq> ev_checksum_sha256 ev then invalid
            else bindR (stable_intent_id env (in_identity (pi_intent (ev_entry ev)))) (\<lambda>i.
              if i \<noteq> pi_id (ev_entry ev) \<or> stem \<noteq> pi_id (ev_entry ev) then invalid
              else Inr (ev_entry ev))))))"

text \<open>The file is written beside and renamed; \<open>fault\<close> is an error of any step up to the rename, after
  which the directory is as before.\<close>

definition write_entry_atomic_rename ::
  "outbox_env \<Rightarrow> string option \<Rightarrow> string \<Rightarrow> PendingCatalogIntent \<Rightarrow> pending_dir \<Rightarrow> ob_error + pending_dir"
where
  "write_entry_atomic_rename env fault stem entry files =
     bindR (entry_checksum env entry) (\<lambda>sum.
     bindR (map_errR ObInvalidData (ox_json_envelope env \<lparr>ev_version = CATALOG_OUTBOX_FORMAT_VERSION, ev_checksum_sha256 = sum, ev_entry = entry\<rparr>)) (\<lambda>bs.
       if MAX_ENTRY_BYTES < length bs then Inl (ObInvalidInput ''catalog outbox entry exceeds durable format limit'')
       else (case fault of Some e \<Rightarrow> Inl (ObIo e) | None \<Rightarrow> Inr (fmupd stem bs files))))"

section \<open>The index\<close>

record IndexedIntentMetadata =
  md_created_at_ms :: u64
  md_updated_at_ms :: u64
  md_next_attempt_at_ms :: u64
  md_terminal :: bool
  md_generation_sha256 :: bytes
  md_intent_sha256 :: bytes

definition metadata_from_entry :: "outbox_env \<Rightarrow> PendingCatalogIntent \<Rightarrow> ob_error + IndexedIntentMetadata" where
  "metadata_from_entry env entry = bindR (entry_generation env entry) (\<lambda>g. bindR (intent_generation env (pi_intent entry)) (\<lambda>i.
     Inr \<lparr>md_created_at_ms = pi_created_at_ms entry, md_updated_at_ms = pi_updated_at_ms entry, md_next_attempt_at_ms = pi_next_attempt_at_ms entry,
       md_terminal = pi_terminal entry, md_generation_sha256 = g, md_intent_sha256 = i\<rparr>))"

record OutboxIndex =
  ox_entries :: "(string, IndexedIntentMetadata) fmap"
  ox_due :: "(u64 \<times> string) set"
  ox_created :: "(u64 \<times> string) set"
  ox_terminal_count :: nat
  ox_oldest_created_at_ms :: "u64 option"
  ox_directory_sync_required :: bool

definition outbox_index_default :: OutboxIndex where
  "outbox_index_default = \<lparr>ox_entries = fmempty, ox_due = {}, ox_created = {}, ox_terminal_count = 0, ox_oldest_created_at_ms = None,
     ox_directory_sync_required = False\<rparr>"

definition first_created :: "(u64 \<times> string) set \<Rightarrow> u64 option" where
  "first_created s = (if s = {} then None else Some (fst (Min s)))"

definition index_remove :: "string \<Rightarrow> OutboxIndex \<Rightarrow> OutboxIndex" where
  "index_remove i ix = (case fmlookup (ox_entries ix) i of
      None \<Rightarrow> ix
    | Some m \<Rightarrow>
        (let ix1 = ix\<lparr>ox_entries := fmdrop i (ox_entries ix)\<rparr>;
             ix2 = (if md_terminal m then ix1\<lparr>ox_terminal_count := ox_terminal_count ix1 - 1\<rparr>
                    else ix1\<lparr>ox_due := ox_due ix1 - {(md_next_attempt_at_ms m, i)}\<rparr>);
             ix3 = ix2\<lparr>ox_created := ox_created ix2 - {(md_created_at_ms m, i)}\<rparr>
         in ix3\<lparr>ox_oldest_created_at_ms := first_created (ox_created ix3)\<rparr>))"

definition index_upsert :: "string \<Rightarrow> IndexedIntentMetadata \<Rightarrow> OutboxIndex \<Rightarrow> OutboxIndex" where
  "index_upsert i m ix =
     (let ix0 = index_remove i ix;
          ix1 = (if md_terminal m then ix0\<lparr>ox_terminal_count := ox_terminal_count ix0 + 1\<rparr>
                 else ix0\<lparr>ox_due := insert (md_next_attempt_at_ms m, i) (ox_due ix0)\<rparr>);
          ix2 = ix1\<lparr>ox_created := insert (md_created_at_ms m, i) (ox_created ix1)\<rparr>;
          ix3 = ix2\<lparr>ox_entries := fmupd i m (ox_entries ix2)\<rparr>
      in ix3\<lparr>ox_oldest_created_at_ms := first_created (ox_created ix3)\<rparr>)"

text \<open>\<open>String::from(char::MAX)\<close>.\<close>

definition CHAR_MAX_STR :: string where "CHAR_MAX_STR = [CHR 0xF4, CHR 0x8F, CHR 0xBF, CHR 0xBF]"

definition due_range :: "u64 \<Rightarrow> OutboxIndex \<Rightarrow> (u64 \<times> string) list" where
  "due_range now ix = filter (\<lambda>x. x \<le> (now, CHAR_MAX_STR)) (sorted_list_of_set (ox_due ix))"

definition due_ids :: "u64 \<Rightarrow> nat \<Rightarrow> OutboxIndex \<Rightarrow> string list" where
  "due_ids now limit ix = map snd (take limit (due_range now ix))"

section \<open>The outbox\<close>

text \<open>The directory: what the process reads, what the last \<^verbatim>\<open>fsync\<close> of it made durable, and the renames
  (\<open>Some\<close>) and removals (\<open>None\<close>) since then.\<close>

record pending_disk =
  ob_files :: pending_dir
  ob_synced :: pending_dir
  ob_unsynced :: "(string \<times> bytes option) list"

record outbox = pending_disk +
  ob_index :: OutboxIndex

definition dir_change :: "string \<Rightarrow> pending_dir \<Rightarrow> outbox \<Rightarrow> outbox" where
  "dir_change i files ob = ob\<lparr>ob_files := files, ob_unsynced := ob_unsynced ob @ [(i, fmlookup files i)]\<rparr>"

record CatalogOutboxPersistSummary =
  sm_inserted :: nat
  sm_coalesced :: nat
  sm_updated :: nat

datatype ConditionalMutationResult = Applied | Stale

text \<open>The order of \<open>read_dir\<close> is an argument: a list of the stems in the directory.\<close>

fun recover_index :: "outbox_env \<Rightarrow> pending_dir \<Rightarrow> string list \<Rightarrow> OutboxIndex \<Rightarrow> ob_error + OutboxIndex" where
  "recover_index env files [] ix = Inr ix"
| "recover_index env files (stem # stems) ix = bindR (read_entry env files stem) (\<lambda>entry.
     if fmlookup (ox_entries ix) (pi_id entry) \<noteq> None then Inl (ObInvalidData (''duplicate catalog outbox identity '' @ pi_id entry))
     else bindR (metadata_from_entry env entry) (\<lambda>m. recover_index env files stems (index_upsert (pi_id entry) m ix)))"

text \<open>\<open>open\<close> creates the directory and syncs its parent, not the directory itself; \<open>fault\<close> is an error of that.\<close>

definition outbox_open :: "outbox_env \<Rightarrow> string option \<Rightarrow> 'a pending_disk_scheme \<Rightarrow> string list \<Rightarrow> ob_error + outbox" where
  "outbox_open env fault d order = (case fault of
      Some e \<Rightarrow> Inl (ObIo e)
    | None \<Rightarrow> bindR (recover_index env (ob_files d) order outbox_index_default) (\<lambda>ix.
        Inr \<lparr>ob_files = ob_files d, ob_synced = ob_synced d, ob_unsynced = ob_unsynced d, ob_index = ix\<rparr>))"

definition new_entry :: "string \<Rightarrow> CatalogIntent \<Rightarrow> u64 \<Rightarrow> u64 \<Rightarrow> PendingCatalogIntent" where
  "new_entry i intent created now = \<lparr>pi_id = i, pi_intent = intent, pi_created_at_ms = created, pi_updated_at_ms = now, pi_attempts = 0,
     pi_next_attempt_at_ms = 0, pi_last_error = None, pi_terminal = False\<rparr>"

text \<open>One intent of \<open>persist\<close>. The state is the one left behind also when the result is an error.\<close>

definition persist_one ::
  "outbox_env \<Rightarrow> string option \<Rightarrow> u64 \<Rightarrow> CatalogIntent \<Rightarrow> outbox \<times> CatalogOutboxPersistSummary \<Rightarrow> (outbox \<times> CatalogOutboxPersistSummary) \<times> ob_error option"
where
  "persist_one env fault now intent = (\<lambda>(ob, sm).
     case stable_intent_id env (in_identity intent) of
       Inl e \<Rightarrow> ((ob, sm), Some e)
     | Inr i \<Rightarrow> (case intent_generation env intent of
         Inl e \<Rightarrow> ((ob, sm), Some e)
       | Inr g \<Rightarrow>
          (let existing = fmlookup (ox_entries (ob_index ob)) i in
           if (case existing of Some m \<Rightarrow> md_intent_sha256 m = g | None \<Rightarrow> False) then ((ob, sm\<lparr>sm_coalesced := sm_coalesced sm + 1\<rparr>), None)
           else
             let sm' = (if existing = None then sm\<lparr>sm_inserted := sm_inserted sm + 1\<rparr> else sm\<lparr>sm_updated := sm_updated sm + 1\<rparr>);
                 entry = new_entry i intent (case existing of Some m \<Rightarrow> md_created_at_ms m | None \<Rightarrow> now) now
             in case write_entry_atomic_rename env fault i entry (ob_files ob) of
                  Inl e \<Rightarrow> ((ob, sm'), Some e)
                | Inr files \<Rightarrow>
                   (let ob1 = (dir_change i files ob)\<lparr>ob_index := (ob_index ob)\<lparr>ox_directory_sync_required := True\<rparr>\<rparr> in
                    case metadata_from_entry env entry of
                      Inl e \<Rightarrow> ((ob1, sm'), Some e)
                    | Inr m \<Rightarrow> ((ob1\<lparr>ob_index := index_upsert i m (ob_index ob1)\<rparr>, sm'), None)))))"

fun persist_loop ::
  "outbox_env \<Rightarrow> (nat \<Rightarrow> string option) \<Rightarrow> (nat \<Rightarrow> u64) \<Rightarrow> nat \<Rightarrow> CatalogIntent list \<Rightarrow> outbox \<times> CatalogOutboxPersistSummary
    \<Rightarrow> (outbox \<times> CatalogOutboxPersistSummary) \<times> ob_error option"
where
  "persist_loop env faults clock k [] s = (s, None)"
| "persist_loop env faults clock k (intent # intents) s = (case persist_one env (faults k) (clock k) intent s of
      (s', Some e) \<Rightarrow> (s', Some e)
    | (s', None) \<Rightarrow> persist_loop env faults clock (Suc k) intents s')"

definition sync_directory :: "string option \<Rightarrow> outbox \<Rightarrow> outbox \<times> ob_error option" where
  "sync_directory fault ob = (case fault of
      Some e \<Rightarrow> (ob, Some (ObIo e))
    | None \<Rightarrow> (ob\<lparr>ob_synced := ob_files ob, ob_unsynced := [], ob_index := (ob_index ob)\<lparr>ox_directory_sync_required := False\<rparr>\<rparr>, None))"

definition outbox_persist ::
  "outbox_env \<Rightarrow> (nat \<Rightarrow> string option) \<Rightarrow> string option \<Rightarrow> (nat \<Rightarrow> u64) \<Rightarrow> CatalogIntent list \<Rightarrow> outbox \<Rightarrow> outbox \<times> (ob_error + CatalogOutboxPersistSummary)"
where
  "outbox_persist env faults sync clock intents ob =
     (case persist_loop env faults clock 0 intents (ob, \<lparr>sm_inserted = 0, sm_coalesced = 0, sm_updated = 0\<rparr>) of
        ((ob', sm), Some e) \<Rightarrow> (ob', Inl e)
      | ((ob', sm), None) \<Rightarrow>
          if ox_directory_sync_required (ob_index ob') then
            (case sync_directory sync ob' of (ob'', Some e) \<Rightarrow> (ob'', Inl e) | (ob'', None) \<Rightarrow> (ob'', Inr sm))
          else (ob', Inr sm))"

fun read_all :: "outbox_env \<Rightarrow> pending_dir \<Rightarrow> string list \<Rightarrow> ob_error + PendingCatalogIntent list" where
  "read_all env files [] = Inr []"
| "read_all env files (i # is) = bindR (read_entry env files i) (\<lambda>e. bindR (read_all env files is) (\<lambda>es. Inr (e # es)))"

definition scan_pending :: "outbox_env \<Rightarrow> nat \<Rightarrow> outbox \<Rightarrow> ob_error + PendingCatalogIntent list" where
  "scan_pending env limit ob = read_all env (ob_files ob) (take limit (sorted_list_of_fset (fmdom (ox_entries (ob_index ob)))))"

definition scan_eligible_pending :: "outbox_env \<Rightarrow> u64 \<Rightarrow> nat \<Rightarrow> outbox \<Rightarrow> ob_error + PendingCatalogIntent list" where
  "scan_eligible_pending env now limit ob = read_all env (ob_files ob) (due_ids now limit (ob_index ob))"

record CatalogOutboxMetadataSnapshot =
  sn_pending_count :: nat
  sn_due_count :: nat
  sn_deferred_count :: nat
  sn_terminal_count :: nat
  sn_oldest_created_at_ms :: "u64 option"

definition metadata_snapshot :: "u64 \<Rightarrow> outbox \<Rightarrow> CatalogOutboxMetadataSnapshot" where
  "metadata_snapshot now ob = (let ix = ob_index ob; due_count = length (due_range now ix) in
     \<lparr>sn_pending_count = card (ox_due ix), sn_due_count = due_count, sn_deferred_count = card (ox_due ix) - due_count,
      sn_terminal_count = ox_terminal_count ix, sn_oldest_created_at_ms = ox_oldest_created_at_ms ix\<rparr>)"

text \<open>The entry a conditional mutation acts on: \<open>Inr None\<close> when the expectation is stale.\<close>

definition expected_entry :: "outbox_env \<Rightarrow> PendingCatalogIntent \<Rightarrow> outbox \<Rightarrow> ob_error + PendingCatalogIntent option" where
  "expected_entry env expected ob = bindR (entry_generation env expected) (\<lambda>g.
     if (case fmlookup (ox_entries (ob_index ob)) (pi_id expected) of None \<Rightarrow> True | Some m \<Rightarrow> md_generation_sha256 m \<noteq> g) then Inr None
     else (case read_entry env (ob_files ob) (pi_id expected) of
         Inr current \<Rightarrow> Inr (if current \<noteq> expected then None else Some current)
       | Inl ObNotFound \<Rightarrow> Inr None
       | Inl e \<Rightarrow> Inl e))"

definition mark_delivered_if ::
  "outbox_env \<Rightarrow> string option \<Rightarrow> string option \<Rightarrow> PendingCatalogIntent \<Rightarrow> outbox \<Rightarrow> outbox \<times> (ob_error + ConditionalMutationResult)"
where
  "mark_delivered_if env remove sync expected ob = (case expected_entry env expected ob of
      Inl e \<Rightarrow> (ob, Inl e)
    | Inr None \<Rightarrow> (ob, Inr Stale)
    | Inr (Some _) \<Rightarrow> (case remove of
          Some e \<Rightarrow> (ob, Inl (ObIo e))
        | None \<Rightarrow>
           (let ob1 = (dir_change (pi_id expected) (fmdrop (pi_id expected) (ob_files ob)) ob)\<lparr>
                  ob_index := (index_remove (pi_id expected) (ob_index ob))\<lparr>ox_directory_sync_required := True\<rparr>\<rparr> in
            case sync_directory sync ob1 of (ob2, Some e) \<Rightarrow> (ob2, Inl e) | (ob2, None) \<Rightarrow> (ob2, Inr Applied))))"

definition failed_entry :: "string \<Rightarrow> u64 option \<Rightarrow> bool \<Rightarrow> u64 \<Rightarrow> PendingCatalogIntent \<Rightarrow> PendingCatalogIntent" where
  "failed_entry error retry_after terminal now entry = entry\<lparr>pi_attempts := sat_add (pi_attempts entry) 1, pi_updated_at_ms := now,
     pi_next_attempt_at_ms := (case retry_after of Some d \<Rightarrow> sat_add now d | None \<Rightarrow> 0), pi_last_error := Some error, pi_terminal := terminal\<rparr>"

definition record_failure_if ::
  "outbox_env \<Rightarrow> string option \<Rightarrow> string option \<Rightarrow> u64 \<Rightarrow> PendingCatalogIntent \<Rightarrow> string \<Rightarrow> u64 option \<Rightarrow> bool \<Rightarrow> outbox
    \<Rightarrow> outbox \<times> (ob_error + ConditionalMutationResult)"
where
  "record_failure_if env fault sync now expected error retry_after terminal ob = (case expected_entry env expected ob of
      Inl e \<Rightarrow> (ob, Inl e)
    | Inr None \<Rightarrow> (ob, Inr Stale)
    | Inr (Some current) \<Rightarrow>
       (let entry = failed_entry error retry_after terminal now current in
        case write_entry_atomic_rename env fault (pi_id expected) entry (ob_files ob) of
          Inl e \<Rightarrow> (ob, Inl e)
        | Inr files \<Rightarrow> (case metadata_from_entry env entry of
              Inl e \<Rightarrow> (dir_change (pi_id expected) files ob, Inl e)
            | Inr m \<Rightarrow>
               (let ob1 = (dir_change (pi_id expected) files ob)\<lparr>ob_index := (index_upsert (pi_id expected) m (ob_index ob))\<lparr>ox_directory_sync_required := True\<rparr>\<rparr> in
                case sync_directory sync ob1 of (ob2, Some e) \<Rightarrow> (ob2, Inl e) | (ob2, None) \<Rightarrow> (ob2, Inr Applied)))))"

section \<open>The index as a function of its entries\<close>

definition due_of :: "(string, IndexedIntentMetadata) fmap \<Rightarrow> (u64 \<times> string) set" where
  "due_of es = {(md_next_attempt_at_ms m, i) | i m. fmlookup es i = Some m \<and> \<not> md_terminal m}"

definition created_of :: "(string, IndexedIntentMetadata) fmap \<Rightarrow> (u64 \<times> string) set" where
  "created_of es = {(md_created_at_ms m, i) | i m. fmlookup es i = Some m}"

definition terminal_ids :: "(string, IndexedIntentMetadata) fmap \<Rightarrow> string set" where
  "terminal_ids es = {i. \<exists>m. fmlookup es i = Some m \<and> md_terminal m}"

definition index_ok :: "OutboxIndex \<Rightarrow> bool" where
  "index_ok ix \<longleftrightarrow> ox_due ix = due_of (ox_entries ix) \<and> ox_created ix = created_of (ox_entries ix)
     \<and> ox_terminal_count ix = card (terminal_ids (ox_entries ix)) \<and> ox_oldest_created_at_ms ix = first_created (created_of (ox_entries ix))"

lemma outbox_index_ok_default: "index_ok outbox_index_default"
  by (simp add: index_ok_def outbox_index_default_def due_of_def created_of_def terminal_ids_def first_created_def)

lemma index_ok_flag [simp]: "index_ok (ix\<lparr>ox_directory_sync_required := b\<rparr>) = index_ok ix"
  by (simp add: index_ok_def)

lemma finite_ids: "finite (terminal_ids es)" "finite (created_of es)" "finite (due_of es)"
proof -
  have sub: "terminal_ids es \<subseteq> fset (fmdom es)" by (auto simp: terminal_ids_def fmdomI)
  then show "finite (terminal_ids es)" by (rule finite_subset) simp
  have "created_of es \<subseteq> (\<lambda>i. (md_created_at_ms (the (fmlookup es i)), i)) ` fset (fmdom es)"
    by (force simp: created_of_def fmdomI)
  then show "finite (created_of es)" by (rule finite_subset) simp
  have "due_of es \<subseteq> (\<lambda>i. (md_next_attempt_at_ms (the (fmlookup es i)), i)) ` fset (fmdom es)"
    by (force simp: due_of_def fmdomI)
  then show "finite (due_of es)" by (rule finite_subset) simp
qed

lemma index_remove_entries [simp]: "ox_entries (index_remove i ix) = fmdrop i (ox_entries ix)"
  by (cases "fmlookup (ox_entries ix) i") (auto simp: index_remove_def Let_def intro!: fmap_ext)

lemma index_remove_flag [simp]: "ox_directory_sync_required (index_remove i ix) = ox_directory_sync_required ix"
  by (simp add: index_remove_def Let_def split: option.split)

lemma index_upsert_entries [simp]: "ox_entries (index_upsert i m ix) = fmupd i m (ox_entries ix)"
  by (simp add: index_upsert_def Let_def fmap_ext)

lemma index_upsert_flag [simp]: "ox_directory_sync_required (index_upsert i m ix) = ox_directory_sync_required ix"
  by (simp add: index_upsert_def Let_def)

lemma index_remove_ok:
  assumes "index_ok ix"
  shows "index_ok (index_remove i ix)"
proof (cases "fmlookup (ox_entries ix) i")
  case None
  then show ?thesis using assms by (simp add: index_remove_def)
next
  case (Some m)
  let ?es = "ox_entries ix"
  have due: "due_of (fmdrop i ?es) = (if md_terminal m then due_of ?es else due_of ?es - {(md_next_attempt_at_ms m, i)})"
    using Some by (auto simp: due_of_def split: if_splits)
  have cr: "created_of (fmdrop i ?es) = created_of ?es - {(md_created_at_ms m, i)}" using Some by (auto simp: created_of_def split: if_splits)
  have tm: "terminal_ids (fmdrop i ?es) = terminal_ids ?es - {i}" "(i \<in> terminal_ids ?es) = md_terminal m"
    using Some by (auto simp: terminal_ids_def split: if_splits)
  have "card (terminal_ids (fmdrop i ?es)) = (if md_terminal m then card (terminal_ids ?es) - 1 else card (terminal_ids ?es))"
    using tm finite_ids(1)[of ?es] by (auto simp: card_Diff_singleton)
  then show ?thesis using assms Some due cr by (simp add: index_ok_def index_remove_def Let_def)
qed

lemma index_upsert_ok:
  assumes "index_ok ix"
  shows "index_ok (index_upsert i m ix)"
proof -
  let ?ix = "index_remove i ix"
  have ok: "index_ok ?ix" and no: "fmlookup (ox_entries ?ix) i = None" using index_remove_ok[OF assms] by simp_all
  let ?es = "ox_entries ?ix"
  have up: "fmupd i m ?es = fmupd i m (ox_entries ix)" by (simp add: fmap_ext)
  have due: "due_of (fmupd i m ?es) = (if md_terminal m then due_of ?es else insert (md_next_attempt_at_ms m, i) (due_of ?es))"
    using no by (auto simp: due_of_def split: if_splits)
  have cr: "created_of (fmupd i m ?es) = insert (md_created_at_ms m, i) (created_of ?es)" using no by (auto simp: created_of_def split: if_splits)
  have tm: "terminal_ids (fmupd i m ?es) = (if md_terminal m then insert i (terminal_ids ?es) else terminal_ids ?es)" "i \<notin> terminal_ids ?es"
    using no by (auto simp: terminal_ids_def split: if_splits)
  have "card (terminal_ids (fmupd i m ?es)) = (if md_terminal m then card (terminal_ids ?es) + 1 else card (terminal_ids ?es))"
    using tm finite_ids(1)[of ?es] by auto
  then show ?thesis using ok due cr unfolding index_ok_def index_upsert_entries up[symmetric]
    by (auto simp: index_upsert_def Let_def simp del: index_remove_entries)
qed

text \<open>The identifiers that \<open>due_ids\<close> answers are the ones that are due, in the order of their due time.\<close>

definition ascii_ids :: "(string, IndexedIntentMetadata) fmap \<Rightarrow> bool" where
  "ascii_ids es \<longleftrightarrow> (\<forall>i m. fmlookup es i = Some m \<longrightarrow> ascii i)"

lemma ascii_below_max: "ascii i \<Longrightarrow> i \<le> CHAR_MAX_STR"
  by (cases i) (auto simp: CHAR_MAX_STR_def ascii_def less_char_def)

lemma due_range_set:
  assumes "index_ok ix" "ascii_ids (ox_entries ix)"
  shows "set (due_range now ix) = {(md_next_attempt_at_ms m, i) | i m. fmlookup (ox_entries ix) i = Some m \<and> \<not> md_terminal m \<and> md_next_attempt_at_ms m \<le> now}"
  using assms finite_ids(3)[of "ox_entries ix"] ascii_below_max
  by (fastforce simp: due_range_def index_ok_def due_of_def ascii_ids_def less_eq_prod_def)

section \<open>Files and index agree\<close>

text \<open>What the outbox relies on: serialization succeeds, an envelope parses back, and digests print as ASCII.\<close>

definition outbox_env_ok :: "outbox_env \<Rightarrow> bool" where
  "outbox_env_ok env \<longleftrightarrow> (\<forall>x. \<not> is_err (ox_json_identity env x)) \<and> (\<forall>x. \<not> is_err (ox_json_intent env x)) \<and> (\<forall>e. \<not> is_err (ox_json_entry env e))
     \<and> (\<forall>v bs. ox_json_envelope env v = Inr bs \<longrightarrow> ox_parse_envelope env bs = Inr v) \<and> (\<forall>bs. ascii (ox_sha_hex env bs))"

lemma not_err_iff: "\<not> is_err r \<longleftrightarrow> (\<exists>x. r = Inr x)"
  by (cases r) auto

lemma json_runs:
  assumes "outbox_env_ok env"
  shows "\<exists>i. stable_intent_id env x = Inr i \<and> ascii i" "\<exists>g. intent_generation env y = Inr g" "\<exists>g. entry_generation env e = Inr g"
    "\<exists>c. entry_checksum env e = Inr c" "\<exists>m. metadata_from_entry env e = Inr m"
proof -
  obtain b1 b2 b3 b4 where b: "ox_json_identity env x = Inr b1" "ox_json_intent env y = Inr b2" "ox_json_entry env e = Inr b3"
    "ox_json_intent env (pi_intent e) = Inr b4"
    using assms unfolding outbox_env_ok_def not_err_iff by blast
  then show "\<exists>i. stable_intent_id env x = Inr i \<and> ascii i" "\<exists>g. intent_generation env y = Inr g" "\<exists>g. entry_generation env e = Inr g"
    "\<exists>c. entry_checksum env e = Inr c" "\<exists>m. metadata_from_entry env e = Inr m"
    using assms by (simp_all add: stable_intent_id_def intent_generation_def entry_generation_def entry_checksum_def metadata_from_entry_def outbox_env_ok_def)
qed

lemma read_entry_Inr:
  assumes "read_entry env files stem = Inr e"
  shows "pi_id e = stem" "stable_intent_id env (in_identity (pi_intent e)) = Inr stem" "fmlookup files stem \<noteq> None"
  using assms by (auto simp: read_entry_def bindR_Inr_iff Let_def split: option.splits if_splits)

lemma read_entry_cong: "fmlookup files' i = fmlookup files i \<Longrightarrow> read_entry env files' i = read_entry env files i"
  by (simp add: read_entry_def)

lemma write_entry_Inr:
  assumes "write_entry_atomic_rename env fault stem entry files = Inr files'"
  shows "j \<noteq> stem \<Longrightarrow> fmlookup files' j = fmlookup files j"
    and "outbox_env_ok env \<Longrightarrow> pi_id entry = stem \<Longrightarrow> stable_intent_id env (in_identity (pi_intent entry)) = Inr stem \<Longrightarrow>
      read_entry env files' stem = Inr entry"
proof -
  obtain sum bs where w: "entry_checksum env entry = Inr sum" "length bs \<le> MAX_ENTRY_BYTES" "files' = fmupd stem bs files"
    "ox_json_envelope env \<lparr>ev_version = CATALOG_OUTBOX_FORMAT_VERSION, ev_checksum_sha256 = sum, ev_entry = entry\<rparr> = Inr bs"
    using assms by (cases "ox_json_envelope env \<lparr>ev_version = CATALOG_OUTBOX_FORMAT_VERSION, ev_checksum_sha256 = projr (entry_checksum env entry), ev_entry = entry\<rparr>")
      (auto simp: write_entry_atomic_rename_def bindR_Inr_iff not_less split: if_splits option.splits)
  then show "j \<noteq> stem \<Longrightarrow> fmlookup files' j = fmlookup files j" by simp
  assume env: "outbox_env_ok env" and i: "pi_id entry = stem" "stable_intent_id env (in_identity (pi_intent entry)) = Inr stem"
  have "ox_parse_envelope env bs = Inr \<lparr>ev_version = CATALOG_OUTBOX_FORMAT_VERSION, ev_checksum_sha256 = sum, ev_entry = entry\<rparr>"
    using env w(4) by (simp add: outbox_env_ok_def)
  then show "read_entry env files' stem = Inr entry" using w i by (simp add: read_entry_def)
qed

definition files_ok :: "outbox_env \<Rightarrow> outbox \<Rightarrow> bool" where
  "files_ok env ob \<longleftrightarrow> (\<forall>i. fmlookup (ox_entries (ob_index ob)) i = None \<longrightarrow> fmlookup (ob_files ob) i = None)
     \<and> (\<forall>i m. fmlookup (ox_entries (ob_index ob)) i = Some m \<longrightarrow> (\<exists>e. read_entry env (ob_files ob) i = Inr e \<and> metadata_from_entry env e = Inr m))"

text \<open>What a power loss may leave of one name: its durable contents or any later one. Every such file is
  a valid entry, and what the process sees is one of the possibilities.\<close>

definition crash_values :: "'a pending_disk_scheme \<Rightarrow> string \<Rightarrow> bytes option set" where
  "crash_values d i = insert (fmlookup (ob_synced d) i) {v. (i, v) \<in> set (ob_unsynced d)}"

definition power_loss :: "'a pending_disk_scheme \<Rightarrow> pending_disk \<Rightarrow> bool" where
  "power_loss d d' \<longleftrightarrow> (\<forall>i. fmlookup (ob_files d') i \<in> crash_values d i) \<and> ob_synced d' = ob_files d' \<and> ob_unsynced d' = []"

definition valid_bytes :: "outbox_env \<Rightarrow> string \<Rightarrow> bytes \<Rightarrow> bool" where
  "valid_bytes env i bs \<longleftrightarrow> (\<exists>e. read_entry env (fmupd i bs fmempty) i = Inr e)"

definition disk_ok :: "outbox_env \<Rightarrow> 'a pending_disk_scheme \<Rightarrow> bool" where
  "disk_ok env d \<longleftrightarrow> (\<forall>i. fmlookup (ob_files d) i \<in> crash_values d i) \<and> (\<forall>i bs. Some bs \<in> crash_values d i \<longrightarrow> valid_bytes env i bs)"

definition outbox_inv :: "outbox_env \<Rightarrow> outbox \<Rightarrow> bool" where
  "outbox_inv env ob \<longleftrightarrow> index_ok (ob_index ob) \<and> files_ok env ob \<and> disk_ok env ob"

lemma read_entry_valid: "read_entry env files i = Inr e \<Longrightarrow> fmlookup files i = Some bs \<Longrightarrow> valid_bytes env i bs"
  unfolding valid_bytes_def by (rule exI[of _ e]) (simp add: read_entry_def)

lemma valid_reads: "valid_bytes env i bs \<Longrightarrow> fmlookup files i = Some bs \<Longrightarrow> \<exists>e. read_entry env files i = Inr e"
  by (simp add: valid_bytes_def read_entry_def)

lemma disk_ok_cong:
  assumes "ob_files d = ob_files d'" "ob_synced d = ob_synced d'" "ob_unsynced d = ob_unsynced d'"
  shows "disk_ok env d = disk_ok env d'"
  using assms by (simp add: disk_ok_def crash_values_def)

lemma disk_change_ok:
  assumes "disk_ok env ob" "\<And>j. j \<noteq> i \<Longrightarrow> fmlookup files' j = fmlookup (ob_files ob) j" "\<And>bs. fmlookup files' i = Some bs \<Longrightarrow> valid_bytes env i bs"
  shows "disk_ok env (dir_change i files' ob)"
proof -
  have cv: "crash_values (dir_change i files' ob) j = (if j = i then insert (fmlookup files' i) (crash_values ob j) else crash_values ob j)" for j
    by (auto simp: crash_values_def dir_change_def)
  then show ?thesis using assms unfolding disk_ok_def cv by (auto simp: dir_change_def)
qed

text \<open>Replacing one file with its index entry, and removing both.\<close>

lemma inv_replace:
  assumes "outbox_inv env ob" "\<And>j. j \<noteq> i \<Longrightarrow> fmlookup files' j = fmlookup (ob_files ob) j" "read_entry env files' i = Inr e" "metadata_from_entry env e = Inr m"
  shows "outbox_inv env ((dir_change i files' ob)\<lparr>ob_index := (index_upsert i m (ob_index ob))\<lparr>ox_directory_sync_required := b\<rparr>\<rparr>)" (is "outbox_inv env ?ob'")
proof -
  have "fmlookup files' j = None" if "fmlookup (fmupd i m (ox_entries (ob_index ob))) j = None" for j
    using that assms(1) assms(2)[of j] by (auto simp: outbox_inv_def files_ok_def split: if_splits)
  moreover have "\<exists>e. read_entry env files' j = Inr e \<and> metadata_from_entry env e = Inr m'"
    if "fmlookup (fmupd i m (ox_entries (ob_index ob))) j = Some m'" for j m'
    using that assms(1,3,4) read_entry_cong[of files' j "ob_files ob" env] assms(2)[of j]
    by (cases "j = i") (auto simp: outbox_inv_def files_ok_def)
  ultimately have "files_ok env ?ob'" by (simp add: files_ok_def dir_change_def)
  moreover have "disk_ok env ?ob'"
    using disk_change_ok[of env ob i files'] assms(1,2) read_entry_valid[OF assms(3)] disk_ok_cong[of ?ob' "dir_change i files' ob" env]
    by (simp add: outbox_inv_def)
  ultimately show ?thesis using assms(1) by (simp add: outbox_inv_def index_upsert_ok)
qed

lemma inv_remove:
  assumes "outbox_inv env ob"
  shows "outbox_inv env ((dir_change i (fmdrop i (ob_files ob)) ob)\<lparr>ob_index := (index_remove i (ob_index ob))\<lparr>ox_directory_sync_required := b\<rparr>\<rparr>)"
    (is "outbox_inv env ?ob'")
proof -
  have "\<exists>e. read_entry env (fmdrop i (ob_files ob)) j = Inr e \<and> metadata_from_entry env e = Inr m'"
    if "fmlookup (fmdrop i (ox_entries (ob_index ob))) j = Some m'" for j m'
    using that assms read_entry_cong[of "fmdrop i (ob_files ob)" j "ob_files ob" env] by (cases "j = i") (auto simp: outbox_inv_def files_ok_def)
  then have "files_ok env ?ob'" using assms by (auto simp: outbox_inv_def files_ok_def dir_change_def)
  moreover have "disk_ok env ?ob'"
    using disk_change_ok[of env ob i "fmdrop i (ob_files ob)"] assms disk_ok_cong[of ?ob' "dir_change i (fmdrop i (ob_files ob)) ob" env]
    by (simp add: outbox_inv_def)
  ultimately show ?thesis using assms by (simp add: outbox_inv_def index_remove_ok)
qed

lemma sync_disk_ok:
  assumes "disk_ok env ob"
  shows "disk_ok env (ob\<lparr>ob_synced := ob_files ob, ob_unsynced := [], ob_index := ix\<rparr>)"
  using assms unfolding disk_ok_def by (simp add: crash_values_def[of "ob\<lparr>ob_synced := ob_files ob, ob_unsynced := [], ob_index := ix\<rparr>"])

lemma sync_inv: "outbox_inv env ob \<Longrightarrow> sync_directory fault ob = (ob', r) \<Longrightarrow> outbox_inv env ob'"
  using sync_disk_ok[of env ob] by (cases fault) (auto simp: sync_directory_def outbox_inv_def files_ok_def)

lemma persist_one_inv:
  assumes env: "outbox_env_ok env" and inv: "outbox_inv env ob" and run: "persist_one env fault now intent (ob, sm) = ((ob', sm'), r)"
  shows "outbox_inv env ob'"
proof -
  obtain i g where i: "stable_intent_id env (in_identity intent) = Inr i" and g: "intent_generation env intent = Inr g"
    using json_runs[OF env] by blast
  define created where "created = (case fmlookup (ox_entries (ob_index ob)) i of Some m \<Rightarrow> md_created_at_ms m | None \<Rightarrow> now)"
  define entry where "entry = new_entry i intent created now"
  obtain m where m: "metadata_from_entry env entry = Inr m" using json_runs(5)[OF env] by blast
  have e: "pi_id entry = i" "stable_intent_id env (in_identity (pi_intent entry)) = Inr i" using i by (simp_all add: entry_def new_entry_def)
  show ?thesis
  proof (cases "write_entry_atomic_rename env fault i entry (ob_files ob)")
    case (Inl x)
    then show ?thesis using run inv i g by (auto simp: persist_one_def Let_def entry_def created_def split: if_splits)
  next
    case (Inr files)
    note w = write_entry_Inr(1)[OF Inr] write_entry_Inr(2)[OF Inr env e]
    have "outbox_inv env ((dir_change i files ob)\<lparr>ob_index := (index_upsert i m (ob_index ob))\<lparr>ox_directory_sync_required := True\<rparr>\<rparr>)"
      by (rule inv_replace[OF inv w m])
    moreover have "index_upsert i m ((ob_index ob)\<lparr>ox_directory_sync_required := True\<rparr>) = (index_upsert i m (ob_index ob))\<lparr>ox_directory_sync_required := True\<rparr>"
      by (simp add: index_upsert_def index_remove_def Let_def split: option.split)
    ultimately show ?thesis using run inv i g Inr m by (auto simp: persist_one_def Let_def entry_def[symmetric] created_def[symmetric] split: if_splits)
  qed
qed

lemma persist_loop_inv:
  assumes "outbox_env_ok env"
  shows "outbox_inv env (fst s) \<Longrightarrow> persist_loop env faults clock k intents s = (s', r) \<Longrightarrow> outbox_inv env (fst s')"
proof (induction intents arbitrary: k s)
  case (Cons intent intents)
  obtain ob sm ob1 sm1 r1 where s: "s = (ob, sm)" "persist_one env (faults k) (clock k) intent (ob, sm) = ((ob1, sm1), r1)"
    by (metis prod.collapse)
  have "outbox_inv env ob1" using persist_one_inv[OF assms _ s(2)] Cons.prems(1) s(1) by simp
  then show ?case using Cons s by (auto split: option.splits)
qed simp

lemma persist_inv:
  assumes "outbox_env_ok env" "outbox_inv env ob" "outbox_persist env faults sync clock intents ob = (ob', r)"
  shows "outbox_inv env ob'"
proof -
  obtain ob1 sm1 r1 where l: "persist_loop env faults clock 0 intents (ob, \<lparr>sm_inserted = 0, sm_coalesced = 0, sm_updated = 0\<rparr>) = ((ob1, sm1), r1)"
    by (metis prod.collapse)
  then have "outbox_inv env ob1" using persist_loop_inv[OF assms(1) _ l] assms(2) by simp
  then show ?thesis using assms(3) l sync_inv[of env ob1 sync] by (auto simp: outbox_persist_def split: option.splits if_splits prod.splits)
qed

lemma expected_entry_Some:
  assumes "expected_entry env expected ob = Inr (Some current)"
  shows "current = expected" "read_entry env (ob_files ob) (pi_id expected) = Inr expected"
  using assms by (auto simp: expected_entry_def bindR_Inr_iff split: if_splits sum.splits ob_error.splits)

lemma mark_delivered_inv:
  assumes "outbox_inv env ob" "mark_delivered_if env remove sync expected ob = (ob', r)"
  shows "outbox_inv env ob'"
  using assms(2) assms(1) inv_remove[OF assms(1), where i = "pi_id expected" and b = True] sync_inv
  by (auto simp: mark_delivered_if_def Let_def split: sum.splits option.splits prod.splits)

lemma record_failure_inv:
  assumes env: "outbox_env_ok env" and inv: "outbox_inv env ob"
    and run: "record_failure_if env fault sync now expected error retry_after terminal ob = (ob', r)"
  shows "outbox_inv env ob'"
proof (cases "expected_entry env expected ob")
  case (Inl e)
  then show ?thesis using run inv by (simp add: record_failure_if_def)
next
  case (Inr x)
  show ?thesis
  proof (cases x)
    case None
    then show ?thesis using run inv Inr by (simp add: record_failure_if_def)
  next
    case (Some current)
    define entry where "entry = failed_entry error retry_after terminal now current"
    note cur = expected_entry_Some[OF Inr[unfolded Some]]
    have e: "pi_id entry = pi_id expected" "stable_intent_id env (in_identity (pi_intent entry)) = Inr (pi_id expected)"
      using cur read_entry_Inr[OF cur(2)] by (simp_all add: entry_def failed_entry_def)
    obtain m where m: "metadata_from_entry env entry = Inr m" using json_runs(5)[OF env] by blast
    show ?thesis
    proof (cases "write_entry_atomic_rename env fault (pi_id expected) entry (ob_files ob)")
      case (Inl e)
      then show ?thesis using run inv Inr Some by (simp add: record_failure_if_def Let_def entry_def)
    next
      case w: (Inr files)
      note w' = write_entry_Inr(1)[OF w] write_entry_Inr(2)[OF w env e]
      have "outbox_inv env ((dir_change (pi_id expected) files ob)\<lparr>ob_index := (index_upsert (pi_id expected) m (ob_index ob))\<lparr>ox_directory_sync_required := True\<rparr>\<rparr>)"
        by (rule inv_replace[OF inv w' m])
      then show ?thesis using run Inr Some w m sync_inv by (auto simp: record_failure_if_def Let_def entry_def[symmetric] split: option.splits prod.splits)
    qed
  qed
qed

section \<open>Recovery\<close>

lemma index_determined:
  assumes "index_ok ix" "index_ok ix'" "ox_entries ix = ox_entries ix'" "ox_directory_sync_required ix = ox_directory_sync_required ix'"
  shows "ix = ix'"
  using assms by (cases ix; cases ix') (simp add: index_ok_def)

lemma recover_index_run:
  assumes "\<forall>i\<in>set stems. \<exists>e m. read_entry env files i = Inr e \<and> metadata_from_entry env e = Inr m \<and> M i = Some m" "distinct stems"
    "\<forall>i\<in>set stems. fmlookup (ox_entries ix) i = None" "index_ok ix"
  shows "\<exists>ix'. recover_index env files stems ix = Inr ix' \<and> index_ok ix' \<and> ox_directory_sync_required ix' = ox_directory_sync_required ix
     \<and> (\<forall>i. fmlookup (ox_entries ix') i = (if i \<in> set stems then M i else fmlookup (ox_entries ix) i))"
  using assms
proof (induction stems arbitrary: ix)
  case (Cons s stems)
  obtain e m where e: "read_entry env files s = Inr e" "metadata_from_entry env e = Inr m" "M s = Some m" using Cons.prems(1) by auto
  have id: "pi_id e = s" by (rule read_entry_Inr(1)[OF e(1)])
  have none: "\<forall>i\<in>set stems. fmlookup (ox_entries (index_upsert s m ix)) i = None" using Cons.prems(2,3) by auto
  obtain ix' where ix': "recover_index env files stems (index_upsert s m ix) = Inr ix'" "index_ok ix'" "ox_directory_sync_required ix' = ox_directory_sync_required ix"
    "\<forall>i. fmlookup (ox_entries ix') i = (if i \<in> set stems then M i else fmlookup (ox_entries (index_upsert s m ix)) i)"
    using Cons.IH[OF _ _ none index_upsert_ok[OF Cons.prems(4)]] Cons.prems(1,2) by auto
  then show ?case using e id Cons.prems(2,3) by auto
qed simp

lemma reopen_run:
  assumes inv: "outbox_inv env ob" and order: "distinct order" "set order = fset (fmdom (ob_files ob))"
  shows "outbox_open env None ob order = Inr (ob\<lparr>ob_index := (ob_index ob)\<lparr>ox_directory_sync_required := False\<rparr>\<rparr>)"
proof -
  let ?M = "fmlookup (ox_entries (ob_index ob))"
  have dom: "i \<in> set order \<longleftrightarrow> ?M i \<noteq> None" for i
  proof
    assume "i \<in> set order"
    then have "fmlookup (ob_files ob) i \<noteq> None" using order(2) by (auto simp: fmlookup_dom_iff)
    then show "?M i \<noteq> None" using inv by (auto simp: outbox_inv_def files_ok_def)
  next
    assume "?M i \<noteq> None"
    then obtain e where "read_entry env (ob_files ob) i = Inr e" using inv unfolding outbox_inv_def files_ok_def by blast
    from read_entry_Inr(3)[OF this] show "i \<in> set order" unfolding order(2) by (simp add: fmlookup_dom_iff)
  qed
  have "\<forall>i\<in>set order. \<exists>e m. read_entry env (ob_files ob) i = Inr e \<and> metadata_from_entry env e = Inr m \<and> ?M i = Some m"
  proof
    fix i assume "i \<in> set order"
    then obtain m where "?M i = Some m" using dom by blast
    then show "\<exists>e m. read_entry env (ob_files ob) i = Inr e \<and> metadata_from_entry env e = Inr m \<and> ?M i = Some m"
      using inv unfolding outbox_inv_def files_ok_def by blast
  qed
  moreover have fresh: "fmlookup (ox_entries outbox_index_default) i = None" "\<not> ox_directory_sync_required outbox_index_default" for i
    by (simp_all add: outbox_index_default_def)
  ultimately obtain ix' where ix': "recover_index env (ob_files ob) order outbox_index_default = Inr ix'"
    "index_ok ix'" "\<not> ox_directory_sync_required ix'" "\<And>i. fmlookup (ox_entries ix') i = (if i \<in> set order then ?M i else None)"
    using recover_index_run[of order env "ob_files ob" ?M outbox_index_default] order(1) outbox_index_ok_default by (metis (no_types, lifting))
  have "fmlookup (ox_entries ix') i = ?M i" for i using ix'(4)[of i] dom[of i] by auto
  then have "ox_entries ix' = ox_entries (ob_index ob)" by (rule fmap_ext)
  then have "ix' = (ob_index ob)\<lparr>ox_directory_sync_required := False\<rparr>" using ix'(2,3) inv by (intro index_determined) (simp_all add: outbox_inv_def)
  then show ?thesis using ix'(1) by (simp add: outbox_open_def)
qed

lemma valid_open:
  assumes env: "outbox_env_ok env" and disk: "disk_ok env d" and order: "distinct order" "set order = fset (fmdom (ob_files d))"
  shows "\<exists>ob. outbox_open env None d order = Inr ob \<and> outbox_inv env ob \<and> ob_files ob = ob_files d"
proof -
  define M where "M i = (if i \<in> set order then Some (projr (metadata_from_entry env (projr (read_entry env (ob_files d) i)))) else None)" for i
  have reads: "\<exists>e m. read_entry env (ob_files d) i = Inr e \<and> metadata_from_entry env e = Inr m \<and> M i = Some m" if i: "i \<in> set order" for i
  proof -
    obtain bs where bs: "fmlookup (ob_files d) i = Some bs" using i order(2) by (auto simp: fmlookup_dom_iff)
    then have "valid_bytes env i bs" using disk unfolding disk_ok_def by metis
    then obtain e where e: "read_entry env (ob_files d) i = Inr e" using valid_reads bs by blast
    obtain m where "metadata_from_entry env e = Inr m" using json_runs(5)[OF env] by blast
    then show ?thesis using e i by (simp add: M_def)
  qed
  then obtain ix where ix: "recover_index env (ob_files d) order outbox_index_default = Inr ix" "index_ok ix" "\<And>i. fmlookup (ox_entries ix) i = M i"
    using recover_index_run[of order env "ob_files d" M outbox_index_default] order(1) outbox_index_ok_default by (auto simp: outbox_index_default_def M_def)
  let ?ob = "\<lparr>ob_files = ob_files d, ob_synced = ob_synced d, ob_unsynced = ob_unsynced d, ob_index = ix\<rparr>"
  have none: "fmlookup (ob_files d) i = None" if "M i = None" for i using that order(2) by (auto simp: M_def fmlookup_dom_iff split: if_splits)
  have some: "\<exists>e. read_entry env (ob_files d) i = Inr e \<and> metadata_from_entry env e = Inr m" if "M i = Some m" for i m
    using that reads[of i] by (auto simp: M_def split: if_splits)
  have "files_ok env ?ob" using none some by (simp add: files_ok_def ix(3))
  then have "outbox_inv env ?ob" using ix(2) disk disk_ok_cong[of ?ob d env] by (simp add: outbox_inv_def)
  then show ?thesis using ix(1) by (simp add: outbox_open_def)
qed

lemma power_loss_disk: "disk_ok env d \<Longrightarrow> power_loss d d' \<Longrightarrow> disk_ok env d'"
  unfolding disk_ok_def power_loss_def crash_values_def by (auto; metis)

section \<open>Histories\<close>

text \<open>What happens to an outbox: its operations with any clock and any errors of the file system, a
  restart of the process, and a loss of power. Both rebuild the index from the files.\<close>

inductive outbox_reachable :: "outbox_env \<Rightarrow> outbox \<Rightarrow> bool" for env where
  opened: "outbox_reachable env \<lparr>ob_files = fmempty, ob_synced = fmempty, ob_unsynced = [], ob_index = outbox_index_default\<rparr>"
| persisted: "outbox_reachable env ob \<Longrightarrow> outbox_persist env faults sync clock intents ob = (ob', r) \<Longrightarrow> outbox_reachable env ob'"
| delivered: "outbox_reachable env ob \<Longrightarrow> mark_delivered_if env remove sync expected ob = (ob', r') \<Longrightarrow> outbox_reachable env ob'"
| recorded: "outbox_reachable env ob \<Longrightarrow> record_failure_if env fault sync now expected error retry_after terminal ob = (ob', r') \<Longrightarrow> outbox_reachable env ob'"
| restarted: "outbox_reachable env ob \<Longrightarrow> distinct order \<Longrightarrow> set order = fset (fmdom (ob_files ob)) \<Longrightarrow> outbox_open env fault ob order = Inr ob' \<Longrightarrow>
    outbox_reachable env ob'"
| power_lost: "outbox_reachable env ob \<Longrightarrow> power_loss ob d \<Longrightarrow> distinct order \<Longrightarrow> set order = fset (fmdom (ob_files d)) \<Longrightarrow> outbox_open env fault d order = Inr ob' \<Longrightarrow>
    outbox_reachable env ob'"

lemma open_inv:
  assumes "outbox_env_ok env" "disk_ok env d" "distinct order" "set order = fset (fmdom (ob_files d))" "outbox_open env fault d order = Inr ob"
  shows "outbox_inv env ob"
  using valid_open[OF assms(1-4)] assms(5) by (cases fault) (auto simp: outbox_open_def)

lemma reachable_inv: "outbox_reachable env ob \<Longrightarrow> outbox_env_ok env \<Longrightarrow> outbox_inv env ob"
proof (induction rule: outbox_reachable.induct)
  case opened
  then show ?case using outbox_index_ok_default by (simp add: outbox_inv_def files_ok_def outbox_index_default_def disk_ok_def crash_values_def)
next
  case (persisted ob faults sync clock intents ob' r)
  then show ?case using persist_inv by blast
next
  case (delivered ob remove sync expected ob' r')
  then show ?case using mark_delivered_inv by blast
next
  case (recorded ob fault sync now expected error retry_after terminal ob' r')
  then show ?case using record_failure_inv by blast
next
  case (restarted ob order fault ob')
  then show ?case using open_inv[of env ob order fault ob'] by (simp add: outbox_inv_def)
next
  case (power_lost ob d order fault ob')
  then show ?case using open_inv[of env d order fault ob'] power_loss_disk[of env ob d] by (simp add: outbox_inv_def)
qed

end
