(* ===== verification/Outbox_Durability.thy ===== *)
theory Outbox_Durability
  imports Catalog_Outbox
begin

text \<open>
  What the outbox promises to the code that fills and drains it (\<^verbatim>\<open>src/src/catalog_outbox.rs\<close>): recovery after a
  restart or a loss of power, the durability and the last-writer rule of \<^verbatim>\<open>persist\<close>, and the exactness of
  the conditional mutations.
\<close>

section \<open>What a successful persist leaves\<close>

text \<open>Within one run of the process an unsynced change always has its flag. The hypothesis on the digest is
  that the intents at hand, the ones handed over and the ones stored, do not collide.\<close>

definition sync_flag_ok :: "outbox \<Rightarrow> bool" where
  "sync_flag_ok ob \<longleftrightarrow> ob_unsynced ob = [] \<or> ox_directory_sync_required (ob_index ob)"

definition digest_injective :: "outbox_env \<Rightarrow> CatalogIntent set \<Rightarrow> bool" where
  "digest_injective env A \<longleftrightarrow> inj_on (intent_generation env) A"

definition stored_intents :: "outbox_env \<Rightarrow> pending_dir \<Rightarrow> CatalogIntent set" where
  "stored_intents env files = {pi_intent e | i e. read_entry env files i = Inr e}"

definition latest_intent :: "outbox_env \<Rightarrow> string \<Rightarrow> CatalogIntent list \<Rightarrow> CatalogIntent option" where
  "latest_intent env i intents = find (\<lambda>intent. stable_intent_id env (in_identity intent) = Inr i) (rev intents)"

definition holds_intent :: "outbox_env \<Rightarrow> pending_dir \<Rightarrow> string \<Rightarrow> CatalogIntent \<Rightarrow> bool" where
  "holds_intent env files i intent \<longleftrightarrow> (\<exists>e. read_entry env files i = Inr e \<and> pi_intent e = intent)"

lemma find_append: "find P (xs @ ys) = (case find P xs of Some x \<Rightarrow> Some x | None \<Rightarrow> find P ys)"
  by (induction xs) auto

lemma latest_intent_Cons: "latest_intent env i (x # xs) = (case latest_intent env i xs of Some y \<Rightarrow> Some y
    | None \<Rightarrow> if stable_intent_id env (in_identity x) = Inr i then Some x else None)"
  by (auto simp: latest_intent_def find_append split: option.splits)

lemma persist_one_None:
  assumes env: "outbox_env_ok env" "digest_injective env A" and A: "intent \<in> A" "stored_intents env (ob_files ob) \<subseteq> A"
    and inv: "outbox_inv env ob" "sync_flag_ok ob"
    and run: "persist_one env fault now intent (ob, sm) = ((ob', sm'), None)" and i: "stable_intent_id env (in_identity intent) = Inr i"
  shows "sync_flag_ok ob'" "holds_intent env (ob_files ob') i intent" "j \<noteq> i \<Longrightarrow> fmlookup (ob_files ob') j = fmlookup (ob_files ob) j"
    "stored_intents env (ob_files ob') \<subseteq> A"
proof -
  obtain g where g: "intent_generation env intent = Inr g" using json_runs(2)[OF env(1)] by blast
  let ?ex = "fmlookup (ox_entries (ob_index ob)) i"
  have "sync_flag_ok ob' \<and> holds_intent env (ob_files ob') i intent \<and> (\<forall>j. j \<noteq> i \<longrightarrow> fmlookup (ob_files ob') j = fmlookup (ob_files ob) j)"
  proof (cases "case ?ex of Some m \<Rightarrow> md_intent_sha256 m = g | None \<Rightarrow> False")
    case True
    then obtain m where m: "?ex = Some m" "md_intent_sha256 m = g" by (auto split: option.splits)
    then obtain e where e: "read_entry env (ob_files ob) i = Inr e" "metadata_from_entry env e = Inr m"
      using inv(1) unfolding outbox_inv_def files_ok_def by blast
    then have "intent_generation env (pi_intent e) = Inr g" using m(2) by (auto simp: metadata_from_entry_def bindR_Inr_iff)
    moreover have "pi_intent e \<in> A" using A(2) e(1) by (auto simp: stored_intents_def)
    ultimately have "pi_intent e = intent" using env(2) g A(1) by (simp add: digest_injective_def inj_on_def)
    moreover have "ob' = ob" using run i g True by (simp add: persist_one_def Let_def)
    ultimately show ?thesis using e(1) inv(2) by (auto simp: holds_intent_def)
  next
    case False
    define entry where "entry = new_entry i intent (case ?ex of Some m \<Rightarrow> md_created_at_ms m | None \<Rightarrow> now) now"
    obtain files m where w: "write_entry_atomic_rename env fault i entry (ob_files ob) = Inr files" and
      ob': "ob' = (dir_change i files ob)\<lparr>ob_index := index_upsert i m ((ob_index ob)\<lparr>ox_directory_sync_required := True\<rparr>)\<rparr>"
      using run i g False unfolding persist_one_def entry_def
      by (auto simp: Let_def dir_change_def split: sum.splits)
    have e: "pi_id entry = i" "stable_intent_id env (in_identity (pi_intent entry)) = Inr i" "pi_intent entry = intent"
      using i by (simp_all add: entry_def new_entry_def)
    show ?thesis using write_entry_Inr(1)[OF w] write_entry_Inr(2)[OF w env(1) e(1,2)] e(3)
      by (auto simp: ob' sync_flag_ok_def dir_change_def holds_intent_def)
  qed
  then show main: "sync_flag_ok ob'" "holds_intent env (ob_files ob') i intent" "\<And>j. j \<noteq> i \<Longrightarrow> fmlookup (ob_files ob') j = fmlookup (ob_files ob) j" by blast+
  have "pi_intent e \<in> A" if "read_entry env (ob_files ob') j = Inr e" for j e
    using that main(2) main(3)[of j] A read_entry_cong[of "ob_files ob'" j "ob_files ob" env]
    by (cases "j = i") (auto simp: holds_intent_def stored_intents_def)
  then show "stored_intents env (ob_files ob') \<subseteq> A" by (auto simp: stored_intents_def)
qed

lemma persist_loop_None:
  assumes env: "outbox_env_ok env" "digest_injective env A"
  shows "outbox_inv env (fst s) \<Longrightarrow> sync_flag_ok (fst s) \<Longrightarrow> set intents \<subseteq> A \<Longrightarrow> stored_intents env (ob_files (fst s)) \<subseteq> A \<Longrightarrow> persist_loop env faults clock k intents s = (s', None) \<Longrightarrow>
    sync_flag_ok (fst s') \<and> (case latest_intent env i intents of Some intent \<Rightarrow> holds_intent env (ob_files (fst s')) i intent
       | None \<Rightarrow> fmlookup (ob_files (fst s')) i = fmlookup (ob_files (fst s)) i)"
proof (induction intents arbitrary: k s)
  case Nil
  then show ?case by (auto simp: latest_intent_def)
next
  case (Cons intent intents)
  obtain ob sm ob1 sm1 r1 where s: "s = (ob, sm)" and one: "persist_one env (faults k) (clock k) intent (ob, sm) = ((ob1, sm1), r1)"
    by (metis prod.collapse)
  have r1: "r1 = None" and rest: "persist_loop env faults clock (Suc k) intents (ob1, sm1) = (s', None)"
    using Cons.prems(5) by (auto simp: s one split: option.splits)
  obtain j where j: "stable_intent_id env (in_identity intent) = Inr j" using json_runs(1)[OF env(1)] by blast
  have inv: "outbox_inv env ob" "sync_flag_ok ob" and A: "intent \<in> A" "stored_intents env (ob_files ob) \<subseteq> A"
    using Cons.prems(1-4) by (simp_all add: s)
  note one' = persist_one_None[OF env A inv one[unfolded r1] j]
  have "outbox_inv env ob1" using persist_one_inv[OF env(1) inv(1) one] .
  then have IH: "sync_flag_ok (fst s') \<and> (case latest_intent env i intents of Some intent \<Rightarrow> holds_intent env (ob_files (fst s')) i intent
       | None \<Rightarrow> fmlookup (ob_files (fst s')) i = fmlookup (ob_files ob1) i)"
    using Cons.IH[OF _ _ _ _ rest] one'(1,4) Cons.prems(3) by (auto split: option.splits)
  have "holds_intent env (ob_files (fst s')) i intent" if "latest_intent env i intents = None" "j = i"
    using IH that one'(2) read_entry_cong[of "ob_files (fst s')" i "ob_files ob1" env] by (simp add: holds_intent_def)
  then show ?case using IH j one'(3)[of i] by (auto simp: s latest_intent_Cons split: option.splits)
qed

lemma outbox_persist_Inr:
  assumes env: "outbox_env_ok env" "digest_injective env (set intents \<union> stored_intents env (ob_files ob))" and inv: "outbox_inv env ob" "sync_flag_ok ob"
    and run: "outbox_persist env faults sync clock intents ob = (ob', Inr sm)"
  shows "ob_unsynced ob' = []" "case latest_intent env i intents of Some intent \<Rightarrow> holds_intent env (ob_files ob') i intent
    | None \<Rightarrow> fmlookup (ob_files ob') i = fmlookup (ob_files ob) i"
proof -
  let ?s = "(ob, \<lparr>sm_inserted = 0, sm_coalesced = 0, sm_updated = 0\<rparr>)"
  obtain ob1 where l: "persist_loop env faults clock 0 intents ?s = ((ob1, sm), None)" "ob_files ob' = ob_files ob1"
    and un: "sync_flag_ok ob1 \<Longrightarrow> ob_unsynced ob' = []"
    using run by (auto simp: outbox_persist_def sync_directory_def sync_flag_ok_def split: prod.splits option.splits if_splits)
  have "sync_flag_ok ob1 \<and> (case latest_intent env i intents of Some intent \<Rightarrow> holds_intent env (ob_files ob1) i intent
       | None \<Rightarrow> fmlookup (ob_files ob1) i = fmlookup (ob_files ob) i)"
    using persist_loop_None[OF env _ _ _ _ l(1), of i] inv by (auto split: option.splits)
  then show "ob_unsynced ob' = []" "case latest_intent env i intents of Some intent \<Rightarrow> holds_intent env (ob_files ob') i intent
    | None \<Rightarrow> fmlookup (ob_files ob') i = fmlookup (ob_files ob) i" using un l(2) by (auto split: option.splits)
qed

section \<open>Conditional mutations\<close>

lemma expected_entry_iff:
  assumes "outbox_env_ok env" "outbox_inv env ob"
  shows "expected_entry env expected ob = Inr (if read_entry env (ob_files ob) (pi_id expected) = Inr expected then Some expected else None)"
proof -
  obtain g where g: "entry_generation env expected = Inr g" using json_runs(3)[OF assms(1)] by blast
  show ?thesis
  proof (cases "fmlookup (ox_entries (ob_index ob)) (pi_id expected)")
    case None
    then have "fmlookup (ob_files ob) (pi_id expected) = None" using assms(2) by (simp add: outbox_inv_def files_ok_def)
    then show ?thesis using None g by (simp add: expected_entry_def read_entry_def)
  next
    case (Some m)
    then obtain e where e: "read_entry env (ob_files ob) (pi_id expected) = Inr e" "metadata_from_entry env e = Inr m"
      using assms(2) unfolding outbox_inv_def files_ok_def by blast
    have "md_generation_sha256 m = g" if "e = expected" using e(2) g that by (auto simp: metadata_from_entry_def bindR_Inr_iff)
    then show ?thesis using Some e(1) g by (auto simp: expected_entry_def)
  qed
qed

lemma record_failure_Applied:
  assumes env: "outbox_env_ok env" and inv: "outbox_inv env ob"
    and run: "record_failure_if env fault sync now expected error retry_after terminal ob = (ob', Inr Applied)"
  shows "read_entry env (ob_files ob) (pi_id expected) = Inr expected"
    "read_entry env (ob_files ob') (pi_id expected) = Inr (failed_entry error retry_after terminal now expected)"
    "j \<noteq> pi_id expected \<Longrightarrow> fmlookup (ob_files ob') j = fmlookup (ob_files ob) j"
proof -
  show cur: "read_entry env (ob_files ob) (pi_id expected) = Inr expected"
    using run by (auto simp: record_failure_if_def expected_entry_iff[OF env inv] split: if_splits)
  let ?e = "failed_entry error retry_after terminal now expected"
  obtain files where w: "write_entry_atomic_rename env fault (pi_id expected) ?e (ob_files ob) = Inr files" and f: "ob_files ob' = files"
    using run cur by (auto simp: record_failure_if_def expected_entry_iff[OF env inv] Let_def dir_change_def sync_directory_def split: sum.splits option.splits)
  have e: "pi_id ?e = pi_id expected" "stable_intent_id env (in_identity (pi_intent ?e)) = Inr (pi_id expected)"
    using read_entry_Inr(2)[OF cur] by (simp_all add: failed_entry_def)
  show "read_entry env (ob_files ob') (pi_id expected) = Inr ?e" "j \<noteq> pi_id expected \<Longrightarrow> fmlookup (ob_files ob') j = fmlookup (ob_files ob) j"
    using write_entry_Inr(1)[OF w] write_entry_Inr(2)[OF w env e] by (simp_all add: f)
qed

section \<open>Properties\<close>

text \<open>Concrete serialization for the witnesses: identities and intents differ by key and location, and the
  envelopes of two entries have a file format.\<close>

definition demo_intent :: "string \<Rightarrow> CatalogIntent" where
  "demo_intent loc = \<lparr>in_version = 2, in_identity = \<lparr>ci_sink_ref = ''lake'', ci_namespace = ''db.t'', ci_kind = UpsertPartition, ci_key = ''p''\<rparr>,
     in_payload = \<lparr>gp_version = 1, gp_region = None, gp_catalog_id = None, gp_database = ''db'', gp_table = ''t'', gp_partition_values = [''1''],
       gp_location = loc, gp_storage_columns = [], gp_partition_columns = [\<lparr>gc_name = ''day'', gc_type = ''string'', gc_comment = None\<rparr>],
       gp_input_format = ''i'', gp_output_format = ''o'', gp_serde_library = ''s'', gp_schema_namespace = ''db.t'', gp_schema_version = 1\<rparr>\<rparr>"

definition demo_entry :: "string \<Rightarrow> PendingCatalogIntent" where
  "demo_entry loc = new_entry ''a'' (demo_intent loc) 5 5"

definition demo_envelope :: "PendingCatalogIntent \<Rightarrow> CatalogOutboxEnvelope" where
  "demo_envelope e = \<lparr>ev_version = 2, ev_checksum_sha256 = [], ev_entry = e\<rparr>"

definition demo_env :: outbox_env where
  "demo_env = \<lparr>ox_json_identity = (\<lambda>i. Inr (replicate (length (ci_key i)) 0)), ox_json_intent = (\<lambda>x. Inr (replicate (length (gp_location (in_payload x))) 0)),
     ox_json_entry = (\<lambda>e. Inr []),
     ox_json_envelope = (\<lambda>v. if v = demo_envelope (demo_entry ''x'') then Inr [1] else if v = demo_envelope (demo_entry ''xy'') then Inr [2] else Inl ''unused''),
     ox_parse_envelope = (\<lambda>bs. if bs = [1] then Inr (demo_envelope (demo_entry ''x'')) else if bs = [2] then Inr (demo_envelope (demo_entry ''xy'')) else Inl ''unused''),
     ox_sha = (\<lambda>bs. bs), ox_sha_hex = (\<lambda>bs. replicate (length bs) (CHR ''a''))\<rparr>"

definition demo_empty :: outbox where
  "demo_empty = \<lparr>ob_files = fmempty, ob_synced = fmempty, ob_unsynced = [], ob_index = outbox_index_default\<rparr>"

lemma demo_env_ok: "outbox_env_ok demo_env"
  by (simp add: outbox_env_ok_def demo_env_def ascii_def list_all_length)

lemma demo_differs: "demo_envelope (demo_entry ''xy'') \<noteq> demo_envelope (demo_entry ''x'')"
  by (simp add: demo_envelope_def demo_entry_def new_entry_def demo_intent_def)

lemma demo_read: "read_entry demo_env (fmupd ''a'' [1] files) ''a'' = Inr (demo_entry ''x'')"
  by (simp add: read_entry_def demo_env_def demo_envelope_def MAX_ENTRY_BYTES_def CATALOG_OUTBOX_FORMAT_VERSION_def entry_checksum_def stable_intent_id_def
      demo_entry_def new_entry_def demo_intent_def)

definition demo_meta :: IndexedIntentMetadata where
  "demo_meta = \<lparr>md_created_at_ms = 5, md_updated_at_ms = 5, md_next_attempt_at_ms = 0, md_terminal = False, md_generation_sha256 = [], md_intent_sha256 = [0]\<rparr>"

definition demo_index :: OutboxIndex where
  "demo_index = index_upsert ''a'' demo_meta outbox_index_default"

lemma demo_persist: "outbox_persist demo_env (\<lambda>_. None) fault (\<lambda>_. 5) [demo_intent ''x''] demo_empty =
   (case fault of None \<Rightarrow> (\<lparr>ob_files = fmupd ''a'' [1] fmempty, ob_synced = fmupd ''a'' [1] fmempty, ob_unsynced = [], ob_index = demo_index\<rparr>,
        Inr \<lparr>sm_inserted = 1, sm_coalesced = 0, sm_updated = 0\<rparr>)
    | Some e \<Rightarrow> (\<lparr>ob_files = fmupd ''a'' [1] fmempty, ob_synced = fmempty, ob_unsynced = [(''a'', Some [1])], ob_index = demo_index\<lparr>ox_directory_sync_required := True\<rparr>\<rparr>,
        Inl (ObIo e)))"
proof -
  have id: "stable_intent_id demo_env (in_identity (demo_intent ''x'')) = Inr ''a''" "intent_generation demo_env (demo_intent ''x'') = Inr [0]"
    by (simp_all add: stable_intent_id_def intent_generation_def demo_env_def demo_intent_def)
  have w: "write_entry_atomic_rename demo_env None ''a'' (demo_entry ''x'') files = Inr (fmupd ''a'' [1] files)" for files
    by (simp add: write_entry_atomic_rename_def entry_checksum_def demo_env_def CATALOG_OUTBOX_FORMAT_VERSION_def demo_envelope_def MAX_ENTRY_BYTES_def)
  have m: "metadata_from_entry demo_env (demo_entry ''x'') = Inr demo_meta"
    by (simp add: metadata_from_entry_def entry_generation_def intent_generation_def demo_env_def demo_entry_def new_entry_def demo_intent_def demo_meta_def)
  have one: "persist_one demo_env None 5 (demo_intent ''x'') (demo_empty, sm) =
    ((\<lparr>ob_files = fmupd ''a'' [1] fmempty, ob_synced = fmempty, ob_unsynced = [(''a'', Some [1])], ob_index = demo_index\<lparr>ox_directory_sync_required := True\<rparr>\<rparr>,
      sm\<lparr>sm_inserted := sm_inserted sm + 1\<rparr>), None)" for sm
    using w m by (simp add: persist_one_def id demo_empty_def Let_def demo_entry_def[symmetric] dir_change_def outbox_index_default_def demo_index_def index_upsert_def index_remove_def)
  show ?thesis by (simp add: outbox_persist_def one sync_directory_def split: option.split) (simp add: demo_index_def index_upsert_def index_remove_def outbox_index_default_def Let_def)
qed

definition demo_ob :: outbox where
  "demo_ob = fst (outbox_persist demo_env (\<lambda>_. None) None (\<lambda>_. 5) [demo_intent ''x''] demo_empty)"

lemma demo_reachable: "outbox_reachable demo_env demo_empty" "outbox_reachable demo_env demo_ob"
proof -
  show e: "outbox_reachable demo_env demo_empty" unfolding demo_empty_def by (rule outbox_reachable.opened)
  show "outbox_reachable demo_env demo_ob" unfolding demo_ob_def by (rule outbox_reachable.persisted[OF e]) (rule prod.collapse[symmetric])
qed

lemma unflag_id: "\<not> ox_directory_sync_required (ob_index ob) \<Longrightarrow> ob\<lparr>ob_index := (ob_index ob)\<lparr>ox_directory_sync_required := False\<rparr>\<rparr> = ob"
  by (cases ob; cases "ob_index ob") simp

text \<open>C22. In every state an outbox can get into, through its operations with any failures of the file system,
  restarts and losses of power, opening it after a loss of power succeeds, whatever subset of the unsynced
  renames and removals survived and in whatever order the directory lists its files. The index that comes back
  is the one of the files, and when the directory was synced the outbox is the one there was, index and all.\<close>

theorem outbox_recovers:
  assumes "outbox_env_ok env" "outbox_reachable env ob" "power_loss ob d" "distinct order" "set order = fset (fmdom (ob_files d))"
  shows "\<exists>ob'. outbox_open env None d order = Inr ob' \<and> outbox_inv env ob' \<and> ob_files ob' = ob_files d
    \<and> (ob_unsynced ob = [] \<longrightarrow> ob_synced ob = ob_files ob \<longrightarrow> \<not> ox_directory_sync_required (ob_index ob) \<longrightarrow> ob' = ob)"
proof -
  have inv: "outbox_inv env ob" by (rule reachable_inv[OF assms(2,1)])
  then have "disk_ok env ob" by (simp add: outbox_inv_def)
  then obtain ob' where ob': "outbox_open env None d order = Inr ob'" "outbox_inv env ob'" "ob_files ob' = ob_files d"
    using valid_open[OF assms(1) power_loss_disk[OF _ assms(3)] assms(4,5)] by blast
  have "ob' = ob" if s: "ob_unsynced ob = []" "ob_synced ob = ob_files ob" "\<not> ox_directory_sync_required (ob_index ob)"
  proof -
    have f: "ob_files d = ob_files ob" using assms(3) s by (intro fmap_ext) (auto simp: power_loss_def crash_values_def)
    then have "outbox_open env None ob order = Inr ob'" using ob'(1) assms(3) s by (auto simp: outbox_open_def power_loss_def)
    then show ?thesis using reopen_run[OF inv assms(4)] assms(5) f unflag_id[OF s(3)] by simp
  qed
  then show ?thesis using ob' by blast
qed

theorem outbox_recovers_witness:
  "outbox_open demo_env None \<lparr>ob_files = fmupd ''a'' [1] fmempty, ob_synced = fmupd ''a'' [1] fmempty, ob_unsynced = []\<rparr> [''a''] = Inr demo_ob"
proof -
  let ?f = "fmupd ''a'' [1] fmempty :: pending_dir"
  have ob: "demo_ob = \<lparr>ob_files = ?f, ob_synced = ?f, ob_unsynced = [], ob_index = demo_index\<rparr>" by (simp add: demo_ob_def demo_persist)
  have flag: "\<not> ox_directory_sync_required demo_index" by (simp add: demo_index_def outbox_index_default_def)
  have "power_loss demo_ob \<lparr>ob_files = ?f, ob_synced = ?f, ob_unsynced = []\<rparr>" by (simp add: power_loss_def crash_values_def ob)
  from outbox_recovers[OF demo_env_ok demo_reachable(2) this, of "[''a'']"] flag show ?thesis by (auto simp: ob)
qed



text \<open>C38. \<^verbatim>\<open>open\<close> syncs the parent of the pending directory and not the directory, and starts with the sync flag
  cleared. So when the process dies between the rename and the sync of \<^verbatim>\<open>persist\<close>, the next run finds the file,
  coalesces the same intent with it, reports success without a sync, and a loss of power may then take the
  intent away.\<close>

theorem coalesced_persist_not_durable:
  "\<exists>ob sm d. outbox_reachable demo_env ob \<and> stable_intent_id demo_env (in_identity (demo_intent ''x'')) = Inr ''a''
     \<and> outbox_persist demo_env (\<lambda>_. None) None (\<lambda>_. 5) [demo_intent ''x''] ob = (ob, Inr sm) \<and> sm_coalesced sm = 1
     \<and> power_loss ob d \<and> fmlookup (ob_files d) ''a'' = None"
proof -
  let ?f = "fmupd ''a'' [1] fmempty :: pending_dir"
  let ?ob1 = "\<lparr>ob_files = ?f, ob_synced = fmempty, ob_unsynced = [(''a'', Some [1])], ob_index = demo_index\<lparr>ox_directory_sync_required := True\<rparr>\<rparr>"
  let ?ob = "\<lparr>ob_files = ?f, ob_synced = fmempty, ob_unsynced = [(''a'', Some [1])], ob_index = demo_index\<rparr>"
  have "outbox_persist demo_env (\<lambda>_. None) (Some ''io'') (\<lambda>_. 5) [demo_intent ''x''] demo_empty = (?ob1, Inl (ObIo ''io''))"
    by (simp add: demo_persist)
  then have r1: "outbox_reachable demo_env ?ob1" by (rule outbox_reachable.persisted[OF demo_reachable(1)])
  have flag: "\<not> ox_directory_sync_required demo_index" by (simp add: demo_index_def outbox_index_default_def)
  then have "?ob1\<lparr>ob_index := (ob_index ?ob1)\<lparr>ox_directory_sync_required := False\<rparr>\<rparr> = ?ob" by (cases demo_index) simp
  then have "outbox_open demo_env None ?ob1 [''a''] = Inr ?ob" using reopen_run[OF reachable_inv[OF r1 demo_env_ok], of "[''a'']"] by simp
  then have r: "outbox_reachable demo_env ?ob" by (rule outbox_reachable.restarted[OF r1, rotated 2]) simp_all
  have id: "stable_intent_id demo_env (in_identity (demo_intent ''x'')) = Inr ''a''" "intent_generation demo_env (demo_intent ''x'') = Inr [0]"
    by (simp_all add: stable_intent_id_def intent_generation_def demo_env_def demo_intent_def)
  have ent: "fmlookup (ox_entries demo_index) ''a'' = Some demo_meta" by (simp add: demo_index_def)
  have "outbox_persist demo_env (\<lambda>_. None) None (\<lambda>_. 5) [demo_intent ''x''] ?ob = (?ob, Inr \<lparr>sm_inserted = 0, sm_coalesced = 1, sm_updated = 0\<rparr>)"
    using flag by (simp add: outbox_persist_def persist_one_def id ent demo_meta_def)
  moreover have "power_loss ?ob \<lparr>ob_files = fmempty, ob_synced = fmempty, ob_unsynced = []\<rparr>" by (simp add: power_loss_def crash_values_def)
  ultimately show ?thesis using r id(1) by fastforce
qed



end
