(* ===== verification/Glue_Executor.thy ===== *)
theory Glue_Executor
  imports Outbox_Durability
begin

text \<open>
  The Glue side of the catalog coordinator (\<^verbatim>\<open>src/src/catalog_coordinator.rs\<close>): the requests of \<open>GlueExecutor\<close>, the
  classification of errors, the retry delay, and the executor over the AWS SDK. The SDK is an argument, one
  function per request over a state \<open>'g\<close> of the remote catalog, from which \<open>aws_executor\<close> builds the operations
  as the code does; the client cache is left out.
\<close>

section \<open>Glue\<close>

definition GLUE_BATCH_CREATE_LIMIT :: nat where "GLUE_BATCH_CREATE_LIMIT = 100"
definition RECOVERY_SCAN_LIMIT :: nat where "RECOVERY_SCAN_LIMIT = 10000"

record DecodedIntent =
  di_pending :: PendingCatalogIntent
  di_payload :: GluePartitionCatalogIntentV1

record GlueTarget =
  gt_region :: "string option"
  gt_catalog_id :: "string option"
  gt_database :: string
  gt_table :: string

record GlueTableLayout =
  gl_partition_columns :: "GlueColumnIntent list"
  gl_storage_columns :: "GlueColumnIntent list"

record GluePartitionSpec =
  gs_values :: "string list"
  gs_location :: string
  gs_storage_columns :: "GlueColumnIntent list"
  gs_input_format :: string
  gs_output_format :: string
  gs_serde_library :: string

datatype GlueApiErrorKind = Transient | NotFound | AlreadyExists | Terminal

record GlueApiError =
  ge_kind :: GlueApiErrorKind
  ge_message :: string

datatype GlueBatchCreateOutcome = Created | OutcomeAlreadyExists | Failed GlueApiError

record 'g GlueExecutor =
  ex_table_layout :: "GlueTarget \<Rightarrow> 'g \<Rightarrow> 'g \<times> (GlueApiError + GlueTableLayout)"
  ex_get_partition :: "GlueTarget \<Rightarrow> string list \<Rightarrow> 'g \<Rightarrow> 'g \<times> (GlueApiError + string option)"
  ex_batch_create_partitions :: "GlueTarget \<Rightarrow> GluePartitionSpec list \<Rightarrow> 'g \<Rightarrow> 'g \<times> (GlueApiError + GlueBatchCreateOutcome list)"
  ex_update_partition :: "GlueTarget \<Rightarrow> GluePartitionSpec \<Rightarrow> 'g \<Rightarrow> 'g \<times> (GlueApiError + unit)"

definition contains_str :: "string \<Rightarrow> string \<Rightarrow> bool" where
  "contains_str needle s = list_ex (\<lambda>k. prefix needle (drop k s)) [0..<Suc (length s)]"

definition glue_exception_code :: "string \<Rightarrow> string option" where
  "glue_exception_code message = find (\<lambda>name. contains_str name message)
     [''EntityNotFoundException'', ''AlreadyExistsException'', ''InvalidInputException'', ''ThrottlingException'', ''ThrottledException'',
      ''InternalServiceException'', ''OperationTimeoutException'', ''ConcurrentModificationException'', ''ResourceNumberLimitExceededException'',
      ''FederationSourceRetryableException'', ''ResourceNotReadyException'']"

definition is_transient_transport :: "string \<Rightarrow> bool" where
  "is_transient_transport err = (let e = to_ascii_lowercase err in
     list_ex (\<lambda>needle. contains_str needle e) [''throttl'', ''timeout'', ''temporar'', ''service unavailable'', ''connection''])"

definition TRANSIENT_CODES :: "string list" where
  "TRANSIENT_CODES = [''InvalidInputException'', ''ThrottlingException'', ''ThrottledException'', ''InternalServiceException'', ''OperationTimeoutException'',
     ''ConcurrentModificationException'', ''ResourceNumberLimitExceededException'', ''FederationSourceRetryableException'', ''ResourceNotReadyException'']"

definition classify_glue_code :: "string option \<Rightarrow> string \<Rightarrow> GlueApiError" where
  "classify_glue_code code message =
     (let inferred = (case code of Some c \<Rightarrow> if c \<noteq> ''UnknownGlueError'' then Some c else glue_exception_code message | None \<Rightarrow> glue_exception_code message);
          kind = (if inferred = Some ''EntityNotFoundException'' then NotFound
                  else if inferred = Some ''AlreadyExistsException'' then AlreadyExists
                  else if (case inferred of Some c \<Rightarrow> c \<in> set TRANSIENT_CODES | None \<Rightarrow> False) then Transient
                  else if is_transient_transport message then Transient
                  else Terminal)
      in \<lparr>ge_kind = kind, ge_message = message\<rparr>)"

definition partition_spec :: "GluePartitionCatalogIntentV1 \<Rightarrow> GluePartitionSpec" where
  "partition_spec p = \<lparr>gs_values = gp_partition_values p, gs_location = gp_location p, gs_storage_columns = gp_storage_columns p,
     gs_input_format = gp_input_format p, gs_output_format = gp_output_format p, gs_serde_library = gp_serde_library p\<rparr>"

definition same_column_layout :: "GlueColumnIntent list \<Rightarrow> GlueColumnIntent list \<Rightarrow> bool" where
  "same_column_layout left right \<longleftrightarrow> map (\<lambda>c. (gc_name c, gc_type c)) left = map (\<lambda>c. (gc_name c, gc_type c)) right"

text \<open>\<open>retry_delay\<close>: \<open>jitter\<close> is the random number, brought into the range \<open>0..=base / 4\<close>.\<close>

definition retry_base_ms :: "u32 \<Rightarrow> u64" where
  "retry_base_ms attempts = of_nat (250 * 2 ^ min (unat attempts) 8)"

definition retry_delay :: "u64 \<Rightarrow> u32 \<Rightarrow> u64" where
  "retry_delay jitter attempts = (let base = retry_base_ms attempts in min (base + jitter mod (base div 4 + 1)) 60000)"

section \<open>The executor over the AWS SDK\<close>

record sdk_error =
  se_code :: "string option"
  se_message :: string
  se_entity_not_found :: bool

record sdk_column =
  sc_name :: string
  sc_type :: "string option"
  sc_comment :: "string option"

text \<open>A table: its partition keys, and its storage descriptor with the columns in it.\<close>

record sdk_table =
  st_partition_keys :: "sdk_column list option"
  st_storage_descriptor :: "sdk_column list option option"

text \<open>An error of a batch: the partition values, and the code and message of its detail.\<close>

record sdk_partition_error =
  sp_values :: "string list"
  sp_detail :: "(string option \<times> string option) option"

record PartitionInput =
  pn_values :: "string list"
  pn_parameters :: "(string \<times> string) list"
  pn_columns :: "sdk_column list"
  pn_compressed :: bool
  pn_input_format :: string
  pn_location :: string
  pn_output_format :: string
  pn_serde_parameters :: "(string \<times> string) list"
  pn_serde_library :: string
  pn_stored_as_sub_directories :: bool

text \<open>The requests. A partition answers with its storage descriptor and the location in it.\<close>

record 'g glue_sdk =
  sdk_get_table :: "GlueTarget \<Rightarrow> 'g \<Rightarrow> 'g \<times> (sdk_error + sdk_table option)"
  sdk_get_partition :: "GlueTarget \<Rightarrow> string list \<Rightarrow> 'g \<Rightarrow> 'g \<times> (sdk_error + string option option option)"
  sdk_batch_create_partition :: "GlueTarget \<Rightarrow> PartitionInput list \<Rightarrow> 'g \<Rightarrow> 'g \<times> (sdk_error + sdk_partition_error list)"
  sdk_update_partition :: "GlueTarget \<Rightarrow> string list \<Rightarrow> PartitionInput \<Rightarrow> 'g \<Rightarrow> 'g \<times> (sdk_error + unit)"

definition classify_sdk_error :: "sdk_error \<Rightarrow> GlueApiError" where
  "classify_sdk_error err = classify_glue_code (se_code err) (se_message err)"

text \<open>The column builder fails only when no name is set, so \<open>partition_input\<close> always succeeds.\<close>

definition partition_input :: "GluePartitionSpec \<Rightarrow> PartitionInput" where
  "partition_input p = \<lparr>pn_values = gs_values p, pn_parameters = [(''parquet.compression'', ''SNAPPY'')],
     pn_columns = map (\<lambda>c. \<lparr>sc_name = gc_name c, sc_type = Some (gc_type c), sc_comment = gc_comment c\<rparr>) (gs_storage_columns p),
     pn_compressed = True, pn_input_format = gs_input_format p, pn_location = gs_location p, pn_output_format = gs_output_format p,
     pn_serde_parameters = [(''serialization.format'', ''1'')], pn_serde_library = gs_serde_library p, pn_stored_as_sub_directories = True\<rparr>"

definition to_column :: "sdk_column \<Rightarrow> GlueColumnIntent" where
  "to_column c = from_glue_fields (sc_name c) (sc_type c) (sc_comment c)"

definition or_empty :: "'a list option \<Rightarrow> 'a list" where
  "or_empty x = (case x of Some xs \<Rightarrow> xs | None \<Rightarrow> [])"

definition aws_table_layout :: "'g glue_sdk \<Rightarrow> GlueTarget \<Rightarrow> 'g \<Rightarrow> 'g \<times> (GlueApiError + GlueTableLayout)" where
  "aws_table_layout sdk target g = (case sdk_get_table sdk target g of
      (g', Inl err) \<Rightarrow> (g', Inl (classify_sdk_error err))
    | (g', Inr None) \<Rightarrow> (g', Inl \<lparr>ge_kind = Transient, ge_message = ''GetTable returned no table definition''\<rparr>)
    | (g', Inr (Some t)) \<Rightarrow> (g', Inr \<lparr>gl_partition_columns = map to_column (or_empty (st_partition_keys t)),
         gl_storage_columns = map to_column (or_empty (Option.bind (st_storage_descriptor t) id))\<rparr>))"

definition aws_get_partition :: "'g glue_sdk \<Rightarrow> GlueTarget \<Rightarrow> string list \<Rightarrow> 'g \<Rightarrow> 'g \<times> (GlueApiError + string option)" where
  "aws_get_partition sdk target values g = (case sdk_get_partition sdk target values g of
      (g', Inr out) \<Rightarrow> (g', Inr (Some (case Option.bind out (\<lambda>d. Option.bind d id) of Some loc \<Rightarrow> loc | None \<Rightarrow> [])))
    | (g', Inl err) \<Rightarrow> if se_entity_not_found err then (g', Inr None) else (g', Inl (classify_sdk_error err)))"

text \<open>\<open>Debug\<close> of strings and options; bytes beyond ASCII are printed as they are.\<close>

definition hex_nat :: "nat \<Rightarrow> string" where
  "hex_nat n = (let d = (\<lambda>k. ''0123456789abcdef'' ! k) in if n < 16 then [d n] else [d (n div 16 mod 16), d (n mod 16)])"

definition escape_debug :: "char \<Rightarrow> string" where
  "escape_debug c = (let n = of_char c :: nat in
     if n = 0 then [CHR 0x5C, CHR ''0''] else if n = 9 then [CHR 0x5C, CHR ''t''] else if n = 10 then [CHR 0x5C, CHR ''n''] else if n = 13 then [CHR 0x5C, CHR ''r'']
     else if n = 34 \<or> n = 92 then [CHR 0x5C, c]
     else if n < 32 \<or> n = 127 then [CHR 0x5C, CHR ''u'', CHR 0x7B] @ hex_nat n @ [CHR 0x7D] else [c])"

definition debug_str :: "string \<Rightarrow> string" where
  "debug_str s = [CHR 0x22] @ concat (map escape_debug s) @ [CHR 0x22]"

definition debug_opt :: "string option \<Rightarrow> string" where
  "debug_opt x = (case x of None \<Rightarrow> ''None'' | Some s \<Rightarrow> ''Some('' @ debug_str s @ '')'')"

fun join_comma :: "string list \<Rightarrow> string" where
  "join_comma [] = []"
| "join_comma [x] = x"
| "join_comma (x # xs) = x @ '', '' @ join_comma xs"

definition debug_values :: "string list \<Rightarrow> string" where
  "debug_values vs = ''['' @ join_comma (map debug_str vs) @ '']''"

definition debug_columns :: "GlueColumnIntent list \<Rightarrow> string" where
  "debug_columns cs = ''['' @ join_comma (map (\<lambda>c. ''GlueColumnIntent { name: '' @ debug_str (gc_name c) @ '', type: '' @ debug_str (gc_type c)
     @ '', comment: '' @ debug_opt (gc_comment c) @ '' }'') cs) @ '']''"

text \<open>The map from partition values to their index keeps the last of equal values.\<close>

fun last_index :: "string list \<Rightarrow> GluePartitionSpec list \<Rightarrow> nat \<Rightarrow> nat option" where
  "last_index vs [] k = None"
| "last_index vs (p # ps) k = (case last_index vs ps (Suc k) of Some i \<Rightarrow> Some i | None \<Rightarrow> if gs_values p = vs then Some k else None)"

definition partition_error_outcome :: "sdk_partition_error \<Rightarrow> GlueBatchCreateOutcome" where
  "partition_error_outcome e =
     (let code = Option.bind (sp_detail e) fst;
          message = (case Option.bind (sp_detail e) snd of Some m \<Rightarrow> m | None \<Rightarrow> (case code of Some c \<Rightarrow> c | None \<Rightarrow> ''UnknownGlueError''));
          err = classify_glue_code code (debug_opt code @ '': '' @ message)
      in if ge_kind err = AlreadyExists then OutcomeAlreadyExists else Failed err)"

fun batch_outcomes :: "GluePartitionSpec list \<Rightarrow> sdk_partition_error list \<Rightarrow> GlueBatchCreateOutcome list \<Rightarrow> GlueApiError + GlueBatchCreateOutcome list" where
  "batch_outcomes ps [] outcomes = Inr outcomes"
| "batch_outcomes ps (e # es) outcomes = (case last_index (sp_values e) ps 0 of
      None \<Rightarrow> Inl \<lparr>ge_kind = Transient, ge_message = ''BatchCreatePartition returned an error for unknown values '' @ debug_values (sp_values e)\<rparr>
    | Some i \<Rightarrow> batch_outcomes ps es (outcomes[i := partition_error_outcome e]))"

definition aws_batch_create_partitions :: "'g glue_sdk \<Rightarrow> GlueTarget \<Rightarrow> GluePartitionSpec list \<Rightarrow> 'g \<Rightarrow> 'g \<times> (GlueApiError + GlueBatchCreateOutcome list)" where
  "aws_batch_create_partitions sdk target ps g = (case sdk_batch_create_partition sdk target (map partition_input ps) g of
      (g', Inl err) \<Rightarrow> (g', Inl (classify_sdk_error err))
    | (g', Inr errors) \<Rightarrow> (g', batch_outcomes ps errors (replicate (length ps) Created)))"

definition aws_update_partition :: "'g glue_sdk \<Rightarrow> GlueTarget \<Rightarrow> GluePartitionSpec \<Rightarrow> 'g \<Rightarrow> 'g \<times> (GlueApiError + unit)" where
  "aws_update_partition sdk target p g = (case sdk_update_partition sdk target (gs_values p) (partition_input p) g of
      (g', r) \<Rightarrow> (g', map_errR classify_sdk_error r))"

definition aws_executor :: "'g glue_sdk \<Rightarrow> 'g GlueExecutor" where
  "aws_executor sdk = \<lparr>ex_table_layout = aws_table_layout sdk, ex_get_partition = aws_get_partition sdk,
     ex_batch_create_partitions = aws_batch_create_partitions sdk, ex_update_partition = aws_update_partition sdk\<rparr>"

end
