(* ===== verification/Catalog_Coordinator.thy ===== *)
theory Catalog_Coordinator
  imports Glue_Executor
begin

text \<open>
  The coordinator that delivers the outbox to AWS Glue (\<^verbatim>\<open>src/src/catalog_coordinator.rs\<close>), over any executor. A drain is
  sequential but for the lookups of a group, whose call and completion orders are arguments, and for the
  intents other tasks persist meanwhile, which arrive before each access to the outbox. The state keeps the
  events of the drain in order: requests with their answers and conditional mutations of the outbox with
  theirs. Tracing, metrics, the registry of coordinators and the permits of the operation budget are left out.
\<close>

section \<open>State and events\<close>

datatype drain_event =
    EvLayout GlueTarget "GlueApiError + GlueTableLayout"
  | EvGet GlueTarget "string list" "GlueApiError + string option"
  | EvCreate GlueTarget "GluePartitionSpec list" "GlueApiError + GlueBatchCreateOutcome list"
  | EvUpdate GlueTarget GluePartitionSpec "GlueApiError + unit"
  | EvMarked PendingCatalogIntent "ob_error + ConditionalMutationResult"
  | EvFailed PendingCatalogIntent string "u64 option" bool "ob_error + ConditionalMutationResult"

record 'g drain =
  ds_outbox :: outbox
  ds_glue :: 'g
  ds_step :: nat
  ds_log :: "drain_event list"

text \<open>What the surroundings decide, per access to the outbox: the clock, errors of the file system and of the
  blocking task, the random number of a retry delay and the intents persisted by others just before; and the
  orders of the lookups of a group of a given size, as lists of indices.\<close>

record drain_env =
  dr_outbox :: outbox_env
  dr_now :: "nat \<Rightarrow> u64"
  dr_write_fault :: "nat \<Rightarrow> string option"
  dr_remove_fault :: "nat \<Rightarrow> string option"
  dr_sync_fault :: "nat \<Rightarrow> string option"
  dr_join_fault :: "nat \<Rightarrow> string option"
  dr_jitter :: "nat \<Rightarrow> u64"
  dr_persists :: "nat \<Rightarrow> CatalogIntent list"
  dr_call_order :: "nat \<Rightarrow> nat \<Rightarrow> nat list"
  dr_done_order :: "nat \<Rightarrow> nat \<Rightarrow> nat list"

type_synonym ('g, 'a) drain_op = "'g drain \<Rightarrow> 'g drain \<times> (ob_error + 'a)"

definition dret :: "'a \<Rightarrow> ('g, 'a) drain_op" where "dret x s = (s, Inr x)"

definition dbind :: "('g, 'a) drain_op \<Rightarrow> ('a \<Rightarrow> ('g, 'b) drain_op) \<Rightarrow> ('g, 'b) drain_op" where
  "dbind m k s = (case m s of (s', Inl e) \<Rightarrow> (s', Inl e) | (s', Inr x) \<Rightarrow> k x s')"

fun for_each :: "('a \<Rightarrow> ('g, unit) drain_op) \<Rightarrow> 'a list \<Rightarrow> ('g, unit) drain_op" where
  "for_each f [] = dret ()"
| "for_each f (x # xs) = dbind (f x) (\<lambda>_. for_each f xs)"

definition reorder :: "(nat \<Rightarrow> nat list) \<Rightarrow> 'a list \<Rightarrow> 'a list" where
  "reorder order xs = map (\<lambda>i. xs ! i) (filter (\<lambda>i. i < length xs) (order (length xs)))"

function slice_chunks :: "nat \<Rightarrow> 'a list \<Rightarrow> 'a list list" where
  "slice_chunks n xs = (if xs = [] \<or> n = 0 then [] else take n xs # slice_chunks n (drop n xs))"
  by auto
termination by (relation "measure (\<lambda>(n, xs). length xs)") auto

declare slice_chunks.simps [simp del]

section \<open>Outbox mutations of the coordinator\<close>

text \<open>The intents of other tasks, then the access itself in a blocking task.\<close>

definition others_persist :: "drain_env \<Rightarrow> 'g drain \<Rightarrow> outbox" where
  "others_persist env s = fst (outbox_persist (dr_outbox env) (\<lambda>_. dr_write_fault env (ds_step s)) (dr_sync_fault env (ds_step s))
     (\<lambda>_. dr_now env (ds_step s)) (dr_persists env (ds_step s)) (ds_outbox s))"

definition blocking :: "drain_env \<Rightarrow> string \<Rightarrow> (outbox \<Rightarrow> outbox \<times> (ob_error + 'a)) \<Rightarrow> ((ob_error + 'a) \<Rightarrow> drain_event list) \<Rightarrow> ('g, 'a) drain_op" where
  "blocking env what f ev s =
     (let ob = others_persist env s; k = ds_step s in
      case dr_join_fault env k of
        Some e \<Rightarrow> (s\<lparr>ds_outbox := ob, ds_step := Suc k\<rparr>, Inl (ObIo (what @ e)))
      | None \<Rightarrow> (case f ob of (ob', r) \<Rightarrow> (s\<lparr>ds_outbox := ob', ds_step := Suc k, ds_log := ds_log s @ ev r\<rparr>, r)))"

definition mark_delivered :: "drain_env \<Rightarrow> PendingCatalogIntent \<Rightarrow> ('g, ConditionalMutationResult) drain_op" where
  "mark_delivered env pending s = blocking env ''catalog delivery task failed: ''
     (mark_delivered_if (dr_outbox env) (dr_remove_fault env (ds_step s)) (dr_sync_fault env (ds_step s)) pending)
     (\<lambda>r. [EvMarked pending r]) s"

definition record_failure_durable :: "drain_env \<Rightarrow> PendingCatalogIntent \<Rightarrow> string \<Rightarrow> u64 option \<Rightarrow> bool \<Rightarrow> ('g, ConditionalMutationResult) drain_op" where
  "record_failure_durable env pending error retry_after terminal s = blocking env ''catalog failure task failed: ''
     (record_failure_if (dr_outbox env) (dr_write_fault env (ds_step s)) (dr_sync_fault env (ds_step s)) (dr_now env (ds_step s)) pending error retry_after terminal)
     (\<lambda>r. [EvFailed pending error retry_after terminal r]) s"

definition record_glue_failure :: "drain_env \<Rightarrow> PendingCatalogIntent \<Rightarrow> GlueApiError \<Rightarrow> ('g, unit) drain_op" where
  "record_glue_failure env pending error s =
     (let transient = ge_kind error \<in> {Transient, NotFound, AlreadyExists};
          delay = (if transient then Some (retry_delay (dr_jitter env (ds_step s)) (pi_attempts pending)) else None)
      in dbind (record_failure_durable env pending (ge_message error) delay (\<not> transient)) (\<lambda>_. dret ()) s)"

definition record_terminal_invalid :: "drain_env \<Rightarrow> PendingCatalogIntent \<Rightarrow> string \<Rightarrow> ('g, unit) drain_op" where
  "record_terminal_invalid env pending error = dbind (record_failure_durable env pending error None True) (\<lambda>_. dret ())"

section \<open>Draining\<close>

definition request :: "('g \<Rightarrow> 'g \<times> (GlueApiError + 'a)) \<Rightarrow> ((GlueApiError + 'a) \<Rightarrow> drain_event) \<Rightarrow> ('g, GlueApiError + 'a) drain_op" where
  "request f ev s = (case f (ds_glue s) of (g', r) \<Rightarrow> (s\<lparr>ds_glue := g', ds_log := ds_log s @ [ev r]\<rparr>, Inr r))"

definition coordinator_update_partition :: "drain_env \<Rightarrow> 'g GlueExecutor \<Rightarrow> GlueTarget \<Rightarrow> DecodedIntent \<Rightarrow> ('g, unit) drain_op" where
  "coordinator_update_partition env ex target intent =
     (let spec = partition_spec (di_payload intent) in
      dbind (request (ex_update_partition ex target spec) (EvUpdate target spec)) (\<lambda>result. case result of
          Inr _ \<Rightarrow> dbind (mark_delivered env (di_pending intent)) (\<lambda>_. dret ())
        | Inl error \<Rightarrow> record_glue_failure env (di_pending intent) error))"

definition layout_mismatch :: "GlueTarget \<Rightarrow> GlueTableLayout \<Rightarrow> DecodedIntent \<Rightarrow> GlueApiError" where
  "layout_mismatch target layout intent = \<lparr>ge_kind = Transient,
     ge_message = ''Glue table partition layout mismatch for '' @ squote @ gt_database target @ ''.'' @ gt_table target @ squote @ '': actual=''
       @ debug_columns (gl_partition_columns layout) @ '' expected='' @ debug_columns (gp_partition_columns (di_payload intent))\<rparr>"

text \<open>The intents that fit the live layout, with its storage columns; the others are recorded as failed.\<close>

fun check_layout :: "drain_env \<Rightarrow> GlueTarget \<Rightarrow> GlueTableLayout \<Rightarrow> DecodedIntent list \<Rightarrow> ('g, DecodedIntent list) drain_op" where
  "check_layout env target layout [] = dret []"
| "check_layout env target layout (intent # intents) =
     (if \<not> same_column_layout (gl_partition_columns layout) (gp_partition_columns (di_payload intent)) then
        dbind (record_glue_failure env (di_pending intent) (layout_mismatch target layout intent)) (\<lambda>_. check_layout env target layout intents)
      else dbind (check_layout env target layout intents) (\<lambda>valid.
        dret (intent\<lparr>di_payload := (di_payload intent)\<lparr>gp_storage_columns := gl_storage_columns layout\<rparr>\<rparr> # valid)))"

fun inspect_all :: "'g GlueExecutor \<Rightarrow> GlueTarget \<Rightarrow> DecodedIntent list \<Rightarrow> ('g, (DecodedIntent \<times> (GlueApiError + string option)) list) drain_op" where
  "inspect_all ex target [] = dret []"
| "inspect_all ex target (intent # intents) =
     dbind (request (ex_get_partition ex target (gp_partition_values (di_payload intent))) (EvGet target (gp_partition_values (di_payload intent)))) (\<lambda>r.
     dbind (inspect_all ex target intents) (\<lambda>rest. dret ((intent, r) # rest)))"

fun apply_inspected :: "drain_env \<Rightarrow> 'g GlueExecutor \<Rightarrow> GlueTarget \<Rightarrow> (DecodedIntent \<times> (GlueApiError + string option)) list \<Rightarrow> ('g, DecodedIntent list) drain_op" where
  "apply_inspected env ex target [] = dret []"
| "apply_inspected env ex target ((intent, result) # rest) = (case result of
      Inr (Some current) \<Rightarrow>
        dbind (if current = gp_location (di_payload intent) then dbind (mark_delivered env (di_pending intent)) (\<lambda>_. dret ())
               else coordinator_update_partition env ex target intent) (\<lambda>_. apply_inspected env ex target rest)
    | Inr None \<Rightarrow> dbind (apply_inspected env ex target rest) (\<lambda>missing. dret (intent # missing))
    | Inl error \<Rightarrow> dbind (record_glue_failure env (di_pending intent) error) (\<lambda>_. apply_inspected env ex target rest))"

definition settle_outcome :: "drain_env \<Rightarrow> DecodedIntent \<times> GlueBatchCreateOutcome \<Rightarrow> ('g, unit) drain_op" where
  "settle_outcome env = (\<lambda>(intent, outcome). case outcome of
      Created \<Rightarrow> dbind (mark_delivered env (di_pending intent)) (\<lambda>_. dret ())
    | OutcomeAlreadyExists \<Rightarrow> record_glue_failure env (di_pending intent)
        \<lparr>ge_kind = AlreadyExists, ge_message = ''AlreadyExistsException: recheck partition''\<rparr>
    | Failed error \<Rightarrow> record_glue_failure env (di_pending intent) error)"

definition create_batch :: "drain_env \<Rightarrow> 'g GlueExecutor \<Rightarrow> GlueTarget \<Rightarrow> DecodedIntent list \<Rightarrow> ('g, unit) drain_op" where
  "create_batch env ex target batch =
     (let specs = map (partition_spec \<circ> di_payload) batch in
      dbind (request (ex_batch_create_partitions ex target specs) (EvCreate target specs)) (\<lambda>result. case result of
          Inr outcomes \<Rightarrow>
            if length outcomes = length batch then for_each (settle_outcome env) (zip batch outcomes)
            else for_each (\<lambda>intent. record_glue_failure env (di_pending intent) \<lparr>ge_kind = Transient,
              ge_message = ''BatchCreatePartition returned '' @ show_nat (length outcomes) @ '' outcomes for '' @ show_nat (length batch) @ '' inputs''\<rparr>) batch
        | Inl error \<Rightarrow> for_each (\<lambda>intent. record_glue_failure env (di_pending intent) error) batch))"

definition drain_group :: "drain_env \<Rightarrow> 'g GlueExecutor \<Rightarrow> GlueTarget \<Rightarrow> DecodedIntent list \<Rightarrow> ('g, unit) drain_op" where
  "drain_group env ex target intents =
     dbind (request (ex_table_layout ex target) (EvLayout target)) (\<lambda>r. case r of
         Inl error \<Rightarrow> for_each (\<lambda>intent. record_glue_failure env (di_pending intent) error) intents
       | Inr layout \<Rightarrow>
           dbind (check_layout env target layout intents) (\<lambda>valid s.
           dbind (inspect_all ex target (reorder (dr_call_order env (ds_step s)) valid)) (\<lambda>inspected.
           dbind (apply_inspected env ex target (reorder (dr_done_order env (ds_step s)) inspected)) (\<lambda>missing.
             for_each (create_batch env ex target) (slice_chunks GLUE_BATCH_CREATE_LIMIT missing))) s))"

fun decode_due :: "drain_env \<Rightarrow> PendingCatalogIntent list \<Rightarrow> ('g, DecodedIntent list) drain_op" where
  "decode_due env [] = dret []"
| "decode_due env (pending # due) =
     (if \<not> is_admissible (pi_intent pending) then
        dbind (record_terminal_invalid env pending ''terminal invalid Glue partition intent'') (\<lambda>_. decode_due env due)
      else dbind (decode_due env due) (\<lambda>decoded. dret (\<lparr>di_pending = pending, di_payload = in_payload (pi_intent pending)\<rparr> # decoded)))"

type_synonym group_key = "string option \<times> string option \<times> string \<times> string"

definition intent_group_key :: "DecodedIntent \<Rightarrow> group_key" where
  "intent_group_key intent = (let p = di_payload intent in (gp_region p, gp_catalog_id p, gp_database p, gp_table p))"

fun group_intents :: "DecodedIntent list \<Rightarrow> (group_key, DecodedIntent list) fmap \<Rightarrow> (group_key, DecodedIntent list) fmap" where
  "group_intents [] groups = groups"
| "group_intents (intent # intents) groups = group_intents intents
     (fmupd (intent_group_key intent) ((case fmlookup groups (intent_group_key intent) of Some xs \<Rightarrow> xs | None \<Rightarrow> []) @ [intent]) groups)"

definition target_of_key :: "group_key \<Rightarrow> GlueTarget" where
  "target_of_key = (\<lambda>(region, catalog_id, database, table). \<lparr>gt_region = region, gt_catalog_id = catalog_id, gt_database = database, gt_table = table\<rparr>)"

definition load_due :: "drain_env \<Rightarrow> ('g, PendingCatalogIntent list) drain_op" where
  "load_due env s = blocking env ''catalog due-load task failed: ''
     (\<lambda>ob. (ob, scan_eligible_pending (dr_outbox env) (dr_now env (ds_step s)) RECOVERY_SCAN_LIMIT ob)) (\<lambda>_. []) s"

definition drain_once :: "drain_env \<Rightarrow> 'g GlueExecutor \<Rightarrow> ('g, unit) drain_op" where
  "drain_once env ex =
     dbind (load_due env) (\<lambda>due.
     dbind (decode_due env due) (\<lambda>decoded.
       for_each (\<lambda>(key, intents). drain_group env ex (target_of_key key) intents) (btree_entries (group_intents decoded fmempty))))"

text \<open>\<open>drain_until_idle\<close>: the list holds the time left until the deadline at each turn; its end is a loop that is still running.\<close>

fun drain_until_idle :: "drain_env \<Rightarrow> 'g GlueExecutor \<Rightarrow> u64 list \<Rightarrow> 'g drain \<Rightarrow> ('g drain \<times> (ob_error + unit)) option" where
  "drain_until_idle env ex [] s = None"
| "drain_until_idle env ex (remaining # turns) s =
     (if sn_due_count (metadata_snapshot (dr_now env (ds_step s)) (ds_outbox s)) = 0 then Some (s, Inr ())
      else if remaining = 0 then Some (s, Inr ())
      else (case drain_once env ex s of
          (s', Inl e) \<Rightarrow> Some (s', Inl e)
        | (s', Inr _) \<Rightarrow> drain_until_idle env ex turns s'))"

text \<open>\<open>persist\<close>: the second component of a success says whether the worker is notified.\<close>

definition coordinator_persist ::
  "outbox_env \<Rightarrow> (nat \<Rightarrow> string option) \<Rightarrow> string option \<Rightarrow> (nat \<Rightarrow> u64) \<Rightarrow> CatalogIntent list \<Rightarrow> outbox \<Rightarrow> outbox \<times> (ob_error + bool)"
where
  "coordinator_persist env faults sync clock intents ob = (case outbox_persist env faults sync clock intents ob of
      (ob', Inl e) \<Rightarrow> (ob', Inl e)
    | (ob', Inr sm) \<Rightarrow> (ob', Inr (0 < sm_inserted sm + sm_updated sm)))"

section \<open>What a step may do\<close>

text \<open>Glue acknowledges an entry when it answers its location for the entry's partition, or accepts an update
  or a creation of it, in the table the entry names.\<close>

definition payload_target :: "GluePartitionCatalogIntentV1 \<Rightarrow> GlueTarget" where
  "payload_target p = \<lparr>gt_region = gp_region p, gt_catalog_id = gp_catalog_id p, gt_database = gp_database p, gt_table = gp_table p\<rparr>"

definition registers :: "GluePartitionSpec \<Rightarrow> GluePartitionCatalogIntentV1 \<Rightarrow> bool" where
  "registers spec p \<longleftrightarrow> spec = partition_spec (p\<lparr>gp_storage_columns := gs_storage_columns spec\<rparr>)"

fun acks_payload :: "drain_event \<Rightarrow> GluePartitionCatalogIntentV1 \<Rightarrow> bool" where
  "acks_payload (EvGet t vs (Inr (Some loc))) p \<longleftrightarrow> t = payload_target p \<and> vs = gp_partition_values p \<and> loc = gp_location p"
| "acks_payload (EvUpdate t spec (Inr u)) p \<longleftrightarrow> t = payload_target p \<and> registers spec p"
| "acks_payload (EvCreate t specs (Inr outs)) p \<longleftrightarrow> t = payload_target p \<and> length outs = length specs
     \<and> list_ex (\<lambda>(spec, out). registers spec p \<and> out = Created) (zip specs outs)"
| "acks_payload _ p \<longleftrightarrow> False"

abbreviation acks :: "drain_event \<Rightarrow> PendingCatalogIntent \<Rightarrow> bool" where
  "acks ev e \<equiv> acks_payload ev (in_payload (pi_intent e))"

definition acked_log :: "drain_event list \<Rightarrow> bool" where
  "acked_log log \<longleftrightarrow> (\<forall>xs e r ys. log = xs @ EvMarked e r # ys \<longrightarrow> (\<exists>a\<in>set xs. acks a e))"

lemma acked_log_snoc: "acked_log (log @ [x]) \<longleftrightarrow> acked_log log \<and> (\<forall>e r. x = EvMarked e r \<longrightarrow> (\<exists>a\<in>set log. acks a e))"
proof -
  have split: "log @ [x] = xs @ EvMarked e r # ys \<longleftrightarrow> (ys = [] \<and> xs = log \<and> x = EvMarked e r) \<or> (\<exists>ys'. ys = ys' @ [x] \<and> log = xs @ EvMarked e r # ys')" for xs e r ys
    by (cases ys rule: rev_cases) auto
  show ?thesis unfolding acked_log_def split by blast
qed

definition marked_ids :: "drain_event list \<Rightarrow> string set" where
  "marked_ids log = {pi_id e | e r. EvMarked e r \<in> set log}"

definition drel :: "drain_env \<Rightarrow> 'g drain \<Rightarrow> 'g drain \<Rightarrow> bool" where
  "drel env s s' \<longleftrightarrow> outbox_inv (dr_outbox env) (ds_outbox s) \<longrightarrow> outbox_inv (dr_outbox env) (ds_outbox s')
     \<and> (\<forall>i. fmlookup (ob_files (ds_outbox s)) i \<noteq> None \<longrightarrow> fmlookup (ob_files (ds_outbox s')) i \<noteq> None \<or> i \<in> marked_ids (ds_log s'))
     \<and> prefix (ds_log s) (ds_log s') \<and> (acked_log (ds_log s) \<longrightarrow> acked_log (ds_log s'))"

lemma marked_ids_mono: "prefix l l' \<Longrightarrow> marked_ids l \<subseteq> marked_ids l'"
  by (fastforce simp: marked_ids_def prefix_def)

lemma drel_refl [simp]: "drel env s s"
  by (simp add: drel_def)

lemma drel_trans: "drel env s1 s2 \<Longrightarrow> drel env s2 s3 \<Longrightarrow> drel env s1 s3"
  unfolding drel_def using marked_ids_mono prefix_order.trans by (metis subsetD)

section \<open>Triples over the steps\<close>

definition stable :: "drain_env \<Rightarrow> ('g drain \<Rightarrow> bool) \<Rightarrow> bool" where
  "stable env P \<longleftrightarrow> (\<forall>s s'. outbox_inv (dr_outbox env) (ds_outbox s) \<longrightarrow> drel env s s' \<longrightarrow> P s \<longrightarrow> P s')"

definition triple :: "drain_env \<Rightarrow> ('g drain \<Rightarrow> bool) \<Rightarrow> ('g, 'a) drain_op \<Rightarrow> ('a \<Rightarrow> 'g drain \<Rightarrow> bool) \<Rightarrow> bool" where
  "triple env P m Q \<longleftrightarrow> (\<forall>s s' r. outbox_inv (dr_outbox env) (ds_outbox s) \<longrightarrow> P s \<longrightarrow> m s = (s', r) \<longrightarrow> drel env s s' \<and> (\<forall>x. r = Inr x \<longrightarrow> Q x s'))"

lemma drel_inv: "drel env s s' \<Longrightarrow> outbox_inv (dr_outbox env) (ds_outbox s) \<Longrightarrow> outbox_inv (dr_outbox env) (ds_outbox s')"
  by (simp add: drel_def)

lemma stable_log: "stable env (\<lambda>s. \<exists>a\<in>set (ds_log s). Q a)" "stable env (\<lambda>s. a \<in> set (ds_log s))"
  by (auto simp: stable_def drel_def prefix_def)

lemma stable_True: "stable env (\<lambda>_. True)"
  by (simp add: stable_def)

lemma stable_conj: "stable env P \<Longrightarrow> stable env Q \<Longrightarrow> stable env (\<lambda>s. P s \<and> Q s)"
  unfolding stable_def by metis

lemma stable_ball: "(\<And>x. x \<in> A \<Longrightarrow> stable env (P x)) \<Longrightarrow> stable env (\<lambda>s. \<forall>x\<in>A. P x s)"
  unfolding stable_def by metis

lemma triple_dret: "(\<And>s. P s \<Longrightarrow> Q x s) \<Longrightarrow> triple env P (dret x) Q"
  by (simp add: triple_def dret_def)

lemma triple_dbind:
  assumes m: "triple env P m Q" and k: "\<And>x. triple env (Q x) (k x) R"
  shows "triple env P (dbind m k) R"
  unfolding triple_def
proof (intro allI impI)
  fix s s' r assume s: "outbox_inv (dr_outbox env) (ds_outbox s)" "P s" "dbind m k s = (s', r)"
  obtain s1 r1 where 1: "m s = (s1, r1)" by fastforce
  have d1: "drel env s s1" "\<And>x. r1 = Inr x \<Longrightarrow> Q x s1" using m s(1,2) 1 unfolding triple_def by blast+
  show "drel env s s' \<and> (\<forall>x. r = Inr x \<longrightarrow> R x s')"
  proof (cases r1)
    case (Inl e)
    then show ?thesis using s(3) 1 d1(1) by (auto simp: dbind_def)
  next
    case (Inr x)
    then have "k x s1 = (s', r)" using s(3) 1 by (simp add: dbind_def)
    then have "drel env s1 s' \<and> (\<forall>x. r = Inr x \<longrightarrow> R x s')" using k[of x] d1(2)[OF Inr] drel_inv[OF d1(1) s(1)] unfolding triple_def by blast
    then show ?thesis using drel_trans[OF d1(1)] by blast
  qed
qed

lemma triple_frame: "triple env P m Q \<Longrightarrow> stable env F \<Longrightarrow> triple env (\<lambda>s. P s \<and> F s) m (\<lambda>x s. Q x s \<and> F s)"
  unfolding triple_def stable_def by metis

lemma triple_weaken: "triple env P m Q \<Longrightarrow> (\<And>s. P' s \<Longrightarrow> P s) \<Longrightarrow> (\<And>x s. Q x s \<Longrightarrow> Q' x s) \<Longrightarrow> triple env P' m Q'"
  unfolding triple_def by blast

lemma triple_for_each:
  assumes "\<And>x. x \<in> set xs \<Longrightarrow> triple env (P x) (f x) (\<lambda>_. S x)" "\<And>x. x \<in> set xs \<Longrightarrow> stable env (P x)" "\<And>x. x \<in> set xs \<Longrightarrow> stable env (S x)"
  shows "triple env (\<lambda>s. \<forall>x\<in>set xs. P x s) (for_each f xs) (\<lambda>_ s. \<forall>x\<in>set xs. S x s)"
  using assms
proof (induction xs)
  case Nil
  then show ?case by (simp add: triple_dret)
next
  case (Cons x xs)
  have st: "stable env (\<lambda>s. \<forall>y\<in>set xs. P y s)" by (rule stable_ball) (simp add: Cons.prems(2))
  have "triple env (\<lambda>s. P x s \<and> (\<forall>y\<in>set xs. P y s)) (f x) (\<lambda>_ s. S x s \<and> (\<forall>y\<in>set xs. P y s))"
    by (rule triple_frame[OF _ st]) (simp add: Cons.prems(1))
  then have one: "triple env (\<lambda>s. \<forall>y\<in>set (x # xs). P y s) (f x) (\<lambda>_ s. (\<forall>y\<in>set xs. P y s) \<and> S x s)" by (rule triple_weaken) auto
  have rest: "triple env (\<lambda>s. (\<forall>y\<in>set xs. P y s) \<and> S x s) (for_each f xs) (\<lambda>_ s. (\<forall>y\<in>set xs. S y s) \<and> S x s)"
    by (rule triple_frame) (simp_all add: Cons.IH Cons.prems)
  show ?case unfolding for_each.simps
    by (rule triple_dbind[OF one], rule triple_weaken[OF rest]) auto
qed

section \<open>The steps keep the outbox\<close>

lemma persist_one_keeps:
  assumes "persist_one env fault now intent (ob, sm) = ((ob', sm'), r)" "fmlookup (ob_files ob) i \<noteq> None"
  shows "fmlookup (ob_files ob') i \<noteq> None"
proof -
  have w: "fmlookup files i \<noteq> None" if "write_entry_atomic_rename env fault j e (ob_files ob) = Inr files" for j e files
    using that assms(2) by (auto simp: write_entry_atomic_rename_def bindR_Inr_iff split: if_splits option.splits)
  show ?thesis using assms w
    by (fastforce simp: persist_one_def Let_def dir_change_def split: sum.splits if_splits)
qed

lemma persist_loop_keeps: "persist_loop env faults clock k intents s = (s', r) \<Longrightarrow> fmlookup (ob_files (fst s)) i \<noteq> None \<Longrightarrow> fmlookup (ob_files (fst s')) i \<noteq> None"
proof (induction intents arbitrary: k s)
  case (Cons intent intents)
  obtain ob sm ob1 sm1 r1 where s: "s = (ob, sm)" "persist_one env (faults k) (clock k) intent (ob, sm) = ((ob1, sm1), r1)"
    by (metis prod.collapse)
  have "fmlookup (ob_files ob1) i \<noteq> None" using persist_one_keeps[OF s(2)] Cons.prems(2) s(1) by simp
  then show ?case using Cons s by (auto split: option.splits)
qed simp

lemma persist_keeps:
  assumes "outbox_persist env faults sync clock intents ob = (ob', r)" "fmlookup (ob_files ob) i \<noteq> None"
  shows "fmlookup (ob_files ob') i \<noteq> None"
proof -
  obtain ob1 sm1 r1 where l: "persist_loop env faults clock 0 intents (ob, \<lparr>sm_inserted = 0, sm_coalesced = 0, sm_updated = 0\<rparr>) = ((ob1, sm1), r1)"
    by (metis prod.collapse)
  have "fmlookup (ob_files ob1) i \<noteq> None" using persist_loop_keeps[OF l] assms(2) by simp
  then show ?thesis using assms(1) l by (auto simp: outbox_persist_def sync_directory_def split: option.splits if_splits)
qed

lemma mark_delivered_keeps:
  assumes "mark_delivered_if env remove sync expected ob = (ob', r)" "fmlookup (ob_files ob) i \<noteq> None"
  shows "fmlookup (ob_files ob') i \<noteq> None \<or> i = pi_id expected"
  using assms by (auto simp: mark_delivered_if_def Let_def dir_change_def sync_directory_def split: sum.splits option.splits)

lemma record_failure_keeps:
  assumes "record_failure_if env fault sync now expected error retry_after terminal ob = (ob', r)" "fmlookup (ob_files ob) i \<noteq> None"
  shows "fmlookup (ob_files ob') i \<noteq> None"
proof -
  have w: "fmlookup files i \<noteq> None" if "write_entry_atomic_rename env fault j e (ob_files ob) = Inr files" for j e files
    using that assms(2) by (auto simp: write_entry_atomic_rename_def bindR_Inr_iff split: if_splits option.splits)
  show ?thesis using assms w
    by (fastforce simp: record_failure_if_def Let_def dir_change_def sync_directory_def split: sum.splits option.splits)
qed

lemma others_persist_ok:
  assumes "outbox_env_ok (dr_outbox env)" "outbox_inv (dr_outbox env) (ds_outbox s)"
  shows "outbox_inv (dr_outbox env) (others_persist env s)"
    "fmlookup (ob_files (ds_outbox s)) i \<noteq> None \<Longrightarrow> fmlookup (ob_files (others_persist env s)) i \<noteq> None"
  using persist_inv[OF assms prod.collapse[symmetric]] persist_keeps[OF prod.collapse[symmetric], where ob = "ds_outbox s"]
  by (auto simp: others_persist_def)

lemma blocking_run:
  assumes env: "outbox_env_ok (dr_outbox env)" and inv: "outbox_inv (dr_outbox env) (ds_outbox s)" and run: "blocking env what f ev s = (s', r)"
    and f: "\<And>ob ob' r. outbox_inv (dr_outbox env) ob \<Longrightarrow> f ob = (ob', r) \<Longrightarrow> outbox_inv (dr_outbox env) ob'
      \<and> (\<forall>i. fmlookup (ob_files ob) i \<noteq> None \<longrightarrow> fmlookup (ob_files ob') i \<noteq> None \<or> i \<in> marked_ids (ev r))"
    and ack: "\<And>r. acked_log (ds_log s) \<Longrightarrow> acked_log (ds_log s @ ev r)"
  shows "drel env s s' \<and> (\<forall>x. r = Inr x \<longrightarrow> set (ev (Inr x)) \<subseteq> set (ds_log s'))"
proof (cases "dr_join_fault env (ds_step s)")
  case (Some e)
  then show ?thesis using run others_persist_ok[OF env inv] by (auto simp: blocking_def drel_def Let_def)
next
  case None
  obtain ob' where fo: "f (others_persist env s) = (ob', r)" "s' = s\<lparr>ds_outbox := ob', ds_step := Suc (ds_step s), ds_log := ds_log s @ ev r\<rparr>"
    using run None by (auto simp: blocking_def Let_def split: prod.splits)
  have m: "marked_ids (ev r) \<subseteq> marked_ids (ds_log s @ ev r)" by (auto simp: marked_ids_def)
  have "outbox_inv (dr_outbox env) ob'" "\<And>i. fmlookup (ob_files (ds_outbox s)) i \<noteq> None \<Longrightarrow> fmlookup (ob_files ob') i \<noteq> None \<or> i \<in> marked_ids (ds_log s @ ev r)"
    using f[OF others_persist_ok(1)[OF env inv] fo(1)] others_persist_ok(2)[OF env inv] m by blast+
  then show ?thesis using ack[of r] by (auto simp: fo(2) drel_def)
qed

definition settled :: "PendingCatalogIntent \<Rightarrow> 'g drain \<Rightarrow> bool" where
  "settled e s \<longleftrightarrow> (\<exists>ev\<in>set (ds_log s). case ev of EvMarked e' (Inr r) \<Rightarrow> e' = e | EvFailed e' msg d t (Inr r) \<Rightarrow> e' = e | _ \<Rightarrow> False)"

definition acknowledged :: "PendingCatalogIntent \<Rightarrow> 'g drain \<Rightarrow> bool" where
  "acknowledged e s \<longleftrightarrow> (\<exists>a\<in>set (ds_log s). acks a e)"

lemma stable_settled: "stable env (settled e)" "stable env (acknowledged e)"
  unfolding settled_def acknowledged_def by (rule stable_log)+

lemma triple_mark_delivered:
  assumes "outbox_env_ok (dr_outbox env)"
  shows "triple env (acknowledged e) (mark_delivered env e) (\<lambda>_. settled e)"
  unfolding triple_def
proof (intro allI impI)
  fix s s' r assume s: "outbox_inv (dr_outbox env) (ds_outbox s)" "acknowledged e s" "mark_delivered env e s = (s', r)"
  have "drel env s s' \<and> (\<forall>x. r = Inr x \<longrightarrow> set [EvMarked e (Inr x)] \<subseteq> set (ds_log s'))"
    by (rule blocking_run[OF assms s(1) s(3)[unfolded mark_delivered_def]])
      (use s(2) mark_delivered_inv mark_delivered_keeps in \<open>fastforce simp: acked_log_snoc acknowledged_def marked_ids_def\<close>)+
  then show "drel env s s' \<and> (\<forall>x. r = Inr x \<longrightarrow> settled e s')" by (auto simp: settled_def intro!: bexI[of _ "EvMarked e (Inr _)"])
qed

lemma triple_record_failure:
  assumes "outbox_env_ok (dr_outbox env)"
  shows "triple env (\<lambda>_. True) (record_failure_durable env e error retry_after terminal) (\<lambda>_. settled e)"
  unfolding triple_def
proof (intro allI impI)
  fix s s' r assume s: "outbox_inv (dr_outbox env) (ds_outbox s)" "record_failure_durable env e error retry_after terminal s = (s', r)"
  have "drel env s s' \<and> (\<forall>x. r = Inr x \<longrightarrow> set [EvFailed e error retry_after terminal (Inr x)] \<subseteq> set (ds_log s'))"
    by (rule blocking_run[OF assms s(1) s(2)[unfolded record_failure_durable_def]])
      (use record_failure_inv[OF assms] record_failure_keeps in \<open>fastforce simp: acked_log_snoc\<close>)+
  then show "drel env s s' \<and> (\<forall>x. r = Inr x \<longrightarrow> settled e s')"
    by (auto simp: settled_def intro!: bexI[of _ "EvFailed e error retry_after terminal (Inr _)"])
qed

section \<open>The parts of a drain\<close>

lemma triple_at: "(\<And>s0. triple env P (m s0) Q) \<Longrightarrow> triple env P (\<lambda>s. m s s) Q"
  unfolding triple_def by blast

lemma triple_then: "triple env P m (\<lambda>_. S) \<Longrightarrow> triple env P (dbind m (\<lambda>_. dret ())) (\<lambda>_. S)"
  by (rule triple_dbind) (auto intro: triple_dret)

lemma triple_True: "triple env (\<lambda>_. True) m Q \<Longrightarrow> triple env P m Q"
  by (rule triple_weaken) auto

lemma triple_seq:
  assumes "triple env P m (\<lambda>_. S)" "stable env S" "triple env (\<lambda>_. True) k R"
  shows "triple env P (dbind m (\<lambda>_. k)) (\<lambda>x s. R x s \<and> S s)"
  by (rule triple_dbind[OF assms(1)], rule triple_weaken[OF triple_frame[OF assms(3,2)]]) auto

lemma triple_glue_failure:
  assumes "outbox_env_ok (dr_outbox env)"
  shows "triple env P (record_glue_failure env e error) (\<lambda>_. settled e)"
proof -
  have "triple env (\<lambda>_. True) (\<lambda>s. record_glue_failure env e error s) (\<lambda>_. settled e)"
    unfolding record_glue_failure_def Let_def by (rule triple_at) (intro triple_then triple_record_failure[OF assms])
  then show ?thesis by (rule triple_True)
qed

lemma triple_request:
  assumes "\<And>r e x. ev r \<noteq> EvMarked e x"
  shows "triple env P (request f ev) (\<lambda>r s. ev r \<in> set (ds_log s))"
  using assms by (auto simp: triple_def request_def drel_def acked_log_snoc split: prod.splits)

definition intent_ok :: "GlueTarget \<Rightarrow> DecodedIntent \<Rightarrow> bool" where
  "intent_ok target x \<longleftrightarrow> payload_target (di_payload x) = target
     \<and> (\<exists>cols. di_payload x = (in_payload (pi_intent (di_pending x)))\<lparr>gp_storage_columns := cols\<rparr>)"

lemma intent_okD:
  assumes "intent_ok target x"
  shows "payload_target (in_payload (pi_intent (di_pending x))) = target"
    "gp_partition_values (di_payload x) = gp_partition_values (in_payload (pi_intent (di_pending x)))"
    "gp_location (di_payload x) = gp_location (in_payload (pi_intent (di_pending x)))"
    "registers (partition_spec (di_payload x)) (in_payload (pi_intent (di_pending x)))"
  using assms by (auto simp: intent_ok_def payload_target_def registers_def partition_spec_def)

lemma triple_update:
  assumes env: "outbox_env_ok (dr_outbox env)" and ok: "intent_ok target x"
  shows "triple env P (coordinator_update_partition env ex target x) (\<lambda>_. settled (di_pending x))"
  unfolding coordinator_update_partition_def Let_def
proof (rule triple_dbind[OF triple_request])
  fix r :: "GlueApiError + unit"
  let ?ev = "EvUpdate target (partition_spec (di_payload x)) r"
  show "triple env (\<lambda>s. ?ev \<in> set (ds_log s)) (case r of Inl error \<Rightarrow> record_glue_failure env (di_pending x) error
     | Inr _ \<Rightarrow> dbind (mark_delivered env (di_pending x)) (\<lambda>_. dret ())) (\<lambda>_. settled (di_pending x))"
  proof (cases r)
    case (Inr u)
    then have "acks ?ev (di_pending x)" using intent_okD[OF ok] by simp
    then have "triple env (\<lambda>s. ?ev \<in> set (ds_log s)) (mark_delivered env (di_pending x)) (\<lambda>_. settled (di_pending x))"
      by (intro triple_weaken[OF triple_mark_delivered[OF env]]) (auto simp: acknowledged_def)
    from triple_then[OF this] show ?thesis using Inr by simp
  qed (simp add: triple_glue_failure[OF env])
qed simp

lemma ball_subset: "\<forall>x\<in>set (y # ys). P x \<Longrightarrow> \<forall>x\<in>set ys. P x"
  by simp

lemma triple_check_layout:
  assumes env: "outbox_env_ok (dr_outbox env)" and ok: "\<forall>x\<in>set intents. intent_ok target x"
  shows "triple env (\<lambda>_. True) (check_layout env target layout intents) (\<lambda>valid s. (\<forall>x\<in>set valid. intent_ok target x)
    \<and> (\<forall>x\<in>set intents. settled (di_pending x) s \<or> di_pending x \<in> di_pending ` set valid))"
  using ok
proof (induction intents)
  case (Cons x intents)
  note IH = Cons.IH[OF ball_subset[OF Cons.prems]]
  show ?case
  proof (cases "same_column_layout (gl_partition_columns layout) (gp_partition_columns (di_payload x))")
    case True
    let ?x = "x\<lparr>di_payload := (di_payload x)\<lparr>gp_storage_columns := gl_storage_columns layout\<rparr>\<rparr>"
    have "intent_ok target ?x" using Cons.prems by (auto simp: intent_ok_def payload_target_def)
    then show ?thesis using True by (auto intro!: triple_dbind[OF IH] triple_dret)
  next
    case False
    show ?thesis using False
      by (simp, intro triple_weaken[OF triple_seq[OF triple_glue_failure[OF env] stable_settled(1) IH]]) auto
  qed
qed (simp add: triple_dret)

lemma triple_inspect_all:
  "triple env P (inspect_all ex target xs) (\<lambda>ins s. map fst ins = xs
    \<and> (\<forall>p\<in>set ins. EvGet target (gp_partition_values (di_payload (fst p))) (snd p) \<in> set (ds_log s)))"
proof (induction xs arbitrary: P)
  case (Cons x xs)
  let ?ev = "EvGet target (gp_partition_values (di_payload x))"
  show ?case unfolding inspect_all.simps
  proof (rule triple_dbind[OF triple_request], simp)
    fix r
    show "triple env (\<lambda>s. ?ev r \<in> set (ds_log s)) (dbind (inspect_all ex target xs) (\<lambda>rest. dret ((x, r) # rest)))
      (\<lambda>ins s. map fst ins = x # xs \<and> (\<forall>p\<in>set ins. EvGet target (gp_partition_values (di_payload (fst p))) (snd p) \<in> set (ds_log s)))"
      by (rule triple_weaken[OF triple_dbind[OF triple_frame[OF Cons.IH[of "\<lambda>_. True"] stable_log(2)[of env "?ev r"]] triple_dret]]) auto
  qed
qed (simp add: triple_dret)

lemma triple_apply_inspected:
  assumes env: "outbox_env_ok (dr_outbox env)"
  shows "\<forall>p\<in>set ins. intent_ok target (fst p) \<Longrightarrow>
    triple env (\<lambda>s. \<forall>p\<in>set ins. EvGet target (gp_partition_values (di_payload (fst p))) (snd p) \<in> set (ds_log s)) (apply_inspected env ex target ins)
    (\<lambda>missing s. (\<forall>x\<in>set missing. intent_ok target x) \<and> (\<forall>p\<in>set ins. settled (di_pending (fst p)) s \<or> fst p \<in> set missing))"
proof (induction ins)
  case (Cons p ins)
  obtain x r where p: "p = (x, r)" by fastforce
  have x: "intent_ok target x" using Cons.prems by (simp add: p)
  let ?ev = "\<lambda>p. EvGet target (gp_partition_values (di_payload (fst p))) (snd p)"
  let ?all = "\<lambda>s. \<forall>p\<in>set ins. ?ev p \<in> set (ds_log s)"
  let ?post = "\<lambda>missing s. (\<forall>x\<in>set missing. intent_ok target x) \<and> (\<forall>p\<in>set ins. settled (di_pending (fst p)) s \<or> fst p \<in> set missing)"
  have st: "stable env ?all" by (intro stable_ball stable_log)
  have IH: "triple env ?all (apply_inspected env ex target ins) ?post" by (rule Cons.IH[OF ball_subset[OF Cons.prems]])
  have act: "triple env (\<lambda>s. \<forall>q\<in>set (p # ins). ?ev q \<in> set (ds_log s)) (dbind m (\<lambda>_. apply_inspected env ex target ins))
      (\<lambda>missing s. (\<forall>x\<in>set missing. intent_ok target x) \<and> (\<forall>q\<in>set (p # ins). settled (di_pending (fst q)) s \<or> fst q \<in> set missing))"
    if m: "triple env (\<lambda>s. ?ev p \<in> set (ds_log s)) m (\<lambda>_. settled (di_pending x))" for m :: "('a, unit) drain_op"
    by (rule triple_weaken[OF triple_dbind[OF triple_frame[OF m st], where R = "\<lambda>missing s. ?post missing s \<and> settled (di_pending x) s"]])
      (auto simp: p intro: triple_weaken[OF triple_frame[OF IH stable_settled(1)]])
  consider (same) "r = Inr (Some (gp_location (di_payload x)))" | (moved) loc where "r = Inr (Some loc)" "loc \<noteq> gp_location (di_payload x)"
    | (missing) "r = Inr None" | (failed) e where "r = Inl e"
    by (metis not_Some_eq sum.exhaust)
  then show ?case
  proof cases
    case same
    then have "acks (?ev p) (di_pending x)" using intent_okD[OF x] by (simp add: p)
    then have "triple env (\<lambda>s. ?ev p \<in> set (ds_log s)) (mark_delivered env (di_pending x)) (\<lambda>_. settled (di_pending x))"
      by (intro triple_weaken[OF triple_mark_delivered[OF env]]) (auto simp: acknowledged_def)
    from act[OF triple_then[OF this]] show ?thesis using same by (simp add: p)
  next
    case moved
    from act[OF triple_update[OF env x]] show ?thesis using moved by (simp add: p)
  next
    case missing
    have "triple env (\<lambda>s. \<forall>q\<in>set (p # ins). ?ev q \<in> set (ds_log s)) (dbind (apply_inspected env ex target ins) (\<lambda>missing. dret (x # missing)))
      (\<lambda>missing s. (\<forall>x\<in>set missing. intent_ok target x) \<and> (\<forall>q\<in>set (p # ins). settled (di_pending (fst q)) s \<or> fst q \<in> set missing))"
      by (rule triple_weaken[OF triple_dbind[OF IH triple_dret]]) (use x in \<open>auto simp: p\<close>)
    then show ?thesis using missing by (simp add: p)
  next
    case failed
    from act[OF triple_glue_failure[OF env]] show ?thesis using failed by (simp add: p)
  qed
qed (simp add: triple_dret)

lemma ball_fst: "(\<forall>p\<in>A. P (fst p)) \<longleftrightarrow> (\<forall>x\<in>fst ` A. P x)"
  by auto

lemma triple_settle:
  assumes env: "outbox_env_ok (dr_outbox env)"
  shows "triple env (\<lambda>s. outcome = Created \<longrightarrow> acknowledged (di_pending x) s) (settle_outcome env (x, outcome)) (\<lambda>_. settled (di_pending x))"
proof (cases outcome)
  case Created
  then show ?thesis using triple_then[OF triple_mark_delivered[OF env]] by (simp add: settle_outcome_def)
qed (simp_all add: settle_outcome_def triple_glue_failure[OF env])

lemma triple_create_batch:
  assumes env: "outbox_env_ok (dr_outbox env)" and ok: "\<forall>x\<in>set batch. intent_ok target x"
  shows "triple env P (create_batch env ex target batch) (\<lambda>_ s. \<forall>x\<in>set batch. settled (di_pending x) s)"
  unfolding create_batch_def Let_def
proof (rule triple_dbind[OF triple_request], simp)
  fix r
  let ?specs = "map (partition_spec \<circ> di_payload) batch"
  have fail: "triple env Q (for_each (\<lambda>intent. record_glue_failure env (di_pending intent) error) batch) (\<lambda>_ s. \<forall>x\<in>set batch. settled (di_pending x) s)" for Q error
    by (rule triple_weaken[OF triple_for_each[where P = "\<lambda>_ _. True"]]) (simp_all add: triple_glue_failure[OF env] stable_settled stable_True)
  show "triple env (\<lambda>s. EvCreate target ?specs r \<in> set (ds_log s)) (case r of Inl error \<Rightarrow> for_each (\<lambda>intent. record_glue_failure env (di_pending intent) error) batch
      | Inr outcomes \<Rightarrow> if length outcomes = length batch then for_each (settle_outcome env) (zip batch outcomes)
          else for_each (\<lambda>intent. record_glue_failure env (di_pending intent) \<lparr>ge_kind = Transient,
            ge_message = ''BatchCreatePartition returned '' @ show_nat (length outcomes) @ '' outcomes for '' @ show_nat (length batch) @ '' inputs''\<rparr>) batch)
     (\<lambda>_ s. \<forall>x\<in>set batch. settled (di_pending x) s)"
  proof (cases "\<exists>outcomes. r = Inr outcomes \<and> length outcomes = length batch")
    case True
    then obtain outs where r: "r = Inr outs" and len: "length outs = length batch" by blast
    have "acks (EvCreate target ?specs r) (di_pending x)" if "(x, Created) \<in> set (zip batch outs)" for x
    proof -
      have x: "intent_ok target x" using that ok by (meson set_zip_leftD)
      have "(partition_spec (di_payload x), Created) \<in> set (zip ?specs outs)" using that by (force simp: zip_map1)
      then show ?thesis using r len intent_okD[OF x] by (fastforce simp: list_ex_iff)
    qed
    then have pre: "\<forall>p\<in>set (zip batch outs). snd p = Created \<longrightarrow> acknowledged (di_pending (fst p)) s" if "EvCreate target ?specs r \<in> set (ds_log s)" for s
      using that unfolding acknowledged_def by fastforce
    have fst_zip: "fst ` set (zip batch outs) = set batch" using len by (metis map_fst_zip set_map)
    have "triple env (\<lambda>s. \<forall>p\<in>set (zip batch outs). snd p = Created \<longrightarrow> acknowledged (di_pending (fst p)) s) (for_each (settle_outcome env) (zip batch outs))
      (\<lambda>_ s. \<forall>p\<in>set (zip batch outs). settled (di_pending (fst p)) s)"
    proof (rule triple_for_each)
      fix p :: "DecodedIntent \<times> GlueBatchCreateOutcome"
      show "triple env (\<lambda>s. snd p = Created \<longrightarrow> acknowledged (di_pending (fst p)) s) (settle_outcome env p) (\<lambda>_. settled (di_pending (fst p)))"
        using triple_settle[OF env, of "snd p" "fst p"] by simp
      show "stable env (\<lambda>s. snd p = Created \<longrightarrow> acknowledged (di_pending (fst p)) s)" "stable env (settled (di_pending (fst p)))"
        using stable_settled[of env "di_pending (fst p)"] by (auto simp: stable_def)
    qed
    then have "triple env (\<lambda>s. EvCreate target ?specs r \<in> set (ds_log s)) (for_each (settle_outcome env) (zip batch outs)) (\<lambda>_ s. \<forall>x\<in>set batch. settled (di_pending x) s)"
      by (rule triple_weaken) (use pre fst_zip in \<open>simp_all add: ball_fst[of _ "\<lambda>x. settled (di_pending x) s" for s]\<close>)
    then show ?thesis using r len by simp
  next
    case False
    then show ?thesis using fail by (cases r) simp_all
  qed
qed

lemma slice_chunks_set: "0 < n \<Longrightarrow> (\<Union>c\<in>set (slice_chunks n xs). set c) = set xs"
proof (induction n xs rule: slice_chunks.induct)
  case (1 n xs)
  show ?case
  proof (cases "xs = []")
    case False
    then show ?thesis using 1 by (subst slice_chunks.simps) (simp add: set_append[symmetric] del: set_append)
  qed (simp add: slice_chunks.simps)
qed

lemma slice_chunks_length: "c \<in> set (slice_chunks n xs) \<Longrightarrow> c \<noteq> [] \<and> length c \<le> n"
proof (induction n xs rule: slice_chunks.induct)
  case (1 n xs)
  then show ?case by (subst (asm) (2) slice_chunks.simps) (auto split: if_splits)
qed

definition orders_ok :: "drain_env \<Rightarrow> bool" where
  "orders_ok env \<longleftrightarrow> (\<forall>k n. distinct (dr_call_order env k n) \<and> set (dr_call_order env k n) = {..<n}
     \<and> distinct (dr_done_order env k n) \<and> set (dr_done_order env k n) = {..<n})"

lemma reorder_set: "set (order (length xs)) = {..<length xs} \<Longrightarrow> set (reorder order xs) = set xs"
  by (force simp: reorder_def in_set_conv_nth)

lemma triple_pure: "(pure \<Longrightarrow> triple env P m Q) \<Longrightarrow> triple env (\<lambda>s. pure \<and> P s) m Q"
  unfolding triple_def by blast

text \<open>From the lookups on: what a lookup finds missing is created in batches.\<close>

lemma triple_create_missing:
  assumes env: "outbox_env_ok (dr_outbox env)" and ok: "\<forall>x\<in>set missing. intent_ok target x"
  shows "triple env P (for_each (create_batch env ex target) (slice_chunks GLUE_BATCH_CREATE_LIMIT missing)) (\<lambda>_ s. \<forall>x\<in>set missing. settled (di_pending x) s)"
proof -
  let ?cs = "slice_chunks GLUE_BATCH_CREATE_LIMIT missing"
  have all: "(\<Union>c\<in>set ?cs. set c) = set missing" using slice_chunks_set[of GLUE_BATCH_CREATE_LIMIT missing] by (simp add: GLUE_BATCH_CREATE_LIMIT_def)
  have sub: "\<forall>x\<in>set c. intent_ok target x" if "c \<in> set ?cs" for c
  proof -
    have "set c \<subseteq> set missing" using that all by blast
    then show ?thesis using ok by blast
  qed
  have "triple env (\<lambda>s. \<forall>c\<in>set ?cs. True) (for_each (create_batch env ex target) ?cs) (\<lambda>_ s. \<forall>c\<in>set ?cs. \<forall>x\<in>set c. settled (di_pending x) s)"
    by (rule triple_for_each) (simp_all add: triple_create_batch[OF env sub] stable_ball stable_settled stable_True)
  then show ?thesis by (rule triple_weaken) (use all in auto)
qed

lemma triple_reconcile:
  assumes env: "outbox_env_ok (dr_outbox env)" and o1: "set (o1 (length valid)) = {..<length valid}" and o2: "\<And>n. set (o2 n) = {..<n}"
    and ok: "\<forall>x\<in>set valid. intent_ok target x"
  shows "triple env P (dbind (inspect_all ex target (reorder o1 valid)) (\<lambda>inspected. dbind (apply_inspected env ex target (reorder o2 inspected)) (\<lambda>missing.
             for_each (create_batch env ex target) (slice_chunks GLUE_BATCH_CREATE_LIMIT missing)))) (\<lambda>_ s. \<forall>x\<in>set valid. settled (di_pending x) s)"
proof (rule triple_dbind[OF triple_inspect_all], rule triple_pure)
  fix ins :: "(DecodedIntent \<times> (GlueApiError + string option)) list"
  assume "map fst ins = reorder o1 valid"
  then have fst: "fst ` set ins = set valid" using reorder_set[of o1 valid] o1 by (metis set_map)
  have ins: "set (reorder o2 ins) = set ins" using reorder_set[of o2 ins] o2 by simp
  have ok': "\<forall>p\<in>set (reorder o2 ins). intent_ok target (fst p)" using ok fst ins by blast
  let ?mid = "\<lambda>missing s. \<forall>p\<in>set ins. settled (di_pending (fst p)) s \<or> fst p \<in> set missing"
  have st: "stable env (?mid missing)" for missing
    by (rule stable_ball) (use stable_settled(1)[of env] in \<open>auto simp: stable_def\<close>)
  show "triple env (\<lambda>s. \<forall>p\<in>set ins. EvGet target (gp_partition_values (di_payload (fst p))) (snd p) \<in> set (ds_log s))
    (dbind (apply_inspected env ex target (reorder o2 ins)) (\<lambda>missing. for_each (create_batch env ex target) (slice_chunks GLUE_BATCH_CREATE_LIMIT missing)))
    (\<lambda>_ s. \<forall>x\<in>set valid. settled (di_pending x) s)"
  proof (rule triple_dbind[OF triple_apply_inspected[OF env ok', unfolded ins]], rule triple_pure)
    fix missing assume m: "\<forall>x\<in>set missing. intent_ok target x"
    show "triple env (?mid missing) (for_each (create_batch env ex target) (slice_chunks GLUE_BATCH_CREATE_LIMIT missing)) (\<lambda>_ s. \<forall>x\<in>set valid. settled (di_pending x) s)"
      by (rule triple_weaken[OF triple_frame[OF triple_create_missing[OF env m, of "\<lambda>_. True"] st[of missing]]]) (use fst in \<open>auto simp: ball_fst[of "set ins" "\<lambda>x. settled (di_pending x) s \<or> x \<in> set missing" for s]\<close>)
  qed
qed

lemma triple_drain_group:
  assumes env: "outbox_env_ok (dr_outbox env)" and orders: "orders_ok env" and ok: "\<forall>x\<in>set intents. intent_ok target x"
  shows "triple env P (drain_group env ex target intents) (\<lambda>_ s. \<forall>x\<in>set intents. settled (di_pending x) s)"
  unfolding drain_group_def
proof (rule triple_dbind[OF triple_request], simp)
  fix r :: "GlueApiError + GlueTableLayout"
  let ?goal = "\<lambda>(_::unit) s. \<forall>x\<in>set intents. settled (di_pending x) s"
  have fail: "triple env Q (for_each (\<lambda>intent. record_glue_failure env (di_pending intent) error) intents) ?goal" for Q error
    by (rule triple_weaken[OF triple_for_each[where P = "\<lambda>_ _. True"]]) (simp_all add: triple_glue_failure[OF env] stable_settled stable_True)
  show "triple env (\<lambda>s. EvLayout target r \<in> set (ds_log s)) (case r of Inl error \<Rightarrow> for_each (\<lambda>intent. record_glue_failure env (di_pending intent) error) intents
      | Inr layout \<Rightarrow> dbind (check_layout env target layout intents) (\<lambda>valid s.
           dbind (inspect_all ex target (reorder (dr_call_order env (ds_step s)) valid)) (\<lambda>inspected.
           dbind (apply_inspected env ex target (reorder (dr_done_order env (ds_step s)) inspected)) (\<lambda>missing.
             for_each (create_batch env ex target) (slice_chunks GLUE_BATCH_CREATE_LIMIT missing))) s)) ?goal"
  proof (cases r)
    case (Inl error)
    then show ?thesis using fail by simp
  next
    case (Inr layout)
    let ?left = "\<lambda>valid s. \<forall>x\<in>set intents. settled (di_pending x) s \<or> di_pending x \<in> di_pending ` set valid"
    have st: "stable env (?left valid)" for valid by (rule stable_ball) (use stable_settled(1)[of env] in \<open>auto simp: stable_def\<close>)
    have ords: "set (dr_call_order env k n) = {..<n}" "set (dr_done_order env k n) = {..<n}" for k n using orders by (simp_all add: orders_ok_def)
    show ?thesis unfolding Inr sum.case
    proof (rule triple_dbind[OF triple_True[OF triple_check_layout[OF env ok]]], rule triple_pure)
      fix valid assume v: "\<forall>x\<in>set valid. intent_ok target x"
      let ?F = "\<lambda>s. dbind (inspect_all ex target (reorder (dr_call_order env (ds_step s)) valid)) (\<lambda>inspected.
           dbind (apply_inspected env ex target (reorder (dr_done_order env (ds_step s)) inspected)) (\<lambda>missing.
             for_each (create_batch env ex target) (slice_chunks GLUE_BATCH_CREATE_LIMIT missing)))"
      have "triple env (?left valid) (?F s0) ?goal" for s0 :: "'a drain"
        by (rule triple_weaken[OF triple_frame[OF triple_reconcile[where ?o1.0 = "dr_call_order env (ds_step s0)" and ?o2.0 = "dr_done_order env (ds_step s0)", OF env ords v, of "\<lambda>_. True"] st[of valid]]]) auto
      from triple_at[of env "?left valid" ?F, OF this] show "triple env (?left valid) (\<lambda>s. ?F s s) ?goal" .
    qed
  qed
qed

lemma triple_decode_due:
  assumes env: "outbox_env_ok (dr_outbox env)"
  shows "triple env (\<lambda>_. True) (decode_due env due) (\<lambda>decoded s. (\<forall>x\<in>set decoded. di_payload x = in_payload (pi_intent (di_pending x)))
    \<and> (\<forall>e\<in>set due. settled e s \<or> e \<in> di_pending ` set decoded))"
proof (induction due)
  case (Cons e due)
  show ?case
  proof (cases "is_admissible (pi_intent e)")
    case True
    then show ?thesis by (auto intro!: triple_dbind[OF Cons.IH] triple_dret)
  next
    case False
    have one: "triple env (\<lambda>_. True) (record_terminal_invalid env e ''terminal invalid Glue partition intent'') (\<lambda>_. settled e)"
      unfolding record_terminal_invalid_def by (intro triple_then triple_record_failure[OF env])
    show ?thesis using False by (simp, intro triple_weaken[OF triple_seq[OF one stable_settled(1) Cons.IH]]) auto
  qed
qed (simp add: triple_dret)

lemma storage_columns_self: "\<exists>cols. p = (p :: GluePartitionCatalogIntentV1)\<lparr>gp_storage_columns := cols\<rparr>"
  by (rule exI[of _ "gp_storage_columns p"], cases p) simp

lemma group_intents_lookup:
  "fmlookup (group_intents xs groups) k = (let old = (case fmlookup groups k of Some ys \<Rightarrow> ys | None \<Rightarrow> []); new = filter (\<lambda>x. intent_group_key x = k) xs in
     if new = [] then fmlookup groups k else Some (old @ new))"
  by (induction xs arbitrary: groups) (auto simp: Let_def split: option.splits)

lemma triple_drain_due:
  assumes env: "outbox_env_ok (dr_outbox env)" and orders: "orders_ok env"
  shows "triple env P (dbind (decode_due env due) (\<lambda>decoded.
       for_each (\<lambda>(key, intents). drain_group env ex (target_of_key key) intents) (btree_entries (group_intents decoded fmempty))))
    (\<lambda>_ s. \<forall>e\<in>set due. settled e s)"
proof (rule triple_dbind[OF triple_True[OF triple_decode_due[OF env]]], rule triple_pure)
  fix decoded :: "DecodedIntent list" assume d: "\<forall>x\<in>set decoded. di_payload x = in_payload (pi_intent (di_pending x))"
  let ?groups = "btree_entries (group_intents decoded fmempty)"
  have mem: "(k, xs) \<in> set ?groups \<longleftrightarrow> xs \<noteq> [] \<and> xs = filter (\<lambda>x. intent_group_key x = k) decoded" for k xs
    by (auto simp: btree_entries_set group_intents_lookup Let_def)
  have all: "(\<Union>p\<in>set ?groups. set (snd p)) = set decoded"
  proof
    show "(\<Union>p\<in>set ?groups. set (snd p)) \<subseteq> set decoded" using mem by auto
    show "set decoded \<subseteq> (\<Union>p\<in>set ?groups. set (snd p))"
    proof
      fix x assume "x \<in> set decoded"
      then have "(intent_group_key x, filter (\<lambda>y. intent_group_key y = intent_group_key x) decoded) \<in> set ?groups" unfolding mem by (auto simp: filter_empty_conv)
      then show "x \<in> (\<Union>p\<in>set ?groups. set (snd p))" using \<open>x \<in> set decoded\<close> by fastforce
    qed
  qed
  have ok: "\<forall>x\<in>set (snd p). intent_ok (target_of_key (fst p)) x" if "p \<in> set ?groups" for p
  proof -
    obtain k xs where p: "p = (k, xs)" by fastforce
    then have "xs = filter (\<lambda>x. intent_group_key x = k) decoded" using that mem by blast
    then show ?thesis using d by (auto simp: p intent_ok_def target_of_key_def intent_group_key_def payload_target_def Let_def storage_columns_self)
  qed
  have one: "triple env (\<lambda>_. True) (case p of (key, intents) \<Rightarrow> drain_group env ex (target_of_key key) intents) (\<lambda>_ s. \<forall>x\<in>set (snd p). settled (di_pending x) s)"
    if "p \<in> set ?groups" for p using triple_drain_group[OF env orders ok[OF that]] by (simp add: case_prod_beta)
  have "triple env (\<lambda>s. \<forall>p\<in>set ?groups. True) (for_each (\<lambda>(key, intents). drain_group env ex (target_of_key key) intents) ?groups)
    (\<lambda>_ s. \<forall>p\<in>set ?groups. \<forall>x\<in>set (snd p). settled (di_pending x) s)"
    by (rule triple_for_each[OF one]) (simp_all add: stable_True stable_ball stable_settled)
  then have each: "triple env (\<lambda>_. True) (for_each (\<lambda>(key, intents). drain_group env ex (target_of_key key) intents) ?groups) (\<lambda>_ s. \<forall>x\<in>set decoded. settled (di_pending x) s)"
    by (rule triple_weaken) (use all in blast)+
  let ?left = "\<lambda>s. \<forall>e\<in>set due. settled e s \<or> e \<in> di_pending ` set decoded"
  have st: "stable env ?left" by (rule stable_ball) (use stable_settled(1)[of env] in \<open>auto simp: stable_def\<close>)
  show "triple env ?left (for_each (\<lambda>(key, intents). drain_group env ex (target_of_key key) intents) ?groups) (\<lambda>_ s. \<forall>e\<in>set due. settled e s)"
    by (rule triple_weaken[OF triple_frame[OF each st]]) auto
qed

lemma drain_once_run:
  assumes env: "outbox_env_ok (dr_outbox env)" and orders: "orders_ok env" and inv: "outbox_inv (dr_outbox env) (ds_outbox s)"
    and run: "drain_once env ex s = (s', r)"
  shows "drel env s s'" "load_due env s = (s1, Inr due) \<Longrightarrow> r = Inr () \<Longrightarrow> \<forall>e\<in>set due. settled e s'"
proof -
  obtain s1' r1 where l: "load_due env s = (s1', r1)" by fastforce
  have d1: "drel env s s1'" using blocking_run[OF env inv l[unfolded load_due_def]] by auto
  note t = triple_drain_due[OF env orders, where P = "\<lambda>_. True", unfolded triple_def, rule_format, OF drel_inv[OF d1 inv] TrueI]
  have "drel env s s' \<and> (\<forall>due. r1 = Inr due \<longrightarrow> r = Inr () \<longrightarrow> (\<forall>e\<in>set due. settled e s'))"
  proof (cases r1)
    case (Inl e)
    then show ?thesis using run l d1 by (simp add: drain_once_def dbind_def)
  next
    case (Inr due)
    then show ?thesis using run l t[of due ex s' r] drel_trans[OF d1] by (simp add: drain_once_def dbind_def[of "load_due env"])
  qed
  then show "drel env s s'" "load_due env s = (s1, Inr due) \<Longrightarrow> r = Inr () \<Longrightarrow> \<forall>e\<in>set due. settled e s'" using l by auto
qed

end
