(* ===== verification/Catalog_Delivery.thy ===== *)
theory Catalog_Delivery
  imports Catalog_Coordinator
begin

text \<open>
  What the catalog coordinator and its outbox promise together (\<^verbatim>\<open>src/src/catalog_coordinator.rs\<close>): an entry leaves the outbox only
  after Glue acknowledged it, every due entry of a drain is settled, draining until idle ends, and the
  bounds and classifications the drain rests on.
\<close>

section \<open>Due entries\<close>

lemma read_all_members:
  assumes "\<forall>i\<in>set ids. \<exists>e. read_entry env files i = Inr e"
  shows "\<exists>es. read_all env files ids = Inr es \<and> (\<forall>i\<in>set ids. \<forall>e. read_entry env files i = Inr e \<longrightarrow> e \<in> set es)"
  using assms
proof (induction ids)
  case (Cons i ids)
  then obtain e es where "read_entry env files i = Inr e" "read_all env files ids = Inr es" "\<forall>i\<in>set ids. \<forall>e. read_entry env files i = Inr e \<longrightarrow> e \<in> set es"
    by auto
  then show ?case by auto
qed simp

definition entry_due :: "outbox_env \<Rightarrow> u64 \<Rightarrow> outbox \<Rightarrow> PendingCatalogIntent \<Rightarrow> bool" where
  "entry_due env now ob e \<longleftrightarrow> read_entry env (ob_files ob) (pi_id e) = Inr e \<and> \<not> pi_terminal e \<and> pi_next_attempt_at_ms e \<le> now"

lemma scan_eligible_members:
  assumes env: "outbox_env_ok env" and inv: "outbox_inv env ob" and lim: "card (ox_due (ob_index ob)) \<le> limit"
  shows "\<exists>es. scan_eligible_pending env now limit ob = Inr es \<and> (\<forall>e. entry_due env now ob e \<longrightarrow> e \<in> set es)"
proof -
  let ?ix = "ob_index ob"
  have ok: "index_ok ?ix" "files_ok env ob" using inv by (simp_all add: outbox_inv_def)
  have reads: "\<exists>e. read_entry env (ob_files ob) i = Inr e \<and> metadata_from_entry env e = Inr m" if "fmlookup (ox_entries ?ix) i = Some m" for i m
    using that ok(2) unfolding files_ok_def by blast
  have "ascii i" if i: "fmlookup (ox_entries ?ix) i = Some m" for i m
  proof -
    obtain e where "read_entry env (ob_files ob) i = Inr e" using reads[OF i] by blast
    from read_entry_Inr(2)[OF this] show ?thesis using json_runs(1)[OF env] by (metis sum.inject(2))
  qed
  then have as: "ascii_ids (ox_entries ?ix)" by (simp add: ascii_ids_def)
  have fin: "finite (ox_due ?ix)" using ok(1) finite_ids(3) by (simp add: index_ok_def)
  have "length (due_range now ?ix) \<le> limit"
    using lim length_filter_le[of _ "sorted_list_of_set (ox_due ?ix)"] fin by (simp add: due_range_def le_trans[rotated])
  then have ids: "due_ids now limit ?ix = map snd (due_range now ?ix)" by (simp add: due_ids_def)
  have mem: "i \<in> set (due_ids now limit ?ix) \<longleftrightarrow> (\<exists>m. fmlookup (ox_entries ?ix) i = Some m \<and> \<not> md_terminal m \<and> md_next_attempt_at_ms m \<le> now)" for i
    unfolding ids set_map due_range_set[OF ok(1) as] by force
  obtain es where es: "read_all env (ob_files ob) (due_ids now limit ?ix) = Inr es"
    "\<forall>i\<in>set (due_ids now limit ?ix). \<forall>e. read_entry env (ob_files ob) i = Inr e \<longrightarrow> e \<in> set es"
    using read_all_members[of "due_ids now limit ?ix" env "ob_files ob"] mem reads by blast
  have "e \<in> set es" if e: "entry_due env now ob e" for e
  proof -
    obtain m where m: "fmlookup (ox_entries ?ix) (pi_id e) = Some m"
      using e ok(2) read_entry_Inr(3)[of env "ob_files ob" "pi_id e" e] unfolding entry_due_def files_ok_def by fastforce
    then have "metadata_from_entry env e = Inr m" using reads[OF m] e by (auto simp: entry_due_def)
    then have "\<not> md_terminal m \<and> md_next_attempt_at_ms m \<le> now" using e by (auto simp: metadata_from_entry_def bindR_Inr_iff entry_due_def)
    then show ?thesis using m mem es(2) e unfolding entry_due_def by blast
  qed
  then show ?thesis using es(1) by (auto simp: scan_eligible_pending_def)
qed

section \<open>Properties\<close>

definition demo_executor :: "unit GlueExecutor" where
  "demo_executor = \<lparr>ex_table_layout = (\<lambda>t g. (g, Inr \<lparr>gl_partition_columns = [\<lparr>gc_name = ''day'', gc_type = ''string'', gc_comment = None\<rparr>], gl_storage_columns = []\<rparr>)),
     ex_get_partition = (\<lambda>t vs g. (g, Inr (Some ''x''))), ex_batch_create_partitions = (\<lambda>t ps g. (g, Inr (map (\<lambda>_. Created) ps))),
     ex_update_partition = (\<lambda>t p g. (g, Inr ()))\<rparr>"

definition demo_drain_env :: drain_env where
  "demo_drain_env = \<lparr>dr_outbox = demo_env, dr_now = (\<lambda>_. 7), dr_write_fault = (\<lambda>_. None), dr_remove_fault = (\<lambda>_. None), dr_sync_fault = (\<lambda>_. None),
     dr_join_fault = (\<lambda>_. None), dr_jitter = (\<lambda>_. 0), dr_persists = (\<lambda>_. []), dr_call_order = (\<lambda>_ n. [0..<n]), dr_done_order = (\<lambda>_ n. [0..<n])\<rparr>"

definition demo_drain :: "unit drain" where
  "demo_drain = \<lparr>ds_outbox = demo_ob, ds_glue = (), ds_step = 0, ds_log = []\<rparr>"

lemma demo_orders: "orders_ok demo_drain_env"
  by (simp add: orders_ok_def demo_drain_env_def atLeast0LessThan)

text \<open>C10. An intent leaves the outbox only after Glue acknowledged it. Whatever the answers, their order, failures of
  the file system and intents persisted meanwhile, when a drain marks an entry delivered then, earlier in that
  drain, Glue answered the entry's location for its partition or accepted an update or a creation of it, in the
  table the entry names; and a file that is gone at the end is that of such an entry.\<close>

theorem delivery_after_ack:
  assumes "outbox_env_ok (dr_outbox env)" "orders_ok env" "outbox_reachable (dr_outbox env) (ds_outbox s)" "ds_log s = []"
    "drain_once env ex s = (s', r)"
  shows "(\<forall>xs e r ys. ds_log s' = xs @ EvMarked e r # ys \<longrightarrow> (\<exists>a\<in>set xs. acks a e))
    \<and> (\<forall>i. fmlookup (ob_files (ds_outbox s)) i \<noteq> None \<longrightarrow> fmlookup (ob_files (ds_outbox s')) i \<noteq> None
        \<or> (\<exists>e r. EvMarked e r \<in> set (ds_log s') \<and> pi_id e = i))"
proof -
  have inv: "outbox_inv (dr_outbox env) (ds_outbox s)" by (rule reachable_inv[OF assms(3,1)])
  have "drel env s s'" by (rule drain_once_run(1)[OF assms(1,2) inv assms(5)])
  moreover have "acked_log (ds_log s)" by (simp add: assms(4) acked_log_def)
  ultimately show ?thesis using inv unfolding drel_def acked_log_def marked_ids_def by blast
qed

lemma demo_parts:
  "demo_ob = \<lparr>ob_files = fmupd ''a'' [1] fmempty, ob_synced = fmupd ''a'' [1] fmempty, ob_unsynced = [], ob_index = demo_index\<rparr>"
  "\<not> ox_directory_sync_required demo_index" "ox_due demo_index = {(0, ''a'')}" "fmlookup (ox_entries demo_index) ''a'' = Some demo_meta"
  "is_admissible (demo_intent ''x'')"
proof -
  show "demo_ob = \<lparr>ob_files = fmupd ''a'' [1] fmempty, ob_synced = fmupd ''a'' [1] fmempty, ob_unsynced = [], ob_index = demo_index\<rparr>"
    by (simp add: demo_ob_def demo_persist)
  show "\<not> ox_directory_sync_required demo_index" "ox_due demo_index = {(0, ''a'')}" "fmlookup (ox_entries demo_index) ''a'' = Some demo_meta"
    by (simp_all add: demo_index_def outbox_index_default_def index_upsert_def index_remove_def Let_def demo_meta_def)
  show "is_admissible (demo_intent ''x'')"
    by (simp add: is_admissible_def demo_intent_def CATALOG_INTENT_VERSION_def GLUE_PARTITION_CATALOG_INTENT_VERSION_def trim_visible not_ws_def)
qed

lemma demo_others: "ds_outbox s = demo_ob \<Longrightarrow> others_persist demo_drain_env s = demo_ob"
  using demo_parts(2) by (simp add: others_persist_def demo_drain_env_def outbox_persist_def) (simp add: demo_parts(1))

lemma demo_load: "load_due demo_drain_env demo_drain = (demo_drain\<lparr>ds_step := 1\<rparr>, Inr [demo_entry ''x''])"
proof -
  have "scan_eligible_pending demo_env 7 RECOVERY_SCAN_LIMIT demo_ob = Inr [demo_entry ''x'']"
    using demo_read by (simp add: scan_eligible_pending_def due_ids_def due_range_def demo_parts RECOVERY_SCAN_LIMIT_def less_eq_prod_def)
  then show ?thesis using demo_others[of demo_drain] by (simp add: load_due_def blocking_def demo_drain_def) (simp add: demo_drain_env_def)
qed

definition demo_target :: GlueTarget where
  "demo_target = \<lparr>gt_region = None, gt_catalog_id = None, gt_database = ''db'', gt_table = ''t''\<rparr>"

definition demo_layout :: GlueTableLayout where
  "demo_layout = \<lparr>gl_partition_columns = [\<lparr>gc_name = ''day'', gc_type = ''string'', gc_comment = None\<rparr>], gl_storage_columns = []\<rparr>"

definition demo_log :: "drain_event list" where
  "demo_log = [EvLayout demo_target (Inr demo_layout), EvGet demo_target [''1''] (Inr (Some ''x'')), EvMarked (demo_entry ''x'') (Inr Applied)]"

lemma demo_mark:
  assumes "ds_outbox s = demo_ob"
  shows "\<exists>ob. mark_delivered demo_drain_env (demo_entry ''x'') s =
    (s\<lparr>ds_outbox := ob, ds_step := Suc (ds_step s), ds_log := ds_log s @ [EvMarked (demo_entry ''x'') (Inr Applied)]\<rparr>, Inr Applied) \<and> ob_files ob = fmempty"
proof -
  have env: "dr_outbox demo_drain_env = demo_env" "dr_remove_fault demo_drain_env k = None" "dr_sync_fault demo_drain_env k = None" "dr_join_fault demo_drain_env k = None" for k
    by (simp_all add: demo_drain_env_def)
  have "pi_id (demo_entry ''x'') = ''a''" by (simp add: demo_entry_def new_entry_def)
  moreover have "entry_generation demo_env (demo_entry ''x'') = Inr []" by (simp add: entry_generation_def demo_env_def)
  ultimately have "expected_entry demo_env (demo_entry ''x'') demo_ob = Inr (Some (demo_entry ''x''))" "ob_files demo_ob = fmupd (pi_id (demo_entry ''x'')) [1] fmempty"
    using demo_read by (simp_all add: expected_entry_def demo_parts demo_meta_def)
  moreover have "fmdrop i (fmupd i b fmempty) = fmempty" for i :: string and b :: bytes by (simp add: fmap_ext)
  ultimately show ?thesis
    by (simp add: mark_delivered_def blocking_def env demo_others[OF assms] mark_delivered_if_def Let_def sync_directory_def dir_change_def
        exI[of _ "demo_ob\<lparr>ob_files := fmempty, ob_synced := fmempty, ob_unsynced := [], ob_index := (index_remove (pi_id (demo_entry ''x'')) (ob_index demo_ob))\<lparr>ox_directory_sync_required := False\<rparr>\<rparr>"])
qed

lemma demo_run: "\<exists>s. drain_once demo_drain_env demo_executor demo_drain = (s, Inr ()) \<and> ds_log s = demo_log \<and> ob_files (ds_outbox s) = fmempty"
proof -
  let ?x = "\<lparr>di_pending = demo_entry ''x'', di_payload = in_payload (demo_intent ''x'')\<rparr>"
  have adm: "pi_intent (demo_entry ''x'') = demo_intent ''x''" by (simp add: demo_entry_def new_entry_def)
  have key: "intent_group_key ?x = (None, None, ''db'', ''t'')" by (simp add: intent_group_key_def demo_intent_def)
  have pay: "gp_partition_columns (in_payload (demo_intent ''x'')) = gl_partition_columns demo_layout" "gp_partition_values (in_payload (demo_intent ''x'')) = [''1'']"
    "gp_location (in_payload (demo_intent ''x'')) = ''x''" by (simp_all add: demo_intent_def demo_layout_def)
  have ord: "dr_call_order demo_drain_env k n = [0..<n]" "dr_done_order demo_drain_env k n = [0..<n]" for k n by (simp_all add: demo_drain_env_def)
  have ex: "ex_table_layout demo_executor t g = (g, Inr demo_layout)" "ex_get_partition demo_executor t vs g = (g, Inr (Some ''x''))" for t vs g
    by (simp_all add: demo_executor_def demo_layout_def)
  define s1 where "s1 = demo_drain\<lparr>ds_step := 1, ds_log := [EvLayout demo_target (Inr demo_layout), EvGet demo_target [''1''] (Inr (Some ''x''))]\<rparr>"
  obtain ob where m: "mark_delivered demo_drain_env (demo_entry ''x'') s1 = (s1\<lparr>ds_outbox := ob, ds_step := Suc (ds_step s1), ds_log := ds_log s1 @ [EvMarked (demo_entry ''x'') (Inr Applied)]\<rparr>, Inr Applied)"
    "ob_files ob = fmempty" using demo_mark[of s1] by (auto simp: s1_def demo_drain_def)
  have "drain_group demo_drain_env demo_executor demo_target [?x] (demo_drain\<lparr>ds_step := 1\<rparr>) =
    (s1\<lparr>ds_outbox := ob, ds_step := Suc (ds_step s1), ds_log := ds_log s1 @ [EvMarked (demo_entry ''x'') (Inr Applied)]\<rparr>, Inr ())"
    using m(1) by (simp add: drain_group_def dbind_def request_def ex same_column_layout_def pay dret_def reorder_def ord demo_drain_def s1_def slice_chunks.simps)
  then have "drain_once demo_drain_env demo_executor demo_drain = (s1\<lparr>ds_outbox := ob, ds_step := Suc (ds_step s1), ds_log := ds_log s1 @ [EvMarked (demo_entry ''x'') (Inr Applied)]\<rparr>, Inr ())"
    by (simp add: drain_once_def dbind_def demo_load adm demo_parts(5) dret_def key btree_entries_def sorted_list_of_fset.rep_eq target_of_key_def demo_target_def)
  then show ?thesis using m(2) by (simp add: demo_log_def s1_def)
qed

theorem delivery_after_ack_witness: "\<exists>a\<in>set (take 2 demo_log). acks a (demo_entry ''x'')"
proof -
  obtain s where s: "drain_once demo_drain_env demo_executor demo_drain = (s, Inr ())" "ds_log s = demo_log" using demo_run by blast
  have "outbox_env_ok (dr_outbox demo_drain_env)" "outbox_reachable (dr_outbox demo_drain_env) (ds_outbox demo_drain)" "ds_log demo_drain = []"
    using demo_env_ok demo_reachable(2) by (simp_all add: demo_drain_env_def demo_drain_def)
  then have "demo_log = xs @ EvMarked e r # ys \<longrightarrow> (\<exists>a\<in>set xs. acks a e)" for xs e r ys
    using delivery_after_ack[of demo_drain_env demo_drain demo_executor s "Inr ()"] demo_orders s by metis
  from this[of "take 2 demo_log" "demo_entry ''x''" "Inr Applied" "[]"] show ?thesis by (simp add: demo_log_def)
qed

text \<open>C21. A drain that succeeds settles every due entry: each entry that is neither terminal nor deferred when the
  drain starts, the intents others persist up to then included, is marked delivered or recorded as failed before
  the drain returns, in its outbox entry or found replaced meanwhile; the only bound is the scan limit of 10,000 entries.\<close>

theorem drain_settles_due:
  assumes "outbox_env_ok (dr_outbox env)" "orders_ok env" "outbox_reachable (dr_outbox env) (ds_outbox s)"
    "drain_once env ex s = (s', Inr ())" "card (ox_due (ob_index (others_persist env s))) \<le> RECOVERY_SCAN_LIMIT"
    "entry_due (dr_outbox env) (dr_now env (ds_step s)) (others_persist env s) e"
  shows "\<exists>r. EvMarked e (Inr r) \<in> set (ds_log s') \<or> (\<exists>msg delay terminal. EvFailed e msg delay terminal (Inr r) \<in> set (ds_log s'))"
proof -
  have inv: "outbox_inv (dr_outbox env) (ds_outbox s)" by (rule reachable_inv[OF assms(3,1)])
  obtain es where es: "scan_eligible_pending (dr_outbox env) (dr_now env (ds_step s)) RECOVERY_SCAN_LIMIT (others_persist env s) = Inr es" "e \<in> set es"
    using scan_eligible_members[OF assms(1) others_persist_ok(1)[OF assms(1) inv] assms(5)] assms(6) by blast
  have "\<exists>s1. load_due env s = (s1, Inr es)"
  proof (cases "dr_join_fault env (ds_step s)")
    case None
    then show ?thesis using es(1) by (simp add: load_due_def blocking_def)
  next
    case (Some x)
    then show ?thesis using assms(4) by (simp add: drain_once_def dbind_def load_due_def blocking_def Let_def)
  qed
  then have "settled e s'" using drain_once_run(2)[OF assms(1,2) inv assms(4)] es(2) by blast
  then obtain ev where ev: "ev \<in> set (ds_log s')" "case ev of EvMarked e' (Inr r) \<Rightarrow> e' = e | EvFailed e' msg d t (Inr r) \<Rightarrow> e' = e | _ \<Rightarrow> False"
    unfolding settled_def by blast
  then show ?thesis by (auto split: drain_event.splits sum.splits)
qed

theorem drain_settles_due_witness:
  "\<exists>r. EvMarked (demo_entry ''x'') (Inr r) \<in> set demo_log \<or> (\<exists>msg delay terminal. EvFailed (demo_entry ''x'') msg delay terminal (Inr r) \<in> set demo_log)"
proof -
  obtain s where s: "drain_once demo_drain_env demo_executor demo_drain = (s, Inr ())" "ds_log s = demo_log" using demo_run by blast
  have ob: "ds_outbox demo_drain = demo_ob" by (simp add: demo_drain_def)
  have f: "dr_outbox demo_drain_env = demo_env" "dr_now demo_drain_env k = 7" for k by (simp_all add: demo_drain_env_def)
  have "entry_due demo_env 7 demo_ob (demo_entry ''x'')"
    using demo_read by (simp add: entry_due_def demo_parts) (simp add: demo_entry_def new_entry_def)
  then show ?thesis
    using drain_settles_due[of demo_drain_env demo_drain demo_executor s "demo_entry ''x''"] demo_env_ok demo_orders demo_reachable(2) s
    by (simp add: f ob demo_others[OF ob] demo_parts RECOVERY_SCAN_LIMIT_def)
qed

text \<open>C24. \<^verbatim>\<open>drain_until_idle\<close> ends. Between two turns it sleeps for a tenth of a second or for the time left, so when
  the clock moves at least that far, a turn for every started tenth of a second of the timeout and one more are enough
  for it to return, whatever Glue and the outbox answer.\<close>

theorem drain_until_idle_ends:
  assumes "turns \<noteq> []" "(unat (hd turns) + 99) div 100 + 1 \<le> length turns"
    "\<forall>k. Suc k < length turns \<longrightarrow> unat (turns ! Suc k) \<le> unat (turns ! k) - min (unat (turns ! k)) 100"
  shows "\<exists>res. drain_until_idle env ex turns s = Some res"
  using assms
proof (induction turns arbitrary: s)
  case (Cons t turns)
  show ?case
  proof (cases "t = 0 \<or> sn_due_count (metadata_snapshot (dr_now env (ds_step s)) (ds_outbox s)) = 0")
    case True
    then show ?thesis by auto
  next
    case False
    obtain s1 r1 where d: "drain_once env ex s = (s1, r1)" by fastforce
    have pos: "0 < unat t" using False by (simp add: unat_gt_0)
    then have "1 \<le> (unat t + 99) div 100" by linarith
    then have ne: "turns \<noteq> []" using Cons.prems(2) by auto
    have "unat (hd turns) \<le> unat t - min (unat t) 100" using Cons.prems(3)[rule_format, of 0] ne by (simp add: hd_conv_nth)
    then have "(unat (hd turns) + 99) div 100 + 1 \<le> length turns" using Cons.prems(2) pos by (auto simp: min_def split: if_splits)
    moreover have "\<forall>k. Suc k < length turns \<longrightarrow> unat (turns ! Suc k) \<le> unat (turns ! k) - min (unat (turns ! k)) 100"
      using Cons.prems(3) by (metis Suc_less_eq length_Cons nth_Cons_Suc)
    ultimately have "\<exists>res. drain_until_idle env ex turns s1 = Some res" using Cons.IH[OF ne] by blast
    then show ?thesis using False d by (auto split: sum.splits)
  qed
qed simp

theorem drain_until_idle_ends_witness: "\<exists>res. drain_until_idle demo_drain_env demo_executor [50, 0] demo_drain = Some res"
  by (rule drain_until_idle_ends) (auto simp: less_Suc_eq)

text \<open>The retry delay never wraps: it is at least the exponential base of 250 ms doubled per attempt, at most a
  quarter more, and both are capped at a minute, for every number of attempts and every random number.\<close>

lemma retry_delay_bounds:
  "unat (retry_base_ms attempts) = 250 * 2 ^ min (unat attempts) 8
   \<and> min (250 * 2 ^ min (unat attempts) 8) 60000 \<le> unat (retry_delay jitter attempts)
   \<and> unat (retry_delay jitter attempts) \<le> min (250 * 2 ^ min (unat attempts) 8 * 5 div 4) 60000"
proof -
  define b :: nat where "b = 250 * 2 ^ min (unat attempts) 8"
  have "(2::nat) ^ min (unat attempts) 8 \<le> 2 ^ 8" by (rule power_increasing) simp_all
  then have b: "250 \<le> b" "b \<le> 64000" by (simp_all add: b_def)
  have base: "unat (retry_base_ms attempts) = b" using b unfolding retry_base_ms_def b_def[symmetric] by (simp add: unsigned_of_nat take_bit_nat_eq_self_iff)
  define j where "j = jitter mod (retry_base_ms attempts div 4 + 1)"
  have q: "unat (retry_base_ms attempts div 4) = b div 4" by (simp add: unat_div base)
  then have q1: "unat (retry_base_ms attempts div 4 + 1) = b div 4 + 1" using b by (simp add: unat_word_ariths)
  then have j: "unat j \<le> b div 4" unfolding j_def unat_mod q1 by (metis less_Suc_eq_le mod_less_divisor Suc_eq_plus1 zero_less_Suc)
  then have sum: "unat (retry_base_ms attempts + j) = b + unat j" using b base by (simp add: unat_word_ariths)
  have "retry_delay jitter attempts = min (retry_base_ms attempts + j) 60000" by (simp add: retry_delay_def j_def Let_def)
  then have "unat (retry_delay jitter attempts) = min (b + unat j) 60000" by (simp add: min_def word_le_nat_alt sum)
  moreover have "b + b div 4 \<le> b * 5 div 4" by linarith
  ultimately show ?thesis using base j unfolding b_def[symmetric] by (auto simp: min_def)
qed

section \<open>Batch outcomes\<close>

lemma last_index_some:
  "last_index vs ps k = Some i \<Longrightarrow> k \<le> i \<and> i < k + length ps \<and> gs_values (ps ! (i - k)) = vs"
  by (induction ps arbitrary: k) (fastforce simp: nth_Cons' split: option.splits if_splits)+

lemma last_index_none: "last_index vs ps k = None \<longleftrightarrow> vs \<notin> gs_values ` set ps"
proof (induction ps arbitrary: k)
  case (Cons p ps)
  then show ?case using Cons.IH[of "Suc k"] by (cases "last_index vs ps (Suc k)") auto
qed simp

lemma partition_error_not_created: "partition_error_outcome e \<noteq> Created"
  by (simp add: partition_error_outcome_def Let_def)

lemma batch_outcomes_run:
  assumes "distinct (map gs_values ps)" "length outcomes = length ps"
  shows "(\<exists>e. batch_outcomes ps errors outcomes = Inl e \<and> ge_kind e = Transient) \<and> \<not> sp_values ` set errors \<subseteq> gs_values ` set ps
    \<or> (\<exists>outs. batch_outcomes ps errors outcomes = Inr outs \<and> length outs = length ps
        \<and> (\<forall>i<length ps. outs ! i = Created \<longleftrightarrow> outcomes ! i = Created \<and> gs_values (ps ! i) \<notin> sp_values ` set errors)) \<and> sp_values ` set errors \<subseteq> gs_values ` set ps"
  using assms(2)
proof (induction errors arbitrary: outcomes)
  case (Cons e errors)
  show ?case
  proof (cases "last_index (sp_values e) ps 0")
    case None
    then show ?thesis using last_index_none[of "sp_values e" ps 0] by simp
  next
    case (Some k)
    then have k: "k < length ps" "gs_values (ps ! k) = sp_values e" using last_index_some[OF Some] by simp_all
    have at: "i = k \<longleftrightarrow> gs_values (ps ! i) = sp_values e" if "i < length ps" for i
      using that k assms(1) by (metis length_map nth_eq_iff_index_eq nth_map)
    have mem: "sp_values e \<in> gs_values ` set ps" using k by (metis image_eqI nth_mem)
    have upd: "outcomes[k := partition_error_outcome e] ! i = Created \<longleftrightarrow> outcomes ! i = Created \<and> gs_values (ps ! i) \<noteq> sp_values e" if "i < length ps" for i
      using that at[OF that] partition_error_not_created k(1) Cons.prems by (auto simp: nth_list_update)
    show ?thesis using Cons.IH[of "outcomes[k := partition_error_outcome e]"] Cons.prems Some mem upd by auto
  qed
qed simp

text \<open>The outcomes of a batch are exact: when its partitions have distinct values, the answer of Glue is turned
  into one outcome per partition, \<^verbatim>\<open>Created\<close> for precisely the partitions without an error, and into a transient
  failure of the whole batch when an error names values that were not asked for.\<close>

theorem batch_outcomes_exact:
  assumes "distinct (map gs_values ps)" "sdk_batch_create_partition sdk target (map partition_input ps) g = (g', Inr errors)"
  shows "case aws_batch_create_partitions sdk target ps g of
      (g1, Inr outs) \<Rightarrow> g1 = g' \<and> length outs = length ps \<and> sp_values ` set errors \<subseteq> gs_values ` set ps
        \<and> (\<forall>i<length ps. outs ! i = Created \<longleftrightarrow> gs_values (ps ! i) \<notin> sp_values ` set errors)
    | (g1, Inl e) \<Rightarrow> g1 = g' \<and> ge_kind e = Transient \<and> \<not> sp_values ` set errors \<subseteq> gs_values ` set ps"
  using batch_outcomes_run[OF assms(1), of "replicate (length ps) Created" errors, simplified] assms(2)
  by (elim disjE conjE exE) (simp_all add: aws_batch_create_partitions_def)

definition demo_spec :: "string \<Rightarrow> GluePartitionSpec" where
  "demo_spec v = \<lparr>gs_values = [v], gs_location = v, gs_storage_columns = [], gs_input_format = [], gs_output_format = [], gs_serde_library = []\<rparr>"

definition demo_sdk :: "unit glue_sdk" where
  "demo_sdk = \<lparr>sdk_get_table = (\<lambda>t g. (g, Inr None)), sdk_get_partition = (\<lambda>t vs g. (g, Inr None)),
     sdk_batch_create_partition = (\<lambda>t ps g. (g, Inr [\<lparr>sp_values = [''2''], sp_detail = None\<rparr>])), sdk_update_partition = (\<lambda>t vs p g. (g, Inr ()))\<rparr>"

theorem batch_outcomes_exact_witness:
  "case aws_batch_create_partitions demo_sdk demo_target [demo_spec ''1'', demo_spec ''2''] () of
     (g1, Inr outs) \<Rightarrow> outs ! 0 = Created \<and> outs ! 1 \<noteq> Created | (g1, Inl e) \<Rightarrow> False"
  using batch_outcomes_exact[of "[demo_spec ''1'', demo_spec ''2'']" demo_sdk demo_target "()" "()" "[\<lparr>sp_values = [''2''], sp_detail = None\<rparr>]"]
  by (auto simp: demo_spec_def demo_sdk_def less_Suc_eq split: prod.splits sum.splits)

end
