(* ===== verification/Flush_Tuner.thy ===== *)
theory Flush_Tuner
  imports Prelude
begin

text \<open>
  The controller of the concurrency limits of the flush pipeline (\<^verbatim>\<open>src/src/ingest/tuner.rs\<close>): the caps of a machine and of
  the environment, the decision of one sample, and the state kept between samples. \<open>usize\<close> and \<open>u64\<close> values
  are natural numbers with the saturation of the code written out at 64 bits. A load average is a finite
  \<open>f64\<close>, seen as the rational number it denotes; its limits are computed with the rounding of \<open>f64\<close>. The
  counters read by a sample, the clock and the environment variables are arguments. The mirrors of the
  budget in the metrics and the chunk-size heuristic are left out.
\<close>

section \<open>Arithmetic\<close>

definition MAX64 :: nat where "MAX64 = 2 ^ 64 - 1"

definition sat_mul64 :: "nat \<Rightarrow> nat \<Rightarrow> nat" where "sat_mul64 a b = min (a * b) MAX64"
definition sat_add64 :: "nat \<Rightarrow> nat \<Rightarrow> nat" where "sat_add64 a b = min (a + b) MAX64"
definition clamp :: "nat \<Rightarrow> nat \<Rightarrow> nat \<Rightarrow> nat" where "clamp lo hi x = min (max x lo) hi"

text \<open>Rounding of a natural number to 53 significant bits, to the nearest and ties to even.\<close>

fun bit_len :: "nat \<Rightarrow> nat" where
  "bit_len n = (if n = 0 then 0 else Suc (bit_len (n div 2)))"

definition round53 :: "nat \<Rightarrow> nat" where
  "round53 n = (let k = bit_len n - 53; q = n div 2 ^ k; r = n mod 2 ^ k in
     if k = 0 then n
     else (if 2 * r > 2 ^ k \<or> (2 * r = 2 ^ k \<and> odd q) then Suc q else q) * 2 ^ k)"

text \<open>\<open>n as f64 * 0.90\<close> and \<open>n as f64 * 1.25\<close>: the constant \<open>0.90\<close> is \<open>8106479329266893 / 2 ^ 53\<close>.\<close>

definition load_90 :: "nat \<Rightarrow> rat" where
  "load_90 n = of_nat (round53 (round53 n * 8106479329266893)) / 2 ^ 53"

definition load_125 :: "nat \<Rightarrow> rat" where
  "load_125 n = of_nat (round53 (round53 n * 5)) / 4"

section \<open>Data\<close>

definition TUNE_INTERVAL_NS :: nat where "TUNE_INTERVAL_NS = 1000000000"
definition RETRY_BACKOFF_X100 :: nat where "RETRY_BACKOFF_X100 = 50"
definition HIGH_UPLOAD_LATENCY_MS :: nat where "HIGH_UPLOAD_LATENCY_MS = 30000"
definition HIGH_SINK_COMMIT_MS :: nat where "HIGH_SINK_COMMIT_MS = 60000"
definition HIGH_SINK_WAIT_MS :: nat where "HIGH_SINK_WAIT_MS = 1000"
definition HIGH_SINK_WRITE_AGE_MS :: nat where "HIGH_SINK_WRITE_AGE_MS = 120000"
definition HIGH_WAL_ACK_MS :: nat where "HIGH_WAL_ACK_MS = 250"
definition HIGH_WAL_PERSIST_MS :: nat where "HIGH_WAL_PERSIST_MS = 500"
definition QUIET_SAMPLES_BEFORE_GROWTH :: nat where "QUIET_SAMPLES_BEFORE_GROWTH = 5"
definition GROWTH_COOLDOWN_SAMPLES :: nat where "GROWTH_COOLDOWN_SAMPLES = 10"
definition BACKLOG_GRACE_SAMPLES :: nat where "BACKLOG_GRACE_SAMPLES = 15"

datatype FlushMode = Ingest | Paused | Drain

datatype BudgetReason = Initial | EnvironmentCaps | IngestReserve | Idle | HealthyDrain | HighRss | LowAvailableMemory | HighRunQueue | CpuSaturated
  | S3Retry | GlueThrottle | UploadLatency | SinkContention | OpportunisticHeadroom | IngestPressure | BacklogGrace | SinkWriteAge

fun budget_reason_as_str :: "BudgetReason \<Rightarrow> string" where
  "budget_reason_as_str Initial = ''initial''"
| "budget_reason_as_str EnvironmentCaps = ''environment_caps''"
| "budget_reason_as_str IngestReserve = ''ingest_reserve''"
| "budget_reason_as_str Idle = ''idle''"
| "budget_reason_as_str HealthyDrain = ''healthy_drain''"
| "budget_reason_as_str HighRss = ''high_rss''"
| "budget_reason_as_str LowAvailableMemory = ''low_available_memory''"
| "budget_reason_as_str HighRunQueue = ''high_run_queue''"
| "budget_reason_as_str CpuSaturated = ''cpu_saturated''"
| "budget_reason_as_str S3Retry = ''s3_retry''"
| "budget_reason_as_str GlueThrottle = ''glue_throttle''"
| "budget_reason_as_str UploadLatency = ''upload_latency''"
| "budget_reason_as_str SinkContention = ''sink_contention''"
| "budget_reason_as_str OpportunisticHeadroom = ''opportunistic_headroom''"
| "budget_reason_as_str IngestPressure = ''ingest_pressure''"
| "budget_reason_as_str BacklogGrace = ''backlog_grace''"
| "budget_reason_as_str SinkWriteAge = ''sink_write_age''"

fun budget_reason_code :: "BudgetReason \<Rightarrow> nat" where
  "budget_reason_code Initial = 0"
| "budget_reason_code EnvironmentCaps = 1"
| "budget_reason_code IngestReserve = 2"
| "budget_reason_code Idle = 3"
| "budget_reason_code HealthyDrain = 4"
| "budget_reason_code HighRss = 5"
| "budget_reason_code LowAvailableMemory = 6"
| "budget_reason_code HighRunQueue = 7"
| "budget_reason_code CpuSaturated = 8"
| "budget_reason_code S3Retry = 9"
| "budget_reason_code GlueThrottle = 10"
| "budget_reason_code UploadLatency = 11"
| "budget_reason_code SinkContention = 12"
| "budget_reason_code OpportunisticHeadroom = 13"
| "budget_reason_code IngestPressure = 14"
| "budget_reason_code BacklogGrace = 15"
| "budget_reason_code SinkWriteAge = 16"

datatype IngestPressureClass = Quiet | Neutral | Pressured

record FlushBudgetPolicyState =
  po_quiet_streak :: nat
  po_growth_cooldown_remaining :: nat
  po_backlog_grace_remaining :: nat

definition policy_default :: FlushBudgetPolicyState where
  "policy_default = \<lparr>po_quiet_streak = 0, po_growth_cooldown_remaining = 0, po_backlog_grace_remaining = 0\<rparr>"

definition primed_for_growth :: FlushBudgetPolicyState where
  "primed_for_growth = \<lparr>po_quiet_streak = QUIET_SAMPLES_BEFORE_GROWTH, po_growth_cooldown_remaining = 0, po_backlog_grace_remaining = 0\<rparr>"

record FlushBudgetSnapshot =
  fb_scheduler_jobs :: nat
  fb_decode_jobs :: nat
  fb_sink_sessions :: nat
  fb_upload_sessions :: nat
  fb_multipart_parts :: nat
  fb_catalog_operations :: nat
  fb_ingest_reserved_cores :: nat
  fb_generation :: nat
  fb_reason :: BudgetReason

definition snapshot_default :: FlushBudgetSnapshot where
  "snapshot_default = \<lparr>fb_scheduler_jobs = 1, fb_decode_jobs = 1, fb_sink_sessions = 1, fb_upload_sessions = 1, fb_multipart_parts = 1,
     fb_catalog_operations = 1, fb_ingest_reserved_cores = 1, fb_generation = 0, fb_reason = Initial\<rparr>"

record FlushBudgetCaps =
  cp_num_cpus :: nat
  cp_scheduler_jobs :: nat
  cp_decode_jobs :: nat
  cp_sink_sessions :: nat
  cp_upload_sessions :: nat
  cp_multipart_parts :: nat
  cp_catalog_operations :: nat
  cp_ingest_reserved_cores :: nat
  cp_ingest_safe_scheduler_jobs :: nat

definition caps_for_machine :: "nat \<Rightarrow> nat option \<Rightarrow> FlushBudgetCaps" where
  "caps_for_machine cpus total_memory_bytes =
     (let num_cpus = max cpus 2;
          memory_gib = map_option (\<lambda>bytes. min (max (bytes div (1024 * 1024 * 1024)) 1) MAX64) total_memory_bytes;
          scheduler_jobs = clamp 2 128 (sat_mul64 num_cpus 2);
          decode_jobs = clamp 1 128 (case memory_gib of Some gib \<Rightarrow> min num_cpus (sat_mul64 gib 2) | None \<Rightarrow> num_cpus);
          sink_sessions = min (case memory_gib of Some gib \<Rightarrow> max (gib div 4) 1 | None \<Rightarrow> 2) (clamp 2 16 (num_cpus div 4));
          upload_sessions = min (case memory_gib of Some gib \<Rightarrow> sat_mul64 gib 2 | None \<Rightarrow> 4) (clamp 4 256 (sat_mul64 num_cpus 2));
          multipart_parts = min (case memory_gib of Some gib \<Rightarrow> clamp 1 8 (gib div 16) | None \<Rightarrow> 2) (clamp 2 8 (num_cpus div 8));
          catalog_operations = clamp 2 16 (num_cpus div 8);
          ingest_reserved_cores = max (num_cpus div 4) 1
      in \<lparr>cp_num_cpus = num_cpus, cp_scheduler_jobs = scheduler_jobs, cp_decode_jobs = decode_jobs, cp_sink_sessions = max sink_sessions 1,
          cp_upload_sessions = max upload_sessions 1, cp_multipart_parts = max multipart_parts 1, cp_catalog_operations = catalog_operations,
          cp_ingest_reserved_cores = ingest_reserved_cores, cp_ingest_safe_scheduler_jobs = min 2 scheduler_jobs\<rparr>)"

record FlushBudgetSignals =
  si_mode :: "FlushMode option"
  si_has_backlog :: bool
  si_active_ingest :: nat
  si_queued_ingest :: nat
  si_scheduler_ready_depth :: nat
  si_cpu_active_tasks :: nat
  si_run_queue :: "rat option"
  si_process_rss_bytes :: "nat option"
  si_total_memory_bytes :: "nat option"
  si_available_memory_bytes :: "nat option"
  si_decode_permit_wait_ms :: "nat option"
  si_sink_permit_wait_ms :: "nat option"
  si_runtime_sink_waiters :: nat
  si_uploads_in_flight :: nat
  si_upload_latency_ms :: "nat option"
  si_sink_commit_ms :: "nat option"
  si_oldest_sink_write_ms :: "nat option"
  si_s3_retries :: nat
  si_s3_retry_ema_x100 :: nat
  si_glue_retries :: nat
  si_glue_retry_ema_x100 :: nat
  si_wal_writer_pending :: nat
  si_wal_writer_capacity :: nat
  si_wal_persist_avg_ms :: "nat option"
  si_wal_ack_avg_ms :: "nat option"
  si_source_bytes_per_sec :: nat
  si_wal_write_bytes_per_sec :: nat

definition signals_mode :: "FlushBudgetSignals \<Rightarrow> FlushMode" where
  "signals_mode s = (case si_mode s of Some m \<Rightarrow> m | None \<Rightarrow> Ingest)"

section \<open>The decision of one sample\<close>

definition scheduler_additive_step :: "nat \<Rightarrow> nat" where
  "scheduler_additive_step num_cpus = clamp 1 4 (num_cpus div 32)"

definition scheduler_cap :: "FlushBudgetCaps \<Rightarrow> bool \<Rightarrow> nat" where
  "scheduler_cap caps ingest_busy =
     (if ingest_busy then min (min (cp_scheduler_jobs caps) (cp_ingest_safe_scheduler_jobs caps)) (max (cp_num_cpus caps - cp_ingest_reserved_cores caps) 1)
      else cp_scheduler_jobs caps)"

definition cap_snapshot :: "FlushBudgetSnapshot \<Rightarrow> FlushBudgetCaps \<Rightarrow> bool \<Rightarrow> FlushBudgetSnapshot" where
  "cap_snapshot sn caps ingest_busy = (let sc = scheduler_cap caps ingest_busy in
     sn\<lparr>fb_scheduler_jobs := clamp 1 (max sc 1) (fb_scheduler_jobs sn), fb_decode_jobs := clamp 1 (max (min (cp_decode_jobs caps) sc) 1) (fb_decode_jobs sn),
        fb_sink_sessions := clamp 1 (max (cp_sink_sessions caps) 1) (fb_sink_sessions sn), fb_upload_sessions := clamp 1 (max (cp_upload_sessions caps) 1) (fb_upload_sessions sn),
        fb_multipart_parts := clamp 1 (max (cp_multipart_parts caps) 1) (fb_multipart_parts sn),
        fb_catalog_operations := clamp 1 (max (cp_catalog_operations caps) 1) (fb_catalog_operations sn), fb_ingest_reserved_cores := cp_ingest_reserved_cores caps\<rparr>)"

definition same_limits :: "FlushBudgetSnapshot \<Rightarrow> FlushBudgetSnapshot \<Rightarrow> bool" where
  "same_limits a b \<longleftrightarrow> fb_scheduler_jobs a = fb_scheduler_jobs b \<and> fb_decode_jobs a = fb_decode_jobs b \<and> fb_sink_sessions a = fb_sink_sessions b
     \<and> fb_upload_sessions a = fb_upload_sessions b \<and> fb_multipart_parts a = fb_multipart_parts b \<and> fb_catalog_operations a = fb_catalog_operations b
     \<and> fb_ingest_reserved_cores a = fb_ingest_reserved_cores b"

definition finish_decision :: "FlushBudgetSnapshot \<Rightarrow> FlushBudgetSnapshot \<Rightarrow> BudgetReason \<Rightarrow> FlushBudgetSnapshot" where
  "finish_decision current next_sn reason = (if same_limits current next_sn then current
     else next_sn\<lparr>fb_generation := sat_add64 (fb_generation current) 1, fb_reason := reason\<rparr>)"

definition multiplicative_sink_upload_backoff :: "FlushBudgetSnapshot \<Rightarrow> FlushBudgetSnapshot" where
  "multiplicative_sink_upload_backoff sn = sn\<lparr>fb_sink_sessions := max (fb_sink_sessions sn div 2) 1, fb_upload_sessions := max (fb_upload_sessions sn div 2) 1,
     fb_multipart_parts := max (fb_multipart_parts sn div 2) 1, fb_catalog_operations := max (fb_catalog_operations sn div 2) 1\<rparr>"

definition multiplicative_backoff :: "FlushBudgetSnapshot \<Rightarrow> FlushBudgetSnapshot" where
  "multiplicative_backoff sn = sn\<lparr>fb_scheduler_jobs := max (fb_scheduler_jobs sn div 2) 1, fb_decode_jobs := max (fb_decode_jobs sn div 2) 1,
     fb_sink_sessions := max (fb_sink_sessions sn div 2) 1, fb_upload_sessions := max (fb_upload_sessions sn div 2) 1,
     fb_multipart_parts := max (fb_multipart_parts sn div 2) 1, fb_catalog_operations := max (fb_catalog_operations sn div 2) 1\<rparr>"

definition additive_idle_decrease :: "FlushBudgetSnapshot \<Rightarrow> FlushBudgetSnapshot" where
  "additive_idle_decrease sn = sn\<lparr>fb_scheduler_jobs := max (fb_scheduler_jobs sn - 1) 1, fb_decode_jobs := max (fb_decode_jobs sn - 1) 1,
     fb_sink_sessions := max (fb_sink_sessions sn - 1) 1, fb_upload_sessions := max (fb_upload_sessions sn - 1) 1,
     fb_multipart_parts := max (fb_multipart_parts sn - 1) 1, fb_catalog_operations := max (fb_catalog_operations sn - 1) 1\<rparr>"

definition ratio_at_least :: "nat \<Rightarrow> nat \<Rightarrow> nat \<Rightarrow> bool" where
  "ratio_at_least v whole percent \<longleftrightarrow> 0 < whole \<and> sat_mul64 whole percent \<le> sat_mul64 v 100"

definition ratio_at_most :: "nat \<Rightarrow> nat \<Rightarrow> nat \<Rightarrow> bool" where
  "ratio_at_most v whole percent \<longleftrightarrow> 0 < whole \<and> sat_mul64 v 100 \<le> sat_mul64 whole percent"

definition some_ge :: "nat option \<Rightarrow> nat \<Rightarrow> bool" where
  "some_ge x bound = (case x of Some v \<Rightarrow> bound \<le> v | None \<Rightarrow> False)"

definition memory_healthy :: "FlushBudgetSignals \<Rightarrow> bool" where
  "memory_healthy s = (case (si_available_memory_bytes s, si_process_rss_bytes s, si_total_memory_bytes s) of
      (Some available, Some rss, Some whole) \<Rightarrow> ratio_at_least available whole 25 \<and> ratio_at_most rss whole 60
    | (Some available, _, None) \<Rightarrow> 2 * 1024 * 1024 * 1024 \<le> available
    | (_, Some rss, Some whole) \<Rightarrow> ratio_at_most rss whole 60
    | _ \<Rightarrow> False)"

definition load_healthy :: "FlushBudgetSignals \<Rightarrow> FlushBudgetCaps \<Rightarrow> bool" where
  "load_healthy s caps = (case si_run_queue s of
      Some load \<Rightarrow> load \<le> load_90 (cp_num_cpus caps)
    | None \<Rightarrow> si_cpu_active_tasks s < sat_mul64 (cp_num_cpus caps) 3 div 4)"

definition retries_healthy :: "FlushBudgetSignals \<Rightarrow> bool" where
  "retries_healthy s \<longleftrightarrow> si_s3_retries s = 0 \<and> si_glue_retries s = 0 \<and> si_s3_retry_ema_x100 s < RETRY_BACKOFF_X100 \<and> si_glue_retry_ema_x100 s < RETRY_BACKOFF_X100"

definition wal_writer_pressured :: "FlushBudgetSignals \<Rightarrow> bool" where
  "wal_writer_pressured s =
     (let queue_saturated = 0 < si_wal_writer_capacity s \<and> si_wal_writer_capacity s \<le> sat_mul64 (si_wal_writer_pending s) 2;
          latency_pressured = 0 < si_wal_writer_pending s \<and> (some_ge (si_wal_ack_avg_ms s) HIGH_WAL_ACK_MS \<or> some_ge (si_wal_persist_avg_ms s) HIGH_WAL_PERSIST_MS)
      in queue_saturated \<or> latency_pressured)"

definition ingest_pressured :: "FlushBudgetSignals \<Rightarrow> FlushBudgetCaps \<Rightarrow> bool" where
  "ingest_pressured s caps \<longleftrightarrow> 0 < si_queued_ingest s \<or> cp_ingest_reserved_cores caps \<le> si_active_ingest s \<or> wal_writer_pressured s"

definition classify_pressure :: "FlushBudgetSignals \<Rightarrow> FlushBudgetCaps \<Rightarrow> IngestPressureClass" where
  "classify_pressure s caps = (if ingest_pressured s caps then Pressured
     else if memory_healthy s \<and> load_healthy s caps \<and> retries_healthy s then Quiet else Neutral)"

definition mark_backoff_cooldown :: "FlushBudgetPolicyState \<Rightarrow> FlushBudgetPolicyState" where
  "mark_backoff_cooldown po = po\<lparr>po_quiet_streak := 0, po_growth_cooldown_remaining := GROWTH_COOLDOWN_SAMPLES\<rparr>"

definition finish_with_policy :: "FlushBudgetSnapshot \<Rightarrow> FlushBudgetSnapshot \<Rightarrow> BudgetReason \<Rightarrow> FlushBudgetPolicyState \<Rightarrow> FlushBudgetSnapshot \<times> FlushBudgetPolicyState" where
  "finish_with_policy current next_sn reason po = (finish_decision current next_sn reason, po)"

definition additive_growth :: "FlushBudgetSnapshot \<Rightarrow> FlushBudgetCaps \<Rightarrow> FlushBudgetSignals \<Rightarrow> FlushBudgetSnapshot" where
  "additive_growth current caps s =
     (let step = scheduler_additive_step (cp_num_cpus caps); ready = si_scheduler_ready_depth s;
          scheduler_demand = fb_scheduler_jobs current < ready \<or> some_ge (si_decode_permit_wait_ms s) 1;
          sink_demand = fb_sink_sessions current < ready \<or> some_ge (si_sink_permit_wait_ms s) 1 \<or> 0 < si_runtime_sink_waiters s;
          upload_demand = fb_upload_sessions current < ready \<or> fb_upload_sessions current \<le> si_uploads_in_flight s \<or> si_upload_latency_ms s \<noteq> None;
          catalog_demand = fb_catalog_operations current < ready \<or> 0 < si_runtime_sink_waiters s;
          grow = (\<lambda>demand v step cap. if demand then min (sat_add64 v step) cap else v)
      in current\<lparr>fb_scheduler_jobs := grow scheduler_demand (fb_scheduler_jobs current) step (cp_scheduler_jobs caps),
           fb_decode_jobs := grow scheduler_demand (fb_decode_jobs current) step (cp_decode_jobs caps),
           fb_sink_sessions := grow sink_demand (fb_sink_sessions current) 1 (cp_sink_sessions caps),
           fb_upload_sessions := grow upload_demand (fb_upload_sessions current) step (cp_upload_sessions caps),
           fb_multipart_parts := grow upload_demand (fb_multipart_parts current) 1 (cp_multipart_parts caps),
           fb_catalog_operations := grow catalog_demand (fb_catalog_operations current) 1 (cp_catalog_operations caps)\<rparr>)"

text \<open>The start of a sample: the backlog latch and the streak of quiet samples.\<close>

definition observe_policy :: "FlushBudgetSignals \<Rightarrow> IngestPressureClass \<Rightarrow> FlushBudgetPolicyState \<Rightarrow> FlushBudgetPolicyState" where
  "observe_policy s pressure po =
     (let po1 = (if si_has_backlog s then po\<lparr>po_backlog_grace_remaining := BACKLOG_GRACE_SAMPLES\<rparr>
                 else po\<lparr>po_backlog_grace_remaining := po_backlog_grace_remaining po - 1\<rparr>)
      in (case pressure of
            Quiet \<Rightarrow> po1\<lparr>po_quiet_streak := min (po_quiet_streak po1 + 1) QUIET_SAMPLES_BEFORE_GROWTH\<rparr>
          | _ \<Rightarrow> po1\<lparr>po_quiet_streak := 0\<rparr>))"

text \<open>The safeguards in the order of the code, each with its reason and its backoff.\<close>

definition safeguard :: "FlushBudgetSignals \<Rightarrow> FlushBudgetCaps \<Rightarrow> (BudgetReason \<times> (FlushBudgetSnapshot \<Rightarrow> FlushBudgetSnapshot)) option" where
  "safeguard s caps =
     (if (case (si_process_rss_bytes s, si_total_memory_bytes s) of (Some rss, Some whole) \<Rightarrow> ratio_at_least rss whole 75 | _ \<Rightarrow> False)
        then Some (HighRss, multiplicative_backoff)
      else if (case (si_available_memory_bytes s, si_total_memory_bytes s) of (Some available, Some whole) \<Rightarrow> ratio_at_most available whole 15 | _ \<Rightarrow> False)
        then Some (LowAvailableMemory, multiplicative_backoff)
      else if (case si_run_queue s of Some load \<Rightarrow> load_125 (cp_num_cpus caps) < load | None \<Rightarrow> False) then Some (HighRunQueue, multiplicative_backoff)
      else if si_run_queue s = None \<and> cp_num_cpus caps \<le> si_cpu_active_tasks s then Some (CpuSaturated, multiplicative_backoff)
      else if 0 < si_s3_retries s \<or> RETRY_BACKOFF_X100 \<le> si_s3_retry_ema_x100 s then Some (S3Retry, multiplicative_backoff)
      else if 0 < si_glue_retries s \<or> RETRY_BACKOFF_X100 \<le> si_glue_retry_ema_x100 s then Some (GlueThrottle, multiplicative_backoff)
      else if some_ge (si_upload_latency_ms s) HIGH_UPLOAD_LATENCY_MS then Some (UploadLatency, multiplicative_backoff)
      else if some_ge (si_sink_commit_ms s) HIGH_SINK_COMMIT_MS \<and> (some_ge (si_sink_permit_wait_ms s) HIGH_SINK_WAIT_MS \<or> 0 < si_runtime_sink_waiters s)
        then Some (SinkContention, multiplicative_backoff)
      else if some_ge (si_oldest_sink_write_ms s) HIGH_SINK_WRITE_AGE_MS then Some (SinkWriteAge, multiplicative_sink_upload_backoff)
      else None)"

definition hold :: "bool \<Rightarrow> FlushBudgetSnapshot \<Rightarrow> FlushBudgetSnapshot" where
  "hold using_backlog_grace current = (if using_backlog_grace \<and> fb_reason current \<noteq> BacklogGrace then current\<lparr>fb_reason := BacklogGrace\<rparr> else current)"

definition compute_flush_budget ::
  "FlushBudgetSnapshot \<Rightarrow> FlushBudgetCaps \<Rightarrow> FlushBudgetSignals \<Rightarrow> FlushBudgetPolicyState \<Rightarrow> FlushBudgetSnapshot \<times> FlushBudgetPolicyState"
where
  "compute_flush_budget current caps s po =
     (let pressure = classify_pressure s caps; po1 = observe_policy s pressure po;
          effective_backlog = si_has_backlog s \<or> 0 < po_backlog_grace_remaining po1;
          using_backlog_grace = \<not> si_has_backlog s \<and> 0 < po_backlog_grace_remaining po1;
          env_capped = cap_snapshot current caps False;
          drain_mode = (signals_mode s = Drain \<or> signals_mode s = Paused)
      in if \<not> same_limits current env_capped then finish_with_policy current env_capped EnvironmentCaps po1
         else if pressure = Pressured then
           finish_with_policy current (multiplicative_sink_upload_backoff (cap_snapshot current caps True)) IngestPressure (mark_backoff_cooldown po1)
         else case safeguard s caps of
           Some (reason, backoff) \<Rightarrow> finish_with_policy current (backoff current) reason (mark_backoff_cooldown po1)
         | None \<Rightarrow>
            if \<not> effective_backlog then finish_with_policy current (additive_idle_decrease current) Idle po1
            else if 0 < po_growth_cooldown_remaining po1 then
              (hold using_backlog_grace current, po1\<lparr>po_growth_cooldown_remaining := po_growth_cooldown_remaining po1 - 1\<rparr>)
            else if \<not> (drain_mode \<or> (pressure = Quiet \<and> QUIET_SAMPLES_BEFORE_GROWTH \<le> po_quiet_streak po1)) then (hold using_backlog_grace current, po1)
            else if \<not> (memory_healthy s \<and> load_healthy s caps \<and> retries_healthy s) then (current, po1)
            else finish_with_policy current (additive_growth current caps s) (if drain_mode then HealthyDrain else OpportunisticHeadroom) po1)"

section \<open>The tuner\<close>

record TelemetryTotals =
  tt_s3_retries :: nat
  tt_glue_retries :: nat
  tt_uploads :: nat
  tt_upload_latency_ns :: nat
  tt_decode_acquires :: nat
  tt_decode_wait_ns :: nat
  tt_sink_acquires :: nat
  tt_sink_wait_ns :: nat
  tt_runtime_sink_acquires :: nat
  tt_runtime_sink_wait_ns :: nat
  tt_sink_commits :: nat
  tt_sink_commit_ns :: nat
  tt_source_bytes :: nat
  tt_wal_write_bytes :: nat

definition totals_default :: TelemetryTotals where
  "totals_default = \<lparr>tt_s3_retries = 0, tt_glue_retries = 0, tt_uploads = 0, tt_upload_latency_ns = 0, tt_decode_acquires = 0, tt_decode_wait_ns = 0,
     tt_sink_acquires = 0, tt_sink_wait_ns = 0, tt_runtime_sink_acquires = 0, tt_runtime_sink_wait_ns = 0, tt_sink_commits = 0, tt_sink_commit_ns = 0,
     tt_source_bytes = 0, tt_wal_write_bytes = 0\<rparr>"

record FlushTunerState =
  ft_initialized :: bool
  ft_current :: FlushBudgetSnapshot
  ft_caps :: FlushBudgetCaps
  ft_previous :: TelemetryTotals
  ft_last_tuned :: "nat option"
  ft_s3_retry_ema_x100 :: nat
  ft_glue_retry_ema_x100 :: nat
  ft_policy :: FlushBudgetPolicyState
  ft_last_pressure :: IngestPressureClass

definition tuner_default :: FlushTunerState where
  "tuner_default = \<lparr>ft_initialized = False, ft_current = snapshot_default, ft_caps = caps_for_machine 2 None, ft_previous = totals_default, ft_last_tuned = None,
     ft_s3_retry_ema_x100 = 0, ft_glue_retry_ema_x100 = 0, ft_policy = policy_default, ft_last_pressure = Neutral\<rparr>"

definition env_cap :: "(string \<Rightarrow> string) \<Rightarrow> string \<Rightarrow> nat option" where
  "env_cap getenv name = (case parse_uint 64 (getenv name) of Some v \<Rightarrow> if 0 < v then Some v else None | None \<Rightarrow> None)"

definition min_env_caps :: "(string \<Rightarrow> string) \<Rightarrow> nat \<Rightarrow> string list \<Rightarrow> nat" where
  "min_env_caps getenv dflt names = max (fold (\<lambda>v acc. min acc v) (List.map_filter (env_cap getenv) names) dflt) 1"

definition caps_from_env :: "(string \<Rightarrow> string) \<Rightarrow> nat \<Rightarrow> nat option \<Rightarrow> FlushBudgetCaps" where
  "caps_from_env getenv num_cpus total_memory_bytes =
     (let caps = caps_for_machine num_cpus total_memory_bytes;
          wal_cap = min_env_caps getenv (cp_scheduler_jobs caps) [''WAL_COMPACTION_CONCURRENCY_MAX'', ''WAL_COMPACTION_CONCURRENCY''];
          scheduler_jobs = min (cp_scheduler_jobs caps) wal_cap;
          safe = max (min (case env_cap getenv ''WAL_COMPACTION_INGEST_SAFE_CAP'' of Some v \<Rightarrow> v | None \<Rightarrow> cp_ingest_safe_scheduler_jobs caps) scheduler_jobs) 1;
          per_sink_cap = min_env_caps getenv (cp_sink_sessions caps) [''WAL_COMPACTIONS_PER_SINK_MAX'', ''WAL_COMPACTIONS_PER_SINK''];
          runtime_session_cap = min_env_caps getenv (cp_sink_sessions caps) [''RUNTIME_SINK_SESSION_TARGET'', ''RUNTIME_SINK_SESSION_BUDGET''];
          upload_cap = min_env_caps getenv (cp_upload_sessions caps) [''UPLOAD_CONCURRENCY_MAX'', ''UPLOAD_CONCURRENCY'']
      in caps\<lparr>cp_scheduler_jobs := scheduler_jobs, cp_decode_jobs := min (cp_decode_jobs caps) wal_cap, cp_ingest_safe_scheduler_jobs := safe,
           cp_sink_sessions := min (min (cp_sink_sessions caps) per_sink_cap) runtime_session_cap,
           cp_upload_sessions := min (cp_upload_sessions caps) upload_cap, cp_multipart_parts := min (cp_multipart_parts caps) upload_cap,
           cp_catalog_operations := min (min_env_caps getenv (cp_catalog_operations caps) [''ATHENA_GLUE_CP_MAX'', ''ATHENA_GLUE_CONTROL_PLANE_CONCURRENCY'']) 32\<rparr>)"

definition seed_budget :: "FlushBudgetCaps \<Rightarrow> FlushBudgetSnapshot" where
  "seed_budget caps = cap_snapshot \<lparr>fb_scheduler_jobs = 2, fb_decode_jobs = 2, fb_sink_sessions = 2, fb_upload_sessions = 4, fb_multipart_parts = 2,
     fb_catalog_operations = 2, fb_ingest_reserved_cores = cp_ingest_reserved_cores caps, fb_generation = 1, fb_reason = EnvironmentCaps\<rparr> caps False"

definition ema_x100 :: "nat \<Rightarrow> nat \<Rightarrow> nat" where
  "ema_x100 previous delta = sat_add64 (sat_mul64 previous 80) (sat_mul64 (sat_mul64 delta 100) 20) div 100"

definition delta_average_ms :: "nat \<Rightarrow> nat \<Rightarrow> nat \<Rightarrow> nat \<Rightarrow> nat option" where
  "delta_average_ms total_count previous_count total_ns previous_ns = (let count = total_count - previous_count in
     if 0 < count then Some ((total_ns - previous_ns) div count div 1000000) else None)"

text \<open>What a sample reads besides the totals. The two rates are divisions in \<open>f64\<close> that no decision uses.\<close>

record tuner_reading =
  rd_num_cpus :: nat
  rd_totals :: TelemetryTotals
  rd_now_ns :: nat
  rd_mode :: FlushMode
  rd_has_backlog :: bool
  rd_active_ingest :: nat
  rd_queued_ingest :: nat
  rd_ready_depth :: nat
  rd_compaction_active :: nat
  rd_run_queue :: "rat option"
  rd_rss :: "nat option"
  rd_total_memory :: "nat option"
  rd_available_memory :: "nat option"
  rd_runtime_sink_waiters :: nat
  rd_uploads_in_flight :: nat
  rd_oldest_sink_write_ms :: "nat option"
  rd_wal_pending :: nat
  rd_wal_capacity :: nat
  rd_wal_persist_avg_ms :: "nat option"
  rd_wal_ack_avg_ms :: "nat option"
  rd_source_bytes_per_sec :: nat
  rd_wal_write_bytes_per_sec :: nat
  rd_s3_retry_ema :: nat
  rd_glue_retry_ema :: nat

definition apply_env_caps :: "(string \<Rightarrow> string) \<Rightarrow> tuner_reading \<Rightarrow> FlushTunerState \<Rightarrow> FlushTunerState" where
  "apply_env_caps getenv rd st =
     (if ft_initialized st then st
      else let caps = caps_from_env getenv (max (rd_num_cpus rd) 2) (rd_total_memory rd) in
        st\<lparr>ft_caps := caps, ft_current := seed_budget caps, ft_previous := rd_totals rd, ft_s3_retry_ema_x100 := rd_s3_retry_ema rd,
           ft_glue_retry_ema_x100 := rd_glue_retry_ema rd, ft_last_tuned := Some (rd_now_ns rd), ft_initialized := True\<rparr>)"

definition reading_signals :: "tuner_reading \<Rightarrow> TelemetryTotals \<Rightarrow> nat \<Rightarrow> nat \<Rightarrow> nat \<Rightarrow> nat \<Rightarrow> FlushBudgetSignals" where
  "reading_signals rd previous s3_retries s3_ema glue_retries glue_ema =
     (let t = rd_totals rd;
          compaction_sink_wait = delta_average_ms (tt_sink_acquires t) (tt_sink_acquires previous) (tt_sink_wait_ns t) (tt_sink_wait_ns previous);
          runtime_sink_wait = delta_average_ms (tt_runtime_sink_acquires t) (tt_runtime_sink_acquires previous) (tt_runtime_sink_wait_ns t) (tt_runtime_sink_wait_ns previous)
      in \<lparr>si_mode = Some (rd_mode rd), si_has_backlog = rd_has_backlog rd, si_active_ingest = rd_active_ingest rd, si_queued_ingest = rd_queued_ingest rd,
          si_scheduler_ready_depth = rd_ready_depth rd, si_cpu_active_tasks = sat_add64 (rd_active_ingest rd) (rd_compaction_active rd),
          si_run_queue = rd_run_queue rd, si_process_rss_bytes = rd_rss rd, si_total_memory_bytes = rd_total_memory rd, si_available_memory_bytes = rd_available_memory rd,
          si_decode_permit_wait_ms = delta_average_ms (tt_decode_acquires t) (tt_decode_acquires previous) (tt_decode_wait_ns t) (tt_decode_wait_ns previous),
          si_sink_permit_wait_ms = (case (compaction_sink_wait, runtime_sink_wait) of (Some a, Some b) \<Rightarrow> Some (max a b) | (Some a, None) \<Rightarrow> Some a | (None, b) \<Rightarrow> b),
          si_runtime_sink_waiters = rd_runtime_sink_waiters rd, si_uploads_in_flight = rd_uploads_in_flight rd,
          si_upload_latency_ms = delta_average_ms (tt_uploads t) (tt_uploads previous) (tt_upload_latency_ns t) (tt_upload_latency_ns previous),
          si_sink_commit_ms = delta_average_ms (tt_sink_commits t) (tt_sink_commits previous) (tt_sink_commit_ns t) (tt_sink_commit_ns previous),
          si_oldest_sink_write_ms = rd_oldest_sink_write_ms rd, si_s3_retries = s3_retries, si_s3_retry_ema_x100 = s3_ema,
          si_glue_retries = glue_retries, si_glue_retry_ema_x100 = glue_ema, si_wal_writer_pending = rd_wal_pending rd, si_wal_writer_capacity = rd_wal_capacity rd,
          si_wal_persist_avg_ms = rd_wal_persist_avg_ms rd, si_wal_ack_avg_ms = rd_wal_ack_avg_ms rd,
          si_source_bytes_per_sec = rd_source_bytes_per_sec rd, si_wal_write_bytes_per_sec = rd_wal_write_bytes_per_sec rd\<rparr>)"

definition update_flush_budget :: "(string \<Rightarrow> string) \<Rightarrow> tuner_reading \<Rightarrow> FlushTunerState \<Rightarrow> FlushTunerState \<times> FlushBudgetSnapshot" where
  "update_flush_budget getenv rd st0 =
     (let st = apply_env_caps getenv rd st0;
          s3_retries = tt_s3_retries (rd_totals rd) - tt_s3_retries (ft_previous st);
          glue_retries = tt_glue_retries (rd_totals rd) - tt_glue_retries (ft_previous st)
      in if \<not> (0 < s3_retries \<or> 0 < glue_retries) \<and> (case ft_last_tuned st of Some t0 \<Rightarrow> rd_now_ns rd - t0 < TUNE_INTERVAL_NS | None \<Rightarrow> False)
         then (st, ft_current st)
         else let s3_ema = ema_x100 (ft_s3_retry_ema_x100 st) s3_retries; glue_ema = ema_x100 (ft_glue_retry_ema_x100 st) glue_retries;
                  s = reading_signals rd (ft_previous st) s3_retries s3_ema glue_retries glue_ema;
                  pressure = classify_pressure s (ft_caps st); previous = ft_current st in
           case compute_flush_budget previous (ft_caps st) s (ft_policy st) of (next_sn, next_policy) \<Rightarrow>
             (let st1 = st\<lparr>ft_s3_retry_ema_x100 := s3_ema, ft_glue_retry_ema_x100 := glue_ema, ft_policy := next_policy, ft_last_pressure := pressure,
                    ft_previous := rd_totals rd, ft_last_tuned := Some (rd_now_ns rd)\<rparr>;
                  st2 = (if \<not> same_limits previous next_sn \<or> fb_reason previous \<noteq> fb_reason next_sn then st1\<lparr>ft_current := next_sn\<rparr> else st1)
              in (st2, ft_current st2)))"

section \<open>Limits\<close>

definition caps_ok :: "FlushBudgetCaps \<Rightarrow> bool" where
  "caps_ok caps \<longleftrightarrow> 1 \<le> cp_scheduler_jobs caps \<and> 1 \<le> cp_decode_jobs caps \<and> cp_decode_jobs caps \<le> cp_scheduler_jobs caps \<and> 1 \<le> cp_sink_sessions caps
     \<and> 1 \<le> cp_upload_sessions caps \<and> 1 \<le> cp_multipart_parts caps \<and> 1 \<le> cp_catalog_operations caps \<and> 1 \<le> cp_ingest_safe_scheduler_jobs caps
     \<and> cp_ingest_safe_scheduler_jobs caps \<le> cp_scheduler_jobs caps"

definition within_caps :: "FlushBudgetCaps \<Rightarrow> FlushBudgetSnapshot \<Rightarrow> bool" where
  "within_caps caps sn \<longleftrightarrow> fb_scheduler_jobs sn \<in> {1..cp_scheduler_jobs caps} \<and> fb_decode_jobs sn \<in> {1..cp_decode_jobs caps} \<and> fb_sink_sessions sn \<in> {1..cp_sink_sessions caps}
     \<and> fb_upload_sessions sn \<in> {1..cp_upload_sessions caps} \<and> fb_multipart_parts sn \<in> {1..cp_multipart_parts caps}
     \<and> fb_catalog_operations sn \<in> {1..cp_catalog_operations caps} \<and> fb_ingest_reserved_cores sn = cp_ingest_reserved_cores caps"

lemma cap_snapshot_within: "caps_ok caps \<Longrightarrow> within_caps caps (cap_snapshot sn caps busy)"
  by (auto simp: within_caps_def cap_snapshot_def caps_ok_def clamp_def scheduler_cap_def Let_def)

lemma within_same: "within_caps caps a \<Longrightarrow> same_limits a b \<Longrightarrow> within_caps caps b"
  by (simp add: within_caps_def same_limits_def)

lemma same_limits_sym: "same_limits a b \<longleftrightarrow> same_limits b a"
  by (auto simp: same_limits_def)

lemma cap_snapshot_id: "caps_ok caps \<Longrightarrow> within_caps caps sn \<Longrightarrow> same_limits sn (cap_snapshot sn caps False)"
  by (auto simp: within_caps_def cap_snapshot_def caps_ok_def clamp_def scheduler_cap_def same_limits_def Let_def)

lemma finish_decision_within: "within_caps caps next_sn \<Longrightarrow> within_caps caps (finish_decision current next_sn reason)"
  using within_same[of caps next_sn current] by (auto simp: finish_decision_def same_limits_sym within_caps_def)

lemma backoff_within:
  assumes "within_caps caps sn"
  shows "within_caps caps (multiplicative_backoff sn)" "within_caps caps (multiplicative_sink_upload_backoff sn)" "within_caps caps (additive_idle_decrease sn)"
  using assms by (auto simp: within_caps_def multiplicative_backoff_def multiplicative_sink_upload_backoff_def additive_idle_decrease_def)

lemma growth_within: "within_caps caps sn \<Longrightarrow> within_caps caps (additive_growth sn caps s)"
  by (auto simp: within_caps_def additive_growth_def sat_add64_def MAX64_def scheduler_additive_step_def clamp_def Let_def)

lemma safeguard_within: "safeguard s caps = Some (reason, backoff) \<Longrightarrow> within_caps caps' sn \<Longrightarrow> within_caps caps' (backoff sn)"
  using backoff_within[of caps' sn] by (auto simp: safeguard_def split: if_splits)

lemma hold_within: "within_caps caps (hold b sn) = within_caps caps sn"
  by (simp add: hold_def within_caps_def)

lemma compute_within:
  assumes "caps_ok caps"
  shows "within_caps caps (fst (compute_flush_budget sn caps s po))"
proof (cases "same_limits sn (cap_snapshot sn caps False)")
  case False
  then show ?thesis using finish_decision_within[OF cap_snapshot_within[OF assms]] by (simp add: compute_flush_budget_def finish_with_policy_def Let_def)
next
  case True
  have w: "within_caps caps sn" using within_same[OF cap_snapshot_within[OF assms]] True by (simp add: same_limits_sym)
  have g: "within_caps caps (fst (case safeguard s caps of Some (reason, backoff) \<Rightarrow> finish_with_policy sn (backoff sn) reason p | None \<Rightarrow> q))"
    if "within_caps caps (fst q)" for p q
    using that safeguard_within[OF _ w] by (auto simp: finish_with_policy_def intro!: finish_decision_within split: option.split)
  show ?thesis using True w backoff_within[OF w] growth_within[OF w] backoff_within(2)[OF cap_snapshot_within[OF assms]]
    by (auto simp: compute_flush_budget_def Let_def hold_within finish_with_policy_def intro!: g finish_decision_within)
qed

lemma min_env_caps_pos: "1 \<le> min_env_caps getenv d names"
  by (simp add: min_env_caps_def)

lemma clamp_ge: "lo \<le> hi \<Longrightarrow> lo \<le> clamp lo hi x"
  by (simp add: clamp_def)

lemma clamp_twice: "x \<le> n \<Longrightarrow> clamp 1 128 x \<le> clamp 2 128 (sat_mul64 n 2)"
  by (simp add: clamp_def sat_mul64_def MAX64_def min_def max_def)

lemma caps_for_machine_ok: "caps_ok (caps_for_machine n m)"
proof -
  let ?n = "max n 2"
  have "(case g of Some gib \<Rightarrow> min ?n (sat_mul64 gib 2) | None \<Rightarrow> ?n) \<le> ?n" for g by (cases g) simp_all
  then have d: "clamp 1 128 (case g of Some gib \<Rightarrow> min ?n (sat_mul64 gib 2) | None \<Rightarrow> ?n) \<le> clamp 2 128 (sat_mul64 ?n 2)" for g by (rule clamp_twice)
  have c: "1 \<le> clamp 2 hi x" if "2 \<le> hi" for hi x using clamp_ge[of 2 hi x] that by simp
  show ?thesis unfolding caps_ok_def caps_for_machine_def Let_def using c d[of "map_option (\<lambda>bytes. min (max (bytes div (1024 * 1024 * 1024)) 1) MAX64) m"] clamp_ge[of 1 128] by (simp add: le_max_iff_disj)
qed

lemma caps_from_env_ok: "caps_ok (caps_from_env getenv n m)"
proof -
  note m = caps_for_machine_ok[of n m, unfolded caps_ok_def] and p = min_env_caps_pos[of getenv]
  show ?thesis using m p unfolding caps_ok_def caps_from_env_def Let_def by (simp add: min_le_iff_disj le_max_iff_disj)
qed

section \<open>Hysteresis\<close>

text \<open>The states of a run of samples.\<close>

fun budget_after :: "FlushBudgetCaps \<Rightarrow> FlushBudgetSignals list \<Rightarrow> FlushBudgetSnapshot \<times> FlushBudgetPolicyState \<Rightarrow> FlushBudgetSnapshot \<times> FlushBudgetPolicyState" where
  "budget_after caps [] st = st"
| "budget_after caps (s # sigs) (sn, po) = budget_after caps sigs (compute_flush_budget sn caps s po)"

lemma budget_after_snoc: "budget_after caps (sigs @ [s]) st = (case budget_after caps sigs st of (sn, po) \<Rightarrow> compute_flush_budget sn caps s po)"
  by (induction caps sigs st rule: budget_after.induct) (auto split: prod.split)

lemma budget_after_Suc: "k < length sigs \<Longrightarrow> budget_after caps (take (Suc k) sigs) st = (case budget_after caps (take k sigs) st of (sn, po) \<Rightarrow> compute_flush_budget sn caps (sigs ! k) po)"
  by (simp add: take_Suc_conv_app_nth budget_after_snoc)

definition grew :: "FlushBudgetSnapshot \<Rightarrow> FlushBudgetSnapshot \<Rightarrow> bool" where
  "grew a b \<longleftrightarrow> fb_scheduler_jobs a < fb_scheduler_jobs b \<or> fb_decode_jobs a < fb_decode_jobs b \<or> fb_sink_sessions a < fb_sink_sessions b
     \<or> fb_upload_sessions a < fb_upload_sessions b \<or> fb_multipart_parts a < fb_multipart_parts b \<or> fb_catalog_operations a < fb_catalog_operations b"

definition backs_off :: "FlushBudgetCaps \<Rightarrow> FlushBudgetSignals \<Rightarrow> bool" where
  "backs_off caps s \<longleftrightarrow> classify_pressure s caps = Pressured \<or> safeguard s caps \<noteq> None"

lemma observe_cooldown [simp]: "po_growth_cooldown_remaining (observe_policy s p po) = po_growth_cooldown_remaining po"
  by (cases p) (simp_all add: observe_policy_def Let_def)

lemma cooldown_marked:
  assumes "caps_ok caps" "within_caps caps sn" "backs_off caps s" "compute_flush_budget sn caps s po = (sn', po')"
  shows "po_growth_cooldown_remaining po' = GROWTH_COOLDOWN_SAMPLES"
  using assms cap_snapshot_id[OF assms(1,2)]
  by (auto simp: compute_flush_budget_def backs_off_def finish_with_policy_def mark_backoff_cooldown_def Let_def split: if_splits)

lemma cooldown_falls_by_one:
  assumes "compute_flush_budget sn caps s po = (sn', po')"
  shows "min (po_growth_cooldown_remaining po - 1) GROWTH_COOLDOWN_SAMPLES \<le> po_growth_cooldown_remaining po'"
  using assms by (auto simp: compute_flush_budget_def finish_with_policy_def mark_backoff_cooldown_def Let_def split: if_splits option.splits)

definition one_step :: "FlushBudgetCaps \<Rightarrow> FlushBudgetSnapshot \<Rightarrow> FlushBudgetSnapshot \<Rightarrow> bool" where
  "one_step caps a b \<longleftrightarrow> (let k = scheduler_additive_step (cp_num_cpus caps) in
     fb_scheduler_jobs b \<le> fb_scheduler_jobs a + k \<and> fb_decode_jobs b \<le> fb_decode_jobs a + k \<and> fb_sink_sessions b \<le> fb_sink_sessions a + 1
     \<and> fb_upload_sessions b \<le> fb_upload_sessions a + k \<and> fb_multipart_parts b \<le> fb_multipart_parts a + 1 \<and> fb_catalog_operations b \<le> fb_catalog_operations a + 1)"

lemma not_grew:
  assumes "within_caps caps sn"
  shows "\<not> grew sn sn" "\<not> grew sn (hold b sn)" "\<not> grew sn (multiplicative_backoff sn)" "\<not> grew sn (multiplicative_sink_upload_backoff sn)"
    "\<not> grew sn (additive_idle_decrease sn)" "\<not> grew sn (multiplicative_sink_upload_backoff (cap_snapshot sn caps True))"
  using assms by (auto simp: grew_def hold_def multiplicative_backoff_def multiplicative_sink_upload_backoff_def additive_idle_decrease_def within_caps_def
      cap_snapshot_def clamp_def Let_def)

lemma not_grew_finish: "\<not> grew sn next_sn \<Longrightarrow> \<not> grew sn (finish_decision sn next_sn reason)"
  by (auto simp: grew_def finish_decision_def)

lemma growth_one_step: "one_step caps sn (additive_growth sn caps s)"
  by (auto simp: one_step_def additive_growth_def sat_add64_def Let_def)

lemma finish_one_step: "one_step caps sn next_sn \<Longrightarrow> one_step caps sn (finish_decision sn next_sn reason)"
  by (simp add: one_step_def finish_decision_def Let_def)

lemma safeguard_not_grew: "safeguard s caps' = Some (reason, backoff) \<Longrightarrow> within_caps caps sn \<Longrightarrow> \<not> grew sn (backoff sn)"
  using not_grew[of caps sn] by (auto simp: safeguard_def split: if_splits)

lemma growth_gate:
  assumes caps: "caps_ok caps" "within_caps caps sn" and run: "compute_flush_budget sn caps s po = (sn', po')" and g: "grew sn sn'"
  shows "po_growth_cooldown_remaining po = 0" "\<not> backs_off caps s" "one_step caps sn sn'"
    "signals_mode s = Ingest \<Longrightarrow> classify_pressure s caps = Quiet \<and> QUIET_SAMPLES_BEFORE_GROWTH \<le> po_quiet_streak (observe_policy s Quiet po)"
proof -
  note id = cap_snapshot_id[OF caps]
  note no = not_grew[OF caps(2)] not_grew_finish
  have np: "classify_pressure s caps \<noteq> Pressured" using run g id no by (auto simp: compute_flush_budget_def finish_with_policy_def Let_def)
  have ns: "safeguard s caps = None"
  proof (rule ccontr)
    assume "safeguard s caps \<noteq> None"
    then obtain reason backoff where b: "safeguard s caps = Some (reason, backoff)" by auto
    then show False using run g id np not_grew_finish[OF safeguard_not_grew[OF b caps(2)]] by (auto simp: compute_flush_budget_def finish_with_policy_def Let_def)
  qed
  then show "\<not> backs_off caps s" using np by (simp add: backs_off_def)
  let ?p = "classify_pressure s caps" let ?po = "observe_policy s ?p po"
  have cd: "po_growth_cooldown_remaining ?po = 0" and may: "signals_mode s = Drain \<or> signals_mode s = Paused \<or> ?p = Quiet \<and> QUIET_SAMPLES_BEFORE_GROWTH \<le> po_quiet_streak ?po"
    and sn': "\<exists>reason. sn' = finish_decision sn (additive_growth sn caps s) reason"
    using run g id np ns no by (auto simp: compute_flush_budget_def finish_with_policy_def Let_def split: if_splits)
  show "po_growth_cooldown_remaining po = 0" using cd by simp
  show "one_step caps sn sn'" using sn' finish_one_step[OF growth_one_step] by blast
  show "signals_mode s = Ingest \<Longrightarrow> ?p = Quiet \<and> QUIET_SAMPLES_BEFORE_GROWTH \<le> po_quiet_streak (observe_policy s Quiet po)" using may by auto
qed

lemma after_within: "caps_ok caps \<Longrightarrow> within_caps caps (fst st) \<Longrightarrow> within_caps caps (fst (budget_after caps sigs st))"
  by (induction caps sigs st rule: budget_after.induct) (auto simp: compute_within)

lemma cooldown_run:
  assumes caps: "caps_ok caps" "within_caps caps (fst st)" and j: "backs_off caps (sigs ! j)"
  shows "j < k \<Longrightarrow> k \<le> length sigs \<Longrightarrow> GROWTH_COOLDOWN_SAMPLES - (k - Suc j) \<le> po_growth_cooldown_remaining (snd (budget_after caps (take k sigs) st))"
proof (induction k)
  case (Suc k)
  obtain sn po where b: "budget_after caps (take k sigs) st = (sn, po)" by fastforce
  obtain sn' po' where c: "compute_flush_budget sn caps (sigs ! k) po = (sn', po')" by fastforce
  have after: "budget_after caps (take (Suc k) sigs) st = (sn', po')" using Suc.prems b c by (simp add: budget_after_Suc)
  show ?case
  proof (cases "k = j")
    case True
    have "within_caps caps sn" using after_within[OF caps, of "take k sigs"] b by simp
    then show ?thesis using cooldown_marked[OF caps(1) _ j] c True after by simp
  next
    case False
    then have "GROWTH_COOLDOWN_SAMPLES - (k - Suc j) \<le> po_growth_cooldown_remaining po" using Suc b by simp
    then show ?thesis using cooldown_falls_by_one[OF c] False Suc.prems after by auto
  qed
qed simp

lemma quiet_streak_observe: "po_quiet_streak (observe_policy s p po) = (if p = Quiet then min (po_quiet_streak po + 1) QUIET_SAMPLES_BEFORE_GROWTH else 0)"
  by (cases p) (simp_all add: observe_policy_def Let_def)

lemma compute_streak:
  assumes "compute_flush_budget sn caps s po = (sn', po')"
  shows "po_quiet_streak po' \<le> po_quiet_streak (observe_policy s (classify_pressure s caps) po)"
  using assms by (auto simp: compute_flush_budget_def finish_with_policy_def mark_backoff_cooldown_def Let_def split: if_splits option.splits)

lemma streak_run:
  assumes "po_quiet_streak (snd st) = 0"
  shows "k \<le> length sigs \<Longrightarrow> m \<le> po_quiet_streak (snd (budget_after caps (take k sigs) st)) \<Longrightarrow> m \<le> k \<and> (\<forall>j<k. k \<le> j + m \<longrightarrow> classify_pressure (sigs ! j) caps = Quiet)"
proof (induction k arbitrary: m)
  case 0
  then show ?case using assms by simp
next
  case (Suc k)
  obtain sn po where b: "budget_after caps (take k sigs) st = (sn, po)" by fastforce
  obtain sn' po' where c: "compute_flush_budget sn caps (sigs ! k) po = (sn', po')" by fastforce
  have m: "m \<le> po_quiet_streak po'" using Suc.prems b c by (simp add: budget_after_Suc)
  show ?case
  proof (cases m)
    case (Suc m')
    then have q: "classify_pressure (sigs ! k) caps = Quiet" "m' \<le> po_quiet_streak po"
      using compute_streak[OF c] m by (auto simp: quiet_streak_observe split: if_splits)
    then have IH: "m' \<le> k" "\<forall>j<k. k \<le> j + m' \<longrightarrow> classify_pressure (sigs ! j) caps = Quiet" using Suc.IH[of m'] Suc.prems(1) b by simp_all
    show ?thesis using IH q(1) Suc by (auto simp: less_Suc_eq)
  qed simp
qed

section \<open>Reachable tuners\<close>

inductive tuner_reachable :: "(string \<Rightarrow> string) \<Rightarrow> FlushTunerState \<Rightarrow> bool" for getenv where
  fresh: "tuner_reachable getenv tuner_default"
| sampled: "tuner_reachable getenv st \<Longrightarrow> update_flush_budget getenv rd st = (st', sn) \<Longrightarrow> tuner_reachable getenv st'"

definition tuner_inv :: "(string \<Rightarrow> string) \<Rightarrow> FlushTunerState \<Rightarrow> bool" where
  "tuner_inv getenv st \<longleftrightarrow> ft_initialized st \<longrightarrow> within_caps (ft_caps st) (ft_current st) \<and> (\<exists>n m. ft_caps st = caps_from_env getenv n m)"

lemma apply_env_caps_inv: "tuner_inv getenv st \<Longrightarrow> tuner_inv getenv (apply_env_caps getenv rd st) \<and> ft_initialized (apply_env_caps getenv rd st)"
  by (auto simp: tuner_inv_def apply_env_caps_def Let_def seed_budget_def intro: cap_snapshot_within caps_from_env_ok)

lemma update_inv:
  assumes "tuner_inv getenv st" "update_flush_budget getenv rd st = (st', sn)"
  shows "tuner_inv getenv st'" "ft_initialized st'" "sn = ft_current st'"
proof -
  let ?st = "apply_env_caps getenv rd st"
  have a: "tuner_inv getenv ?st" "ft_initialized ?st" using apply_env_caps_inv[OF assms(1)] by blast+
  then obtain n m where caps: "ft_caps ?st = caps_from_env getenv n m" by (auto simp: tuner_inv_def)
  have w: "within_caps (ft_caps ?st) (fst (compute_flush_budget sn0 (ft_caps ?st) s po))" for sn0 s po
    unfolding caps by (rule compute_within[OF caps_from_env_ok])
  have "tuner_inv getenv st' \<and> ft_initialized st' \<and> sn = ft_current st'"
    using assms(2) a w caps by (auto simp: update_flush_budget_def Let_def tuner_inv_def split: prod.splits if_splits) (metis fst_conv)+
  then show "tuner_inv getenv st'" "ft_initialized st'" "sn = ft_current st'" by blast+
qed

lemma reachable_tuner_inv: "tuner_reachable getenv st \<Longrightarrow> tuner_inv getenv st"
proof (induction rule: tuner_reachable.induct)
  case fresh
  then show ?case by (simp add: tuner_inv_def tuner_default_def)
next
  case (sampled st rd st' sn)
  then show ?case using update_inv(1) by blast
qed

lemma min_env_caps_le:
  assumes "name \<in> set names" "env_cap getenv name = Some v"
  shows "min_env_caps getenv d names \<le> v"
proof -
  have fold: "fold (\<lambda>v acc. min acc v) vs d \<le> x" if "x \<in> set vs" for x d and vs :: "nat list"
  proof -
    have le: "fold (\<lambda>v acc. min acc v) vs d \<le> d" for vs :: "nat list" and d by (induction vs arbitrary: d) (auto intro: order_trans[OF _ min.cobounded1])
    show ?thesis using that by (induction vs arbitrary: d) (auto intro: order_trans[OF le])
  qed
  have "v \<in> set (List.map_filter (env_cap getenv) names)" using assms by (force simp: List.map_filter_def)
  moreover have "0 < v" using assms(2) by (auto simp: env_cap_def split: option.splits if_splits)
  ultimately show ?thesis using fold by (simp add: min_env_caps_def)
qed

section \<open>Properties\<close>


definition demo_reading :: tuner_reading where
  "demo_reading = \<lparr>rd_num_cpus = 64, rd_totals = totals_default, rd_now_ns = 0, rd_mode = Drain, rd_has_backlog = True, rd_active_ingest = 0, rd_queued_ingest = 0,
     rd_ready_depth = 9, rd_compaction_active = 0, rd_run_queue = None, rd_rss = None, rd_total_memory = None, rd_available_memory = None,
     rd_runtime_sink_waiters = 0, rd_uploads_in_flight = 0, rd_oldest_sink_write_ms = None, rd_wal_pending = 0, rd_wal_capacity = 0,
     rd_wal_persist_avg_ms = None, rd_wal_ack_avg_ms = None, rd_source_bytes_per_sec = 0, rd_wal_write_bytes_per_sec = 0, rd_s3_retry_ema = 0, rd_glue_retry_ema = 0\<rparr>"

definition demo_getenv :: "string \<Rightarrow> string" where
  "demo_getenv name = (if name = ''WAL_COMPACTION_CONCURRENCY'' then ''1'' else [])"


text \<open>C14. The budget grows by one additive step at a time and only after a pause. When a sample raises a limit, none of
  the ten samples before it, nor itself, backed off for pressure or a safeguard; and while ingest runs, it and
  the four samples before it were all quiet.\<close>

theorem growth_is_gated:
  assumes "caps_ok caps" "within_caps caps sn0" "po_quiet_streak po0 = 0" "n < length sigs"
    "grew (fst (budget_after caps (take n sigs) (sn0, po0))) (fst (budget_after caps (take (Suc n) sigs) (sn0, po0)))"
  shows "one_step caps (fst (budget_after caps (take n sigs) (sn0, po0))) (fst (budget_after caps (take (Suc n) sigs) (sn0, po0)))
    \<and> (\<forall>j\<le>n. n \<le> j + 10 \<longrightarrow> \<not> backs_off caps (sigs ! j))
    \<and> (signals_mode (sigs ! n) = Ingest \<longrightarrow> 4 \<le> n \<and> (\<forall>j\<le>n. n \<le> j + 4 \<longrightarrow> classify_pressure (sigs ! j) caps = Quiet))"
proof -
  obtain sn po where b: "budget_after caps (take n sigs) (sn0, po0) = (sn, po)" by fastforce
  obtain sn' po' where c: "compute_flush_budget sn caps (sigs ! n) po = (sn', po')" by fastforce
  have a: "budget_after caps (take (Suc n) sigs) (sn0, po0) = (sn', po')" using assms(4) b c by (simp add: budget_after_Suc)
  have w: "within_caps caps sn" using after_within[OF assms(1), of "(sn0, po0)" "take n sigs"] assms(2) b by simp
  have g: "grew sn sn'" using assms(5) by (simp add: a b)
  note gate = growth_gate[OF assms(1) w c g]
  have "\<not> backs_off caps (sigs ! j)" if "j < n" "n \<le> j + 10" for j
    using cooldown_run[OF assms(1), of "(sn0, po0)" sigs j n] gate(1) that assms(2,4) b by (auto simp: GROWTH_COOLDOWN_SAMPLES_def)
  then have cool: "\<forall>j\<le>n. n \<le> j + 10 \<longrightarrow> \<not> backs_off caps (sigs ! j)" using gate(2) by (auto simp: le_less)
  have quiet: "4 \<le> n \<and> (\<forall>j\<le>n. n \<le> j + 4 \<longrightarrow> classify_pressure (sigs ! j) caps = Quiet)" if "signals_mode (sigs ! n) = Ingest"
  proof -
    have q: "classify_pressure (sigs ! n) caps = Quiet" "4 \<le> po_quiet_streak po"
      using gate(4)[OF that] by (auto simp: quiet_streak_observe QUIET_SAMPLES_BEFORE_GROWTH_def split: if_splits)
    then show ?thesis using streak_run[of "(sn0, po0)" n sigs 4 caps] assms(3,4) b by (auto simp: le_less)
  qed
  show ?thesis using gate(3) cool quiet by (simp add: a b)
qed

definition demo_caps :: FlushBudgetCaps where
  "demo_caps = \<lparr>cp_num_cpus = 8, cp_scheduler_jobs = 16, cp_decode_jobs = 8, cp_sink_sessions = 2, cp_upload_sessions = 4, cp_multipart_parts = 2,
     cp_catalog_operations = 2, cp_ingest_reserved_cores = 2, cp_ingest_safe_scheduler_jobs = 2\<rparr>"

definition demo_snapshot :: "nat \<Rightarrow> FlushBudgetSnapshot" where
  "demo_snapshot k = \<lparr>fb_scheduler_jobs = k, fb_decode_jobs = k, fb_sink_sessions = 2, fb_upload_sessions = 4, fb_multipart_parts = 2,
     fb_catalog_operations = 2, fb_ingest_reserved_cores = 2, fb_generation = 1, fb_reason = EnvironmentCaps\<rparr>"

definition demo_signals :: FlushBudgetSignals where
  "demo_signals = \<lparr>si_mode = None, si_has_backlog = True, si_active_ingest = 0, si_queued_ingest = 0, si_scheduler_ready_depth = 9, si_cpu_active_tasks = 0,
     si_run_queue = None, si_process_rss_bytes = None, si_total_memory_bytes = None, si_available_memory_bytes = Some (4 * 1024 * 1024 * 1024),
     si_decode_permit_wait_ms = None, si_sink_permit_wait_ms = None, si_runtime_sink_waiters = 0, si_uploads_in_flight = 0, si_upload_latency_ms = None,
     si_sink_commit_ms = None, si_oldest_sink_write_ms = None, si_s3_retries = 0, si_s3_retry_ema_x100 = 0, si_glue_retries = 0, si_glue_retry_ema_x100 = 0,
     si_wal_writer_pending = 0, si_wal_writer_capacity = 0, si_wal_persist_avg_ms = None, si_wal_ack_avg_ms = None,
     si_source_bytes_per_sec = 0, si_wal_write_bytes_per_sec = 0\<rparr>"

lemmas tuner_eval = compute_flush_budget_def classify_pressure_def ingest_pressured_def wal_writer_pressured_def memory_healthy_def load_healthy_def retries_healthy_def
  safeguard_def some_ge_def demo_signals_def demo_caps_def sat_mul64_def sat_add64_def MAX64_def observe_policy_def QUIET_SAMPLES_BEFORE_GROWTH_def
  RETRY_BACKOFF_X100_def BACKLOG_GRACE_SAMPLES_def signals_mode_def hold_def Let_def

lemma demo_samples:
  assumes "po_growth_cooldown_remaining po = 0" "same_limits sn (cap_snapshot sn demo_caps False)"
  shows "compute_flush_budget sn demo_caps demo_signals po =
    (let po' = po\<lparr>po_backlog_grace_remaining := 15, po_quiet_streak := min (po_quiet_streak po + 1) 5\<rparr> in
     if 4 \<le> po_quiet_streak po then (finish_decision sn (additive_growth sn demo_caps demo_signals) OpportunisticHeadroom, po') else (sn, po'))"
  using assms by (simp add: tuner_eval finish_with_policy_def)

theorem growth_is_gated_witness:
  "4 \<le> (4::nat) \<and> classify_pressure demo_signals demo_caps = Quiet \<and> \<not> backs_off demo_caps demo_signals"
proof -
  have ok: "caps_ok demo_caps" "within_caps demo_caps (demo_snapshot 2)" by (simp_all add: caps_ok_def within_caps_def demo_caps_def demo_snapshot_def)
  have same: "same_limits (demo_snapshot 2) (cap_snapshot (demo_snapshot 2) demo_caps False)" by (rule cap_snapshot_id[OF ok])
  have after: "budget_after demo_caps (replicate k demo_signals) (demo_snapshot 2, policy_default) =
      (demo_snapshot 2, \<lparr>po_quiet_streak = k, po_growth_cooldown_remaining = 0, po_backlog_grace_remaining = if k = 0 then 0 else 15\<rparr>)" if "k \<le> 4" for k
    using that
  proof (induction k)
    case (Suc k)
    have "replicate (Suc k) demo_signals = replicate k demo_signals @ [demo_signals]" by (simp add: replicate_append_same)
    then show ?case using Suc same by (simp add: budget_after_snoc demo_samples Let_def)
  qed (simp add: policy_default_def)
  have five: "replicate 5 demo_signals = replicate 4 demo_signals @ [demo_signals]" by (simp add: replicate_append_same[symmetric] numeral_eq_Suc)
  have end5: "fst (budget_after demo_caps (replicate 5 demo_signals) (demo_snapshot 2, policy_default)) =
      finish_decision (demo_snapshot 2) (additive_growth (demo_snapshot 2) demo_caps demo_signals) OpportunisticHeadroom"
    unfolding five budget_after_snoc after[OF order_refl] using same by (simp add: demo_samples Let_def)
  have g: "grew (demo_snapshot 2) (finish_decision (demo_snapshot 2) (additive_growth (demo_snapshot 2) demo_caps demo_signals) OpportunisticHeadroom)"
    by (simp add: grew_def finish_decision_def same_limits_def additive_growth_def demo_snapshot_def demo_caps_def demo_signals_def some_ge_def sat_add64_def MAX64_def
        scheduler_additive_step_def clamp_def)
  show ?thesis
    using growth_is_gated[OF ok, of policy_default 4 "replicate 5 demo_signals"] g after[of 4] end5
    by (simp add: policy_default_def signals_mode_def demo_signals_def take_Suc_conv_app_nth) auto
qed

end
