(* ===== verification/Execution_Guards.thy ===== *)
theory Execution_Guards
  imports Compaction_Txn Flush_Tuner
begin

text \<open>
  What keeps concurrent flush work apart: the conflict guards and commit lanes of compaction transactions
  (\<^verbatim>\<open>src/src/buffer/sink_conflict.rs\<close>), the stage permits of one scheduler cycle (\<^verbatim>\<open>buffer/flush_execution_budget.rs\<close>) and
  the permits of catalog operations (\<^verbatim>\<open>src/src/catalog_budget.rs\<close>). A semaphore is the number of its free permits; an
  acquisition that would wait is one that is not granted in this state. Guards and permits are released
  when their holder drops them.
\<close>

section \<open>Sink conflicts\<close>

record SinkConflictKey =
  sk_key :: string
  sk_parallel_safe :: bool

definition sink_conflict_key :: "CompactionTransaction \<Rightarrow> SinkConflictKey" where
  "sink_conflict_key txn =
     (let parallel_safe = (ct_write_policy txn = Append);
          key = (case ct_write_policy txn of
              ReplaceTable \<Rightarrow> ''replace_table:'' @ ct_sink_ref txn @ '':'' @ ct_namespace txn
            | ReplacePartition \<Rightarrow> ''replace_partition:'' @ ct_sink_ref txn @ '':'' @ ct_target_filename txn
            | _ \<Rightarrow> if parallel_safe then ''append:'' @ ct_sink_ref txn @ '':'' @ ct_namespace txn @ '':'' @ ct_id txn
                 else ''serialize:'' @ ct_sink_ref txn @ '':'' @ ct_namespace txn)
      in \<lparr>sk_key = key, sk_parallel_safe = parallel_safe\<rparr>)"

record SinkConflictGuard =
  sg_key :: "string option"

text \<open>The set of active keys, and the lanes with their free permits.\<close>

record sink_locks =
  lk_active :: "string set"
  lk_lanes :: "(string, nat) fmap"

definition try_acquire_sink_conflict :: "CompactionTransaction \<Rightarrow> sink_locks \<Rightarrow> sink_locks \<times> SinkConflictGuard option" where
  "try_acquire_sink_conflict txn lk = (let conflict = sink_conflict_key txn in
     if sk_parallel_safe conflict then (lk, Some \<lparr>sg_key = None\<rparr>)
     else if sk_key conflict \<in> lk_active lk then (lk, None)
     else (lk\<lparr>lk_active := insert (sk_key conflict) (lk_active lk)\<rparr>, Some \<lparr>sg_key = Some (sk_key conflict)\<rparr>))"

definition drop_sink_conflict :: "SinkConflictGuard \<Rightarrow> sink_locks \<Rightarrow> sink_locks" where
  "drop_sink_conflict g lk = (case sg_key g of Some key \<Rightarrow> lk\<lparr>lk_active := lk_active lk - {key}\<rparr> | None \<Rightarrow> lk)"

definition commit_lane_key :: "CompactionTransaction \<Rightarrow> string" where
  "commit_lane_key txn = ct_sink_ref txn @ '':'' @ ct_namespace txn"

text \<open>\<open>acquire_exact_once_commit_lane\<close>: \<open>None\<close> is an acquisition that waits; \<open>Some None\<close> needs no lane.\<close>

definition acquire_exact_once_commit_lane :: "CompactionTransaction \<Rightarrow> sink_locks \<Rightarrow> (sink_locks \<times> string option) option" where
  "acquire_exact_once_commit_lane txn lk =
     (if ct_semantics txn \<noteq> ExactOnce then Some (lk, None)
      else let key = commit_lane_key txn; free = (case fmlookup (lk_lanes lk) key of Some n \<Rightarrow> n | None \<Rightarrow> 1) in
        if 0 < free then Some (lk\<lparr>lk_lanes := fmupd key (free - 1) (lk_lanes lk)\<rparr>, Some key) else None)"

definition release_commit_lane :: "string \<Rightarrow> sink_locks \<Rightarrow> sink_locks" where
  "release_commit_lane key lk = lk\<lparr>lk_lanes := fmupd key (case fmlookup (lk_lanes lk) key of Some n \<Rightarrow> n + 1 | None \<Rightarrow> 1) (lk_lanes lk)\<rparr>"

text \<open>Workers come and go: the live guards with their transactions, and the lanes that are held.\<close>

inductive locks_reachable :: "sink_locks \<Rightarrow> (CompactionTransaction \<times> SinkConflictGuard) list \<Rightarrow> string list \<Rightarrow> bool" where
  start: "locks_reachable \<lparr>lk_active = {}, lk_lanes = fmempty\<rparr> [] []"
| guarded: "locks_reachable lk live held \<Longrightarrow> try_acquire_sink_conflict txn lk = (lk', Some g) \<Longrightarrow> locks_reachable lk' ((txn, g) # live) held"
| refused: "locks_reachable lk live held \<Longrightarrow> try_acquire_sink_conflict txn lk = (lk', None) \<Longrightarrow> locks_reachable lk' live held"
| dropped: "locks_reachable lk (xs @ (txn, g) # ys) held \<Longrightarrow> locks_reachable (drop_sink_conflict g lk) (xs @ ys) held"
| laned: "locks_reachable lk live held \<Longrightarrow> acquire_exact_once_commit_lane txn lk = Some (lk', Some key) \<Longrightarrow> locks_reachable lk' live (key # held)"
| unlaned: "locks_reachable lk live (xs @ key # ys) \<Longrightarrow> locks_reachable (release_commit_lane key lk) live (xs @ ys)"

definition live_keys :: "(CompactionTransaction \<times> SinkConflictGuard) list \<Rightarrow> string list" where
  "live_keys live = List.map_filter (sg_key \<circ> snd) live"

definition lane_free :: "sink_locks \<Rightarrow> string \<Rightarrow> nat" where
  "lane_free lk key = (case fmlookup (lk_lanes lk) key of Some n \<Rightarrow> n | None \<Rightarrow> 1)"

definition locks_inv :: "sink_locks \<Rightarrow> (CompactionTransaction \<times> SinkConflictGuard) list \<Rightarrow> string list \<Rightarrow> bool" where
  "locks_inv lk live held \<longleftrightarrow> distinct (live_keys live) \<and> lk_active lk = set (live_keys live)
     \<and> (\<forall>(txn, g)\<in>set live. sg_key g = (if sk_parallel_safe (sink_conflict_key txn) then None else Some (sk_key (sink_conflict_key txn))))
     \<and> distinct held \<and> (\<forall>key. lane_free lk key = (if key \<in> set held then 0 else 1))"

lemma live_keys_simps [simp]:
  "live_keys [] = []" "live_keys (x # xs) = (case sg_key (snd x) of Some k \<Rightarrow> k # live_keys xs | None \<Rightarrow> live_keys xs)"
  "live_keys (xs @ ys) = live_keys xs @ live_keys ys"
  by (auto simp: live_keys_def List.map_filter_def split: option.split)

lemma live_keys_mem: "k \<in> set (live_keys live) \<longleftrightarrow> (\<exists>(t, g)\<in>set live. sg_key g = Some k)"
  by (induction live) (auto split: option.splits)

lemma lane_acquired:
  assumes "acquire_exact_once_commit_lane txn lk = Some (lk', Some key)"
  shows "0 < lane_free lk key" "lane_free lk' k = (if k = key then lane_free lk key - 1 else lane_free lk k)" "lk_active lk' = lk_active lk"
  using assms by (auto simp: acquire_exact_once_commit_lane_def Let_def lane_free_def split: if_splits)

lemma lane_released: "lane_free lk key = 0 \<Longrightarrow> lane_free (release_commit_lane key lk) k = (if k = key then 1 else lane_free lk k)"
  by (auto simp: release_commit_lane_def lane_free_def split: option.splits)

lemma lane_untouched [simp]: "lane_free (lk\<lparr>lk_active := a\<rparr>) k = lane_free lk k" "lk_active (release_commit_lane key lk) = lk_active lk"
  by (simp_all add: lane_free_def release_commit_lane_def)

lemma locks_reachable_inv: "locks_reachable lk live held \<Longrightarrow> locks_inv lk live held"
proof (induction rule: locks_reachable.induct)
  case start
  then show ?case by (simp add: locks_inv_def lane_free_def)
next
  case (guarded lk live held txn lk' g)
  then show ?case by (auto simp: locks_inv_def try_acquire_sink_conflict_def Let_def split: if_splits)
next
  case (refused lk live held txn lk')
  then show ?case by (auto simp: try_acquire_sink_conflict_def Let_def split: if_splits)
next
  case (dropped lk xs txn g ys held)
  then show ?case by (cases "sg_key g") (auto simp: locks_inv_def drop_sink_conflict_def)
next
  case (laned lk live held txn lk' key)
  then have "key \<notin> set held" using lane_acquired(1)[OF laned.hyps(2)] by (auto simp: locks_inv_def)
  then show ?case using laned.IH lane_acquired(2,3)[OF laned.hyps(2)] by (simp add: locks_inv_def)
next
  case (unlaned lk live xs key ys)
  then have "lane_free lk key = 0" by (simp add: locks_inv_def)
  then show ?case using unlaned.IH by (auto simp: locks_inv_def lane_released)
qed

text \<open>The guard of a live transaction that is not an append has its key, and no other live guard has it.\<close>

lemma live_keys_index:
  assumes "i < length live" "j < length live" "sg_key (snd (live ! i)) = Some k" "sg_key (snd (live ! j)) = Some k" "distinct (live_keys live)"
  shows "i = j"
  using assms
proof (induction live arbitrary: i j)
  case (Cons x live)
  have mem: "k \<in> set (live_keys live)" if "n < length live" "sg_key (snd (live ! n)) = Some k" for n
    using nth_mem[OF that(1)] that(2) by (force simp: live_keys_def List.map_filter_def)
  show ?case
  proof (cases i; cases j)
    fix i' j' assume ij: "i = Suc i'" "j = Suc j'"
    then have "distinct (live_keys live)" using Cons.prems(5) by (simp split: option.splits)
    then show ?thesis using Cons.IH[of i' j'] Cons.prems ij by simp
  qed (use Cons.prems mem in \<open>auto split: option.splits\<close>)
qed simp

section \<open>Stage permits of a scheduler cycle\<close>

record FlushExecutionBudget =
  eb_decode :: nat
  eb_sink :: nat
  eb_scheduler_limit :: nat
  eb_decode_limit :: nat
  eb_sink_limit :: nat
  eb_generation :: nat

definition from_snapshot :: "FlushBudgetSnapshot \<Rightarrow> FlushExecutionBudget" where
  "from_snapshot sn = (let scheduler_limit = max (fb_scheduler_jobs sn) 1; decode_limit = max (fb_decode_jobs sn) 1; sink_limit = max (fb_sink_sessions sn) 1 in
     \<lparr>eb_decode = decode_limit, eb_sink = sink_limit, eb_scheduler_limit = scheduler_limit, eb_decode_limit = decode_limit, eb_sink_limit = sink_limit,
      eb_generation = fb_generation sn\<rparr>)"

definition acquire_decode :: "FlushExecutionBudget \<Rightarrow> FlushExecutionBudget option" where
  "acquire_decode b = (if 0 < eb_decode b then Some (b\<lparr>eb_decode := eb_decode b - 1\<rparr>) else None)"

definition acquire_sink :: "FlushExecutionBudget \<Rightarrow> FlushExecutionBudget option" where
  "acquire_sink b = (if 0 < eb_sink b then Some (b\<lparr>eb_sink := eb_sink b - 1\<rparr>) else None)"

section \<open>Permits of catalog operations\<close>

record CatalogOperationBudget =
  cb_target :: nat
  cb_active :: nat

definition catalog_budget_new :: "nat \<Rightarrow> CatalogOperationBudget" where
  "catalog_budget_new target = \<lparr>cb_target = max target 1, cb_active = 0\<rparr>"

text \<open>The second component says whether the waiting tasks are woken.\<close>

definition catalog_set_target :: "nat \<Rightarrow> CatalogOperationBudget \<Rightarrow> CatalogOperationBudget \<times> bool" where
  "catalog_set_target target b = (b\<lparr>cb_target := max target 1\<rparr>, cb_target b < max target 1)"

text \<open>One turn of \<open>acquire\<close>: \<open>None\<close> waits for a notification and tries again.\<close>

definition catalog_acquire :: "CatalogOperationBudget \<Rightarrow> CatalogOperationBudget option" where
  "catalog_acquire b = (if cb_active b < cb_target b then Some (b\<lparr>cb_active := cb_active b + 1\<rparr>) else None)"

definition catalog_release :: "CatalogOperationBudget \<Rightarrow> CatalogOperationBudget" where
  "catalog_release b = b\<lparr>cb_active := cb_active b - 1\<rparr>"

text \<open>\<open>refresh_process_catalog_operation_budget\<close>, with the override of the tests as its first argument.\<close>

definition refresh_catalog_budget :: "nat \<Rightarrow> FlushBudgetSnapshot \<Rightarrow> CatalogOperationBudget \<Rightarrow> CatalogOperationBudget \<times> nat" where
  "refresh_catalog_budget override sn b = (let target = (if override = 0 then max (fb_catalog_operations sn) 1 else override) in
     (fst (catalog_set_target target b), target))"

text \<open>A run of the budget with the number of permits held and the largest target so far.\<close>

inductive catalog_reachable :: "CatalogOperationBudget \<Rightarrow> nat \<Rightarrow> nat \<Rightarrow> bool" where
  "catalog_reachable (catalog_budget_new t) 0 (max t 1)"
| "catalog_reachable b held peak \<Longrightarrow> catalog_set_target t b = (b', woken) \<Longrightarrow> catalog_reachable b' held (max peak (max t 1))"
| "catalog_reachable b held peak \<Longrightarrow> catalog_acquire b = Some b' \<Longrightarrow> catalog_reachable b' (Suc held) peak"
| "catalog_reachable b (Suc held) peak \<Longrightarrow> catalog_reachable (catalog_release b) held peak"

lemma catalog_permits_bounded:
  "catalog_reachable b held peak \<Longrightarrow> cb_active b = held \<and> held \<le> peak \<and> 1 \<le> cb_target b \<and> cb_target b \<le> peak"
  by (induction rule: catalog_reachable.induct)
    (auto simp: catalog_budget_new_def catalog_set_target_def catalog_acquire_def catalog_release_def split: if_splits)

section \<open>Properties\<close>

text \<open>C15. Conflicting sink writes exclude each other and nothing stays locked. In every state that acquisitions and
  drops lead to, two live guards never belong to transactions with the same conflict key unless they append; an
  acquisition is refused exactly when a live guard has its key; and the exact-once commit lane of a sink and
  namespace is held at most once and granted whenever it is not held.\<close>

theorem sink_writes_exclusive:
  assumes "locks_reachable lk live held"
  shows "(\<forall>i j. i < length live \<and> j < length live \<and> i \<noteq> j \<and> \<not> sk_parallel_safe (sink_conflict_key (fst (live ! i)))
      \<longrightarrow> sk_parallel_safe (sink_conflict_key (fst (live ! j))) \<or> sk_key (sink_conflict_key (fst (live ! i))) \<noteq> sk_key (sink_conflict_key (fst (live ! j))))
    \<and> (snd (try_acquire_sink_conflict txn lk) = None \<longleftrightarrow> ct_write_policy txn \<noteq> Append \<and> (\<exists>(t, g)\<in>set live. sg_key g = Some (sk_key (sink_conflict_key txn))))
    \<and> distinct held
    \<and> (acquire_exact_once_commit_lane txn lk = None \<longleftrightarrow> ct_semantics txn = ExactOnce \<and> commit_lane_key txn \<in> set held)"
proof -
  have inv: "locks_inv lk live held" by (rule locks_reachable_inv[OF assms])
  have key: "sg_key (snd (live ! i)) = Some (sk_key (sink_conflict_key (fst (live ! i))))" if "i < length live" "\<not> sk_parallel_safe (sink_conflict_key (fst (live ! i)))" for i
    using inv nth_mem[OF that(1)] that(2) by (cases "live ! i") (fastforce simp: locks_inv_def)
  have excl: "sk_key (sink_conflict_key (fst (live ! i))) \<noteq> sk_key (sink_conflict_key (fst (live ! j)))"
    if "i < length live" "j < length live" "i \<noteq> j" "\<not> sk_parallel_safe (sink_conflict_key (fst (live ! i)))" "\<not> sk_parallel_safe (sink_conflict_key (fst (live ! j)))" for i j
    using live_keys_index[OF that(1,2) key[OF that(1,4)]] key[OF that(2,5)] that(3) inv by (auto simp: locks_inv_def)
  have "k \<in> lk_active lk \<longleftrightarrow> (\<exists>(t, g)\<in>set live. sg_key g = Some k)" for k
    using inv live_keys_mem by (simp add: locks_inv_def)
  then have refuse: "snd (try_acquire_sink_conflict txn lk) = None \<longleftrightarrow> ct_write_policy txn \<noteq> Append \<and> (\<exists>(t, g)\<in>set live. sg_key g = Some (sk_key (sink_conflict_key txn)))"
    by (simp add: try_acquire_sink_conflict_def Let_def sink_conflict_key_def)
  have lane: "acquire_exact_once_commit_lane txn lk = None \<longleftrightarrow> ct_semantics txn = ExactOnce \<and> lane_free lk (commit_lane_key txn) = 0"
    by (simp add: acquire_exact_once_commit_lane_def lane_free_def Let_def)
  show ?thesis unfolding lane refuse using excl inv by (auto simp: locks_inv_def)
qed

definition demo_txn :: "string \<Rightarrow> CompactionTransaction" where
  "demo_txn i = \<lparr>ct_id = i, ct_sink_ref = ''lake'', ct_namespace = ''db.t'', ct_schema_fingerprint = ''f'', ct_write_policy = ReplaceTable, ct_semantics = ExactOnce,
     ct_refs = [], ct_target_filename = ''p'', ct_created_at_secs = 0, ct_updated_at_secs = 0, ct_attempts = 0, ct_state = TxnPending\<rparr>"

theorem sink_writes_exclusive_witness:
  "\<exists>lk live. locks_reachable lk live [] \<and> length live = 1 \<and> snd (try_acquire_sink_conflict (demo_txn ''2'') lk) = None
     \<and> acquire_exact_once_commit_lane (demo_txn ''2'') lk \<noteq> None"
proof -
  let ?k = "sk_key (sink_conflict_key (demo_txn ''1''))"
  let ?lk = "\<lparr>lk_active = {?k}, lk_lanes = fmempty\<rparr>"
  have "try_acquire_sink_conflict (demo_txn ''1'') \<lparr>lk_active = {}, lk_lanes = fmempty\<rparr> = (?lk, Some \<lparr>sg_key = Some ?k\<rparr>)"
    by (simp add: try_acquire_sink_conflict_def sink_conflict_key_def demo_txn_def)
  then have r: "locks_reachable ?lk [(demo_txn ''1'', \<lparr>sg_key = Some ?k\<rparr>)] []" by (rule locks_reachable.guarded[OF locks_reachable.start])
  have "sk_key (sink_conflict_key (demo_txn ''2'')) = ?k" "ct_write_policy (demo_txn ''2'') \<noteq> Append" by (simp_all add: sink_conflict_key_def demo_txn_def)
  then show ?thesis using sink_writes_exclusive[OF r, of "demo_txn ''2''"] r by (intro exI[of _ ?lk] exI[of _ "[(demo_txn ''1'', \<lparr>sg_key = Some ?k\<rparr>)]"]) simp
qed

end
