(* ===== verification/Spec2Isabelle.thy ===== *)
theory Spec2Isabelle
  imports Wal_Control Cdc_Connectors Ingest_Compaction Catalog_Delivery Execution_Guards
begin

text \<open>
  A model of the durable core of skippr, an engine that moves data from sources through a
  write-ahead log (WAL) to sinks, with the theorems that make that core correct.

  \<^bold>\<open>The program.\<close> Sources deliver rows; the ingest side writes them into WAL segments and commits
  the segments, their parts, offsets and checkpoints in a catalog, under a lease with a fencing
  epoch. Compaction groups the parts of one sink, namespace, partition and schema, applies them
  to the sink as a transaction with a deterministic id, marks them done in a bitmap per
  segment, and drops segments that are complete. Offsets and checkpoints are published to a
  store the sources resume from. Sinks over a remote catalog hand the partitions they wrote to an
  outbox on disk, from which a coordinator registers them. What a source and a sink may promise together is decided from
  capability tables and from the contracts of the source's namespaces.

  \<^bold>\<open>Conventions.\<close> Each definition names the Rust item it translates; where a name clashes with a
  HOL constant it has a prefix. \<open>Result\<close> is a sum with the error on the left, \<open>Option\<close> is
  \<open>option\<close>, structs are records, enums are datatypes. \<open>u8\<close>, \<open>u32\<close> and
  \<open>u64\<close> are words with their wrap-around; \<open>i64\<close> is \<open>int\<close>, reduced to its 64 bits where the
  code takes its bytes; counters that the code bounds by memory (\<open>usize\<close>) are \<open>nat\<close>. A
  \<open>String\<close> is the list of its UTF-8 bytes seen as characters. A \<open>BTreeMap\<close> or \<open>HashMap\<close> is a finite map or an
  association list in key order; a \<open>BTreeSet\<close> read through its first element is a set read
  through its minimum. Operations on \<open>&mut self\<close> return the new state; a failing operation
  returns the state it leaves behind. External code is an argument: the row codec, SHA-256,
  the clock, the sled tree read by migration fallbacks, the plugin manifest lookup.

  \<^bold>\<open>Theories.\<close>
  \<^item> \<^verbatim>\<open>Prelude\<close>: results, machine integers as bytes, UTF-8, decimal printing, trimming,
    joining, and the lemma collections of the development.
  \<^item> \<^verbatim>\<open>Lease\<close> (\<^verbatim>\<open>src/crates/skippr-lease\<close>: identity, paths, error): account and pipeline
    identities, partition keys, the object layout, and error classification.
  \<^item> \<^verbatim>\<open>Catalog_Key\<close>, \<^verbatim>\<open>Catalog_Row\<close>, \<^verbatim>\<open>Catalog_Txn\<close> (\<^verbatim>\<open>skippr-wal-catalog\<close>: key, row, txn, apply):
    sort keys, rows and the completion bitmap, and the plan of a catalog transaction.
  \<^item> \<^verbatim>\<open>Kv_Store\<close> (kv, memory\_kv, store): the key-value contract as the locale
    \<open>skippr_store\<close>, interpreted on the in-memory store.
  \<^item> \<^verbatim>\<open>Wal_Catalog\<close>: what the catalog promises over any store that meets the contract and, by
    interpretation, over the in-memory store: enumeration by pages, atomic commits, a single
    winner per version, sequence numbers that never decrease, fencing of deposed writers, and a
    complete reset. The number of query rounds is bounded by fuel; enumeration is proved to
    return with one round more than the partition has rows.
  \<^item> \<^verbatim>\<open>Offset_Store\<close> (\<^verbatim>\<open>src/src/helpers/offset_store.rs\<close>): publication of committed offsets and
    checkpoints under a fence of epoch and sequence.
  \<^item> \<^verbatim>\<open>Formats\<close> (pipeline\_type, input\_format, output\_format): pipeline types, formats and their
    resolution.
  \<^item> \<^verbatim>\<open>Sink_Semantics\<close>, \<^verbatim>\<open>Cdc_Contracts\<close>, \<^verbatim>\<open>Cdc_Connectors\<close> (\<^verbatim>\<open>plugins/cdc.rs\<close>): capabilities,
    derivation of guarantees, namespace contracts, checkpoints, row metadata, and the tables of
    all built-in connectors.
  \<^item> \<^verbatim>\<open>Source_Contract\<close> (\<^verbatim>\<open>plugins/source_contract.rs\<close>): contracts of a source's namespaces and the
    write policies they ask of a sink.
  \<^item> \<^verbatim>\<open>Compaction_Txn\<close> (compaction\_transaction, sink\_apply\_identity, parts of segment\_file):
    transactions, part identities, and the envelope of an apply.
  \<^item> \<^verbatim>\<open>Segment_File\<close> (\<^verbatim>\<open>buffer/segment_file.rs\<close>): the bytes of a segment as the encoder writes them
    and as the readers parse them: round trip of the metadata, location of payloads and
    sidecars, bounds for arbitrary input, and agreement of the full scan with the index.
  \<^item> \<^verbatim>\<open>Body_Cache\<close> (s3\_wal\_body\_cache, s3\_wal\_memory\_budget): the split of the memory hint between
    ingest admission and the cache of segment bodies, and the cache with its eviction and pin
    guards as a step relation: pinned bodies stay, counters are exact, limits hold.
  \<^item> \<^verbatim>\<open>Wal_Handle\<close> (\<^verbatim>\<open>buffer/wal_handle.rs\<close>): the handle through which a pipeline commits segments and
    control rows, publishes their offsets, records finished slices, reclaims segments, and redoes
    and republishes after a restart. Operations thread the handle's state; the retry loop of the
    publication is a partial function, the optimistic loops have the code's eight attempts, and
    what other writers do in between is a parameter. \<^verbatim>\<open>Wal_Durability\<close> shows that a persisted segment
    is complete, can be repeated and reads back; \<^verbatim>\<open>Wal_Reclaim\<close> when the publication loop ends, that
    completion never loses progress and reclaims only finished and consumed segments, and that the
    redo path does not look at the consumed position; \<^verbatim>\<open>Wal_Control\<close> what control rows commit and
    publish, and that a hint may fail to republish.
  \<^item> \<^verbatim>\<open>Ready_Queue\<close> (\<^verbatim>\<open>buffer/compaction_index.rs\<close>): the closure-aware ready queue as the locale
    \<open>closure_queue\<close>, interpreted on the cached-head implementation.
  \<^item> \<^verbatim>\<open>Manifest_Index\<close> (same file, \<open>ManifestIndex\<close>): live transactions, the slices they fence, and
    their reservation within the limits of the sinks.
  \<^item> \<^verbatim>\<open>Compaction_Index\<close> (same file, \<open>CompactionIndex\<close>): the state of every open slice, its
    classification, promotion and demotion, registration and removal of segments, and the
    operations on manifests. \<^verbatim>\<open>Compaction_Invariant\<close> and \<^verbatim>\<open>Compaction_Ops\<close> hold the invariant and its
    preservation; \<^verbatim>\<open>Compaction_Plan\<close> holds \<open>plan_ready\<close>, whose outer loop is a partial function that
    is proved to return whenever a group may take a slice; \<^verbatim>\<open>Compaction_System\<close> collects all
    operations in a step relation and states the properties of reachable indexes: agreement of
    the derived structures with the slice records, no second scheduling of a referenced slice,
    and safe, work-conserving plans. \<^verbatim>\<open>Compaction_Slices\<close> shows that registered slices are never changed.
  \<^item> \<^verbatim>\<open>Compaction_Scheduler\<close> (\<^verbatim>\<open>buffer/compaction_scheduler.rs\<close>): the work-conserving loop for any planner
    that meets the locale \<open>compaction_planner\<close>, with its runs as an inductive relation that carries
    the started works and the completions.
  \<^item> \<^verbatim>\<open>Ingest_Compaction\<close> (the compaction side of \<^verbatim>\<open>buffer/ingest_buffer.rs\<close>): the segment cache,
    hydration from the catalog, and the planner closure of a cycle, which interprets
    \<open>compaction_planner\<close>: a cycle over it keeps its counts, starts nothing in a failed lane,
    conserves work and returns.
  \<^item> \<^verbatim>\<open>Catalog_Outbox\<close> (\<^verbatim>\<open>catalog_outbox.rs\<close>, intents of \<^verbatim>\<open>runtime_plugins/protocol.rs\<close>): the durable outbox of catalog
    intents, its files, its index in memory, and what of the directory is synced; a step relation with
    failures of the file system, restarts and losses of power. \<^verbatim>\<open>Outbox_Durability\<close> shows that it always
    recovers, that a successful persist is durable within one run and keeps the last intent of each
    identity, that a restart between rename and sync breaks this, and that conditional mutations are exact.
  \<^item> \<^verbatim>\<open>Glue_Executor\<close>, \<^verbatim>\<open>Catalog_Coordinator\<close> (\<^verbatim>\<open>catalog_coordinator.rs\<close>): the requests to Glue over the AWS SDK, and
    the drain of the outbox over any executor, with a small logic of triples for its steps. \<^verbatim>\<open>Catalog_Delivery\<close> shows
    that an entry leaves the outbox only after Glue acknowledged it, that a successful drain settles every
    due entry, and that draining until idle ends.
  \<^item> \<^verbatim>\<open>Flush_Tuner\<close> (\<^verbatim>\<open>ingest/tuner.rs\<close>): the controller of the concurrency limits of the flush pipeline: its limits
    hold for every reading, growth is one step at a time and only after a pause.
  \<^item> \<^verbatim>\<open>Execution_Guards\<close> (\<^verbatim>\<open>buffer/sink_conflict.rs\<close>, \<^verbatim>\<open>buffer/flush_execution_budget.rs\<close>, \<^verbatim>\<open>catalog_budget.rs\<close>): guards, commit lanes
    and permits of concurrent work: conflicting sink writes exclude each other and nothing stays locked.

  \<^bold>\<open>Not modelled.\<close> Object-store, sled and fjall back ends, direct file input and output, network and CLI
  front ends, SQL and Flight query serving, Arrow and Parquet encoders, plugin child processes,
  metrics, and the generated connector schemas: they are input and output, calls into
  libraries, or generated code.
\<close>

section \<open>Properties that span components\<close>

text \<open>Copy pipelines fail closed: of all built-in sinks exactly the object and file sinks accept a
  copy pipeline, with the format of the source's family when none is configured; every other
  sink refuses it whatever the configuration says.\<close>

theorem copy_fails_closed:
  assumes "sink_by_kind j = Some t"
  shows "if j \<in> {SnkS3, SnkGcs, SnkAzureBlob, SnkFile, SnkSftp}
         then sink_resolve_format t None Copy (Some src) = Inr (Some (default_for_copy_source src))
         else is_err (sink_resolve_format t configured Copy source)"
proof (cases "j \<in> {SnkS3, SnkGcs, SnkAzureBlob, SnkFile, SnkSftp}")
  case True
  then show ?thesis using assms
    by (cases src) (auto simp: sink_caps sink_resolve_format_def resolve_output_format_def is_native_set_def
        is_native_def supports_copy_identity_def trimmed_setting_def choose_format_def)
next
  case False
  then show ?thesis using assms
    by (cases j) (auto simp: sink_caps sink_resolve_format_def resolve_output_format_def is_native_set_def
        is_native_def supports_copy_identity_def)
qed

theorem copy_fails_closed_witness:
  "sink_resolve_format SNK_S3 None Copy (Some InCsv) = Inr (Some Csv)
   \<and> is_err (sink_resolve_format SNK_ATHENA (Some ''csv'') Copy (Some InCsv))"
  using copy_fails_closed[of SnkS3 SNK_S3 InCsv None None] copy_fails_closed[of SnkAthena SNK_ATHENA InCsv "Some ''csv''" "Some InCsv"]
  by simp

end
